(* ===== verification/Prelude.thy ===== *)
theory Prelude
  imports Main "HOL-Library.Word"
begin

text \<open>
  Shared vocabulary of the development: the fixed-width C types of
  \<^verbatim>\<open>src/postgresql-12.2/src/include/c.h\<close>, flag tests on bit masks, the
  truncating arithmetic of C, and the generic facts on words, options and lists that the
  component theories use.
\<close>

unbundle bit_operations_syntax

named_theorems flag_simps \<open>facts that turn mask tests into single-bit tests\<close>
named_theorems xid_simps \<open>facts on transaction id comparisons\<close>

section \<open>C types\<close>

type_synonym uint8 = "8 word"
type_synonym uint16 = "16 word"
type_synonym uint32 = "32 word"
type_synonym uint64 = "64 word"
type_synonym TransactionId = "32 word"
type_synonym MultiXactId = "32 word"
type_synonym CommandId = "32 word"
type_synonym XLogRecPtr = "64 word"
type_synonym BlockNumber = "32 word"
type_synonym OffsetNumber = "16 word"

section \<open>Flag tests\<close>

text \<open>The C condition \<^verbatim>\<open>mask & FLAG\<close>.\<close>

definition flag :: "'a::len word \<Rightarrow> 'a word \<Rightarrow> bool" where
  "flag m f \<longleftrightarrow> m AND f \<noteq> 0"

lemma or_eq_0_iff_word: "(a::'a::len word) OR b = 0 \<longleftrightarrow> a = 0 \<and> b = 0"
  by (auto simp: bit_eq_iff bit_or_iff)

lemma flag_or [simp, flag_simps]: "flag (m OR h) f \<longleftrightarrow> flag m f \<or> flag h f"
  by (auto simp: flag_def and.commute bit.conj_disj_distrib or_eq_0_iff_word)

lemma flag_or_right: "flag m (f OR g) \<longleftrightarrow> flag m f \<or> flag m g"
  by (auto simp: flag_def bit.conj_disj_distrib or_eq_0_iff_word)

lemma flag_zero [simp]: "\<not> flag m 0" "\<not> flag 0 f"
  by (simp_all add: flag_def)

text \<open>A mask of disjoint parts is tested part by part.\<close>

lemma mask_split:
  fixes m a b :: "'a::len word"
  assumes "a AND b = 0"
  shows "m AND (a OR b) = b \<longleftrightarrow> m AND a = 0 \<and> m AND b = b"
proof
  assume eq: "m AND (a OR b) = b"
  have "m AND a = (m AND (a OR b)) AND a" and "m AND b = (m AND (a OR b)) AND b"
    by (auto intro!: bit_word_eqI simp: bit_simps)
  with eq assms show "m AND a = 0 \<and> m AND b = b"
    by (simp add: and.commute)
qed (simp add: bit.conj_disj_distrib)

lemma mask_both:
  fixes m a b :: "'a::len word"
  shows "m AND (a OR b) = a OR b \<longleftrightarrow> m AND a = a \<and> m AND b = b"
proof
  assume eq: "m AND (a OR b) = a OR b"
  have "m AND a = (m AND (a OR b)) AND a" and "m AND b = (m AND (a OR b)) AND b"
    by (auto intro!: bit_word_eqI simp: bit_simps)
  moreover have "(a OR b) AND a = a" "(a OR b) AND b = b"
    by (auto intro!: bit_word_eqI simp: bit_simps)
  ultimately show "m AND a = a \<and> m AND b = b"
    using eq by simp
qed (simp add: bit.conj_disj_distrib)

text \<open>A flag that is a single bit is either absent or present in full.\<close>

lemma and_pow_eq:
  fixes m :: "'a::len word"
  shows "m AND 2 ^ n = (if bit m n then 2 ^ n else 0)"
  by (rule bit_word_eqI) (auto simp: bit_simps)

section \<open>Narrowing casts\<close>

lemma ucast_down_plus:
  "LENGTH('b::len) \<le> LENGTH('a::len) \<Longrightarrow>
   (ucast (a + b :: 'a word) :: 'b word) = ucast a + ucast b"
  by transfer (metis take_bit_add take_bit_take_bit min.absorb1)

lemma uint_ucast_down:
  "uint (ucast (w :: 'a::len word) :: 'b::len word) = uint w mod 2 ^ LENGTH('b)"
  by (simp add: unsigned_ucast_eq take_bit_eq_mod)

section \<open>Positions in lists\<close>

text \<open>The index of the first occurrence, or the length.\<close>

definition pos_of :: "'a \<Rightarrow> 'a list \<Rightarrow> nat" where
  "pos_of k xs = length (takeWhile (\<lambda>x. x \<noteq> k) xs)"

lemma pos_of_le: "pos_of k xs \<le> length xs"
  by (simp add: pos_of_def length_takeWhile_le)

lemma pos_of_notin: "k \<notin> set xs \<Longrightarrow> pos_of k xs = length xs"
  unfolding pos_of_def by (induction xs) auto

lemma pos_of_nth: "k \<in> set xs \<Longrightarrow> pos_of k xs < length xs \<and> xs ! pos_of k xs = k"
  unfolding pos_of_def by (induction xs) auto

lemma pos_of_append [simp]:
  "pos_of k (xs @ ys) = (if k \<in> set xs then pos_of k xs else length xs + pos_of k ys)"
  unfolding pos_of_def by (induction xs) auto

lemma pos_of_singleton [simp]: "pos_of k [x] = (if x = k then 0 else 1)"
  by (simp add: pos_of_def)

lemma unat_of_nat_small: "n < 2 ^ LENGTH('a::len) \<Longrightarrow> unat (of_nat n :: 'a word) = n"
  by (simp add: unat_of_nat)

lemma sorted_wrt_last: "sorted_wrt P xs \<Longrightarrow> x \<in> set xs \<Longrightarrow> x = last xs \<or> P x (last xs)"
  by (induction xs) auto

section \<open>Binary search\<close>

text \<open>The loop \<^verbatim>\<open>while (low <= high)\<close> with \<^verbatim>\<open>middle = low + (high - low) / 2\<close> that the C code writes
  out by hand, over an array, a test \<open>eq\<close> that ends the search with success and a test \<open>below\<close>
  that sends it to the upper half.\<close>

function binsearch :: "('a \<Rightarrow> bool) \<Rightarrow> ('a \<Rightarrow> bool) \<Rightarrow> 'a list \<Rightarrow> int \<Rightarrow> int \<Rightarrow> bool" where
  "binsearch eq below xs low high =
     (if low \<le> high then
        let middle = low + (high - low) div 2; probe = xs ! nat middle
        in if eq probe then True
           else if below probe then binsearch eq below xs (middle + 1) high
           else binsearch eq below xs low (middle - 1)
      else False)"
  by pat_completeness auto
termination
  by (relation "measure (\<lambda>(eq, below, xs, low, high). nat (high - low + 1))") auto

declare binsearch.simps [simp del]

text \<open>The part of the array from \<open>lo\<close> up to \<open>hi\<close> is split by the search key: no hit before an element
  below the key, none after an element above it.\<close>

definition search_sorted_in :: "('a \<Rightarrow> bool) \<Rightarrow> ('a \<Rightarrow> bool) \<Rightarrow> 'a list \<Rightarrow> nat \<Rightarrow> nat \<Rightarrow> bool" where
  "search_sorted_in eq below xs lo hi \<longleftrightarrow>
     (\<forall>j<hi. \<forall>i<j. lo \<le> i \<longrightarrow> (below (xs ! j) \<longrightarrow> \<not> eq (xs ! i)) \<and>
        (\<not> below (xs ! i) \<and> \<not> eq (xs ! i) \<longrightarrow> \<not> eq (xs ! j)))"

abbreviation search_sorted :: "('a \<Rightarrow> bool) \<Rightarrow> ('a \<Rightarrow> bool) \<Rightarrow> 'a list \<Rightarrow> bool" where
  "search_sorted eq below xs \<equiv> search_sorted_in eq below xs 0 (length xs)"

lemma search_sorted_below:
  "search_sorted_in eq below xs lo hi \<Longrightarrow> lo \<le> i \<Longrightarrow> i < j \<Longrightarrow> j < hi \<Longrightarrow> below (xs ! j) \<Longrightarrow> \<not> eq (xs ! i)"
  by (simp add: search_sorted_in_def)

lemma search_sorted_above:
  "search_sorted_in eq below xs lo hi \<Longrightarrow> lo \<le> i \<Longrightarrow> i < j \<Longrightarrow> j < hi \<Longrightarrow> \<not> below (xs ! i) \<Longrightarrow> \<not> eq (xs ! i)
   \<Longrightarrow> \<not> eq (xs ! j)"
  by (simp add: search_sorted_in_def)

lemma binsearch_correct:
  assumes "search_sorted_in eq below xs lo hi" "int lo \<le> low" "high < int hi"
  shows "binsearch eq below xs low high \<longleftrightarrow> (\<exists>i. low \<le> int i \<and> int i \<le> high \<and> eq (xs ! i))"
  using assms
proof (induction eq below xs low high rule: binsearch.induct)
  case (1 eq below xs low high)
  show ?case
  proof (cases "low \<le> high")
    case True
    define m where "m = low + (high - low) div 2"
    have m: "low \<le> m" "m \<le> high" using True by (auto simp: m_def)
    note unfold = binsearch.simps [of eq below xs low high] m_def [symmetric]
    have eq_at: "int i < m \<or> m < int i" if "eq (xs ! i)" "\<not> eq (xs ! nat m)" for i
      using that by (cases "int i = m") auto
    consider "eq (xs ! nat m)" | "\<not> eq (xs ! nat m)" "below (xs ! nat m)"
      | "\<not> eq (xs ! nat m)" "\<not> below (xs ! nat m)" by blast
    then show ?thesis
    proof cases
      case 1
      then show ?thesis using True m "1.prems"(2) unfolding unfold
        by (auto simp: Let_def m_def intro!: exI [of _ "nat m"])
    next
      case 2
      have "\<not> eq (xs ! i)" if "low \<le> int i" "int i < m" for i
        using search_sorted_below [OF "1.prems"(1), of i "nat m"] "1.prems"(2,3) m 2 that
        by (simp add: zless_nat_eq_int_zless nat_less_iff)
      then have "m + 1 \<le> int i \<longleftrightarrow> low \<le> int i" if "eq (xs ! i)" for i
        using eq_at [OF that] 2 m that by (smt (verit))
      then have "(\<exists>i. m + 1 \<le> int i \<and> int i \<le> high \<and> eq (xs ! i))
             \<longleftrightarrow> (\<exists>i. low \<le> int i \<and> int i \<le> high \<and> eq (xs ! i))"
        by blast
      then show ?thesis
        using "1.IH"(1) [OF True m_def refl 2] "1.prems" m True 2 unfolding unfold
        by (simp add: Let_def)
    next
      case 3
      have "\<not> eq (xs ! i)" if "m < int i" "int i \<le> high" for i
        using search_sorted_above [OF "1.prems"(1), of "nat m" i] "1.prems"(2,3) m 3 that
        by (simp add: nat_less_iff)
      then have "int i \<le> m - 1 \<longleftrightarrow> int i \<le> high" if "eq (xs ! i)" for i
        using eq_at [OF that] 3 m that by (smt (verit))
      then have "(\<exists>i. low \<le> int i \<and> int i \<le> m - 1 \<and> eq (xs ! i))
             \<longleftrightarrow> (\<exists>i. low \<le> int i \<and> int i \<le> high \<and> eq (xs ! i))"
        by blast
      then show ?thesis
        using "1.IH"(2) [OF True m_def refl 3] "1.prems" m True 3 unfolding unfold
        by (simp add: Let_def)
    qed
  next
    case False
    then show ?thesis by (auto simp: binsearch.simps [of eq below xs low high])
  qed
qed

lemma binsearch_whole:
  assumes "search_sorted eq below xs"
  shows "binsearch eq below xs 0 (int (length xs) - 1) \<longleftrightarrow> (\<exists>x\<in>set xs. eq x)"
  using binsearch_correct [OF assms, of 0 "int (length xs) - 1"]
  by (simp add: Bex_def in_set_conv_nth) (metis (no_types) of_nat_0_le_iff of_nat_less_iff)

lemma sorted_search_sorted:
  assumes "sorted (xs :: 'a::linorder list)"
  shows "search_sorted (\<lambda>x. x = k) (\<lambda>x. x < k) xs"
  unfolding search_sorted_in_def
proof (intro allI impI)
  fix i j assume "j < length xs" "i < j"
  then have "xs ! i \<le> xs ! j"
    using assms by (simp add: sorted_iff_nth_mono)
  then show "(xs ! j < k \<longrightarrow> xs ! i \<noteq> k) \<and> (\<not> xs ! i < k \<and> xs ! i \<noteq> k \<longrightarrow> xs ! j \<noteq> k)"
    by auto
qed

text \<open>The variant that returns the position found, with \<^verbatim>\<open>middle = (first + last) / 2\<close>.\<close>

function binsearch_pos :: "('a \<Rightarrow> bool) \<Rightarrow> ('a \<Rightarrow> bool) \<Rightarrow> 'a list \<Rightarrow> int \<Rightarrow> int \<Rightarrow> nat option" where
  "binsearch_pos eq below xs low high =
     (if low \<le> high then
        let middle = (low + high) div 2; probe = xs ! nat middle
        in if eq probe then Some (nat middle)
           else if below probe then binsearch_pos eq below xs (middle + 1) high
           else binsearch_pos eq below xs low (middle - 1)
      else None)"
  by pat_completeness auto
termination
  by (relation "measure (\<lambda>(eq, below, xs, low, high). nat (high - low + 1))") auto

declare binsearch_pos.simps [simp del]

lemma binsearch_pos_Some:
  "binsearch_pos eq below xs low high = Some i \<Longrightarrow> 0 \<le> low \<Longrightarrow> low \<le> int i \<and> int i \<le> high \<and> eq (xs ! i)"
proof (induction eq below xs low high rule: binsearch_pos.induct)
  case (1 eq below xs low high)
  define m where "m = (low + high) div 2"
  have m: "low \<le> high \<Longrightarrow> low \<le> m \<and> m \<le> high" by (auto simp: m_def)
  from "1.prems" m show ?case
    using "1.IH"(1) [OF _ m_def refl] "1.IH"(2) [OF _ m_def refl]
    by (auto simp: binsearch_pos.simps [of eq below xs low high] m_def [symmetric] Let_def split: if_splits)
qed

text \<open>Both variants find something for the same inputs.\<close>

lemma binsearch_pos_found: "binsearch_pos eq below xs low high \<noteq> None \<longleftrightarrow> binsearch eq below xs low high"
proof (induction eq below xs low high rule: binsearch.induct)
  case (1 eq below xs low high)
  have m: "low + (high - low) div 2 = (low + high) div 2"
    by presburger
  show ?case
    using "1.IH"
    by (subst binsearch_pos.simps, subst binsearch.simps) (simp add: m Let_def)
qed

end
