(* ===== verification/Transam.thy ===== *)
theory Transam
  imports Prelude
begin

text \<open>
  Transaction ids: the special values and the arithmetic of
  \<^verbatim>\<open>src/include/access/transam.h\<close> and the circular comparisons of
  \<^verbatim>\<open>src/backend/access/transam/transam.c\<close>. The theorems relate the modulo-\<open>2^32\<close>
  comparison to the order of the 64-bit full transaction ids it abbreviates.
\<close>

section \<open>Special values and predicates\<close>

definition InvalidTransactionId :: TransactionId where "InvalidTransactionId = 0"
definition BootstrapTransactionId :: TransactionId where "BootstrapTransactionId = 1"
definition FrozenTransactionId :: TransactionId where "FrozenTransactionId = 2"
definition FirstNormalTransactionId :: TransactionId where "FirstNormalTransactionId = 3"

lemmas special_xids = InvalidTransactionId_def BootstrapTransactionId_def
  FrozenTransactionId_def FirstNormalTransactionId_def

definition TransactionIdIsValid :: "TransactionId \<Rightarrow> bool" where
  "TransactionIdIsValid xid \<longleftrightarrow> xid \<noteq> InvalidTransactionId"

definition TransactionIdIsNormal :: "TransactionId \<Rightarrow> bool" where
  "TransactionIdIsNormal xid \<longleftrightarrow> xid \<ge> FirstNormalTransactionId"

section \<open>Full (64-bit) transaction ids\<close>

record FullTransactionId =
  fxid_value :: uint64

definition XidFromFullTransactionId :: "FullTransactionId \<Rightarrow> TransactionId" where
  "XidFromFullTransactionId x = ucast (fxid_value x)"

definition EpochFromFullTransactionId :: "FullTransactionId \<Rightarrow> uint32" where
  "EpochFromFullTransactionId x = ucast (drop_bit 32 (fxid_value x))"

definition FullTransactionIdPrecedes :: "FullTransactionId \<Rightarrow> FullTransactionId \<Rightarrow> bool" where
  "FullTransactionIdPrecedes a b \<longleftrightarrow> fxid_value a < fxid_value b"

definition FullTransactionIdIsValid :: "FullTransactionId \<Rightarrow> bool" where
  "FullTransactionIdIsValid x \<longleftrightarrow> TransactionIdIsValid (XidFromFullTransactionId x)"

definition FullTransactionIdFromEpochAndXid :: "uint32 \<Rightarrow> TransactionId \<Rightarrow> FullTransactionId" where
  "FullTransactionIdFromEpochAndXid epoch xid =
     \<lparr>fxid_value = push_bit 32 (ucast epoch) OR ucast xid\<rparr>"

text \<open>The loop \<^verbatim>\<open>while (XidFromFullTransactionId(*dest) < FirstNormalTransactionId) dest->value++\<close>.\<close>

function skip_special :: "uint64 \<Rightarrow> uint64" where
  "skip_special v =
     (if (ucast v :: TransactionId) < FirstNormalTransactionId then skip_special (v + 1) else v)"
  by pat_completeness auto
termination
proof (relation "measure (\<lambda>v. 3 - unat (ucast v :: TransactionId))")
  fix v :: uint64
  assume "(ucast v :: TransactionId) < FirstNormalTransactionId"
  then have lt: "unat (ucast v :: TransactionId) < 3"
    by (simp add: special_xids word_less_nat_alt)
  have "(ucast (v + 1) :: TransactionId) = ucast v + 1"
    using ucast_down_plus [of v 1, where 'b = 32] by simp
  then show "(v + 1, v) \<in> measure (\<lambda>v. 3 - unat (ucast v :: TransactionId))"
    using lt by (simp add: unat_word_ariths)
qed simp

declare skip_special.simps [simp del]

definition FullTransactionIdAdvance :: "FullTransactionId \<Rightarrow> FullTransactionId" where
  "FullTransactionIdAdvance dest = dest\<lparr>fxid_value := skip_special (fxid_value dest + 1)\<rparr>"

definition TransactionIdAdvance :: "TransactionId \<Rightarrow> TransactionId" where
  "TransactionIdAdvance dest =
     (let dest = dest + 1
      in if dest < FirstNormalTransactionId then FirstNormalTransactionId else dest)"

function TransactionIdRetreat :: "TransactionId \<Rightarrow> TransactionId" where
  "TransactionIdRetreat dest =
     (if dest - 1 < FirstNormalTransactionId then TransactionIdRetreat (dest - 1) else dest - 1)"
  by pat_completeness auto
termination
proof (relation "measure unat")
  fix dest :: TransactionId
  assume a: "dest - 1 < FirstNormalTransactionId"
  have "dest \<noteq> 0"
    using a by (auto simp: special_xids)
  then show "(dest - 1, dest) \<in> measure unat"
    by (simp add: word_less_nat_alt measure_unat)
qed simp

declare TransactionIdRetreat.simps [simp del]

section \<open>Circular comparisons\<close>

text \<open>\<^verbatim>\<open>(int32) (id1 - id2)\<close>: the 32-bit difference read as two's complement.\<close>

definition xid_diff :: "TransactionId \<Rightarrow> TransactionId \<Rightarrow> int" where
  "xid_diff id1 id2 = sint (id1 - id2)"

definition TransactionIdPrecedes :: "TransactionId \<Rightarrow> TransactionId \<Rightarrow> bool" where
  "TransactionIdPrecedes id1 id2 =
     (if \<not> TransactionIdIsNormal id1 \<or> \<not> TransactionIdIsNormal id2 then id1 < id2
      else xid_diff id1 id2 < 0)"

definition TransactionIdPrecedesOrEquals :: "TransactionId \<Rightarrow> TransactionId \<Rightarrow> bool" where
  "TransactionIdPrecedesOrEquals id1 id2 =
     (if \<not> TransactionIdIsNormal id1 \<or> \<not> TransactionIdIsNormal id2 then id1 \<le> id2
      else xid_diff id1 id2 \<le> 0)"

definition TransactionIdFollows :: "TransactionId \<Rightarrow> TransactionId \<Rightarrow> bool" where
  "TransactionIdFollows id1 id2 =
     (if \<not> TransactionIdIsNormal id1 \<or> \<not> TransactionIdIsNormal id2 then id1 > id2
      else xid_diff id1 id2 > 0)"

definition TransactionIdFollowsOrEquals :: "TransactionId \<Rightarrow> TransactionId \<Rightarrow> bool" where
  "TransactionIdFollowsOrEquals id1 id2 =
     (if \<not> TransactionIdIsNormal id1 \<or> \<not> TransactionIdIsNormal id2 then id1 \<ge> id2
      else xid_diff id1 id2 \<ge> 0)"

text \<open>The back-to-front scan of \<^verbatim>\<open>TransactionIdLatest\<close>.\<close>

definition TransactionIdLatest :: "TransactionId \<Rightarrow> TransactionId list \<Rightarrow> TransactionId" where
  "TransactionIdLatest mainxid xids =
     fold (\<lambda>x result. if TransactionIdPrecedes result x then x else result) (rev xids) mainxid"

section \<open>Lemmas\<close>

text \<open>The signed difference in terms of unsigned values.\<close>

lemma xid_diff_uint:
  "xid_diff a b = (uint a - uint b + 2147483648) mod 4294967296 - 2147483648"
proof -
  have "a - b = word_of_int (uint a - uint b)"
    by (simp add: wi_hom_sub [symmetric])
  then have "xid_diff a b = sint (word_of_int (uint a - uint b) :: 32 word)"
    by (simp only: xid_diff_def)
  also have "\<dots> = (uint a - uint b + 2147483648) mod 4294967296 - 2147483648"
    by (simp only: int_word_sint) simp
  finally show ?thesis .
qed

lemma uint_xid_full: "uint (XidFromFullTransactionId x) = uint (fxid_value x) mod 4294967296"
  by (simp add: XidFromFullTransactionId_def uint_ucast_down)

lemma xid_diff_full:
  assumes "\<bar>uint (fxid_value a) - uint (fxid_value b)\<bar> < 2147483648"
  shows "xid_diff (XidFromFullTransactionId a) (XidFromFullTransactionId b)
         = uint (fxid_value a) - uint (fxid_value b)"
proof -
  let ?A = "uint (fxid_value a)" and ?B = "uint (fxid_value b)"
  have "(?A mod 4294967296 - ?B mod 4294967296 + 2147483648) mod 4294967296
        = (?A - ?B + 2147483648) mod 4294967296"
    by (rule mod_add_cong [OF mod_diff_eq refl])
  also have "\<dots> = ?A - ?B + 2147483648"
    using assms by (intro mod_pos_pos_trivial) auto
  finally show ?thesis
    by (simp add: xid_diff_uint uint_xid_full)
qed

lemma not_precedes_iff_follows_eq [xid_simps]:
  "\<not> TransactionIdPrecedes a b \<longleftrightarrow> TransactionIdFollowsOrEquals a b"
  by (auto simp: TransactionIdPrecedes_def TransactionIdFollowsOrEquals_def)

lemma precedes_irrefl [simp]: "\<not> TransactionIdPrecedes a a"
  by (simp add: TransactionIdPrecedes_def xid_diff_def)

lemma precedes_or_equals_iff:
  "TransactionIdPrecedesOrEquals a b \<longleftrightarrow> a = b \<or> TransactionIdPrecedes a b"
proof -
  have "a = b" if "xid_diff a b = 0"
    using that by (simp add: xid_diff_def signed_eq_0_iff)
  then have "xid_diff a b = 0 \<longleftrightarrow> a = b"
    by (auto simp: xid_diff_def)
  then show ?thesis
    by (auto simp: TransactionIdPrecedesOrEquals_def TransactionIdPrecedes_def order_le_less)
qed

lemma valid_iff [xid_simps]: "TransactionIdIsValid x \<longleftrightarrow> x \<noteq> 0"
  by (simp add: TransactionIdIsValid_def special_xids)

lemma normal_iff [xid_simps]: "TransactionIdIsNormal x \<longleftrightarrow> 3 \<le> x"
  by (simp add: TransactionIdIsNormal_def special_xids)

lemma zero_not_normal [simp]: "\<not> TransactionIdIsNormal 0"
  by (simp add: normal_iff)


text \<open>Exactly two ids half the circle apart precede each other both ways.\<close>

lemma circle_both_neg:
  fixes d :: int
  assumes "- 4294967296 < d" "d < 4294967296"
    and "(d + 2147483648) mod 4294967296 < 2147483648"
    and "(- d + 2147483648) mod 4294967296 < 2147483648"
  shows "d = 2147483648 \<or> d = - 2147483648"
proof -
  have wrap: "x mod 4294967296 = x + 4294967296" if "- 4294967296 \<le> x" "x < 0" for x :: int
    using that mod_pos_pos_trivial [of "x + 4294967296" 4294967296] by simp
  consider "d + 2147483648 < 0" | "0 \<le> d + 2147483648" "d < 2147483648" "- d + 2147483648 < 4294967296"
    | "2147483648 \<le> d" | "d = - 2147483648" using assms by linarith
  then show ?thesis
  proof cases
    case 1
    then show ?thesis using assms wrap [of "d + 2147483648"] by linarith
  next
    case 2
    then show ?thesis using assms by (auto simp: mod_pos_pos_trivial)
  next
    case 3
    then show ?thesis
      using assms wrap [of "- d + 2147483648"] by (cases "d = 2147483648") auto
  qed simp
qed

lemma precedes_asym:
  assumes "TransactionIdPrecedes a b" and "TransactionIdPrecedes b a"
  shows "a - b = 2147483648"
proof -
  have normal: "TransactionIdIsNormal a" "TransactionIdIsNormal b"
    using assms by (auto simp: TransactionIdPrecedes_def split: if_splits)
  have "uint a < 4294967296" "uint b < 4294967296"
    using uint_lt2p [of a] uint_lt2p [of b] by auto
  then have range: "- 4294967296 < uint a - uint b" "uint a - uint b < 4294967296"
    using uint_ge_0 [of a] uint_ge_0 [of b] by linarith+
  from assms normal have "(uint a - uint b + 2147483648) mod 4294967296 < 2147483648"
    and "(- (uint a - uint b) + 2147483648) mod 4294967296 < 2147483648"
    by (auto simp: TransactionIdPrecedes_def xid_diff_uint)
  from circle_both_neg [OF range this]
  have "uint (a - b) = uint (2147483648 :: TransactionId)"
    by (auto simp: uint_word_ariths)
  then show ?thesis
    by (simp only: word_uint_eq_iff)
qed

lemma precedes_full:
  assumes "TransactionIdIsNormal (XidFromFullTransactionId a)"
    and "TransactionIdIsNormal (XidFromFullTransactionId b)"
    and "\<bar>uint (fxid_value a) - uint (fxid_value b)\<bar> < 2147483648"
  shows "TransactionIdPrecedes (XidFromFullTransactionId a) (XidFromFullTransactionId b)
         \<longleftrightarrow> FullTransactionIdPrecedes a b"
  using assms
  by (simp add: TransactionIdPrecedes_def xid_diff_full FullTransactionIdPrecedes_def word_less_alt)

text \<open>The circular order by distance.\<close>

lemma precedes_distance:
  assumes "TransactionIdIsNormal a" "TransactionIdIsNormal b"
  shows "TransactionIdPrecedes a b \<longleftrightarrow> 1 \<le> uint (b - a) \<and> uint (b - a) \<le> 2147483648"
proof -
  define u where "u = uint (b - a)"
  have u: "0 \<le> u" "u < 4294967296"
    using uint_lt2p [of "b - a"] by (auto simp: u_def)
  have "xid_diff a b = xid_diff 0 (b - a)"
    by (simp add: xid_diff_def)
  then have diff: "xid_diff a b = (2147483648 - u) mod 4294967296 - 2147483648"
    by (simp add: xid_diff_uint u_def)
  have "(2147483648 - u) mod 4294967296 = (if u \<le> 2147483648 then 2147483648 - u else 6442450944 - u)"
  proof (cases "u \<le> 2147483648")
    case True
    then show ?thesis using u by (simp add: mod_pos_pos_trivial)
  next
    case False
    then have "(6442450944 - u) mod 4294967296 = 6442450944 - u"
      using u by (intro mod_pos_pos_trivial) auto
    moreover have "(6442450944 - u) mod 4294967296 = (2147483648 - u) mod 4294967296"
      using mod_add_self2 [of "2147483648 - u" 4294967296] by simp
    ultimately show ?thesis using False by simp
  qed
  with diff assms u show ?thesis
    by (simp add: TransactionIdPrecedes_def u_def [symmetric]) linarith
qed

lemma advance_step:
  assumes "TransactionIdIsNormal x"
  obtains d where "TransactionIdAdvance x = x + d" "uint d = 1 \<or> uint d = 4 \<and> x = 4294967295"
proof (cases "x + 1 < 3")
  case False
  then show ?thesis using that [of 1] by (simp add: TransactionIdAdvance_def special_xids)
next
  case True
  have "unat x \<ge> 3"
    using assms by (simp add: normal_iff word_le_nat_alt)
  then have "x = 4294967295"
    using True unsigned_less [of x, where 'a = nat]
    by (simp add: word_less_nat_alt unat_word_ariths word_unat_eq_iff mod_Suc split: if_splits)
  then show ?thesis using that [of 4] by (simp add: TransactionIdAdvance_def special_xids)
qed

lemma advance_normal [simp]: "TransactionIdIsNormal (TransactionIdAdvance x)"
  by (simp add: TransactionIdAdvance_def Let_def TransactionIdIsNormal_def special_xids not_less)

text \<open>Nothing lies between an id and its successor.\<close>

lemma after_latest:
  assumes "TransactionIdIsNormal l" "TransactionIdIsNormal x" "TransactionIdPrecedes l x"
  shows "TransactionIdFollowsOrEquals x (TransactionIdAdvance l)"
proof (rule ccontr)
  let ?m = "TransactionIdAdvance l" and ?u = "uint (x - l)"
  assume "\<not> ?thesis"
  then have "TransactionIdPrecedes x ?m"
    using not_precedes_iff_follows_eq by blast
  then have close: "1 \<le> uint (?m - x)" "uint (?m - x) \<le> 2147483648"
    using precedes_distance [OF assms(2) advance_normal] by blast+
  have u: "1 \<le> ?u" "?u \<le> 2147483648"
    using assms precedes_distance by blast+
  obtain d where d: "?m = l + d" "uint d = 1 \<or> uint d = 4 \<and> l = 4294967295"
    using advance_step [OF assms(1)] .
  have "?m - x = d - (x - l)"
    by (simp add: d(1))
  then have dist: "uint (?m - x) = (uint d - ?u) mod 4294967296"
    by (simp only: uint_word_ariths) simp
  have "uint d \<le> ?u"
  proof (cases "uint d = 1")
    case False
    then have "l = 4294967295" "uint d = 4" using d(2) by auto
    then have l: "x - l = x + 1" by simp
    have "3 \<le> uint x" using assms(2) by (simp add: normal_iff word_le_def)
    moreover have "uint x \<noteq> 4294967295"
    proof
      assume "uint x = 4294967295"
      then have "x = l" by (simp add: word_uint_eq_iff \<open>l = 4294967295\<close>)
      with assms(3) show False by simp
    qed
    ultimately have "uint (x + 1) = uint x + 1"
      using uint_lt2p [of x] by (simp add: uint_word_ariths mod_pos_pos_trivial)
    then have "?u = uint x + 1" by (simp only: l)
    then show ?thesis using \<open>3 \<le> uint x\<close> \<open>uint d = 4\<close> by simp
  qed (use u in simp)
  show False
  proof (cases "uint d = ?u")
    case True
    then show ?thesis using dist close by simp
  next
    case False
    have "0 \<le> uint d - ?u + 4294967296"
      using u uint_ge_0 [of d] by linarith
    then have "(uint d - ?u) mod 4294967296 = uint d - ?u + 4294967296"
      using \<open>uint d \<le> ?u\<close> False mod_add_self2 [of "uint d - ?u" 4294967296]
        mod_pos_pos_trivial [of "uint d - ?u + 4294967296" 4294967296] by simp
    then show ?thesis using dist close u d(2) by auto
  qed
qed

text \<open>Transitivity within a window: the distance from the least to the greatest of the three
  ids is below \<open>2^31\<close>.\<close>

lemma precedes_window:
  assumes "TransactionIdIsNormal a" "TransactionIdIsNormal b"
    and "uint (a - base) < 2147483648" "uint (b - base) < 2147483648"
  shows "TransactionIdPrecedes a b \<longleftrightarrow> uint (a - base) < uint (b - base)"
proof -
  have "a - b = (a - base) - (b - base)"
    by simp
  then have "xid_diff a b = xid_diff (a - base) (b - base)"
    by (simp add: xid_diff_def)
  also have "\<dots> = uint (a - base) - uint (b - base)"
    using assms(3,4) uint_ge_0 [of "a - base"] uint_ge_0 [of "b - base"]
    by (simp only: xid_diff_uint) (subst mod_pos_pos_trivial; linarith)
  finally show ?thesis
    using assms(1,2) by (simp add: TransactionIdPrecedes_def)
qed

lemma precedes_trans_window:
  assumes "TransactionIdPrecedes a b" "TransactionIdPrecedes b c"
    and "TransactionIdIsNormal a" "TransactionIdIsNormal b" "TransactionIdIsNormal c"
    and "uint (b - a) < 2147483648" "uint (c - a) < 2147483648"
  shows "TransactionIdPrecedes a c"
  using assms precedes_window [of a b a] precedes_window [of b c a] precedes_window [of a c a]
  by simp

lemma skip_special_low: "ucast (skip_special v) = (if (ucast v :: TransactionId) < 3 then 3 else ucast v :: TransactionId)"
proof (induction v rule: skip_special.induct)
  case (1 v)
  let ?x = "ucast v :: TransactionId"
  have step: "(ucast (v + 1) :: TransactionId) = ?x + 1"
    using ucast_down_plus [of v 1, where 'b = 32] by simp
  show ?case
  proof (cases "?x < 3")
    case True
    then have "?x + 1 \<le> 3"
      by (metis inc_le)
    then show ?thesis
      using 1 True step by (subst skip_special.simps) (auto simp: special_xids)
  qed (subst skip_special.simps, simp add: special_xids)
qed

lemma latest_fold:
  assumes "\<forall>x\<in>insert m (set xs). TransactionIdIsNormal x \<and> uint (x - base) < 2147483648"
  shows "fold (\<lambda>x r. if TransactionIdPrecedes r x then x else r) xs m \<in> insert m (set xs) \<and>
    (\<forall>x\<in>insert m (set xs).
       uint (x - base) \<le> uint (fold (\<lambda>x r. if TransactionIdPrecedes r x then x else r) xs m - base))"
  using assms
proof (induction xs arbitrary: m)
  case (Cons x xs)
  let ?m = "if TransactionIdPrecedes m x then x else m"
  have le: "uint (m - base) \<le> uint (?m - base)" "uint (x - base) \<le> uint (?m - base)"
    using Cons.prems precedes_window [of m x base] by auto
  have "\<forall>x\<in>insert ?m (set xs). TransactionIdIsNormal x \<and> uint (x - base) < 2147483648"
    using Cons.prems by auto
  from Cons.IH [OF this] le show ?case
    by (auto intro: order_trans)
qed simp

text \<open>Normal ids in the half circle that starts at \<open>base\<close>: there the circular order is a linear order.\<close>

definition in_window :: "TransactionId \<Rightarrow> TransactionId \<Rightarrow> bool" where
  "in_window base x \<longleftrightarrow> TransactionIdIsNormal x \<and> uint (x - base) < 2147483648"

lemma window_precedes:
  "in_window base a \<Longrightarrow> in_window base b \<Longrightarrow> TransactionIdPrecedes a b \<longleftrightarrow> uint (a - base) < uint (b - base)"
  by (simp add: in_window_def precedes_window)

lemma window_follows_eq:
  "in_window base a \<Longrightarrow> in_window base b \<Longrightarrow> TransactionIdFollowsOrEquals a b \<longleftrightarrow> uint (b - base) \<le> uint (a - base)"
  using not_precedes_iff_follows_eq [of a b] window_precedes [of base a b] by auto

lemma window_eq: "uint (a - base) = uint (b - base) \<longleftrightarrow> a = (b :: TransactionId)"
  by (metis diff_add_cancel word_uint_eq_iff)

text \<open>Strictly before, and not also after.\<close>

definition xid_lt :: "TransactionId \<Rightarrow> TransactionId \<Rightarrow> bool" where
  "xid_lt a b \<longleftrightarrow> TransactionIdPrecedes a b \<and> \<not> TransactionIdPrecedes b a"

lemma window_lt:
  "in_window base a \<Longrightarrow> in_window base b \<Longrightarrow> xid_lt a b \<longleftrightarrow> uint (a - base) < uint (b - base)"
  by (auto simp: xid_lt_def window_precedes)

lemma xid_lt_irrefl [simp]: "\<not> xid_lt a a"
  by (simp add: xid_lt_def)

lemma sorted_xid_lt_distinct: "sorted_wrt xid_lt xs \<Longrightarrow> distinct xs"
  by (induction xs) auto

section \<open>Properties\<close>

text \<open>C28: the circular comparison of two normal 32-bit ids agrees with the order of the 64-bit ids they
  abbreviate, for all four comparison functions, as long as the ids are less than \<open>2^31\<close> apart.\<close>

theorem xid_order_full:
  assumes "TransactionIdIsNormal (XidFromFullTransactionId a)" "TransactionIdIsNormal (XidFromFullTransactionId b)"
    and "\<bar>uint (fxid_value a) - uint (fxid_value b)\<bar> < 2 ^ 31"
  shows "TransactionIdPrecedes (XidFromFullTransactionId a) (XidFromFullTransactionId b) = (fxid_value a < fxid_value b) \<and>
    TransactionIdPrecedesOrEquals (XidFromFullTransactionId a) (XidFromFullTransactionId b) = (fxid_value a \<le> fxid_value b) \<and>
    TransactionIdFollows (XidFromFullTransactionId a) (XidFromFullTransactionId b) = (fxid_value a > fxid_value b) \<and>
    TransactionIdFollowsOrEquals (XidFromFullTransactionId a) (XidFromFullTransactionId b) = (fxid_value a \<ge> fxid_value b)"
  using assms xid_diff_full [of a b]
  by (simp add: TransactionIdPrecedes_def TransactionIdPrecedesOrEquals_def TransactionIdFollows_def
      TransactionIdFollowsOrEquals_def word_less_alt word_le_def)

theorem xid_order_full_witness:
  "TransactionIdPrecedes (XidFromFullTransactionId \<lparr>fxid_value = 4294967295\<rparr>)
     (XidFromFullTransactionId \<lparr>fxid_value = 4294967300\<rparr>)"
  using xid_order_full [of "\<lparr>fxid_value = 4294967295\<rparr>" "\<lparr>fxid_value = 4294967300\<rparr>"]
  by (simp add: XidFromFullTransactionId_def TransactionIdIsNormal_def special_xids)

text \<open>The circular order is not antisymmetric: two ids precede each other both ways exactly when
  both are normal and they lie half the circle, \<open>2^31\<close>, apart.\<close>

theorem xid_precedes_both_ways:
  "TransactionIdPrecedes a b \<and> TransactionIdPrecedes b a \<longleftrightarrow>
   TransactionIdIsNormal a \<and> TransactionIdIsNormal b \<and> a - b = 2 ^ 31"
proof
  assume both: "TransactionIdPrecedes a b \<and> TransactionIdPrecedes b a"
  then have "a - b = 2147483648"
    using precedes_asym by blast
  then show "TransactionIdIsNormal a \<and> TransactionIdIsNormal b \<and> a - b = 2 ^ 31"
    using both by (auto simp: TransactionIdPrecedes_def split: if_splits)
next
  assume asm: "TransactionIdIsNormal a \<and> TransactionIdIsNormal b \<and> a - b = 2 ^ 31"
  have "b - a = - (a - b)"
    by simp
  then have "b - a = 2 ^ 31"
    using asm by simp
  with asm show "TransactionIdPrecedes a b \<and> TransactionIdPrecedes b a"
    by (simp add: TransactionIdPrecedes_def xid_diff_def)
qed

text \<open>advancing a 64-bit id moves its low half the way advancing a 32-bit id does, never leaves a
  special id there, and retreating a 32-bit id undoes it.\<close>

theorem xid_advance_retreat:
  "XidFromFullTransactionId (FullTransactionIdAdvance x) = TransactionIdAdvance (XidFromFullTransactionId x) \<and>
   TransactionIdIsNormal (TransactionIdAdvance xid) \<and>
   (TransactionIdIsNormal xid \<longrightarrow> TransactionIdRetreat (TransactionIdAdvance xid) = xid)"
proof (intro conjI impI)
  show "XidFromFullTransactionId (FullTransactionIdAdvance x) = TransactionIdAdvance (XidFromFullTransactionId x)"
    using ucast_down_plus [of "fxid_value x" 1, where 'b = 32]
    by (simp add: XidFromFullTransactionId_def FullTransactionIdAdvance_def TransactionIdAdvance_def Let_def
        skip_special_low special_xids)
  show "TransactionIdIsNormal (TransactionIdAdvance xid)"
    by (simp add: TransactionIdAdvance_def Let_def TransactionIdIsNormal_def special_xids not_less)
  assume norm: "TransactionIdIsNormal xid"
  show "TransactionIdRetreat (TransactionIdAdvance xid) = xid"
  proof (cases "xid + 1 < 3")
    case True
    have "unat xid \<ge> 3"
      using norm by (simp add: normal_iff word_le_nat_alt)
    then have "xid = 4294967295"
      using True unsigned_less [of xid, where 'a = nat]
      by (simp add: word_less_nat_alt unat_word_ariths word_unat_eq_iff mod_Suc split: if_splits)
    then show ?thesis
      by (simp add: TransactionIdAdvance_def special_xids TransactionIdRetreat.simps)
  next
    case False
    then show ?thesis
      using norm
      by (subst TransactionIdRetreat.simps)
        (auto simp: TransactionIdAdvance_def Let_def special_xids normal_iff not_less)
  qed
qed

theorem xid_advance_retreat_witness: "TransactionIdRetreat (TransactionIdAdvance 4294967295) = 4294967295"
  using xid_advance_retreat [of "\<lparr>fxid_value = 0\<rparr>" 4294967295] by (simp add: normal_iff)

text \<open>\<^verbatim>\<open>TransactionIdLatest\<close> returns one of the ids it is given, and none of them follows it, if
  all lie within \<open>2^31\<close> ids after some \<open>base\<close>.\<close>

theorem xid_latest:
  assumes "\<forall>x\<in>insert mainxid (set xids). TransactionIdIsNormal x \<and> uint (x - base) < 2 ^ 31"
  shows "TransactionIdLatest mainxid xids \<in> insert mainxid (set xids) \<and>
    (\<forall>x\<in>insert mainxid (set xids). TransactionIdPrecedesOrEquals x (TransactionIdLatest mainxid xids))"
proof -
  let ?l = "TransactionIdLatest mainxid xids"
  have l: "?l \<in> insert mainxid (set xids)" "\<forall>x\<in>insert mainxid (set xids). uint (x - base) \<le> uint (?l - base)"
    using latest_fold [of mainxid "rev xids" base] assms unfolding TransactionIdLatest_def by auto
  have "x = ?l \<or> TransactionIdPrecedes x ?l" if "x \<in> insert mainxid (set xids)" for x
    using that l assms precedes_window [of x ?l base]
    by (cases "uint (x - base) = uint (?l - base)") (auto simp: word_uint_eq_iff [symmetric] less_le)
  with l(1) show ?thesis
    by (simp add: precedes_or_equals_iff)
qed

theorem xid_latest_witness:
  "TransactionIdLatest 4294967295 [4294967294, 5, 4] = 5 \<and>
   TransactionIdPrecedesOrEquals 4294967295 (TransactionIdLatest 4294967295 [4294967294, 5, 4])"
  using xid_latest [of 4294967295 "[4294967294, 5, 4]" 4294967000]
  by (simp add: normal_iff TransactionIdLatest_def TransactionIdPrecedes_def TransactionIdPrecedesOrEquals_def
      xid_diff_uint)

end
