(* ===== verification/KnownAssigned.thy ===== *)
theory KnownAssigned
  imports Transam
begin

text \<open>
  The array of transaction ids that a standby server knows to be running on its master
  (the \<^verbatim>\<open>KnownAssignedXids\<close> routines of \<^verbatim>\<open>src/backend/storage/ipc/procarray.c\<close>): a sorted array
  with validity marks between a tail and a head pointer. Entries are added at the head, removed by
  clearing their mark, and the array is compressed now and then. The abstraction \<open>known\<close> is the
  list of valid ids; every operation is shown to act on it as on a plain list. Locks are not
  modelled: an operation runs alone, as the caller's \<^verbatim>\<open>ProcArrayLock\<close> ensures.
\<close>

section \<open>State and operations\<close>

record known_assigned =
  KnownAssignedXids :: "TransactionId list"
  KnownAssignedXidsValid :: "bool list"
  numKnownAssignedXids :: nat
  tailKnownAssignedXids :: nat
  headKnownAssignedXids :: nat
  PROCARRAY_MAXPROCS :: nat

abbreviation maxKnownAssignedXids :: "known_assigned \<Rightarrow> nat" where
  "maxKnownAssignedXids k \<equiv> length (KnownAssignedXids k)"

datatype known_error = OutOfOrderInsertion | TooManyKnownAssignedXids

text \<open>The copying loop of \<^verbatim>\<open>KnownAssignedXidsCompress\<close>: \<open>n\<close> elements from \<open>i\<close> on.\<close>

fun compress_loop :: "nat \<Rightarrow> nat \<Rightarrow> nat \<Rightarrow> TransactionId list \<Rightarrow> bool list \<Rightarrow> nat \<times> TransactionId list \<times> bool list" where
  "compress_loop i 0 ci xs vs = (ci, xs, vs)"
| "compress_loop i (Suc n) ci xs vs =
     (if vs ! i then compress_loop (Suc i) n (Suc ci) (xs[ci := xs ! i]) (vs[ci := True])
      else compress_loop (Suc i) n ci xs vs)"

definition KnownAssignedXidsCompress :: "bool \<Rightarrow> known_assigned \<Rightarrow> known_assigned" where
  "KnownAssignedXidsCompress force k =
     (let head = headKnownAssignedXids k; tail = tailKnownAssignedXids k; nelements = head - tail
      in if \<not> force \<and> (nelements < 4 * PROCARRAY_MAXPROCS k \<or> nelements < 2 * numKnownAssignedXids k) then k
         else
           case compress_loop tail nelements 0 (KnownAssignedXids k) (KnownAssignedXidsValid k) of
             (ci, xs, vs) \<Rightarrow>
               k\<lparr>KnownAssignedXids := xs, KnownAssignedXidsValid := vs, tailKnownAssignedXids := 0,
                 headKnownAssignedXids := ci\<rparr>)"

text \<open>The loop that counts the ids of a range across the wrap point.\<close>

function count_xids :: "TransactionId \<Rightarrow> TransactionId \<Rightarrow> nat \<Rightarrow> nat" where
  "count_xids next_xid to_xid n =
     (if TransactionIdPrecedes next_xid to_xid then count_xids (TransactionIdAdvance next_xid) to_xid (Suc n) else n)"
  by pat_completeness auto

text \<open>The insertion loop from \<open>head\<close> on.\<close>

fun insert_xids :: "nat \<Rightarrow> TransactionId \<Rightarrow> nat \<Rightarrow> TransactionId list \<Rightarrow> bool list \<Rightarrow> TransactionId list \<times> bool list" where
  "insert_xids 0 next_xid head xs vs = (xs, vs)"
| "insert_xids (Suc n) next_xid head xs vs =
     insert_xids n (TransactionIdAdvance next_xid) (Suc head) (xs[head := next_xid]) (vs[head := True])"

text \<open>Advancing an id that precedes a target comes closer to it, or passes it.\<close>

lemma advance_closer:
  assumes "TransactionIdPrecedes x t" "TransactionIdPrecedes (TransactionIdAdvance x) t"
  shows "unat (t - TransactionIdAdvance x) < unat (t - x)"
proof -
  have ne: "t - x \<noteq> 0" using assms(1) by auto
  have tn: "TransactionIdIsNormal t"
  proof (rule ccontr)
    assume nt: "\<not> TransactionIdIsNormal t"
    have "3 \<le> TransactionIdAdvance x"
      by (simp add: TransactionIdAdvance_def Let_def special_xids not_less)
    then show False
      using assms(2) nt by (auto simp: TransactionIdPrecedes_def normal_iff not_le)
  qed
  show ?thesis
  proof (cases "x + 1 < 3")
    case False
    then have "t - TransactionIdAdvance x = (t - x) - 1"
      by (simp add: TransactionIdAdvance_def special_xids)
    then show ?thesis using measure_unat [OF ne] by (simp only:)
  next
    case True
    then have adv: "TransactionIdAdvance x = 3"
      by (simp add: TransactionIdAdvance_def special_xids)
    have t3: "3 \<le> unat t" using tn by (simp add: normal_iff word_le_nat_alt)
    have "unat (x + 1) < 3" using True by (simp add: word_less_nat_alt)
    then have x: "unat x = 4294967295 \<or> unat x < 2"
      using unsigned_less [of x, where 'a = nat] by (auto simp: unat_word_ariths mod_Suc split: if_splits)
    have d3: "unat (t - 3) = unat t - 3"
      using t3 by (simp add: unat_sub_if_size word_size)
    have "unat (t - x) = (if unat x = 4294967295 then unat t + 1 else unat t - unat x)"
      using x t3 ne unsigned_less [of t, where 'a = nat] word_unat_eq_iff [of t x]
      by (auto simp: unat_sub_if_size word_size word_less_nat_alt)
    then show ?thesis using adv d3 t3 x by auto
  qed
qed

termination count_xids
proof (relation "measure (\<lambda>(x, t, n). if TransactionIdPrecedes x t then Suc (unat (t - x)) else 0)")
  fix x t :: TransactionId and n :: nat
  assume "TransactionIdPrecedes x t"
  then show "((TransactionIdAdvance x, t, Suc n), x, t, n)
      \<in> measure (\<lambda>(x, t, n). if TransactionIdPrecedes x t then Suc (unat (t - x)) else 0)"
    using advance_closer by auto
qed simp

declare count_xids.simps [simp del]

definition KnownAssignedXidsAdd ::
  "TransactionId \<Rightarrow> TransactionId \<Rightarrow> known_assigned \<Rightarrow> known_error + known_assigned" where
  "KnownAssignedXidsAdd from_xid to_xid k =
     (let nxids = (if to_xid \<ge> from_xid then unat (to_xid - from_xid) + 1 else count_xids from_xid to_xid 1);
          head = headKnownAssignedXids k; tail = tailKnownAssignedXids k
      in if head > tail \<and> TransactionIdFollowsOrEquals (KnownAssignedXids k ! (head - 1)) from_xid
         then Inl OutOfOrderInsertion
         else
           let k = (if head + nxids > maxKnownAssignedXids k then KnownAssignedXidsCompress True k else k);
               head = headKnownAssignedXids k
           in if head + nxids > maxKnownAssignedXids k then Inl TooManyKnownAssignedXids
              else
                case insert_xids nxids from_xid head (KnownAssignedXids k) (KnownAssignedXidsValid k) of
                  (xs, vs) \<Rightarrow>
                    Inr (k\<lparr>KnownAssignedXids := xs, KnownAssignedXidsValid := vs,
                           numKnownAssignedXids := numKnownAssignedXids k + nxids,
                           headKnownAssignedXids := head + nxids\<rparr>))"

text \<open>The loop that moves the tail over invalid elements.\<close>

fun skip_invalid :: "nat \<Rightarrow> nat \<Rightarrow> bool list \<Rightarrow> nat" where
  "skip_invalid i 0 vs = i"
| "skip_invalid i (Suc n) vs = (if vs ! i then i else skip_invalid (Suc i) n vs)"

definition set_tail :: "nat \<Rightarrow> known_assigned \<Rightarrow> known_assigned" where
  "set_tail tail k =
     (if tail \<ge> headKnownAssignedXids k then k\<lparr>headKnownAssignedXids := 0, tailKnownAssignedXids := 0\<rparr>
      else k\<lparr>tailKnownAssignedXids := tail\<rparr>)"

definition KnownAssignedXidsSearch :: "TransactionId \<Rightarrow> bool \<Rightarrow> known_assigned \<Rightarrow> bool \<times> known_assigned" where
  "KnownAssignedXidsSearch xid remov k =
     (let tail = tailKnownAssignedXids k; head = headKnownAssignedXids k
      in case binsearch_pos (\<lambda>mid_xid. xid = mid_xid) (\<lambda>mid_xid. \<not> TransactionIdPrecedes xid mid_xid)
                (KnownAssignedXids k) (int tail) (int head - 1) of
           None \<Rightarrow> (False, k)
         | Some result_index \<Rightarrow>
             if \<not> KnownAssignedXidsValid k ! result_index then (False, k)
             else if remov then
               let k = k\<lparr>KnownAssignedXidsValid := (KnownAssignedXidsValid k)[result_index := False],
                         numKnownAssignedXids := numKnownAssignedXids k - 1\<rparr>
               in (True,
                   if result_index = tail
                   then set_tail (skip_invalid (Suc tail) (head - Suc tail) (KnownAssignedXidsValid k)) k
                   else k)
             else (True, k))"

definition KnownAssignedXidExists :: "TransactionId \<Rightarrow> known_assigned \<Rightarrow> bool" where
  "KnownAssignedXidExists xid k = fst (KnownAssignedXidsSearch xid False k)"

definition KnownAssignedXidsRemove :: "TransactionId \<Rightarrow> known_assigned \<Rightarrow> known_assigned" where
  "KnownAssignedXidsRemove xid k = snd (KnownAssignedXidsSearch xid True k)"

definition KnownAssignedXidsRemoveTree ::
  "TransactionId \<Rightarrow> TransactionId list \<Rightarrow> known_assigned \<Rightarrow> known_assigned" where
  "KnownAssignedXidsRemoveTree xid subxids k =
     (let k = (if TransactionIdIsValid xid then KnownAssignedXidsRemove xid k else k);
          k = fold KnownAssignedXidsRemove subxids k
      in KnownAssignedXidsCompress False k)"

text \<open>The marking loop of \<^verbatim>\<open>KnownAssignedXidsRemovePreceding\<close>; \<open>prepared\<close> is
  \<^verbatim>\<open>StandbyTransactionIdIsPrepared\<close>. Returns the marks and the count.\<close>

fun mark_preceding ::
  "(TransactionId \<Rightarrow> bool) \<Rightarrow> TransactionId \<Rightarrow> TransactionId list \<Rightarrow> nat \<Rightarrow> nat \<Rightarrow> bool list \<Rightarrow> nat
   \<Rightarrow> bool list \<times> nat" where
  "mark_preceding prepared removeXid xs i 0 vs count = (vs, count)"
| "mark_preceding prepared removeXid xs i (Suc n) vs count =
     (if vs ! i then
        if TransactionIdFollowsOrEquals (xs ! i) removeXid then (vs, count)
        else if \<not> prepared (xs ! i) then mark_preceding prepared removeXid xs (Suc i) n (vs[i := False]) (Suc count)
        else mark_preceding prepared removeXid xs (Suc i) n vs count
      else mark_preceding prepared removeXid xs (Suc i) n vs count)"

definition KnownAssignedXidsRemovePreceding ::
  "(TransactionId \<Rightarrow> bool) \<Rightarrow> TransactionId \<Rightarrow> known_assigned \<Rightarrow> known_assigned" where
  "KnownAssignedXidsRemovePreceding prepared removeXid k =
     (if \<not> TransactionIdIsValid removeXid
      then k\<lparr>numKnownAssignedXids := 0, headKnownAssignedXids := 0, tailKnownAssignedXids := 0\<rparr>
      else
        let tail = tailKnownAssignedXids k; head = headKnownAssignedXids k
        in case mark_preceding prepared removeXid (KnownAssignedXids k) tail (head - tail) (KnownAssignedXidsValid k) 0 of
             (vs, count) \<Rightarrow>
               let k = k\<lparr>KnownAssignedXidsValid := vs, numKnownAssignedXids := numKnownAssignedXids k - count\<rparr>;
                   k = set_tail (skip_invalid tail (head - tail) vs) k
               in KnownAssignedXidsCompress False k)"

text \<open>The scan of \<^verbatim>\<open>KnownAssignedXidsGetAndSetXmin\<close>: the ids found so far and the running minimum.\<close>

fun get_loop ::
  "TransactionId \<Rightarrow> TransactionId list \<Rightarrow> bool list \<Rightarrow> nat \<Rightarrow> nat \<Rightarrow> TransactionId list \<Rightarrow> TransactionId
   \<Rightarrow> TransactionId list \<times> TransactionId" where
  "get_loop xmax xs vs i 0 xarray xmin = (xarray, xmin)"
| "get_loop xmax xs vs i (Suc n) xarray xmin =
     (if vs ! i then
        let knownXid = xs ! i;
            xmin = (if xarray = [] \<and> TransactionIdPrecedes knownXid xmin then knownXid else xmin)
        in if TransactionIdIsValid xmax \<and> TransactionIdFollowsOrEquals knownXid xmax then (xarray, xmin)
           else get_loop xmax xs vs (Suc i) n (xarray @ [knownXid]) xmin
      else get_loop xmax xs vs (Suc i) n xarray xmin)"

definition KnownAssignedXidsGetAndSetXmin ::
  "known_assigned \<Rightarrow> TransactionId \<Rightarrow> TransactionId \<Rightarrow> TransactionId list \<times> TransactionId" where
  "KnownAssignedXidsGetAndSetXmin k xmin xmax =
     (let tail = tailKnownAssignedXids k; head = headKnownAssignedXids k
      in get_loop xmax (KnownAssignedXids k) (KnownAssignedXidsValid k) tail (head - tail) [] xmin)"

definition KnownAssignedXidsGet :: "known_assigned \<Rightarrow> TransactionId \<Rightarrow> TransactionId list" where
  "KnownAssignedXidsGet k xmax = fst (KnownAssignedXidsGetAndSetXmin k InvalidTransactionId xmax)"

definition KnownAssignedXidsGetOldestXmin :: "known_assigned \<Rightarrow> TransactionId" where
  "KnownAssignedXidsGetOldestXmin k =
     (let tail = tailKnownAssignedXids k; head = headKnownAssignedXids k;
          i = skip_invalid tail (head - tail) (KnownAssignedXidsValid k)
      in if i < head then KnownAssignedXids k ! i else InvalidTransactionId)"

definition KnownAssignedXidsReset :: "known_assigned \<Rightarrow> known_assigned" where
  "KnownAssignedXidsReset k =
     k\<lparr>numKnownAssignedXids := 0, tailKnownAssignedXids := 0, headKnownAssignedXids := 0\<rparr>"

section \<open>Abstraction and invariant\<close>

text \<open>The valid ids among \<open>n\<close> elements from \<open>i\<close> on.\<close>

definition vals :: "nat \<Rightarrow> nat \<Rightarrow> TransactionId list \<Rightarrow> bool list \<Rightarrow> TransactionId list" where
  "vals i n xs vs = map fst (filter snd (take n (drop i (zip xs vs))))"

lemma vals_0 [simp]: "vals i 0 xs vs = []"
  by (simp add: vals_def)

lemma vals_Suc:
  "i < length xs \<Longrightarrow> i < length vs \<Longrightarrow>
   vals i (Suc n) xs vs = (if vs ! i then [xs ! i] else []) @ vals (Suc i) n xs vs"
  by (simp add: vals_def Cons_nth_drop_Suc [symmetric])

lemma vals_append: "vals i (n + m) xs vs = vals i n xs vs @ vals (i + n) m xs vs"
  by (simp only: vals_def take_add drop_drop filter_append map_append add.commute [of n i])

lemma vals_update: "j < i \<or> i + n \<le> j \<Longrightarrow> vals i n (xs[j := x]) (vs[j := v]) = vals i n xs vs"
proof -
  assume "j < i \<or> i + n \<le> j"
  moreover have "zip (xs[j := x]) (vs[j := v]) = (zip xs vs)[j := (x, v)]"
    by (simp add: update_zip)
  ultimately show ?thesis
    by (auto simp: vals_def drop_update_swap drop_update_cancel take_update_swap take_update_cancel list_update_beyond)
qed

lemma vals_mark: "j < i \<or> i + n \<le> j \<Longrightarrow> vals i n xs (vs[j := v]) = vals i n xs vs"
  using vals_update [of j i n xs "xs ! j" vs v] by (simp add: list_update_id)

lemma vals_end:
  "i + n < length xs \<Longrightarrow> i + n < length vs \<Longrightarrow>
   vals i (Suc n) xs vs = vals i n xs vs @ (if vs ! (i + n) then [xs ! (i + n)] else [])"
  using vals_append [of i n 1 xs vs] vals_Suc [of "i + n" xs vs 0] by simp

lemma set_vals: "set (vals i n xs vs) \<subseteq> set (take n (drop i xs))"
proof
  fix x assume "x \<in> set (vals i n xs vs)"
  then have "x \<in> fst ` set (take n (drop i (zip xs vs)))"
    by (auto simp: vals_def)
  then show "x \<in> set (take n (drop i xs))"
    by (auto simp: drop_zip take_zip dest: set_zip_leftD)
qed

lemma in_set_vals:
  "length vs = length xs \<Longrightarrow> i + n \<le> length xs \<Longrightarrow>
   x \<in> set (vals i n xs vs) \<longleftrightarrow> (\<exists>j. i \<le> j \<and> j < i + n \<and> vs ! j \<and> xs ! j = x)"
proof (induction n arbitrary: i)
  case (Suc n)
  have "(\<exists>j. i \<le> j \<and> j < i + Suc n \<and> P j) \<longleftrightarrow> P i \<or> (\<exists>j. Suc i \<le> j \<and> j < Suc i + n \<and> P j)" for P
    by (auto simp: le_eq_less_or_eq [of i] Suc_le_eq)
  with Suc show ?case
    by (simp add: vals_Suc) blast
qed auto

abbreviation ka_count :: "known_assigned \<Rightarrow> nat" where
  "ka_count k \<equiv> headKnownAssignedXids k - tailKnownAssignedXids k"

definition known :: "known_assigned \<Rightarrow> TransactionId list" where
  "known k = vals (tailKnownAssignedXids k) (ka_count k) (KnownAssignedXids k) (KnownAssignedXidsValid k)"

text \<open>All entries between tail and head, the invalid ones too.\<close>

definition ka_slice :: "known_assigned \<Rightarrow> TransactionId list" where
  "ka_slice k = take (ka_count k) (drop (tailKnownAssignedXids k) (KnownAssignedXids k))"

definition ka_wf :: "known_assigned \<Rightarrow> bool" where
  "ka_wf k \<longleftrightarrow>
     length (KnownAssignedXidsValid k) = maxKnownAssignedXids k \<and>
     tailKnownAssignedXids k \<le> headKnownAssignedXids k \<and>
     headKnownAssignedXids k \<le> maxKnownAssignedXids k \<and>
     numKnownAssignedXids k = length (known k) \<and>
     sorted_wrt xid_lt (ka_slice k)"

section \<open>The loops\<close>

lemma compress_loop_result:
  assumes "compress_loop i n ci xs vs = (ci', xs', vs')" "ci \<le> i" "i + n \<le> length xs" "length vs = length xs"
  shows "ci' = ci + length (vals i n xs vs) \<and> vals 0 ci' xs' vs' = vals 0 ci xs vs @ vals i n xs vs \<and>
    take ci' xs' = take ci xs @ vals i n xs vs \<and> length xs' = length xs \<and> length vs' = length xs"
  using assms
proof (induction n arbitrary: i ci xs vs)
  case (Suc n)
  show ?case
  proof (cases "vs ! i")
    case True
    let ?xs = "xs[ci := xs ! i]" and ?vs = "vs[ci := True]"
    have "vals (Suc i) n ?xs ?vs = vals (Suc i) n xs vs"
      using Suc.prems by (simp add: vals_update)
    moreover have "vals 0 (Suc ci) ?xs ?vs = vals 0 ci xs vs @ [xs ! i]"
      using Suc.prems by (subst vals_end) (auto simp: vals_update)
    moreover have "take (Suc ci) ?xs = take ci xs @ [xs ! i]"
      using Suc.prems by (simp add: take_Suc_conv_app_nth)
    ultimately show ?thesis
      using Suc.IH [of "Suc i" "Suc ci" ?xs ?vs] Suc.prems True by (auto simp: vals_Suc)
  next
    case False
    then show ?thesis using Suc.IH [of "Suc i" ci xs vs] Suc.prems by (auto simp: vals_Suc)
  qed
qed simp

text \<open>The ids inserted: \<open>n\<close> ids from \<open>x\<close> on, special ids skipped.\<close>

fun xid_range :: "TransactionId \<Rightarrow> nat \<Rightarrow> TransactionId list" where
  "xid_range x 0 = []"
| "xid_range x (Suc n) = x # xid_range (TransactionIdAdvance x) n"

lemma length_xid_range [simp]: "length (xid_range x n) = n"
  by (induction n arbitrary: x) auto

lemma insert_xids_result:
  assumes "insert_xids n x head xs vs = (xs', vs')" "head + n \<le> length xs" "length vs = length xs"
  shows "vals head n xs' vs' = xid_range x n \<and> take n (drop head xs') = xid_range x n \<and>
    length xs' = length xs \<and> length vs' = length xs \<and> take head xs' = take head xs \<and> take head vs' = take head vs"
  using assms
proof (induction n arbitrary: x head xs vs)
  case (Suc n)
  let ?xs = "xs[head := x]" and ?vs = "vs[head := True]"
  have IH: "vals (Suc head) n xs' vs' = xid_range (TransactionIdAdvance x) n"
    "take n (drop (Suc head) xs') = xid_range (TransactionIdAdvance x) n"
    "length xs' = length xs" "length vs' = length xs"
    "take (Suc head) xs' = take (Suc head) ?xs" "take (Suc head) vs' = take (Suc head) ?vs"
    using Suc.IH [of "TransactionIdAdvance x" "Suc head" ?xs ?vs] Suc.prems by auto
  have at: "xs' ! head = x" "vs' ! head"
    using arg_cong [OF IH(5), of "\<lambda>l. l ! head"] arg_cong [OF IH(6), of "\<lambda>l. l ! head"] Suc.prems IH(3,4) by simp_all
  have "take head xs' = take head xs" "take head vs' = take head vs"
    using arg_cong [OF IH(5), of "take head"] arg_cong [OF IH(6), of "take head"] by simp_all
  with IH at Suc.prems show ?case
    by (simp add: vals_Suc Cons_nth_drop_Suc [symmetric])
qed simp

lemma skip_invalid_result:
  assumes "i + n \<le> length xs" "length vs = length xs" "j = skip_invalid i n vs"
  shows "i \<le> j \<and> j \<le> i + n \<and> vals i n xs vs = vals j (i + n - j) xs vs \<and> (j < i + n \<longrightarrow> vs ! j)"
  using assms
proof (induction n arbitrary: i)
  case (Suc n)
  show ?case
  proof (cases "vs ! i")
    case False
    then show ?thesis using Suc.IH [of "Suc i"] Suc.prems by (auto simp: vals_Suc)
  qed (use Suc.prems in simp)
qed simp

lemma get_loop_result:
  assumes "TransactionIdIsValid xmax" "i + n \<le> length xs" "length vs = length xs"
  shows "fst (get_loop xmax xs vs i n acc xmin) =
    acc @ takeWhile (\<lambda>x. \<not> TransactionIdFollowsOrEquals x xmax) (vals i n xs vs)"
  using assms(2)
proof (induction n arbitrary: i acc xmin)
  case (Suc n)
  then show ?case using assms(1,3) by (auto simp: vals_Suc Let_def)
qed simp

section \<open>The operations on the abstract list\<close>

lemma vals_sorted:
  "length vs = length xs \<Longrightarrow> i + n \<le> length xs \<Longrightarrow> sorted_wrt P (take n (drop i xs)) \<Longrightarrow> sorted_wrt P (vals i n xs vs)"
proof (induction n arbitrary: i)
  case (Suc n)
  then have "sorted_wrt P (xs ! i # take n (drop (Suc i) xs))"
    by (simp add: Cons_nth_drop_Suc [symmetric])
  with Suc set_vals [of "Suc i" n xs vs] show ?case
    by (auto simp: vals_Suc)
qed simp

lemma ka_wf_known_sorted: "ka_wf k \<Longrightarrow> sorted_wrt xid_lt (known k)"
  unfolding ka_wf_def known_def ka_slice_def by (intro vals_sorted) auto

lemma compress_known:
  assumes "ka_wf k"
  shows "known (KnownAssignedXidsCompress force k) = known k \<and> ka_wf (KnownAssignedXidsCompress force k) \<and>
    maxKnownAssignedXids (KnownAssignedXidsCompress force k) = maxKnownAssignedXids k \<and>
    set (ka_slice (KnownAssignedXidsCompress force k)) \<subseteq> set (ka_slice k)"
proof -
  let ?k = "KnownAssignedXidsCompress force k"
  obtain ci xs vs where loop: "compress_loop (tailKnownAssignedXids k) (ka_count k) 0 (KnownAssignedXids k)
      (KnownAssignedXidsValid k) = (ci, xs, vs)" by (rule prod_cases3)
  have res: "ci = length (known k)" "vals 0 ci xs vs = known k" "take ci xs = known k"
    "length xs = maxKnownAssignedXids k" "length vs = maxKnownAssignedXids k"
    using compress_loop_result [OF loop] assms by (auto simp: ka_wf_def known_def)
  have sub: "set (known k) \<subseteq> set (ka_slice k)"
    unfolding known_def ka_slice_def by (rule set_vals)
  have "ci \<le> maxKnownAssignedXids k"
    using arg_cong [OF res(3), of length] res(1,4) by simp
  show ?thesis
  proof (cases "?k = k")
    case True
    then show ?thesis using assms by simp
  next
    case False
    then have k: "?k = k\<lparr>KnownAssignedXids := xs, KnownAssignedXidsValid := vs, tailKnownAssignedXids := 0,
        headKnownAssignedXids := ci\<rparr>"
      using loop by (auto simp: KnownAssignedXidsCompress_def Let_def split: if_splits)
    have "known ?k = known k" "ka_slice ?k = known k"
      using res by (simp_all add: k known_def ka_slice_def)
    moreover have "numKnownAssignedXids k = length (known k)"
      using assms by (simp add: ka_wf_def)
    ultimately show ?thesis
      using ka_wf_known_sorted [OF assms] res \<open>ci \<le> maxKnownAssignedXids k\<close> sub
      unfolding ka_wf_def by (simp add: k)
  qed
qed

text \<open>The search finds the valid ids.\<close>

lemma slice_nth: "tailKnownAssignedXids k + i < headKnownAssignedXids k \<Longrightarrow> headKnownAssignedXids k \<le> maxKnownAssignedXids k
  \<Longrightarrow> ka_slice k ! i = KnownAssignedXids k ! (tailKnownAssignedXids k + i)"
  by (simp add: ka_slice_def)

lemma ka_sorted_nth:
  assumes "ka_wf k" "tailKnownAssignedXids k \<le> i" "i < j" "j < headKnownAssignedXids k"
  shows "xid_lt (KnownAssignedXids k ! i) (KnownAssignedXids k ! j)"
proof -
  let ?t = "tailKnownAssignedXids k"
  have "xid_lt (ka_slice k ! (i - ?t)) (ka_slice k ! (j - ?t))"
    using assms by (intro sorted_wrt_nth_less [of xid_lt]) (auto simp: ka_wf_def ka_slice_def)
  then show ?thesis
    using assms slice_nth [of k "i - ?t"] slice_nth [of k "j - ?t"] by (simp add: ka_wf_def)
qed

lemma search_index:
  assumes "ka_wf k" "tailKnownAssignedXids k \<le> i" "i < headKnownAssignedXids k" "KnownAssignedXids k ! i = xid"
  shows "binsearch_pos (\<lambda>m. xid = m) (\<lambda>m. \<not> TransactionIdPrecedes xid m) (KnownAssignedXids k)
    (int (tailKnownAssignedXids k)) (int (headKnownAssignedXids k) - 1) = Some i"
proof -
  let ?xs = "KnownAssignedXids k" and ?t = "tailKnownAssignedXids k" and ?h = "headKnownAssignedXids k"
  let ?s = "binsearch_pos (\<lambda>m. xid = m) (\<lambda>m. \<not> TransactionIdPrecedes xid m) ?xs (int ?t) (int ?h - 1)"
  have "search_sorted_in (\<lambda>m. xid = m) (\<lambda>m. \<not> TransactionIdPrecedes xid m) ?xs ?t ?h"
    unfolding search_sorted_in_def
    using ka_sorted_nth [OF assms(1)] by (auto simp: xid_lt_def)
  from binsearch_correct [OF this, of "int ?t" "int ?h - 1"] assms(2,3,4)
  have "binsearch (\<lambda>m. xid = m) (\<lambda>m. \<not> TransactionIdPrecedes xid m) ?xs (int ?t) (int ?h - 1)"
    by (auto intro!: exI [of _ i])
  then have "?s \<noteq> None" by (simp only: binsearch_pos_found)
  then obtain j where j: "?s = Some j" by auto
  from binsearch_pos_Some [OF this] have "?t \<le> j" "j < ?h" "?xs ! j = xid" by auto
  moreover have "i = j"
    using ka_sorted_nth [OF assms(1), of i j] ka_sorted_nth [OF assms(1), of j i] assms(2,3,4) calculation
    by (cases i j rule: linorder_cases) auto
  ultimately show ?thesis using j by simp
qed

lemma search_absent:
  assumes "ka_wf k" "xid \<notin> set (ka_slice k)"
  shows "binsearch_pos (\<lambda>m. xid = m) (\<lambda>m. \<not> TransactionIdPrecedes xid m) (KnownAssignedXids k)
    (int (tailKnownAssignedXids k)) (int (headKnownAssignedXids k) - 1) = None"
proof (rule ccontr)
  assume "\<not> ?thesis"
  then obtain j where "binsearch_pos (\<lambda>m. xid = m) (\<lambda>m. \<not> TransactionIdPrecedes xid m) (KnownAssignedXids k)
    (int (tailKnownAssignedXids k)) (int (headKnownAssignedXids k) - 1) = Some j" by auto
  from binsearch_pos_Some [OF this]
  have j: "tailKnownAssignedXids k \<le> j" "j < headKnownAssignedXids k" "KnownAssignedXids k ! j = xid" by auto
  then have "ka_slice k ! (j - tailKnownAssignedXids k) = xid"
    using slice_nth [of k "j - tailKnownAssignedXids k"] assms(1) by (simp add: ka_wf_def)
  moreover have "j - tailKnownAssignedXids k < length (ka_slice k)"
    using j assms(1) by (auto simp: ka_slice_def ka_wf_def)
  ultimately show False using assms(2) by (metis nth_mem)
qed

lemma search_known:
  assumes "ka_wf k"
  shows "fst (KnownAssignedXidsSearch xid remov k) \<longleftrightarrow> xid \<in> set (known k)"
proof (cases "xid \<in> set (ka_slice k)")
  case False
  then have "xid \<notin> set (known k)"
    using set_vals unfolding known_def ka_slice_def by blast
  with search_absent [OF assms False] show ?thesis
    by (simp add: KnownAssignedXidsSearch_def Let_def)
next
  case True
  then obtain n where "n < ka_count k" "ka_slice k ! n = xid"
    using assms by (auto simp: in_set_conv_nth ka_slice_def ka_wf_def)
  then obtain i where i: "tailKnownAssignedXids k \<le> i" "i < headKnownAssignedXids k" "KnownAssignedXids k ! i = xid"
    using slice_nth [of k n] assms by (auto simp: ka_wf_def intro!: that [of "tailKnownAssignedXids k + n"])
  have "xid \<in> set (known k) \<longleftrightarrow> KnownAssignedXidsValid k ! i"
  proof -
    have "xid \<in> set (known k) \<longleftrightarrow>
        (\<exists>j. tailKnownAssignedXids k \<le> j \<and> j < headKnownAssignedXids k \<and> KnownAssignedXidsValid k ! j \<and> KnownAssignedXids k ! j = xid)"
      unfolding known_def using assms by (subst in_set_vals) (auto simp: ka_wf_def)
    then show ?thesis
      using i search_index [OF assms] by (metis option.inject)
  qed
  with search_index [OF assms i] show ?thesis
    by (simp add: KnownAssignedXidsSearch_def Let_def)
qed

text \<open>Removal clears the mark of the id found and moves the tail over invalid entries.\<close>

lemma set_tail_known:
  assumes "ka_wf k" "tail = skip_invalid i (headKnownAssignedXids k - i) (KnownAssignedXidsValid k)"
    and "tailKnownAssignedXids k \<le> i" "i \<le> headKnownAssignedXids k"
    and "vals (tailKnownAssignedXids k) (i - tailKnownAssignedXids k) (KnownAssignedXids k) (KnownAssignedXidsValid k) = []"
  shows "known (set_tail tail k) = known k \<and> ka_wf (set_tail tail k) \<and> KnownAssignedXids (set_tail tail k) = KnownAssignedXids k"
proof -
  let ?h = "headKnownAssignedXids k" and ?t = "tailKnownAssignedXids k"
  let ?v = "\<lambda>i n. vals i n (KnownAssignedXids k) (KnownAssignedXidsValid k)"
  have skip: "i \<le> tail" "tail \<le> ?h" "?v i (?h - i) = ?v tail (?h - tail)"
    using skip_invalid_result [of i "?h - i" "KnownAssignedXids k" "KnownAssignedXidsValid k" tail] assms
    by (auto simp: ka_wf_def)
  have "known k = ?v ?t (i - ?t) @ ?v i (?h - i)"
    using vals_append [of ?t "i - ?t" "?h - i"] assms(3,4) by (simp add: known_def)
  then have known: "known k = ?v tail (?h - tail)"
    using assms(5) skip by simp
  have slice: "take (?h - tail) (drop tail (KnownAssignedXids k)) = drop (tail - ?t) (ka_slice k)"
    using skip assms(3) by (simp add: ka_slice_def drop_take)
  have srt: "sorted_wrt xid_lt (ka_slice k)"
    using assms(1) by (simp add: ka_wf_def)
  show ?thesis
  proof (cases "?h \<le> tail")
    case True
    then show ?thesis using known assms(1) skip
      by (auto simp: set_tail_def ka_wf_def known_def ka_slice_def)
  next
    case False
    then show ?thesis using known assms(1) skip slice sorted_wrt_drop [OF srt, of "tail - ?t"]
      by (auto simp: set_tail_def ka_wf_def known_def ka_slice_def)
  qed
qed

lemma mark_known:
  assumes "ka_wf k" "tailKnownAssignedXids k \<le> i" "i < headKnownAssignedXids k" "KnownAssignedXidsValid k ! i"
    and k1: "k1 = k\<lparr>KnownAssignedXidsValid := (KnownAssignedXidsValid k)[i := False],
                    numKnownAssignedXids := numKnownAssignedXids k - 1\<rparr>"
  shows "known k1 = filter (\<lambda>x. x \<noteq> KnownAssignedXids k ! i) (known k) \<and> ka_wf k1"
proof -
  let ?h = "headKnownAssignedXids k" and ?t = "tailKnownAssignedXids k" and ?x = "KnownAssignedXids k ! i"
  let ?v = "\<lambda>i n. vals i n (KnownAssignedXids k) (KnownAssignedXidsValid k)"
  have split: "vals ?t (?h - ?t) xs vs = vals ?t (i - ?t) xs vs @ vals i (Suc (?h - Suc i)) xs vs" for xs vs
    using vals_append [of ?t "i - ?t" "Suc (?h - Suc i)" xs vs] assms(2,3) by (simp add: Suc_diff_Suc)
  have len: "i < length (KnownAssignedXids k)" "length (KnownAssignedXidsValid k) = length (KnownAssignedXids k)"
    using assms by (auto simp: ka_wf_def)
  have known: "known k = ?v ?t (i - ?t) @ ?x # ?v (Suc i) (?h - Suc i)"
    using assms(4) len by (simp add: known_def split vals_Suc)
  have known1: "known k1 = ?v ?t (i - ?t) @ ?v (Suc i) (?h - Suc i)"
    using len assms(2) by (simp add: k1 known_def split vals_Suc vals_mark)
  have "distinct (known k)"
    by (rule sorted_xid_lt_distinct [OF ka_wf_known_sorted [OF assms(1)]])
  then have out: "?x \<notin> set (?v ?t (i - ?t))" "?x \<notin> set (?v (Suc i) (?h - Suc i))"
    by (auto simp: known)
  have filt: "filter (\<lambda>x. x \<noteq> y) zs = zs" if "y \<notin> set zs" for y and zs :: "TransactionId list"
    using that by (induction zs) auto
  have "known k1 = filter (\<lambda>x. x \<noteq> ?x) (known k)"
    by (simp add: known known1 filt [OF out(1)] filt [OF out(2)])
  moreover have "length (known k1) = length (known k) - 1"
    by (simp add: known known1)
  ultimately show ?thesis
    using assms(1) unfolding ka_wf_def by (simp add: k1 ka_slice_def)
qed

lemma remove_known:
  assumes "ka_wf k"
  shows "known (KnownAssignedXidsRemove xid k) = filter (\<lambda>x. x \<noteq> xid) (known k) \<and> ka_wf (KnownAssignedXidsRemove xid k) \<and>
    KnownAssignedXids (KnownAssignedXidsRemove xid k) = KnownAssignedXids k"
proof (cases "xid \<in> set (known k)")
  case False
  then have "filter (\<lambda>x. x \<noteq> xid) (known k) = known k"
    by (auto simp: filter_id_conv)
  moreover have "KnownAssignedXidsRemove xid k = k"
    using False search_known [OF assms, of xid True]
    by (auto simp: KnownAssignedXidsRemove_def KnownAssignedXidsSearch_def Let_def split: option.splits if_splits)
  ultimately show ?thesis using assms by simp
next
  case True
  let ?t = "tailKnownAssignedXids k" and ?h = "headKnownAssignedXids k"
  from True obtain i where i: "?t \<le> i" "i < ?h" "KnownAssignedXidsValid k ! i" "KnownAssignedXids k ! i = xid"
    using assms unfolding known_def by (subst (asm) in_set_vals) (auto simp: ka_wf_def)
  define k1 where "k1 = k\<lparr>KnownAssignedXidsValid := (KnownAssignedXidsValid k)[i := False],
      numKnownAssignedXids := numKnownAssignedXids k - 1\<rparr>"
  have rem: "KnownAssignedXidsRemove xid k =
      (if i = ?t then set_tail (skip_invalid (Suc ?t) (?h - Suc ?t) (KnownAssignedXidsValid k1)) k1 else k1)"
    using search_index [OF assms i(1,2,4)] i(3)
    by (simp add: KnownAssignedXidsRemove_def KnownAssignedXidsSearch_def Let_def k1_def)
  note k1 = mark_known [OF assms i(1,2,3) k1_def]
  show ?thesis
  proof (cases "i = ?t")
    case True
    have "vals ?t (Suc 0) (KnownAssignedXids k) ((KnownAssignedXidsValid k)[?t := False]) = []"
      using i True assms by (subst vals_Suc) (auto simp: ka_wf_def)
    then show ?thesis
      using set_tail_known [of k1 _ "Suc ?t"] k1 i True rem by (simp add: k1_def)
  next
    case False
    then show ?thesis using rem k1 i(4) by (simp add: k1_def)
  qed
qed

text \<open>The interface its callers rely on: a collection of ids with a membership test and removal.\<close>

locale id_collection =
  fixes inv :: "'s \<Rightarrow> bool"
    and members :: "'s \<Rightarrow> TransactionId list"
    and test :: "TransactionId \<Rightarrow> 's \<Rightarrow> bool"
    and remov :: "TransactionId \<Rightarrow> 's \<Rightarrow> 's"
  assumes test_members: "inv s \<Longrightarrow> test x s \<longleftrightarrow> x \<in> set (members s)"
    and remov_members: "inv s \<Longrightarrow> members (remov x s) = filter (\<lambda>y. y \<noteq> x) (members s)"
    and remov_inv: "inv s \<Longrightarrow> inv (remov x s)"
begin

lemma fold_remov: "inv s \<Longrightarrow> members (fold remov xs s) = filter (\<lambda>y. y \<notin> set xs) (members s) \<and> inv (fold remov xs s)"
proof (induction xs arbitrary: s)
  case (Cons x xs)
  then show ?case
    using Cons.IH [OF remov_inv [OF Cons.prems]] remov_members [OF Cons.prems] by (auto intro!: filter_cong)
qed simp

lemma test_after_fold: "inv s \<Longrightarrow> test x (fold remov xs s) \<longleftrightarrow> test x s \<and> x \<notin> set xs"
  using fold_remov [of s xs] by (auto simp: test_members)

end

interpretation ka: id_collection ka_wf known KnownAssignedXidExists KnownAssignedXidsRemove
  by unfold_locales (auto simp: KnownAssignedXidExists_def search_known remove_known)

lemma remove_tree_known:
  assumes "ka_wf k"
  shows "known (KnownAssignedXidsRemoveTree xid subxids k) =
      filter (\<lambda>x. \<not> (TransactionIdIsValid xid \<and> x = xid) \<and> x \<notin> set subxids) (known k) \<and>
    ka_wf (KnownAssignedXidsRemoveTree xid subxids k)"
proof -
  let ?k = "if TransactionIdIsValid xid then KnownAssignedXidsRemove xid k else k"
  have one: "known ?k = filter (\<lambda>x. \<not> (TransactionIdIsValid xid \<and> x = xid)) (known k)" "ka_wf ?k"
    using remove_known [OF assms, of xid] assms by auto
  show ?thesis
    using ka.fold_remov [OF one(2), of subxids] one(1) compress_known [of "fold KnownAssignedXidsRemove subxids ?k" False]
    by (auto simp: KnownAssignedXidsRemoveTree_def Let_def intro!: filter_cong)
qed

text \<open>Pruning marks a prefix of the ids.\<close>

lemma mark_preceding_result:
  assumes "mark_preceding p r xs i n vs c = (vs', c')" "i + n \<le> length xs" "length vs = length xs"
    and "\<forall>b<i + n. \<forall>a<b. i \<le> a \<longrightarrow> TransactionIdFollowsOrEquals (xs ! a) r \<longrightarrow> TransactionIdFollowsOrEquals (xs ! b) r"
  shows "length vs' = length vs \<and> take i vs' = take i vs \<and> c' + length (vals i n xs vs') = c + length (vals i n xs vs) \<and>
    vals i n xs vs' = filter (\<lambda>x. TransactionIdFollowsOrEquals x r \<or> p x) (vals i n xs vs)"
  using assms
proof (induction n arbitrary: i vs c)
  case (Suc n)
  have later: "\<forall>b<Suc i + n. \<forall>a<b. Suc i \<le> a \<longrightarrow> TransactionIdFollowsOrEquals (xs ! a) r \<longrightarrow> TransactionIdFollowsOrEquals (xs ! b) r"
    using Suc.prems(4) by auto
  have at: "vs' ! i = ws ! i" if "take (Suc i) vs' = take (Suc i) ws" "length vs' = length ws" "i < length ws" for ws
    using that(1) by (metis lessI nth_take)
  have shorter: "take i vs' = take i ws" if "take (Suc i) vs' = take (Suc i) ws" for ws
    using arg_cong [OF that, of "take i"] by simp
  show ?case
  proof (cases "vs ! i \<and> TransactionIdFollowsOrEquals (xs ! i) r")
    case True
    have "TransactionIdFollowsOrEquals x r" if "x \<in> set (vals i (Suc n) xs vs)" for x
    proof -
      from that obtain j where "i \<le> j" "j < i + Suc n" "xs ! j = x"
        using Suc.prems(2,3) by (subst (asm) in_set_vals) auto
      then show ?thesis using Suc.prems(4) [rule_format, of j i] True by (cases "i = j") auto
    qed
    then have "filter (\<lambda>x. TransactionIdFollowsOrEquals x r \<or> p x) (vals i (Suc n) xs vs) = vals i (Suc n) xs vs"
      by (auto simp: filter_id_conv)
    with True Suc.prems show ?thesis by simp
  next
    case False
    define vs1 where "vs1 = (if vs ! i \<and> \<not> p (xs ! i) then vs[i := False] else vs)"
    define c1 where "c1 = (if vs ! i \<and> \<not> p (xs ! i) then Suc c else c)"
    have run: "mark_preceding p r xs (Suc i) n vs1 c1 = (vs', c')"
      using Suc.prems(1) False by (auto simp: vs1_def c1_def split: if_splits)
    have rest: "vals (Suc i) n xs vs1 = vals (Suc i) n xs vs"
      by (simp add: vs1_def vals_mark)
    have fits: "Suc i + n \<le> length xs" "length vs1 = length xs"
      using Suc.prems(2,3) by (simp_all add: vs1_def)
    have IH: "length vs' = length vs1" "take (Suc i) vs' = take (Suc i) vs1"
      "c' + length (vals (Suc i) n xs vs') = c1 + length (vals (Suc i) n xs vs)"
      "vals (Suc i) n xs vs' = filter (\<lambda>x. TransactionIdFollowsOrEquals x r \<or> p x) (vals (Suc i) n xs vs)"
      using Suc.IH [OF run fits later] rest by auto
    have len: "length vs1 = length vs" "i < length vs" "take i vs1 = take i vs"
      using Suc.prems by (simp_all add: vs1_def)
    have "vs' ! i \<longleftrightarrow> vs ! i \<and> p (xs ! i)"
      using at [OF IH(2)] IH(1) len by (auto simp: vs1_def split: if_splits)
    moreover have "take i vs' = take i vs"
      using shorter [OF IH(2)] len by simp
    ultimately show ?thesis
      using IH len Suc.prems(2,3) False by (auto simp: vals_Suc c1_def)
  qed
qed simp

lemma remove_preceding_known:
  assumes "ka_wf k" "TransactionIdIsValid r" "in_window base r" "\<forall>x\<in>set (ka_slice k). in_window base x"
  shows "known (KnownAssignedXidsRemovePreceding p r k) =
      filter (\<lambda>x. TransactionIdFollowsOrEquals x r \<or> p x) (known k) \<and> ka_wf (KnownAssignedXidsRemovePreceding p r k)"
proof -
  let ?t = "tailKnownAssignedXids k" and ?h = "headKnownAssignedXids k" and ?xs = "KnownAssignedXids k"
  obtain vs c where run: "mark_preceding p r ?xs ?t (?h - ?t) (KnownAssignedXidsValid k) 0 = (vs, c)"
    by (meson surj_pair)
  have win: "in_window base (?xs ! a)" if "?t \<le> a" "a < ?h" for a
  proof -
    have "ka_slice k ! (a - ?t) = ?xs ! a" "a - ?t < length (ka_slice k)"
      using that assms(1) slice_nth [of k "a - ?t"] by (auto simp: ka_wf_def ka_slice_def)
    then show ?thesis using assms(4) nth_mem by metis
  qed
  have "TransactionIdFollowsOrEquals (?xs ! b) r"
    if "a < b" "b < ?h" "?t \<le> a" "TransactionIdFollowsOrEquals (?xs ! a) r" for a b
    using that ka_sorted_nth [OF assms(1), of a b] win [of a] win [of b] assms(3)
    by (simp add: window_follows_eq window_lt)
  then have res: "length vs = length (KnownAssignedXidsValid k)" "c + length (vals ?t (?h - ?t) ?xs vs) = length (known k)"
    "vals ?t (?h - ?t) ?xs vs = filter (\<lambda>x. TransactionIdFollowsOrEquals x r \<or> p x) (known k)"
    using mark_preceding_result [OF run] assms(1) by (auto simp: ka_wf_def known_def)
  define k1 where "k1 = k\<lparr>KnownAssignedXidsValid := vs, numKnownAssignedXids := numKnownAssignedXids k - c\<rparr>"
  have k1: "known k1 = filter (\<lambda>x. TransactionIdFollowsOrEquals x r \<or> p x) (known k)"
    using res(3) by (simp add: k1_def known_def)
  have wf1: "ka_wf k1"
    using assms(1) res k1 by (auto simp: ka_wf_def k1_def known_def ka_slice_def)
  have sel: "tailKnownAssignedXids k1 = ?t" "headKnownAssignedXids k1 = ?h" "KnownAssignedXidsValid k1 = vs" "?t \<le> ?h"
    using assms(1) by (simp_all add: k1_def ka_wf_def)
  have "known (set_tail (skip_invalid ?t (?h - ?t) vs) k1) = known k1 \<and> ka_wf (set_tail (skip_invalid ?t (?h - ?t) vs) k1)"
    using set_tail_known [OF wf1 refl, of ?t] by (simp add: sel)
  moreover have "KnownAssignedXidsRemovePreceding p r k =
      KnownAssignedXidsCompress False (set_tail (skip_invalid ?t (?h - ?t) vs) k1)"
    using assms(2) run by (simp add: KnownAssignedXidsRemovePreceding_def Let_def k1_def)
  ultimately show ?thesis
    using compress_known k1 by simp
qed

text \<open>Reading.\<close>

lemma get_loop_xmin:
  assumes "i + n \<le> length xs" "length vs = length xs"
  shows "snd (get_loop xmax xs vs i n acc xmin) =
    (case vals i n xs vs of [] \<Rightarrow> xmin
     | x # _ \<Rightarrow> if acc = [] \<and> TransactionIdPrecedes x xmin then x else xmin)"
  using assms(1)
proof (induction n arbitrary: i acc xmin)
  case (Suc n)
  then show ?case using assms(2) by (auto simp: vals_Suc Let_def split: list.splits)
qed simp

lemma get_known:
  assumes "ka_wf k" "in_window base xmax" "\<forall>x\<in>set (known k). in_window base x"
  shows "KnownAssignedXidsGetAndSetXmin k xmin xmax =
    (filter (\<lambda>x. TransactionIdPrecedes x xmax) (known k),
     case known k of [] \<Rightarrow> xmin | x # _ \<Rightarrow> if TransactionIdPrecedes x xmin then x else xmin)"
proof -
  have prefix: "takeWhile (\<lambda>x. \<not> TransactionIdFollowsOrEquals x xmax) zs = filter (\<lambda>x. TransactionIdPrecedes x xmax) zs"
    if "sorted_wrt xid_lt zs" "\<forall>x\<in>set zs. in_window base x" for zs
    using that
  proof (induction zs)
    case (Cons z zs)
    show ?case
    proof (cases "TransactionIdPrecedes z xmax")
      case True
      then show ?thesis using Cons not_precedes_iff_follows_eq [of z xmax] by auto
    next
      case False
      have "\<not> TransactionIdPrecedes x xmax" if "x \<in> set zs" for x
        using Cons.prems that False assms(2) window_lt [of base z x] window_precedes [of base _ xmax] by fastforce
      then show ?thesis using False not_precedes_iff_follows_eq [of z xmax] by (auto simp: filter_empty_conv)
    qed
  qed simp
  have valid: "TransactionIdIsValid xmax"
    using assms(2) by (auto simp: in_window_def normal_iff valid_iff)
  have fits: "tailKnownAssignedXids k + ka_count k \<le> maxKnownAssignedXids k"
      "length (KnownAssignedXidsValid k) = maxKnownAssignedXids k"
    using assms(1) by (auto simp: ka_wf_def)
  show ?thesis
    using get_loop_result [OF valid fits, of "[]" xmin] get_loop_xmin [OF fits, of xmax "[]" xmin]
      prefix [OF ka_wf_known_sorted [OF assms(1)] assms(3)]
    unfolding KnownAssignedXidsGetAndSetXmin_def Let_def known_def
    by (simp add: prod_eq_iff split: list.splits)
qed

lemma oldest_known: "ka_wf k \<Longrightarrow>
    KnownAssignedXidsGetOldestXmin k = (case known k of [] \<Rightarrow> InvalidTransactionId | x # _ \<Rightarrow> x)"
proof -
  assume wf: "ka_wf k"
  let ?t = "tailKnownAssignedXids k" and ?h = "headKnownAssignedXids k"
  define i where "i = skip_invalid ?t (?h - ?t) (KnownAssignedXidsValid k)"
  have i: "?t \<le> i" "i \<le> ?h" "known k = vals i (?h - i) (KnownAssignedXids k) (KnownAssignedXidsValid k)"
    "i < ?h \<longrightarrow> KnownAssignedXidsValid k ! i"
    using skip_invalid_result [of ?t "?h - ?t" "KnownAssignedXids k" "KnownAssignedXidsValid k" i] wf
    by (auto simp: ka_wf_def known_def i_def)
  show ?thesis
  proof (cases "i < ?h")
    case True
    then have "known k = KnownAssignedXids k ! i # vals (Suc i) (?h - Suc i) (KnownAssignedXids k) (KnownAssignedXidsValid k)"
      using i wf vals_Suc [of i "KnownAssignedXids k" "KnownAssignedXidsValid k" "?h - Suc i"]
      by (simp add: Suc_diff_Suc ka_wf_def)
    with True show ?thesis by (simp add: KnownAssignedXidsGetOldestXmin_def Let_def i_def [symmetric])
  next
    case False
    with i(2,3) show ?thesis by (simp add: KnownAssignedXidsGetOldestXmin_def Let_def i_def [symmetric])
  qed
qed

text \<open>Adding a range: within a window, the ids of a range are increasing.\<close>

lemma advance_window:
  assumes "in_window base x" "in_window base (TransactionIdAdvance x)"
  shows "uint (x - base) < uint (TransactionIdAdvance x - base)"
proof -
  obtain d where d: "TransactionIdAdvance x = x + d" "uint d \<in> {1, 4}"
  proof (cases "x + 1 < 3")
    case False
    then show ?thesis using that [of 1] by (simp add: TransactionIdAdvance_def special_xids)
  next
    case True
    have "unat x \<ge> 3"
      using assms(1) by (simp add: in_window_def normal_iff word_le_nat_alt)
    then have "x = 4294967295"
      using True unsigned_less [of x, where 'a = nat]
      by (simp add: word_less_nat_alt unat_word_ariths word_unat_eq_iff mod_Suc split: if_splits)
    then show ?thesis using that [of 4] by (simp add: TransactionIdAdvance_def special_xids)
  qed
  have "TransactionIdAdvance x - base = (x - base) + d"
    by (simp add: d(1))
  moreover have "uint ((x - base) + d) = uint (x - base) + uint d"
    using d(2) assms(1) by (subst uint_add_lem [THEN iffD1]) (auto simp: in_window_def)
  ultimately have "uint (TransactionIdAdvance x - base) = uint (x - base) + uint d"
    by (simp only:)
  then show ?thesis using d(2) by auto
qed

lemma xid_range_sorted:
  assumes "\<forall>y\<in>set (xid_range x n). in_window base y"
  shows "sorted_wrt xid_lt (xid_range x n) \<and> (\<forall>y\<in>set (xid_range x n). uint (x - base) \<le> uint (y - base))"
  using assms
proof (induction n arbitrary: x)
  case (Suc n)
  show ?case
  proof (cases n)
    case (Suc m)
    let ?a = "TransactionIdAdvance x"
    have win: "in_window base x" "in_window base ?a"
      using Suc.prems Suc by auto
    have IH: "sorted_wrt xid_lt (xid_range ?a n)" "\<forall>y\<in>set (xid_range ?a n). uint (?a - base) \<le> uint (y - base)"
      using Suc.IH [of ?a] Suc.prems by auto
    have lt: "uint (x - base) < uint (y - base)" if "y \<in> set (xid_range ?a n)" for y
      using advance_window [OF win] IH(2) that by fastforce
    then have "xid_lt x y" if "y \<in> set (xid_range ?a n)" for y
      using that Suc.prems window_lt [OF win(1)] by auto
    with IH(1) lt show ?thesis by (auto simp: less_imp_le)
  qed simp
qed simp

lemma last_slice: "ka_wf k \<Longrightarrow> tailKnownAssignedXids k < headKnownAssignedXids k \<Longrightarrow>
    ka_slice k \<noteq> [] \<and> last (ka_slice k) = KnownAssignedXids k ! (headKnownAssignedXids k - 1)"
  using slice_nth [of k "ka_count k - 1"]
  by (auto simp: ka_wf_def last_conv_nth ka_slice_def)

text \<open>The number of slots that \<^verbatim>\<open>KnownAssignedXidsAdd\<close> computes.\<close>

definition range_size :: "TransactionId \<Rightarrow> TransactionId \<Rightarrow> nat" where
  "range_size from_xid to_xid =
     (if to_xid \<ge> from_xid then unat (to_xid - from_xid) + 1 else count_xids from_xid to_xid 1)"

lemma range_size_pos: "range_size a b = Suc (range_size a b - 1)"
proof -
  have "n \<le> count_xids a b n" for n
    by (induction a b n rule: count_xids.induct) (subst count_xids.simps, auto)
  from this [of 1] show ?thesis by (auto simp: range_size_def)
qed

lemma insert_known:
  assumes "ka_wf k" "headKnownAssignedXids k + n \<le> maxKnownAssignedXids k"
    and ins: "insert_xids n x (headKnownAssignedXids k) (KnownAssignedXids k) (KnownAssignedXidsValid k) = (xs, vs)"
    and k': "k' = k\<lparr>KnownAssignedXids := xs, KnownAssignedXidsValid := vs,
                    numKnownAssignedXids := numKnownAssignedXids k + n, headKnownAssignedXids := headKnownAssignedXids k + n\<rparr>"
    and srt: "sorted_wrt xid_lt (ka_slice k @ xid_range x n)"
  shows "known k' = known k @ xid_range x n \<and> ka_wf k'"
proof -
  let ?t = "tailKnownAssignedXids k" and ?h = "headKnownAssignedXids k"
  have len: "length (KnownAssignedXidsValid k) = maxKnownAssignedXids k" "?t \<le> ?h"
    using assms(1) by (auto simp: ka_wf_def)
  have res: "vals ?h n xs vs = xid_range x n" "take n (drop ?h xs) = xid_range x n"
    "length xs = maxKnownAssignedXids k" "length vs = maxKnownAssignedXids k"
    "take ?h xs = take ?h (KnownAssignedXids k)" "take ?h vs = take ?h (KnownAssignedXidsValid k)"
    using insert_xids_result [OF ins assms(2) len(1)] by auto
  have pre: "take (?h - ?t) (drop ?t zs) = drop ?t (take ?h zs)" for zs :: "'b list"
    by (simp add: drop_take)
  have "vals ?t (?h - ?t) xs vs = known k"
    unfolding known_def vals_def pre take_zip res(5,6) ..
  moreover have "vals ?t (?h + n - ?t) xs vs = vals ?t (?h - ?t) xs vs @ vals ?h n xs vs"
    using vals_append [of ?t "?h - ?t" n xs vs] len(2) by simp
  ultimately have known: "known k' = known k @ xid_range x n"
    using res(1) by (simp add: k' known_def)
  have "take (?h + n - ?t) (drop ?t xs) = take (?h - ?t) (drop ?t xs) @ take n (drop ?h xs)"
    using take_add [of "?h - ?t" n "drop ?t xs"] len(2) by simp
  then have "ka_slice k' = ka_slice k @ xid_range x n"
    using res(2,5) by (simp add: k' ka_slice_def pre)
  with known srt assms(1,2) len res(3,4) show ?thesis
    unfolding ka_wf_def by (simp add: k')
qed

lemma add_known:
  assumes "ka_wf k" "\<forall>x\<in>set (ka_slice k) \<union> set (xid_range from_xid (range_size from_xid to_xid)). in_window base x"
    and run: "KnownAssignedXidsAdd from_xid to_xid k = Inr k'"
  shows "known k' = known k @ xid_range from_xid (range_size from_xid to_xid) \<and> ka_wf k'"
proof -
  let ?n = "range_size from_xid to_xid"
  define k1 where "k1 = (if headKnownAssignedXids k + ?n > maxKnownAssignedXids k
      then KnownAssignedXidsCompress True k else k)"
  have k1: "known k1 = known k" "ka_wf k1" "set (ka_slice k1) \<subseteq> set (ka_slice k)"
    using compress_known [OF assms(1), of True] assms(1) by (auto simp: k1_def)
  obtain xs vs where ins: "insert_xids ?n from_xid (headKnownAssignedXids k1) (KnownAssignedXids k1)
      (KnownAssignedXidsValid k1) = (xs, vs)" by (meson surj_pair)
  from run have ok: "\<not> (headKnownAssignedXids k > tailKnownAssignedXids k \<and>
        TransactionIdFollowsOrEquals (KnownAssignedXids k ! (headKnownAssignedXids k - 1)) from_xid)"
    and room: "headKnownAssignedXids k1 + ?n \<le> maxKnownAssignedXids k1"
    and k': "k' = k1\<lparr>KnownAssignedXids := xs, KnownAssignedXidsValid := vs,
      numKnownAssignedXids := numKnownAssignedXids k1 + ?n, headKnownAssignedXids := headKnownAssignedXids k1 + ?n\<rparr>"
    using ins by (auto simp: KnownAssignedXidsAdd_def Let_def range_size_def [symmetric] k1_def [symmetric]
        split: if_splits)
  have from_in: "from_xid \<in> set (xid_range from_xid ?n)"
    by (subst range_size_pos) simp
  have below: "uint (x - base) < uint (from_xid - base)" if "x \<in> set (ka_slice k)" for x
  proof -
    from that have ne: "tailKnownAssignedXids k < headKnownAssignedXids k"
      by (cases "tailKnownAssignedXids k < headKnownAssignedXids k") (auto simp: ka_slice_def)
    note lst = last_slice [OF assms(1) ne]
    have "x = last (ka_slice k) \<or> xid_lt x (last (ka_slice k))"
      using that assms(1) by (intro sorted_wrt_last) (auto simp: ka_wf_def)
    moreover have "uint (last (ka_slice k) - base) < uint (from_xid - base)"
      using ok ne lst assms(2) from_in window_follows_eq [of base "last (ka_slice k)" from_xid] last_in_set
      by (metis Un_iff not_le)
    ultimately show ?thesis
      using assms(2) that lst window_lt [of base x "last (ka_slice k)"] by (auto dest: last_in_set)
  qed
  have rng: "sorted_wrt xid_lt (xid_range from_xid ?n)"
      "\<forall>y\<in>set (xid_range from_xid ?n). uint (from_xid - base) \<le> uint (y - base)"
    using xid_range_sorted [of from_xid ?n base] assms(2) by auto
  have "xid_lt x y" if "x \<in> set (ka_slice k1)" "y \<in> set (xid_range from_xid ?n)" for x y
    using that below [of x] rng(2) k1(3) assms(2) window_lt [of base x y] by fastforce
  then have "sorted_wrt xid_lt (ka_slice k1 @ xid_range from_xid ?n)"
    using k1(2) rng(1) by (auto simp: sorted_wrt_append ka_wf_def)
  from insert_known [OF k1(2) room ins k' this] k1(1) show ?thesis by simp
qed

section \<open>Properties\<close>

text \<open>C36: the array with validity marks implements a list of ids. Adding a range appends its ids; the
  search finds exactly the listed ids; removing a transaction tree deletes its ids and no others;
  compressing changes nothing; each keeps the invariant. Adding supposes that all ids lie in a
  window of \<open>2^31\<close>.\<close>

theorem known_assigned_refines_list:
  assumes "ka_wf k"
  shows "KnownAssignedXidExists x k = (x \<in> set (known k)) \<and>
    known (KnownAssignedXidsRemoveTree xid subxids k) =
      filter (\<lambda>x. \<not> (TransactionIdIsValid xid \<and> x = xid) \<and> x \<notin> set subxids) (known k) \<and>
    ka_wf (KnownAssignedXidsRemoveTree xid subxids k) \<and>
    known (KnownAssignedXidsCompress force k) = known k \<and> ka_wf (KnownAssignedXidsCompress force k) \<and>
    (\<forall>base k'. (\<forall>x\<in>set (ka_slice k) \<union> set (xid_range from_xid (range_size from_xid to_xid)). in_window base x) \<and>
       KnownAssignedXidsAdd from_xid to_xid k = Inr k' \<longrightarrow>
       known k' = known k @ xid_range from_xid (range_size from_xid to_xid) \<and> ka_wf k')"
  using ka.test_members [OF assms] remove_tree_known [OF assms] compress_known [OF assms] add_known [OF assms]
  by blast

definition known_empty :: known_assigned where
  "known_empty = \<lparr>KnownAssignedXids = replicate 8 0, KnownAssignedXidsValid = replicate 8 False,
     numKnownAssignedXids = 0, tailKnownAssignedXids = 0, headKnownAssignedXids = 0, PROCARRAY_MAXPROCS = 2\<rparr>"

lemma known_empty_wf: "ka_wf known_empty"
  by (simp add: ka_wf_def known_empty_def known_def ka_slice_def)

text \<open>An array with the ids 5, 9 and 11, in which 7 has been removed.\<close>

definition known_three :: known_assigned where
  "known_three = \<lparr>KnownAssignedXids = [5, 7, 9, 11, 0, 0, 0, 0], KnownAssignedXidsValid = [True, False, True, True, False, False, False, False],
     numKnownAssignedXids = 3, tailKnownAssignedXids = 0, headKnownAssignedXids = 4, PROCARRAY_MAXPROCS = 2\<rparr>"

lemma known_three_known: "known known_three = [5, 9, 11]" "ka_slice known_three = [5, 7, 9, 11]"
  by code_simp+

lemma known_three_wf: "ka_wf known_three"
  unfolding ka_wf_def known_three_known by (simp add: known_three_def xid_lt_def TransactionIdPrecedes_def normal_iff xid_diff_uint)

theorem known_assigned_refines_list_witness:
  "KnownAssignedXidExists 9 known_three \<and> \<not> KnownAssignedXidExists 7 known_three \<and>
   known (KnownAssignedXidsRemoveTree 9 [11] known_three) = [5] \<and>
   known (KnownAssignedXidsCompress True known_three) = [5, 9, 11] \<and>
   (\<exists>k'. KnownAssignedXidsAdd 12 14 known_three = Inr k' \<and> known k' = [5, 9, 11, 12, 13, 14])"
proof -
  have range: "xid_range 12 (range_size 12 14) = [12, 13, 14]" by code_simp
  have "case KnownAssignedXidsAdd 12 14 known_three of Inr _ \<Rightarrow> True | Inl _ \<Rightarrow> False" by code_simp
  then obtain k' where k': "KnownAssignedXidsAdd 12 14 known_three = Inr k'" by (auto split: sum.splits)
  have win: "\<forall>x\<in>set (ka_slice known_three) \<union> set (xid_range 12 (range_size 12 14)). in_window 5 x"
    unfolding range known_three_known by (simp add: in_window_def normal_iff)
  note spec = known_assigned_refines_list [OF known_three_wf, of _ 9 "[11]" True 12 14, unfolded known_three_known range]
  have "known k' = [5, 9, 11] @ [12, 13, 14]" using spec k' win unfolding known_three_known range by blast
  then show ?thesis using spec [of 9] spec [of 7] k' by (simp add: valid_iff)
qed

text \<open>pruning and reading the known ids. Pruning to a horizon keeps exactly the ids that are not older and
  those of prepared transactions; a snapshot's scan returns exactly the ids older than xmax and
  lowers xmin to the oldest known id; the oldest known id is the head of the list.\<close>

theorem known_assigned_prune_and_read:
  assumes "ka_wf k" "in_window base r" "\<forall>x\<in>set (ka_slice k). in_window base x"
  shows "known (KnownAssignedXidsRemovePreceding prepared r k) =
      filter (\<lambda>x. TransactionIdFollowsOrEquals x r \<or> prepared x) (known k) \<and>
    ka_wf (KnownAssignedXidsRemovePreceding prepared r k) \<and>
    KnownAssignedXidsGetAndSetXmin k xmin r =
      (filter (\<lambda>x. TransactionIdPrecedes x r) (known k),
       case known k of [] \<Rightarrow> xmin | x # _ \<Rightarrow> if TransactionIdPrecedes x xmin then x else xmin) \<and>
    KnownAssignedXidsGetOldestXmin k = (case known k of [] \<Rightarrow> InvalidTransactionId | x # _ \<Rightarrow> x)"
proof -
  have "TransactionIdIsValid r"
    using assms(2) by (auto simp: in_window_def normal_iff valid_iff)
  moreover have "\<forall>x\<in>set (known k). in_window base x"
    using assms(3) set_vals unfolding known_def ka_slice_def by blast
  ultimately show ?thesis
    using remove_preceding_known [OF assms(1) _ assms(2,3)] get_known [OF assms(1,2)] oldest_known [OF assms(1)]
    by blast
qed

theorem known_assigned_prune_and_read_witness:
  "KnownAssignedXidsGetOldestXmin known_empty = 0 \<and>
   fst (KnownAssignedXidsGetAndSetXmin known_empty 9 9) = []"
  using known_assigned_prune_and_read [OF known_empty_wf, of 3 9 "\<lambda>_. False" 9]
  by (simp add: known_empty_def known_def ka_slice_def in_window_def normal_iff special_xids)

end
