(* ===== verification/Clog.thy ===== *)
theory Clog
  imports Transam
begin

text \<open>
  The commit log (\<^verbatim>\<open>src/backend/access/transam/clog.c\<close>): two status bits per transaction, four
  transactions per byte, and the routines that record the outcome of a transaction tree. The
  state is the contents of the pages; which SLRU slot a page occupies, its replacement and
  its I/O are not modelled, so a slot is named by the page it holds. The field \<open>set_calls\<close> is not in
  the C code: it lists the calls of \<^verbatim>\<open>TransactionIdSetStatusBit\<close> in the order they were made, so that
  the theorems can speak of the states in between. \<^verbatim>\<open>BLCKSZ\<close> is 8192. The group
  update of \<^verbatim>\<open>TransactionIdSetPageStatus\<close> makes one leader perform the same page update for several
  backends; the update itself is \<open>TransactionIdSetPageStatusInternal\<close>.
\<close>

section \<open>Layout\<close>

type_synonym XidStatus = "32 word"
type_synonym pageno = "32 word"

definition TRANSACTION_STATUS_IN_PROGRESS :: XidStatus where "TRANSACTION_STATUS_IN_PROGRESS = 0"
definition TRANSACTION_STATUS_COMMITTED :: XidStatus where "TRANSACTION_STATUS_COMMITTED = 1"
definition TRANSACTION_STATUS_ABORTED :: XidStatus where "TRANSACTION_STATUS_ABORTED = 2"
definition TRANSACTION_STATUS_SUB_COMMITTED :: XidStatus where "TRANSACTION_STATUS_SUB_COMMITTED = 3"

lemmas xid_status_defs = TRANSACTION_STATUS_IN_PROGRESS_def TRANSACTION_STATUS_COMMITTED_def
  TRANSACTION_STATUS_ABORTED_def TRANSACTION_STATUS_SUB_COMMITTED_def

definition CLOG_XACTS_PER_PAGE :: TransactionId where "CLOG_XACTS_PER_PAGE = 8192 * 4"

definition TransactionIdToPage :: "TransactionId \<Rightarrow> pageno" where
  "TransactionIdToPage xid = xid div CLOG_XACTS_PER_PAGE"

definition TransactionIdToPgIndex :: "TransactionId \<Rightarrow> uint32" where
  "TransactionIdToPgIndex xid = xid mod CLOG_XACTS_PER_PAGE"

definition TransactionIdToByte :: "TransactionId \<Rightarrow> nat" where
  "TransactionIdToByte xid = unat (TransactionIdToPgIndex xid div 4)"

definition TransactionIdToBIndex :: "TransactionId \<Rightarrow> nat" where
  "TransactionIdToBIndex xid = unat (xid mod 4)"

text \<open>The LSN group within a page (\<^verbatim>\<open>GetLSNIndex\<close> without the slot).\<close>

definition GetLSNIndex :: "TransactionId \<Rightarrow> nat" where
  "GetLSNIndex xid = unat (xid mod CLOG_XACTS_PER_PAGE div 32)"

record clog =
  page_buffer :: "pageno \<Rightarrow> nat \<Rightarrow> uint8"
  group_lsn :: "pageno \<Rightarrow> nat \<Rightarrow> XLogRecPtr"
  set_calls :: "(TransactionId \<times> XidStatus) list"

section \<open>Operations\<close>

definition byte_status :: "uint8 \<Rightarrow> nat \<Rightarrow> XidStatus" where
  "byte_status b bshift = drop_bit bshift (ucast b) AND 3"

definition set_byte_status :: "uint8 \<Rightarrow> nat \<Rightarrow> XidStatus \<Rightarrow> uint8" where
  "set_byte_status b bshift status =
     (b AND NOT (ucast (push_bit bshift (3 :: uint32)))) OR ucast (push_bit bshift status)"

definition TransactionIdGetStatus :: "clog \<Rightarrow> TransactionId \<Rightarrow> XidStatus \<times> XLogRecPtr" where
  "TransactionIdGetStatus c xid =
     (let page = TransactionIdToPage xid; byteno = TransactionIdToByte xid;
          bshift = TransactionIdToBIndex xid * 2
      in (byte_status (page_buffer c page byteno) bshift, group_lsn c page (GetLSNIndex xid)))"

definition TransactionIdSetStatusBit ::
  "bool \<Rightarrow> TransactionId \<Rightarrow> XidStatus \<Rightarrow> XLogRecPtr \<Rightarrow> pageno \<Rightarrow> clog \<Rightarrow> clog" where
  "TransactionIdSetStatusBit InRecovery xid status lsn page c =
     (let byteno = TransactionIdToByte xid; bshift = TransactionIdToBIndex xid * 2;
          byteval = page_buffer c page byteno; curval = byte_status byteval bshift;
          c = c\<lparr>set_calls := set_calls c @ [(xid, status)]\<rparr>
      in if InRecovery \<and> status = TRANSACTION_STATUS_SUB_COMMITTED \<and>
            curval = TRANSACTION_STATUS_COMMITTED
         then c
         else
           let c = c\<lparr>page_buffer := (page_buffer c)(page :=
                       (page_buffer c page)(byteno := set_byte_status byteval bshift status))\<rparr>;
               lsnindex = GetLSNIndex xid
           in if lsn \<noteq> 0 \<and> group_lsn c page lsnindex < lsn
              then c\<lparr>group_lsn := (group_lsn c)(page := (group_lsn c page)(lsnindex := lsn))\<rparr>
              else c)"

text \<open>\<open>set_all\<close> is the loop over \<^verbatim>\<open>subxids\<close>.\<close>

definition set_all ::
  "bool \<Rightarrow> TransactionId list \<Rightarrow> XidStatus \<Rightarrow> XLogRecPtr \<Rightarrow> pageno \<Rightarrow> clog \<Rightarrow> clog" where
  "set_all InRecovery xids status lsn page =
     fold (\<lambda>x. TransactionIdSetStatusBit InRecovery x status lsn page) xids"

definition TransactionIdSetPageStatusInternal ::
  "bool \<Rightarrow> TransactionId \<Rightarrow> TransactionId list \<Rightarrow> XidStatus \<Rightarrow> XLogRecPtr \<Rightarrow> pageno \<Rightarrow> clog \<Rightarrow> clog" where
  "TransactionIdSetPageStatusInternal InRecovery xid subxids status lsn page c =
     (let c = (if TransactionIdIsValid xid then
                 let c = (if status = TRANSACTION_STATUS_COMMITTED
                          then set_all InRecovery subxids TRANSACTION_STATUS_SUB_COMMITTED lsn page c
                          else c)
                 in TransactionIdSetStatusBit InRecovery xid status lsn page c
               else c)
      in set_all InRecovery subxids status lsn page c)"

text \<open>The chunking loop of \<^verbatim>\<open>set_status_by_pages\<close>: \<open>page\<close> is the page of the current chunk.\<close>

function set_by_pages ::
  "bool \<Rightarrow> TransactionId list \<Rightarrow> XidStatus \<Rightarrow> XLogRecPtr \<Rightarrow> pageno \<Rightarrow> clog \<Rightarrow> clog" where
  "set_by_pages InRecovery subxids status lsn page c =
     (if subxids = [] then c
      else
        let on_page = takeWhile (\<lambda>x. TransactionIdToPage x = page) subxids;
            rest = dropWhile (\<lambda>x. TransactionIdToPage x = page) subxids;
            c = TransactionIdSetPageStatusInternal InRecovery InvalidTransactionId on_page status lsn page c
        in set_by_pages InRecovery rest status lsn
             (case rest of [] \<Rightarrow> page | x # _ \<Rightarrow> TransactionIdToPage x) c)"
  by pat_completeness auto
termination
proof (relation "measures [\<lambda>(r, xs, st, l, p, c). length xs,
    \<lambda>(r, xs, st, l, p, c). if xs \<noteq> [] \<and> TransactionIdToPage (hd xs) = p then 0 else 1]", goal_cases)
  case (2 InRecovery subxids status lsn page c x xa xb)
  then show ?case
    using length_dropWhile_le [of "\<lambda>x. TransactionIdToPage x = page" "tl subxids"]
    by (cases subxids) (auto simp: le_less split: list.splits)
qed simp

declare set_by_pages.simps [simp del]

definition set_status_by_pages ::
  "bool \<Rightarrow> TransactionId list \<Rightarrow> XidStatus \<Rightarrow> XLogRecPtr \<Rightarrow> clog \<Rightarrow> clog" where
  "set_status_by_pages InRecovery subxids status lsn c =
     set_by_pages InRecovery subxids status lsn (TransactionIdToPage (hd subxids)) c"

definition TransactionIdSetTreeStatus ::
  "bool \<Rightarrow> TransactionId \<Rightarrow> TransactionId list \<Rightarrow> XidStatus \<Rightarrow> XLogRecPtr \<Rightarrow> clog \<Rightarrow> clog" where
  "TransactionIdSetTreeStatus InRecovery xid subxids status lsn c =
     (let page = TransactionIdToPage xid;
          on_first = takeWhile (\<lambda>x. TransactionIdToPage x = page) subxids;
          rest = dropWhile (\<lambda>x. TransactionIdToPage x = page) subxids
      in if rest = [] then
           TransactionIdSetPageStatusInternal InRecovery xid subxids status lsn page c
         else
           let c = (if status = TRANSACTION_STATUS_COMMITTED
                    then set_status_by_pages InRecovery rest TRANSACTION_STATUS_SUB_COMMITTED lsn c
                    else c);
               c = TransactionIdSetPageStatusInternal InRecovery xid on_first status lsn page c
           in set_status_by_pages InRecovery rest status lsn c)"

section \<open>Bits\<close>

lemma bit_three: "bit (3 :: 32 word) n \<longleftrightarrow> n < 2"
proof -
  have "(3 :: 32 word) = Bit_Operations.mask 2"
    by (simp add: mask_eq_exp_minus_1)
  then show ?thesis
    by (simp only: bit_mask_iff) auto
qed

lemma bit_three_int: "bit (3 :: int) n \<longleftrightarrow> n < 2"
proof -
  have "(3 :: int) = Bit_Operations.mask 2"
    by (simp add: mask_eq_exp_minus_1)
  then show ?thesis
    by (simp only: bit_mask_iff) auto
qed

lemma bit_byte_status: "bit (byte_status b s) n \<longleftrightarrow> n < 2 \<and> bit b (s + n)"
  by (auto simp: byte_status_def bit_simps bit_three bit_three_int dest: bit_imp_le_length)

lemma status_bits: "(st :: XidStatus) < 4 \<Longrightarrow> bit st n \<Longrightarrow> n < 2"
proof -
  assume "st < 4" "bit st n"
  then have "st AND Bit_Operations.mask 2 = st"
    by (intro less_mask_eq) simp
  then show "n < 2"
    using \<open>bit st n\<close> by (metis bit_and_iff bit_mask_iff)
qed

lemma byte_status_same:
  assumes "st < 4" "s \<le> 6"
  shows "byte_status (set_byte_status b s st) s = st"
proof (rule bit_word_eqI)
  fix n assume n: "n < LENGTH(32)"
  show "bit (byte_status (set_byte_status b s st) s) n = bit st n"
    using assms status_bits [OF assms(1), of n]
    by (auto simp: bit_byte_status set_byte_status_def bit_simps bit_three bit_three_int)
qed

lemma byte_status_other:
  assumes "st < 4" "s + 2 \<le> t \<or> t + 2 \<le> s"
  shows "byte_status (set_byte_status b s st) t = byte_status b t"
proof (rule bit_word_eqI)
  fix n assume n: "n < LENGTH(32)"
  show "bit (byte_status (set_byte_status b s st) t) n = bit (byte_status b t) n"
    using assms status_bits [OF assms(1), of "t + n - s"]
    by (auto simp: bit_byte_status set_byte_status_def bit_simps bit_three bit_three_int dest: bit_imp_le_length)
qed

section \<open>Reading back\<close>

text \<open>Two ids of the same page, byte and bit pair are the same id.\<close>

lemma clog_slot_inj:
  assumes "TransactionIdToPage x = TransactionIdToPage y" "TransactionIdToByte x = TransactionIdToByte y"
    "TransactionIdToBIndex x = TransactionIdToBIndex y"
  shows "x = y"
proof -
  have "unat x div 32768 = unat y div 32768"
    using arg_cong [OF assms(1), of unat]
    by (simp add: TransactionIdToPage_def CLOG_XACTS_PER_PAGE_def unat_div)
  moreover have "unat x mod 32768 div 4 = unat y mod 32768 div 4"
    using assms(2)
    by (simp add: TransactionIdToByte_def TransactionIdToPgIndex_def CLOG_XACTS_PER_PAGE_def unat_div unat_mod)
  moreover have "unat x mod 4 = unat y mod 4"
    using assms(3) by (simp add: TransactionIdToBIndex_def unat_mod)
  moreover have "n = 32768 * (n div 32768) + (4 * (n mod 32768 div 4) + n mod 4)" for n :: nat
  proof -
    have "n mod 32768 mod 4 = n mod 4"
      by (rule mod_mod_cancel) simp
    then show ?thesis
      using mult_div_mod_eq [of 32768 n] mult_div_mod_eq [of 4 "n mod 32768"] by simp
  qed
  ultimately have "unat x = unat y"
    by metis
  then show ?thesis by (simp add: word_unat_eq_iff)
qed

lemma bindex_lt: "TransactionIdToBIndex x < 4"
  by (simp add: TransactionIdToBIndex_def unat_mod)

abbreviation xid_status :: "clog \<Rightarrow> TransactionId \<Rightarrow> XidStatus" where
  "xid_status c x \<equiv> fst (TransactionIdGetStatus c x)"

text \<open>The status read back after one write to the page of the id.\<close>

lemma status_set_same:
  assumes "st < 4"
  shows "xid_status (TransactionIdSetStatusBit rec x st lsn (TransactionIdToPage x) c) x =
    (if rec \<and> st = TRANSACTION_STATUS_SUB_COMMITTED \<and> xid_status c x = TRANSACTION_STATUS_COMMITTED
     then xid_status c x else st)"
proof -
  have "TransactionIdToBIndex x * 2 \<le> 6"
    using bindex_lt [of x] by simp
  with assms show ?thesis
    by (simp add: TransactionIdGetStatus_def TransactionIdSetStatusBit_def Let_def byte_status_same)
qed

lemma status_set_other:
  assumes "st < 4" "x \<noteq> y"
  shows "xid_status (TransactionIdSetStatusBit rec x st lsn (TransactionIdToPage x) c) y = xid_status c y"
proof (cases "TransactionIdToPage y = TransactionIdToPage x \<and> TransactionIdToByte y = TransactionIdToByte x")
  case True
  then have "TransactionIdToBIndex x \<noteq> TransactionIdToBIndex y"
    using clog_slot_inj assms(2) by metis
  then have "TransactionIdToBIndex x * 2 + 2 \<le> TransactionIdToBIndex y * 2 \<or>
      TransactionIdToBIndex y * 2 + 2 \<le> TransactionIdToBIndex x * 2"
    by linarith
  with True assms(1) show ?thesis
    by (simp add: TransactionIdGetStatus_def TransactionIdSetStatusBit_def Let_def byte_status_other)
next
  case False
  then show ?thesis
    by (auto simp: TransactionIdGetStatus_def TransactionIdSetStatusBit_def Let_def)
qed

section \<open>The interface of a status log\<close>

text \<open>A log of transaction statuses with one write per transaction id. During recovery a write of
  sub-committed over committed is ignored.\<close>

locale status_log =
  fixes in_recovery :: bool
    and get_st :: "'c \<Rightarrow> TransactionId \<Rightarrow> XidStatus"
    and put_st :: "TransactionId \<Rightarrow> XidStatus \<Rightarrow> 'c \<Rightarrow> 'c"
  assumes read_same: "st < 4 \<Longrightarrow> get_st (put_st x st c) x =
      (if in_recovery \<and> st = TRANSACTION_STATUS_SUB_COMMITTED \<and> get_st c x = TRANSACTION_STATUS_COMMITTED
       then get_st c x else st)"
    and read_other: "st < 4 \<Longrightarrow> x \<noteq> y \<Longrightarrow> get_st (put_st x st c) y = get_st c y"
begin

text \<open>A run of writes.\<close>

definition writes :: "(TransactionId \<times> XidStatus) list \<Rightarrow> 'c \<Rightarrow> 'c" where
  "writes ws = fold (\<lambda>(x, st). put_st x st) ws"

lemma writes_simps [simp]:
  "writes [] c = c" "writes ((x, st) # ws) c = writes ws (put_st x st c)"
  "writes (us @ vs) c = writes vs (writes us c)"
  by (simp_all add: writes_def)

lemma writes_untouched:
  "\<forall>(x, st)\<in>set ws. st < 4 \<and> x \<noteq> y \<Longrightarrow> get_st (writes ws c) y = get_st c y"
  by (induction ws arbitrary: c) (auto simp: read_other)

lemma writes_final:
  assumes "st < 4" "st \<noteq> TRANSACTION_STATUS_SUB_COMMITTED" "y \<in> set xs"
  shows "get_st (writes (map (\<lambda>x. (x, st)) xs) c) y = st"
  using assms(3)
proof (induction xs arbitrary: c)
  case (Cons x xs)
  show ?case
  proof (cases "y \<in> set xs")
    case False
    then have "y = x" using Cons.prems by simp
    with False assms(1,2) show ?thesis
      by (simp) (subst writes_untouched; auto simp: read_same)
  qed (simp add: Cons.IH)
qed simp

text \<open>Sub-committed writes never create a committed status.\<close>

lemma writes_subcommit:
  "get_st (writes (map (\<lambda>x. (x, TRANSACTION_STATUS_SUB_COMMITTED)) xs) c) y = TRANSACTION_STATUS_COMMITTED
   \<Longrightarrow> get_st c y = TRANSACTION_STATUS_COMMITTED"
proof (induction xs arbitrary: c)
  case (Cons x xs)
  then have "get_st (put_st x TRANSACTION_STATUS_SUB_COMMITTED c) y = TRANSACTION_STATUS_COMMITTED"
    by simp
  then show ?case
    by (cases "x = y") (auto simp: read_same read_other xid_status_defs split: if_splits)
qed simp

end

text \<open>The order in which the outcome of a tree is recorded.\<close>

definition tree_writes ::
  "TransactionId \<Rightarrow> TransactionId list \<Rightarrow> XidStatus \<Rightarrow> (TransactionId \<times> XidStatus) list" where
  "tree_writes xid subxids status =
     (let same = (\<lambda>x. TransactionIdToPage x = TransactionIdToPage xid)
      in (if status = TRANSACTION_STATUS_COMMITTED
          then map (\<lambda>x. (x, TRANSACTION_STATUS_SUB_COMMITTED))
                 (dropWhile same subxids @ takeWhile same subxids)
          else []) @ (xid, status) # map (\<lambda>x. (x, status)) subxids)"

text \<open>A prefix of these writes for a commit: some of the sub-commit writes, or all of them, the parent's
  commit and some of the children's.\<close>

lemma tree_writes_prefix:
  assumes "tree_writes xid subxids TRANSACTION_STATUS_COMMITTED = us @ vs"
  obtains (before) xs where "us = map (\<lambda>x. (x, TRANSACTION_STATUS_SUB_COMMITTED)) xs" "set xs \<subseteq> set subxids"
  | (after) xs ys where "us = map (\<lambda>x. (x, TRANSACTION_STATUS_SUB_COMMITTED)) xs @
      (xid, TRANSACTION_STATUS_COMMITTED) # map (\<lambda>x. (x, TRANSACTION_STATUS_COMMITTED)) ys"
      "set xs = set subxids" "set ys \<subseteq> set subxids"
proof -
  define same where "same = (\<lambda>x. TransactionIdToPage x = TransactionIdToPage xid)"
  define xs where "xs = dropWhile same subxids @ takeWhile same subxids"
  have all: "set xs = set subxids"
    unfolding xs_def by (metis Un_commute set_append takeWhile_dropWhile_id)
  have "us @ vs = map (\<lambda>x. (x, TRANSACTION_STATUS_SUB_COMMITTED)) xs @
      (xid, TRANSACTION_STATUS_COMMITTED) # map (\<lambda>x. (x, TRANSACTION_STATUS_COMMITTED)) subxids"
    using assms by (simp add: tree_writes_def Let_def xs_def same_def)
  then obtain zs where "us @ zs = map (\<lambda>x. (x, TRANSACTION_STATUS_SUB_COMMITTED)) xs \<or>
      us = map (\<lambda>x. (x, TRANSACTION_STATUS_SUB_COMMITTED)) xs @ zs \<and>
      zs @ vs = (xid, TRANSACTION_STATUS_COMMITTED) # map (\<lambda>x. (x, TRANSACTION_STATUS_COMMITTED)) subxids"
    by (auto simp: append_eq_append_conv2)
  then consider (1) "us @ zs = map (\<lambda>x. (x, TRANSACTION_STATUS_SUB_COMMITTED)) xs"
    | (2) ws where "us = map (\<lambda>x. (x, TRANSACTION_STATUS_SUB_COMMITTED)) xs @ (xid, TRANSACTION_STATUS_COMMITTED) # ws"
        "ws @ vs = map (\<lambda>x. (x, TRANSACTION_STATUS_COMMITTED)) subxids"
    by (cases zs) auto
  then show thesis
  proof cases
    case 1
    then obtain us' zs' where "us = map (\<lambda>x. (x, TRANSACTION_STATUS_SUB_COMMITTED)) us'" "us' @ zs' = xs"
      by (metis map_eq_append_conv)
    then show ?thesis using before all by (metis Un_upper1 set_append)
  next
    case 2
    then obtain ys zs' where "ws = map (\<lambda>x. (x, TRANSACTION_STATUS_COMMITTED)) ys" "ys @ zs' = subxids"
      by (metis map_eq_append_conv)
    then show ?thesis using after all 2(1) by (metis Un_upper1 set_append)
  qed
qed

context status_log
begin

lemma tree_final:
  assumes "status < 4" "status \<noteq> TRANSACTION_STATUS_SUB_COMMITTED" "y \<in> insert xid (set subxids)"
  shows "get_st (writes (tree_writes xid subxids status) c) y = status"
proof (cases "y \<in> set subxids")
  case True
  then show ?thesis using assms by (simp add: tree_writes_def Let_def writes_final)
next
  case False
  then have "y = xid" using assms(3) by simp
  have "get_st (writes (map (\<lambda>x. (x, status)) subxids) (put_st xid status c0)) xid = status" for c0
    using False assms(1,2) \<open>y = xid\<close> by (subst writes_untouched) (auto simp: read_same)
  then show ?thesis
    using \<open>y = xid\<close> by (simp add: tree_writes_def Let_def)
qed

lemma tree_untouched:
  assumes "status < 4" "y \<notin> insert xid (set subxids)"
  shows "get_st (writes (tree_writes xid subxids status) c) y = get_st c y"
  using assms
  by (intro writes_untouched)
    (auto simp: tree_writes_def Let_def xid_status_defs dest: set_takeWhileD set_dropWhileD split: if_splits)

text \<open>Stop the recording of a commit anywhere: no child has become committed before its parent.\<close>

lemma tree_prefix:
  assumes "tree_writes xid subxids TRANSACTION_STATUS_COMMITTED = us @ vs"
    and xid: "xid \<notin> set subxids"
    and child: "get_st c y \<noteq> TRANSACTION_STATUS_COMMITTED"
      "get_st (writes us c) y = TRANSACTION_STATUS_COMMITTED"
  shows "get_st (writes us c) xid = TRANSACTION_STATUS_COMMITTED"
  using assms(1)
proof (cases rule: tree_writes_prefix)
  case before
  then show ?thesis using writes_subcommit child by blast
next
  case (after xs ys)
  then have "\<forall>(x, st)\<in>set (map (\<lambda>x. (x, TRANSACTION_STATUS_COMMITTED)) ys). st < 4 \<and> x \<noteq> xid"
    using xid by (auto simp: xid_status_defs)
  then show ?thesis
    using after by (simp add: writes_untouched read_same xid_status_defs)
qed

text \<open>The statuses of an unfinished tree after a prefix of the writes: either nothing is committed yet, or the
  parent is and every child is at least sub-committed.\<close>

lemma writes_unfinished:
  assumes "get_st c y \<noteq> TRANSACTION_STATUS_COMMITTED" "st \<in> {TRANSACTION_STATUS_COMMITTED, TRANSACTION_STATUS_SUB_COMMITTED}"
  shows "get_st (writes (map (\<lambda>x. (x, st)) xs) c) y =
    (if y \<in> set xs then st else get_st c y)"
proof -
  have st: "st < 4" using assms(2) by (auto simp: xid_status_defs)
  have "get_st (writes (map (\<lambda>x. (x, st)) xs) c) y = (if y \<in> set xs then st else get_st c y)"
    if "get_st c y \<noteq> TRANSACTION_STATUS_COMMITTED \<or> st = TRANSACTION_STATUS_COMMITTED" for c
    using that
  proof (induction xs arbitrary: c)
    case (Cons x xs)
    show ?case
      using Cons.IH [of "put_st x st c"] Cons.prems read_same [OF st, of x c] read_other [OF st, of x y c] assms(2)
      by (cases "x = y") (auto simp: xid_status_defs split: if_splits)
  qed simp
  with assms(1) show ?thesis by simp
qed

lemma tree_prefix_statuses:
  assumes "tree_writes xid subxids TRANSACTION_STATUS_COMMITTED = us @ vs" "xid \<notin> set subxids"
    and c: "get_st c xid = TRANSACTION_STATUS_IN_PROGRESS"
      "\<forall>y\<in>set subxids. get_st c y \<in> {TRANSACTION_STATUS_IN_PROGRESS, TRANSACTION_STATUS_SUB_COMMITTED}"
  shows "get_st (writes us c) xid = TRANSACTION_STATUS_IN_PROGRESS \<and>
      (\<forall>y\<in>set subxids. get_st (writes us c) y \<in> {TRANSACTION_STATUS_IN_PROGRESS, TRANSACTION_STATUS_SUB_COMMITTED}) \<or>
    get_st (writes us c) xid = TRANSACTION_STATUS_COMMITTED \<and>
      (\<forall>y\<in>set subxids. get_st (writes us c) y \<in> {TRANSACTION_STATUS_SUB_COMMITTED, TRANSACTION_STATUS_COMMITTED})"
proof -
  note open1 = writes_unfinished [of _ _ TRANSACTION_STATUS_SUB_COMMITTED, simplified]
  have old: "get_st c y \<noteq> TRANSACTION_STATUS_COMMITTED" if "y = xid \<or> y \<in> set subxids" for y
    using c that by (auto simp: xid_status_defs)
  show ?thesis
    using assms(1)
  proof (cases rule: tree_writes_prefix)
    case (before xs)
    then show ?thesis
      using open1 [OF old] c assms(2) by (auto simp: subset_iff)
  next
    case (after xs ys)
    define c1 where "c1 = writes (map (\<lambda>x. (x, TRANSACTION_STATUS_SUB_COMMITTED)) xs) c"
    define c2 where "c2 = put_st xid TRANSACTION_STATUS_COMMITTED c1"
    have us: "writes us c = writes (map (\<lambda>x. (x, TRANSACTION_STATUS_COMMITTED)) ys) c2"
      using after by (simp add: c1_def c2_def)
    have c2: "get_st c2 y = TRANSACTION_STATUS_SUB_COMMITTED" if "y \<in> set subxids" for y
      using open1 [OF old] that after(2) assms(2) read_other [of TRANSACTION_STATUS_COMMITTED xid y c1]
      by (auto simp: c1_def c2_def xid_status_defs)
    then have "get_st (writes us c) y \<in> {TRANSACTION_STATUS_SUB_COMMITTED, TRANSACTION_STATUS_COMMITTED}"
      if "y \<in> set subxids" for y
      using writes_unfinished [of c2 y TRANSACTION_STATUS_COMMITTED ys] that by (simp add: us xid_status_defs)
    moreover have "get_st (writes us c) xid = TRANSACTION_STATUS_COMMITTED"
      unfolding us using assms(2) after(3)
      by (subst writes_untouched) (auto simp: c2_def read_same xid_status_defs)
    ultimately show ?thesis by blast
  qed
qed

end

text \<open>The bit-level log is a status log, in recovery and outside.\<close>

definition clog_put :: "bool \<Rightarrow> XLogRecPtr \<Rightarrow> TransactionId \<Rightarrow> XidStatus \<Rightarrow> clog \<Rightarrow> clog" where
  "clog_put rec lsn x st = TransactionIdSetStatusBit rec x st lsn (TransactionIdToPage x)"

interpretation clog_log: status_log rec xid_status "clog_put rec lsn" for rec lsn
  by unfold_locales (auto simp: clog_put_def status_set_same status_set_other)

section \<open>Recording a tree\<close>

lemma set_all_put:
  "\<forall>x\<in>set xs. TransactionIdToPage x = page \<Longrightarrow>
   set_all rec xs st lsn page c = clog_log.writes rec lsn (map (\<lambda>x. (x, st)) xs) c"
  by (induction xs arbitrary: c) (auto simp: set_all_def clog_put_def)

lemma set_by_pages_put:
  "set_by_pages rec xs st lsn page c = clog_log.writes rec lsn (map (\<lambda>x. (x, st)) xs) c"
proof (induction rec xs st lsn page c rule: set_by_pages.induct)
  case (1 rec xs st lsn page c)
  let ?on = "\<lambda>x. TransactionIdToPage x = page"
  show ?case
  proof (cases "xs = []")
    case False
    have "TransactionIdSetPageStatusInternal rec InvalidTransactionId (takeWhile ?on xs) st lsn page c
        = clog_log.writes rec lsn (map (\<lambda>x. (x, st)) (takeWhile ?on xs)) c"
      by (simp add: TransactionIdSetPageStatusInternal_def TransactionIdIsValid_def Let_def)
        (intro set_all_put, auto dest: set_takeWhileD)
    moreover have "clog_log.writes rec lsn (map (\<lambda>x. (x, st)) xs) c =
        clog_log.writes rec lsn (map (\<lambda>x. (x, st)) (dropWhile ?on xs))
          (clog_log.writes rec lsn (map (\<lambda>x. (x, st)) (takeWhile ?on xs)) c)"
      by (metis clog_log.writes_simps(3) map_append takeWhile_dropWhile_id)
    ultimately show ?thesis
      using "1.IH" [OF False refl refl refl] False
      by (simp add: set_by_pages.simps [of rec xs] Let_def)
  qed (simp add: set_by_pages.simps)
qed

lemma set_page_put:
  assumes "TransactionIdIsValid xid" "\<forall>x\<in>set xs. TransactionIdToPage x = TransactionIdToPage xid"
  shows "TransactionIdSetPageStatusInternal rec xid xs st lsn (TransactionIdToPage xid) c =
    clog_log.writes rec lsn
      ((if st = TRANSACTION_STATUS_COMMITTED then map (\<lambda>x. (x, TRANSACTION_STATUS_SUB_COMMITTED)) xs
        else []) @ (xid, st) # map (\<lambda>x. (x, st)) xs) c"
  using assms by (simp add: TransactionIdSetPageStatusInternal_def Let_def set_all_put clog_put_def)

text \<open>\<open>TransactionIdSetTreeStatus\<close> performs the writes of \<open>tree_writes\<close> in that order.\<close>

lemma tree_status_writes:
  assumes "TransactionIdIsValid xid"
  shows "TransactionIdSetTreeStatus rec xid subxids st lsn c =
    clog_log.writes rec lsn (tree_writes xid subxids st) c"
proof -
  let ?same = "\<lambda>x. TransactionIdToPage x = TransactionIdToPage xid"
  have on: "\<forall>x\<in>set (takeWhile ?same subxids). ?same x"
    by (auto dest: set_takeWhileD)
  have split: "map (\<lambda>x. (x, st)) subxids =
      map (\<lambda>x. (x, st)) (takeWhile ?same subxids) @ map (\<lambda>x. (x, st)) (dropWhile ?same subxids)"
    by (metis map_append takeWhile_dropWhile_id)
  show ?thesis
  proof (cases "dropWhile ?same subxids = []")
    case True
    then have all: "takeWhile ?same subxids = subxids"
      by (metis append_Nil2 takeWhile_dropWhile_id)
    show ?thesis
      unfolding TransactionIdSetTreeStatus_def tree_writes_def Let_def True all
        set_page_put [OF assms on [unfolded all]]
      by simp
  next
    case False
    then show ?thesis
      unfolding TransactionIdSetTreeStatus_def tree_writes_def Let_def split
        set_status_by_pages_def set_by_pages_put set_page_put [OF assms on]
      by (simp only: if_False clog_log.writes_simps map_append) simp
  qed
qed

text \<open>The calls a run of writes makes.\<close>

lemma writes_calls: "set_calls (clog_log.writes rec lsn ws c) = set_calls c @ ws"
  by (induction ws arbitrary: c)
    (auto simp: clog_put_def TransactionIdSetStatusBit_def Let_def)

lemma put_calls: "set_calls (clog_put rec lsn x st c) = set_calls c @ [(x, st)]"
  using writes_calls [of rec lsn "[(x, st)]" c] by simp

definition replay :: "bool \<Rightarrow> XLogRecPtr \<Rightarrow> (TransactionId \<times> XidStatus) list \<Rightarrow> clog \<Rightarrow> clog" where
  "replay rec lsn ws = fold (\<lambda>(x, st). clog_put rec lsn x st) ws"

lemma replay_writes: "replay rec lsn ws c = clog_log.writes rec lsn ws c"
  by (simp add: replay_def clog_log.writes_def)

text \<open>The LSN of the group a transaction belongs to.\<close>

abbreviation xid_lsn :: "clog \<Rightarrow> TransactionId \<Rightarrow> XLogRecPtr" where
  "xid_lsn c x \<equiv> snd (TransactionIdGetStatus c x)"

lemma put_lsn_mono: "xid_lsn c y \<le> xid_lsn (clog_put rec lsn x st c) y"
  by (simp add: clog_put_def TransactionIdGetStatus_def TransactionIdSetStatusBit_def Let_def
      not_less less_imp_le)

lemma put_lsn_reached:
  "st \<noteq> TRANSACTION_STATUS_SUB_COMMITTED \<Longrightarrow> lsn \<le> xid_lsn (clog_put rec lsn x st c) x"
  by (auto simp: clog_put_def TransactionIdGetStatus_def TransactionIdSetStatusBit_def Let_def not_less)

lemma writes_lsn_mono: "xid_lsn c y \<le> xid_lsn (clog_log.writes rec lsn ws c) y"
proof (induction ws arbitrary: c)
  case (Cons w ws)
  then show ?case
    using put_lsn_mono order_trans by (cases w) (simp, blast)
qed simp

lemma writes_lsn_reached:
  "(y, st) \<in> set ws \<Longrightarrow> st \<noteq> TRANSACTION_STATUS_SUB_COMMITTED \<Longrightarrow>
   lsn \<le> xid_lsn (clog_log.writes rec lsn ws c) y"
proof (induction ws arbitrary: c)
  case (Cons w ws)
  then show ?case
    using order_trans [OF put_lsn_reached writes_lsn_mono] by (cases w) auto
qed simp

section \<open>Properties\<close>

definition clog_empty :: clog where
  "clog_empty = \<lparr>page_buffer = (\<lambda>_ _. 0), group_lsn = (\<lambda>_ _. 0), set_calls = []\<rparr>"

text \<open>C23: after the outcome of a transaction tree has been recorded, whatever pages its children lie
  on, reading the commit log gives that outcome for the parent and every child, and every other
  transaction reads as before.\<close>

theorem clog_tree_outcome:
  assumes "TransactionIdIsValid xid"
    and "status = TRANSACTION_STATUS_COMMITTED \<or> status = TRANSACTION_STATUS_ABORTED"
  shows "fst (TransactionIdGetStatus (TransactionIdSetTreeStatus rec xid subxids status lsn c) y) =
    (if y = xid \<or> y \<in> set subxids then status else fst (TransactionIdGetStatus c y))"
proof -
  have "status < 4" "status \<noteq> TRANSACTION_STATUS_SUB_COMMITTED"
    using assms(2) by (auto simp: xid_status_defs)
  then show ?thesis
    using clog_log.tree_final [of status y xid subxids rec lsn c]
      clog_log.tree_untouched [of status y xid subxids rec lsn c]
    by (simp add: tree_status_writes [OF assms(1)])
qed

theorem clog_tree_outcome_witness:
  "fst (TransactionIdGetStatus
     (TransactionIdSetTreeStatus False 32700 [32701, 32800] TRANSACTION_STATUS_COMMITTED 7 clog_empty) 32800)
   = TRANSACTION_STATUS_COMMITTED"
  using clog_tree_outcome [of 32700 TRANSACTION_STATUS_COMMITTED False "[32701, 32800]" 7 clog_empty 32800]
  by (simp add: TransactionIdIsValid_def special_xids)

text \<open>C22: the order of the writes makes a commit atomic. Stop the recording of a commit after any
  number of calls of the bit writer: if a transaction that was not committed before reads as committed
  in that state, then the top-level transaction does too. No child is seen committed before its
  parent. Replaying all the calls gives the final state.\<close>

theorem clog_commit_atomic:
  assumes "TransactionIdIsValid xid" "xid \<notin> set subxids"
    and "c' = TransactionIdSetTreeStatus rec xid subxids TRANSACTION_STATUS_COMMITTED lsn c"
  shows "\<exists>ws. set_calls c' = set_calls c @ ws \<and> replay rec lsn ws c = c' \<and>
    (\<forall>us vs y. ws = us @ vs \<longrightarrow> fst (TransactionIdGetStatus c y) \<noteq> TRANSACTION_STATUS_COMMITTED \<longrightarrow>
       fst (TransactionIdGetStatus (replay rec lsn us c) y) = TRANSACTION_STATUS_COMMITTED \<longrightarrow>
       fst (TransactionIdGetStatus (replay rec lsn us c) xid) = TRANSACTION_STATUS_COMMITTED)"
proof (intro exI conjI allI impI)
  let ?ws = "tree_writes xid subxids TRANSACTION_STATUS_COMMITTED"
  show "set_calls c' = set_calls c @ ?ws" "replay rec lsn ?ws c = c'"
    using assms(3) by (simp_all add: tree_status_writes [OF assms(1)] writes_calls replay_writes)
  fix us vs y
  assume "?ws = us @ vs" "fst (TransactionIdGetStatus c y) \<noteq> TRANSACTION_STATUS_COMMITTED"
    "fst (TransactionIdGetStatus (replay rec lsn us c) y) = TRANSACTION_STATUS_COMMITTED"
  then show "fst (TransactionIdGetStatus (replay rec lsn us c) xid) = TRANSACTION_STATUS_COMMITTED"
    using clog_log.tree_prefix assms(2) unfolding replay_writes by blast
qed

text \<open>A log in which another transaction has aborted, and the five writes of a commit whose second child lies on another page: the child
  there is first marked as sub-committed.\<close>

definition clog_used :: clog where
  "clog_used = TransactionIdSetTreeStatus False 32600 [] TRANSACTION_STATUS_ABORTED 3 clog_empty"

definition commit_calls :: "(TransactionId \<times> XidStatus) list" where
  "commit_calls = [(32800, TRANSACTION_STATUS_SUB_COMMITTED), (32701, TRANSACTION_STATUS_SUB_COMMITTED),
     (32700, TRANSACTION_STATUS_COMMITTED), (32701, TRANSACTION_STATUS_COMMITTED), (32800, TRANSACTION_STATUS_COMMITTED)]"

theorem clog_commit_atomic_witness:
  "set_calls clog_used = [(32600, TRANSACTION_STATUS_ABORTED)] \<and>
   set_calls (TransactionIdSetTreeStatus False 32700 [32701, 32800] TRANSACTION_STATUS_COMMITTED 7 clog_used) = set_calls clog_used @ commit_calls \<and>
   fst (TransactionIdGetStatus (replay False 7 (take 2 commit_calls) clog_used) 32800) = TRANSACTION_STATUS_SUB_COMMITTED \<and>
   fst (TransactionIdGetStatus (replay False 7 (take 5 commit_calls) clog_used) 32800) = TRANSACTION_STATUS_COMMITTED \<and>
   fst (TransactionIdGetStatus (replay False 7 (take 5 commit_calls) clog_used) 32700) = TRANSACTION_STATUS_COMMITTED \<and>
   fst (TransactionIdGetStatus (replay False 7 (take 4 commit_calls) clog_used) 32701) = TRANSACTION_STATUS_COMMITTED \<and>
   fst (TransactionIdGetStatus (replay False 7 (take 4 commit_calls) clog_used) 32700) = TRANSACTION_STATUS_COMMITTED"
proof -
  have pages: "TransactionIdToPage 32700 = 0" "TransactionIdToPage 32701 = 0" "TransactionIdToPage 32800 = 1"
    by code_simp+
  have used: "clog_used = clog_put False 3 32600 TRANSACTION_STATUS_ABORTED clog_empty"
    by (simp add: clog_used_def tree_status_writes TransactionIdIsValid_def special_xids tree_writes_def Let_def xid_status_defs)
  have calls: "set_calls clog_used = [(32600, TRANSACTION_STATUS_ABORTED)]"
    "set_calls (TransactionIdSetTreeStatus False 32700 [32701, 32800] TRANSACTION_STATUS_COMMITTED 7 clog_used) = set_calls clog_used @ commit_calls"
    by (simp_all add: used put_calls clog_empty_def tree_status_writes TransactionIdIsValid_def special_xids tree_writes_def commit_calls_def pages Let_def)
  have small: "TRANSACTION_STATUS_SUB_COMMITTED < 4" "TRANSACTION_STATUS_COMMITTED < 4" "TRANSACTION_STATUS_ABORTED < 4"
    by (simp_all add: xid_status_defs)
  have "fst (TransactionIdGetStatus clog_empty 32800) = 0" "fst (TransactionIdGetStatus clog_empty 32701) = 0" by code_simp+
  then have states: "fst (TransactionIdGetStatus clog_used 32800) \<noteq> TRANSACTION_STATUS_COMMITTED"
    "fst (TransactionIdGetStatus (replay False 7 (take 2 commit_calls) clog_used) 32800) = TRANSACTION_STATUS_SUB_COMMITTED"
    "fst (TransactionIdGetStatus (replay False 7 (take 5 commit_calls) clog_used) 32800) = TRANSACTION_STATUS_COMMITTED"
    "fst (TransactionIdGetStatus (replay False 7 (take 4 commit_calls) clog_used) 32701) = TRANSACTION_STATUS_COMMITTED"
    "fst (TransactionIdGetStatus clog_used 32701) \<noteq> TRANSACTION_STATUS_COMMITTED"
    using clog_log.read_same clog_log.read_other small
    by (simp_all add: replay_writes commit_calls_def used xid_status_defs(2))
  have valid: "TransactionIdIsValid 32700" "32700 \<notin> set [32701, 32800 :: TransactionId]" by (simp_all add: TransactionIdIsValid_def special_xids)
  obtain ws where ws: "set_calls clog_used @ commit_calls = set_calls clog_used @ ws"
      "\<And>us vs y. ws = us @ vs \<Longrightarrow> fst (TransactionIdGetStatus clog_used y) \<noteq> TRANSACTION_STATUS_COMMITTED \<Longrightarrow>
        fst (TransactionIdGetStatus (replay False 7 us clog_used) y) = TRANSACTION_STATUS_COMMITTED \<Longrightarrow>
        fst (TransactionIdGetStatus (replay False 7 us clog_used) 32700) = TRANSACTION_STATUS_COMMITTED"
    using clog_commit_atomic [OF valid refl, of False 7 clog_used] calls(2) by metis
  have split: "ws = take n commit_calls @ drop n commit_calls" for n using ws(1) by simp
  show ?thesis using calls states ws(2) [OF split states(1,3)] ws(2) [OF split states(5,4)] by blast
qed

text \<open>recording an asynchronous commit leaves, for every transaction of the tree, an LSN that is at
  least the commit record's, and the LSN kept for any group of transactions never goes backwards, so
  that a reader who waits for it waits long enough.\<close>

theorem clog_group_lsn:
  assumes "TransactionIdIsValid xid"
    and "status = TRANSACTION_STATUS_COMMITTED \<or> status = TRANSACTION_STATUS_ABORTED"
  shows "xid_lsn c y \<le> xid_lsn (TransactionIdSetTreeStatus rec xid subxids status lsn c) y \<and>
    (y = xid \<or> y \<in> set subxids \<longrightarrow>
       lsn \<le> xid_lsn (TransactionIdSetTreeStatus rec xid subxids status lsn c) y)"
proof -
  have final: "status \<noteq> TRANSACTION_STATUS_SUB_COMMITTED"
    using assms(2) by (auto simp: xid_status_defs)
  have "(y, status) \<in> set (tree_writes xid subxids status)" if "y = xid \<or> y \<in> set subxids"
    using that by (auto simp: tree_writes_def Let_def)
  then show ?thesis
    using writes_lsn_mono writes_lsn_reached [OF _ final] by (simp add: tree_status_writes [OF assms(1)])
qed

theorem clog_group_lsn_witness:
  "7 \<le> xid_lsn (TransactionIdSetTreeStatus False 32700 [32701, 32800] TRANSACTION_STATUS_COMMITTED 7 clog_empty) 32800"
  using clog_group_lsn [of 32700 TRANSACTION_STATUS_COMMITTED clog_empty 32800 False "[32701, 32800]" 7]
  by (simp add: TransactionIdIsValid_def special_xids)

end
