(* ===== verification/Subtrans.thy ===== *)
theory Subtrans
  imports Transam
begin

text \<open>
  The parent links of subtransactions (\<^verbatim>\<open>src/backend/access/transam/subtrans.c\<close>). The state is the
  contents of the pages; which SLRU slot a page occupies and its I/O are not modelled.
  \<^verbatim>\<open>SubTransGetTopmostTransaction\<close> follows the links in a loop that nothing but the data bounds: it is a
  partial function whose value \<open>None\<close> is a run that does not end, and the theorems show that it always
  ends, whatever the log contains.
\<close>

section \<open>State and operations\<close>

record subtrans =
  st_page_buffer :: "uint32 \<Rightarrow> uint32 \<Rightarrow> TransactionId"
  st_page_dirty :: "uint32 \<Rightarrow> bool"

definition SUBTRANS_XACTS_PER_PAGE :: uint32 where "SUBTRANS_XACTS_PER_PAGE = 8192 div 4"

text \<open>\<^verbatim>\<open>TransactionIdToPage\<close> and \<^verbatim>\<open>TransactionIdToEntry\<close> of this file.\<close>

definition SubTransToPage :: "TransactionId \<Rightarrow> uint32" where
  "SubTransToPage xid = xid div SUBTRANS_XACTS_PER_PAGE"

definition SubTransToEntry :: "TransactionId \<Rightarrow> uint32" where
  "SubTransToEntry xid = xid mod SUBTRANS_XACTS_PER_PAGE"

definition SubTransSetParent :: "TransactionId \<Rightarrow> TransactionId \<Rightarrow> subtrans \<Rightarrow> subtrans" where
  "SubTransSetParent xid parent s =
     (let pageno = SubTransToPage xid; entryno = SubTransToEntry xid
      in if st_page_buffer s pageno entryno \<noteq> parent
         then s\<lparr>st_page_buffer := (st_page_buffer s)(pageno := (st_page_buffer s pageno)(entryno := parent)),
                st_page_dirty := (st_page_dirty s)(pageno := True)\<rparr>
         else s)"

definition SubTransGetParent :: "subtrans \<Rightarrow> TransactionId \<Rightarrow> TransactionId" where
  "SubTransGetParent s xid =
     (if \<not> TransactionIdIsNormal xid then InvalidTransactionId
      else st_page_buffer s (SubTransToPage xid) (SubTransToEntry xid))"

text \<open>The error \<^verbatim>\<open>pg_subtrans contains invalid entry\<close> with the two ids it reports.\<close>

datatype subtrans_error = InvalidEntry TransactionId TransactionId

partial_function (option) topmost_loop ::
  "subtrans \<Rightarrow> TransactionId \<Rightarrow> TransactionId \<Rightarrow> TransactionId \<Rightarrow> (subtrans_error + TransactionId) option" where
  "topmost_loop s TransactionXmin parentXid previousXid =
     (if TransactionIdIsValid parentXid then
        let previousXid = parentXid
        in if TransactionIdPrecedes parentXid TransactionXmin then Some (Inr previousXid)
           else
             let parentXid = SubTransGetParent s parentXid
             in if \<not> TransactionIdPrecedes parentXid previousXid
                then Some (Inl (InvalidEntry previousXid parentXid))
                else topmost_loop s TransactionXmin parentXid previousXid
      else Some (Inr previousXid))"

definition SubTransGetTopmostTransaction ::
  "subtrans \<Rightarrow> TransactionId \<Rightarrow> TransactionId \<Rightarrow> (subtrans_error + TransactionId) option" where
  "SubTransGetTopmostTransaction s TransactionXmin xid = topmost_loop s TransactionXmin xid xid"

section \<open>The interface: a log of parent links\<close>

locale parent_log =
  fixes get_parent :: "'s \<Rightarrow> TransactionId \<Rightarrow> TransactionId"
    and set_parent :: "TransactionId \<Rightarrow> TransactionId \<Rightarrow> 's \<Rightarrow> 's"
  assumes get_set: "TransactionIdIsNormal x \<Longrightarrow>
      get_parent (set_parent x p s) y = (if y = x then p else get_parent s y)"
    and get_special: "\<not> TransactionIdIsNormal y \<Longrightarrow> get_parent s y = InvalidTransactionId"
begin

text \<open>Every link points to an older normal id.\<close>

definition links_ok :: "'s \<Rightarrow> bool" where
  "links_ok s \<longleftrightarrow> (\<forall>x. get_parent s x \<noteq> InvalidTransactionId \<longrightarrow>
     TransactionIdIsNormal (get_parent s x) \<and> TransactionIdPrecedes (get_parent s x) x)"

lemma links_ok_set:
  assumes "links_ok s" "TransactionIdIsNormal x" "TransactionIdIsNormal p" "TransactionIdPrecedes p x"
  shows "links_ok (set_parent x p s)"
  using assms by (simp add: links_ok_def get_set)

end

text \<open>Two ids on the same page with the same entry are the same.\<close>

lemma subtrans_slot_inj:
  "SubTransToPage x = SubTransToPage y \<Longrightarrow> SubTransToEntry x = SubTransToEntry y \<Longrightarrow> x = y"
  unfolding SubTransToPage_def SubTransToEntry_def by (metis word_mod_div_equality)

interpretation st_log: parent_log SubTransGetParent SubTransSetParent
proof
  fix x p s y
  assume "TransactionIdIsNormal x"
  then show "SubTransGetParent (SubTransSetParent x p s) y = (if y = x then p else SubTransGetParent s y)"
    using subtrans_slot_inj [of x y]
    by (auto simp: SubTransGetParent_def SubTransSetParent_def Let_def)
qed (simp add: SubTransGetParent_def)

abbreviation subtrans_ok :: "subtrans \<Rightarrow> bool" where
  "subtrans_ok \<equiv> st_log.links_ok"

section \<open>Following the links\<close>

text \<open>An id that does not precede a normal horizon lies in the half circle after it.\<close>

lemma not_precedes_window:
  assumes "TransactionIdIsNormal h" "TransactionIdIsNormal x" "\<not> TransactionIdPrecedes x h"
  shows "uint (x - h) < 2147483648"
proof -
  have "0 \<le> xid_diff (x - h) 0"
    using assms by (simp add: TransactionIdPrecedes_def xid_diff_def)
  then have "2147483648 \<le> (uint (x - h) + 2147483648) mod 4294967296"
    by (simp add: xid_diff_uint)
  moreover have "(u + 2147483648) mod 4294967296 = u - 2147483648" if "2147483648 \<le> u" "u < 4294967296" for u :: int
    using that mod_add_self2 [of "u - 2147483648" 4294967296] by (simp add: add.commute)
  ultimately show ?thesis
    using uint_lt2p [of "x - h"] by (cases "uint (x - h) < 2147483648") (auto simp: not_less)
qed

lemma valid_special_precedes:
  "TransactionIdIsNormal h \<Longrightarrow> \<not> TransactionIdIsNormal x \<Longrightarrow> TransactionIdPrecedes x h"
  by (auto simp: TransactionIdPrecedes_def normal_iff not_le intro: less_le_trans)

text \<open>A step up the links comes closer to the horizon.\<close>

lemma parent_closer:
  assumes "TransactionIdIsNormal h" "\<not> TransactionIdPrecedes x h" "\<not> TransactionIdPrecedes p h"
    and "TransactionIdPrecedes p x"
  shows "unat (p - h) < unat (x - h)"
proof -
  have norm: "TransactionIdIsNormal x" "TransactionIdIsNormal p"
    using valid_special_precedes [OF assms(1)] assms(2,3) by blast+
  from precedes_window [OF norm(2,1) not_precedes_window not_precedes_window] assms norm
  have "uint (p - h) < uint (x - h)" by blast
  then show ?thesis by (simp add: word_less_def [symmetric] word_less_nat_alt)
qed

lemma topmost_loop_ends:
  assumes "TransactionIdIsNormal h"
  shows "\<exists>r. topmost_loop s h x y = Some r"
proof (induction "unat (x - h)" arbitrary: x y rule: less_induct)
  case less
  note step = topmost_loop.simps [of s h x y]
  show ?case
  proof (cases "TransactionIdIsValid x \<and> \<not> TransactionIdPrecedes x h \<and>
      TransactionIdPrecedes (SubTransGetParent s x) x")
    case True
    let ?p = "SubTransGetParent s x"
    have "\<exists>r. topmost_loop s h ?p x = Some r"
    proof (cases "TransactionIdPrecedes ?p h")
      case True
      then show ?thesis by (simp add: topmost_loop.simps Let_def)
    next
      case False
      then show ?thesis using less parent_closer [OF assms _ False] True by blast
    qed
    with True show ?thesis by (simp add: step Let_def)
  qed (auto simp: step Let_def)
qed

text \<open>The links from an id upwards.\<close>

inductive ancestor :: "subtrans \<Rightarrow> TransactionId \<Rightarrow> TransactionId \<Rightarrow> bool" for s where
  anc_refl: "ancestor s x x"
| anc_step: "ancestor s (SubTransGetParent s x) y \<Longrightarrow> SubTransGetParent s x \<noteq> InvalidTransactionId \<Longrightarrow>
    ancestor s x y"

declare anc_refl [intro]

lemma topmost_loop_result:
  assumes "topmost_loop s h x prev = Some r"
  shows "case r of
      Inr t \<Rightarrow> (if x = InvalidTransactionId then t = prev
                else ancestor s x t \<and> (TransactionIdPrecedes t h \<or> SubTransGetParent s t = InvalidTransactionId))
    | Inl (InvalidEntry c p) \<Rightarrow> x \<noteq> InvalidTransactionId \<and> ancestor s x c \<and> p = SubTransGetParent s c \<and> \<not> TransactionIdPrecedes p c"
proof (induction s h x prev r rule: topmost_loop.raw_induct)
  case (1 loop s h x prev r)
  let ?p = "SubTransGetParent s x"
  show ?case
  proof (cases "TransactionIdIsValid x \<and> \<not> TransactionIdPrecedes x h \<and> TransactionIdPrecedes ?p x")
    case True
    then have run: "loop s h ?p x = Some r"
      using 1(2) by (simp add: Let_def)
    show ?thesis
      using 1(1) [OF run] True anc_step [of s x]
      by (auto simp: TransactionIdIsValid_def split: sum.splits subtrans_error.splits if_splits)
  next
    case False
    then show ?thesis using 1(2) by (auto simp: Let_def TransactionIdIsValid_def split: if_splits)
  qed
next
  case 2
  show ?case by (rule assms)
qed

text \<open>In a log without bad links no error is raised.\<close>

lemma ancestor_valid: "ancestor s x y \<Longrightarrow> x \<noteq> InvalidTransactionId \<Longrightarrow> y \<noteq> InvalidTransactionId"
  by (induction rule: ancestor.induct) auto

lemma parent_precedes:
  "subtrans_ok s \<Longrightarrow> c \<noteq> InvalidTransactionId \<Longrightarrow> TransactionIdPrecedes (SubTransGetParent s c) c"
  by (cases "SubTransGetParent s c = InvalidTransactionId")
    (auto simp: st_log.links_ok_def TransactionIdPrecedes_def special_xids word_neq_0_conv)

lemma topmost_ok:
  assumes "subtrans_ok s" "TransactionIdIsNormal h" "TransactionIdIsValid x"
  obtains t where "SubTransGetTopmostTransaction s h x = Some (Inr t)" "ancestor s x t"
    "TransactionIdPrecedes t h \<or> SubTransGetParent s t = InvalidTransactionId"
proof -
  obtain r where run: "topmost_loop s h x x = Some r"
    using topmost_loop_ends [OF assms(2)] by blast
  from topmost_loop_result [OF run] run assms(1,3) ancestor_valid [of s x] parent_precedes [of s] that show ?thesis
    by (cases r) (auto simp: SubTransGetTopmostTransaction_def TransactionIdIsValid_def
        split: subtrans_error.splits)
qed

text \<open>In a log without bad links the recursion comes closer to the horizon with every step.\<close>

lemma parent_induct [consumes 2, case_names closer]:
  assumes ok: "subtrans_ok s" and h: "TransactionIdIsNormal h"
    and step: "\<And>x. (\<not> TransactionIdPrecedes x h \<Longrightarrow> SubTransGetParent s x \<noteq> InvalidTransactionId \<Longrightarrow>
        P (SubTransGetParent s x)) \<Longrightarrow> P x"
  shows "P x"
proof -
  have old: "P x" if "TransactionIdPrecedes x h" for x
    using step that by blast
  show ?thesis
  proof (induction "unat (x - h)" arbitrary: x rule: less_induct)
    case less
    show ?case
    proof (rule step)
      assume x: "\<not> TransactionIdPrecedes x h" "SubTransGetParent s x \<noteq> InvalidTransactionId"
      then have "TransactionIdPrecedes (SubTransGetParent s x) x"
        using ok by (simp add: st_log.links_ok_def)
      then show "P (SubTransGetParent s x)"
        using less parent_closer [OF h x(1)] old by blast
    qed
  qed
qed

lemma topmost_closer:
  assumes ok: "subtrans_ok s" and h: "TransactionIdIsNormal h"
    and run: "SubTransGetTopmostTransaction s h x = Some (Inr t)" and x: "TransactionIdIsValid x"
  shows "t = x \<or> TransactionIdPrecedes t h \<or> unat (t - h) < unat (x - h)"
proof -
  have "topmost_loop s h x prev = Some (Inr t) \<Longrightarrow> TransactionIdIsValid x \<Longrightarrow>
      t = x \<or> TransactionIdPrecedes t h \<or> unat (t - h) < unat (x - h)" for prev
    using ok h
  proof (induction x arbitrary: prev rule: parent_induct)
    case (closer x)
    let ?p = "SubTransGetParent s x"
    show ?case
    proof (cases "TransactionIdPrecedes x h \<or> \<not> TransactionIdIsValid ?p")
      case True
      have "t = x" if "\<not> TransactionIdIsValid ?p" "topmost_loop s h ?p x = Some (Inr t)"
        using that by (simp add: topmost_loop.simps [of s h ?p x])
      then show ?thesis using True closer.prems topmost_loop.simps [of s h x prev]
        by (auto simp: Let_def split: if_splits)
    next
      case False
      then have "topmost_loop s h ?p x = Some (Inr t)" "TransactionIdPrecedes ?p x"
        using closer.prems topmost_loop.simps [of s h x prev] by (auto simp: Let_def split: if_splits)
      moreover have "t = ?p" if "TransactionIdPrecedes ?p h"
        using that calculation(1) False by (simp add: topmost_loop.simps [of s h ?p x] Let_def)
      ultimately show ?thesis
        using closer.IH [of x] False parent_closer [OF h, of x ?p]
        by (cases "TransactionIdPrecedes ?p h") (auto simp: TransactionIdIsValid_def)
    qed
  qed
  with run x show ?thesis by (simp add: SubTransGetTopmostTransaction_def)
qed

section \<open>Properties\<close>

text \<open>C37: the search for the topmost parent always ends, even if the log is corrupted, as long as the
  horizon is a normal id (it starts as the first normal id); and it ends with an ancestor
  that is older than the horizon or has no parent, or with an error that names an ancestor
  whose recorded parent is not older than itself.\<close>

theorem subtrans_topmost:
  assumes "TransactionIdIsNormal TransactionXmin" "TransactionIdIsValid xid"
  shows "(\<exists>t. SubTransGetTopmostTransaction s TransactionXmin xid = Some (Inr t) \<and> ancestor s xid t \<and>
            (TransactionIdPrecedes t TransactionXmin \<or> SubTransGetParent s t = InvalidTransactionId)) \<or>
    (\<exists>c. SubTransGetTopmostTransaction s TransactionXmin xid = Some (Inl (InvalidEntry c (SubTransGetParent s c))) \<and>
         ancestor s xid c \<and> \<not> TransactionIdPrecedes (SubTransGetParent s c) c)"
proof -
  obtain r where run: "topmost_loop s TransactionXmin xid xid = Some r"
    using topmost_loop_ends [OF assms(1)] by blast
  from topmost_loop_result [OF run] run assms(2) show ?thesis
    by (cases r) (auto simp: SubTransGetTopmostTransaction_def TransactionIdIsValid_def
        split: subtrans_error.splits)
qed

definition subtrans_empty :: subtrans where
  "subtrans_empty = \<lparr>st_page_buffer = (\<lambda>_ _. 0), st_page_dirty = (\<lambda>_. False)\<rparr>"

theorem subtrans_topmost_witness:
  "\<exists>r. SubTransGetTopmostTransaction (SubTransSetParent 9 7 (SubTransSetParent 7 5 subtrans_empty)) 3 9 = Some r"
  using subtrans_topmost [of 3 9 "SubTransSetParent 9 7 (SubTransSetParent 7 5 subtrans_empty)"]
  by (auto simp: normal_iff valid_iff)

text \<open>Recording the parent of a subtransaction, which is an older normal id, is read back, leaves all
  other links alone, and keeps the log free of bad links; in such a log the search for the
  topmost parent raises no error.\<close>

theorem subtrans_set_parent:
  assumes "subtrans_ok s" "TransactionIdIsNormal xid" "TransactionIdIsNormal parent" "TransactionIdPrecedes parent xid"
    and "TransactionIdIsNormal TransactionXmin" "s' = SubTransSetParent xid parent s"
  shows "SubTransGetParent s' y = (if y = xid then parent else SubTransGetParent s y) \<and> subtrans_ok s' \<and>
    (TransactionIdIsValid y \<longrightarrow> (\<exists>t. SubTransGetTopmostTransaction s' TransactionXmin y = Some (Inr t)))"
proof (intro conjI impI)
  show ok: "subtrans_ok s'"
    using st_log.links_ok_set [OF assms(1-4)] assms(6) by simp
  show "SubTransGetParent s' y = (if y = xid then parent else SubTransGetParent s y)"
    using st_log.get_set [OF assms(2)] assms(6) by simp
  assume "TransactionIdIsValid y"
  then show "\<exists>t. SubTransGetTopmostTransaction s' TransactionXmin y = Some (Inr t)"
    using topmost_ok [OF ok assms(5)] by metis
qed

lemma subtrans_empty_ok: "subtrans_ok subtrans_empty"
  by (simp add: st_log.links_ok_def SubTransGetParent_def subtrans_empty_def special_xids)

theorem subtrans_set_parent_witness:
  "SubTransGetParent (SubTransSetParent 9 7 subtrans_empty) 9 = 7 \<and> subtrans_ok (SubTransSetParent 9 7 subtrans_empty)"
  using subtrans_set_parent [OF subtrans_empty_ok, of 9 7 3 "SubTransSetParent 9 7 subtrans_empty" 9]
  by (simp add: normal_iff TransactionIdPrecedes_def xid_diff_uint)

end
