(* ===== verification/TransLog.thy ===== *)
theory TransLog
  imports Clog Subtrans
begin

text \<open>
  Transaction outcomes (\<^verbatim>\<open>src/backend/access/transam/transam.c\<close>): the single-item cache in front of
  the commit log, the tests \<^verbatim>\<open>TransactionIdDidCommit\<close> and \<^verbatim>\<open>TransactionIdDidAbort\<close>, which follow
  sub-committed transactions to their parents, and the routines that record the outcome of a
  tree. The recursion of the two tests is bounded by nothing but the data, so they are partial
  functions with value \<open>None\<close> for a run that does not end.
\<close>

section \<open>Operations\<close>

record fetch_cache =
  cachedFetchXid :: TransactionId
  cachedFetchXidStatus :: XidStatus
  cachedCommitLSN :: XLogRecPtr

definition TransactionLogFetch :: "clog \<Rightarrow> fetch_cache \<Rightarrow> TransactionId \<Rightarrow> XidStatus \<times> fetch_cache" where
  "TransactionLogFetch c cache transactionId =
     (if transactionId = cachedFetchXid cache then (cachedFetchXidStatus cache, cache)
      else if \<not> TransactionIdIsNormal transactionId then
        (if transactionId = BootstrapTransactionId then (TRANSACTION_STATUS_COMMITTED, cache)
         else if transactionId = FrozenTransactionId then (TRANSACTION_STATUS_COMMITTED, cache)
         else (TRANSACTION_STATUS_ABORTED, cache))
      else
        case TransactionIdGetStatus c transactionId of
          (xidstatus, xidlsn) \<Rightarrow>
            (if xidstatus \<noteq> TRANSACTION_STATUS_IN_PROGRESS \<and> xidstatus \<noteq> TRANSACTION_STATUS_SUB_COMMITTED
             then (xidstatus, cache\<lparr>cachedFetchXid := transactionId, cachedFetchXidStatus := xidstatus,
                                    cachedCommitLSN := xidlsn\<rparr>)
             else (xidstatus, cache)))"

partial_function (option) TransactionIdDidCommit ::
  "clog \<Rightarrow> subtrans \<Rightarrow> TransactionId \<Rightarrow> fetch_cache \<Rightarrow> TransactionId \<Rightarrow> (bool \<times> fetch_cache) option" where
  "TransactionIdDidCommit c s TransactionXmin cache transactionId =
     (let (xidstatus, cache) = TransactionLogFetch c cache transactionId
      in if xidstatus = TRANSACTION_STATUS_COMMITTED then Some (True, cache)
         else if xidstatus = TRANSACTION_STATUS_SUB_COMMITTED then
           (if TransactionIdPrecedes transactionId TransactionXmin then Some (False, cache)
            else
              let parentXid = SubTransGetParent s transactionId
              in if \<not> TransactionIdIsValid parentXid then Some (False, cache)
                 else TransactionIdDidCommit c s TransactionXmin cache parentXid)
         else Some (False, cache))"

partial_function (option) TransactionIdDidAbort ::
  "clog \<Rightarrow> subtrans \<Rightarrow> TransactionId \<Rightarrow> fetch_cache \<Rightarrow> TransactionId \<Rightarrow> (bool \<times> fetch_cache) option" where
  "TransactionIdDidAbort c s TransactionXmin cache transactionId =
     (let (xidstatus, cache) = TransactionLogFetch c cache transactionId
      in if xidstatus = TRANSACTION_STATUS_ABORTED then Some (True, cache)
         else if xidstatus = TRANSACTION_STATUS_SUB_COMMITTED then
           (if TransactionIdPrecedes transactionId TransactionXmin then Some (True, cache)
            else
              let parentXid = SubTransGetParent s transactionId
              in if \<not> TransactionIdIsValid parentXid then Some (True, cache)
                 else TransactionIdDidAbort c s TransactionXmin cache parentXid)
         else Some (False, cache))"

declare TransactionIdDidCommit.simps [code] TransactionIdDidAbort.simps [code]

definition TransactionIdIsKnownCompleted :: "fetch_cache \<Rightarrow> TransactionId \<Rightarrow> bool" where
  "TransactionIdIsKnownCompleted cache transactionId \<longleftrightarrow> transactionId = cachedFetchXid cache"

definition InvalidXLogRecPtr :: XLogRecPtr where "InvalidXLogRecPtr = 0"

definition TransactionIdCommitTree :: "bool \<Rightarrow> TransactionId \<Rightarrow> TransactionId list \<Rightarrow> clog \<Rightarrow> clog" where
  "TransactionIdCommitTree InRecovery xid xids =
     TransactionIdSetTreeStatus InRecovery xid xids TRANSACTION_STATUS_COMMITTED InvalidXLogRecPtr"

definition TransactionIdAsyncCommitTree ::
  "bool \<Rightarrow> TransactionId \<Rightarrow> TransactionId list \<Rightarrow> XLogRecPtr \<Rightarrow> clog \<Rightarrow> clog" where
  "TransactionIdAsyncCommitTree InRecovery xid xids lsn =
     TransactionIdSetTreeStatus InRecovery xid xids TRANSACTION_STATUS_COMMITTED lsn"

definition TransactionIdAbortTree :: "bool \<Rightarrow> TransactionId \<Rightarrow> TransactionId list \<Rightarrow> clog \<Rightarrow> clog" where
  "TransactionIdAbortTree InRecovery xid xids =
     TransactionIdSetTreeStatus InRecovery xid xids TRANSACTION_STATUS_ABORTED InvalidXLogRecPtr"

definition TransactionIdGetCommitLSN :: "clog \<Rightarrow> fetch_cache \<Rightarrow> TransactionId \<Rightarrow> XLogRecPtr" where
  "TransactionIdGetCommitLSN c cache xid =
     (if xid = cachedFetchXid cache then cachedCommitLSN cache
      else if \<not> TransactionIdIsNormal xid then InvalidXLogRecPtr
      else snd (TransactionIdGetStatus c xid))"

section \<open>Specification\<close>

text \<open>The status of an id without the cache.\<close>

definition log_status :: "clog \<Rightarrow> TransactionId \<Rightarrow> XidStatus" where
  "log_status c x =
     (if TransactionIdIsNormal x then fst (TransactionIdGetStatus c x)
      else if x = InvalidTransactionId then TRANSACTION_STATUS_ABORTED
      else TRANSACTION_STATUS_COMMITTED)"

text \<open>An id did commit if it is committed, or sub-committed under a parent that did commit.\<close>

inductive did_commit :: "clog \<Rightarrow> subtrans \<Rightarrow> TransactionId \<Rightarrow> TransactionId \<Rightarrow> bool" for c s h where
  dc_top: "log_status c x = TRANSACTION_STATUS_COMMITTED \<Longrightarrow> did_commit c s h x"
| dc_sub: "log_status c x = TRANSACTION_STATUS_SUB_COMMITTED \<Longrightarrow> \<not> TransactionIdPrecedes x h \<Longrightarrow>
    SubTransGetParent s x \<noteq> InvalidTransactionId \<Longrightarrow> did_commit c s h (SubTransGetParent s x) \<Longrightarrow>
    did_commit c s h x"

text \<open>An id did abort if it is aborted, or sub-committed under a parent that did abort or is lost.\<close>

inductive did_abort :: "clog \<Rightarrow> subtrans \<Rightarrow> TransactionId \<Rightarrow> TransactionId \<Rightarrow> bool" for c s h where
  da_top: "log_status c x = TRANSACTION_STATUS_ABORTED \<Longrightarrow> did_abort c s h x"
| da_lost: "log_status c x = TRANSACTION_STATUS_SUB_COMMITTED \<Longrightarrow>
    TransactionIdPrecedes x h \<or> SubTransGetParent s x = InvalidTransactionId \<Longrightarrow> did_abort c s h x"
| da_sub: "log_status c x = TRANSACTION_STATUS_SUB_COMMITTED \<Longrightarrow> \<not> TransactionIdPrecedes x h \<Longrightarrow>
    SubTransGetParent s x \<noteq> InvalidTransactionId \<Longrightarrow> did_abort c s h (SubTransGetParent s x) \<Longrightarrow>
    did_abort c s h x"

inductive_simps did_commit_iff: "did_commit c s h x"
inductive_simps did_abort_iff: "did_abort c s h x"

text \<open>A truthful cache: it is empty, or holds the final status of a normal id.\<close>

definition cache_ok :: "clog \<Rightarrow> fetch_cache \<Rightarrow> bool" where
  "cache_ok c cache \<longleftrightarrow>
     cachedFetchXid cache = InvalidTransactionId \<or>
     TransactionIdIsNormal (cachedFetchXid cache) \<and>
     cachedFetchXidStatus cache = fst (TransactionIdGetStatus c (cachedFetchXid cache)) \<and>
     cachedFetchXidStatus cache \<in> {TRANSACTION_STATUS_COMMITTED, TRANSACTION_STATUS_ABORTED}"

lemma status_lt4: "fst (TransactionIdGetStatus c x) < 4"
proof -
  have "byte_status b n = byte_status b n AND Bit_Operations.mask 2" for b n
    by (rule bit_word_eqI) (auto simp: bit_byte_status bit_simps)
  then have "byte_status b n < 4" for b n
    using and_mask_less_size [of 2 "byte_status b n"] by (simp add: word_size)
  then show ?thesis
    by (simp add: TransactionIdGetStatus_def Let_def)
qed

lemma status_cases:
  obtains "fst (TransactionIdGetStatus c x) = TRANSACTION_STATUS_IN_PROGRESS"
  | "fst (TransactionIdGetStatus c x) = TRANSACTION_STATUS_COMMITTED"
  | "fst (TransactionIdGetStatus c x) = TRANSACTION_STATUS_ABORTED"
  | "fst (TransactionIdGetStatus c x) = TRANSACTION_STATUS_SUB_COMMITTED"
proof -
  let ?w = "fst (TransactionIdGetStatus c x)"
  have "unat ?w < 4"
    using status_lt4 [of c x] by (simp add: word_less_nat_alt)
  then consider "unat ?w = 0" | "unat ?w = 1" | "unat ?w = 2" | "unat ?w = 3"
    by linarith
  then show thesis
    using that by cases (auto simp: xid_status_defs word_unat_eq_iff)
qed

lemma fetch_ok:
  assumes "cache_ok c cache" "TransactionIdIsValid x" "TransactionLogFetch c cache x = (st, cache')"
  shows "st = log_status c x \<and> cache_ok c cache'"
proof (cases "x = cachedFetchXid cache")
  case True
  then show ?thesis using assms
    by (auto simp: TransactionLogFetch_def cache_ok_def log_status_def TransactionIdIsValid_def)
next
  case False
  have special: "x = BootstrapTransactionId \<or> x = FrozenTransactionId" if "\<not> TransactionIdIsNormal x"
  proof -
    have "unat x = 1 \<or> unat x = 2"
      using that assms(2) unat_gt_0 [of x] by (auto simp: normal_iff valid_iff word_le_nat_alt not_le)
    then show ?thesis by (auto simp: special_xids word_unat_eq_iff)
  qed
  show ?thesis
  proof (cases rule: status_cases [of c x])
  qed (use False special assms in \<open>auto simp: TransactionLogFetch_def cache_ok_def log_status_def special_xids
      xid_status_defs normal_iff split: if_splits prod.splits\<close>)
qed

section \<open>The tests meet the specification\<close>

lemma DidCommit_result:
  assumes "TransactionIdDidCommit c s h cache x = Some r"
  shows "cache_ok c cache \<longrightarrow> TransactionIdIsValid x \<longrightarrow> (fst r \<longleftrightarrow> did_commit c s h x) \<and> cache_ok c (snd r)"
proof (induction c s h cache x r rule: TransactionIdDidCommit.raw_induct)
  case (1 test c s h cache x r)
  obtain st cache1 where f: "TransactionLogFetch c cache x = (st, cache1)"
    by (cases "TransactionLogFetch c cache x")
  show ?case
  proof (intro impI)
    assume ok: "cache_ok c cache" "TransactionIdIsValid x"
    note fetch = fetch_ok [OF ok f]
    note iff = did_commit_iff [of c s h x]
    show "(fst r \<longleftrightarrow> did_commit c s h x) \<and> cache_ok c (snd r)"
    proof (cases "st = TRANSACTION_STATUS_SUB_COMMITTED \<and> \<not> TransactionIdPrecedes x h \<and>
        TransactionIdIsValid (SubTransGetParent s x)")
      case True
      then have "test c s h cache1 (SubTransGetParent s x) = Some r"
        using 1(2) f by (simp add: Let_def xid_status_defs)
      from 1(1) [OF this] True fetch iff show ?thesis
        by (auto simp: TransactionIdIsValid_def xid_status_defs)
    next
      case False
      then show ?thesis using 1(2) f fetch iff
        by (auto simp: Let_def TransactionIdIsValid_def xid_status_defs split: if_splits)
    qed
  qed
next
  case 2
  show ?case by (rule assms)
qed

lemma DidAbort_result:
  assumes "TransactionIdDidAbort c s h cache x = Some r"
  shows "cache_ok c cache \<longrightarrow> TransactionIdIsValid x \<longrightarrow> (fst r \<longleftrightarrow> did_abort c s h x) \<and> cache_ok c (snd r)"
proof (induction c s h cache x r rule: TransactionIdDidAbort.raw_induct)
  case (1 test c s h cache x r)
  obtain st cache1 where f: "TransactionLogFetch c cache x = (st, cache1)"
    by (cases "TransactionLogFetch c cache x")
  show ?case
  proof (intro impI)
    assume ok: "cache_ok c cache" "TransactionIdIsValid x"
    note fetch = fetch_ok [OF ok f]
    note iff = did_abort_iff [of c s h x]
    show "(fst r \<longleftrightarrow> did_abort c s h x) \<and> cache_ok c (snd r)"
    proof (cases "st = TRANSACTION_STATUS_SUB_COMMITTED \<and> \<not> TransactionIdPrecedes x h \<and>
        TransactionIdIsValid (SubTransGetParent s x)")
      case True
      then have "test c s h cache1 (SubTransGetParent s x) = Some r"
        using 1(2) f by (simp add: Let_def xid_status_defs)
      from 1(1) [OF this] True fetch iff show ?thesis
        by (auto simp: TransactionIdIsValid_def xid_status_defs)
    next
      case False
      then show ?thesis using 1(2) f fetch iff
        by (auto simp: Let_def TransactionIdIsValid_def xid_status_defs split: if_splits)
    qed
  qed
next
  case 2
  show ?case by (rule assms)
qed

lemma DidCommit_ends:
  assumes "subtrans_ok s" "TransactionIdIsNormal h"
  shows "\<exists>r. TransactionIdDidCommit c s h cache x = Some r"
  using assms
proof (induction x arbitrary: cache rule: parent_induct)
  case (closer x)
  then show ?case
    by (subst TransactionIdDidCommit.simps) (auto simp: Let_def TransactionIdIsValid_def split: prod.splits)
qed

lemma DidAbort_ends:
  assumes "subtrans_ok s" "TransactionIdIsNormal h"
  shows "\<exists>r. TransactionIdDidAbort c s h cache x = Some r"
  using assms
proof (induction x arbitrary: cache rule: parent_induct)
  case (closer x)
  then show ?case
    by (subst TransactionIdDidAbort.simps) (auto simp: Let_def TransactionIdIsValid_def split: prod.splits)
qed

text \<open>No transaction both commits and aborts.\<close>

lemma did_commit_not_abort: "did_commit c s h x \<Longrightarrow> \<not> did_abort c s h x"
  by (induction rule: did_commit.induct) (subst did_abort_iff, simp add: xid_status_defs)+

text \<open>A tree of which either nothing is committed, or the parent is and every child is sub-committed or
  committed, is seen by the test as a whole.\<close>

definition child_links :: "subtrans \<Rightarrow> TransactionId \<Rightarrow> TransactionId \<Rightarrow> TransactionId list \<Rightarrow> bool" where
  "child_links s h xid subxids \<longleftrightarrow>
     (\<forall>y\<in>set subxids. TransactionIdIsNormal y \<and> \<not> TransactionIdPrecedes y h \<and>
        SubTransGetParent s y \<in> insert xid (set subxids))"

lemma tree_seen_open:
  assumes "log_status c xid = TRANSACTION_STATUS_IN_PROGRESS"
    and "\<forall>y\<in>set subxids. log_status c y \<in> {TRANSACTION_STATUS_IN_PROGRESS, TRANSACTION_STATUS_SUB_COMMITTED}"
    and "child_links s h xid subxids" "did_commit c s h y"
  shows "y \<notin> insert xid (set subxids)"
  using assms(4)
proof (induction rule: did_commit.induct)
  case (dc_top x)
  then show ?case using assms(1,2) by (auto simp: xid_status_defs)
next
  case (dc_sub x)
  then show ?case using assms(1,3) by (auto simp: child_links_def xid_status_defs)
qed

lemma tree_seen_closed:
  assumes ok: "subtrans_ok s" "TransactionIdIsNormal h"
    and xid: "log_status c xid = TRANSACTION_STATUS_COMMITTED" "TransactionIdIsNormal xid"
    and kids: "\<forall>y\<in>set subxids. log_status c y \<in> {TRANSACTION_STATUS_SUB_COMMITTED, TRANSACTION_STATUS_COMMITTED}"
    and links: "child_links s h xid subxids"
  shows "y \<in> insert xid (set subxids) \<longrightarrow> did_commit c s h y"
  using ok
proof (induction y rule: parent_induct)
  case (closer y)
  show ?case
  proof (intro impI)
    assume y: "y \<in> insert xid (set subxids)"
    show "did_commit c s h y"
    proof (cases "log_status c y = TRANSACTION_STATUS_COMMITTED")
      case False
      then have sub: "log_status c y = TRANSACTION_STATUS_SUB_COMMITTED" "y \<in> set subxids"
        using y xid kids by auto
      have up: "\<not> TransactionIdPrecedes y h" "SubTransGetParent s y \<in> insert xid (set subxids)"
        using sub(2) links by (auto simp: child_links_def)
      then have "TransactionIdIsNormal (SubTransGetParent s y)"
        using links xid(2) by (auto simp: child_links_def)
      then have "SubTransGetParent s y \<noteq> InvalidTransactionId"
        by (auto simp: special_xids)
      with closer sub(1) up show ?thesis by (blast intro: dc_sub)
    qed (rule dc_top)
  qed
qed

section \<open>Properties\<close>

text \<open>C34: in a log whose parent links are sound, both outcome tests end for every valid id; they answer as
  specified, with or without a truthful cache, never both yes, and keep the cache truthful.\<close>

theorem translog_tests_correct:
  assumes "subtrans_ok s" "TransactionIdIsNormal TransactionXmin" "cache_ok c cache" "TransactionIdIsValid xid"
  shows "\<exists>b1 cache1 b2 cache2. TransactionIdDidCommit c s TransactionXmin cache xid = Some (b1, cache1) \<and>
    TransactionIdDidAbort c s TransactionXmin cache xid = Some (b2, cache2) \<and>
    (b1 \<longleftrightarrow> did_commit c s TransactionXmin xid) \<and> (b2 \<longleftrightarrow> did_abort c s TransactionXmin xid) \<and> \<not> (b1 \<and> b2) \<and>
    cache_ok c cache1 \<and> cache_ok c cache2"
proof -
  obtain r1 r2 where r: "TransactionIdDidCommit c s TransactionXmin cache xid = Some r1"
    "TransactionIdDidAbort c s TransactionXmin cache xid = Some r2"
    using DidCommit_ends [OF assms(1,2)] DidAbort_ends [OF assms(1,2)] by blast
  show ?thesis
    using DidCommit_result [OF r(1)] DidAbort_result [OF r(2)] r assms(3,4) did_commit_not_abort [of c s TransactionXmin xid]
    by (cases r1; cases r2) auto
qed

definition cache_empty :: fetch_cache where
  "cache_empty = \<lparr>cachedFetchXid = 0, cachedFetchXidStatus = 0, cachedCommitLSN = 0\<rparr>"

lemma cache_empty_ok: "cache_ok c cache_empty"
  by (simp add: cache_ok_def cache_empty_def special_xids)

theorem translog_tests_correct_witness:
  "\<exists>b1 cache1. TransactionIdDidCommit clog_empty subtrans_empty 3 cache_empty 9 = Some (b1, cache1) \<and>
     (b1 \<longleftrightarrow> did_commit clog_empty subtrans_empty 3 9)"
  using translog_tests_correct [OF subtrans_empty_ok _ cache_empty_ok, of 3 9 clog_empty]
  by (auto simp: normal_iff valid_iff)

text \<open>C33: a commit is atomic for every observer. Take any state in the middle of recording the commit of a
  transaction tree: the commit test gives the same answer for each child as for the parent,
  so that an observer sees all of the tree committed or nothing of it.\<close>

theorem translog_commit_seen_atomic:
  assumes tree: "TransactionIdIsNormal xid" "xid \<notin> set subxids" "child_links s TransactionXmin xid subxids"
    and log: "fst (TransactionIdGetStatus c xid) = TRANSACTION_STATUS_IN_PROGRESS"
      "\<forall>y\<in>set subxids. fst (TransactionIdGetStatus c y) \<in> {TRANSACTION_STATUS_IN_PROGRESS, TRANSACTION_STATUS_SUB_COMMITTED}"
    and links: "subtrans_ok s" "TransactionIdIsNormal TransactionXmin"
    and middle: "set_calls (TransactionIdCommitTree rec xid subxids c) = set_calls c @ us @ vs"
      "now = replay rec InvalidXLogRecPtr us c"
    and obs: "cache_ok now cache" "y \<in> set subxids"
      "TransactionIdDidCommit now s TransactionXmin cache y = Some (b, cache1)"
      "TransactionIdDidCommit now s TransactionXmin cache xid = Some (b', cache2)"
  shows "b = b'"
proof -
  let ?st = "\<lambda>y. fst (TransactionIdGetStatus now y)"
  have valid: "TransactionIdIsValid xid" "TransactionIdIsValid y"
    using tree obs(2) by (auto simp: child_links_def normal_iff valid_iff)
  have "tree_writes xid subxids TRANSACTION_STATUS_COMMITTED = us @ vs"
    using middle(1) by (simp add: TransactionIdCommitTree_def tree_status_writes [OF valid(1)] writes_calls)
  note st = clog_log.tree_prefix_statuses [OF this tree(2) log, of rec InvalidXLogRecPtr,
      folded replay_writes middle(2)]
  have norm: "log_status now z = ?st z" if "z \<in> insert xid (set subxids)" for z
    using that tree by (auto simp: log_status_def child_links_def)
  have b: "b = did_commit now s TransactionXmin y" "b' = did_commit now s TransactionXmin xid"
    using DidCommit_result [OF obs(3)] DidCommit_result [OF obs(4)] obs(1) valid by auto
  from st show ?thesis
  proof
    assume "?st xid = TRANSACTION_STATUS_IN_PROGRESS \<and>
      (\<forall>y\<in>set subxids. ?st y \<in> {TRANSACTION_STATUS_IN_PROGRESS, TRANSACTION_STATUS_SUB_COMMITTED})"
    then have "log_status now xid = TRANSACTION_STATUS_IN_PROGRESS"
      "\<forall>y\<in>set subxids. log_status now y \<in> {TRANSACTION_STATUS_IN_PROGRESS, TRANSACTION_STATUS_SUB_COMMITTED}"
      using norm by auto
    from tree_seen_open [OF this tree(3)] show ?thesis
      using obs(2) b by blast
  next
    assume "?st xid = TRANSACTION_STATUS_COMMITTED \<and>
      (\<forall>y\<in>set subxids. ?st y \<in> {TRANSACTION_STATUS_SUB_COMMITTED, TRANSACTION_STATUS_COMMITTED})"
    then have "log_status now xid = TRANSACTION_STATUS_COMMITTED"
      "\<forall>y\<in>set subxids. log_status now y \<in> {TRANSACTION_STATUS_SUB_COMMITTED, TRANSACTION_STATUS_COMMITTED}"
      using norm by auto
    from tree_seen_closed [OF links this(1) tree(1) this(2) tree(3)] show ?thesis
      using obs(2) b by blast
  qed
qed

definition subtrans_one :: subtrans where
  "subtrans_one = SubTransSetParent 9 7 subtrans_empty"

lemma subtrans_one_facts: "subtrans_ok subtrans_one" "child_links subtrans_one 3 7 [9]"
proof -
  show "subtrans_ok subtrans_one"
    unfolding subtrans_one_def
    by (rule st_log.links_ok_set [OF subtrans_empty_ok]) (simp_all add: normal_iff TransactionIdPrecedes_def xid_diff_uint)
  show "child_links subtrans_one 3 7 [9]"
    unfolding child_links_def subtrans_one_def
    using st_log.get_set [of 9 7 subtrans_empty 9] by (simp add: normal_iff TransactionIdPrecedes_def xid_diff_uint)
qed

theorem translog_commit_seen_atomic_witness:
  "map_option fst (TransactionIdDidCommit (TransactionIdCommitTree False 7 [9] clog_empty) subtrans_one 3 cache_empty 9) =
   map_option fst (TransactionIdDidCommit (TransactionIdCommitTree False 7 [9] clog_empty) subtrans_one 3 cache_empty 7)"
proof -
  let ?now = "TransactionIdCommitTree False 7 [9] clog_empty"
  have norm: "TransactionIdIsNormal 7" "TransactionIdIsNormal 3" "TransactionIdIsValid 7"
    by (simp_all add: normal_iff valid_iff)
  obtain b k where one: "TransactionIdDidCommit ?now subtrans_one 3 cache_empty 9 = Some (b, k)"
    using DidCommit_ends [OF subtrans_one_facts(1) norm(2)] by (metis surj_pair)
  obtain b' k' where two: "TransactionIdDidCommit ?now subtrans_one 3 cache_empty 7 = Some (b', k')"
    using DidCommit_ends [OF subtrans_one_facts(1) norm(2)] by (metis surj_pair)
  have open1: "fst (TransactionIdGetStatus clog_empty x) = TRANSACTION_STATUS_IN_PROGRESS" for x
    by (simp add: TransactionIdGetStatus_def Let_def clog_empty_def byte_status_def xid_status_defs)
  have calls: "set_calls ?now = set_calls clog_empty @ tree_writes 7 [9] TRANSACTION_STATUS_COMMITTED @ []"
    by (simp add: TransactionIdCommitTree_def tree_status_writes [OF norm(3)] writes_calls)
  have now: "?now = replay False InvalidXLogRecPtr (tree_writes 7 [9] TRANSACTION_STATUS_COMMITTED) clog_empty"
    by (simp add: TransactionIdCommitTree_def tree_status_writes [OF norm(3)] replay_writes)
  have "b = b'"
    using translog_commit_seen_atomic [OF norm(1) _ subtrans_one_facts(2) open1 _ subtrans_one_facts(1) norm(2)
        calls now cache_empty_ok _ one two] open1 by simp
  with one two show ?thesis by simp
qed

text \<open>C35: once the commit of a tree has been recorded, the commit test answers yes for its parent and all
  its children, and once its abort has been recorded, the abort test does; sub-transaction links and
  the horizon play no part any more.\<close>

theorem translog_outcome_recorded:
  assumes "TransactionIdIsNormal xid" "\<forall>y\<in>set subxids. TransactionIdIsNormal y"
    and "y = xid \<or> y \<in> set subxids" "cache_ok c1 cache" "cache_ok c2 cache'"
    and "c1 = TransactionIdCommitTree rec xid subxids c" "c2 = TransactionIdAbortTree rec xid subxids c"
  shows "(\<exists>k. TransactionIdDidCommit c1 s TransactionXmin cache y = Some (True, k)) \<and>
    (\<exists>k. TransactionIdDidAbort c2 s TransactionXmin cache' y = Some (True, k))"
proof -
  have valid: "TransactionIdIsValid xid" "TransactionIdIsValid y" and norm: "TransactionIdIsNormal y"
    using assms(1-3) by (auto simp: normal_iff valid_iff)
  have "log_status c1 y = TRANSACTION_STATUS_COMMITTED"
    using clog_log.tree_final [of TRANSACTION_STATUS_COMMITTED y xid subxids rec InvalidXLogRecPtr c] assms(3,6) norm
    by (simp add: log_status_def TransactionIdCommitTree_def tree_status_writes [OF valid(1)] xid_status_defs)
  moreover have "log_status c2 y = TRANSACTION_STATUS_ABORTED"
    using clog_log.tree_final [of TRANSACTION_STATUS_ABORTED y xid subxids rec InvalidXLogRecPtr c] assms(3,7) norm
    by (simp add: log_status_def TransactionIdAbortTree_def tree_status_writes [OF valid(1)] xid_status_defs)
  ultimately show ?thesis
    using fetch_ok [OF assms(4) valid(2)] fetch_ok [OF assms(5) valid(2)]
    by (auto simp: TransactionIdDidCommit.simps [of c1] TransactionIdDidAbort.simps [of c2] Let_def split: prod.splits)
qed

theorem translog_outcome_recorded_witness:
  "\<exists>k. TransactionIdDidCommit (TransactionIdCommitTree False 7 [9] clog_empty) subtrans_empty 3 cache_empty 9 = Some (True, k)"
  using translog_outcome_recorded [of 7 "[9]" 9 "TransactionIdCommitTree False 7 [9] clog_empty" cache_empty
      "TransactionIdAbortTree False 7 [9] clog_empty" cache_empty False clog_empty subtrans_empty 3]
  by (simp add: normal_iff cache_empty_ok)

end
