(* ===== verification/Snapshot.thy ===== *)
theory Snapshot
  imports Transam
begin

text \<open>
  Snapshots (\<^verbatim>\<open>src/include/utils/snapshot.h\<close>) and the test whether a transaction id is still in
  progress according to one (\<^verbatim>\<open>XidInMVCCSnapshot\<close> of \<^verbatim>\<open>src/backend/utils/time/snapmgr.c\<close>). The arrays
  \<^verbatim>\<open>xip\<close> and \<^verbatim>\<open>subxip\<close> with their counts are lists. The book-keeping fields of the snapshot manager
  play no part in visibility and are left out.
\<close>

datatype SnapshotType = SNAPSHOT_MVCC | SNAPSHOT_SELF | SNAPSHOT_ANY | SNAPSHOT_TOAST
  | SNAPSHOT_DIRTY | SNAPSHOT_HISTORIC_MVCC | SNAPSHOT_NON_VACUUMABLE

record SnapshotData =
  snapshot_type :: SnapshotType
  snap_xmin :: TransactionId
  snap_xmax :: TransactionId
  xip :: "TransactionId list"
  subxip :: "TransactionId list"
  suboverflowed :: bool
  takenDuringRecovery :: bool
  curcid :: CommandId
  speculativeToken :: uint32

text \<open>The array scans \<^verbatim>\<open>for (i = 0; i < cnt; i++) if (TransactionIdEquals(xid, a[i])) return true\<close>.\<close>

fun xid_array_scan :: "TransactionId \<Rightarrow> TransactionId list \<Rightarrow> bool" where
  "xid_array_scan xid [] = False"
| "xid_array_scan xid (x # xs) = (if xid = x then True else xid_array_scan xid xs)"

lemma xid_array_scan_mem [simp]: "xid_array_scan xid xs \<longleftrightarrow> xid \<in> set xs"
  by (induction xs) auto

text \<open>\<open>topmost\<close> is \<^verbatim>\<open>SubTransGetTopmostTransaction\<close>.\<close>

definition XidInMVCCSnapshot ::
  "(TransactionId \<Rightarrow> TransactionId) \<Rightarrow> TransactionId \<Rightarrow> SnapshotData \<Rightarrow> bool" where
  "XidInMVCCSnapshot topmost xid snapshot =
     (if TransactionIdPrecedes xid (snap_xmin snapshot) then False
      else if TransactionIdFollowsOrEquals xid (snap_xmax snapshot) then True
      else if \<not> takenDuringRecovery snapshot then
        (if \<not> suboverflowed snapshot then
           (if xid_array_scan xid (subxip snapshot) then True
            else xid_array_scan xid (xip snapshot))
         else
           let xid = topmost xid
           in if TransactionIdPrecedes xid (snap_xmin snapshot) then False
              else xid_array_scan xid (xip snapshot))
      else
        let xid = (if suboverflowed snapshot then topmost xid else xid)
        in if suboverflowed snapshot \<and> TransactionIdPrecedes xid (snap_xmin snapshot) then False
           else xid_array_scan xid (subxip snapshot))"

text \<open>\<^verbatim>\<open>xidComparator\<close> of \<^verbatim>\<open>src/backend/utils/adt/xid.c\<close>: plain unsigned order.\<close>

definition xidComparator :: "TransactionId \<Rightarrow> TransactionId \<Rightarrow> int" where
  "xidComparator xid1 xid2 = (if xid1 > xid2 then 1 else if xid1 < xid2 then -1 else 0)"

text \<open>\<^verbatim>\<open>TransactionIdInArray\<close> calls the C library's \<^verbatim>\<open>bsearch\<close>.\<close>

definition TransactionIdInArray :: "TransactionId \<Rightarrow> TransactionId list \<Rightarrow> bool" where
  "TransactionIdInArray xid xids =
     binsearch (\<lambda>p. xidComparator xid p = 0) (\<lambda>p. xidComparator xid p > 0) xids 0 (int (length xids) - 1)"

section \<open>Lemmas\<close>

lemma TransactionIdInArray_sorted: "sorted xs \<Longrightarrow> TransactionIdInArray xid xs \<longleftrightarrow> xid \<in> set xs"
proof -
  assume "sorted xs"
  have eq: "(\<lambda>p. xidComparator xid p = 0) = (\<lambda>p. p = xid)"
    "(\<lambda>p. xidComparator xid p > 0) = (\<lambda>p. p < xid)"
    by (auto simp: xidComparator_def fun_eq_iff)
  show ?thesis
    unfolding TransactionIdInArray_def eq
    using binsearch_whole [OF sorted_search_sorted [OF \<open>sorted xs\<close>, of xid]] by simp
qed

lemma in_snapshot_below_xmin: "TransactionIdPrecedes xid (snap_xmin s) \<Longrightarrow> \<not> XidInMVCCSnapshot topm xid s"
  by (simp add: XidInMVCCSnapshot_def)

lemma in_snapshot_above_xmax:
  "\<not> TransactionIdPrecedes xid (snap_xmin s) \<Longrightarrow> TransactionIdFollowsOrEquals xid (snap_xmax s)
   \<Longrightarrow> XidInMVCCSnapshot topm xid s"
  by (simp add: XidInMVCCSnapshot_def)

text \<open>Between \<open>xmin\<close> and \<open>xmax\<close>, a snapshot with complete data is its two arrays.\<close>

lemma in_snapshot_arrays:
  assumes "\<not> TransactionIdPrecedes xid (snap_xmin s)" "\<not> TransactionIdFollowsOrEquals xid (snap_xmax s)"
    and "\<not> suboverflowed s"
  shows "XidInMVCCSnapshot topm xid s \<longleftrightarrow>
    xid \<in> set (subxip s) \<or> (\<not> takenDuringRecovery s \<and> xid \<in> set (xip s))"
  using assms by (simp add: XidInMVCCSnapshot_def)

section \<open>Properties\<close>

text \<open>the binary search of \<^verbatim>\<open>TransactionIdInArray\<close> finds exactly the members of an array that is
  sorted by \<^verbatim>\<open>xidComparator\<close>, that is in numeric order.\<close>

theorem xid_in_array:
  assumes "sorted xids"
  shows "TransactionIdInArray xid xids \<longleftrightarrow> xid \<in> set xids"
  by (rule TransactionIdInArray_sorted [OF assms])

theorem xid_in_array_witness: "TransactionIdInArray 9 [3, 5, 9, 12]"
  using xid_in_array [of "[3, 5, 9, 12]" 9] by simp

end
