(* ===== verification/Procarray.thy ===== *)
theory Procarray
  imports KnownAssigned TransLog Snapshot
begin

text \<open>
  The array of running transactions (\<^verbatim>\<open>src/backend/storage/ipc/procarray.c\<close>): which transactions
  run, snapshots of them, and the horizon for vacuum. \<^verbatim>\<open>allProcs\<close> and \<^verbatim>\<open>allPgXact\<close> are functions from
  slot numbers; \<^verbatim>\<open>pgprocnos\<close> with its count is a list; of a backend's cache of subtransaction ids
  the \<open>nxids\<close> valid entries are kept. An operation runs alone, as \<^verbatim>\<open>ProcArrayLock\<close> ensures for its
  writers; the group clearing of \<^verbatim>\<open>ProcArrayGroupClearXid\<close> makes a leader perform
  \<open>ProcArrayEndTransactionInternal\<close> for every member of the group. Book-keeping for the
  snapshot-too-old feature is left out.
\<close>

section \<open>State\<close>

record PGPROC =
  lxid :: uint32
  pid :: int
  databaseId :: uint32
  recoveryConflictPending :: bool
  subxids :: "TransactionId list"

record PGXACT =
  pgx_xid :: TransactionId
  pgx_xmin :: TransactionId
  vacuumFlags :: uint8
  overflowed :: bool
  delayChkpt :: bool

record procarray =
  pgprocnos :: "nat list"
  maxProcs :: nat
  lastOverflowedXid :: TransactionId
  replication_slot_xmin :: TransactionId
  replication_slot_catalog_xmin :: TransactionId
  allProcs :: "nat \<Rightarrow> PGPROC"
  allPgXact :: "nat \<Rightarrow> PGXACT"
  knownXids :: known_assigned
  latestCompletedXid :: TransactionId

text \<open>Variables of one backend: its slot and the horizons that \<^verbatim>\<open>GetSnapshotData\<close> sets.\<close>

record backend_vars =
  MyProc :: nat
  MyDatabaseId :: uint32
  TransactionXmin :: TransactionId
  RecentXmin :: TransactionId
  RecentGlobalXmin :: TransactionId
  RecentGlobalDataXmin :: TransactionId

definition PGPROC_MAX_CACHED_SUBXIDS :: nat where "PGPROC_MAX_CACHED_SUBXIDS = 64"
definition InvalidLocalTransactionId :: uint32 where "InvalidLocalTransactionId = 0"

definition PROC_IN_VACUUM :: uint8 where "PROC_IN_VACUUM = 0x02"
definition PROC_IN_ANALYZE :: uint8 where "PROC_IN_ANALYZE = 0x04"
definition PROC_VACUUM_FOR_WRAPAROUND :: uint8 where "PROC_VACUUM_FOR_WRAPAROUND = 0x08"
definition PROC_IN_LOGICAL_DECODING :: uint8 where "PROC_IN_LOGICAL_DECODING = 0x10"
definition PROC_VACUUM_STATE_MASK :: uint8 where
  "PROC_VACUUM_STATE_MASK = PROC_IN_VACUUM OR PROC_IN_ANALYZE OR PROC_VACUUM_FOR_WRAPAROUND"

definition PROCARRAY_SLOTS_XMIN :: uint8 where "PROCARRAY_SLOTS_XMIN = 0x20"
definition PROCARRAY_PROC_FLAGS_MASK :: uint8 where
  "PROCARRAY_PROC_FLAGS_MASK = 0x02 OR 0x04 OR 0x10"

definition NormalTransactionIdPrecedes :: "TransactionId \<Rightarrow> TransactionId \<Rightarrow> bool" where
  "NormalTransactionIdPrecedes id1 id2 \<longleftrightarrow> xid_diff id1 id2 < 0"

section \<open>Joining and leaving\<close>

datatype proc_error = TooManyClients

text \<open>The array stays sorted by slot number.\<close>

definition ProcArrayAdd :: "nat \<Rightarrow> procarray \<Rightarrow> proc_error + procarray" where
  "ProcArrayAdd pgprocno s =
     (if length (pgprocnos s) \<ge> maxProcs s then Inl TooManyClients
      else Inr (s\<lparr>pgprocnos := takeWhile (\<lambda>n. \<not> n > pgprocno) (pgprocnos s) @ pgprocno #
                               dropWhile (\<lambda>n. \<not> n > pgprocno) (pgprocnos s)\<rparr>))"

definition advance_latest :: "TransactionId \<Rightarrow> procarray \<Rightarrow> procarray" where
  "advance_latest latestXid s =
     (if TransactionIdPrecedes (latestCompletedXid s) latestXid then s\<lparr>latestCompletedXid := latestXid\<rparr> else s)"

definition ProcArrayRemove :: "nat \<Rightarrow> TransactionId \<Rightarrow> procarray \<Rightarrow> procarray" where
  "ProcArrayRemove pgprocno latestXid s =
     (let s = (if TransactionIdIsValid latestXid then advance_latest latestXid s else s)
      in case dropWhile (\<lambda>n. n \<noteq> pgprocno) (pgprocnos s) of
           [] \<Rightarrow> s
         | _ # rest \<Rightarrow> s\<lparr>pgprocnos := takeWhile (\<lambda>n. n \<noteq> pgprocno) (pgprocnos s) @ rest\<rparr>)"

definition ProcArrayEndTransactionInternal :: "nat \<Rightarrow> TransactionId \<Rightarrow> procarray \<Rightarrow> procarray" where
  "ProcArrayEndTransactionInternal pgprocno latestXid s =
     (let pgxact = allPgXact s pgprocno; proc = allProcs s pgprocno;
          s = s\<lparr>allPgXact := (allPgXact s)(pgprocno :=
                  pgxact\<lparr>pgx_xid := InvalidTransactionId, pgx_xmin := InvalidTransactionId,
                         vacuumFlags := vacuumFlags pgxact AND NOT PROC_VACUUM_STATE_MASK,
                         delayChkpt := False, overflowed := False\<rparr>),
                allProcs := (allProcs s)(pgprocno :=
                  proc\<lparr>lxid := InvalidLocalTransactionId, recoveryConflictPending := False, subxids := []\<rparr>)\<rparr>
      in advance_latest latestXid s)"

text \<open>Whether the lock is free at once or the clearing is left to a group leader, the update is the same.\<close>

definition ProcArrayEndTransaction :: "nat \<Rightarrow> TransactionId \<Rightarrow> procarray \<Rightarrow> procarray" where
  "ProcArrayEndTransaction pgprocno latestXid s =
     (if TransactionIdIsValid latestXid then ProcArrayEndTransactionInternal pgprocno latestXid s
      else
        let pgxact = allPgXact s pgprocno; proc = allProcs s pgprocno
        in s\<lparr>allPgXact := (allPgXact s)(pgprocno :=
               pgxact\<lparr>pgx_xmin := InvalidTransactionId,
                      vacuumFlags := vacuumFlags pgxact AND NOT PROC_VACUUM_STATE_MASK, delayChkpt := False\<rparr>),
             allProcs := (allProcs s)(pgprocno :=
               proc\<lparr>lxid := InvalidLocalTransactionId, recoveryConflictPending := False\<rparr>)\<rparr>)"

text \<open>The leader's walk over the list of group members, each with its latest id.\<close>

definition ProcArrayGroupClear :: "(nat \<times> TransactionId) list \<Rightarrow> procarray \<Rightarrow> procarray" where
  "ProcArrayGroupClear members = fold (\<lambda>(pgprocno, latestXid). ProcArrayEndTransactionInternal pgprocno latestXid) members"

definition ProcArrayClearTransaction :: "nat \<Rightarrow> procarray \<Rightarrow> procarray" where
  "ProcArrayClearTransaction pgprocno s =
     (let pgxact = allPgXact s pgprocno; proc = allProcs s pgprocno
      in s\<lparr>allPgXact := (allPgXact s)(pgprocno :=
             pgxact\<lparr>pgx_xid := InvalidTransactionId, pgx_xmin := InvalidTransactionId,
                    vacuumFlags := vacuumFlags pgxact AND NOT PROC_VACUUM_STATE_MASK,
                    delayChkpt := False, overflowed := False\<rparr>),
           allProcs := (allProcs s)(pgprocno :=
             proc\<lparr>lxid := InvalidLocalTransactionId, recoveryConflictPending := False, subxids := []\<rparr>)\<rparr>)"

text \<open>Remove the last entry equal to an id from the cache: the final entry takes its place.\<close>

definition cache_remove :: "TransactionId \<Rightarrow> TransactionId list \<Rightarrow> TransactionId list" where
  "cache_remove x xs =
     (case List.find (\<lambda>j. xs ! j = x) (rev [0..<length xs]) of
        None \<Rightarrow> xs
      | Some j \<Rightarrow> butlast (xs[j := last xs]))"

definition XidCacheRemoveRunningXids ::
  "nat \<Rightarrow> TransactionId \<Rightarrow> TransactionId list \<Rightarrow> TransactionId \<Rightarrow> procarray \<Rightarrow> procarray" where
  "XidCacheRemoveRunningXids me xid xids latestXid s =
     (let proc = allProcs s me; cache = cache_remove xid (fold cache_remove (rev xids) (subxids proc))
      in advance_latest latestXid (s\<lparr>allProcs := (allProcs s)(me := proc\<lparr>subxids := cache\<rparr>)\<rparr>))"

section \<open>Is a transaction running?\<close>

text \<open>Steps 1 and 2 over the array: \<open>None\<close> if the id is found, else the main ids with uncached children.\<close>

fun scan_procs :: "nat \<Rightarrow> procarray \<Rightarrow> TransactionId \<Rightarrow> nat list \<Rightarrow> TransactionId list \<Rightarrow> TransactionId list option" where
  "scan_procs me s xid [] xids = Some xids"
| "scan_procs me s xid (pgprocno # ps) xids =
     (let proc = allProcs s pgprocno; pgxact = allPgXact s pgprocno; pxid = pgx_xid pgxact
      in if pgprocno = me then scan_procs me s xid ps xids
         else if \<not> TransactionIdIsValid pxid then scan_procs me s xid ps xids
         else if pxid = xid then None
         else if TransactionIdPrecedes xid pxid then scan_procs me s xid ps xids
         else if xid_array_scan xid (rev (subxids proc)) then None
         else scan_procs me s xid ps (if overflowed pgxact then xids @ [pxid] else xids))"

text \<open>Step 4: the subtransaction tree. The answer comes with the fetch cache; a corrupted link is an error.\<close>

definition check_subtrans ::
  "clog \<Rightarrow> subtrans \<Rightarrow> TransactionId \<Rightarrow> fetch_cache \<Rightarrow> TransactionId \<Rightarrow> TransactionId list
   \<Rightarrow> (subtrans_error + bool \<times> fetch_cache) option" where
  "check_subtrans c st xmin cache xid xids =
     (if xids = [] then Some (Inr (False, cache))
      else case TransactionIdDidAbort c st xmin cache xid of
        None \<Rightarrow> None
      | Some (True, cache) \<Rightarrow> Some (Inr (False, cache))
      | Some (False, cache) \<Rightarrow>
          (case SubTransGetTopmostTransaction st xmin xid of
             None \<Rightarrow> None
           | Some (Inl e) \<Rightarrow> Some (Inl e)
           | Some (Inr topxid) \<Rightarrow> Some (Inr (topxid \<noteq> xid \<and> xid_array_scan topxid xids, cache))))"

text \<open>\<open>is_current\<close> is \<^verbatim>\<open>TransactionIdIsCurrentTransactionId\<close> of the backend.\<close>

definition TransactionIdIsInProgress ::
  "bool \<Rightarrow> (TransactionId \<Rightarrow> bool) \<Rightarrow> backend_vars \<Rightarrow> clog \<Rightarrow> subtrans \<Rightarrow> procarray \<Rightarrow> fetch_cache \<Rightarrow> TransactionId
   \<Rightarrow> (subtrans_error + bool \<times> fetch_cache) option" where
  "TransactionIdIsInProgress RecoveryInProgress is_current v c st s cache xid =
     (if TransactionIdPrecedes xid (RecentXmin v) then Some (Inr (False, cache))
      else if TransactionIdIsKnownCompleted cache xid then Some (Inr (False, cache))
      else if is_current xid then Some (Inr (True, cache))
      else if TransactionIdPrecedes (latestCompletedXid s) xid then Some (Inr (True, cache))
      else case scan_procs (MyProc v) s xid (pgprocnos s) [] of
        None \<Rightarrow> Some (Inr (True, cache))
      | Some xids \<Rightarrow>
          (if RecoveryInProgress then
             (if KnownAssignedXidExists xid (knownXids s) then Some (Inr (True, cache))
              else check_subtrans c st (TransactionXmin v) cache xid
                (if TransactionIdPrecedesOrEquals xid (lastOverflowedXid s)
                 then KnownAssignedXidsGet (knownXids s) xid else xids))
           else check_subtrans c st (TransactionXmin v) cache xid xids))"

definition TransactionIdIsActive :: "backend_vars \<Rightarrow> procarray \<Rightarrow> TransactionId \<Rightarrow> bool" where
  "TransactionIdIsActive v s xid =
     (if TransactionIdPrecedes xid (RecentXmin v) then False
      else list_ex (\<lambda>p. TransactionIdIsValid (pgx_xid (allPgXact s p)) \<and> pid (allProcs s p) \<noteq> 0 \<and>
                        pgx_xid (allPgXact s p) = xid) (pgprocnos s))"

section \<open>Taking a snapshot\<close>

text \<open>What the loop over the array accumulates.\<close>

record snap_acc =
  acc_globalxmin :: TransactionId
  acc_xmin :: TransactionId
  acc_xip :: "TransactionId list"
  acc_subxip :: "TransactionId list"
  acc_suboverflowed :: bool

definition snapshot_step :: "nat \<Rightarrow> procarray \<Rightarrow> TransactionId \<Rightarrow> nat \<Rightarrow> snap_acc \<Rightarrow> snap_acc" where
  "snapshot_step me s xmax pgprocno a =
     (let pgxact = allPgXact s pgprocno
      in if flag (vacuumFlags pgxact) (PROC_IN_LOGICAL_DECODING OR PROC_IN_VACUUM) then a
         else
           let xm = pgx_xmin pgxact;
               a = (if TransactionIdIsNormal xm \<and> NormalTransactionIdPrecedes xm (acc_globalxmin a)
                    then a\<lparr>acc_globalxmin := xm\<rparr> else a);
               xid = pgx_xid pgxact
           in if \<not> TransactionIdIsNormal xid \<or> \<not> NormalTransactionIdPrecedes xid xmax then a
              else
                let a = (if NormalTransactionIdPrecedes xid (acc_xmin a) then a\<lparr>acc_xmin := xid\<rparr> else a)
                in if pgprocno = me then a
                   else
                     let a = a\<lparr>acc_xip := acc_xip a @ [xid]\<rparr>
                     in if \<not> acc_suboverflowed a then
                          (if overflowed pgxact then a\<lparr>acc_suboverflowed := True\<rparr>
                           else a\<lparr>acc_subxip := acc_subxip a @ subxids (allProcs s pgprocno)\<rparr>)
                        else a)"

text \<open>The horizon after \<^verbatim>\<open>vacuum_defer_cleanup_age\<close>, kept a normal id.\<close>

definition defer_xmin :: "TransactionId \<Rightarrow> TransactionId \<Rightarrow> TransactionId" where
  "defer_xmin x vacuum_defer_cleanup_age =
     (let r = x - vacuum_defer_cleanup_age in if \<not> TransactionIdIsNormal r then FirstNormalTransactionId else r)"

definition GetSnapshotData ::
  "bool \<Rightarrow> TransactionId \<Rightarrow> CommandId \<Rightarrow> SnapshotData \<Rightarrow> backend_vars \<Rightarrow> procarray
   \<Rightarrow> SnapshotData \<times> backend_vars \<times> procarray" where
  "GetSnapshotData RecoveryInProgress vacuum_defer_cleanup_age cid snapshot v s =
     (let me = MyProc v; xmax = TransactionIdAdvance (latestCompletedXid s);
          a0 = \<lparr>acc_globalxmin = xmax, acc_xmin = xmax, acc_xip = [], acc_subxip = [], acc_suboverflowed = False\<rparr>;
          a = (if \<not> RecoveryInProgress then fold (snapshot_step me s xmax) (pgprocnos s) a0
               else case KnownAssignedXidsGetAndSetXmin (knownXids s) xmax xmax of
                 (xs, xmin) \<Rightarrow> a0\<lparr>acc_subxip := xs, acc_xmin := xmin,
                    acc_suboverflowed := TransactionIdPrecedesOrEquals xmin (lastOverflowedXid s)\<rparr>);
          xmin = acc_xmin a;
          mine = allPgXact s me; first = \<not> TransactionIdIsValid (pgx_xmin mine);
          s = (if first then s\<lparr>allPgXact := (allPgXact s)(me := mine\<lparr>pgx_xmin := xmin\<rparr>)\<rparr> else s);
          v = (if first then v\<lparr>TransactionXmin := xmin\<rparr> else v);
          globalxmin = (if TransactionIdPrecedes xmin (acc_globalxmin a) then xmin else acc_globalxmin a);
          rgx = defer_xmin globalxmin vacuum_defer_cleanup_age;
          rgx = (if TransactionIdIsValid (replication_slot_xmin s) \<and>
                    NormalTransactionIdPrecedes (replication_slot_xmin s) rgx
                 then replication_slot_xmin s else rgx);
          rgdx = rgx;
          rgx = (if TransactionIdIsNormal (replication_slot_catalog_xmin s) \<and>
                    NormalTransactionIdPrecedes (replication_slot_catalog_xmin s) rgx
                 then replication_slot_catalog_xmin s else rgx)
      in (snapshot\<lparr>takenDuringRecovery := RecoveryInProgress, snap_xmin := xmin, snap_xmax := xmax,
                   xip := acc_xip a, subxip := acc_subxip a, suboverflowed := acc_suboverflowed a, curcid := cid\<rparr>,
          v\<lparr>RecentGlobalXmin := rgx, RecentGlobalDataXmin := rgdx, RecentXmin := xmin\<rparr>, s))"

section \<open>The vacuum horizon\<close>

text \<open>\<open>rel\<close> is \<open>None\<close> for the whole cluster, or says whether the relation is shared and whether logical
  decoding may access it.\<close>

definition oldest_step :: "backend_vars \<Rightarrow> procarray \<Rightarrow> uint8 \<Rightarrow> bool \<Rightarrow> nat \<Rightarrow> TransactionId \<Rightarrow> TransactionId" where
  "oldest_step v s flags allDbs pgprocno result =
     (let proc = allProcs s pgprocno; pgxact = allPgXact s pgprocno
      in if flag (vacuumFlags pgxact) (flags AND PROCARRAY_PROC_FLAGS_MASK) then result
         else if allDbs \<or> databaseId proc = MyDatabaseId v \<or> databaseId proc = 0 then
           let xid = pgx_xid pgxact;
               result = (if TransactionIdIsNormal xid \<and> TransactionIdPrecedes xid result then xid else result);
               xid = pgx_xmin pgxact
           in if TransactionIdIsNormal xid \<and> TransactionIdPrecedes xid result then xid else result
         else result)"

definition GetOldestXmin ::
  "bool \<Rightarrow> TransactionId \<Rightarrow> (bool \<times> bool) option \<Rightarrow> uint8 \<Rightarrow> backend_vars \<Rightarrow> procarray \<Rightarrow> TransactionId" where
  "GetOldestXmin RecoveryInProgress vacuum_defer_cleanup_age rel flags v s =
     (let allDbs = (case rel of None \<Rightarrow> True | Some (relisshared, _) \<Rightarrow> relisshared);
          result = fold (oldest_step v s flags allDbs) (pgprocnos s) (TransactionIdAdvance (latestCompletedXid s));
          result = (if RecoveryInProgress then
                      let kaxmin = KnownAssignedXidsGetOldestXmin (knownXids s)
                      in if TransactionIdIsNormal kaxmin \<and> TransactionIdPrecedes kaxmin result then kaxmin else result
                    else defer_xmin result vacuum_defer_cleanup_age);
          result = (if \<not> flag flags PROCARRAY_SLOTS_XMIN \<and> TransactionIdIsValid (replication_slot_xmin s) \<and>
                       NormalTransactionIdPrecedes (replication_slot_xmin s) result
                    then replication_slot_xmin s else result)
      in if \<not> flag flags PROCARRAY_SLOTS_XMIN \<and>
            (case rel of None \<Rightarrow> True | Some (_, decoding) \<Rightarrow> decoding) \<and>
            TransactionIdIsValid (replication_slot_catalog_xmin s) \<and>
            NormalTransactionIdPrecedes (replication_slot_catalog_xmin s) result
         then replication_slot_catalog_xmin s else result)"

end
