(* ===== verification/Varsup.thy ===== *)
theory Varsup
  imports Procarray
begin

text \<open>
  Assignment of transaction ids and object ids (\<^verbatim>\<open>src/backend/access/transam/varsup.c\<close>) with the
  extension of the commit log and of \<^verbatim>\<open>pg_subtrans\<close> that goes with it. The shared variables
  are those of \<^verbatim>\<open>VariableCacheData\<close>; \<^verbatim>\<open>latestCompletedXid\<close> is kept with the process array. Warnings and
  signals to the postmaster have no effect on the state and are left out; commit timestamps
  are not modelled. The field \<open>loggedOid\<close> is not in the C code: it is the argument of the last
  \<^verbatim>\<open>XLogPutNextOid\<close>, what a restart would read back.
\<close>

section \<open>State\<close>

type_synonym Oid = uint32

record VariableCacheData =
  nextOid :: Oid
  oidCount :: uint32
  nextFullXid :: FullTransactionId
  oldestXid :: TransactionId
  xidVacLimit :: TransactionId
  xidWarnLimit :: TransactionId
  xidStopLimit :: TransactionId
  xidWrapLimit :: TransactionId
  oldestXidDB :: Oid
  oldestClogXid :: TransactionId
  loggedOid :: Oid

definition MaxTransactionId :: TransactionId where "MaxTransactionId = 0xFFFFFFFF"
definition FirstBootstrapObjectId :: Oid where "FirstBootstrapObjectId = 12000"
definition FirstNormalObjectId :: Oid where "FirstNormalObjectId = 16384"
definition VAR_OID_PREFETCH :: uint32 where "VAR_OID_PREFETCH = 8192"

datatype varsup_error = XidsInParallelMode | XidsInRecovery | WraparoundDataLoss | OidsInRecovery

section \<open>Room in the logs\<close>

definition ZeroCLOGPage :: "pageno \<Rightarrow> clog \<Rightarrow> clog" where
  "ZeroCLOGPage page c = c\<lparr>page_buffer := (page_buffer c)(page := \<lambda>_. 0), group_lsn := (group_lsn c)(page := \<lambda>_. 0)\<rparr>"

definition ExtendCLOG :: "TransactionId \<Rightarrow> clog \<Rightarrow> clog" where
  "ExtendCLOG newestXact c =
     (if TransactionIdToPgIndex newestXact \<noteq> 0 \<and> newestXact \<noteq> FirstNormalTransactionId then c
      else ZeroCLOGPage (TransactionIdToPage newestXact) c)"

definition ZeroSUBTRANSPage :: "uint32 \<Rightarrow> subtrans \<Rightarrow> subtrans" where
  "ZeroSUBTRANSPage page st = st\<lparr>st_page_buffer := (st_page_buffer st)(page := \<lambda>_. 0), st_page_dirty := (st_page_dirty st)(page := True)\<rparr>"

definition ExtendSUBTRANS :: "TransactionId \<Rightarrow> subtrans \<Rightarrow> subtrans" where
  "ExtendSUBTRANS newestXact st =
     (if SubTransToEntry newestXact \<noteq> 0 \<and> newestXact \<noteq> FirstNormalTransactionId then st
      else ZeroSUBTRANSPage (SubTransToPage newestXact) st)"

section \<open>Transaction ids\<close>

text \<open>Advertise the new id in the backend's entry.\<close>

definition store_xid :: "nat \<Rightarrow> bool \<Rightarrow> TransactionId \<Rightarrow> procarray \<Rightarrow> procarray" where
  "store_xid me isSubXact xid s =
     (let pgxact = allPgXact s me; proc = allProcs s me
      in if \<not> isSubXact then s\<lparr>allPgXact := (allPgXact s)(me := pgxact\<lparr>pgx_xid := xid\<rparr>)\<rparr>
         else if length (subxids proc) < PGPROC_MAX_CACHED_SUBXIDS
         then s\<lparr>allProcs := (allProcs s)(me := proc\<lparr>subxids := subxids proc @ [xid]\<rparr>)\<rparr>
         else s\<lparr>allPgXact := (allPgXact s)(me := pgxact\<lparr>overflowed := True\<rparr>)\<rparr>)"

record xid_system =
  shmem :: VariableCacheData
  pg_xact :: clog
  pg_subtrans :: subtrans
  parray :: procarray

text \<open>The section of \<^verbatim>\<open>GetNewTransactionId\<close> under the first hold of \<^verbatim>\<open>XidGenLock\<close>. \<open>Inr True\<close> tells that the counter has
  reached \<^verbatim>\<open>xidVacLimit\<close>, so that the lock is released for signals and warnings and taken again.\<close>

definition xid_gate :: "bool \<Rightarrow> xid_system \<Rightarrow> varsup_error + bool" where
  "xid_gate IsUnderPostmaster y =
     (let xid = XidFromFullTransactionId (nextFullXid (shmem y))
      in if TransactionIdFollowsOrEquals xid (xidVacLimit (shmem y)) then
           if IsUnderPostmaster \<and> TransactionIdFollowsOrEquals xid (xidStopLimit (shmem y)) then Inl WraparoundDataLoss
           else Inr True
         else Inr False)"

text \<open>The rest, which reads the counter (again) and does not look at the limits any more.\<close>

definition take_xid :: "nat \<Rightarrow> bool \<Rightarrow> xid_system \<Rightarrow> FullTransactionId \<times> xid_system" where
  "take_xid me isSubXact y =
     (let full_xid = nextFullXid (shmem y); xid = XidFromFullTransactionId full_xid
      in (full_xid,
          y\<lparr>pg_xact := ExtendCLOG xid (pg_xact y), pg_subtrans := ExtendSUBTRANS xid (pg_subtrans y),
            shmem := (shmem y)\<lparr>nextFullXid := FullTransactionIdAdvance (nextFullXid (shmem y))\<rparr>,
            parray := store_xid me isSubXact xid (parray y)\<rparr>))"

text \<open>\<open>meanwhile\<close> is what the other backends do while the lock is released.\<close>

definition GetNewTransactionId ::
  "bool \<Rightarrow> bool \<Rightarrow> bool \<Rightarrow> bool \<Rightarrow> (xid_system \<Rightarrow> xid_system) \<Rightarrow> nat \<Rightarrow> bool \<Rightarrow> xid_system \<Rightarrow> varsup_error + FullTransactionId \<times> xid_system" where
  "GetNewTransactionId InParallelMode IsBootstrap RecoveryInProgress IsUnderPostmaster meanwhile me isSubXact y =
     (if InParallelMode then Inl XidsInParallelMode
      else if IsBootstrap then
        Inr (FullTransactionIdFromEpochAndXid 0 BootstrapTransactionId,
             y\<lparr>parray := store_xid me False BootstrapTransactionId (parray y)\<rparr>)
      else if RecoveryInProgress then Inl XidsInRecovery
      else
        case xid_gate IsUnderPostmaster y of
          Inl e \<Rightarrow> Inl e
        | Inr released \<Rightarrow> Inr (take_xid me isSubXact (if released then meanwhile y else y)))"

definition ReadNextFullTransactionId :: "VariableCacheData \<Rightarrow> FullTransactionId" where
  "ReadNextFullTransactionId v = nextFullXid v"

definition AdvanceNextFullTransactionIdPastXid :: "TransactionId \<Rightarrow> VariableCacheData \<Rightarrow> VariableCacheData" where
  "AdvanceNextFullTransactionIdPastXid xid v =
     (let next_xid = XidFromFullTransactionId (nextFullXid v)
      in if \<not> TransactionIdFollowsOrEquals xid next_xid then v
         else
           let xid = TransactionIdAdvance xid;
               epoch = EpochFromFullTransactionId (nextFullXid v);
               epoch = (if xid < next_xid then epoch + 1 else epoch)
           in v\<lparr>nextFullXid := FullTransactionIdFromEpochAndXid epoch xid\<rparr>)"

definition AdvanceOldestClogXid :: "TransactionId \<Rightarrow> VariableCacheData \<Rightarrow> VariableCacheData" where
  "AdvanceOldestClogXid oldest_datfrozenxid v =
     (if TransactionIdPrecedes (oldestClogXid v) oldest_datfrozenxid
      then v\<lparr>oldestClogXid := oldest_datfrozenxid\<rparr> else v)"

definition SetTransactionIdLimit :: "uint32 \<Rightarrow> TransactionId \<Rightarrow> Oid \<Rightarrow> VariableCacheData \<Rightarrow> VariableCacheData" where
  "SetTransactionIdLimit autovacuum_freeze_max_age oldest_datfrozenxid oldest_datoid v =
     (let wrap = oldest_datfrozenxid + drop_bit 1 MaxTransactionId;
          wrap = (if wrap < FirstNormalTransactionId then wrap + FirstNormalTransactionId else wrap);
          stop = wrap - 1000000;
          stop = (if stop < FirstNormalTransactionId then stop - FirstNormalTransactionId else stop);
          warn = stop - 10000000;
          warn = (if warn < FirstNormalTransactionId then warn - FirstNormalTransactionId else warn);
          vac = oldest_datfrozenxid + autovacuum_freeze_max_age;
          vac = (if vac < FirstNormalTransactionId then vac + FirstNormalTransactionId else vac)
      in v\<lparr>oldestXid := oldest_datfrozenxid, xidVacLimit := vac, xidWarnLimit := warn,
           xidStopLimit := stop, xidWrapLimit := wrap, oldestXidDB := oldest_datoid\<rparr>)"

text \<open>\<open>database_exists\<close> is the lookup of a database in the system cache.\<close>

definition ForceTransactionIdLimitUpdate :: "(Oid \<Rightarrow> bool) \<Rightarrow> VariableCacheData \<Rightarrow> bool" where
  "ForceTransactionIdLimitUpdate database_exists v =
     (if \<not> TransactionIdIsNormal (oldestXid v) then True
      else if \<not> TransactionIdIsValid (xidVacLimit v) then True
      else if TransactionIdFollowsOrEquals (XidFromFullTransactionId (nextFullXid v)) (xidVacLimit v) then True
      else if \<not> database_exists (oldestXidDB v) then True
      else False)"

section \<open>Object ids\<close>

definition GetNewObjectId :: "bool \<Rightarrow> bool \<Rightarrow> VariableCacheData \<Rightarrow> varsup_error + Oid \<times> VariableCacheData" where
  "GetNewObjectId RecoveryInProgress IsPostmasterEnvironment v =
     (if RecoveryInProgress then Inl OidsInRecovery
      else
        let v = (if nextOid v < FirstNormalObjectId then
                   (if IsPostmasterEnvironment then v\<lparr>nextOid := FirstNormalObjectId, oidCount := 0\<rparr>
                    else if nextOid v < FirstBootstrapObjectId then v\<lparr>nextOid := FirstNormalObjectId, oidCount := 0\<rparr>
                    else v)
                 else v);
            v = (if oidCount v = 0 then v\<lparr>loggedOid := nextOid v + VAR_OID_PREFETCH, oidCount := VAR_OID_PREFETCH\<rparr> else v)
        in Inr (nextOid v, v\<lparr>nextOid := nextOid v + 1, oidCount := oidCount v - 1\<rparr>))"

section \<open>Distances from the oldest id\<close>

text \<open>The distances of the limits from the oldest id.\<close>

lemma normal_shift:
  fixes w :: TransactionId
  shows "TransactionIdIsNormal (if w < FirstNormalTransactionId then w + FirstNormalTransactionId else w)"
    "TransactionIdIsNormal (if w < FirstNormalTransactionId then w - FirstNormalTransactionId else w)"
proof -
  have "w = 0 \<or> w = 1 \<or> w = 2" if "w < 3"
  proof -
    have "unat w = 0 \<or> unat w = 1 \<or> unat w = 2" using that by (auto simp: word_less_nat_alt)
    then show ?thesis by (auto simp: word_unat_eq_iff)
  qed
  then show "TransactionIdIsNormal (if w < FirstNormalTransactionId then w + FirstNormalTransactionId else w)"
    "TransactionIdIsNormal (if w < FirstNormalTransactionId then w - FirstNormalTransactionId else w)"
    by (auto simp: TransactionIdIsNormal_def FirstNormalTransactionId_def not_less)
qed

lemma vac_distance:
  assumes age: "uint age \<le> 2000000000" and v: "v = SetTransactionIdLimit age oldest db v0"
  shows "in_window oldest (xidVacLimit v) \<and> uint (xidVacLimit v - oldest) \<le> 2000000003"
proof -
  let ?w = "oldest + age"
  have v': "xidVacLimit v = (if ?w < FirstNormalTransactionId then ?w + FirstNormalTransactionId else ?w)"
    by (simp add: v SetTransactionIdLimit_def Let_def)
  have "uint (age + 3) = uint age + 3"
    using age uint_lt2p [of age] by (simp add: uint_plus_if')
  then have "uint (xidVacLimit v - oldest) \<le> 2000000003"
    using age by (simp add: v' special_xids)
  then show ?thesis
    using normal_shift(1) [of ?w] by (simp add: in_window_def v')
qed

lemma stop_distance:
  assumes v: "v = SetTransactionIdLimit age oldest db v0"
  shows "in_window oldest (xidStopLimit v) \<and>
    2146483644 \<le> uint (xidStopLimit v - oldest) \<and> uint (xidStopLimit v - oldest) \<le> 2146483650"
proof -
  define w0 where "w0 = oldest + drop_bit 1 MaxTransactionId"
  define w1 where "w1 = (if w0 < FirstNormalTransactionId then w0 + FirstNormalTransactionId else w0)"
  define w2 where "w2 = w1 - 1000000"
  have v': "xidStopLimit v = (if w2 < FirstNormalTransactionId then w2 - FirstNormalTransactionId else w2)"
    by (simp add: v SetTransactionIdLimit_def Let_def w0_def w1_def w2_def)
  have w0: "w0 - oldest = 0x7FFFFFFF"
    by (simp add: w0_def MaxTransactionId_def drop_bit_eq_div)
  then have "w1 - oldest = 0x7FFFFFFF \<or> w1 - oldest = 0x80000002"
    by (auto simp: w1_def special_xids algebra_simps)
  then have "w2 - oldest = 0x7FF0BDBF \<or> w2 - oldest = 0x7FF0BDC2"
    by (auto simp: w2_def algebra_simps)
  then have "xidStopLimit v - oldest \<in> {0x7FF0BDBF, 0x7FF0BDC2, 0x7FF0BDBC, 0x7FF0BDBF}"
    by (auto simp: v' special_xids algebra_simps)
  then have "2146483644 \<le> uint (xidStopLimit v - oldest) \<and> uint (xidStopLimit v - oldest) \<le> 2146483650"
    by auto
  then show ?thesis
    using normal_shift(2) [of w2] by (simp add: in_window_def v')
qed

text \<open>The next id stays within the half circle after the oldest one.\<close>

lemma advance_distance:
  assumes "in_window base x" "uint (x - base) \<le> 2147483600"
  shows "in_window base (TransactionIdAdvance x) \<and> uint (x - base) < uint (TransactionIdAdvance x - base)
    \<and> uint (TransactionIdAdvance x - base) \<le> uint (x - base) + 4"
proof -
  obtain d where d: "TransactionIdAdvance x = x + d" "uint d = 1 \<or> uint d = 4 \<and> x = 4294967295"
    using assms(1) advance_step by (auto simp: in_window_def)
  have "uint (TransactionIdAdvance x - base) = uint ((x - base) + d)" by (simp add: d(1) algebra_simps)
  also have "\<dots> = uint (x - base) + uint d"
    using assms(2) d(2) by (subst uint_plus_if') auto
  finally have "uint (TransactionIdAdvance x - base) = uint (x - base) + uint d" .
  then show ?thesis
    using assms d(2) by (auto simp: in_window_def)
qed

lemma full_advance_low: "XidFromFullTransactionId (FullTransactionIdAdvance x) = TransactionIdAdvance (XidFromFullTransactionId x)"
proof -
  have "(ucast (fxid_value x + 1) :: TransactionId) = ucast (fxid_value x) + 1"
    using ucast_down_plus [of "fxid_value x" 1, where 'b = 32] by simp
  then show ?thesis
    by (simp add: XidFromFullTransactionId_def FullTransactionIdAdvance_def TransactionIdAdvance_def skip_special_low special_xids Let_def)
qed

section \<open>The epoch of a full id\<close>

lemma full_of_epoch:
  "uint (fxid_value (FullTransactionIdFromEpochAndXid e x)) = uint e * 4294967296 + uint x"
proof -
  have bits: "\<not> (bit (push_bit 32 (ucast e :: uint64)) n \<and> bit (ucast x :: uint64) n)" for n
    by (auto simp: bit_simps dest: bit_imp_le_length)
  have "push_bit 32 (ucast e) OR ucast x = push_bit 32 (ucast e :: uint64) + ucast x"
    using bits by (subst disjunctive_add_eq_or) (auto simp: bit_eq_iff bit_simps)
  moreover have "uint (push_bit 32 (ucast e :: uint64)) = uint e * 4294967296"
    using uint_lt2p [of e] by (simp add: push_bit_eq_mult uint_word_ariths unsigned_ucast_eq take_bit_eq_mod)
  moreover have "uint (ucast x :: uint64) = uint x"
    using uint_lt2p [of x] by (simp add: unsigned_ucast_eq take_bit_int_eq_self)
  ultimately show ?thesis
    using uint_lt2p [of e] uint_lt2p [of x] by (simp add: FullTransactionIdFromEpochAndXid_def uint_word_ariths)
qed

lemma epoch_of_full: "uint (EpochFromFullTransactionId x) = uint (fxid_value x) div 4294967296"
proof -
  have "uint (drop_bit 32 (fxid_value x)) = uint (fxid_value x) div 4294967296"
    by (simp add: drop_bit_eq_div uint_div)
  moreover have "uint (fxid_value x) div 4294967296 < 4294967296" "0 \<le> uint (fxid_value x) div 4294967296"
    using uint_lt2p [of "fxid_value x"] by (simp_all add: pos_imp_zdiv_nonneg_iff)
  ultimately show ?thesis
    by (simp add: EpochFromFullTransactionId_def unsigned_ucast_eq take_bit_int_eq_self_iff)
qed

lemma full_eqI: "uint (fxid_value a) = uint (fxid_value b) \<Longrightarrow> a = (b :: FullTransactionId)"
  by (cases a; cases b) (simp add: word_uint_eq_iff)

lemma div_step:
  fixes A N :: int
  assumes "0 < A - N" "A - N < 4294967296"
  shows "A div 4294967296 = N div 4294967296 + (if A mod 4294967296 < N mod 4294967296 then 1 else 0)"
proof -
  define a r n m where "a = A div 4294967296" and "r = A mod 4294967296" and "n = N div 4294967296" and "m = N mod 4294967296"
  have eq: "A = 4294967296 * a + r" "N = 4294967296 * n + m"
    by (simp_all add: a_def r_def n_def m_def)
  have bounds: "0 \<le> r" "r < 4294967296" "0 \<le> m" "m < 4294967296"
    by (simp_all add: r_def m_def)
  have "a = n + (if r < m then 1 else 0)"
    using assms bounds unfolding eq by (cases "r < m") auto
  then show ?thesis by (simp add: a_def r_def n_def m_def)
qed

text \<open>Advancing a full id adds one to four.\<close>

lemma skip_special_bound:
  "uint v + max 0 (3 - uint (ucast v :: TransactionId)) < 18446744073709551616 \<Longrightarrow>
   uint v \<le> uint (skip_special v) \<and> uint (skip_special v) \<le> uint v + max 0 (3 - uint (ucast v :: TransactionId))"
proof (induction v rule: skip_special.induct)
  case (1 v)
  let ?x = "ucast v :: TransactionId"
  show ?case
  proof (cases "?x < FirstNormalTransactionId")
    case True
    have small: "uint ?x < 3"
      using True by (simp add: word_less_def special_xids)
    have "(ucast (v + 1) :: TransactionId) = ?x + 1"
      using ucast_down_plus [of v 1, where 'b = 32] by simp
    then have low: "uint (ucast (v + 1) :: TransactionId) = uint ?x + 1"
      using small by (simp add: uint_plus_if')
    have v1: "uint (v + 1) = uint v + 1"
      using 1(2) small by (simp add: uint_plus_if')
    have "skip_special v = skip_special (v + 1)"
      using True by (subst skip_special.simps) simp
    then show ?thesis
      using 1(1) [OF True] 1(2) small low v1 by simp
  next
    case False
    then have "skip_special v = v" by (subst skip_special.simps) simp
    then show ?thesis by simp
  qed
qed

lemma full_advance_value:
  assumes "uint (fxid_value x) + 4 < 18446744073709551616"
  shows "uint (fxid_value x) < uint (fxid_value (FullTransactionIdAdvance x)) \<and>
    uint (fxid_value (FullTransactionIdAdvance x)) \<le> uint (fxid_value x) + 4"
proof -
  have step: "uint (fxid_value x + 1) = uint (fxid_value x) + 1"
    using assms by (simp add: uint_plus_if')
  define k where "k = max 0 (3 - uint (ucast (fxid_value x + 1) :: TransactionId))"
  have k: "0 \<le> k" "k \<le> 3"
    using unsigned_greater_eq [of "ucast (fxid_value x + 1) :: TransactionId", where 'a = int] by (simp_all add: k_def)
  show ?thesis
    using step k skip_special_bound [of "fxid_value x + 1", folded k_def] assms by (simp add: FullTransactionIdAdvance_def)
qed

section \<open>Properties\<close>

definition limits0 :: VariableCacheData where
  "limits0 = \<lparr>nextOid = 20000, oidCount = 0, nextFullXid = \<lparr>fxid_value = 700\<rparr>, oldestXid = 600, xidVacLimit = 0, xidWarnLimit = 0,
     xidStopLimit = 0, xidWrapLimit = 0, oldestXidDB = 1, oldestClogXid = 600, loggedOid = 0\<rparr>"

definition sys0 :: "FullTransactionId \<Rightarrow> procarray \<Rightarrow> xid_system" where
  "sys0 nxt s = \<lparr>shmem = (SetTransactionIdLimit 200000000 600 1 limits0)\<lparr>nextFullXid := nxt\<rparr>,
     pg_xact = clog_empty, pg_subtrans = subtrans_empty, parray = s\<rparr>"

text \<open>the inferred epoch is right. Recovery and two-phase start-up advance the counter past a 32-bit id; if the id
  is the lower half of some full id within \<open>2^31\<close> of the counter, the counter becomes the successor of that full
  id when the id is not in the past, and stays otherwise. So it is the later of the two, also when the ids wrap
  into a new epoch.\<close>

theorem epoch_inferred:
  assumes "XidFromFullTransactionId f = xid" "TransactionIdIsNormal xid"
    and "TransactionIdIsNormal (XidFromFullTransactionId (nextFullXid v))"
    and "\<bar>uint (fxid_value f) - uint (fxid_value (nextFullXid v))\<bar> < 2147483648"
    and "uint (fxid_value f) + 4 < 18446744073709551616"
  shows "AdvanceNextFullTransactionIdPastXid xid v =
    v\<lparr>nextFullXid := (if FullTransactionIdPrecedes f (nextFullXid v) then nextFullXid v else FullTransactionIdAdvance f)\<rparr>"
proof -
  let ?n = "nextFullXid v" and ?a = "FullTransactionIdAdvance f"
  have order: "TransactionIdFollowsOrEquals xid (XidFromFullTransactionId ?n) \<longleftrightarrow> \<not> FullTransactionIdPrecedes f ?n"
    using precedes_full [of f ?n] assms(1-4) not_precedes_iff_follows_eq [symmetric] by metis
  show ?thesis
  proof (cases "FullTransactionIdPrecedes f ?n")
    case True
    then show ?thesis using order by (simp add: AdvanceNextFullTransactionIdPastXid_def)
  next
    case False
    let ?N = "uint (fxid_value ?n)" and ?F = "uint (fxid_value f)" and ?A = "uint (fxid_value ?a)"
    let ?e = "EpochFromFullTransactionId ?n" and ?x = "TransactionIdAdvance xid"
    have A: "?F < ?A" "?A \<le> ?F + 4"
      using full_advance_value [OF assms(5)] by auto
    have F: "?N \<le> ?F" "?F - ?N < 2147483648"
      using False assms(4) by (auto simp: FullTransactionIdPrecedes_def word_less_def)
    have low: "uint ?x = ?A mod 4294967296" "uint (XidFromFullTransactionId ?n) = ?N mod 4294967296"
      using uint_xid_full [of ?a] uint_xid_full [of ?n] full_advance_low [of f] assms(1) by simp_all
    have wrap: "?A div 4294967296 = ?N div 4294967296 + (if ?A mod 4294967296 < ?N mod 4294967296 then 1 else 0)"
      by (rule div_step) (use A F in auto)
    have "?A < 18446744073709551616" using assms(5) A by simp
    then have "?A div 4294967296 < 4294967296" by simp
    then have "uint (if ?x < XidFromFullTransactionId ?n then ?e + 1 else ?e) = ?A div 4294967296"
      using wrap low epoch_of_full [of ?n] by (auto simp: word_less_def uint_plus_if' split: if_splits)
    then have "FullTransactionIdFromEpochAndXid (if ?x < XidFromFullTransactionId ?n then ?e + 1 else ?e) ?x = ?a"
      by (intro full_eqI) (simp add: full_of_epoch low)
    then show ?thesis
      using False order by (simp add: AdvanceNextFullTransactionIdPastXid_def Let_def)
  qed
qed

theorem epoch_inferred_witness:
  "AdvanceNextFullTransactionIdPastXid 4 (limits0\<lparr>nextFullXid := \<lparr>fxid_value = 4294967290\<rparr>\<rparr>) =
   limits0\<lparr>nextFullXid := FullTransactionIdAdvance \<lparr>fxid_value = 4294967300\<rparr>\<rparr>"
  using epoch_inferred [of "\<lparr>fxid_value = 4294967300\<rparr>" 4 "limits0\<lparr>nextFullXid := \<lparr>fxid_value = 4294967290\<rparr>\<rparr>"]
  by (simp add: XidFromFullTransactionId_def normal_iff FullTransactionIdPrecedes_def limits0_def)

text \<open>object ids. Each assigned id is a normal one (in single-user mode at least a bootstrap one), and the last
  logged counter, from which a restart resumes, is ahead of it by at most the prefetch: an id is never handed
  out again after a crash before the counter wraps around. The counter and the number of prefetched ids
  stay consistent with what was logged.\<close>

theorem oid_assignment_logged:
  assumes "loggedOid v = nextOid v + oidCount v" "oidCount v \<le> VAR_OID_PREFETCH"
    and "GetNewObjectId False IsPostmasterEnvironment v = Inr (result, v')"
  shows "(if IsPostmasterEnvironment then FirstNormalObjectId else FirstBootstrapObjectId) \<le> result \<and>
    0 < uint (loggedOid v' - result) \<and> loggedOid v' - result \<le> VAR_OID_PREFETCH \<and>
    loggedOid v' = nextOid v' + oidCount v' \<and> oidCount v' \<le> VAR_OID_PREFETCH \<and> nextOid v' = result + 1"
proof -
  define v1 where "v1 = (if nextOid v < FirstNormalObjectId then
                   (if IsPostmasterEnvironment then v\<lparr>nextOid := FirstNormalObjectId, oidCount := 0\<rparr>
                    else if nextOid v < FirstBootstrapObjectId then v\<lparr>nextOid := FirstNormalObjectId, oidCount := 0\<rparr>
                    else v)
                 else v)"
  define v2 where "v2 = (if oidCount v1 = 0 then v1\<lparr>loggedOid := nextOid v1 + VAR_OID_PREFETCH, oidCount := VAR_OID_PREFETCH\<rparr> else v1)"
  have r: "result = nextOid v2" "v' = v2\<lparr>nextOid := nextOid v2 + 1, oidCount := oidCount v2 - 1\<rparr>"
    using assms(3) by (auto simp: GetNewObjectId_def Let_def v1_def [symmetric] v2_def [symmetric])
  have low: "(if IsPostmasterEnvironment then FirstNormalObjectId else FirstBootstrapObjectId) \<le> nextOid v1"
    by (auto simp: v1_def FirstNormalObjectId_def FirstBootstrapObjectId_def word_less_nat_alt word_le_nat_alt)
  have "oidCount v1 = 0 \<or> loggedOid v1 = nextOid v1 + oidCount v1 \<and> oidCount v1 \<le> VAR_OID_PREFETCH"
    using assms(1,2) by (auto simp: v1_def)
  then have two: "loggedOid v2 = nextOid v2 + oidCount v2" "oidCount v2 \<le> VAR_OID_PREFETCH" "oidCount v2 \<noteq> 0" "nextOid v2 = nextOid v1"
    by (auto simp: v2_def VAR_OID_PREFETCH_def)
  have "oidCount v2 - 1 \<le> VAR_OID_PREFETCH"
    using two(2,3) by (simp add: word_le_nat_alt unat_minus_one)
  moreover have "0 < uint (oidCount v2)"
    using two(3) by (simp add: less_le unsigned_eq_0_iff)
  ultimately show ?thesis
    using low two by (simp add: r)
qed

theorem oid_assignment_logged_witness:
  "\<exists>v'. GetNewObjectId False True (limits0\<lparr>nextOid := 0\<rparr>) = Inr (16384, v') \<and> loggedOid v' = 16385 + oidCount v'"
  using oid_assignment_logged [of "limits0\<lparr>nextOid := 0\<rparr>" True 16384]
  by (simp add: GetNewObjectId_def Let_def limits0_def FirstNormalObjectId_def VAR_OID_PREFETCH_def)

end
