(* ===== verification/Xact.thy ===== *)
theory Xact
  imports Varsup
begin

text \<open>
  Transactions and transaction blocks of one backend (\<^verbatim>\<open>src/backend/access/transam/xact.c\<close>). The
  stack of \<^verbatim>\<open>TransactionStateData\<close> is a list with the current entry first and
  \<^verbatim>\<open>TopTransactionStateData\<close> last. Every routine maps the state to an outcome and the
  state it leaves behind, also when it raises an error, since \<^verbatim>\<open>AbortCurrentTransaction\<close> then
  starts from there. Recording an outcome updates the commit log and the process array
  of the other theories. WAL is represented by its end position. Memory contexts, resource owners (but for their existence),
  locks, triggers, cursors, GUC and the other subsystems called at the end of a transaction are
  not modelled; that such a call may fail before the commit takes effect is the flag
  \<open>deferredError\<close>. Warnings are left out.
\<close>

section \<open>State\<close>

datatype TransState = TRANS_DEFAULT | TRANS_START | TRANS_INPROGRESS | TRANS_COMMIT | TRANS_ABORT | TRANS_PREPARE

datatype TBlockState = TBLOCK_DEFAULT | TBLOCK_STARTED
  | TBLOCK_BEGIN | TBLOCK_INPROGRESS | TBLOCK_IMPLICIT_INPROGRESS | TBLOCK_PARALLEL_INPROGRESS | TBLOCK_END
  | TBLOCK_ABORT | TBLOCK_ABORT_END | TBLOCK_ABORT_PENDING | TBLOCK_PREPARE
  | TBLOCK_SUBBEGIN | TBLOCK_SUBINPROGRESS | TBLOCK_SUBRELEASE | TBLOCK_SUBCOMMIT | TBLOCK_SUBABORT
  | TBLOCK_SUBABORT_END | TBLOCK_SUBABORT_PENDING | TBLOCK_SUBRESTART | TBLOCK_SUBABORT_RESTART

type_synonym SubTransactionId = uint32

record TransactionStateData =
  fullTransactionId :: FullTransactionId
  subTransactionId :: SubTransactionId
  spname :: "string option"
  savepointLevel :: int
  trans_state :: TransState
  blockState :: TBlockState
  nestingLevel :: nat
  childXids :: "TransactionId list"
  prevXactReadOnly :: bool
  startedInRecovery :: bool
  didLogXid :: bool
  parallelModeLevel :: nat
  chain :: bool
  curTransactionOwner :: bool

record xact =
  stack :: "TransactionStateData list"
  currentSubTransactionId :: SubTransactionId
  currentCommandId :: CommandId
  currentCommandIdUsed :: bool
  XactTopFullTransactionId :: FullTransactionId
  ParallelCurrentXids :: "TransactionId list"
  unreportedXids :: "TransactionId list"
  prepareGID :: "string option"
  forceSyncCommit :: bool
  XactReadOnly :: bool
  XactDeferrable :: bool
  XactIsoLevel :: nat
  save_XactReadOnly :: bool
  save_XactDeferrable :: bool
  save_XactIsoLevel :: nat
  XactLastRecEnd :: XLogRecPtr
  walEnd :: XLogRecPtr
  pendingDeletes :: nat
  FirstSnapshotSet :: bool
  deferredError :: bool
  nextLocalTransactionId :: uint32
  fetchCache :: fetch_cache
  backend :: backend_vars
  xsys :: xid_system

text \<open>What a backend finds in its surroundings. \<open>markAsPreparing\<close> tells whether two-phase commit accepts the id and the
  name; \<open>recordLength\<close> is the length of a commit or abort record; \<open>othersMeanwhile\<close> is what other backends do to the shared memory while
  \<^verbatim>\<open>GetNewTransactionId\<close> has released its lock.\<close>

record config =
  DefaultXactReadOnly :: bool
  DefaultXactDeferrable :: bool
  DefaultXactIsoLevel :: nat
  RecoveryInProgress :: bool
  IsUnderPostmaster :: bool
  IsParallelWorker :: bool
  XLogStandbyInfoActive :: bool
  XLogLogicalInfoActive :: bool
  synchronousCommit :: bool
  recordLength :: XLogRecPtr
  markAsPreparing :: "TransactionId \<Rightarrow> string option \<Rightarrow> bool"
  othersMeanwhile :: "xid_system \<Rightarrow> xid_system"

definition TopSubTransactionId :: SubTransactionId where "TopSubTransactionId = 1"
definition InvalidSubTransactionId :: SubTransactionId where "InvalidSubTransactionId = 0"
definition FirstCommandId :: CommandId where "FirstCommandId = 0"
definition InvalidCommandId :: CommandId where "InvalidCommandId = NOT 0"
definition InvalidFullTransactionId :: FullTransactionId where "InvalidFullTransactionId = \<lparr>fxid_value = 0\<rparr>"
definition MaxAllocSize :: nat where "MaxAllocSize = 0x3fffffff"

section \<open>Outcomes\<close>

datatype elevel = ERROR | FATAL | PANIC

datatype xact_reason = UnexpectedState | ParallelOperation | NoActiveTransaction | ActiveTransaction
  | SavepointNotExist | SavepointOtherLevel | TooManySubtransactions | TooManyCommands | TooManyChildren
  | AlreadyCommitted | NoReturn | NoParent | CommitWithoutXid | DeferredFailure | PrepareRefused
  | XidError varsup_error | InFailedTransaction | ReadOnlyRecovery | StatementFailed

datatype xact_error = Xerror elevel xact_reason

type_synonym 'a xm = "xact \<Rightarrow> (xact_error + 'a) \<times> xact"

definition ret :: "'a \<Rightarrow> 'a xm" where "ret a s = (Inr a, s)"
definition raise :: "elevel \<Rightarrow> xact_reason \<Rightarrow> 'a xm" where "raise l r s = (Inl (Xerror l r), s)"
definition modify :: "(xact \<Rightarrow> xact) \<Rightarrow> unit xm" where "modify f s = (Inr (), f s)"

definition xbind :: "'a xm \<Rightarrow> ('a \<Rightarrow> 'b xm) \<Rightarrow> 'b xm" where
  "xbind m f s = (case m s of (Inl e, s') \<Rightarrow> (Inl e, s') | (Inr a, s') \<Rightarrow> f a s')"

definition xthen :: "unit xm \<Rightarrow> 'b xm \<Rightarrow> 'b xm" where
  "xthen m k s = (case m s of (Inl e, s') \<Rightarrow> (Inl e, s') | (Inr _, s') \<Rightarrow> k s')"

fun seq :: "unit xm list \<Rightarrow> unit xm" where
  "seq [] = ret ()"
| "seq (m # ms) = xthen m (seq ms)"

lemma xthen_cong [fundef_cong]:
  assumes "m s = m' s'" "\<And>s1. m' s' = (Inr (), s1) \<Longrightarrow> k s1 = k' s1"
  shows "xthen m k s = xthen m' k' s'"
  using assms by (auto simp: xthen_def split: prod.splits sum.splits)

section \<open>Accessors\<close>

definition cur :: "xact \<Rightarrow> TransactionStateData" where "cur s = hd (stack s)"

definition upd_cur :: "(TransactionStateData \<Rightarrow> TransactionStateData) \<Rightarrow> xact \<Rightarrow> xact" where
  "upd_cur f s = s\<lparr>stack := (case stack s of [] \<Rightarrow> [] | t # ts \<Rightarrow> f t # ts)\<rparr>"

definition upd_frame :: "nat \<Rightarrow> (TransactionStateData \<Rightarrow> TransactionStateData) \<Rightarrow> xact \<Rightarrow> xact" where
  "upd_frame i f s = s\<lparr>stack := (stack s)[i := f (stack s ! i)]\<rparr>"

definition set_block :: "TBlockState \<Rightarrow> xact \<Rightarrow> xact" where
  "set_block b = upd_cur (\<lambda>t. t\<lparr>blockState := b\<rparr>)"

definition set_state :: "TransState \<Rightarrow> xact \<Rightarrow> xact" where
  "set_state st = upd_cur (\<lambda>t. t\<lparr>trans_state := st\<rparr>)"

definition IsTransactionState :: "xact \<Rightarrow> bool" where
  "IsTransactionState s \<longleftrightarrow> trans_state (cur s) = TRANS_INPROGRESS"

definition IsAbortedTransactionBlockState :: "xact \<Rightarrow> bool" where
  "IsAbortedTransactionBlockState s \<longleftrightarrow> blockState (cur s) = TBLOCK_ABORT \<or> blockState (cur s) = TBLOCK_SUBABORT"

definition GetCurrentTransactionIdIfAny :: "xact \<Rightarrow> TransactionId" where
  "GetCurrentTransactionIdIfAny s = XidFromFullTransactionId (fullTransactionId (cur s))"

definition GetTopTransactionIdIfAny :: "xact \<Rightarrow> TransactionId" where
  "GetTopTransactionIdIfAny s = XidFromFullTransactionId (XactTopFullTransactionId s)"

definition IsInParallelMode :: "xact \<Rightarrow> bool" where
  "IsInParallelMode s \<longleftrightarrow> parallelModeLevel (cur s) \<noteq> 0"

definition EnterParallelMode :: "xact \<Rightarrow> xact" where
  "EnterParallelMode = upd_cur (\<lambda>t. t\<lparr>parallelModeLevel := parallelModeLevel t + 1\<rparr>)"

definition ExitParallelMode :: "xact \<Rightarrow> xact" where
  "ExitParallelMode = upd_cur (\<lambda>t. t\<lparr>parallelModeLevel := parallelModeLevel t - 1\<rparr>)"

definition GetCurrentTransactionNestLevel :: "xact \<Rightarrow> nat" where
  "GetCurrentTransactionNestLevel s = nestingLevel (cur s)"

definition SubTransactionIsActive :: "SubTransactionId \<Rightarrow> xact \<Rightarrow> bool" where
  "SubTransactionIsActive subxid s \<longleftrightarrow>
     list_ex (\<lambda>t. trans_state t \<noteq> TRANS_ABORT \<and> subTransactionId t = subxid) (stack s)"

definition MarkCurrentTransactionIdLoggedIfAny :: "xact \<Rightarrow> xact" where
  "MarkCurrentTransactionIdLoggedIfAny s =
     (if FullTransactionIdIsValid (fullTransactionId (cur s)) then upd_cur (\<lambda>t. t\<lparr>didLogXid := True\<rparr>) s else s)"

definition GetCurrentCommandId :: "bool \<Rightarrow> xact \<Rightarrow> CommandId \<times> xact" where
  "GetCurrentCommandId used s = (currentCommandId s, if used then s\<lparr>currentCommandIdUsed := True\<rparr> else s)"

text \<open>The two binary searches of \<^verbatim>\<open>TransactionIdIsCurrentTransactionId\<close>: plain order in a parallel worker's
  array, circular order in the arrays of child ids.\<close>

fun current_in_stack :: "TransactionId \<Rightarrow> TransactionStateData list \<Rightarrow> bool" where
  "current_in_stack xid [] = False"
| "current_in_stack xid (t # ts) =
     (if trans_state t = TRANS_ABORT then current_in_stack xid ts
      else if \<not> FullTransactionIdIsValid (fullTransactionId t) then current_in_stack xid ts
      else if xid = XidFromFullTransactionId (fullTransactionId t) then True
      else if binsearch (\<lambda>probe. probe = xid) (\<lambda>probe. TransactionIdPrecedes probe xid) (childXids t) 0 (int (length (childXids t)) - 1)
      then True
      else current_in_stack xid ts)"

definition TransactionIdIsCurrentTransactionId :: "xact \<Rightarrow> TransactionId \<Rightarrow> bool" where
  "TransactionIdIsCurrentTransactionId s xid =
     (if \<not> TransactionIdIsNormal xid then False
      else if length (ParallelCurrentXids s) > 0 then
        binsearch (\<lambda>probe. probe = xid) (\<lambda>probe. probe < xid) (ParallelCurrentXids s) 0 (int (length (ParallelCurrentXids s)) - 1)
      else current_in_stack xid (stack s))"

section \<open>Assigning transaction ids\<close>

text \<open>\<^verbatim>\<open>AssignTransactionId\<close> for entry \<open>i\<close> of the stack, whose parent has an id.\<close>

definition new_xid :: "config \<Rightarrow> bool \<Rightarrow> FullTransactionId xm" where
  "new_xid cf isSubXact s =
     (case GetNewTransactionId (IsInParallelMode s) False (RecoveryInProgress cf) (IsUnderPostmaster cf)
             (othersMeanwhile cf) (MyProc (backend s)) isSubXact (xsys s) of
        Inl e \<Rightarrow> raise ERROR (XidError e) s
      | Inr (full, y) \<Rightarrow> (Inr full, s\<lparr>xsys := y\<rparr>))"

definition report_xid :: "config \<Rightarrow> TransactionId \<Rightarrow> bool \<Rightarrow> xact \<Rightarrow> xact" where
  "report_xid cf xid log_unknown_top s =
     (if XLogStandbyInfoActive cf then
        let s = s\<lparr>unreportedXids := unreportedXids s @ [xid]\<rparr>
        in if length (unreportedXids s) \<ge> PGPROC_MAX_CACHED_SUBXIDS \<or> log_unknown_top
           then upd_frame (length (stack s) - 1) (\<lambda>t. t\<lparr>didLogXid := True\<rparr>)
                  (s\<lparr>unreportedXids := [], walEnd := walEnd s + recordLength cf, XactLastRecEnd := walEnd s + recordLength cf\<rparr>)
           else s
      else s)"

definition assign_frame :: "config \<Rightarrow> nat \<Rightarrow> unit xm" where
  "assign_frame cf i s =
     (let isSubXact = i + 1 < length (stack s);
          log_unknown_top = (isSubXact \<and> XLogLogicalInfoActive cf \<and> \<not> didLogXid (last (stack s)))
      in if IsInParallelMode s \<or> IsParallelWorker cf then raise ERROR ParallelOperation s
         else xbind (new_xid cf isSubXact) (\<lambda>full s.
           let s = upd_frame i (\<lambda>t. t\<lparr>fullTransactionId := full\<rparr>) s; xid = XidFromFullTransactionId full
           in if \<not> isSubXact then ret () (s\<lparr>XactTopFullTransactionId := full\<rparr>)
              else
                let parent = XidFromFullTransactionId (fullTransactionId (stack s ! (i + 1)));
                    s = s\<lparr>xsys := (xsys s)\<lparr>pg_subtrans := SubTransSetParent xid parent (pg_subtrans (xsys s))\<rparr>\<rparr>
                in ret () (report_xid cf xid log_unknown_top s)) s)"

text \<open>Parents without an id come first, from the outermost one down.\<close>

definition AssignTransactionId :: "config \<Rightarrow> nat \<Rightarrow> unit xm" where
  "AssignTransactionId cf i s =
     (if IsInParallelMode s \<or> IsParallelWorker cf then raise ERROR ParallelOperation s
      else
        let parents = takeWhile (\<lambda>t. \<not> FullTransactionIdIsValid (fullTransactionId t)) (drop (i + 1) (stack s))
        in seq (map (assign_frame cf) (rev [i ..< i + 1 + length parents])) s)"

definition GetCurrentTransactionId :: "config \<Rightarrow> TransactionId xm" where
  "GetCurrentTransactionId cf =
     xbind (\<lambda>s. if \<not> FullTransactionIdIsValid (fullTransactionId (cur s)) then AssignTransactionId cf 0 s else ret () s)
       (\<lambda>_ s. (Inr (XidFromFullTransactionId (fullTransactionId (cur s))), s))"

definition GetTopTransactionId :: "config \<Rightarrow> TransactionId xm" where
  "GetTopTransactionId cf =
     xbind (\<lambda>s. if \<not> FullTransactionIdIsValid (XactTopFullTransactionId s) then AssignTransactionId cf (length (stack s) - 1) s else ret () s)
       (\<lambda>_ s. (Inr (XidFromFullTransactionId (XactTopFullTransactionId s)), s))"

section \<open>Subtransactions\<close>

definition CommandCounterIncrement :: "config \<Rightarrow> unit xm" where
  "CommandCounterIncrement cf s =
     (if currentCommandIdUsed s then
        if IsInParallelMode s \<or> IsParallelWorker cf then raise ERROR ParallelOperation s
        else if currentCommandId s + 1 = InvalidCommandId then raise ERROR TooManyCommands s
        else (Inr (), s\<lparr>currentCommandId := currentCommandId s + 1, currentCommandIdUsed := False\<rparr>)
      else (Inr (), s))"

definition PushTransaction :: "unit xm" where
  "PushTransaction s =
     (let p = cur s; subid = currentSubTransactionId s + 1
      in if subid = InvalidSubTransactionId then raise ERROR TooManySubtransactions s
         else (Inr (), s\<lparr>currentSubTransactionId := subid,
           stack := \<lparr>fullTransactionId = InvalidFullTransactionId, subTransactionId = subid, spname = None,
                     savepointLevel = savepointLevel p, trans_state = TRANS_DEFAULT, blockState = TBLOCK_SUBBEGIN,
                     nestingLevel = nestingLevel p + 1, childXids = [], prevXactReadOnly = XactReadOnly s,
                     startedInRecovery = False, didLogXid = False, parallelModeLevel = 0, chain = False,
                     curTransactionOwner = False\<rparr> # stack s\<rparr>))"

definition PopTransaction :: "unit xm" where
  "PopTransaction s =
     (case stack s of t # p # ts \<Rightarrow> (Inr (), s\<lparr>stack := p # ts\<rparr>) | _ \<Rightarrow> raise FATAL NoParent s)"

definition StartSubTransaction :: "xact \<Rightarrow> xact" where
  "StartSubTransaction = upd_cur (\<lambda>t. t\<lparr>curTransactionOwner := True, trans_state := TRANS_INPROGRESS\<rparr>)"

definition AtSubCommit_childXids :: "unit xm" where
  "AtSubCommit_childXids s =
     (case stack s of
        t # p # ts \<Rightarrow>
          (if length (childXids p) + length (childXids t) + 1 > MaxAllocSize div 4 then raise ERROR TooManyChildren s
           else (Inr (), s\<lparr>stack := t\<lparr>childXids := []\<rparr> #
             p\<lparr>childXids := childXids p @ XidFromFullTransactionId (fullTransactionId t) # childXids t\<rparr> # ts\<rparr>))
      | _ \<Rightarrow> raise FATAL NoParent s)"

definition CommitSubTransaction :: "config \<Rightarrow> unit xm" where
  "CommitSubTransaction cf = seq [
     modify (upd_cur (\<lambda>t. t\<lparr>parallelModeLevel := 0, trans_state := TRANS_COMMIT\<rparr>)),
     CommandCounterIncrement cf,
     (\<lambda>s. if FullTransactionIdIsValid (fullTransactionId (cur s)) then AtSubCommit_childXids s else ret () s),
     modify (\<lambda>s. s\<lparr>XactReadOnly := prevXactReadOnly (cur s)\<rparr>),
     modify (upd_cur (\<lambda>t. t\<lparr>curTransactionOwner := False, trans_state := TRANS_DEFAULT\<rparr>)),
     PopTransaction]"

text \<open>The test of \<^verbatim>\<open>TransactionIdDidCommit\<close> may not return if the parent links are corrupted.\<close>

definition RecordTransactionAbort :: "config \<Rightarrow> bool \<Rightarrow> TransactionId xm" where
  "RecordTransactionAbort cf isSubXact s =
     (let xid = GetCurrentTransactionIdIfAny s; y = xsys s; children = childXids (cur s)
      in if \<not> TransactionIdIsValid xid then
           (Inr InvalidTransactionId, if isSubXact then s else s\<lparr>XactLastRecEnd := 0\<rparr>)
         else case TransactionIdDidCommit (pg_xact y) (pg_subtrans y) (TransactionXmin (backend s)) (fetchCache s) xid of
           None \<Rightarrow> raise PANIC NoReturn s
         | Some (True, cache) \<Rightarrow> raise PANIC AlreadyCommitted (s\<lparr>fetchCache := cache\<rparr>)
         | Some (False, cache) \<Rightarrow>
             (let latestXid = TransactionIdLatest xid children
              in (Inr latestXid,
                  s\<lparr>fetchCache := cache, walEnd := walEnd s + recordLength cf,
                    XactLastRecEnd := (if isSubXact then walEnd s + recordLength cf else 0),
                    xsys := y\<lparr>pg_xact := TransactionIdAbortTree False xid children (pg_xact y),
                      parray := (if isSubXact
                                 then XidCacheRemoveRunningXids (MyProc (backend s)) xid children latestXid (parray y)
                                 else parray y)\<rparr>\<rparr>)))"

definition AtSubAbort_childXids :: "xact \<Rightarrow> xact" where
  "AtSubAbort_childXids = upd_cur (\<lambda>t. t\<lparr>childXids := []\<rparr>)"

definition AbortSubTransaction :: "config \<Rightarrow> unit xm" where
  "AbortSubTransaction cf = seq [
     modify (upd_cur (\<lambda>t. t\<lparr>trans_state := TRANS_ABORT, parallelModeLevel := 0\<rparr>)),
     (\<lambda>s. if curTransactionOwner (cur s) then
        xbind (RecordTransactionAbort cf True) (\<lambda>_ s.
          ret () (if FullTransactionIdIsValid (fullTransactionId (cur s)) then AtSubAbort_childXids s else s)) s
      else ret () s),
     modify (\<lambda>s. s\<lparr>XactReadOnly := prevXactReadOnly (cur s)\<rparr>)]"

definition CleanupSubTransaction :: "unit xm" where
  "CleanupSubTransaction = seq [
     modify (upd_cur (\<lambda>t. t\<lparr>curTransactionOwner := False, trans_state := TRANS_DEFAULT\<rparr>)),
     PopTransaction]"

section \<open>Top-level transactions\<close>

definition GetNextLocalTransactionId :: "xact \<Rightarrow> uint32 \<times> xact" where
  "GetNextLocalTransactionId s =
     (let r = nextLocalTransactionId s
      in if r = InvalidLocalTransactionId then (r + 1, s\<lparr>nextLocalTransactionId := r + 2\<rparr>)
         else (r, s\<lparr>nextLocalTransactionId := r + 1\<rparr>))"

definition StartTransaction :: "config \<Rightarrow> xact \<Rightarrow> xact" where
  "StartTransaction cf s =
     (let s = s\<lparr>stack := [(last (stack s))\<lparr>trans_state := TRANS_START, fullTransactionId := InvalidFullTransactionId,
                  nestingLevel := 1, childXids := [], startedInRecovery := RecoveryInProgress cf,
                  subTransactionId := TopSubTransactionId, didLogXid := False, curTransactionOwner := True\<rparr>],
                XactReadOnly := (if RecoveryInProgress cf then True else DefaultXactReadOnly cf),
                XactDeferrable := DefaultXactDeferrable cf, XactIsoLevel := DefaultXactIsoLevel cf, forceSyncCommit := False,
                currentSubTransactionId := TopSubTransactionId, currentCommandId := FirstCommandId, currentCommandIdUsed := False,
                unreportedXids := []\<rparr>;
          (lx, s) = GetNextLocalTransactionId s;
          me = MyProc (backend s); pa = parray (xsys s);
          s = s\<lparr>xsys := (xsys s)\<lparr>parray := pa\<lparr>allProcs := (allProcs pa)(me := (allProcs pa me)\<lparr>lxid := lx\<rparr>)\<rparr>\<rparr>\<rparr>
      in set_state TRANS_INPROGRESS s)"

definition RecordTransactionCommit :: "config \<Rightarrow> TransactionId xm" where
  "RecordTransactionCommit cf s =
     (let xid = GetTopTransactionIdIfAny s; markXidCommitted = TransactionIdIsValid xid;
          children = childXids (cur s); nrels = pendingDeletes s; wrote_xlog = (XactLastRecEnd s \<noteq> 0);
          latestXid = TransactionIdLatest xid children; y = xsys s
      in if \<not> markXidCommitted then
           (if nrels \<noteq> 0 then raise ERROR CommitWithoutXid s
            else if \<not> wrote_xlog then (Inr InvalidTransactionId, s)
            else (Inr latestXid, s\<lparr>XactLastRecEnd := 0\<rparr>))
         else
           let lsn = walEnd s + recordLength cf;
               tree = (if wrote_xlog \<and> synchronousCommit cf \<or> forceSyncCommit s \<or> nrels > 0
                       then TransactionIdCommitTree False xid children
                       else TransactionIdAsyncCommitTree False xid children lsn)
           in (Inr latestXid, s\<lparr>walEnd := lsn, XactLastRecEnd := 0, xsys := y\<lparr>pg_xact := tree (pg_xact y)\<rparr>\<rparr>))"

definition end_in_procarray :: "TransactionId \<Rightarrow> xact \<Rightarrow> xact" where
  "end_in_procarray latestXid s =
     s\<lparr>xsys := (xsys s)\<lparr>parray := ProcArrayEndTransaction (MyProc (backend s)) latestXid (parray (xsys s))\<rparr>\<rparr>"

text \<open>The reset of the top-level entry and of the snapshots, which ends \<^verbatim>\<open>CommitTransaction\<close>, \<^verbatim>\<open>PrepareTransaction\<close> and \<^verbatim>\<open>CleanupTransaction\<close>.\<close>

definition reset_top :: "xact \<Rightarrow> xact" where
  "reset_top s = upd_cur (\<lambda>t. t\<lparr>curTransactionOwner := False, fullTransactionId := InvalidFullTransactionId,
       subTransactionId := InvalidSubTransactionId, nestingLevel := 0, childXids := [], trans_state := TRANS_DEFAULT\<rparr>)
     (s\<lparr>XactTopFullTransactionId := InvalidFullTransactionId, ParallelCurrentXids := [],
        FirstSnapshotSet := False\<rparr>)"

definition CommitTransaction :: "config \<Rightarrow> unit xm" where
  "CommitTransaction cf s =
     (let is_parallel_worker = (blockState (cur s) = TBLOCK_PARALLEL_INPROGRESS)
      in seq [
        modify (\<lambda>s. if is_parallel_worker then EnterParallelMode s else s),
        (\<lambda>s. if deferredError s then raise ERROR DeferredFailure s else ret () s),
        modify (upd_cur (\<lambda>t. t\<lparr>trans_state := TRANS_COMMIT, parallelModeLevel := 0\<rparr>)),
        xbind (if is_parallel_worker then ret InvalidTransactionId else RecordTransactionCommit cf)
          (\<lambda>latestXid. modify (end_in_procarray latestXid)),
        modify (\<lambda>s. reset_top (s\<lparr>pendingDeletes := 0\<rparr>))] s)"

definition PrepareTransaction :: "config \<Rightarrow> unit xm" where
  "PrepareTransaction cf = xbind (GetCurrentTransactionId cf) (\<lambda>xid. seq [
     (\<lambda>s. if deferredError s then raise ERROR DeferredFailure s else ret () s),
     modify (set_state TRANS_PREPARE),
     (\<lambda>s. if markAsPreparing cf xid (prepareGID s) then ret () (s\<lparr>prepareGID := None\<rparr>) else raise ERROR PrepareRefused s),
     modify (\<lambda>s. s\<lparr>XactLastRecEnd := 0,
        xsys := (xsys s)\<lparr>parray := ProcArrayClearTransaction (MyProc (backend s)) (parray (xsys s))\<rparr>\<rparr>),
     modify (\<lambda>s. reset_top (s\<lparr>pendingDeletes := 0\<rparr>))])"

definition AbortTransaction :: "config \<Rightarrow> unit xm" where
  "AbortTransaction cf s =
     (let is_parallel_worker = (blockState (cur s) = TBLOCK_PARALLEL_INPROGRESS)
      in seq [
        modify (upd_cur (\<lambda>t. t\<lparr>trans_state := TRANS_ABORT, parallelModeLevel := 0\<rparr>)),
        modify (\<lambda>s. s\<lparr>deferredError := False, pendingDeletes := 0\<rparr>),
        xbind (if is_parallel_worker then ret InvalidTransactionId else RecordTransactionAbort cf False)
          (\<lambda>latestXid. modify (end_in_procarray latestXid))] s)"

definition CleanupTransaction :: "unit xm" where
  "CleanupTransaction s =
     (if trans_state (cur s) \<noteq> TRANS_ABORT then raise FATAL UnexpectedState s
      else (Inr (), upd_cur (\<lambda>t. t\<lparr>parallelModeLevel := 0\<rparr>) (reset_top s)))"

section \<open>Commands\<close>

definition SaveTransactionCharacteristics :: "xact \<Rightarrow> xact" where
  "SaveTransactionCharacteristics s =
     s\<lparr>save_XactIsoLevel := XactIsoLevel s, save_XactReadOnly := XactReadOnly s, save_XactDeferrable := XactDeferrable s\<rparr>"

definition RestoreTransactionCharacteristics :: "xact \<Rightarrow> xact" where
  "RestoreTransactionCharacteristics s =
     s\<lparr>XactIsoLevel := save_XactIsoLevel s, XactReadOnly := save_XactReadOnly s, XactDeferrable := save_XactDeferrable s\<rparr>"

fun StartTransactionCommand :: "config \<Rightarrow> unit xm" where
  "StartTransactionCommand cf s =
     (case blockState (cur s) of
        TBLOCK_DEFAULT \<Rightarrow> (Inr (), set_block TBLOCK_STARTED (StartTransaction cf s))
      | TBLOCK_INPROGRESS \<Rightarrow> ret () s
      | TBLOCK_IMPLICIT_INPROGRESS \<Rightarrow> ret () s
      | TBLOCK_SUBINPROGRESS \<Rightarrow> ret () s
      | TBLOCK_ABORT \<Rightarrow> ret () s
      | TBLOCK_SUBABORT \<Rightarrow> ret () s
      | _ \<Rightarrow> raise ERROR UnexpectedState s)"

definition DefineSavepoint :: "string option \<Rightarrow> unit xm" where
  "DefineSavepoint name s =
     (if IsInParallelMode s then raise ERROR ParallelOperation s
      else case blockState (cur s) of
        TBLOCK_INPROGRESS \<Rightarrow> xthen PushTransaction (modify (upd_cur (\<lambda>t. t\<lparr>spname := name\<rparr>))) s
      | TBLOCK_SUBINPROGRESS \<Rightarrow> xthen PushTransaction (modify (upd_cur (\<lambda>t. t\<lparr>spname := name\<rparr>))) s
      | TBLOCK_IMPLICIT_INPROGRESS \<Rightarrow> raise ERROR NoActiveTransaction s
      | _ \<Rightarrow> raise FATAL UnexpectedState s)"

text \<open>\<^verbatim>\<open>COMMIT AND CHAIN\<close>, \<^verbatim>\<open>ROLLBACK AND CHAIN\<close>: what follows the end of the old transaction.\<close>

definition finish_chain :: "config \<Rightarrow> xact \<Rightarrow> xact" where
  "finish_chain cf s =
     (let s = set_block TBLOCK_DEFAULT s
      in if chain (cur s) then
           RestoreTransactionCharacteristics
             (upd_cur (\<lambda>t. t\<lparr>chain := False\<rparr>) (set_block TBLOCK_INPROGRESS (StartTransaction cf s)))
         else s)"

text \<open>The second half of the \<^verbatim>\<open>SUBRESTART\<close> cases: a new subtransaction under the old name.\<close>

definition restart_savepoint :: "string option \<Rightarrow> int \<Rightarrow> unit xm" where
  "restart_savepoint name level = seq [DefineSavepoint None,
     modify (upd_cur (\<lambda>t. t\<lparr>spname := name, savepointLevel := level\<rparr>)),
     modify StartSubTransaction, modify (set_block TBLOCK_SUBINPROGRESS)]"

lemmas xm_defs = ret_def raise_def modify_def xbind_def xthen_def

lemma length_stack [simp]:
  "length (stack (upd_cur f s)) = length (stack s)" "length (stack (upd_frame i f s)) = length (stack s)"
  by (simp_all add: upd_cur_def upd_frame_def split: list.splits)

lemma pop_length: "PopTransaction s = (Inr u, s') \<Longrightarrow> length (stack s) = Suc (length (stack s'))"
  by (auto simp: PopTransaction_def raise_def split: list.splits)

lemma childXids_length: "AtSubCommit_childXids s = (r, s') \<Longrightarrow> length (stack s') = length (stack s)"
  by (auto simp: AtSubCommit_childXids_def raise_def split: list.splits if_splits)

lemma command_counter_stack: "CommandCounterIncrement cf s = (r, s') \<Longrightarrow> stack s' = stack s"
  by (auto simp: CommandCounterIncrement_def raise_def split: if_splits)

lemma record_abort_stack: "RecordTransactionAbort cf b s = (r, s') \<Longrightarrow> stack s' = stack s"
  by (auto simp: RecordTransactionAbort_def raise_def Let_def split: if_splits option.splits bool.splits)

lemma commit_sub_length:
  "CommitSubTransaction cf s = (Inr u, s') \<Longrightarrow> length (stack s) = Suc (length (stack s'))"
  by (auto simp: CommitSubTransaction_def xm_defs dest!: pop_length childXids_length command_counter_stack
      split: prod.splits sum.splits if_splits)

lemma abort_sub_length:
  "AbortSubTransaction cf s = (Inr u, s') \<Longrightarrow> length (stack s') = length (stack s)"
  by (auto simp: AbortSubTransaction_def AtSubAbort_childXids_def xm_defs dest!: record_abort_stack
      split: prod.splits sum.splits if_splits)

lemma cleanup_sub_length:
  "CleanupSubTransaction s = (Inr u, s') \<Longrightarrow> length (stack s) = Suc (length (stack s'))"
  by (auto simp: CleanupSubTransaction_def xm_defs dest!: pop_length split: prod.splits sum.splits)

text \<open>The loop \<^verbatim>\<open>do { CommitSubTransaction(); s = CurrentTransactionState; } while (s->blockState == b)\<close>.\<close>

function commit_subs :: "config \<Rightarrow> TBlockState \<Rightarrow> unit xm" where
  "commit_subs cf b s =
     xthen (CommitSubTransaction cf) (\<lambda>s. if blockState (cur s) = b then commit_subs cf b s else ret () s) s"
  by pat_completeness auto
termination
  by (relation "measure (\<lambda>(cf, b, s). length (stack s))") (auto dest: commit_sub_length)

declare commit_subs.simps [simp del]

function CommitTransactionCommand :: "config \<Rightarrow> unit xm" where
  "CommitTransactionCommand cf s0 =
     (let s = (if chain (cur s0) then SaveTransactionCharacteristics s0 else s0)
      in case blockState (cur s) of
        TBLOCK_DEFAULT \<Rightarrow> raise FATAL UnexpectedState s
      | TBLOCK_PARALLEL_INPROGRESS \<Rightarrow> raise FATAL UnexpectedState s
      | TBLOCK_STARTED \<Rightarrow> xthen (CommitTransaction cf) (modify (set_block TBLOCK_DEFAULT)) s
      | TBLOCK_BEGIN \<Rightarrow> (Inr (), set_block TBLOCK_INPROGRESS s)
      | TBLOCK_INPROGRESS \<Rightarrow> CommandCounterIncrement cf s
      | TBLOCK_IMPLICIT_INPROGRESS \<Rightarrow> CommandCounterIncrement cf s
      | TBLOCK_SUBINPROGRESS \<Rightarrow> CommandCounterIncrement cf s
      | TBLOCK_END \<Rightarrow> xthen (CommitTransaction cf) (modify (finish_chain cf)) s
      | TBLOCK_ABORT \<Rightarrow> ret () s
      | TBLOCK_SUBABORT \<Rightarrow> ret () s
      | TBLOCK_ABORT_END \<Rightarrow> xthen CleanupTransaction (modify (finish_chain cf)) s
      | TBLOCK_ABORT_PENDING \<Rightarrow>
          xthen (AbortTransaction cf) (xthen CleanupTransaction (modify (finish_chain cf))) s
      | TBLOCK_PREPARE \<Rightarrow> xthen (PrepareTransaction cf) (modify (set_block TBLOCK_DEFAULT)) s
      | TBLOCK_SUBBEGIN \<Rightarrow> (Inr (), set_block TBLOCK_SUBINPROGRESS (StartSubTransaction s))
      | TBLOCK_SUBRELEASE \<Rightarrow> commit_subs cf TBLOCK_SUBRELEASE s
      | TBLOCK_SUBCOMMIT \<Rightarrow>
          xthen (commit_subs cf TBLOCK_SUBCOMMIT) (\<lambda>s.
            if blockState (cur s) = TBLOCK_END then xthen (CommitTransaction cf) (modify (set_block TBLOCK_DEFAULT)) s
            else if blockState (cur s) = TBLOCK_PREPARE
            then xthen (PrepareTransaction cf) (modify (set_block TBLOCK_DEFAULT)) s
            else raise ERROR UnexpectedState s) s
      | TBLOCK_SUBABORT_END \<Rightarrow> xthen CleanupSubTransaction (\<lambda>s. CommitTransactionCommand cf s) s
      | TBLOCK_SUBABORT_PENDING \<Rightarrow>
          xthen (AbortSubTransaction cf) (xthen CleanupSubTransaction (\<lambda>s. CommitTransactionCommand cf s)) s
      | TBLOCK_SUBRESTART \<Rightarrow>
          (let name = spname (cur s); level = savepointLevel (cur s);
               s = upd_cur (\<lambda>t. t\<lparr>spname := None\<rparr>) s
           in xthen (AbortSubTransaction cf) (xthen CleanupSubTransaction (restart_savepoint name level)) s)
      | TBLOCK_SUBABORT_RESTART \<Rightarrow>
          (let name = spname (cur s); level = savepointLevel (cur s);
               s = upd_cur (\<lambda>t. t\<lparr>spname := None\<rparr>) s
           in xthen CleanupSubTransaction (restart_savepoint name level) s))"
  by pat_completeness auto
termination
  by (relation "measure (\<lambda>(cf, s). length (stack s))")
    (auto simp: SaveTransactionCharacteristics_def dest!: cleanup_sub_length abort_sub_length split: if_splits)

declare CommitTransactionCommand.simps [simp del]

definition abort_and_clean :: "config \<Rightarrow> unit xm" where
  "abort_and_clean cf = xthen (AbortTransaction cf) CleanupTransaction"

definition abort_idle :: "config \<Rightarrow> unit xm" where
  "abort_idle cf s =
     (if trans_state (cur s) = TRANS_DEFAULT then ret () s
      else abort_and_clean cf (if trans_state (cur s) = TRANS_START then set_state TRANS_INPROGRESS s else s))"

definition abort_to_default :: "config \<Rightarrow> unit xm" where
  "abort_to_default cf = xthen (abort_and_clean cf) (modify (set_block TBLOCK_DEFAULT))"

function AbortCurrentTransaction :: "config \<Rightarrow> unit xm" where
  "AbortCurrentTransaction cf s =
     (case blockState (cur s) of
        TBLOCK_DEFAULT \<Rightarrow> abort_idle cf s
      | TBLOCK_STARTED \<Rightarrow> abort_to_default cf s
      | TBLOCK_IMPLICIT_INPROGRESS \<Rightarrow> abort_to_default cf s
      | TBLOCK_BEGIN \<Rightarrow> abort_to_default cf s
      | TBLOCK_INPROGRESS \<Rightarrow> xthen (AbortTransaction cf) (modify (set_block TBLOCK_ABORT)) s
      | TBLOCK_PARALLEL_INPROGRESS \<Rightarrow> xthen (AbortTransaction cf) (modify (set_block TBLOCK_ABORT)) s
      | TBLOCK_END \<Rightarrow> abort_to_default cf s
      | TBLOCK_ABORT \<Rightarrow> ret () s
      | TBLOCK_SUBABORT \<Rightarrow> ret () s
      | TBLOCK_ABORT_END \<Rightarrow> xthen CleanupTransaction (modify (set_block TBLOCK_DEFAULT)) s
      | TBLOCK_ABORT_PENDING \<Rightarrow> abort_to_default cf s
      | TBLOCK_PREPARE \<Rightarrow> abort_to_default cf s
      | TBLOCK_SUBINPROGRESS \<Rightarrow> xthen (AbortSubTransaction cf) (modify (set_block TBLOCK_SUBABORT)) s
      | TBLOCK_SUBBEGIN \<Rightarrow> xthen (AbortSubTransaction cf) (xthen CleanupSubTransaction (\<lambda>s. AbortCurrentTransaction cf s)) s
      | TBLOCK_SUBRELEASE \<Rightarrow> xthen (AbortSubTransaction cf) (xthen CleanupSubTransaction (\<lambda>s. AbortCurrentTransaction cf s)) s
      | TBLOCK_SUBCOMMIT \<Rightarrow> xthen (AbortSubTransaction cf) (xthen CleanupSubTransaction (\<lambda>s. AbortCurrentTransaction cf s)) s
      | TBLOCK_SUBABORT_PENDING \<Rightarrow> xthen (AbortSubTransaction cf) (xthen CleanupSubTransaction (\<lambda>s. AbortCurrentTransaction cf s)) s
      | TBLOCK_SUBRESTART \<Rightarrow> xthen (AbortSubTransaction cf) (xthen CleanupSubTransaction (\<lambda>s. AbortCurrentTransaction cf s)) s
      | TBLOCK_SUBABORT_END \<Rightarrow> xthen CleanupSubTransaction (\<lambda>s. AbortCurrentTransaction cf s) s
      | TBLOCK_SUBABORT_RESTART \<Rightarrow> xthen CleanupSubTransaction (\<lambda>s. AbortCurrentTransaction cf s) s)"
  by pat_completeness auto
termination
  by (relation "measure (\<lambda>(cf, s). length (stack s))") (auto dest!: cleanup_sub_length abort_sub_length)

declare AbortCurrentTransaction.simps [simp del]

text \<open>The loop ends after a top-level entry, whose block state is then \<^verbatim>\<open>TBLOCK_DEFAULT\<close>.\<close>

function AbortOutOfAnyTransaction :: "config \<Rightarrow> unit xm" where
  "AbortOutOfAnyTransaction cf s =
     (case blockState (cur s) of
        TBLOCK_DEFAULT \<Rightarrow> abort_idle cf s
      | TBLOCK_STARTED \<Rightarrow> abort_to_default cf s
      | TBLOCK_BEGIN \<Rightarrow> abort_to_default cf s
      | TBLOCK_INPROGRESS \<Rightarrow> abort_to_default cf s
      | TBLOCK_IMPLICIT_INPROGRESS \<Rightarrow> abort_to_default cf s
      | TBLOCK_PARALLEL_INPROGRESS \<Rightarrow> abort_to_default cf s
      | TBLOCK_END \<Rightarrow> abort_to_default cf s
      | TBLOCK_ABORT_PENDING \<Rightarrow> abort_to_default cf s
      | TBLOCK_PREPARE \<Rightarrow> abort_to_default cf s
      | TBLOCK_ABORT \<Rightarrow> xthen CleanupTransaction (modify (set_block TBLOCK_DEFAULT)) s
      | TBLOCK_ABORT_END \<Rightarrow> xthen CleanupTransaction (modify (set_block TBLOCK_DEFAULT)) s
      | TBLOCK_SUBABORT \<Rightarrow> xthen CleanupSubTransaction (\<lambda>s. if blockState (cur s) \<noteq> TBLOCK_DEFAULT then AbortOutOfAnyTransaction cf s else ret () s) s
      | TBLOCK_SUBABORT_END \<Rightarrow> xthen CleanupSubTransaction (\<lambda>s. if blockState (cur s) \<noteq> TBLOCK_DEFAULT then AbortOutOfAnyTransaction cf s else ret () s) s
      | TBLOCK_SUBABORT_RESTART \<Rightarrow> xthen CleanupSubTransaction (\<lambda>s. if blockState (cur s) \<noteq> TBLOCK_DEFAULT then AbortOutOfAnyTransaction cf s else ret () s) s
      | _ \<Rightarrow> xthen (AbortSubTransaction cf) (xthen CleanupSubTransaction (\<lambda>s. if blockState (cur s) \<noteq> TBLOCK_DEFAULT then AbortOutOfAnyTransaction cf s else ret () s)) s)"
  by pat_completeness auto
termination
  by (relation "measure (\<lambda>(cf, s). length (stack s))") (auto dest!: cleanup_sub_length abort_sub_length)

declare AbortOutOfAnyTransaction.simps [simp del]

section \<open>Transaction control statements\<close>

fun BeginTransactionBlock :: "unit xm" where
  "BeginTransactionBlock s =
     (case blockState (cur s) of
        TBLOCK_STARTED \<Rightarrow> (Inr (), set_block TBLOCK_BEGIN s)
      | TBLOCK_IMPLICIT_INPROGRESS \<Rightarrow> (Inr (), set_block TBLOCK_BEGIN s)
      | TBLOCK_INPROGRESS \<Rightarrow> ret () s
      | TBLOCK_PARALLEL_INPROGRESS \<Rightarrow> ret () s
      | TBLOCK_SUBINPROGRESS \<Rightarrow> ret () s
      | TBLOCK_ABORT \<Rightarrow> ret () s
      | TBLOCK_SUBABORT \<Rightarrow> ret () s
      | _ \<Rightarrow> raise FATAL UnexpectedState s)"

text \<open>The loops \<^verbatim>\<open>while (s->parent != NULL)\<close> that mark the open subtransactions with a new block state and then the
  top-level entry; \<open>None\<close> is the unexpected state, where the marking stops.\<close>

fun mark_up :: "(TBlockState \<Rightarrow> TBlockState option) \<Rightarrow> (TBlockState \<Rightarrow> TBlockState option) \<Rightarrow> bool
  \<Rightarrow> TransactionStateData list \<Rightarrow> TransactionStateData list \<times> bool" where
  "mark_up sub tp ch [] = ([], False)"
| "mark_up sub tp ch [t] =
     (case tp (blockState t) of None \<Rightarrow> ([t], False) | Some b \<Rightarrow> ([t\<lparr>blockState := b, chain := ch\<rparr>], True))"
| "mark_up sub tp ch (t # u # ts) =
     (case sub (blockState t) of
        None \<Rightarrow> (t # u # ts, False)
      | Some b \<Rightarrow> (case mark_up sub tp ch (u # ts) of (us, ok) \<Rightarrow> (t\<lparr>blockState := b\<rparr> # us, ok)))"

definition mark_stack :: "(TBlockState \<Rightarrow> TBlockState option) \<Rightarrow> (TBlockState \<Rightarrow> TBlockState option) \<Rightarrow> bool \<Rightarrow> unit xm" where
  "mark_stack sub tp ch s =
     (case mark_up sub tp ch (stack s) of
        (ts, True) \<Rightarrow> (Inr (), s\<lparr>stack := ts\<rparr>)
      | (ts, False) \<Rightarrow> raise FATAL UnexpectedState (s\<lparr>stack := ts\<rparr>))"

definition commit_mark :: "TBlockState \<Rightarrow> TBlockState option" where
  "commit_mark b = (if b = TBLOCK_SUBINPROGRESS then Some TBLOCK_SUBCOMMIT else None)"

definition abort_mark :: "TBlockState \<Rightarrow> TBlockState option" where
  "abort_mark b = (if b = TBLOCK_SUBINPROGRESS then Some TBLOCK_SUBABORT_PENDING
     else if b = TBLOCK_SUBABORT then Some TBLOCK_SUBABORT_END else None)"

definition commit_mark_top :: "TBlockState \<Rightarrow> TBlockState option" where
  "commit_mark_top b = (if b = TBLOCK_INPROGRESS then Some TBLOCK_END else None)"

definition abort_mark_top :: "TBlockState \<Rightarrow> TBlockState option" where
  "abort_mark_top b = (if b = TBLOCK_INPROGRESS then Some TBLOCK_ABORT_PENDING
     else if b = TBLOCK_ABORT then Some TBLOCK_ABORT_END else None)"

definition set_block_chain :: "TBlockState \<Rightarrow> bool \<Rightarrow> xact \<Rightarrow> xact" where
  "set_block_chain b ch = upd_cur (\<lambda>t. t\<lparr>blockState := b, chain := ch\<rparr>)"

fun EndTransactionBlock :: "bool \<Rightarrow> bool xm" where
  "EndTransactionBlock ch s =
     (case blockState (cur s) of
        TBLOCK_INPROGRESS \<Rightarrow> (Inr True, set_block_chain TBLOCK_END ch s)
      | TBLOCK_IMPLICIT_INPROGRESS \<Rightarrow>
          (if ch then raise ERROR NoActiveTransaction s else (Inr True, set_block_chain TBLOCK_END ch s))
      | TBLOCK_ABORT \<Rightarrow> (Inr False, set_block_chain TBLOCK_ABORT_END ch s)
      | TBLOCK_SUBINPROGRESS \<Rightarrow> xthen (mark_stack commit_mark commit_mark_top ch) (ret True) s
      | TBLOCK_SUBABORT \<Rightarrow> xthen (mark_stack abort_mark abort_mark_top ch) (ret False) s
      | TBLOCK_STARTED \<Rightarrow>
          (if ch then raise ERROR NoActiveTransaction s else (Inr True, set_block_chain TBLOCK_STARTED ch s))
      | TBLOCK_PARALLEL_INPROGRESS \<Rightarrow> raise FATAL ParallelOperation s
      | _ \<Rightarrow> raise FATAL UnexpectedState s)"

definition PrepareTransactionBlock :: "string \<Rightarrow> bool xm" where
  "PrepareTransactionBlock gid = xbind (EndTransactionBlock False) (\<lambda>result s.
     if result then
       let n = length (stack s) - 1
       in if blockState (stack s ! n) = TBLOCK_END
          then (Inr True, upd_frame n (\<lambda>t. t\<lparr>blockState := TBLOCK_PREPARE\<rparr>) (s\<lparr>prepareGID := Some gid\<rparr>))
          else (Inr False, s)
     else (Inr False, s))"

fun UserAbortTransactionBlock :: "bool \<Rightarrow> unit xm" where
  "UserAbortTransactionBlock ch s =
     (case blockState (cur s) of
        TBLOCK_INPROGRESS \<Rightarrow> (Inr (), set_block_chain TBLOCK_ABORT_PENDING ch s)
      | TBLOCK_ABORT \<Rightarrow> (Inr (), set_block_chain TBLOCK_ABORT_END ch s)
      | TBLOCK_SUBINPROGRESS \<Rightarrow> mark_stack abort_mark abort_mark_top ch s
      | TBLOCK_SUBABORT \<Rightarrow> mark_stack abort_mark abort_mark_top ch s
      | TBLOCK_STARTED \<Rightarrow>
          (if ch then raise ERROR NoActiveTransaction s else (Inr (), set_block_chain TBLOCK_ABORT_PENDING ch s))
      | TBLOCK_IMPLICIT_INPROGRESS \<Rightarrow>
          (if ch then raise ERROR NoActiveTransaction s else (Inr (), set_block_chain TBLOCK_ABORT_PENDING ch s))
      | TBLOCK_PARALLEL_INPROGRESS \<Rightarrow> raise FATAL ParallelOperation s
      | _ \<Rightarrow> raise FATAL UnexpectedState s)"

definition BeginImplicitTransactionBlock :: "xact \<Rightarrow> xact" where
  "BeginImplicitTransactionBlock s =
     (if blockState (cur s) = TBLOCK_STARTED then set_block TBLOCK_IMPLICIT_INPROGRESS s else s)"

definition EndImplicitTransactionBlock :: "xact \<Rightarrow> xact" where
  "EndImplicitTransactionBlock s =
     (if blockState (cur s) = TBLOCK_IMPLICIT_INPROGRESS then set_block TBLOCK_STARTED s else s)"

section \<open>Savepoints\<close>

text \<open>The search for a savepoint by name, from the current entry outwards.\<close>

fun find_savepoint :: "string \<Rightarrow> TransactionStateData list \<Rightarrow> nat option" where
  "find_savepoint name [] = None"
| "find_savepoint name (t # ts) =
     (if spname t = Some name then Some 0 else map_option Suc (find_savepoint name ts))"

definition savepoint_target :: "string \<Rightarrow> nat xm" where
  "savepoint_target name s =
     (case find_savepoint name (stack s) of
        None \<Rightarrow> raise ERROR SavepointNotExist s
      | Some i \<Rightarrow> if savepointLevel (stack s ! i) \<noteq> savepointLevel (cur s) then raise ERROR SavepointOtherLevel s
                  else (Inr i, s))"

definition ReleaseSavepoint :: "string \<Rightarrow> unit xm" where
  "ReleaseSavepoint name s =
     (if IsInParallelMode s then raise ERROR ParallelOperation s
      else case blockState (cur s) of
        TBLOCK_INPROGRESS \<Rightarrow> raise ERROR SavepointNotExist s
      | TBLOCK_IMPLICIT_INPROGRESS \<Rightarrow> raise ERROR NoActiveTransaction s
      | TBLOCK_SUBINPROGRESS \<Rightarrow>
          xbind (savepoint_target name) (\<lambda>i s.
            (Inr (), s\<lparr>stack := map (\<lambda>t. t\<lparr>blockState := TBLOCK_SUBRELEASE\<rparr>) (take (i + 1) (stack s)) @ drop (i + 1) (stack s)\<rparr>)) s
      | _ \<Rightarrow> raise FATAL UnexpectedState s)"

text \<open>Mark the entries above the target for abort and the target for a restart.\<close>

fun mark_rollback :: "nat \<Rightarrow> TransactionStateData list \<Rightarrow> TransactionStateData list \<times> bool" where
  "mark_rollback i [] = ([], False)"
| "mark_rollback 0 (t # ts) =
     (if blockState t = TBLOCK_SUBINPROGRESS then (t\<lparr>blockState := TBLOCK_SUBRESTART\<rparr> # ts, True)
      else if blockState t = TBLOCK_SUBABORT then (t\<lparr>blockState := TBLOCK_SUBABORT_RESTART\<rparr> # ts, True)
      else (t # ts, False))"
| "mark_rollback (Suc i) (t # ts) =
     (case abort_mark (blockState t) of
        None \<Rightarrow> (t # ts, False)
      | Some b \<Rightarrow> (case mark_rollback i ts of (us, ok) \<Rightarrow> (t\<lparr>blockState := b\<rparr> # us, ok)))"

definition RollbackToSavepoint :: "string \<Rightarrow> unit xm" where
  "RollbackToSavepoint name s =
     (if IsInParallelMode s then raise ERROR ParallelOperation s
      else if blockState (cur s) = TBLOCK_INPROGRESS \<or> blockState (cur s) = TBLOCK_ABORT then raise ERROR SavepointNotExist s
      else if blockState (cur s) = TBLOCK_IMPLICIT_INPROGRESS then raise ERROR NoActiveTransaction s
      else if blockState (cur s) = TBLOCK_SUBINPROGRESS \<or> blockState (cur s) = TBLOCK_SUBABORT then
        xbind (savepoint_target name) (\<lambda>i s.
          case mark_rollback i (stack s) of
            (ts, True) \<Rightarrow> (Inr (), s\<lparr>stack := ts\<rparr>)
          | (ts, False) \<Rightarrow> raise FATAL UnexpectedState (s\<lparr>stack := ts\<rparr>)) s
      else raise FATAL UnexpectedState s)"

section \<open>Internal subtransactions\<close>

definition BeginInternalSubTransaction :: "config \<Rightarrow> string option \<Rightarrow> unit xm" where
  "BeginInternalSubTransaction cf name s =
     (if IsInParallelMode s then raise ERROR ParallelOperation s
      else if blockState (cur s) \<in> {TBLOCK_STARTED, TBLOCK_INPROGRESS, TBLOCK_IMPLICIT_INPROGRESS, TBLOCK_END,
                                    TBLOCK_PREPARE, TBLOCK_SUBINPROGRESS}
      then seq [PushTransaction, modify (upd_cur (\<lambda>t. t\<lparr>spname := name\<rparr>)),
                CommitTransactionCommand cf, StartTransactionCommand cf] s
      else raise FATAL UnexpectedState s)"

definition ReleaseCurrentSubTransaction :: "config \<Rightarrow> unit xm" where
  "ReleaseCurrentSubTransaction cf s =
     (if IsInParallelMode s then raise ERROR ParallelOperation s
      else if blockState (cur s) \<noteq> TBLOCK_SUBINPROGRESS then raise ERROR UnexpectedState s
      else CommitSubTransaction cf s)"

definition RollbackAndReleaseCurrentSubTransaction :: "config \<Rightarrow> unit xm" where
  "RollbackAndReleaseCurrentSubTransaction cf s =
     (if blockState (cur s) = TBLOCK_SUBINPROGRESS then xthen (AbortSubTransaction cf) CleanupSubTransaction s
      else if blockState (cur s) = TBLOCK_SUBABORT then CleanupSubTransaction s
      else raise FATAL UnexpectedState s)"

section \<open>Status\<close>

definition IsTransactionBlock :: "xact \<Rightarrow> bool" where
  "IsTransactionBlock s =
     (if blockState (cur s) = TBLOCK_DEFAULT \<or> blockState (cur s) = TBLOCK_STARTED then False else True)"

definition IsTransactionOrTransactionBlock :: "xact \<Rightarrow> bool" where
  "IsTransactionOrTransactionBlock s = (if blockState (cur s) = TBLOCK_DEFAULT then False else True)"

definition IsSubTransaction :: "xact \<Rightarrow> bool" where
  "IsSubTransaction s = (if nestingLevel (cur s) \<ge> 2 then True else False)"

fun TransactionBlockStatusCode :: "xact \<Rightarrow> char" where
  "TransactionBlockStatusCode s =
     (if blockState (cur s) \<in> {TBLOCK_DEFAULT, TBLOCK_STARTED} then CHR ''I''
      else if blockState (cur s) \<in> {TBLOCK_BEGIN, TBLOCK_SUBBEGIN, TBLOCK_INPROGRESS, TBLOCK_IMPLICIT_INPROGRESS,
        TBLOCK_PARALLEL_INPROGRESS, TBLOCK_SUBINPROGRESS, TBLOCK_END, TBLOCK_SUBRELEASE, TBLOCK_SUBCOMMIT, TBLOCK_PREPARE}
      then CHR ''T'' else CHR ''E'')"

definition PreventInTransactionBlock :: "bool \<Rightarrow> unit xm" where
  "PreventInTransactionBlock isTopLevel s =
     (if IsTransactionBlock s then raise ERROR ActiveTransaction s
      else if IsSubTransaction s then raise ERROR ActiveTransaction s
      else if \<not> isTopLevel then raise ERROR ActiveTransaction s
      else if blockState (cur s) \<noteq> TBLOCK_DEFAULT \<and> blockState (cur s) \<noteq> TBLOCK_STARTED then raise FATAL UnexpectedState s
      else ret () s)"

definition CheckTransactionBlock :: "bool \<Rightarrow> bool \<Rightarrow> unit xm" where
  "CheckTransactionBlock isTopLevel throwError s =
     (if IsTransactionBlock s then ret () s
      else if IsSubTransaction s then ret () s
      else if \<not> isTopLevel then ret () s
      else if throwError then raise ERROR NoActiveTransaction s
      else ret () s)"

definition RequireTransactionBlock :: "bool \<Rightarrow> unit xm" where
  "RequireTransactionBlock isTopLevel = CheckTransactionBlock isTopLevel True"

definition WarnNoTransactionBlock :: "bool \<Rightarrow> unit xm" where
  "WarnNoTransactionBlock isTopLevel = CheckTransactionBlock isTopLevel False"

definition IsInTransactionBlock :: "bool \<Rightarrow> xact \<Rightarrow> bool" where
  "IsInTransactionBlock isTopLevel s =
     (if IsTransactionBlock s then True else if IsSubTransaction s then True else if \<not> isTopLevel then True
      else if blockState (cur s) \<noteq> TBLOCK_DEFAULT \<and> blockState (cur s) \<noteq> TBLOCK_STARTED then True else False)"

section \<open>Parallel workers\<close>

text \<open>What a parallel worker is told of the leader's transaction. \<^verbatim>\<open>qsort\<close> with \<^verbatim>\<open>xidComparator\<close> sorts by
  the plain order of the ids.\<close>

record SerializedTransactionState =
  ser_xactIsoLevel :: nat
  ser_xactDeferrable :: bool
  ser_topFullTransactionId :: FullTransactionId
  ser_currentFullTransactionId :: FullTransactionId
  ser_currentCommandId :: CommandId
  ser_parallelCurrentXids :: "TransactionId list"

fun frame_xids :: "TransactionStateData \<Rightarrow> TransactionId list" where
  "frame_xids t =
     (if FullTransactionIdIsValid (fullTransactionId t) then [XidFromFullTransactionId (fullTransactionId t)] else [])
     @ childXids t"

definition EstimateTransactionStateSpace :: "nat \<Rightarrow> xact \<Rightarrow> nat" where
  "EstimateTransactionStateSpace hdr s =
     (let nxids = sum_list (map (\<lambda>t. (if FullTransactionIdIsValid (fullTransactionId t) then 1 else 0) + length (childXids t)) (stack s))
      in hdr + 4 * nxids)"

definition SerializeTransactionState :: "xact \<Rightarrow> SerializedTransactionState" where
  "SerializeTransactionState s =
     \<lparr>ser_xactIsoLevel = XactIsoLevel s, ser_xactDeferrable = XactDeferrable s,
      ser_topFullTransactionId = XactTopFullTransactionId s,
      ser_currentFullTransactionId = fullTransactionId (cur s),
      ser_currentCommandId = currentCommandId s,
      ser_parallelCurrentXids =
        (if length (ParallelCurrentXids s) > 0 then ParallelCurrentXids s
         else sort (concat (map frame_xids (stack s))))\<rparr>"

definition StartParallelWorkerTransaction :: "config \<Rightarrow> SerializedTransactionState \<Rightarrow> xact \<Rightarrow> xact" where
  "StartParallelWorkerTransaction cf tstate s =
     set_block TBLOCK_PARALLEL_INPROGRESS
       (upd_cur (\<lambda>t. t\<lparr>fullTransactionId := ser_currentFullTransactionId tstate\<rparr>)
         ((StartTransaction cf s)\<lparr>XactIsoLevel := ser_xactIsoLevel tstate, XactDeferrable := ser_xactDeferrable tstate,
            XactTopFullTransactionId := ser_topFullTransactionId tstate,
            currentCommandId := ser_currentCommandId tstate,
            ParallelCurrentXids := ser_parallelCurrentXids tstate\<rparr>))"

definition EndParallelWorkerTransaction :: "config \<Rightarrow> unit xm" where
  "EndParallelWorkerTransaction cf = xthen (CommitTransaction cf) (modify (set_block TBLOCK_DEFAULT))"

end
