(* ===== verification/Session.thy ===== *)
theory Session
  imports Xact
begin

text \<open>
  How one backend drives its transaction: the simple query protocol of \<^verbatim>\<open>src/backend/tcop/postgres.c\<close>,
  the transaction statements of \<^verbatim>\<open>src/backend/tcop/utility.c\<close> and exception blocks of PL/pgSQL.
  A query is the list of its statements, or \<open>None\<close> when it does not parse. What a statement other
  than a transaction statement does to the transaction state is a list of \<open>work\<close> steps, which stand
  for the calls of the executor and of utility commands into \<^verbatim>\<open>xact.c\<close>. The extended query protocol
  and commands that end transactions in the middle (procedures, \<^verbatim>\<open>VACUUM\<close>) are not modelled.
\<close>

section \<open>Statements\<close>

datatype TransactionStmtKind = TRANS_STMT_BEGIN | TRANS_STMT_START | TRANS_STMT_COMMIT | TRANS_STMT_ROLLBACK
  | TRANS_STMT_SAVEPOINT | TRANS_STMT_RELEASE | TRANS_STMT_ROLLBACK_TO | TRANS_STMT_PREPARE
  | TRANS_STMT_COMMIT_PREPARED | TRANS_STMT_ROLLBACK_PREPARED

datatype transaction_option = transaction_isolation nat | transaction_read_only bool | transaction_deferrable bool

datatype work = W_xid | W_command | W_counter | W_snapshot | W_set transaction_option | W_defer | W_delete | W_fail
  | W_parallel "work list" | W_try "work list" "work list option"

record TransactionStmt =
  stmt_kind :: TransactionStmtKind
  stmt_options :: "transaction_option list"
  savepoint_name :: string
  stmt_gid :: string
  stmt_chain :: bool

datatype RawStmt = TransactionStmt TransactionStmt | OtherStmt "work list"

section \<open>Transaction options\<close>

text \<open>\<^verbatim>\<open>SetPGVariable\<close> for the three options of \<^verbatim>\<open>BEGIN\<close> and \<^verbatim>\<open>SET TRANSACTION\<close>: the check hook of
  \<^verbatim>\<open>variable.c\<close> decides, then the value is assigned.\<close>

definition XACT_SERIALIZABLE :: nat where "XACT_SERIALIZABLE = 3"

definition check_transaction_read_only :: "config \<Rightarrow> bool \<Rightarrow> xact \<Rightarrow> bool" where
  "check_transaction_read_only cf newval s =
     (if \<not> newval \<and> XactReadOnly s \<and> IsTransactionState s then
        if IsSubTransaction s then False
        else if FirstSnapshotSet s then False
        else if RecoveryInProgress cf then False
        else True
      else True)"

definition check_XactIsoLevel :: "config \<Rightarrow> nat \<Rightarrow> xact \<Rightarrow> bool" where
  "check_XactIsoLevel cf newval s =
     (if newval \<noteq> XactIsoLevel s \<and> IsTransactionState s then
        if FirstSnapshotSet s then False
        else if IsSubTransaction s then False
        else if newval = XACT_SERIALIZABLE \<and> RecoveryInProgress cf then False
        else True
      else True)"

definition check_transaction_deferrable :: "xact \<Rightarrow> bool" where
  "check_transaction_deferrable s =
     (if IsSubTransaction s then False else if FirstSnapshotSet s then False else True)"

fun SetPGVariable :: "config \<Rightarrow> transaction_option \<Rightarrow> unit xm" where
  "SetPGVariable cf (transaction_isolation v) s =
     (if check_XactIsoLevel cf v s then ret () (s\<lparr>XactIsoLevel := v\<rparr>) else raise ERROR StatementFailed s)"
| "SetPGVariable cf (transaction_read_only v) s =
     (if check_transaction_read_only cf v s then ret () (s\<lparr>XactReadOnly := v\<rparr>) else raise ERROR StatementFailed s)"
| "SetPGVariable cf (transaction_deferrable v) s =
     (if check_transaction_deferrable s then ret () (s\<lparr>XactDeferrable := v\<rparr>) else raise ERROR StatementFailed s)"

section \<open>Work\<close>

text \<open>\<^verbatim>\<open>exec_stmt_block\<close> with an \<^verbatim>\<open>EXCEPTION\<close> clause. An error of the body rolls the subtransaction back and runs the
  handler, or is raised again when no handler matches; \<^verbatim>\<open>PG_CATCH\<close> never sees \<^verbatim>\<open>FATAL\<close> and \<^verbatim>\<open>PANIC\<close>.\<close>

definition exec_stmt_block :: "config \<Rightarrow> unit xm \<Rightarrow> unit xm option \<Rightarrow> unit xm" where
  "exec_stmt_block cf body handler =
     xthen (BeginInternalSubTransaction cf None) (\<lambda>s.
       case xthen body (ReleaseCurrentSubTransaction cf) s of
         (Inr _, s) \<Rightarrow> (Inr (), s)
       | (Inl (Xerror lev r), s) \<Rightarrow>
           if lev = ERROR then
             xthen (RollbackAndReleaseCurrentSubTransaction cf)
               (case handler of Some h \<Rightarrow> h | None \<Rightarrow> raise ERROR r) s
           else (Inl (Xerror lev r), s))"

fun do_work :: "config \<Rightarrow> work \<Rightarrow> unit xm"
and do_works :: "config \<Rightarrow> work list \<Rightarrow> unit xm"
where
  "do_work cf W_xid = xbind (GetCurrentTransactionId cf) (\<lambda>_. ret ())"
| "do_work cf W_command = (\<lambda>s. (Inr (), snd (GetCurrentCommandId True s)))"
| "do_work cf W_counter = CommandCounterIncrement cf"
| "do_work cf W_snapshot = modify (\<lambda>s. s\<lparr>FirstSnapshotSet := True\<rparr>)"
| "do_work cf (W_set item) = SetPGVariable cf item"
| "do_work cf W_defer = modify (\<lambda>s. s\<lparr>deferredError := True\<rparr>)"
| "do_work cf W_delete = modify (\<lambda>s. s\<lparr>pendingDeletes := pendingDeletes s + 1\<rparr>)"
| "do_work cf W_fail = raise ERROR StatementFailed"
| "do_work cf (W_parallel ws) = seq [modify EnterParallelMode, do_works cf ws, modify ExitParallelMode]"
| "do_work cf (W_try ws h) = exec_stmt_block cf (do_works cf ws) (case h of None \<Rightarrow> None | Some hs \<Rightarrow> Some (do_works cf hs))"
| "do_works cf [] = ret ()"
| "do_works cf (w # ws) = xthen (do_work cf w) (do_works cf ws)"

section \<open>Transaction statements\<close>

definition PreventCommandDuringRecovery :: "config \<Rightarrow> unit xm" where
  "PreventCommandDuringRecovery cf s = (if RecoveryInProgress cf then raise ERROR ReadOnlyRecovery s else ret () s)"

text \<open>\<open>finishPrepared\<close> tells whether \<^verbatim>\<open>FinishPreparedTransaction\<close> succeeds: it works on another transaction's state.\<close>

definition ProcessTransactionStmt :: "config \<Rightarrow> (string \<Rightarrow> bool \<Rightarrow> bool) \<Rightarrow> bool \<Rightarrow> TransactionStmt \<Rightarrow> unit xm" where
  "ProcessTransactionStmt cf finishPrepared isTopLevel stmt =
     (case stmt_kind stmt of
        TRANS_STMT_BEGIN \<Rightarrow> seq (BeginTransactionBlock # map (SetPGVariable cf) (stmt_options stmt))
      | TRANS_STMT_START \<Rightarrow> seq (BeginTransactionBlock # map (SetPGVariable cf) (stmt_options stmt))
      | TRANS_STMT_COMMIT \<Rightarrow> xbind (EndTransactionBlock (stmt_chain stmt)) (\<lambda>_. ret ())
      | TRANS_STMT_PREPARE \<Rightarrow>
          xthen (PreventCommandDuringRecovery cf) (xbind (PrepareTransactionBlock (stmt_gid stmt)) (\<lambda>_. ret ()))
      | TRANS_STMT_COMMIT_PREPARED \<Rightarrow> seq [PreventInTransactionBlock isTopLevel, PreventCommandDuringRecovery cf,
          if finishPrepared (stmt_gid stmt) True then ret () else raise ERROR StatementFailed]
      | TRANS_STMT_ROLLBACK_PREPARED \<Rightarrow> seq [PreventInTransactionBlock isTopLevel, PreventCommandDuringRecovery cf,
          if finishPrepared (stmt_gid stmt) False then ret () else raise ERROR StatementFailed]
      | TRANS_STMT_ROLLBACK \<Rightarrow> UserAbortTransactionBlock (stmt_chain stmt)
      | TRANS_STMT_SAVEPOINT \<Rightarrow> xthen (RequireTransactionBlock isTopLevel) (DefineSavepoint (Some (savepoint_name stmt)))
      | TRANS_STMT_RELEASE \<Rightarrow> xthen (RequireTransactionBlock isTopLevel) (ReleaseSavepoint (savepoint_name stmt))
      | TRANS_STMT_ROLLBACK_TO \<Rightarrow> xthen (RequireTransactionBlock isTopLevel) (RollbackToSavepoint (savepoint_name stmt)))"

definition IsTransactionExitStmt :: "RawStmt \<Rightarrow> bool" where
  "IsTransactionExitStmt p =
     (case p of
        TransactionStmt stmt \<Rightarrow>
          stmt_kind stmt = TRANS_STMT_COMMIT \<or> stmt_kind stmt = TRANS_STMT_PREPARE
          \<or> stmt_kind stmt = TRANS_STMT_ROLLBACK \<or> stmt_kind stmt = TRANS_STMT_ROLLBACK_TO
      | OtherStmt _ \<Rightarrow> False)"

section \<open>Simple queries\<close>

text \<open>The flag \<^verbatim>\<open>xact_started\<close> is passed along.\<close>

definition start_xact_command :: "config \<Rightarrow> bool \<Rightarrow> bool xm" where
  "start_xact_command cf xact_started =
     (if \<not> xact_started then xthen (StartTransactionCommand cf) (ret True) else ret True)"

definition finish_xact_command :: "config \<Rightarrow> bool \<Rightarrow> bool xm" where
  "finish_xact_command cf xact_started =
     (if xact_started then xthen (CommitTransactionCommand cf) (ret False) else ret False)"

text \<open>Analysis, planning and execution of one statement.\<close>

definition run_portal :: "config \<Rightarrow> (string \<Rightarrow> bool \<Rightarrow> bool) \<Rightarrow> RawStmt \<Rightarrow> unit xm" where
  "run_portal cf fp p =
     (case p of TransactionStmt stmt \<Rightarrow> ProcessTransactionStmt cf fp True stmt | OtherStmt ws \<Rightarrow> do_works cf ws)"

text \<open>One round of the loop over the statements, and what follows its execution.\<close>

definition after_stmt :: "config \<Rightarrow> bool \<Rightarrow> RawStmt \<Rightarrow> bool \<Rightarrow> bool xm" where
  "after_stmt cf use_implicit_block p is_last s =
     (if is_last then
        finish_xact_command cf True (if use_implicit_block then EndImplicitTransactionBlock s else s)
      else case p of
        TransactionStmt _ \<Rightarrow> finish_xact_command cf True s
      | OtherStmt _ \<Rightarrow> xthen (CommandCounterIncrement cf) (ret True) s)"

definition exec_stmt :: "config \<Rightarrow> (string \<Rightarrow> bool \<Rightarrow> bool) \<Rightarrow> bool \<Rightarrow> bool \<Rightarrow> RawStmt \<Rightarrow> bool \<Rightarrow> bool xm" where
  "exec_stmt cf fp use_implicit_block is_last p xact_started s =
     (if IsAbortedTransactionBlockState s \<and> \<not> IsTransactionExitStmt p then raise ERROR InFailedTransaction s
      else xbind (start_xact_command cf xact_started) (\<lambda>_ s.
        xthen (run_portal cf fp p) (after_stmt cf use_implicit_block p is_last)
          (if use_implicit_block then BeginImplicitTransactionBlock s else s)) s)"

fun exec_stmts :: "config \<Rightarrow> (string \<Rightarrow> bool \<Rightarrow> bool) \<Rightarrow> bool \<Rightarrow> RawStmt list \<Rightarrow> bool \<Rightarrow> bool xm" where
  "exec_stmts cf fp use_implicit_block [] xact_started = ret xact_started"
| "exec_stmts cf fp use_implicit_block (p # ps) xact_started =
     xbind (exec_stmt cf fp use_implicit_block (ps = []) p xact_started)
       (exec_stmts cf fp use_implicit_block ps)"

definition exec_simple_query :: "config \<Rightarrow> (string \<Rightarrow> bool \<Rightarrow> bool) \<Rightarrow> RawStmt list option \<Rightarrow> unit xm" where
  "exec_simple_query cf fp query =
     xbind (start_xact_command cf False) (\<lambda>started.
       case query of
         None \<Rightarrow> raise ERROR StatementFailed
       | Some parsetree_list \<Rightarrow>
           xbind (exec_stmts cf fp (length parsetree_list > 1) parsetree_list started)
             (\<lambda>started. xbind (finish_xact_command cf started) (\<lambda>_. ret ())))"

section \<open>The main loop\<close>

text \<open>An error of level \<^verbatim>\<open>ERROR\<close> comes back to the main loop, which aborts the current transaction and
  waits for the next message; \<^verbatim>\<open>FATAL\<close> runs the exit callbacks; \<^verbatim>\<open>PANIC\<close> stops at once. \<open>Ready\<close>
  carries the error that was reported, if any. The flag \<^verbatim>\<open>xact_started\<close> is false between simple queries.\<close>

datatype 'a step_result = Ready "xact_reason option" 'a | Exited xact_error 'a

definition ShutdownPostgres :: "config \<Rightarrow> xact \<Rightarrow> xact" where
  "ShutdownPostgres cf s = snd (AbortOutOfAnyTransaction cf s)"

definition recover_error :: "config \<Rightarrow> xact_error \<Rightarrow> xact \<Rightarrow> xact step_result" where
  "recover_error cf e s =
     (case e of
        Xerror ERROR r \<Rightarrow>
          (case AbortCurrentTransaction cf s of (Inr _, s') \<Rightarrow> Ready (Some r) s' | (Inl e', s') \<Rightarrow> Exited e' s')
      | Xerror FATAL r \<Rightarrow> Exited e (ShutdownPostgres cf s)
      | Xerror PANIC r \<Rightarrow> Exited e s)"

definition PostgresMain_query :: "config \<Rightarrow> (string \<Rightarrow> bool \<Rightarrow> bool) \<Rightarrow> RawStmt list option \<Rightarrow> xact \<Rightarrow> xact step_result" where
  "PostgresMain_query cf fp query s =
     (case exec_simple_query cf fp query s of
        (Inr _, s') \<Rightarrow> Ready None s'
      | (Inl e, s') \<Rightarrow> recover_error cf e s')"

end
