(* ===== verification/Xact_Recovery.thy ===== *)
theory Xact_Recovery
  imports Xact
begin

text \<open>
  The transaction block as a client sees it. An abstract state \<open>block\<close> says whether the session is
  idle, in an open block or in a failed one, and which savepoints are there; every transaction
  statement is a function on it. The theorems show that the routines of \<^verbatim>\<open>xact.c\<close>, driven by the
  main loop, implement it, that none of their \<^verbatim>\<open>FATAL\<close> branches for unexpected states is reached,
  and that every error leads back to a state in which the next query can be taken.
\<close>

section \<open>Pre- and postconditions\<close>

definition hoare :: "(xact \<Rightarrow> bool) \<Rightarrow> 'a xm \<Rightarrow> ('a \<Rightarrow> xact \<Rightarrow> bool) \<Rightarrow> (xact_error \<Rightarrow> xact \<Rightarrow> bool) \<Rightarrow> bool" where
  "hoare P m Q E \<longleftrightarrow> (\<forall>s. P s \<longrightarrow> (case m s of (Inr a, s') \<Rightarrow> Q a s' | (Inl e, s') \<Rightarrow> E e s'))"

lemma hoareI:
  assumes "\<And>s a s'. \<lbrakk> P s; m s = (Inr a, s') \<rbrakk> \<Longrightarrow> Q a s'" "\<And>s e s'. \<lbrakk> P s; m s = (Inl e, s') \<rbrakk> \<Longrightarrow> E e s'"
  shows "hoare P m Q E"
  using assms by (auto simp: hoare_def split: prod.splits sum.splits)

lemma hoareD:
  assumes "hoare P m Q E" "P s"
  shows "m s = (Inr a, s') \<Longrightarrow> Q a s'" "m s = (Inl e, s') \<Longrightarrow> E e s'"
  using assms by (auto simp: hoare_def split: prod.splits sum.splits)

lemma hoare_weaken:
  assumes "hoare P' m Q' E'" "\<And>s. P s \<Longrightarrow> P' s" "\<And>a s. Q' a s \<Longrightarrow> Q a s" "\<And>e s. E' e s \<Longrightarrow> E e s"
  shows "hoare P m Q E"
  using assms by (fastforce simp: hoare_def split: prod.splits sum.splits)

lemma hoare_xthen:
  assumes "hoare P m (\<lambda>_. R) E" "hoare R k Q E"
  shows "hoare P (xthen m k) Q E"
  using assms by (fastforce simp: hoare_def xthen_def split: prod.splits sum.splits)

lemma hoare_xbind:
  assumes "hoare P m R E" "\<And>a. hoare (R a) (f a) Q E"
  shows "hoare P (xbind m f) Q E"
  using assms by (fastforce simp: hoare_def xbind_def split: prod.splits sum.splits)

lemma hoare_ret: "(\<And>s. P s \<Longrightarrow> Q a s) \<Longrightarrow> hoare P (ret a) Q E"
  by (simp add: hoare_def ret_def)

lemma hoare_raise: "(\<And>s. P s \<Longrightarrow> E (Xerror l r) s) \<Longrightarrow> hoare P (raise l r) Q E"
  by (simp add: hoare_def raise_def)

lemma hoare_modify: "(\<And>s. P s \<Longrightarrow> Q () (f s)) \<Longrightarrow> hoare P (modify f) Q E"
  by (simp add: hoare_def modify_def)

lemma hoare_pre: "(\<And>s. P s \<Longrightarrow> hoare (\<lambda>s'. s' = s) m Q E) \<Longrightarrow> hoare P m Q E"
  by (auto simp: hoare_def)

section \<open>Shapes of the stack\<close>

type_synonym frames = "TransactionStateData list"

definition sub_live :: "TransactionStateData \<Rightarrow> bool" where
  "sub_live t \<longleftrightarrow> blockState t = TBLOCK_SUBINPROGRESS \<and> trans_state t = TRANS_INPROGRESS"

fun opened :: "TBlockState set \<Rightarrow> frames \<Rightarrow> bool" where
  "opened B [] = False"
| "opened B [t] = (blockState t \<in> B \<and> trans_state t = TRANS_INPROGRESS)"
| "opened B (t # u # ts) = (sub_live t \<and> opened B (u # ts))"

fun idle :: "frames \<Rightarrow> bool" where
  "idle [t] = (blockState t = TBLOCK_DEFAULT \<and> trans_state t = TRANS_DEFAULT)"
| "idle _ = False"

fun failed :: "frames \<Rightarrow> bool" where
  "failed [] = False"
| "failed [t] = (blockState t = TBLOCK_ABORT \<and> trans_state t = TRANS_ABORT)"
| "failed (t # u # ts) = (blockState t = TBLOCK_SUBABORT \<and> trans_state t = TRANS_ABORT \<and> opened {TBLOCK_INPROGRESS} (u # ts))"

text \<open>The states from which \<^verbatim>\<open>AbortCurrentTransaction\<close> recovers.\<close>

fun recoverable :: "frames \<Rightarrow> bool" where
  "recoverable [] = False"
| "recoverable [t] =
     (if blockState t = TBLOCK_DEFAULT then trans_state t = TRANS_DEFAULT
      else if blockState t = TBLOCK_ABORT \<or> blockState t = TBLOCK_ABORT_END then trans_state t = TRANS_ABORT
      else blockState t \<in> {TBLOCK_STARTED, TBLOCK_BEGIN, TBLOCK_INPROGRESS, TBLOCK_IMPLICIT_INPROGRESS, TBLOCK_END,
             TBLOCK_ABORT_PENDING, TBLOCK_PREPARE})"
| "recoverable (t # u # ts) =
     (if blockState t = TBLOCK_SUBINPROGRESS then opened {TBLOCK_INPROGRESS} (u # ts)
      else if blockState t = TBLOCK_SUBABORT then trans_state t = TRANS_ABORT \<and> opened {TBLOCK_INPROGRESS} (u # ts)
      else blockState t \<in> {TBLOCK_SUBBEGIN, TBLOCK_SUBRELEASE, TBLOCK_SUBCOMMIT, TBLOCK_SUBABORT_PENDING, TBLOCK_SUBRESTART,
             TBLOCK_SUBABORT_END, TBLOCK_SUBABORT_RESTART} \<and> recoverable (u # ts))"

text \<open>The client's view.\<close>

datatype block = Idle | Open "string option list" | Failed "string option list"

definition savepoints :: "frames \<Rightarrow> string option list" where
  "savepoints ts = map spname (butlast ts)"

text \<open>All savepoints are of one savepoint level; the top-level entry has no name and is not nested.\<close>

definition based :: "frames \<Rightarrow> bool" where
  "based ts \<longleftrightarrow> spname (last ts) = None \<and> nestingLevel (last ts) < 2 \<and> list_all (\<lambda>t. savepointLevel t = savepointLevel (last ts)) ts"

fun resting :: "block \<Rightarrow> frames \<Rightarrow> bool" where
  "resting Idle ts = (idle ts \<and> based ts)"
| "resting (Open ns) ts = (opened {TBLOCK_INPROGRESS} ts \<and> savepoints ts = ns \<and> based ts)"
| "resting (Failed ns) ts = (failed ts \<and> savepoints ts = ns \<and> based ts)"

definition at_rest :: "frames \<Rightarrow> bool" where
  "at_rest ts \<longleftrightarrow> (\<exists>b. resting b ts)"

definition settled :: "(frames \<Rightarrow> bool) \<Rightarrow> xact_error \<Rightarrow> xact \<Rightarrow> bool" where
  "settled R e s \<longleftrightarrow> (case e of Xerror PANIC _ \<Rightarrow> True | Xerror FATAL _ \<Rightarrow> False | Xerror ERROR _ \<Rightarrow> R (stack s))"

lemma settled_simps [simp]:
  "settled R (Xerror PANIC r) s" "\<not> settled R (Xerror FATAL r) s" "settled R (Xerror ERROR r) s \<longleftrightarrow> R (stack s)"
  by (simp_all add: settled_def)

text \<open>The fields of an entry that these shapes look at.\<close>

definition alike :: "TransactionStateData \<Rightarrow> TransactionStateData \<Rightarrow> bool" where
  "alike t t' \<longleftrightarrow> blockState t' = blockState t \<and> trans_state t' = trans_state t \<and> spname t' = spname t
     \<and> savepointLevel t' = savepointLevel t \<and> chain t' = chain t \<and> (nestingLevel t < 2 \<longrightarrow> nestingLevel t' < 2)"

lemma opened_alike: "list_all2 alike ts ts' \<Longrightarrow> opened B ts' = opened B ts"
proof (induction B ts arbitrary: ts' rule: opened.induct)
  case (3 B t u ts)
  then obtain t' u' us' where ts': "ts' = t' # u' # us'" "list_all2 alike (u # ts) (u' # us')" "alike t t'"
    by (auto simp: list_all2_Cons1)
  then show ?case using 3(1) [OF ts'(2)] by (simp add: sub_live_def alike_def)
qed (auto simp: alike_def list_all2_Cons1)

lemma last_alike: "list_all2 alike ts ts' \<Longrightarrow> ts \<noteq> [] \<Longrightarrow> alike (last ts) (last ts')"
  by (metis list_all2_conv_all_nth last_conv_nth length_greater_0_conv length_0_conv diff_less zero_less_one list_all2_lengthD)

lemma savepoints_alike: "list_all2 alike ts ts' \<Longrightarrow> savepoints ts' = savepoints ts"
  by (auto simp: savepoints_def list_all2_conv_all_nth alike_def nth_butlast intro!: nth_equalityI)

lemma based_alike:
  assumes "list_all2 alike ts ts'" "based ts"
  shows "based ts'"
proof (cases "ts = []")
  case False
  then show ?thesis using last_alike [OF assms(1) False] assms
    by (auto simp: based_def list_all_length list_all2_conv_all_nth alike_def)
qed (use assms in simp)

lemma alike_refl [simp]: "alike t t" by (simp add: alike_def)
lemma alike_list_refl [simp]: "list_all2 alike ts ts" by (simp add: list_all2_refl)

lemmas shape_alike = opened_alike savepoints_alike based_alike

section \<open>What the routines do to the stack\<close>

lemma cur_stack [simp]: "stack s = t # ts \<Longrightarrow> cur s = t"
  by (simp add: cur_def)

lemma upd_cur_stack [simp]: "stack s = t # ts \<Longrightarrow> stack (upd_cur f s) = f t # ts"
  by (simp add: upd_cur_def)

lemma block_stack [simp]:
  "stack s = t # ts \<Longrightarrow> stack (set_block b s) = t\<lparr>blockState := b\<rparr> # ts"
  "stack s = t # ts \<Longrightarrow> stack (set_state st s) = t\<lparr>trans_state := st\<rparr> # ts"
  "stack s = t # ts \<Longrightarrow> stack (set_block_chain b ch s) = t\<lparr>blockState := b, chain := ch\<rparr> # ts"
  by (simp_all add: set_block_def set_state_def set_block_chain_def)

lemma end_in_procarray_stack [simp]: "stack (end_in_procarray x s) = stack s"
  by (simp add: end_in_procarray_def)

lemma record_abort_ok: "RecordTransactionAbort cf b s = (Inr x, s') \<Longrightarrow> stack s' = stack s"
  by (rule record_abort_stack)

lemma record_abort_error: "RecordTransactionAbort cf b s = (Inl e, s') \<Longrightarrow> \<exists>r. e = Xerror PANIC r"
  by (auto simp: RecordTransactionAbort_def raise_def Let_def split: if_splits option.splits bool.splits)

lemma reset_top_stack [simp]:
  "stack s = t # ts \<Longrightarrow> stack (reset_top s) =
     t\<lparr>curTransactionOwner := False, fullTransactionId := InvalidFullTransactionId,
       subTransactionId := InvalidSubTransactionId, nestingLevel := 0, childXids := [], trans_state := TRANS_DEFAULT\<rparr> # ts"
  by (simp add: reset_top_def)

definition left_as :: "TransState \<Rightarrow> TransactionStateData \<Rightarrow> TransactionStateData \<Rightarrow> bool" where
  "left_as st t t' \<longleftrightarrow> alike (t\<lparr>trans_state := st\<rparr>) t'"

lemma hoare_abort_sub:
  "hoare (\<lambda>s. stack s = t # ts) (AbortSubTransaction cf)
     (\<lambda>_ s. \<exists>t'. stack s = t' # ts \<and> left_as TRANS_ABORT t t') (settled R)"
  by (rule hoareI)
    (auto simp: AbortSubTransaction_def AtSubAbort_childXids_def xm_defs left_as_def alike_def dest!: record_abort_ok record_abort_error
      split: prod.splits sum.splits if_splits)

lemma hoare_cleanup_sub:
  "hoare (\<lambda>s. stack s = t # u # ts) CleanupSubTransaction (\<lambda>_ s. stack s = u # ts) E"
  by (rule hoareI) (auto simp: CleanupSubTransaction_def PopTransaction_def xm_defs)

lemma hoare_abort_top:
  "hoare (\<lambda>s. stack s = t # ts) (AbortTransaction cf)
     (\<lambda>_ s. \<exists>t'. stack s = t' # ts \<and> left_as TRANS_ABORT t t') (settled R)"
  by (rule hoareI)
    (auto simp: AbortTransaction_def xm_defs Let_def left_as_def alike_def dest!: record_abort_ok record_abort_error
      split: prod.splits sum.splits if_splits)

lemma hoare_cleanup_top:
  "hoare (\<lambda>s. stack s = t # ts \<and> trans_state t = TRANS_ABORT) CleanupTransaction
     (\<lambda>_ s. \<exists>t'. stack s = t' # ts \<and> left_as TRANS_DEFAULT t t') E"
  by (rule hoareI) (auto simp: CleanupTransaction_def raise_def left_as_def alike_def)

lemma hoare_ex: "(\<And>x. hoare (P x) m Q E) \<Longrightarrow> hoare (\<lambda>s. \<exists>x. P x s) m Q E"
  by (fastforce simp: hoare_def)

lemma hoare_fact: "(F \<Longrightarrow> hoare P m Q E) \<Longrightarrow> hoare (\<lambda>s. P s \<and> F) m Q E"
  by (auto simp: hoare_def)

lemma hoare_abort_clean:
  "hoare (\<lambda>s. stack s = t # ts) (xthen (AbortTransaction cf) CleanupTransaction)
     (\<lambda>_ s. \<exists>t'. stack s = t' # ts \<and> left_as TRANS_DEFAULT t t') (settled R)"
proof (rule hoare_xthen [OF hoare_abort_top], rule hoare_ex)
  fix t'
  show "hoare (\<lambda>s. stack s = t' # ts \<and> left_as TRANS_ABORT t t') CleanupTransaction
     (\<lambda>_ s. \<exists>t'. stack s = t' # ts \<and> left_as TRANS_DEFAULT t t') (settled R)"
    by (rule hoare_fact, rule hoare_weaken [OF hoare_cleanup_top [of t' ts]]) (auto simp: left_as_def alike_def)
qed

lemma hoare_abort_to_default:
  "hoare (\<lambda>s. stack s = [t]) (abort_to_default cf) (\<lambda>_ s. idle (stack s) \<and> (based [t] \<longrightarrow> based (stack s))) (settled R)"
  unfolding abort_to_default_def abort_and_clean_def
  by (rule hoare_xthen [OF hoare_abort_clean]) (auto intro!: hoare_modify simp: left_as_def alike_def based_def)

lemma hoare_abort_pop:
  "hoare (\<lambda>s. stack s = t # u # ts) (xthen (AbortSubTransaction cf) CleanupSubTransaction) (\<lambda>_ s. stack s = u # ts) (settled R)"
  by (rule hoare_xthen [OF hoare_abort_sub])
    (rule hoare_ex, rule hoare_weaken [OF hoare_cleanup_sub], auto)

section \<open>Recovery from an error\<close>

lemma xthen_assoc: "xthen (xthen a b) c = xthen a (xthen b c)"
  by (auto simp: xthen_def fun_eq_iff split: prod.splits sum.splits)

lemma hoare_eq: "(\<And>s. P s \<Longrightarrow> m s = m' s) \<Longrightarrow> hoare P m' Q E \<Longrightarrow> hoare P m Q E"
  by (simp add: hoare_def)

lemma based_tl: "based (t # u # ts) \<Longrightarrow> based (u # ts)"
  by (simp add: based_def)

lemma savepoints_Cons [simp]: "ts \<noteq> [] \<Longrightarrow> savepoints (t # ts) = spname t # savepoints ts" "savepoints [t] = []"
  by (simp_all add: savepoints_def)

fun after_error :: "frames \<Rightarrow> block" where
  "after_error [] = Idle"
| "after_error [t] = (if blockState t = TBLOCK_INPROGRESS \<or> blockState t = TBLOCK_ABORT then Failed [] else Idle)"
| "after_error (t # u # ts) =
     (if blockState t = TBLOCK_SUBINPROGRESS \<or> blockState t = TBLOCK_SUBABORT then Failed (savepoints (t # u # ts))
      else after_error (u # ts))"

lemma abort_current_top:
  assumes "recoverable [t]" "based [t]"
  shows "hoare (\<lambda>s. stack s = [t]) (AbortCurrentTransaction cf) (\<lambda>_ s. resting (after_error [t]) (stack s)) (settled R)"
proof -
  consider (idle) "blockState t = TBLOCK_DEFAULT" "trans_state t = TRANS_DEFAULT"
    | (failed) "blockState t = TBLOCK_ABORT" "trans_state t = TRANS_ABORT"
    | (live) "blockState t = TBLOCK_INPROGRESS"
    | (ended) "blockState t = TBLOCK_ABORT_END" "trans_state t = TRANS_ABORT"
    | (other) "blockState t \<in> {TBLOCK_STARTED, TBLOCK_BEGIN, TBLOCK_IMPLICIT_INPROGRESS, TBLOCK_END, TBLOCK_ABORT_PENDING,
        TBLOCK_PREPARE}"
    using assms by (auto split: if_splits)
  then show ?thesis
  proof cases
    case live
    have "hoare (\<lambda>s. stack s = [t]) (xthen (AbortTransaction cf) (modify (set_block TBLOCK_ABORT)))
        (\<lambda>_ s. resting (after_error [t]) (stack s)) (settled R)"
      by (rule hoare_xthen [OF hoare_abort_top], rule hoare_modify)
        (use live assms(2) in \<open>auto simp: left_as_def alike_def based_def\<close>)
    then show ?thesis by (rule hoare_eq [rotated]) (use live in \<open>simp add: AbortCurrentTransaction.simps\<close>)
  next
    case ended
    have "hoare (\<lambda>s. stack s = [t] \<and> trans_state t = TRANS_ABORT) (xthen CleanupTransaction (modify (set_block TBLOCK_DEFAULT)))
        (\<lambda>_ s. resting (after_error [t]) (stack s)) (settled R)"
      by (rule hoare_xthen [OF hoare_cleanup_top], rule hoare_modify)
        (use ended assms(2) in \<open>auto simp: left_as_def alike_def based_def\<close>)
    then show ?thesis by (rule hoare_eq [rotated, OF hoare_weaken]) (use ended in \<open>auto simp: AbortCurrentTransaction.simps\<close>)
  next
    case other
    then have idle: "after_error [t] = Idle" by auto
    show ?thesis unfolding idle resting.simps
      by (rule hoare_eq [rotated, OF hoare_weaken [OF hoare_abort_to_default]])
        (use other assms(2) in \<open>auto simp: AbortCurrentTransaction.simps\<close>)
  qed (use assms(2) in \<open>auto simp: hoare_def AbortCurrentTransaction.simps abort_idle_def ret_def\<close>)
qed

lemma abort_current_recovers:
  assumes "recoverable ts" "based ts"
  shows "hoare (\<lambda>s. stack s = ts) (AbortCurrentTransaction cf) (\<lambda>_ s. resting (after_error ts) (stack s)) (settled R)"
  using assms
proof (induction ts rule: recoverable.induct)
  case (2 t)
  then show ?case using abort_current_top by blast
next
  case (3 t u ts)
  note level = based_tl [OF 3(3)]
  consider (live) "blockState t = TBLOCK_SUBINPROGRESS" "opened {TBLOCK_INPROGRESS} (u # ts)"
    | (failed) "blockState t = TBLOCK_SUBABORT" "trans_state t = TRANS_ABORT" "opened {TBLOCK_INPROGRESS} (u # ts)"
    | (abort) "blockState t \<in> {TBLOCK_SUBBEGIN, TBLOCK_SUBRELEASE, TBLOCK_SUBCOMMIT, TBLOCK_SUBABORT_PENDING, TBLOCK_SUBRESTART}"
        "recoverable (u # ts)"
    | (clean) "blockState t \<in> {TBLOCK_SUBABORT_END, TBLOCK_SUBABORT_RESTART}" "recoverable (u # ts)"
    using 3(2) by (auto split: if_splits)
  then show ?case
  proof cases
    case live
    have "hoare (\<lambda>s. stack s = t # u # ts) (xthen (AbortSubTransaction cf) (modify (set_block TBLOCK_SUBABORT)))
        (\<lambda>_ s. resting (after_error (t # u # ts)) (stack s)) (settled R)"
      by (rule hoare_xthen [OF hoare_abort_sub], rule hoare_modify)
        (use live 3(3) in \<open>auto simp: left_as_def alike_def based_def\<close>)
    then show ?thesis by (rule hoare_eq [rotated]) (use live in \<open>simp add: AbortCurrentTransaction.simps\<close>)
  next
    case abort
    have "hoare (\<lambda>s. stack s = t # u # ts)
        (xthen (xthen (AbortSubTransaction cf) CleanupSubTransaction) (AbortCurrentTransaction cf))
        (\<lambda>_ s. resting (after_error (t # u # ts)) (stack s)) (settled R)"
      by (rule hoare_xthen [OF hoare_abort_pop]) (use abort 3(1) level in auto)
    then show ?thesis by (rule hoare_eq [rotated]) (use abort in \<open>auto simp: AbortCurrentTransaction.simps xthen_assoc\<close>)
  next
    case clean
    have "hoare (\<lambda>s. stack s = t # u # ts) (xthen CleanupSubTransaction (AbortCurrentTransaction cf))
        (\<lambda>_ s. resting (after_error (t # u # ts)) (stack s)) (settled R)"
      by (rule hoare_xthen [OF hoare_cleanup_sub]) (use clean 3(1) level in auto)
    then show ?thesis by (rule hoare_eq [rotated]) (use clean in \<open>auto simp: AbortCurrentTransaction.simps\<close>)
  qed (use 3(3) in \<open>auto simp: hoare_def AbortCurrentTransaction.simps ret_def\<close>)
qed simp

section \<open>Leaving every transaction\<close>

definition sub_states :: "TBlockState set" where
  "sub_states = {TBLOCK_SUBBEGIN, TBLOCK_SUBINPROGRESS, TBLOCK_SUBRELEASE, TBLOCK_SUBCOMMIT, TBLOCK_SUBABORT, TBLOCK_SUBABORT_END,
     TBLOCK_SUBABORT_PENDING, TBLOCK_SUBRESTART, TBLOCK_SUBABORT_RESTART}"

fun nested :: "frames \<Rightarrow> bool" where
  "nested [] = False"
| "nested [t] = (blockState t \<notin> sub_states \<and> (blockState t \<in> {TBLOCK_ABORT, TBLOCK_ABORT_END} \<longrightarrow> trans_state t = TRANS_ABORT))"
| "nested (t # u # ts) = (blockState t \<in> sub_states \<and> blockState u \<noteq> TBLOCK_DEFAULT \<and> nested (u # ts))"

lemma abort_out_top:
  assumes "nested [t]"
  shows "hoare (\<lambda>s. stack s = [t]) (AbortOutOfAnyTransaction cf) (\<lambda>_ s. idle (stack s)) (settled R)"
proof -
  consider (idle) "blockState t = TBLOCK_DEFAULT"
    | (failed) "blockState t = TBLOCK_ABORT \<or> blockState t = TBLOCK_ABORT_END" "trans_state t = TRANS_ABORT"
    | (other) "blockState t \<in> {TBLOCK_STARTED, TBLOCK_BEGIN, TBLOCK_INPROGRESS, TBLOCK_IMPLICIT_INPROGRESS,
        TBLOCK_PARALLEL_INPROGRESS, TBLOCK_END, TBLOCK_ABORT_PENDING, TBLOCK_PREPARE}"
    using assms by (cases "blockState t") (auto simp: sub_states_def)
  then show ?thesis
  proof cases
    case idle
    have clean: "hoare (\<lambda>s. stack s = [t\<lparr>trans_state := st\<rparr>]) (abort_and_clean cf) (\<lambda>_ s. idle (stack s)) (settled R)" for st
      unfolding abort_and_clean_def
      by (rule hoare_weaken [OF hoare_abort_clean]) (use idle in \<open>auto simp: left_as_def alike_def\<close>)
    have "hoare (\<lambda>s. stack s = [t]) (abort_idle cf) (\<lambda>_ s. idle (stack s)) (settled R)"
    proof (rule hoareI)
      fix s a s' assume s: "stack s = [t]" and r: "abort_idle cf s = (Inr a, s')"
      show "idle (stack s')"
        using s r idle hoareD(1) [OF clean, of "set_state TRANS_INPROGRESS s" TRANS_INPROGRESS a s'] hoareD(1) [OF clean, of s "trans_state t" a s']
        by (auto simp: abort_idle_def ret_def split: if_splits)
    next
      fix s e s' assume s: "stack s = [t]" and r: "abort_idle cf s = (Inl e, s')"
      show "settled R e s'"
        using s r hoareD(2) [OF clean, of "set_state TRANS_INPROGRESS s" TRANS_INPROGRESS e s'] hoareD(2) [OF clean, of s "trans_state t" e s']
        by (auto simp: abort_idle_def ret_def split: if_splits)
    qed
    then show ?thesis by (rule hoare_eq [rotated]) (use idle in \<open>simp add: AbortOutOfAnyTransaction.simps\<close>)
  next
    case failed
    have "hoare (\<lambda>s. stack s = [t] \<and> trans_state t = TRANS_ABORT) (xthen CleanupTransaction (modify (set_block TBLOCK_DEFAULT)))
        (\<lambda>_ s. idle (stack s)) (settled R)"
      by (rule hoare_xthen [OF hoare_cleanup_top], rule hoare_modify) (auto simp: left_as_def alike_def)
    then show ?thesis by (rule hoare_eq [rotated, OF hoare_weaken]) (use failed in \<open>auto simp: AbortOutOfAnyTransaction.simps\<close>)
  next
    case other
    then show ?thesis
      by (intro hoare_eq [rotated, OF hoare_weaken [OF hoare_abort_to_default]]) (auto simp: AbortOutOfAnyTransaction.simps)
  qed
qed

lemma abort_out_idle:
  assumes "nested ts"
  shows "hoare (\<lambda>s. stack s = ts) (AbortOutOfAnyTransaction cf) (\<lambda>_ s. idle (stack s)) (settled R)"
  using assms
proof (induction ts rule: nested.induct)
  case (2 t)
  then show ?case using abort_out_top by blast
next
  case (3 t u ts)
  let ?loop = "\<lambda>s. if blockState (cur s) \<noteq> TBLOCK_DEFAULT then AbortOutOfAnyTransaction cf s else ret () s"
  have loop: "hoare (\<lambda>s. stack s = u # ts) ?loop (\<lambda>_ s. idle (stack s)) (settled R)"
    by (rule hoare_eq [OF _ 3(1)]) (use 3(2) in auto)
  show ?case
  proof (cases "blockState t \<in> {TBLOCK_SUBABORT, TBLOCK_SUBABORT_END, TBLOCK_SUBABORT_RESTART}")
    case True
    then show ?thesis
      by (intro hoare_eq [OF _ hoare_xthen [OF hoare_cleanup_sub loop]]) (auto simp: AbortOutOfAnyTransaction.simps)
  next
    case False
    then show ?thesis using 3(2)
      by (intro hoare_eq [OF _ hoare_xthen [OF hoare_abort_pop loop]])
        (auto simp: AbortOutOfAnyTransaction.simps xthen_assoc sub_states_def)
  qed
qed simp

end
