(* ===== verification/Xact_Commands.thy ===== *)
theory Xact_Commands
  imports Xact_Recovery
begin

text \<open>
  What \<^verbatim>\<open>CommitTransactionCommand\<close> makes of the marks that the transaction statements leave on the
  stack: on success the block the statement stands for, on an error a stack from which
  \<^verbatim>\<open>AbortCurrentTransaction\<close> leads to a known block.
\<close>

section \<open>Ids, counters and new entries\<close>

lemma alike_update [simp]:
  "i < length ts \<Longrightarrow> list_all2 alike ts (ts[i := (ts ! i)\<lparr>fullTransactionId := x\<rparr>])"
  "i < length ts \<Longrightarrow> list_all2 alike ts (ts[i := (ts ! i)\<lparr>didLogXid := b\<rparr>])"
  by (auto simp: list_all2_conv_all_nth nth_list_update alike_def)

lemma alike_trans: "alike t u \<Longrightarrow> alike u v \<Longrightarrow> alike t v"
  by (simp add: alike_def)

lemma alike_list_trans: "list_all2 alike ts us \<Longrightarrow> list_all2 alike us vs \<Longrightarrow> list_all2 alike ts vs"
  by (rule list_all2_trans [where ?P1.0 = alike and ?P2.0 = alike, OF alike_trans])

lemma upd_frame_alike:
  "i < length (stack s) \<Longrightarrow> list_all2 alike (stack s) (stack (upd_frame i (\<lambda>t. t\<lparr>fullTransactionId := x\<rparr>) s))"
  "i < length (stack s) \<Longrightarrow> list_all2 alike (stack s) (stack (upd_frame i (\<lambda>t. t\<lparr>didLogXid := b\<rparr>) s))"
  by (simp_all add: upd_frame_def)

lemma report_xid_alike: "stack s \<noteq> [] \<Longrightarrow> list_all2 alike (stack s) (stack (report_xid cf x b s))"
  by (simp add: report_xid_def Let_def upd_frame_def)

definition keeps :: "'a xm \<Rightarrow> bool" where
  "keeps m \<longleftrightarrow> (\<forall>ts. ts \<noteq> [] \<longrightarrow> hoare (\<lambda>s. list_all2 alike ts (stack s)) m (\<lambda>_ s. list_all2 alike ts (stack s))
     (settled (list_all2 alike ts)))"

lemma keepsD: "keeps m \<Longrightarrow> ts \<noteq> [] \<Longrightarrow> hoare (\<lambda>s. list_all2 alike ts (stack s)) m (\<lambda>_ s. list_all2 alike ts (stack s))
     (settled (list_all2 alike ts))"
  by (simp add: keeps_def)

lemma keeps_xthen: "keeps m \<Longrightarrow> keeps k \<Longrightarrow> keeps (xthen m k)"
  by (auto simp: keeps_def intro!: hoare_xthen)

lemma keeps_xbind: "keeps m \<Longrightarrow> (\<And>a. keeps (f a)) \<Longrightarrow> keeps (xbind m f)"
  by (auto simp: keeps_def intro!: hoare_xbind)

lemma keeps_seq: "list_all keeps ms \<Longrightarrow> keeps (seq ms)"
  by (induction ms) (auto simp: keeps_xthen, simp add: keeps_def ret_def hoare_def)

text \<open>A routine keeps the shape when every outcome leaves a stack alike and errors are of level \<^verbatim>\<open>ERROR\<close>.\<close>

lemma keepsI:
  assumes "\<And>s r s'. \<lbrakk> stack s \<noteq> []; m s = (r, s') \<rbrakk> \<Longrightarrow>
     list_all2 alike (stack s) (stack s') \<and> (\<forall>e. r = Inl e \<longrightarrow> (\<exists>x. e = Xerror ERROR x))"
  shows "keeps m"
  unfolding keeps_def
proof (intro allI impI hoareI)
  fix ts s a s' assume ts: "ts \<noteq> []" "list_all2 alike ts (stack s)" "m s = (Inr a, s')"
  then have "stack s \<noteq> []" by auto
  then show "list_all2 alike ts (stack s')" using assms [of s "Inr a" s'] ts alike_list_trans by blast
next
  fix ts s e s' assume ts: "ts \<noteq> []" "list_all2 alike ts (stack s)" "m s = (Inl e, s')"
  then have "stack s \<noteq> []" by auto
  then have "list_all2 alike ts (stack s')" "\<exists>x. e = Xerror ERROR x" using assms [of s "Inl e" s'] ts alike_list_trans by blast+
  then show "settled (list_all2 alike ts) e s'" by auto
qed

lemma keeps_same_stack:
  assumes "\<And>s r s'. m s = (r, s') \<Longrightarrow> stack s' = stack s \<and> (\<forall>e. r = Inl e \<longrightarrow> (\<exists>x. e = Xerror ERROR x))"
  shows "keeps m"
  using assms by (intro keepsI) auto

lemma keeps_counter: "keeps (CommandCounterIncrement cf)"
  by (rule keeps_same_stack) (auto simp: CommandCounterIncrement_def raise_def split: if_splits)

lemma new_xid_cases:
  obtains (ok) full y where "new_xid cf b s = (Inr full, s\<lparr>xsys := y\<rparr>)"
  | (error) x where "new_xid cf b s = (Inl (Xerror ERROR x), s)"
  by (cases "GetNewTransactionId (IsInParallelMode s) False (RecoveryInProgress cf) (IsUnderPostmaster cf) (othersMeanwhile cf) (MyProc (backend s)) b (xsys s)")
    (auto simp: new_xid_def raise_def)

lemma assign_frame_alike:
  assumes "assign_frame cf i s = (r, s')" "i < length (stack s)"
  shows "list_all2 alike (stack s) (stack s') \<and> (\<forall>e. r = Inl e \<longrightarrow> (\<exists>x. e = Xerror ERROR x))"
proof (cases "IsInParallelMode s \<or> IsParallelWorker cf")
  case True
  then show ?thesis using assms by (auto simp: assign_frame_def raise_def)
next
  case run: False
  show ?thesis
  proof (cases rule: new_xid_cases [of cf "i + 1 < length (stack s)" s])
    case (ok full y)
    define u where "u = upd_frame i (\<lambda>t. t\<lparr>fullTransactionId := full\<rparr>) (s\<lparr>xsys := y\<rparr>)"
    have u: "list_all2 alike (stack s) (stack u)"
      using assms(2) upd_frame_alike(1) [of i "s\<lparr>xsys := y\<rparr>" full] by (simp add: u_def)
    have "list_all2 alike (stack u) (stack (report_xid cf x b (u\<lparr>xsys := z\<rparr>)))" for x b z
      using report_xid_alike [of "u\<lparr>xsys := z\<rparr>"] assms(2) by (force simp: u_def upd_frame_def)
    then have "list_all2 alike (stack s) (stack (report_xid cf x b (u\<lparr>xsys := z\<rparr>)))" for x b z
      using alike_list_trans [OF u] by blast
    with u show ?thesis using assms(1) run ok
      by (simp add: assign_frame_def xbind_def ret_def Let_def u_def [symmetric] split: if_splits) auto
  next
    case (error x)
    then show ?thesis using assms(1) run by (auto simp: assign_frame_def xbind_def Let_def)
  qed
qed

lemma assign_frames_alike:
  assumes "\<forall>i \<in> set is. i < length ts"
  shows "hoare (\<lambda>s. list_all2 alike ts (stack s)) (seq (map (assign_frame cf) is)) (\<lambda>_ s. list_all2 alike ts (stack s))
     (settled (list_all2 alike ts))"
  using assms
proof (induction "is")
  case (Cons i "is")
  have "hoare (\<lambda>s. list_all2 alike ts (stack s)) (assign_frame cf i) (\<lambda>_ s. list_all2 alike ts (stack s)) (settled (list_all2 alike ts))"
  proof (rule hoareI)
    fix s a s' assume s: "list_all2 alike ts (stack s)" "assign_frame cf i s = (Inr a, s')"
    then show "list_all2 alike ts (stack s')"
      using assign_frame_alike [OF s(2)] Cons(2) alike_list_trans [OF s(1)] list_all2_lengthD [OF s(1)] by auto
  next
    fix s e s' assume s: "list_all2 alike ts (stack s)" "assign_frame cf i s = (Inl e, s')"
    then show "settled (list_all2 alike ts) e s'"
      using assign_frame_alike [OF s(2)] Cons(2) alike_list_trans [OF s(1)] list_all2_lengthD [OF s(1)] by auto
  qed
  then show ?case using Cons by (auto intro: hoare_xthen)
qed (simp add: hoare_ret)

lemma keeps_assign: "keeps (AssignTransactionId cf 0)"
  unfolding keeps_def
proof (intro allI impI, rule hoare_pre)
  fix ts and s :: xact assume ts: "ts \<noteq> []" "list_all2 alike ts (stack s)"
  let ?ps = "takeWhile (\<lambda>t. \<not> FullTransactionIdIsValid (fullTransactionId t)) (drop 1 (stack s))"
  have "length ?ps \<le> length ts - 1"
    using length_takeWhile_le [of _ "drop 1 (stack s)"] list_all2_lengthD [OF ts(2)] by simp
  then have bound: "\<forall>j \<in> set (rev [0 ..< 1 + length ?ps]). j < length ts" using ts(1) by (cases ts) auto
  show "hoare (\<lambda>s'. s' = s) (AssignTransactionId cf 0) (\<lambda>_ s. list_all2 alike ts (stack s)) (settled (list_all2 alike ts))"
  proof (cases "IsInParallelMode s \<or> IsParallelWorker cf")
    case True
    then show ?thesis using ts by (auto simp: hoare_def AssignTransactionId_def raise_def)
  next
    case False
    show ?thesis
      by (rule hoare_eq [OF _ hoare_weaken [OF assign_frames_alike [OF bound, of cf]]])
        (use False ts in \<open>auto simp: AssignTransactionId_def Let_def\<close>)
  qed
qed

lemma keeps_current_xid: "keeps (GetCurrentTransactionId cf)"
proof -
  have "keeps (\<lambda>s. if \<not> FullTransactionIdIsValid (fullTransactionId (cur s)) then AssignTransactionId cf 0 s else ret () s)"
    using keeps_assign [of cf] by (auto simp: keeps_def hoare_def ret_def)
  then show ?thesis unfolding GetCurrentTransactionId_def
    by (rule keeps_xbind) (simp add: keeps_def hoare_def)
qed

section \<open>Subtransactions\<close>

text \<open>The stack after an error of \<^verbatim>\<open>CommitSubTransaction\<close> or \<^verbatim>\<open>CommitTransaction\<close>: the current entry may be left in another
  \<^verbatim>\<open>TransState\<close>.\<close>

definition left_over :: "frames \<Rightarrow> frames \<Rightarrow> bool" where
  "left_over ts ts' \<longleftrightarrow> (\<exists>st t'. ts' = t' # tl ts \<and> left_as st (hd ts) t')"

lemma hoare_commit_sub:
  "hoare (\<lambda>s. stack s = t # u # ts) (CommitSubTransaction cf)
     (\<lambda>_ s. \<exists>u'. stack s = u' # ts \<and> alike u u') (settled (left_over (t # u # ts)))"
proof (rule hoareI)
  fix s a s' assume "stack s = t # u # ts" "CommitSubTransaction cf s = (Inr a, s')"
  then show "\<exists>u'. stack s' = u' # ts \<and> alike u u'"
    by (auto simp: CommitSubTransaction_def CommandCounterIncrement_def AtSubCommit_childXids_def PopTransaction_def xm_defs alike_def
      split: prod.splits sum.splits if_splits)
next
  fix s e s' assume "stack s = t # u # ts" "CommitSubTransaction cf s = (Inl e, s')"
  then show "settled (left_over (t # u # ts)) e s'"
    by (auto simp: CommitSubTransaction_def CommandCounterIncrement_def AtSubCommit_childXids_def PopTransaction_def xm_defs left_over_def
      left_as_def alike_def split: prod.splits sum.splits if_splits)
qed

lemma hoare_push:
  "hoare (\<lambda>s. stack s = t # ts) PushTransaction
     (\<lambda>_ s. \<exists>t'. stack s = t' # t # ts \<and> blockState t' = TBLOCK_SUBBEGIN \<and> spname t' = None \<and> savepointLevel t' = savepointLevel t
        \<and> chain t' = False)
     (settled (\<lambda>ts'. ts' = t # ts))"
  by (rule hoareI) (auto simp: PushTransaction_def raise_def Let_def split: if_splits)

section \<open>Top-level transactions\<close>

lemma record_commit_stack:
  "RecordTransactionCommit cf s = (r, s') \<Longrightarrow> stack s' = stack s \<and> (\<forall>e. r = Inl e \<longrightarrow> (\<exists>x. e = Xerror ERROR x))"
  by (auto simp: RecordTransactionCommit_def raise_def Let_def split: if_splits)

lemma hoare_commit_top:
  "hoare (\<lambda>s. stack s = [t]) (CommitTransaction cf)
     (\<lambda>_ s. \<exists>t'. stack s = [t'] \<and> left_as TRANS_DEFAULT t t') (settled (left_over [t]))"
  by (rule hoareI)
    (auto simp: CommitTransaction_def EnterParallelMode_def xm_defs Let_def left_over_def left_as_def alike_def dest!: record_commit_stack
      split: prod.splits sum.splits if_splits)

lemma hoare_prepare_top:
  "hoare (\<lambda>s. stack s = [t]) (PrepareTransaction cf)
     (\<lambda>_ s. \<exists>t'. stack s = [t'] \<and> left_as TRANS_DEFAULT t t') (settled (left_over [t]))"
proof -
  have "hoare (\<lambda>s. stack s = [t]) (GetCurrentTransactionId cf) (\<lambda>_ s. \<exists>u. stack s = [u] \<and> alike t u) (settled (left_over [t]))"
    by (rule hoare_weaken [OF keepsD [OF keeps_current_xid, of "[t]"]])
      (auto simp: list_all2_Cons1 left_over_def left_as_def settled_def alike_def split: xact_error.splits elevel.splits)
  then show ?thesis unfolding PrepareTransaction_def
    by (rule hoare_xbind) (rule hoareI, auto simp: xm_defs left_over_def left_as_def alike_def split: if_splits)
qed

lemma StartTransaction_stack:
  "stack s = [t] \<Longrightarrow> \<exists>t'. stack (StartTransaction cf s) = [t'] \<and> left_as TRANS_INPROGRESS t t'"
  by (simp add: StartTransaction_def GetNextLocalTransactionId_def Let_def left_as_def alike_def set_state_def upd_cur_def)

lemma finish_chain_stack:
  assumes "stack s = [t]" "trans_state t = TRANS_DEFAULT" "based [t]" "b = (if chain t then Open [] else Idle)"
  shows "resting b (stack (finish_chain cf s))"
proof (cases "chain t")
  case True
  obtain t' where "stack (StartTransaction cf (set_block TBLOCK_DEFAULT s)) = [t']" "left_as TRANS_INPROGRESS (t\<lparr>blockState := TBLOCK_DEFAULT\<rparr>) t'"
    using StartTransaction_stack [of "set_block TBLOCK_DEFAULT s" "t\<lparr>blockState := TBLOCK_DEFAULT\<rparr>" cf] assms by auto
  then show ?thesis using assms True
    by (simp add: finish_chain_def RestoreTransactionCharacteristics_def Let_def left_as_def alike_def based_def)
next
  case False
  then show ?thesis using assms by (simp add: finish_chain_def Let_def based_def)
qed

section \<open>Marks\<close>

definition fails_to :: "block \<Rightarrow> frames \<Rightarrow> bool" where
  "fails_to b ts \<longleftrightarrow> recoverable ts \<and> based ts \<and> after_error ts = b"

fun commit_marked :: "frames \<Rightarrow> bool" where
  "commit_marked [] = False"
| "commit_marked [t] = (blockState t \<in> {TBLOCK_END, TBLOCK_PREPARE})"
| "commit_marked (t # u # ts) = (blockState t = TBLOCK_SUBCOMMIT \<and> commit_marked (u # ts))"

fun release_marked :: "string option list \<Rightarrow> frames \<Rightarrow> bool" where
  "release_marked ns [] = False"
| "release_marked ns (t # ts) =
     (blockState t = TBLOCK_SUBRELEASE \<and> ts \<noteq> [] \<and> (release_marked ns ts \<or> resting (Open ns) ts))"

fun rollback_marked :: "block \<Rightarrow> frames \<Rightarrow> bool" where
  "rollback_marked b [] = False"
| "rollback_marked b [t] =
     ((blockState t = TBLOCK_ABORT_PENDING \<or> blockState t = TBLOCK_ABORT_END \<and> trans_state t = TRANS_ABORT)
      \<and> b = (if chain t then Open [] else Idle))"
| "rollback_marked b (t # u # ts) =
     (if blockState t \<in> {TBLOCK_SUBABORT_PENDING, TBLOCK_SUBABORT_END} then rollback_marked b (u # ts)
      else blockState t \<in> {TBLOCK_SUBRESTART, TBLOCK_SUBABORT_RESTART} \<and> savepointLevel t = savepointLevel u
        \<and> resting (Open (savepoints (u # ts))) (u # ts) \<and> b = Open (spname t # savepoints (u # ts)))"

lemma opened_fails:
  "opened {TBLOCK_INPROGRESS} ts \<Longrightarrow> based ts \<Longrightarrow> fails_to (Failed (savepoints ts)) ts"
  by (cases ts rule: recoverable.cases) (auto simp: fails_to_def sub_live_def)

lemma based_left: "left_as st t t' \<Longrightarrow> based (t # ts) \<Longrightarrow> based (t' # ts)"
  by (cases ts) (auto simp: left_as_def alike_def based_def)

lemma left_as_fields:
  "left_as st t t' \<Longrightarrow> blockState t' = blockState t \<and> spname t' = spname t \<and> chain t' = chain t \<and> savepointLevel t' = savepointLevel t
     \<and> trans_state t' = st"
  by (simp add: left_as_def alike_def)

lemma commit_marked_left:
  "commit_marked (t # ts) \<Longrightarrow> blockState t' = blockState t \<Longrightarrow> commit_marked (t' # ts)"
  by (cases ts) auto

lemma commit_marked_fails: "commit_marked ts \<Longrightarrow> based ts \<Longrightarrow> fails_to Idle ts"
  by (induction ts rule: commit_marked.induct) (auto simp: fails_to_def dest: based_tl)

lemma release_marked_fails:
  "release_marked ns ts \<Longrightarrow> based ts \<Longrightarrow> fails_to (Failed ns) ts"
proof (induction ns ts rule: release_marked.induct)
  case (2 ns t ts)
  then obtain u us where ts: "ts = u # us" by (cases ts) auto
  have "fails_to (Failed ns) ts"
    using 2 opened_fails [of ts] based_tl [of t u us] by (auto simp: ts)
  then show ?case using 2(2,3) ts by (simp add: fails_to_def)
qed simp

text \<open>The loop that commits subtransactions, for marks \<open>M\<close> with block state \<open>b\<close> above a stack with \<open>D\<close>.\<close>

locale commit_loop =
  fixes M :: "frames \<Rightarrow> bool" and D :: "frames \<Rightarrow> bool" and b :: TBlockState and e :: block
  assumes marked: "M ts \<Longrightarrow> length ts > 1"
    and fails: "M ts \<Longrightarrow> left_over ts ts' \<Longrightarrow> fails_to e ts'"
    and shrink: "M (t # u # ts) \<Longrightarrow> alike u u' \<Longrightarrow>
      (if blockState u' = b then M (u' # ts) else D (u' # ts))"
begin

lemma commit_subs_loop: "hoare (\<lambda>s. stack s = ts \<and> M ts) (commit_subs cf b) (\<lambda>_ s. D (stack s)) (settled (fails_to e))"
proof (induction "length ts" arbitrary: ts rule: less_induct)
  case less
  show ?case
  proof (rule hoare_fact)
    assume m: "M ts"
    then obtain t u us where ts: "ts = t # u # us" using marked [OF m] by (cases ts; cases "tl ts") auto
    let ?loop = "\<lambda>s. if blockState (cur s) = b then commit_subs cf b s else ret () s"
    have step: "hoare (\<lambda>s. stack s = ts) (CommitSubTransaction cf) (\<lambda>_ s. \<exists>u'. stack s = u' # us \<and> alike u u') (settled (fails_to e))"
      unfolding ts
      by (rule hoare_weaken [OF hoare_commit_sub])
        (use fails [OF m] ts in \<open>auto simp: settled_def split: xact_error.splits elevel.splits\<close>)
    have rest: "hoare (\<lambda>s. stack s = u' # us \<and> alike u u') ?loop (\<lambda>_ s. D (stack s)) (settled (fails_to e))" for u'
    proof (rule hoare_fact)
      assume "alike u u'"
      then have "if blockState u' = b then M (u' # us) else D (u' # us)" using shrink [of t u us u'] m ts by simp
      then show "hoare (\<lambda>s. stack s = u' # us) ?loop (\<lambda>_ s. D (stack s)) (settled (fails_to e))"
        using less [of "u' # us"] ts by (cases "blockState u' = b") (auto simp: hoare_def ret_def)
    qed
    show "hoare (\<lambda>s. stack s = ts) (commit_subs cf b) (\<lambda>_ s. D (stack s)) (settled (fails_to e))"
      by (rule hoare_eq [OF _ hoare_xthen [OF step hoare_ex [OF rest]]]) (simp add: commit_subs.simps)
  qed
qed

end

definition commit_base :: "frames \<Rightarrow> bool" where
  "commit_base ts \<longleftrightarrow> (\<exists>t. ts = [t] \<and> blockState t \<in> {TBLOCK_END, TBLOCK_PREPARE}) \<and> based ts"

interpretation commit_marks: commit_loop "\<lambda>ts. commit_marked ts \<and> based ts \<and> length ts > 1" commit_base TBLOCK_SUBCOMMIT Idle
proof (unfold_locales, goal_cases)
  case (2 ts ts')
  then obtain t u us where ts: "ts = t # u # us" by (cases ts rule: commit_marked.cases) auto
  then obtain st t' where t': "ts' = t' # u # us" "left_as st t t'" using 2 by (auto simp: left_over_def)
  then show ?case
    using 2 ts left_as_fields [OF t'(2)] based_left [OF t'(2)] by (auto intro!: commit_marked_fails)
next
  case (3 t u us u')
  then have "commit_marked (u' # us)" "based (u' # us)"
    using based_alike [of "u # us" "u' # us"] commit_marked_left [of u us u'] based_tl [of t u us] by (auto simp: alike_def)
  then show ?case by (cases us) (auto simp: commit_base_def)
qed simp

lemma release_marked_alike:
  "list_all2 alike ts ts' \<Longrightarrow> release_marked ns ts \<Longrightarrow> release_marked ns ts'"
proof (induction ns ts arbitrary: ts' rule: release_marked.induct)
  case (2 ns t ts)
  then obtain t' us' where ts': "ts' = t' # us'" "alike t t'" "list_all2 alike ts us'" by (auto simp: list_all2_Cons1)
  then show ?case using 2 shape_alike [OF ts'(3)] by (auto simp: alike_def)
qed simp

interpretation release_marks: commit_loop "\<lambda>ts. release_marked ns ts \<and> based ts" "resting (Open ns)" TBLOCK_SUBRELEASE "Failed ns"
  for ns
proof (unfold_locales, goal_cases)
  case (1 ts)
  then show ?case by (cases ts) auto
next
  case (2 ts ts')
  then obtain t us where ts: "ts = t # us" by (cases ts) auto
  then obtain st t' where t': "ts' = t' # us" "left_as st t t'" using 2 by (auto simp: left_over_def)
  then show ?case
    using 2 ts left_as_fields [OF t'(2)] based_left [OF t'(2)] by (auto intro!: release_marked_fails)
next
  case (3 t u us u')
  have a: "list_all2 alike (u # us) (u' # us)" using 3 by simp
  have "based (u' # us)" using 3 based_alike [OF a] based_tl [of t u us] by simp
  moreover have "blockState u' \<noteq> TBLOCK_SUBRELEASE" if "opened {TBLOCK_INPROGRESS} (u' # us)"
    using that by (cases us) (auto simp: sub_live_def)
  ultimately show ?case
    using 3 release_marked_alike [OF a] shape_alike [OF a] by auto
qed

section \<open>Completing a command\<close>

lemma save_stack [simp]: "stack (SaveTransactionCharacteristics s) = stack s"
  by (simp add: SaveTransactionCharacteristics_def)

text \<open>\<^verbatim>\<open>CommitTransactionCommand\<close> saves the characteristics first, which leaves the stack alone.\<close>

lemma hoare_command:
  assumes "hoare (\<lambda>s. stack s = t # ts) m Q E"
    and "\<And>s s0. \<lbrakk> stack s0 = t # ts; s = (if chain t then SaveTransactionCharacteristics s0 else s0) \<rbrakk> \<Longrightarrow>
       CommitTransactionCommand cf s0 = m s"
  shows "hoare (\<lambda>s. stack s = t # ts) (CommitTransactionCommand cf) Q E"
  unfolding hoare_def
proof (intro allI impI)
  fix s0 :: xact assume s0: "stack s0 = t # ts"
  define s where "s = (if chain t then SaveTransactionCharacteristics s0 else s0)"
  have "CommitTransactionCommand cf s0 = m s" using assms(2) [OF s0 s_def] .
  moreover have "stack s = t # ts" using s0 by (simp add: s_def)
  ultimately show "case CommitTransactionCommand cf s0 of (Inl e, s') \<Rightarrow> E e s' | (Inr a, s') \<Rightarrow> Q a s'"
    using assms(1) by (simp add: hoare_def)
qed

lemma settled_mono: "settled R e s \<Longrightarrow> (\<And>ts. R ts \<Longrightarrow> R' ts) \<Longrightarrow> settled R' e s"
  by (auto simp: settled_def split: xact_error.splits elevel.splits)

lemma hoare_settled: "hoare P m Q (settled R) \<Longrightarrow> (\<And>ts. R ts \<Longrightarrow> R' ts) \<Longrightarrow> hoare P m Q (settled R')"
  by (erule hoare_weaken) (auto elim: settled_mono)

text \<open>The branches that continue with \<^verbatim>\<open>CommitTransactionCommand\<close> itself or with a new subtransaction.\<close>

lemma command_eqs:
  assumes "stack s0 = t # ts" "s = (if chain t then SaveTransactionCharacteristics s0 else s0)"
  shows "blockState t = TBLOCK_SUBABORT_END \<Longrightarrow>
      CommitTransactionCommand cf s0 = xthen CleanupSubTransaction (CommitTransactionCommand cf) s"
    and "blockState t = TBLOCK_SUBABORT_PENDING \<Longrightarrow>
      CommitTransactionCommand cf s0 = xthen (xthen (AbortSubTransaction cf) CleanupSubTransaction) (CommitTransactionCommand cf) s"
    and "blockState t = TBLOCK_SUBRESTART \<Longrightarrow>
      CommitTransactionCommand cf s0 = xthen (xthen (AbortSubTransaction cf) CleanupSubTransaction)
        (restart_savepoint (spname t) (savepointLevel t)) (upd_cur (\<lambda>t. t\<lparr>spname := None\<rparr>) s)"
    and "blockState t = TBLOCK_SUBABORT_RESTART \<Longrightarrow>
      CommitTransactionCommand cf s0 = xthen CleanupSubTransaction
        (restart_savepoint (spname t) (savepointLevel t)) (upd_cur (\<lambda>t. t\<lparr>spname := None\<rparr>) s)"
  by (subst CommitTransactionCommand.simps, use assms in \<open>simp add: Let_def xthen_assoc split: if_splits\<close>)+

lemma hoare_upd_cur: "hoare (\<lambda>s. stack s = f t # ts) m Q E \<Longrightarrow> hoare (\<lambda>s. stack s = t # ts) (\<lambda>s. m (upd_cur f s)) Q E"
  by (simp add: hoare_def)

lemma hoare_to_default:
  assumes "hoare (\<lambda>s. stack s = [t]) m (\<lambda>_ s. \<exists>t'. stack s = [t'] \<and> left_as TRANS_DEFAULT t t') (settled (left_over [t]))"
    and "blockState t \<in> {TBLOCK_STARTED, TBLOCK_END, TBLOCK_PREPARE}" "based [t]"
  shows "hoare (\<lambda>s. stack s = [t]) (xthen m (modify (set_block TBLOCK_DEFAULT))) (\<lambda>_ s. resting Idle (stack s)) (settled (fails_to Idle))"
proof -
  have m: "hoare (\<lambda>s. stack s = [t]) m (\<lambda>_ s. \<exists>t'. stack s = [t'] \<and> left_as TRANS_DEFAULT t t') (settled (fails_to Idle))"
    by (rule hoare_settled [OF assms(1)]) (use assms(2,3) in \<open>auto simp: fails_to_def left_over_def left_as_def alike_def based_def\<close>)
  show ?thesis by (rule hoare_xthen [OF m], rule hoare_modify) (use assms(3) in \<open>auto simp: left_as_def alike_def based_def\<close>)
qed

lemma hoare_chain:
  assumes "hoare (\<lambda>s. stack s = [t]) m (\<lambda>_ s. \<exists>t'. stack s = [t'] \<and> left_as TRANS_DEFAULT t t') (settled R)"
    and "\<And>ts'. R ts' \<Longrightarrow> R' ts'" and "based [t]"
  shows "hoare (\<lambda>s. stack s = [t]) (xthen m (modify (finish_chain cf))) (\<lambda>_ s. resting (if chain t then Open [] else Idle) (stack s))
     (settled R')"
proof -
  have m: "hoare (\<lambda>s. stack s = [t]) m (\<lambda>_ s. \<exists>t'. stack s = [t'] \<and> left_as TRANS_DEFAULT t t') (settled R')"
    by (rule hoare_settled [OF assms(1,2)])
  show ?thesis
  proof (rule hoare_xthen [OF m], rule hoare_modify, elim exE conjE)
    fix s :: xact and t' assume "stack s = [t']" "left_as TRANS_DEFAULT t t'"
    then show "resting (if chain t then Open [] else Idle) (stack (finish_chain cf s))"
      using assms(3) by (intro finish_chain_stack [of s t']) (auto simp: left_as_def alike_def based_def)
  qed
qed

lemma command_started:
  assumes "blockState t = TBLOCK_STARTED" "based [t]"
  shows "hoare (\<lambda>s. stack s = [t]) (CommitTransactionCommand cf) (\<lambda>_ s. resting Idle (stack s)) (settled (fails_to Idle))"
  by (rule hoare_command [OF hoare_to_default [OF hoare_commit_top]])
    (use assms in \<open>auto simp: CommitTransactionCommand.simps Let_def\<close>)

definition commit_result :: "frames \<Rightarrow> block" where
  "commit_result ts = (if length ts = 1 \<and> blockState (hd ts) = TBLOCK_END \<and> chain (hd ts) then Open [] else Idle)"

lemma commit_base_command:
  "hoare (\<lambda>s. commit_base (stack s))
     (\<lambda>s. if blockState (cur s) = TBLOCK_END then xthen (CommitTransaction cf) (modify (set_block TBLOCK_DEFAULT)) s
            else if blockState (cur s) = TBLOCK_PREPARE
            then xthen (PrepareTransaction cf) (modify (set_block TBLOCK_DEFAULT)) s
            else raise ERROR UnexpectedState s)
     (\<lambda>_ s. resting Idle (stack s)) (settled (fails_to Idle))"
proof (rule hoare_pre)
  fix s :: xact assume "commit_base (stack s)"
  then obtain t where t: "stack s = [t]" "blockState t = TBLOCK_END \<or> blockState t = TBLOCK_PREPARE" "based [t]"
    by (auto simp: commit_base_def)
  then show "hoare (\<lambda>s'. s' = s) (\<lambda>s. if blockState (cur s) = TBLOCK_END then xthen (CommitTransaction cf) (modify (set_block TBLOCK_DEFAULT)) s
            else if blockState (cur s) = TBLOCK_PREPARE
            then xthen (PrepareTransaction cf) (modify (set_block TBLOCK_DEFAULT)) s
            else raise ERROR UnexpectedState s)
     (\<lambda>_ s. resting Idle (stack s)) (settled (fails_to Idle))"
    using hoare_to_default [OF hoare_commit_top [of t cf]] hoare_to_default [OF hoare_prepare_top [of t cf]]
    by (auto simp: hoare_def)
qed

lemma command_commit:
  assumes "commit_marked ts" "based ts"
  shows "hoare (\<lambda>s. stack s = ts) (CommitTransactionCommand cf) (\<lambda>_ s. resting (commit_result ts) (stack s)) (settled (fails_to Idle))"
proof (cases ts rule: commit_marked.cases)
  case (2 t)
  have over: "fails_to Idle ts'" if "blockState t = TBLOCK_END" "left_over [t] ts'" for ts'
    using that assms(2) 2 by (auto simp: fails_to_def left_over_def left_as_def alike_def based_def)
  have level: "based [t]" using assms(2) 2 by simp
  consider "blockState t = TBLOCK_END" | "blockState t = TBLOCK_PREPARE" using assms 2 by auto
  then show ?thesis
  proof cases
    case 1
    then have b: "commit_result ts = (if chain t then Open [] else Idle)" using 2 by (simp add: commit_result_def)
    show ?thesis unfolding 2 b [unfolded 2]
      by (rule hoare_command [OF hoare_chain [OF hoare_commit_top over]]) (use 1 level in \<open>auto simp: CommitTransactionCommand.simps Let_def\<close>)
  next
    case prep: 2
    then have b: "commit_result ts = Idle" using 2 by (simp add: commit_result_def)
    show ?thesis unfolding 2 b [unfolded 2]
      by (rule hoare_command [OF hoare_to_default [OF hoare_prepare_top]]) (use prep level in \<open>auto simp: CommitTransactionCommand.simps Let_def\<close>)
  qed
next
  case (3 t u us)
  have b: "commit_result ts = Idle" using 3 by (simp add: commit_result_def)
  have loop: "hoare (\<lambda>s. stack s = t # u # us) (commit_subs cf TBLOCK_SUBCOMMIT) (\<lambda>_ s. commit_base (stack s)) (settled (fails_to Idle))"
    by (rule hoare_weaken [OF commit_marks.commit_subs_loop [of "t # u # us"]]) (use assms 3 in auto)
  show ?thesis unfolding 3 b [unfolded 3]
    by (rule hoare_command [OF hoare_xthen [OF loop commit_base_command]])
      (use assms 3 in \<open>auto simp: CommitTransactionCommand.simps Let_def\<close>)
qed (use assms in simp)

lemma command_release:
  assumes "release_marked ns ts" "based ts"
  shows "hoare (\<lambda>s. stack s = ts) (CommitTransactionCommand cf) (\<lambda>_ s. resting (Open ns) (stack s)) (settled (fails_to (Failed ns)))"
proof -
  obtain t us where ts: "ts = t # us" using assms(1) by (cases ts) auto
  have loop: "hoare (\<lambda>s. stack s = t # us) (commit_subs cf TBLOCK_SUBRELEASE) (\<lambda>_ s. resting (Open ns) (stack s)) (settled (fails_to (Failed ns)))"
    by (rule hoare_weaken [OF release_marks.commit_subs_loop [of ts ns]]) (use assms ts in auto)
  show ?thesis unfolding ts
    by (rule hoare_command [OF loop]) (use assms ts in \<open>auto simp: CommitTransactionCommand.simps Let_def\<close>)
qed

section \<open>Rolling back\<close>

lemma define_savepoint_open:
  assumes "opened {TBLOCK_INPROGRESS} (u # us)"
  shows "hoare (\<lambda>s. stack s = u # us) (DefineSavepoint name)
     (\<lambda>_ s. \<exists>t. stack s = t # u # us \<and> blockState t = TBLOCK_SUBBEGIN \<and> spname t = name \<and> savepointLevel t = savepointLevel u)
     (settled (\<lambda>ts. ts = u # us))"
proof -
  have push: "hoare (\<lambda>s. stack s = u # us) (xthen PushTransaction (modify (upd_cur (\<lambda>t. t\<lparr>spname := name\<rparr>))))
     (\<lambda>_ s. \<exists>t. stack s = t # u # us \<and> blockState t = TBLOCK_SUBBEGIN \<and> spname t = name \<and> savepointLevel t = savepointLevel u)
     (settled (\<lambda>ts. ts = u # us))"
    by (rule hoare_xthen [OF hoare_push], rule hoare_modify) auto
  have "blockState u = TBLOCK_INPROGRESS \<or> blockState u = TBLOCK_SUBINPROGRESS" using assms by (cases us) (auto simp: sub_live_def)
  then show ?thesis
    using push by (auto simp: hoare_def DefineSavepoint_def raise_def)
qed

lemma hoare_restart:
  assumes "opened {TBLOCK_INPROGRESS} (u # us)" "based (u # us)" "lev = savepointLevel u"
  shows "hoare (\<lambda>s. stack s = u # us) (restart_savepoint name lev)
     (\<lambda>_ s. resting (Open (name # savepoints (u # us))) (stack s)) (settled (fails_to (Failed (savepoints (u # us)))))"
proof -
  let ?E = "settled (fails_to (Failed (savepoints (u # us))))"
  have "hoare (\<lambda>s. stack s = u # us) (DefineSavepoint None) (\<lambda>_ s. \<exists>t. stack s = t # u # us) (settled (\<lambda>ts. ts = u # us))"
    by (rule hoare_weaken [OF define_savepoint_open [OF assms(1)]]) auto
  then have new: "hoare (\<lambda>s. stack s = u # us) (DefineSavepoint None) (\<lambda>_ s. \<exists>t. stack s = t # u # us) ?E"
    by (rule hoare_settled) (use opened_fails [OF assms(1,2)] in simp)
  have "resting (Open (name # savepoints (u # us))) (stack (set_block TBLOCK_SUBINPROGRESS (StartSubTransaction
      (upd_cur (\<lambda>t. t\<lparr>spname := name, savepointLevel := lev\<rparr>) s))))" if "stack s = t # u # us" for s :: xact and t
    using that assms by (simp add: StartSubTransaction_def sub_live_def based_def)
  then have mod: "hoare (\<lambda>s. \<exists>t. stack s = t # u # us)
     (seq [modify (upd_cur (\<lambda>t. t\<lparr>spname := name, savepointLevel := lev\<rparr>)), modify StartSubTransaction, modify (set_block TBLOCK_SUBINPROGRESS)])
     (\<lambda>_ s. resting (Open (name # savepoints (u # us))) (stack s)) ?E"
    by (auto simp: hoare_def xthen_def modify_def ret_def simp del: resting.simps)
  show ?thesis unfolding restart_savepoint_def seq.simps(2) [of "DefineSavepoint None"] by (rule hoare_xthen [OF new mod])
qed

lemma command_rollback:
  assumes "rollback_marked b ts" "based ts"
  shows "hoare (\<lambda>s. stack s = ts) (CommitTransactionCommand cf) (\<lambda>_ s. resting b (stack s))
     (settled (\<lambda>ts'. \<exists>n ns. b = Open (n # ns) \<and> fails_to (Failed ns) ts'))"
  using assms
proof (induction b ts rule: rollback_marked.induct)
  case (2 b t)
  have b: "b = (if chain t then Open [] else Idle)" using 2 by simp
  consider (pending) "blockState t = TBLOCK_ABORT_PENDING" | (ended) "blockState t = TBLOCK_ABORT_END" "trans_state t = TRANS_ABORT"
    using 2 by auto
  then show ?case
  proof cases
    case pending
    show ?thesis unfolding b
      by (rule hoare_command [OF hoare_chain [OF hoare_abort_clean [of t "[]" _ "\<lambda>_. False"]]])
        (use pending 2 in \<open>auto simp: CommitTransactionCommand.simps Let_def xthen_assoc\<close>)
  next
    case ended
    have clean: "hoare (\<lambda>s. stack s = [t]) CleanupTransaction (\<lambda>_ s. \<exists>t'. stack s = [t'] \<and> left_as TRANS_DEFAULT t t') (settled (\<lambda>_. False))"
      by (rule hoare_weaken [OF hoare_cleanup_top]) (use ended in auto)
    show ?thesis unfolding b
      by (rule hoare_command [OF hoare_chain [OF clean]]) (use ended 2 in \<open>auto simp: CommitTransactionCommand.simps Let_def\<close>)
  qed
next
  case (3 b t u us)
  let ?E = "settled (\<lambda>ts'. \<exists>n ns. b = Open (n # ns) \<and> fails_to (Failed ns) ts')"
  have restart: "hoare (\<lambda>s. stack s = u # us) (restart_savepoint (spname t) (savepointLevel t)) (\<lambda>_ s. resting b (stack s)) ?E"
    if "savepointLevel t = savepointLevel u" "resting (Open (savepoints (u # us))) (u # us)" "b = Open (spname t # savepoints (u # us))"
    using that by (intro hoare_settled [OF hoare_restart [THEN hoare_weaken]]) auto
  consider (abort) "blockState t = TBLOCK_SUBABORT_PENDING" "rollback_marked b (u # us)"
    | (clean) "blockState t = TBLOCK_SUBABORT_END" "rollback_marked b (u # us)"
    | (restart) "blockState t = TBLOCK_SUBRESTART \<or> blockState t = TBLOCK_SUBABORT_RESTART" "savepointLevel t = savepointLevel u"
        "resting (Open (savepoints (u # us))) (u # us)" "b = Open (spname t # savepoints (u # us))"
    using 3(2) by (auto split: if_splits)
  then show ?case
  proof cases
    case abort
    show ?thesis
      by (rule hoare_command [OF hoare_xthen [OF hoare_abort_pop 3(1)]])
        (use abort based_tl [OF 3(3)] in \<open>auto simp: command_eqs(2)\<close>)
  next
    case clean
    show ?thesis
      by (rule hoare_command [OF hoare_xthen [OF hoare_cleanup_sub 3(1)]])
        (use clean based_tl [OF 3(3)] in \<open>auto simp: command_eqs(1)\<close>)
  next
    case r: restart
    let ?t = "t\<lparr>spname := None\<rparr>"
    have abort: "hoare (\<lambda>s. stack s = ?t # u # us) (xthen (xthen (AbortSubTransaction cf) CleanupSubTransaction) (restart_savepoint (spname t) (savepointLevel t)))
       (\<lambda>_ s. resting b (stack s)) ?E"
      by (rule hoare_xthen [OF hoare_abort_pop restart]) (use r in auto)
    have clean: "hoare (\<lambda>s. stack s = ?t # u # us) (xthen CleanupSubTransaction (restart_savepoint (spname t) (savepointLevel t)))
       (\<lambda>_ s. resting b (stack s)) ?E"
      by (rule hoare_xthen [OF hoare_cleanup_sub restart]) (use r in auto)
    show ?thesis
    proof (cases "blockState t = TBLOCK_SUBRESTART")
      case True
      then show ?thesis by (intro hoare_command [OF hoare_upd_cur [where f = "spname_update (\<lambda>_. None)", OF abort]]) (simp add: command_eqs(3))
    next
      case False
      then show ?thesis using r(1) by (intro hoare_command [OF hoare_upd_cur [where f = "spname_update (\<lambda>_. None)", OF clean]]) (simp add: command_eqs(4))
    qed
  qed
qed simp

section \<open>Every mark\<close>

text \<open>\<open>marks b e ts\<close>: completing the command takes the stack \<open>ts\<close> to the block \<open>b\<close>, an error on the way to the block \<open>e\<close>.\<close>

inductive marks :: "block \<Rightarrow> block \<Rightarrow> frames \<Rightarrow> bool" where
  started: "blockState t = TBLOCK_STARTED \<Longrightarrow> based [t] \<Longrightarrow> marks Idle Idle [t]"
| begun: "blockState t = TBLOCK_BEGIN \<Longrightarrow> trans_state t = TRANS_INPROGRESS \<Longrightarrow> based [t] \<Longrightarrow> marks (Open []) Idle [t]"
| going: "resting (Open ns) ts \<Longrightarrow> marks (Open ns) (Failed ns) ts"
| broken: "resting (Failed ns) ts \<Longrightarrow> marks (Failed ns) (Failed ns) ts"
| saved: "blockState t = TBLOCK_SUBBEGIN \<Longrightarrow> savepointLevel t = savepointLevel u \<Longrightarrow> resting (Open ns) (u # ts) \<Longrightarrow>
    marks (Open (spname t # ns)) (Failed ns) (t # u # ts)"
| committed: "commit_marked ts \<Longrightarrow> based ts \<Longrightarrow> marks (commit_result ts) Idle ts"
| released: "release_marked ns ts \<Longrightarrow> based ts \<Longrightarrow> marks (Open ns) (Failed ns) ts"
| restarted: "rollback_marked (Open (n # ns)) ts \<Longrightarrow> based ts \<Longrightarrow> marks (Open (n # ns)) (Failed ns) ts"
| left: "rollback_marked b ts \<Longrightarrow> b = Idle \<or> b = Open [] \<Longrightarrow> based ts \<Longrightarrow> marks b Idle ts"

lemma command_open:
  assumes "resting (Open ns) ts"
  shows "hoare (\<lambda>s. stack s = ts) (CommitTransactionCommand cf) (\<lambda>_ s. resting (Open ns) (stack s)) (settled (fails_to (Failed ns)))"
proof -
  obtain t us where ts: "ts = t # us" using assms by (cases ts) auto
  have state: "blockState t = TBLOCK_INPROGRESS \<or> blockState t = TBLOCK_SUBINPROGRESS" using assms ts by (cases us) (auto simp: sub_live_def)
  have "hoare (\<lambda>s. stack s = t # us) (CommandCounterIncrement cf) (\<lambda>_ s. resting (Open ns) (stack s)) (settled (fails_to (Failed ns)))"
    by (rule hoareI) (use assms opened_fails [of ts] ts in \<open>auto simp: CommandCounterIncrement_def raise_def split: if_splits\<close>)
  then show ?thesis unfolding ts
    by (rule hoare_command) (use state in \<open>auto simp: CommitTransactionCommand.simps Let_def\<close>)
qed

lemma command_saved:
  assumes "blockState t = TBLOCK_SUBBEGIN" "savepointLevel t = savepointLevel u" "resting (Open ns) (u # ts)"
  shows "hoare (\<lambda>s. stack s = t # u # ts) (CommitTransactionCommand cf) (\<lambda>_ s. resting (Open (spname t # ns)) (stack s)) E"
proof -
  have "hoare (\<lambda>s. stack s = t # u # ts) (modify (\<lambda>s. set_block TBLOCK_SUBINPROGRESS (StartSubTransaction s)))
      (\<lambda>_ s. resting (Open (spname t # ns)) (stack s)) E"
    by (rule hoare_modify) (use assms in \<open>auto simp: StartSubTransaction_def sub_live_def based_def\<close>)
  then show ?thesis
    by (rule hoare_command) (use assms in \<open>auto simp: CommitTransactionCommand.simps Let_def modify_def\<close>)
qed

lemma command_begun:
  assumes "blockState t = TBLOCK_BEGIN" "trans_state t = TRANS_INPROGRESS" "based [t]"
  shows "hoare (\<lambda>s. stack s = [t]) (CommitTransactionCommand cf) (\<lambda>_ s. resting (Open []) (stack s)) E"
proof -
  have "hoare (\<lambda>s. stack s = [t]) (modify (set_block TBLOCK_INPROGRESS)) (\<lambda>_ s. resting (Open []) (stack s)) E"
    by (rule hoare_modify) (use assms in \<open>auto simp: based_def\<close>)
  then show ?thesis by (rule hoare_command) (use assms in \<open>auto simp: CommitTransactionCommand.simps Let_def modify_def\<close>)
qed

lemma command_broken:
  assumes "resting (Failed ns) ts"
  shows "hoare (\<lambda>s. stack s = ts) (CommitTransactionCommand cf) (\<lambda>_ s. resting (Failed ns) (stack s)) E"
proof -
  obtain t us where ts: "ts = t # us" using assms by (cases ts) auto
  have state: "blockState t = TBLOCK_ABORT \<or> blockState t = TBLOCK_SUBABORT" using assms ts by (cases us) auto
  have "hoare (\<lambda>s. stack s = t # us) (ret ()) (\<lambda>_ s. resting (Failed ns) (stack s)) E"
    by (rule hoare_ret) (use assms ts in auto)
  then show ?thesis unfolding ts
    by (rule hoare_command) (use state in \<open>auto simp: CommitTransactionCommand.simps Let_def\<close>)
qed

theorem command_marks:
  assumes "marks b e ts"
  shows "hoare (\<lambda>s. stack s = ts) (CommitTransactionCommand cf) (\<lambda>_ s. resting b (stack s)) (settled (fails_to e))"
  using assms
proof cases
  case (restarted n ns)
  then show ?thesis using hoare_settled [OF command_rollback [OF restarted(3,4), of cf], of "fails_to e"] by auto
next
  case left
  then show ?thesis using hoare_settled [OF command_rollback [OF left(2,4), of cf], of "fails_to e"] by auto
qed (simp_all only: command_started command_begun command_open command_broken command_saved command_commit command_release)

end
