(* ===== verification/Session_Props.thy ===== *)
theory Session_Props
  imports Session Xact_Commands
begin

text \<open>
  The main loop of a backend implements the transaction block a client sees. \<open>ok_step\<close> says what a
  statement does to the block, \<open>error_step\<close> what is left of the block when it fails.
\<close>

section \<open>Work inside a statement\<close>

definition in_command :: "frames \<Rightarrow> bool" where
  "in_command ts \<longleftrightarrow> opened {TBLOCK_STARTED, TBLOCK_IMPLICIT_INPROGRESS, TBLOCK_INPROGRESS} ts"

definition holds :: "frames \<Rightarrow> unit xm \<Rightarrow> bool" where
  "holds ts m \<longleftrightarrow> hoare (\<lambda>s. list_all2 alike ts (stack s)) m (\<lambda>_ s. list_all2 alike ts (stack s)) (settled (list_all2 alike ts))"

lemma in_command_alike: "list_all2 alike ts ts' \<Longrightarrow> in_command ts' = in_command ts"
  by (simp add: in_command_def opened_alike)

lemma in_command_cases:
  assumes "in_command ts" "list_all2 alike ts ts'"
  obtains u us where "ts' = u # us" "blockState u \<in> {TBLOCK_STARTED, TBLOCK_IMPLICIT_INPROGRESS, TBLOCK_INPROGRESS, TBLOCK_SUBINPROGRESS}"
proof -
  have "in_command ts'" using assms in_command_alike by blast
  then show ?thesis by (cases ts' rule: recoverable.cases) (auto simp: in_command_def sub_live_def intro: that)
qed

lemma keeps_holds: "keeps m \<Longrightarrow> ts \<noteq> [] \<Longrightarrow> holds ts m"
  by (simp add: holds_def keepsD)

lemma holds_xthen: "holds ts m \<Longrightarrow> holds ts k \<Longrightarrow> holds ts (xthen m k)"
  by (auto simp: holds_def intro: hoare_xthen)

lemma keeps_modify: "(\<And>s. stack s \<noteq> [] \<Longrightarrow> list_all2 alike (stack s) (stack (f s))) \<Longrightarrow> keeps (modify f)"
  by (rule keepsI) (auto simp: modify_def)

lemma keeps_parallel_mode: "keeps (modify EnterParallelMode)" "keeps (modify ExitParallelMode)"
  by (rule keeps_modify, simp add: EnterParallelMode_def ExitParallelMode_def upd_cur_def alike_def split: list.splits)+

lemma keeps_set: "keeps (SetPGVariable cf item)"
  by (cases item; rule keeps_same_stack) (auto simp: ret_def raise_def split: if_splits)

lemma hoare_begin_internal:
  assumes "in_command ts"
  shows "hoare (\<lambda>s. list_all2 alike ts (stack s)) (BeginInternalSubTransaction cf None)
     (\<lambda>_ s. \<exists>t us. stack s = t # us \<and> sub_live t \<and> list_all2 alike ts us) (settled (list_all2 alike ts))"
proof (rule hoare_pre)
  fix s :: xact assume s: "list_all2 alike ts (stack s)"
  obtain u us where u: "stack s = u # us" "blockState u \<in> {TBLOCK_STARTED, TBLOCK_IMPLICIT_INPROGRESS, TBLOCK_INPROGRESS, TBLOCK_SUBINPROGRESS}"
    using in_command_cases [OF assms s] by metis
  let ?Q = "\<lambda>_ s. \<exists>t us. stack s = t # us \<and> sub_live t \<and> list_all2 alike ts us" and ?E = "settled (list_all2 alike ts)"
  have push: "hoare (\<lambda>s'. s' = s) PushTransaction (\<lambda>_ s. \<exists>t. stack s = t # u # us \<and> blockState t = TBLOCK_SUBBEGIN) ?E"
    by (rule hoare_weaken [OF hoare_push [of u us]]) (use u s in \<open>auto elim: settled_mono\<close>)
  have name: "hoare (\<lambda>s. \<exists>t. stack s = t # u # us \<and> blockState t = TBLOCK_SUBBEGIN) (modify (upd_cur (\<lambda>t. t\<lparr>spname := None\<rparr>)))
     (\<lambda>_ s. \<exists>t. stack s = t # u # us \<and> blockState t = TBLOCK_SUBBEGIN) ?E"
    by (rule hoare_modify) auto
  have commit: "hoare (\<lambda>s. \<exists>t. stack s = t # u # us \<and> blockState t = TBLOCK_SUBBEGIN) (CommitTransactionCommand cf)
     (\<lambda>_ s. \<exists>t. stack s = t # u # us \<and> sub_live t) ?E"
    by (auto simp: hoare_def CommitTransactionCommand.simps Let_def StartSubTransaction_def sub_live_def)
  have start: "hoare (\<lambda>s. \<exists>t. stack s = t # u # us \<and> sub_live t) (StartTransactionCommand cf) ?Q ?E"
    using s u by (auto simp: hoare_def sub_live_def ret_def)
  have "hoare (\<lambda>s'. s' = s) (seq [PushTransaction, modify (upd_cur (\<lambda>t. t\<lparr>spname := None\<rparr>)), CommitTransactionCommand cf, StartTransactionCommand cf]) ?Q ?E"
    unfolding seq.simps
    by (rule hoare_xthen [OF push], rule hoare_xthen [OF name], rule hoare_xthen [OF commit], rule hoare_xthen [OF start])
      (rule hoare_ret, simp)
  then show "hoare (\<lambda>s'. s' = s) (BeginInternalSubTransaction cf None) ?Q ?E"
    using u s by (auto simp: hoare_def BeginInternalSubTransaction_def raise_def)
qed

definition caught :: "frames \<Rightarrow> frames \<Rightarrow> bool" where
  "caught ts z \<longleftrightarrow> (\<exists>t us. z = t # us \<and> blockState t = TBLOCK_SUBINPROGRESS \<and> list_all2 alike ts us)"

lemma hoare_release_current:
  assumes "ts \<noteq> []"
  shows "hoare (\<lambda>s. \<exists>t us. stack s = t # us \<and> sub_live t \<and> list_all2 alike ts us) (ReleaseCurrentSubTransaction cf)
     (\<lambda>_ s. list_all2 alike ts (stack s)) (settled (caught ts))"
proof (rule hoare_pre, elim exE conjE)
  fix s :: xact and t us assume s: "stack s = t # us" "sub_live t" "list_all2 alike ts us"
  then obtain v vs where us: "us = v # vs" using assms by (cases us) auto
  have "hoare (\<lambda>s'. s' = s) (CommitSubTransaction cf) (\<lambda>_ s. list_all2 alike ts (stack s)) (settled (caught ts))"
  proof (rule hoare_weaken [OF hoare_commit_sub [of t v vs]])
    fix a s' assume "\<exists>u'. stack s' = u' # vs \<and> alike v u'"
    then show "list_all2 alike ts (stack s')" using s us alike_trans by (auto simp: list_all2_Cons2)
  next
    fix e s' assume "settled (left_over (t # v # vs)) e s'"
    then show "settled (caught ts) e s'"
      by (rule settled_mono) (use s us in \<open>auto simp: left_over_def caught_def sub_live_def dest: left_as_fields\<close>)
  qed (use s us in simp)
  then show "hoare (\<lambda>s'. s' = s) (ReleaseCurrentSubTransaction cf) (\<lambda>_ s. list_all2 alike ts (stack s)) (settled (caught ts))"
    using s by (auto simp: hoare_def ReleaseCurrentSubTransaction_def raise_def sub_live_def caught_def)
qed

lemma hoare_rollback_current:
  assumes "ts \<noteq> []"
  shows "hoare (\<lambda>s. caught ts (stack s)) (RollbackAndReleaseCurrentSubTransaction cf) (\<lambda>_ s. list_all2 alike ts (stack s)) (settled R)"
proof (rule hoare_pre)
  fix s :: xact assume "caught ts (stack s)"
  then obtain t v vs where s: "stack s = t # v # vs" "blockState t = TBLOCK_SUBINPROGRESS" "list_all2 alike ts (v # vs)"
    using assms by (auto simp: caught_def) (metis list_all2_Nil2 neq_Nil_conv)
  have "hoare (\<lambda>s'. s' = s) (xthen (AbortSubTransaction cf) CleanupSubTransaction) (\<lambda>_ s. list_all2 alike ts (stack s)) (settled R)"
    by (rule hoare_weaken [OF hoare_abort_pop [of t v vs]]) (use s in auto)
  then show "hoare (\<lambda>s'. s' = s) (RollbackAndReleaseCurrentSubTransaction cf) (\<lambda>_ s. list_all2 alike ts (stack s)) (settled R)"
    using s by (auto simp: hoare_def RollbackAndReleaseCurrentSubTransaction_def)
qed

lemma holds_block:
  assumes body: "\<And>us. in_command us \<Longrightarrow> holds us body" and handler: "\<And>h. handler = Some h \<Longrightarrow> holds ts h"
    and ts: "in_command ts"
  shows "holds ts (exec_stmt_block cf body handler)"
proof -
  let ?E = "settled (list_all2 alike ts)"
  have ne: "ts \<noteq> []" using ts by (auto simp: in_command_def)
  let ?sub = "\<lambda>s. \<exists>t us. stack s = t # us \<and> sub_live t \<and> list_all2 alike ts us"
  have attempt: "hoare ?sub (xthen body (ReleaseCurrentSubTransaction cf)) (\<lambda>_ s. list_all2 alike ts (stack s)) (settled (caught ts))"
  proof (rule hoare_xthen [OF _ hoare_release_current [OF ne]])
    show "hoare ?sub body (\<lambda>_. ?sub) (settled (caught ts))"
    proof (rule hoare_pre, elim exE conjE)
      fix s :: xact and t us assume s: "stack s = t # us" "sub_live t" "list_all2 alike ts us"
      have us: "us \<noteq> []" "in_command us" using s(3) ne ts in_command_alike [OF s(3)] by auto
      then have "in_command (t # us)" using s(2) by (cases us) (auto simp: in_command_def)
      then have b: "hoare (\<lambda>s. list_all2 alike (t # us) (stack s)) body (\<lambda>_ s. list_all2 alike (t # us) (stack s)) (settled (list_all2 alike (t # us)))"
        using body by (simp add: holds_def)
      show "hoare (\<lambda>s'. s' = s) body (\<lambda>_. ?sub) (settled (caught ts))"
      proof (rule hoare_weaken [OF b])
        fix a s' assume "list_all2 alike (t # us) (stack s')"
        then show "?sub s'" using s(2) alike_list_trans [OF s(3)] by (auto simp: list_all2_Cons1 alike_def sub_live_def)
      next
        fix e s' assume "settled (list_all2 alike (t # us)) e s'"
        then show "settled (caught ts) e s'"
          by (rule settled_mono) (use s(2) alike_list_trans [OF s(3)] in \<open>auto simp: list_all2_Cons1 caught_def alike_def sub_live_def\<close>)
      qed (use s in simp)
    qed
  qed
  have h: "hoare (\<lambda>s. list_all2 alike ts (stack s)) (case handler of Some h \<Rightarrow> h | None \<Rightarrow> raise ERROR r) (\<lambda>_ s. list_all2 alike ts (stack s)) ?E" for r
    using handler by (cases handler) (auto simp: holds_def intro!: hoare_raise)
  have catch: "hoare (\<lambda>s. caught ts (stack s))
      (xthen (RollbackAndReleaseCurrentSubTransaction cf) (case handler of Some h \<Rightarrow> h | None \<Rightarrow> raise ERROR r))
      (\<lambda>_ s. list_all2 alike ts (stack s)) ?E" for r
    by (rule hoare_xthen [OF hoare_rollback_current [OF ne] h])
  have "hoare ?sub (\<lambda>s. case xthen body (ReleaseCurrentSubTransaction cf) s of
         (Inr _, s) \<Rightarrow> (Inr (), s)
       | (Inl (Xerror lev r), s) \<Rightarrow>
           if lev = ERROR then
             xthen (RollbackAndReleaseCurrentSubTransaction cf)
               (case handler of Some h \<Rightarrow> h | None \<Rightarrow> raise ERROR r) s
           else (Inl (Xerror lev r), s)) (\<lambda>_ s. list_all2 alike ts (stack s)) ?E" (is "hoare _ ?try _ _")
  proof (rule hoare_pre)
    fix s :: xact assume s: "?sub s"
    obtain r s' where run: "xthen body (ReleaseCurrentSubTransaction cf) s = (r, s')" by fastforce
    show "hoare (\<lambda>s'. s' = s) ?try (\<lambda>_ s. list_all2 alike ts (stack s)) ?E"
    proof (cases r)
      case (Inr a)
      then show ?thesis using run hoareD(1) [OF attempt s] by (auto simp: hoare_def)
    next
      case (Inl e)
      then have e: "settled (caught ts) e s'" using run hoareD(2) [OF attempt s] by simp
      obtain lev x where ex: "e = Xerror lev x" by (cases e)
      show ?thesis
      proof (cases "lev = ERROR")
        case True
        then have "caught ts (stack s')" using e ex by simp
        then show ?thesis using catch [of x] True run Inl ex by (simp add: hoare_def)
      next
        case False
        then show ?thesis using run Inl ex e by (auto simp: hoare_def settled_def split: elevel.splits)
      qed
    qed
  qed
  then show ?thesis unfolding holds_def exec_stmt_block_def by (rule hoare_xthen [OF hoare_begin_internal [OF ts]])
qed

lemma holds_work: "in_command ts \<Longrightarrow> holds ts (do_work cf w)" "in_command ts \<Longrightarrow> holds ts (do_works cf ws)"
proof (induction cf w and cf ws arbitrary: ts and ts rule: do_work_do_works.induct)
  case (1 cf)
  then show ?case using keeps_xbind [OF keeps_current_xid, of "\<lambda>_. ret ()"]
    by (auto intro!: keeps_holds simp: in_command_def keeps_def hoare_ret)
next
  case (5 cf item)
  then show ?case using keeps_set by (auto intro!: keeps_holds simp: in_command_def)
next
  case (9 cf ws)
  then have "ts \<noteq> []" "holds ts (do_works cf ws)" by (auto simp: in_command_def)
  moreover have "holds ts (ret ())" by (simp add: holds_def hoare_ret)
  ultimately show ?case using keeps_parallel_mode by (simp add: holds_xthen keeps_holds)
next
  case (10 cf ws h)
  show ?case
    by (simp, rule holds_block) (use 10 in \<open>auto split: option.splits\<close>)
next
  case (3 cf)
  then show ?case by (auto intro!: keeps_holds keeps_counter simp: in_command_def)
next
  case (12 cf w ws)
  then show ?case by (simp add: holds_xthen)
qed (auto simp: in_command_def holds_def hoare_def GetCurrentCommandId_def modify_def ret_def raise_def)

section \<open>The client's view of a statement\<close>

definition from_savepoint :: "string \<Rightarrow> string option list \<Rightarrow> string option list" where
  "from_savepoint n ns = dropWhile (\<lambda>m. m \<noteq> Some n) ns"

definition txn_step :: "TransactionStmt \<Rightarrow> block \<Rightarrow> block option" where
  "txn_step st b =
     (case stmt_kind st of
        TRANS_STMT_BEGIN \<Rightarrow> (case b of Idle \<Rightarrow> Some (Open []) | Open ns \<Rightarrow> Some (Open ns) | Failed ns \<Rightarrow> None)
      | TRANS_STMT_START \<Rightarrow> (case b of Idle \<Rightarrow> Some (Open []) | Open ns \<Rightarrow> Some (Open ns) | Failed ns \<Rightarrow> None)
      | TRANS_STMT_COMMIT \<Rightarrow>
          (case b of
             Idle \<Rightarrow> if stmt_chain st then None else Some Idle
           | Open ns \<Rightarrow> Some (if stmt_chain st \<and> ns = [] then Open [] else Idle)
           | Failed ns \<Rightarrow> Some (if stmt_chain st then Open [] else Idle))
      | TRANS_STMT_ROLLBACK \<Rightarrow>
          (case b of Idle \<Rightarrow> if stmt_chain st then None else Some Idle | _ \<Rightarrow> Some (if stmt_chain st then Open [] else Idle))
      | TRANS_STMT_SAVEPOINT \<Rightarrow> (case b of Open ns \<Rightarrow> Some (Open (Some (savepoint_name st) # ns)) | _ \<Rightarrow> None)
      | TRANS_STMT_RELEASE \<Rightarrow>
          (case b of
             Open ns \<Rightarrow> if Some (savepoint_name st) \<in> set ns then Some (Open (tl (from_savepoint (savepoint_name st) ns))) else None
           | _ \<Rightarrow> None)
      | TRANS_STMT_ROLLBACK_TO \<Rightarrow>
          (case b of
             Idle \<Rightarrow> None
           | Open ns \<Rightarrow> if Some (savepoint_name st) \<in> set ns then Some (Open (from_savepoint (savepoint_name st) ns)) else None
           | Failed ns \<Rightarrow> if Some (savepoint_name st) \<in> set ns then Some (Open (from_savepoint (savepoint_name st) ns)) else None)
      | TRANS_STMT_PREPARE \<Rightarrow> Some Idle
      | TRANS_STMT_COMMIT_PREPARED \<Rightarrow> (if b = Idle then Some Idle else None)
      | TRANS_STMT_ROLLBACK_PREPARED \<Rightarrow> (if b = Idle then Some Idle else None))"

definition ok_step :: "RawStmt \<Rightarrow> block \<Rightarrow> block option" where
  "ok_step p b =
     (case p of
        TransactionStmt st \<Rightarrow> txn_step st b
      | OtherStmt _ \<Rightarrow> (case b of Failed _ \<Rightarrow> None | _ \<Rightarrow> Some b))"

text \<open>What a failing statement may leave. A statement that ends the block leaves the client outside of a block, or in
  the failed block if it was refused; one that names a savepoint may fail after the subtransactions above it are gone.\<close>

definition error_target :: "RawStmt \<Rightarrow> string option list \<Rightarrow> block \<Rightarrow> bool" where
  "error_target p ns b' \<longleftrightarrow>
     (case p of
        OtherStmt _ \<Rightarrow> False
      | TransactionStmt st \<Rightarrow>
          if stmt_kind st \<in> {TRANS_STMT_COMMIT, TRANS_STMT_ROLLBACK, TRANS_STMT_PREPARE} then b' = Idle
          else if stmt_kind st \<in> {TRANS_STMT_RELEASE, TRANS_STMT_ROLLBACK_TO}
          then Some (savepoint_name st) \<in> set ns \<and> b' = Failed (tl (from_savepoint (savepoint_name st) ns))
          else False)"

definition error_step :: "RawStmt \<Rightarrow> block \<Rightarrow> block \<Rightarrow> bool" where
  "error_step p b b' \<longleftrightarrow>
     (case b of
        Idle \<Rightarrow> b' = Idle
      | Open ns \<Rightarrow> b' = Failed ns \<or> error_target p ns b'
      | Failed ns \<Rightarrow> b' = Failed ns \<or> error_target p ns b')"

section \<open>Marks of the transaction statements\<close>

text \<open>Inside a command: \<open>imp\<close> says that the statements of the query form an implicit block.\<close>

definition active :: "bool \<Rightarrow> block \<Rightarrow> frames \<Rightarrow> bool" where
  "active imp b ts \<longleftrightarrow>
     (if b = Idle then \<exists>t. ts = [t] \<and> based ts \<and> trans_state t = TRANS_INPROGRESS
        \<and> blockState t = (if imp then TBLOCK_IMPLICIT_INPROGRESS else TBLOCK_STARTED)
      else resting b ts)"

definition labels :: "frames \<Rightarrow> (int \<times> string option \<times> nat) list" where
  "labels ts = map (\<lambda>t. (savepointLevel t, spname t, nestingLevel t)) ts"

lemma labels_simps [simp]: "labels [] = []" "labels (t # ts) = (savepointLevel t, spname t, nestingLevel t) # labels ts" "labels (ts @ us) = labels ts @ labels us"
  by (simp_all add: labels_def)

lemma mark_up_labels: "mark_up f g ch ts = (ts', ok) \<Longrightarrow> labels ts' = labels ts"
  by (induction f g ch ts arbitrary: ts' ok rule: mark_up.induct) (auto split: option.splits prod.splits)

lemma based_labels:
  assumes "labels ts' = labels ts"
  shows "based ts' = based ts"
proof (cases "ts = []")
  case False
  have "based us \<longleftrightarrow> fst (snd (last (labels us))) = None \<and> snd (snd (last (labels us))) < 2
       \<and> list_all (\<lambda>l. fst l = fst (last (labels us))) (labels us)" if "us \<noteq> []" for us
    using that by (auto simp: based_def list_all_iff last_map labels_def)
  moreover have "ts' \<noteq> []" using assms False by (auto simp: labels_def)
  ultimately show ?thesis using assms False by simp
qed (use assms in \<open>simp add: labels_def\<close>)

lemma mark_commit:
  assumes "opened {TBLOCK_INPROGRESS} ts"
  shows "\<exists>ts'. mark_up commit_mark commit_mark_top ch ts = (ts', True) \<and> commit_marked ts' \<and> length ts' = length ts
     \<and> blockState (last ts') = TBLOCK_END \<and> (length ts = 1 \<longrightarrow> chain (hd ts') = ch)"
  using assms
proof (induction commit_mark commit_mark_top ch ts rule: mark_up.induct)
  case (3 ch t u ts)
  then obtain us where us: "mark_up commit_mark commit_mark_top ch (u # ts) = (us, True)" "commit_marked us" "length us = length (u # ts)"
     "blockState (last us) = TBLOCK_END"
    by (auto simp: commit_mark_def sub_live_def)
  then obtain v vs where "us = v # vs" by (cases us) auto
  with us show ?case using 3(2) by (auto simp: commit_mark_def sub_live_def)
qed (auto simp: commit_mark_top_def)

lemma mark_abort:
  assumes "opened {TBLOCK_INPROGRESS} ts \<or> failed ts"
  shows "\<exists>ts'. mark_up abort_mark abort_mark_top ch ts = (ts', True) \<and> rollback_marked (if ch then Open [] else Idle) ts'
     \<and> length ts' = length ts"
  using assms
proof (induction abort_mark abort_mark_top ch ts rule: mark_up.induct)
  case (3 ch t u ts)
  then obtain us where us: "mark_up abort_mark abort_mark_top ch (u # ts) = (us, True)"
     "rollback_marked (if ch then Open [] else Idle) us" "length us = length (u # ts)"
    by (auto simp: abort_mark_def sub_live_def)
  then obtain v vs where "us = v # vs" by (cases us) auto
  with us show ?case using 3(2) by (auto simp: abort_mark_def sub_live_def)
qed (auto simp: abort_mark_def abort_mark_top_def)

lemma find_savepoint_Some:
  "find_savepoint n ts = Some i \<Longrightarrow> i < length ts \<and> spname (ts ! i) = Some n"
  by (induction ts arbitrary: i) (auto split: if_splits)

lemma mark_rollback_ok:
  assumes "opened {TBLOCK_INPROGRESS} ts \<or> failed ts" "based ts" "find_savepoint n ts = Some i" "i + 1 < length ts"
  shows "\<exists>ts'. mark_rollback i ts = (ts', True) \<and> rollback_marked (Open (from_savepoint n (savepoints ts))) ts'
     \<and> labels ts' = labels ts"
  using assms
proof (induction i ts rule: mark_rollback.induct)
  case (2 t ts)
  then obtain u us where ts: "ts = u # us" by (cases ts) auto
  have "spname t = Some n" using find_savepoint_Some [OF 2(3)] by simp
  moreover have "savepointLevel t = savepointLevel u" "based (u # us)" using 2(2) ts by (auto simp: based_def)
  ultimately show ?case using 2(1) ts by (auto simp: sub_live_def from_savepoint_def)
next
  case (3 i t ts)
  then obtain u us where ts: "ts = u # us" by (cases ts) auto
  have n: "spname t \<noteq> Some n" "find_savepoint n ts = Some i" using 3(4) by (auto split: if_splits)
  have o: "opened {TBLOCK_INPROGRESS} ts" using 3(2) ts by auto
  obtain vs where vs: "mark_rollback i ts = (vs, True)" "rollback_marked (Open (from_savepoint n (savepoints ts))) vs"
      "labels vs = labels ts"
    using 3(1) [of "if blockState t = TBLOCK_SUBINPROGRESS then TBLOCK_SUBABORT_PENDING else TBLOCK_SUBABORT_END"] 3(2-5) n o ts based_tl [of t u us]
    by (auto simp: abort_mark_def sub_live_def)
  obtain w ws where "vs = w # ws" using vs(3) ts by (cases vs) auto
  with vs show ?case using 3(2) n ts by (auto simp: abort_mark_def sub_live_def from_savepoint_def)
qed simp

lemma release_ok:
  assumes "opened {TBLOCK_INPROGRESS} ts" "based ts" "find_savepoint n ts = Some i" "i + 1 < length ts"
  shows "release_marked (tl (from_savepoint n (savepoints ts)))
     (map (\<lambda>t. t\<lparr>blockState := TBLOCK_SUBRELEASE\<rparr>) (take (i + 1) ts) @ drop (i + 1) ts)"
  using assms
proof (induction ts arbitrary: i)
  case (Cons t ts)
  then obtain u us where ts: "ts = u # us" by (cases ts) auto
  show ?case
  proof (cases "spname t = Some n")
    case True
    then have "i = 0" using Cons(4) by simp
    then show ?thesis using Cons(2,3) True ts based_tl [of t u us] by (auto simp: from_savepoint_def)
  next
    case False
    then obtain j where j: "i = Suc j" "find_savepoint n ts = Some j" using Cons(4) by auto
    then show ?thesis using Cons(1) [of j] Cons(2-5) False ts based_tl [of t u us] by (auto simp: from_savepoint_def)
  qed
qed simp

lemma find_savepoint_in:
  assumes "find_savepoint n ts = Some i" "spname (last ts) = None"
  shows "i + 1 < length ts" "Some n \<in> set (savepoints ts)"
proof -
  have i: "i < length ts" "spname (ts ! i) = Some n" using find_savepoint_Some [OF assms(1)] by auto
  then have "last ts = ts ! (length ts - 1)" by (intro last_conv_nth) auto
  with i assms(2) have "i \<noteq> length ts - 1" by auto
  then show l: "i + 1 < length ts" using i(1) by simp
  then have "ts ! i \<in> set (butlast ts)" using nth_mem [of i "butlast ts"] by (simp add: nth_butlast)
  then show "Some n \<in> set (savepoints ts)" using i(2) by (force simp: savepoints_def)
qed

section \<open>Transaction statements\<close>

text \<open>The outcome of a transaction statement: marks for the block the client expects, or a failure it may expect.\<close>

definition stmt_ok :: "TransactionStmt \<Rightarrow> block \<Rightarrow> frames \<Rightarrow> bool" where
  "stmt_ok st b ts \<longleftrightarrow> (\<exists>b' e. txn_step st b = Some b' \<and> marks b' e ts \<and> error_step (TransactionStmt st) b e)"

definition stmt_fails :: "RawStmt \<Rightarrow> block \<Rightarrow> frames \<Rightarrow> bool" where
  "stmt_fails p b ts \<longleftrightarrow> (\<exists>e. fails_to e ts \<and> error_step p b e)"

definition does :: "bool \<Rightarrow> TransactionStmt \<Rightarrow> block \<Rightarrow> unit xm \<Rightarrow> bool" where
  "does imp st b m \<longleftrightarrow> hoare (\<lambda>s. active imp b (stack s)) m (\<lambda>_ s. stmt_ok st b (stack s)) (settled (stmt_fails (TransactionStmt st) b))"

lemma active_cases:
  assumes "active imp b ts"
  obtains (idle) t where "b = Idle" "ts = [t]" "based [t]" "trans_state t = TRANS_INPROGRESS"
      "blockState t = (if imp then TBLOCK_IMPLICIT_INPROGRESS else TBLOCK_STARTED)"
    | (top) t where "b = Open []" "ts = [t]" "based [t]" "trans_state t = TRANS_INPROGRESS" "blockState t = TBLOCK_INPROGRESS"
    | (sub) t u us where "b = Open (savepoints ts)" "ts = t # u # us" "based ts" "sub_live t" "opened {TBLOCK_INPROGRESS} (u # us)"
    | (failed_top) t where "b = Failed []" "ts = [t]" "based [t]" "trans_state t = TRANS_ABORT" "blockState t = TBLOCK_ABORT"
    | (failed_sub) t u us where "b = Failed (savepoints ts)" "ts = t # u # us" "based ts" "trans_state t = TRANS_ABORT"
        "blockState t = TBLOCK_SUBABORT" "opened {TBLOCK_INPROGRESS} (u # us)"
proof (cases b)
  case Idle
  then show ?thesis using assms idle by (auto simp: active_def)
next
  case (Open ns)
  then show ?thesis using assms top sub by (cases ts rule: recoverable.cases) (auto simp: active_def)
next
  case (Failed ns)
  then show ?thesis using assms failed_top failed_sub by (cases ts rule: recoverable.cases) (auto simp: active_def)
qed

text \<open>A refused statement leaves the block as it is, now failed.\<close>

lemma active_fails:
  assumes "active imp b ts"
  shows "stmt_fails p b ts"
  unfolding stmt_fails_def
  by (rule exI [of _ "after_error ts"], cases rule: active_cases [OF assms])
    (auto simp: fails_to_def error_step_def sub_live_def)

lemma rollback_marked_fails:
  assumes "rollback_marked b ts" "based ts"
  shows "fails_to (case b of Open (n # ns) \<Rightarrow> Failed ns | _ \<Rightarrow> Idle) ts"
  using assms
proof (induction b ts rule: rollback_marked.induct)
  case (3 b t u ts)
  show ?case
  proof (cases "blockState t \<in> {TBLOCK_SUBABORT_PENDING, TBLOCK_SUBABORT_END}")
    case True
    then show ?thesis using 3 based_tl [of t u ts] by (auto simp: fails_to_def)
  next
    case False
    then show ?thesis using 3(2,3) opened_fails [of "u # ts"] by (auto simp: fails_to_def split: if_splits)
  qed
qed (auto simp: fails_to_def)

lemma marks_fails: "marks b e ts \<Longrightarrow> fails_to e ts"
proof (induction rule: marks.induct)
  case (broken ns ts)
  then show ?case by (cases ts rule: recoverable.cases) (auto simp: fails_to_def)
next
  case (going ns ts)
  then show ?case using opened_fails [of ts] by auto
next
  case (saved t u ns ts)
  then show ?case using opened_fails [of "u # ts"] by (auto simp: fails_to_def based_def)
next
  case (restarted n ns ts)
  then show ?case using rollback_marked_fails [of "Open (n # ns)" ts] by simp
next
  case (left b ts)
  then show ?case using rollback_marked_fails [of b ts] by auto
qed (auto simp: fails_to_def [of _ "[_]"] commit_marked_fails release_marked_fails)

lemma stmt_ok_fails: "stmt_ok st b ts \<Longrightarrow> stmt_fails (TransactionStmt st) b ts"
  by (auto simp: stmt_ok_def stmt_fails_def dest: marks_fails)

lemma doesI:
  assumes "\<And>s r s'. \<lbrakk> active imp b (stack s); m s = (r, s') \<rbrakk> \<Longrightarrow>
     (case r of Inr _ \<Rightarrow> stmt_ok st b (stack s') | Inl e \<Rightarrow> (\<exists>x. e = Xerror ERROR x) \<and> (stack s' = stack s \<or> stmt_ok st b (stack s')))"
  shows "does imp st b m"
  unfolding does_def
proof (rule hoareI)
  fix s a s' assume "active imp b (stack s)" "m s = (Inr a, s')"
  then show "stmt_ok st b (stack s')" using assms [of s "Inr a" s'] by simp
next
  fix s e s' assume "active imp b (stack s)" "m s = (Inl e, s')"
  then show "settled (stmt_fails (TransactionStmt st) b) e s'"
    using assms [of s "Inl e" s'] by (auto intro: active_fails stmt_ok_fails)
qed

lemmas step_defs = stmt_ok_def txn_step_def error_step_def error_target_def

lemma stmt_okI: "txn_step st b = Some b' \<Longrightarrow> marks b' e ts \<Longrightarrow> error_step (TransactionStmt st) b e \<Longrightarrow> stmt_ok st b ts"
  by (auto simp: stmt_ok_def)

lemma based_top: "based [t] \<longleftrightarrow> spname t = None \<and> nestingLevel t < 2"
  by (simp add: based_def)

lemma marks_end:
  "blockState t = TBLOCK_END \<Longrightarrow> based [t] \<Longrightarrow> marks (if chain t then Open [] else Idle) Idle [t]"
  using marks.committed [of "[t]"] by (simp add: commit_result_def)

lemma marks_prepare: "blockState t = TBLOCK_PREPARE \<Longrightarrow> based [t] \<Longrightarrow> marks Idle Idle [t]"
  using marks.committed [of "[t]"] by (simp add: commit_result_def)

lemma marks_abort_end:
  "blockState t = TBLOCK_ABORT_PENDING \<or> blockState t = TBLOCK_ABORT_END \<and> trans_state t = TRANS_ABORT \<Longrightarrow> based [t] \<Longrightarrow>
   marks (if chain t then Open [] else Idle) Idle [t]"
  by (rule marks.left) auto

lemma mark_stack_commit:
  assumes "opened {TBLOCK_INPROGRESS} (stack s)" "based (stack s)" "length (stack s) > 1"
  obtains ts where "mark_stack commit_mark commit_mark_top ch s = (Inr (), s\<lparr>stack := ts\<rparr>)" "commit_marked ts" "based ts"
    "length ts = length (stack s)" "blockState (last ts) = TBLOCK_END"
proof -
  obtain ts where "mark_up commit_mark commit_mark_top ch (stack s) = (ts, True)" "commit_marked ts" "length ts = length (stack s)"
      "blockState (last ts) = TBLOCK_END"
    using mark_commit [OF assms(1), of ch] by blast
  moreover then have "based ts" using mark_up_labels based_labels assms(2) by metis
  ultimately show ?thesis using that by (simp add: mark_stack_def)
qed

lemma mark_stack_abort:
  assumes "opened {TBLOCK_INPROGRESS} (stack s) \<or> failed (stack s)" "based (stack s)"
  obtains ts where "mark_stack abort_mark abort_mark_top ch s = (Inr (), s\<lparr>stack := ts\<rparr>)" "marks (if ch then Open [] else Idle) Idle ts"
    "length ts = length (stack s)"
proof -
  obtain ts where ts: "mark_up abort_mark abort_mark_top ch (stack s) = (ts, True)" "rollback_marked (if ch then Open [] else Idle) ts"
      "length ts = length (stack s)"
    using mark_abort [OF assms(1), of ch] by blast
  then have "based ts" using mark_up_labels based_labels assms(2) by metis
  with ts(2) have "marks (if ch then Open [] else Idle) Idle ts" by (intro marks.left) auto
  with ts show ?thesis using that by (simp add: mark_stack_def)
qed

lemma marks_commit_subs: "commit_marked ts \<Longrightarrow> based ts \<Longrightarrow> length ts > 1 \<Longrightarrow> marks Idle Idle ts"
  using marks.committed [of ts] by (simp add: commit_result_def)

text \<open>How \<^verbatim>\<open>COMMIT\<close> and the first half of \<^verbatim>\<open>PREPARE TRANSACTION\<close> leave the stack.\<close>

lemma end_block_cases:
  assumes "active imp b (stack s)" "EndTransactionBlock ch s = (r, s')"
  obtains (refused) "b = Idle" "ch" "r = Inl (Xerror ERROR NoActiveTransaction)" "s' = s"
    | (none) t where "b = Idle" "\<not> ch" "r = Inr True" "stack s' = [t]" "blockState t = TBLOCK_STARTED" "based [t]"
    | (one) t where "b = Idle \<and> \<not> ch \<or> b = Open []" "r = Inr True" "stack s' = [t]" "blockState t = TBLOCK_END" "chain t = ch" "based [t]"
    | (many) ns where "b = Open ns" "ns \<noteq> []" "r = Inr True" "commit_marked (stack s')" "based (stack s')" "length (stack s') > 1"
        "blockState (last (stack s')) = TBLOCK_END"
    | (abort) ns where "b = Failed ns" "r = Inr False" "marks (if ch then Open [] else Idle) Idle (stack s')"
  using assms(1)
proof (cases rule: active_cases)
  case (idle t)
  consider "ch" | "\<not> ch" "imp" | "\<not> ch" "\<not> imp" by blast
  then show ?thesis
  proof cases
    case 1
    then have "r = Inl (Xerror ERROR NoActiveTransaction)" "s' = s" using assms(2) idle by (auto simp: raise_def split: if_splits)
    then show ?thesis using 1 idle(1) by (intro refused)
  next
    case 2
    then have "r = Inr True" "s' = set_block_chain TBLOCK_END False s" using assms(2) idle by auto
    then show ?thesis using 2 idle by (intro one [of "t\<lparr>blockState := TBLOCK_END, chain := False\<rparr>"]) (auto simp: based_top)
  next
    case 3
    then have "r = Inr True" "s' = set_block_chain TBLOCK_STARTED False s" using assms(2) idle by auto
    then show ?thesis using 3 idle by (intro none [of "t\<lparr>blockState := TBLOCK_STARTED, chain := False\<rparr>"]) (auto simp: based_top)
  qed
next
  case (top t)
  then have "r = Inr True" "s' = set_block_chain TBLOCK_END ch s" using assms(2) by auto
  then show ?thesis using top by (intro one [of "t\<lparr>blockState := TBLOCK_END, chain := ch\<rparr>"]) (auto simp: based_top)
next
  case (sub t u us)
  obtain ts where ts: "mark_stack commit_mark commit_mark_top ch s = (Inr (), s\<lparr>stack := ts\<rparr>)" "commit_marked ts" "based ts"
      "length ts = length (stack s)" "blockState (last ts) = TBLOCK_END"
    using mark_stack_commit [of s ch] sub by auto
  then have "r = Inr True" "s' = s\<lparr>stack := ts\<rparr>" using assms(2) sub by (auto simp: xthen_def ret_def sub_live_def)
  then show ?thesis using many [of "savepoints (stack s)"] ts sub by simp
next
  case (failed_top t)
  then have "r = Inr False" "s' = set_block_chain TBLOCK_ABORT_END ch s" using assms(2) by auto
  then show ?thesis using failed_top marks_abort_end [of "t\<lparr>blockState := TBLOCK_ABORT_END, chain := ch\<rparr>"]
    by (intro abort [of "[]"]) (auto simp: based_top)
next
  case (failed_sub t u us)
  obtain ts where ts: "mark_stack abort_mark abort_mark_top ch s = (Inr (), s\<lparr>stack := ts\<rparr>)" "marks (if ch then Open [] else Idle) Idle ts"
    using mark_stack_abort [of s ch] failed_sub by auto
  then have "r = Inr False" "s' = s\<lparr>stack := ts\<rparr>" using assms(2) failed_sub by (auto simp: xthen_def ret_def)
  then show ?thesis using abort [of "savepoints (stack s)"] ts failed_sub by simp
qed

lemma does_commit:
  assumes "stmt_kind st = TRANS_STMT_COMMIT"
  shows "does imp st b (xbind (EndTransactionBlock (stmt_chain st)) (\<lambda>_. ret ()))"
proof (rule doesI)
  fix s r s' assume a: "active imp b (stack s)" and run: "xbind (EndTransactionBlock (stmt_chain st)) (\<lambda>_. ret ()) s = (r, s')"
  obtain q where q: "EndTransactionBlock (stmt_chain st) s = (q, s')" "r = (case q of Inl e \<Rightarrow> Inl e | Inr _ \<Rightarrow> Inr ())"
    using run by (auto simp: xbind_def ret_def split: prod.splits sum.splits)
  show "case r of Inr _ \<Rightarrow> stmt_ok st b (stack s') | Inl e \<Rightarrow> (\<exists>x. e = Xerror ERROR x) \<and> (stack s' = stack s \<or> stmt_ok st b (stack s'))"
    using a q(1)
  proof (cases rule: end_block_cases)
    case refused
    then show ?thesis using q by simp
  next
    case (none t)
    then show ?thesis using q assms by (auto intro!: stmt_okI [OF _ marks.started] simp: txn_step_def error_step_def)
  next
    case (one t)
    then show ?thesis using q assms by (auto intro!: stmt_okI [OF _ marks_end] simp: txn_step_def error_step_def error_target_def)
  next
    case (many ns)
    then show ?thesis using q assms
      by (auto intro!: stmt_okI [OF _ marks_commit_subs] simp: txn_step_def error_step_def error_target_def)
  next
    case (abort ns)
    have "stmt_ok st b (stack s')"
      by (rule stmt_okI [OF _ abort(3)]) (use abort(1) assms in \<open>auto simp: txn_step_def error_step_def error_target_def\<close>)
    then show ?thesis using abort(2) q by simp
  qed
qed

lemma prepare_last:
  assumes "commit_marked ts" "based ts" "length ts > 1" "blockState (last ts) = TBLOCK_END"
  shows "marks Idle Idle (ts[length ts - 1 := (ts ! (length ts - 1))\<lparr>blockState := TBLOCK_PREPARE\<rparr>])"
proof (rule marks_commit_subs)
  have "commit_marked (us[length us - 1 := (us ! (length us - 1))\<lparr>blockState := TBLOCK_PREPARE\<rparr>])" if "commit_marked us" for us
    using that by (induction us rule: commit_marked.induct) (auto split: nat.splits)
  then show "commit_marked (ts[length ts - 1 := (ts ! (length ts - 1))\<lparr>blockState := TBLOCK_PREPARE\<rparr>])" using assms(1) .
  have "labels (ts[length ts - 1 := (ts ! (length ts - 1))\<lparr>blockState := TBLOCK_PREPARE\<rparr>]) = labels ts"
    using assms(3) by (auto simp: labels_def nth_list_update intro!: nth_equalityI)
  then show "based (ts[length ts - 1 := (ts ! (length ts - 1))\<lparr>blockState := TBLOCK_PREPARE\<rparr>])"
    using based_labels assms(2) by blast
qed (use assms in simp)

text \<open>A statement behind a guard that may refuse it.\<close>

definition guards :: "unit xm \<Rightarrow> bool" where
  "guards g \<longleftrightarrow> (\<forall>s. g s = (Inr (), s) \<or> (\<exists>x. g s = (Inl (Xerror ERROR x), s)))"

lemma does_guard:
  assumes "guards g" "does imp st b m"
  shows "does imp st b (xthen g m)"
  unfolding does_def hoare_def
proof (intro allI impI)
  fix s :: xact assume s: "active imp b (stack s)"
  consider "g s = (Inr (), s)" | x where "g s = (Inl (Xerror ERROR x), s)" using assms(1) by (auto simp: guards_def)
  then show "case xthen g m s of (Inl e, s') \<Rightarrow> settled (stmt_fails (TransactionStmt st) b) e s' | (Inr a, s') \<Rightarrow> stmt_ok st b (stack s')"
  proof cases
    case 1
    then show ?thesis using assms(2) s by (simp add: does_def hoare_def xthen_def)
  next
    case 2
    then show ?thesis using active_fails [OF s] by (simp add: xthen_def)
  qed
qed

lemma recovery_guard: "guards (PreventCommandDuringRecovery cf)"
  by (auto simp: guards_def PreventCommandDuringRecovery_def raise_def ret_def)

lemma does_prepare:
  assumes "stmt_kind st = TRANS_STMT_PREPARE"
  shows "does imp st b (xthen (PreventCommandDuringRecovery cf) (xbind (PrepareTransactionBlock gid) (\<lambda>_. ret ())))"
proof (rule does_guard [OF recovery_guard], rule doesI)
  fix s r s' assume a: "active imp b (stack s)" and run: "xbind (PrepareTransactionBlock gid) (\<lambda>_. ret ()) s = (r, s')"
  obtain q u where q: "EndTransactionBlock False s = (q, u)" by fastforce
  have idle: "marks Idle Idle (stack s') \<Longrightarrow> stmt_ok st b (stack s')"
    using assms by (intro stmt_okI [of st b Idle Idle]) (auto simp: txn_step_def error_step_def error_target_def split: block.splits)
  show "case r of Inr _ \<Rightarrow> stmt_ok st b (stack s') | Inl e \<Rightarrow> (\<exists>x. e = Xerror ERROR x) \<and> (stack s' = stack s \<or> stmt_ok st b (stack s'))"
    using a q
  proof (cases rule: end_block_cases)
    case (none t)
    then have "s' = u" "r = Inr ()" using q run by (auto simp: PrepareTransactionBlock_def xbind_def ret_def Let_def)
    then show ?thesis using idle none marks.started by auto
  next
    case (one t)
    then have "stack s' = [t\<lparr>blockState := TBLOCK_PREPARE\<rparr>]" "r = Inr ()"
      using q run by (auto simp: PrepareTransactionBlock_def xbind_def ret_def Let_def upd_frame_def)
    then show ?thesis using idle one marks_prepare [of "t\<lparr>blockState := TBLOCK_PREPARE\<rparr>"] by (auto simp: based_top)
  next
    case (many ns)
    then have "stack u ! (length (stack u) - 1) = last (stack u)" by (metis last_conv_nth list.size(3) not_less_zero)
    then have "stack s' = (stack u)[length (stack u) - 1 := (stack u ! (length (stack u) - 1))\<lparr>blockState := TBLOCK_PREPARE\<rparr>]" "r = Inr ()"
      using q run many by (auto simp: PrepareTransactionBlock_def xbind_def ret_def Let_def upd_frame_def)
    then show ?thesis using idle prepare_last [OF many(4-7)] by simp
  next
    case (abort ns)
    then have "s' = u" "r = Inr ()" using q run by (auto simp: PrepareTransactionBlock_def xbind_def ret_def Let_def)
    then show ?thesis using idle abort(3) by simp
  qed simp
qed

lemma does_rollback:
  assumes "stmt_kind st = TRANS_STMT_ROLLBACK"
  shows "does imp st b (UserAbortTransactionBlock (stmt_chain st))"
proof (rule doesI)
  fix s r s' assume a: "active imp b (stack s)" and run: "UserAbortTransactionBlock (stmt_chain st) s = (r, s')"
  let ?b = "if stmt_chain st then Open [] else Idle"
  have ok: "stmt_ok st b (stack s')" if "marks ?b Idle (stack s')" "b = Idle \<longrightarrow> \<not> stmt_chain st"
    by (rule stmt_okI [OF _ that(1)]) (use assms that(2) in \<open>auto simp: txn_step_def error_step_def error_target_def split: block.splits\<close>)
  have one: "marks ?b Idle (stack s')" if "stack s = [t]" "based [t]" "s' = set_block_chain bs (stmt_chain st) s"
      "bs = TBLOCK_ABORT_PENDING \<or> bs = TBLOCK_ABORT_END \<and> trans_state t = TRANS_ABORT" for t bs
    using that marks_abort_end [of "t\<lparr>blockState := bs, chain := stmt_chain st\<rparr>"] by (simp add: based_top)
  have many: "r = Inr () \<and> marks ?b Idle (stack s')" if h: "opened {TBLOCK_INPROGRESS} (stack s) \<or> failed (stack s)" "based (stack s)"
      "UserAbortTransactionBlock (stmt_chain st) s = mark_stack abort_mark abort_mark_top (stmt_chain st) s"
  proof -
    obtain ts where "mark_stack abort_mark abort_mark_top (stmt_chain st) s = (Inr (), s\<lparr>stack := ts\<rparr>)" "marks ?b Idle ts"
      using mark_stack_abort [OF h(1,2), of "stmt_chain st"] by blast
    then show ?thesis using run h(3) by auto
  qed
  show "case r of Inr _ \<Rightarrow> stmt_ok st b (stack s') | Inl e \<Rightarrow> (\<exists>x. e = Xerror ERROR x) \<and> (stack s' = stack s \<or> stmt_ok st b (stack s'))"
    using a
  proof (cases rule: active_cases)
    case (idle t)
    show ?thesis
    proof (cases "stmt_chain st")
      case True
      then have "r = Inl (Xerror ERROR NoActiveTransaction)" "s' = s" using run idle by (auto simp: raise_def split: if_splits)
      then show ?thesis by simp
    next
      case False
      then have "r = Inr ()" "s' = set_block_chain TBLOCK_ABORT_PENDING (stmt_chain st) s" using run idle by (auto split: if_splits)
      then show ?thesis using one [OF idle(2,3)] False ok by simp
    qed
  next
    case (top t)
    then have "r = Inr ()" "s' = set_block_chain TBLOCK_ABORT_PENDING (stmt_chain st) s" using run by auto
    then show ?thesis using one [OF top(2,3)] top(1) ok by simp
  next
    case (failed_top t)
    then have "r = Inr ()" "s' = set_block_chain TBLOCK_ABORT_END (stmt_chain st) s" using run by auto
    then show ?thesis using one [OF failed_top(2,3)] failed_top(1,4) ok by simp
  next
    case (sub t u us)
    then show ?thesis using many ok by (simp add: sub_live_def)
  next
    case (failed_sub t u us)
    then show ?thesis using many ok by simp
  qed
qed

text \<open>Statements that need a transaction block are refused outside of one, also in an implicit block.\<close>

lemma require_block:
  assumes "active imp b (stack s)"
  shows "RequireTransactionBlock True s = (if b = Idle \<and> \<not> imp then (Inl (Xerror ERROR NoActiveTransaction), s) else (Inr (), s))"
  using assms
  by (cases rule: active_cases)
    (auto simp: RequireTransactionBlock_def CheckTransactionBlock_def IsTransactionBlock_def IsSubTransaction_def raise_def ret_def
      sub_live_def based_top)

lemma doesI_block:
  assumes "\<And>s r s'. \<lbrakk> active imp b (stack s); b \<noteq> Idle; m s = (r, s') \<rbrakk> \<Longrightarrow>
     (case r of Inr _ \<Rightarrow> stmt_ok st b (stack s') | Inl e \<Rightarrow> (\<exists>x. e = Xerror ERROR x) \<and> (stack s' = stack s \<or> stmt_ok st b (stack s')))"
    and "\<And>s t. \<lbrakk> stack s = [t]; blockState t = TBLOCK_IMPLICIT_INPROGRESS \<rbrakk> \<Longrightarrow> \<exists>x. m s = (Inl (Xerror ERROR x), s)"
  shows "does imp st b (xthen (RequireTransactionBlock True) m)"
proof (rule doesI)
  fix s r s' assume a: "active imp b (stack s)" and run: "xthen (RequireTransactionBlock True) m s = (r, s')"
  show "case r of Inr _ \<Rightarrow> stmt_ok st b (stack s') | Inl e \<Rightarrow> (\<exists>x. e = Xerror ERROR x) \<and> (stack s' = stack s \<or> stmt_ok st b (stack s'))"
  proof (cases "b = Idle")
    case True
    then obtain t where t: "stack s = [t]" "blockState t = (if imp then TBLOCK_IMPLICIT_INPROGRESS else TBLOCK_STARTED)"
      using a by (auto simp: active_def)
    then show ?thesis using assms(2) [of s t] run require_block [OF a] True by (cases imp) (auto simp: xthen_def)
  next
    case False
    then show ?thesis using assms(1) [OF a False, of r s'] run require_block [OF a] by (simp add: xthen_def)
  qed
qed

lemma parallel_error: "IsInParallelMode s \<Longrightarrow> DefineSavepoint n s = (Inl (Xerror ERROR ParallelOperation), s)"
  by (simp add: DefineSavepoint_def raise_def)

lemma does_savepoint:
  assumes "stmt_kind st = TRANS_STMT_SAVEPOINT" "\<forall>ns. b \<noteq> Failed ns"
  shows "does imp st b (xthen (RequireTransactionBlock True) (DefineSavepoint (Some (savepoint_name st))))"
proof (rule doesI_block)
  fix s r s' assume a: "active imp b (stack s)" and "b \<noteq> Idle" and run: "DefineSavepoint (Some (savepoint_name st)) s = (r, s')"
  then obtain ns where b: "b = Open ns" using assms(2) by (cases b) auto
  obtain u us where u: "stack s = u # us" using a by (cases rule: active_cases) auto
  have o: "resting (Open ns) (u # us)" using a b u by (simp add: active_def)
  then have op: "opened {TBLOCK_INPROGRESS} (u # us)" by simp
  show "case r of Inr _ \<Rightarrow> stmt_ok st b (stack s') | Inl e \<Rightarrow> (\<exists>x. e = Xerror ERROR x) \<and> (stack s' = stack s \<or> stmt_ok st b (stack s'))"
  proof (cases r)
    case (Inr x)
    then obtain t where t: "stack s' = t # u # us" "blockState t = TBLOCK_SUBBEGIN" "spname t = Some (savepoint_name st)"
        "savepointLevel t = savepointLevel u"
      using hoareD(1) [OF define_savepoint_open [OF op] u] run by blast
    have "marks (Open (spname t # ns)) (Failed ns) (stack s')" unfolding t(1) by (rule marks.saved [OF t(2,4) o])
    then have "stmt_ok st b (stack s')"
      by (rule stmt_okI [rotated]) (use assms(1) b t(3) in \<open>auto simp: txn_step_def error_step_def\<close>)
    then show ?thesis using Inr by simp
  next
    case (Inl e)
    then have "settled (\<lambda>ts. ts = u # us) e s'" using hoareD(2) [OF define_savepoint_open [OF op] u] run by blast
    moreover have "\<exists>x. e = Xerror ERROR x"
      using run Inl op u by (cases us)
        (auto simp: DefineSavepoint_def PushTransaction_def xthen_def modify_def raise_def Let_def sub_live_def split: if_splits)
    ultimately show ?thesis using Inl u by auto
  qed
qed (auto simp: DefineSavepoint_def raise_def)

lemma savepoint_target_cases:
  assumes "based (stack s)" "stack s \<noteq> []"
  obtains (none) x where "savepoint_target n s = (Inl (Xerror ERROR x), s)"
    | (some) i where "savepoint_target n s = (Inr i, s)" "find_savepoint n (stack s) = Some i" "i + 1 < length (stack s)"
        "Some n \<in> set (savepoints (stack s))"
proof (cases "find_savepoint n (stack s)")
  case None
  then show ?thesis using none by (auto simp: savepoint_target_def raise_def)
next
  case (Some i)
  then have i: "i + 1 < length (stack s)" "Some n \<in> set (savepoints (stack s))"
    using find_savepoint_in [OF Some] assms(1) by (auto simp: based_def)
  have "savepointLevel (stack s ! i) = savepointLevel (cur s)"
    using assms i(1) by (auto simp: based_def list_all_length cur_def hd_conv_nth)
  then show ?thesis using some [OF _ Some i] Some by (simp add: savepoint_target_def)
qed

lemma does_release:
  assumes "stmt_kind st = TRANS_STMT_RELEASE" "\<forall>ns. b \<noteq> Failed ns"
  shows "does imp st b (xthen (RequireTransactionBlock True) (ReleaseSavepoint (savepoint_name st)))"
proof (rule doesI_block)
  let ?n = "savepoint_name st"
  fix s r s' assume a: "active imp b (stack s)" and "b \<noteq> Idle" and run: "ReleaseSavepoint ?n s = (r, s')"
  then obtain ns where b: "b = Open ns" using assms(2) by (cases b) auto
  have o: "opened {TBLOCK_INPROGRESS} (stack s)" "savepoints (stack s) = ns" "based (stack s)" using a b by (simp_all add: active_def)
  then have ne: "stack s \<noteq> []" by auto
  show "case r of Inr _ \<Rightarrow> stmt_ok st b (stack s') | Inl e \<Rightarrow> (\<exists>x. e = Xerror ERROR x) \<and> (stack s' = stack s \<or> stmt_ok st b (stack s'))"
  proof (cases "IsInParallelMode s \<or> length (stack s) = 1")
    case True
    then have "IsInParallelMode s \<or> blockState (cur s) = TBLOCK_INPROGRESS" using o(1) by (cases "stack s" rule: recoverable.cases) auto
    then have "\<exists>x. ReleaseSavepoint ?n s = (Inl (Xerror ERROR x), s)" by (elim disjE) (simp_all add: ReleaseSavepoint_def raise_def)
    then show ?thesis using run by auto
  next
    case False
    then have bs: "blockState (cur s) = TBLOCK_SUBINPROGRESS" using o(1) by (cases "stack s" rule: recoverable.cases) (auto simp: sub_live_def)
    show ?thesis using o(3) ne
    proof (cases rule: savepoint_target_cases [where n = ?n])
      case (none x)
      then show ?thesis using run False bs by (auto simp: ReleaseSavepoint_def xbind_def)
    next
      case (some i)
      let ?ts = "map (\<lambda>t. t\<lparr>blockState := TBLOCK_SUBRELEASE\<rparr>) (take (i + 1) (stack s)) @ drop (i + 1) (stack s)"
      have r: "r = Inr ()" "stack s' = ?ts" using run False bs some by (auto simp: ReleaseSavepoint_def xbind_def)
      have "labels ?ts = labels (take (i + 1) (stack s) @ drop (i + 1) (stack s))" by (simp only: labels_simps) (simp add: labels_def)
      then have "labels ?ts = labels (stack s)" by (simp only: append_take_drop_id)
      then have "based ?ts" using based_labels o(3) by blast
      with release_ok [OF o(1,3) some(2,3), unfolded o(2)]
      have "marks (Open (tl (from_savepoint ?n ns))) (Failed (tl (from_savepoint ?n ns))) ?ts" by (rule marks.released)
      then have "stmt_ok st b (stack s')" unfolding r(2)
        by (rule stmt_okI [rotated]) (use assms(1) b o(2) some(4) in \<open>auto simp: txn_step_def error_step_def error_target_def\<close>)
      then show ?thesis using r(1) by simp
    qed
  qed
qed (auto simp: ReleaseSavepoint_def raise_def)

lemma from_savepoint_Cons: "Some n \<in> set ns \<Longrightarrow> \<exists>ms. from_savepoint n ns = Some n # ms"
  unfolding from_savepoint_def by (induction ns) auto

lemma does_rollback_to:
  assumes "stmt_kind st = TRANS_STMT_ROLLBACK_TO"
  shows "does imp st b (xthen (RequireTransactionBlock True) (RollbackToSavepoint (savepoint_name st)))"
proof (rule doesI_block)
  let ?n = "savepoint_name st"
  fix s r s' assume a: "active imp b (stack s)" and ni: "b \<noteq> Idle" and run: "RollbackToSavepoint ?n s = (r, s')"
  have o: "opened {TBLOCK_INPROGRESS} (stack s) \<or> failed (stack s)" "based (stack s)" using a ni by (cases b; simp add: active_def)+
  have b: "b = Open (savepoints (stack s)) \<or> b = Failed (savepoints (stack s))" using a ni by (cases b; simp add: active_def)
  have ne: "stack s \<noteq> []" using o by auto
  show "case r of Inr _ \<Rightarrow> stmt_ok st b (stack s') | Inl e \<Rightarrow> (\<exists>x. e = Xerror ERROR x) \<and> (stack s' = stack s \<or> stmt_ok st b (stack s'))"
  proof (cases "IsInParallelMode s \<or> length (stack s) = 1")
    case True
    then have "\<exists>x. RollbackToSavepoint ?n s = (Inl (Xerror ERROR x), s)"
      using o(1) by (cases "IsInParallelMode s") (auto simp: RollbackToSavepoint_def raise_def length_Suc_conv)
    then show ?thesis using run by auto
  next
    case False
    then have bs: "blockState (cur s) = TBLOCK_SUBINPROGRESS \<or> blockState (cur s) = TBLOCK_SUBABORT"
      using o(1) by (cases "stack s" rule: recoverable.cases) (auto simp: sub_live_def)
    show ?thesis using o(2) ne
    proof (cases rule: savepoint_target_cases [where n = ?n])
      case (none x)
      then show ?thesis using run False bs by (auto simp: RollbackToSavepoint_def xbind_def)
    next
      case (some i)
      obtain ts where ts: "mark_rollback i (stack s) = (ts, True)" "rollback_marked (Open (from_savepoint ?n (savepoints (stack s)))) ts"
          "labels ts = labels (stack s)"
        using mark_rollback_ok [OF o some(2,3)] by blast
      obtain ms where ms: "from_savepoint ?n (savepoints (stack s)) = Some ?n # ms" using from_savepoint_Cons [OF some(4)] by blast
      have r: "r = Inr ()" "stack s' = ts" using run False bs some ts(1) by (auto simp: RollbackToSavepoint_def xbind_def)
      have "marks (Open (Some ?n # ms)) (Failed ms) ts"
        using ts(2) ms based_labels [OF ts(3)] o(2) by (intro marks.restarted) auto
      then have "stmt_ok st b (stack s')" unfolding r(2)
        by (rule stmt_okI [rotated]) (use assms b ms some(4) in \<open>auto simp: txn_step_def error_step_def error_target_def\<close>)
      then show ?thesis using r(1) by simp
    qed
  qed
qed (auto simp: RollbackToSavepoint_def raise_def)

lemma does_prepared:
  assumes "stmt_kind st = TRANS_STMT_COMMIT_PREPARED \<or> stmt_kind st = TRANS_STMT_ROLLBACK_PREPARED" "\<forall>ns. b \<noteq> Failed ns"
  shows "does imp st b (seq [PreventInTransactionBlock True, PreventCommandDuringRecovery cf, if ok then ret () else raise ERROR StatementFailed])"
proof (rule doesI)
  fix s r s' assume a: "active imp b (stack s)"
    and run: "seq [PreventInTransactionBlock True, PreventCommandDuringRecovery cf, if ok then ret () else raise ERROR StatementFailed] s = (r, s')"
  show "case r of Inr _ \<Rightarrow> stmt_ok st b (stack s') | Inl e \<Rightarrow> (\<exists>x. e = Xerror ERROR x) \<and> (stack s' = stack s \<or> stmt_ok st b (stack s'))"
  proof (cases "b = Idle \<and> \<not> imp")
    case True
    then obtain t where t: "stack s = [t]" "blockState t = TBLOCK_STARTED" "based [t]" using a by (auto simp: active_def)
    then have "stmt_ok st b [t]"
      using True assms(1) by (intro stmt_okI [OF _ marks.started]) (auto simp: txn_step_def error_step_def)
    then show ?thesis using t run
      by (auto simp: xthen_def PreventInTransactionBlock_def PreventCommandDuringRecovery_def IsTransactionBlock_def IsSubTransaction_def
        ret_def raise_def based_top split: if_splits)
  next
    case False
    then have "IsTransactionBlock s"
      by (cases rule: active_cases [OF a]) (use assms(2) in \<open>auto simp: IsTransactionBlock_def sub_live_def\<close>)
    then show ?thesis using run by (auto simp: xthen_def PreventInTransactionBlock_def raise_def)
  qed
qed

lemma options_stack:
  "seq (map (SetPGVariable cf) os) s = (r, s') \<Longrightarrow> stack s' = stack s \<and> (\<forall>e. r = Inl e \<longrightarrow> (\<exists>x. e = Xerror ERROR x))"
proof (induction os arbitrary: s)
  case (Cons item os)
  then show ?case
    by (cases item) (auto simp: xthen_def ret_def raise_def split: if_splits prod.splits sum.splits)
qed (auto simp: ret_def)

lemma does_begin:
  assumes "stmt_kind st = TRANS_STMT_BEGIN \<or> stmt_kind st = TRANS_STMT_START" "\<forall>ns. b \<noteq> Failed ns"
  shows "does imp st b (seq (BeginTransactionBlock # map (SetPGVariable cf) os))"
proof (rule doesI)
  fix s r s' assume a: "active imp b (stack s)" and run: "seq (BeginTransactionBlock # map (SetPGVariable cf) os) s = (r, s')"
  have "\<exists>u. BeginTransactionBlock s = (Inr (), u) \<and> stmt_ok st b (stack u)"
    using a
  proof (cases rule: active_cases)
    case (idle t)
    then have "stmt_ok st b [t\<lparr>blockState := TBLOCK_BEGIN\<rparr>]"
      using assms(1) by (intro stmt_okI [OF _ marks.begun]) (auto simp: txn_step_def error_step_def based_top)
    then show ?thesis using idle by auto
  next
    case (top t)
    then have "stmt_ok st b [t]"
      using assms(1) by (intro stmt_okI [OF _ marks.going [of "[]"]]) (auto simp: txn_step_def error_step_def)
    then show ?thesis using top by (auto simp: ret_def)
  next
    case (sub t u us)
    then have "stmt_ok st b (stack s)"
      using assms(1) by (intro stmt_okI [OF _ marks.going [of "savepoints (stack s)"]]) (auto simp: txn_step_def error_step_def)
    then show ?thesis using sub by (auto simp: ret_def sub_live_def)
  qed (use assms(2) in auto)
  then obtain u where u: "BeginTransactionBlock s = (Inr (), u)" "stmt_ok st b (stack u)" by blast
  then have "seq (map (SetPGVariable cf) os) u = (r, s')" using run by (simp add: xthen_def)
  then show "case r of Inr _ \<Rightarrow> stmt_ok st b (stack s') | Inl e \<Rightarrow> (\<exists>x. e = Xerror ERROR x) \<and> (stack s' = stack s \<or> stmt_ok st b (stack s'))"
    using options_stack u(2) by (cases r) force+
qed

lemma does_transaction_stmt:
  assumes "\<not> ((\<exists>ns. b = Failed ns) \<and> \<not> IsTransactionExitStmt (TransactionStmt st))"
  shows "does imp st b (ProcessTransactionStmt cf fp True st)"
  using assms
  by (cases "stmt_kind st")
    (auto simp: ProcessTransactionStmt_def IsTransactionExitStmt_def simp del: seq.simps intro!: does_begin does_commit does_rollback does_savepoint does_release
      does_rollback_to does_prepare does_prepared [where ok = True, unfolded if_True] does_prepared [where ok = False, unfolded if_False])

section \<open>Queries\<close>

text \<open>Between two statements of a query; \<open>started\<close> is the flag \<^verbatim>\<open>xact_started\<close>.\<close>

definition between :: "bool \<Rightarrow> bool \<Rightarrow> block \<Rightarrow> frames \<Rightarrow> bool" where
  "between imp started b ts \<longleftrightarrow> (if started then active False b ts \<or> imp \<and> active True b ts else resting b ts)"

lemma active_alike:
  assumes "active imp b ts" "list_all2 alike ts ts'"
  shows "active imp b ts'"
proof (cases b)
  case Idle
  then show ?thesis using assms by (auto simp: active_def list_all2_Cons1 alike_def based_top)
next
  case (Open ns)
  then show ?thesis using assms shape_alike [OF assms(2)] by (auto simp: active_def)
next
  case (Failed ns)
  have "failed ts'" using assms Failed opened_alike [of "tl ts" "tl ts'" "{TBLOCK_INPROGRESS}"]
    by (cases ts rule: recoverable.cases) (auto simp: active_def list_all2_Cons1 alike_def)
  then show ?thesis using Failed assms shape_alike [OF assms(2)] by (auto simp: active_def)
qed

lemma resting_aborted: "resting b (stack s) \<or> active imp b (stack s) \<Longrightarrow> IsAbortedTransactionBlockState s \<longleftrightarrow> (\<exists>ns. b = Failed ns)"
  by (cases b; cases "stack s" rule: recoverable.cases) (auto simp: IsAbortedTransactionBlockState_def active_def sub_live_def split: if_splits)

lemma resting_fails: "resting b ts \<Longrightarrow> stmt_fails p b ts"
proof (cases b)
  case Idle
  assume "resting b ts"
  then have "fails_to Idle ts" using Idle by (cases ts rule: recoverable.cases) (auto simp: fails_to_def)
  then show ?thesis using Idle by (auto simp: stmt_fails_def error_step_def)
qed (use active_fails [of False b ts p] in \<open>auto simp: active_def\<close>)

lemma between_fails: "between imp started b ts \<Longrightarrow> stmt_fails p b ts"
  using active_fails resting_fails by (auto simp: between_def split: if_splits)

lemma start_command:
  "hoare (\<lambda>s. between imp started b (stack s)) (start_xact_command cf started)
     (\<lambda>_ s. active False b (stack s) \<or> imp \<and> active True b (stack s)) (settled R)"
proof (cases started)
  case True
  then show ?thesis by (auto simp: start_xact_command_def between_def intro!: hoare_ret)
next
  case False
  have "\<exists>s'. StartTransactionCommand cf s = (Inr (), s') \<and> active False b (stack s')" if r: "resting b (stack s)" for s
  proof (cases b)
    case Idle
    then obtain t where t: "stack s = [t]" "blockState t = TBLOCK_DEFAULT" "based [t]"
      using r by (cases "stack s" rule: recoverable.cases) auto
    then obtain t' where "stack (StartTransaction cf s) = [t']" "left_as TRANS_INPROGRESS t t'" using StartTransaction_stack by blast
    then show ?thesis using t Idle by (auto simp: active_def left_as_def alike_def based_top)
  next
    case (Open ns)
    then show ?thesis using r by (cases "stack s" rule: recoverable.cases) (auto simp: active_def sub_live_def ret_def)
  next
    case (Failed ns)
    then show ?thesis using r by (cases "stack s" rule: recoverable.cases) (auto simp: active_def ret_def)
  qed
  then show ?thesis using False by (fastforce simp: hoare_def start_xact_command_def xthen_def ret_def between_def)
qed

lemma implicit_block:
  assumes "active False b (stack s) \<or> imp \<and> active True b (stack s)"
  shows "active imp b (stack (if imp then BeginImplicitTransactionBlock s else s))"
proof (cases "b = Idle")
  case True
  then obtain t where "stack s = [t]" "blockState t = TBLOCK_STARTED \<or> imp \<and> blockState t = TBLOCK_IMPLICIT_INPROGRESS" "based [t]"
      "trans_state t = TRANS_INPROGRESS"
    using assms by (auto simp: active_def)
  then show ?thesis using True by (auto simp: active_def BeginImplicitTransactionBlock_def based_top)
next
  case False
  then have r: "resting b (stack s)" using assms by (auto simp: active_def)
  then have "blockState (cur s) \<noteq> TBLOCK_STARTED"
    using False by (cases b; cases "stack s" rule: recoverable.cases) (auto simp: sub_live_def)
  then show ?thesis using r False by (simp add: active_def BeginImplicitTransactionBlock_def)
qed

lemma marks_not_implicit:
  assumes "marks b e (stack s)"
  shows "blockState (cur s) \<noteq> TBLOCK_IMPLICIT_INPROGRESS"
  using assms
proof cases
  case (going ns)
  then show ?thesis by (cases "stack s" rule: recoverable.cases) (auto simp: sub_live_def)
next
  case (broken ns)
  then show ?thesis by (cases "stack s" rule: recoverable.cases) auto
next
  case committed
  then show ?thesis by (cases "stack s" rule: recoverable.cases) auto
next
  case (released ns)
  then show ?thesis by (cases "stack s") auto
next
  case (restarted n ns)
  then show ?thesis by (cases "stack s" rule: recoverable.cases) (auto split: if_splits)
next
  case left
  then show ?thesis by (cases "stack s" rule: recoverable.cases) (auto split: if_splits)
qed (auto simp: cur_def)

lemma finish_command:
  "hoare (\<lambda>s. marks b e (stack s)) (finish_xact_command cf True) (\<lambda>started s. \<not> started \<and> resting b (stack s)) (settled (fails_to e))"
  unfolding finish_xact_command_def if_True
proof (rule hoare_xthen)
  show "hoare (\<lambda>s. marks b e (stack s)) (CommitTransactionCommand cf) (\<lambda>_ s. resting b (stack s)) (settled (fails_to e))"
    using command_marks by (fastforce simp: hoare_def)
qed (simp add: hoare_ret)

lemma settled_fails: "settled (fails_to e) x s \<Longrightarrow> error_step p b e \<Longrightarrow> settled (stmt_fails p b) x s"
  by (erule settled_mono) (auto simp: stmt_fails_def)

text \<open>What the loop keeps: the client's block after the statement, or a failure the client may expect.\<close>

definition advances :: "bool \<Rightarrow> bool \<Rightarrow> RawStmt \<Rightarrow> block \<Rightarrow> bool \<Rightarrow> frames \<Rightarrow> bool" where
  "advances imp is_last p b started ts \<longleftrightarrow>
     (\<exists>b'. ok_step p b = Some b' \<and> between imp started b' ts) \<and> (is_last \<longrightarrow> \<not> started)"

lemma after_transaction_stmt:
  "hoare (\<lambda>s. stmt_ok st b (stack s)) (after_stmt cf imp (TransactionStmt st) is_last)
     (\<lambda>started s. advances imp is_last (TransactionStmt st) b started (stack s)) (settled (stmt_fails (TransactionStmt st) b))"
proof (rule hoare_pre)
  fix s :: xact assume "stmt_ok st b (stack s)"
  then obtain b' e where m: "txn_step st b = Some b'" "marks b' e (stack s)" "error_step (TransactionStmt st) b e"
    by (auto simp: stmt_ok_def)
  have "hoare (\<lambda>s'. s' = s) (finish_xact_command cf True)
      (\<lambda>started s. advances imp is_last (TransactionStmt st) b started (stack s)) (settled (stmt_fails (TransactionStmt st) b))"
    by (rule hoare_weaken [OF finish_command [of b' e]])
      (use m in \<open>auto simp: advances_def ok_step_def between_def intro: settled_fails\<close>)
  then show "hoare (\<lambda>s'. s' = s) (after_stmt cf imp (TransactionStmt st) is_last)
     (\<lambda>started s. advances imp is_last (TransactionStmt st) b started (stack s)) (settled (stmt_fails (TransactionStmt st) b))"
    using marks_not_implicit [OF m(2)] by (auto simp: hoare_def after_stmt_def EndImplicitTransactionBlock_def)
qed

lemma after_other_stmt:
  assumes "\<forall>ns. b \<noteq> Failed ns"
  shows "hoare (\<lambda>s. active imp b (stack s)) (after_stmt cf imp (OtherStmt ws) is_last)
     (\<lambda>started s. advances imp is_last (OtherStmt ws) b started (stack s)) (settled (stmt_fails (OtherStmt ws) b))"
proof (cases is_last)
  case True
  let ?fin = "\<lambda>s. if imp then EndImplicitTransactionBlock s else s"
  define e where "e = (case b of Idle \<Rightarrow> Idle | Open ns \<Rightarrow> Failed ns | Failed ns \<Rightarrow> Failed ns)"
  have ok: "ok_step (OtherStmt ws) b = Some b" "error_step (OtherStmt ws) b e"
    using assms by (auto simp: ok_step_def e_def error_step_def split: block.splits)
  have "marks b e (stack (?fin s))" if a: "active imp b (stack s)" for s
  proof (cases b)
    case Idle
    then obtain t where "stack s = [t]" "blockState t = (if imp then TBLOCK_IMPLICIT_INPROGRESS else TBLOCK_STARTED)" "based [t]"
      using a by (auto simp: active_def)
    then have "stack (?fin s) = [t\<lparr>blockState := TBLOCK_STARTED\<rparr>]" by (auto simp: EndImplicitTransactionBlock_def)
    then show ?thesis using Idle \<open>based [t]\<close> by (auto simp: e_def based_top intro!: marks.started)
  next
    case (Open ns)
    then have "marks b e (stack s)" using a by (auto simp: active_def e_def intro!: marks.going)
    then show ?thesis using marks_not_implicit by (auto simp: EndImplicitTransactionBlock_def)
  qed (use assms in simp)
  then have "hoare (\<lambda>s. active imp b (stack s)) (\<lambda>s. finish_xact_command cf True (?fin s))
      (\<lambda>started s. \<not> started \<and> resting b (stack s)) (settled (fails_to e))"
    using finish_command [of b e cf] by (simp add: hoare_def)
  then show ?thesis
    by (rule hoare_eq [rotated, OF hoare_weaken])
      (use True ok in \<open>auto simp: after_stmt_def advances_def between_def intro: settled_fails\<close>)
next
  case False
  have adv: "advances imp is_last (OtherStmt ws) b True ts" if "active imp b ts" for ts
    using that False assms by (cases imp) (auto simp: advances_def ok_step_def between_def split: block.splits)
  have "hoare (\<lambda>s. active imp b (stack s)) (xthen (CommandCounterIncrement cf) (ret True))
     (\<lambda>started s. advances imp is_last (OtherStmt ws) b started (stack s)) (settled (stmt_fails (OtherStmt ws) b))"
    by (rule hoareI) (auto simp: CommandCounterIncrement_def xthen_def ret_def raise_def intro: adv active_fails split: if_splits)
  then show ?thesis by (rule hoare_eq [rotated]) (use False in \<open>simp add: after_stmt_def\<close>)
qed

lemma opened_subset: "opened B ts \<Longrightarrow> B \<subseteq> C \<Longrightarrow> opened C ts"
  by (induction B ts rule: opened.induct) auto

lemma hoare_compose: "(\<And>s. P s \<Longrightarrow> P' (f s)) \<Longrightarrow> hoare P' m Q E \<Longrightarrow> hoare P (\<lambda>s. m (f s)) Q E"
  by (simp add: hoare_def)

lemma exec_stmt_advances:
  "hoare (\<lambda>s. between imp started b (stack s)) (exec_stmt cf fp imp is_last p started)
     (\<lambda>started' s. advances imp is_last p b started' (stack s)) (settled (stmt_fails p b))"
proof (rule hoare_pre)
  fix s :: xact assume s: "between imp started b (stack s)"
  have aborted: "IsAbortedTransactionBlockState s \<longleftrightarrow> (\<exists>ns. b = Failed ns)"
    using s resting_aborted by (auto simp: between_def split: if_splits)
  show "hoare (\<lambda>s'. s' = s) (exec_stmt cf fp imp is_last p started)
     (\<lambda>started' s. advances imp is_last p b started' (stack s)) (settled (stmt_fails p b))"
  proof (cases "IsAbortedTransactionBlockState s \<and> \<not> IsTransactionExitStmt p")
    case True
    then show ?thesis using between_fails [OF s] by (simp add: hoare_def exec_stmt_def raise_def)
  next
    case run: False
    have portal: "hoare (\<lambda>s. active imp b (stack s)) (xthen (run_portal cf fp p) (after_stmt cf imp p is_last))
        (\<lambda>started' s. advances imp is_last p b started' (stack s)) (settled (stmt_fails p b))"
    proof (cases p)
      case (TransactionStmt st)
      have "does imp st b (ProcessTransactionStmt cf fp True st)"
        using run aborted TransactionStmt by (intro does_transaction_stmt) auto
      then show ?thesis unfolding TransactionStmt run_portal_def does_def RawStmt.case
        by (rule hoare_xthen) (rule after_transaction_stmt)
    next
      case (OtherStmt ws)
      then have nf: "\<forall>ns. b \<noteq> Failed ns" using run aborted by (auto simp: IsTransactionExitStmt_def)
      have "hoare (\<lambda>s. active imp b (stack s)) (do_works cf ws) (\<lambda>_ s. active imp b (stack s)) (settled (stmt_fails p b))"
      proof (rule hoare_pre)
        fix s :: xact assume a: "active imp b (stack s)"
        then have "in_command (stack s)"
          using nf by (cases rule: active_cases) (auto simp: in_command_def intro: opened_subset)
        note w = holds_work(2) [OF this, of cf ws, unfolded holds_def]
        have w2: "hoare (\<lambda>s'. s' = s) (do_works cf ws) (\<lambda>_ s. active imp b (stack s)) (settled (list_all2 alike (stack s)))"
          by (rule hoare_weaken [OF w]) (use active_alike [OF a] in simp_all)
        have fails: "list_all2 alike (stack s) ts' \<Longrightarrow> stmt_fails p b ts'" for ts' using active_alike [OF a] active_fails by blast
        show "hoare (\<lambda>s'. s' = s) (do_works cf ws) (\<lambda>_ s. active imp b (stack s)) (settled (stmt_fails p b))"
          by (rule hoare_settled [OF w2 fails])
      qed
      then show ?thesis unfolding OtherStmt run_portal_def RawStmt.case
        by (rule hoare_xthen) (rule after_other_stmt [OF nf])
    qed
    have rest: "hoare (\<lambda>s. active False b (stack s) \<or> imp \<and> active True b (stack s))
        (\<lambda>s. xthen (run_portal cf fp p) (after_stmt cf imp p is_last) (if imp then BeginImplicitTransactionBlock s else s))
        (\<lambda>started' s. advances imp is_last p b started' (stack s)) (settled (stmt_fails p b))"
      by (rule hoare_compose [OF implicit_block portal])
    have start: "hoare (\<lambda>s'. s' = s) (start_xact_command cf started) (\<lambda>_ s. active False b (stack s) \<or> imp \<and> active True b (stack s))
        (settled (stmt_fails p b))"
      by (rule hoare_weaken [OF start_command [of imp started b cf]]) (use s in simp_all)
    have "hoare (\<lambda>s'. s' = s) (xbind (start_xact_command cf started) (\<lambda>_ s.
        xthen (run_portal cf fp p) (after_stmt cf imp p is_last) (if imp then BeginImplicitTransactionBlock s else s)))
        (\<lambda>started' s. advances imp is_last p b started' (stack s)) (settled (stmt_fails p b))"
      by (rule hoare_xbind [OF start rest])
    then show ?thesis by (rule hoare_eq [rotated]) (use run in \<open>auto simp: exec_stmt_def\<close>)
  qed
qed

fun ok_steps :: "RawStmt list \<Rightarrow> block \<Rightarrow> block option" where
  "ok_steps [] b = Some b"
| "ok_steps (p # ps) b = (case ok_step p b of None \<Rightarrow> None | Some b' \<Rightarrow> ok_steps ps b')"

text \<open>A query may fail at each of its statements; the empty query may fail as an empty statement does.\<close>

fun error_steps :: "RawStmt list \<Rightarrow> block \<Rightarrow> block \<Rightarrow> bool" where
  "error_steps [] b b' = error_step (OtherStmt []) b b'"
| "error_steps [p] b b' = error_step p b b'"
| "error_steps (p # q # ps) b b' = (error_step p b b' \<or> (case ok_step p b of None \<Rightarrow> False | Some c \<Rightarrow> error_steps (q # ps) c b'))"

definition query_fails :: "RawStmt list \<Rightarrow> block \<Rightarrow> frames \<Rightarrow> bool" where
  "query_fails ps b ts \<longleftrightarrow> (\<exists>e. fails_to e ts \<and> error_steps ps b e)"

lemma exec_stmts_advances:
  assumes "ps \<noteq> []"
  shows "hoare (\<lambda>s. between imp started b (stack s)) (exec_stmts cf fp imp ps started)
     (\<lambda>started' s. \<not> started' \<and> (\<exists>b'. ok_steps ps b = Some b' \<and> resting b' (stack s))) (settled (query_fails ps b))"
  using assms
proof (induction ps arbitrary: b started)
  case (Cons p ps)
  let ?Q = "\<lambda>started' s. \<not> started' \<and> (\<exists>b'. ok_steps (p # ps) b = Some b' \<and> resting b' (stack s))"
  have first: "hoare (\<lambda>s. between imp started b (stack s)) (exec_stmt cf fp imp (ps = []) p started)
     (\<lambda>started' s. advances imp (ps = []) p b started' (stack s)) (settled (query_fails (p # ps) b))"
    by (rule hoare_settled [OF exec_stmt_advances]) (cases ps; auto simp: stmt_fails_def query_fails_def)
  have rest: "hoare (\<lambda>s. advances imp (ps = []) p b started' (stack s)) (exec_stmts cf fp imp ps started') ?Q (settled (query_fails (p # ps) b))"
    for started'
  proof (cases "ps = []")
    case True
    then show ?thesis by (auto simp: advances_def between_def intro!: hoare_ret)
  next
    case False
    show ?thesis
    proof (rule hoare_pre)
      fix s :: xact assume "advances imp (ps = []) p b started' (stack s)"
      then obtain c where c: "ok_step p b = Some c" "between imp started' c (stack s)" by (auto simp: advances_def)
      have "hoare (\<lambda>s'. s' = s) (exec_stmts cf fp imp ps started')
          (\<lambda>started' s. \<not> started' \<and> (\<exists>b'. ok_steps ps c = Some b' \<and> resting b' (stack s))) (settled (query_fails ps c))"
        by (rule hoare_weaken [OF Cons(1) [OF False, of started' c]]) (use c in simp_all)
      then have "hoare (\<lambda>s'. s' = s) (exec_stmts cf fp imp ps started')
          (\<lambda>started' s. \<not> started' \<and> (\<exists>b'. ok_steps ps c = Some b' \<and> resting b' (stack s))) (settled (query_fails (p # ps) b))"
        by (rule hoare_settled) (use c(1) False in \<open>cases ps; auto simp: query_fails_def\<close>)
      then show "hoare (\<lambda>s'. s' = s) (exec_stmts cf fp imp ps started') ?Q (settled (query_fails (p # ps) b))"
        using c(1) by simp
    qed
  qed
  show ?case unfolding exec_stmts.simps by (rule hoare_xbind [OF first rest])
qed simp

lemma xbind_ret: "xbind (ret a) f = f a"
  by (simp add: xbind_def ret_def fun_eq_iff)

lemma exec_query:
  "hoare (\<lambda>s. resting b (stack s)) (exec_simple_query cf fp (Some ps))
     (\<lambda>_ s. \<exists>b'. ok_steps ps b = Some b' \<and> resting b' (stack s)) (settled (query_fails ps b))"
proof -
  have start: "hoare (\<lambda>s. resting b (stack s)) (start_xact_command cf False) (\<lambda>started s. started \<and> between False True b (stack s)) (settled R)" for R
  proof (rule hoareI)
    fix s a s' assume s: "resting b (stack s)" "start_xact_command cf False s = (Inr a, s')"
    then show "a \<and> between False True b (stack s')"
      using hoareD(1) [OF start_command [of False False b cf]] by (auto simp: between_def start_xact_command_def xthen_def ret_def split: prod.splits sum.splits)
  next
    fix s e s' assume s: "resting b (stack s)" "start_xact_command cf False s = (Inl e, s')"
    then show "settled R e s'" using hoareD(2) [OF start_command [of False False b cf]] by (auto simp: between_def)
  qed
  let ?Q = "\<lambda>_ s. \<exists>b'. ok_steps ps b = Some b' \<and> resting b' (stack s)" and ?E = "settled (query_fails ps b)"
  have loop: "hoare (\<lambda>s. a \<and> between False True b (stack s)) (xbind (exec_stmts cf fp (length ps > 1) ps a)
       (\<lambda>started. xbind (finish_xact_command cf started) (\<lambda>_. ret ()))) ?Q ?E" for a
  proof (cases "ps = []")
    case True
    define e where "e = (case b of Idle \<Rightarrow> Idle | Open ns \<Rightarrow> Failed ns | Failed ns \<Rightarrow> Failed ns)"
    have m: "marks b e (stack s)" if "between False True b (stack s)" for s
      using that by (cases b) (auto simp: between_def active_def e_def intro: marks.intros)
    have "hoare (\<lambda>s. marks b e (stack s)) (xbind (finish_xact_command cf True) (\<lambda>_. ret ())) ?Q (settled (fails_to e))"
      by (rule hoare_xbind [OF finish_command]) (use True in \<open>auto intro!: hoare_ret\<close>)
    then have "hoare (\<lambda>s. marks b e (stack s)) (xbind (finish_xact_command cf True) (\<lambda>_. ret ())) ?Q ?E"
      by (rule hoare_settled) (use True in \<open>auto simp: query_fails_def error_step_def e_def split: block.splits\<close>)
    then have "hoare (\<lambda>s. between False True b (stack s)) (xbind (finish_xact_command cf True) (\<lambda>_. ret ())) ?Q ?E"
      by (rule hoare_weaken) (use m in simp_all)
    then show ?thesis using True by (cases a) (simp_all add: xbind_ret, simp add: hoare_def)
  next
    case False
    have none: "hoare (\<lambda>s. \<not> started \<and> (\<exists>b'. ok_steps ps b = Some b' \<and> resting b' (stack s)))
        (xbind (finish_xact_command cf started) (\<lambda>_. ret ())) ?Q ?E" for started
      by (auto simp: hoare_def finish_xact_command_def xbind_def ret_def)
    have stmts: "hoare (\<lambda>s. a \<and> between False True b (stack s)) (exec_stmts cf fp (length ps > 1) ps a)
        (\<lambda>started s. \<not> started \<and> (\<exists>b'. ok_steps ps b = Some b' \<and> resting b' (stack s))) ?E"
      by (rule hoare_weaken [OF exec_stmts_advances [OF False, of _ a b]]) (auto simp: between_def)
    show ?thesis by (rule hoare_xbind [OF stmts none])
  qed
  show ?thesis unfolding exec_simple_query_def option.case by (rule hoare_xbind [OF start loop])
qed

lemma exec_bad_query:
  "hoare (\<lambda>s. resting b (stack s)) (exec_simple_query cf fp None) Q (settled (query_fails [OtherStmt []] b))"
proof -
  have "hoare (\<lambda>s. resting b (stack s)) (start_xact_command cf False) (\<lambda>_ s. active False b (stack s)) (settled (query_fails [OtherStmt []] b))"
    by (rule hoare_weaken [OF start_command [of False False b cf]]) (auto simp: between_def)
  then show ?thesis unfolding exec_simple_query_def option.case
    by (rule hoare_xbind) (rule hoare_raise, use active_fails [of False b _ "OtherStmt []"] in \<open>auto simp: stmt_fails_def query_fails_def\<close>)
qed

section \<open>The main loop\<close>

definition query_steps :: "RawStmt list option \<Rightarrow> block \<Rightarrow> xact_reason option \<Rightarrow> block \<Rightarrow> bool" where
  "query_steps q b r b' \<longleftrightarrow>
     (case (q, r) of
        (Some ps, None) \<Rightarrow> ok_steps ps b = Some b'
      | (Some ps, Some _) \<Rightarrow> error_steps ps b b'
      | (None, None) \<Rightarrow> False
      | (None, Some _) \<Rightarrow> error_step (OtherStmt []) b b')"

lemma recover_rests:
  assumes "settled (query_fails ps b) e s"
  shows "case recover_error cf e s of
     Ready r s' \<Rightarrow> r \<noteq> None \<and> (\<exists>b'. error_steps ps b b' \<and> resting b' (stack s'))
   | Exited e' s' \<Rightarrow> \<exists>x. e' = Xerror PANIC x"
proof -
  obtain l x where e: "e = Xerror l x" by (cases e)
  show ?thesis
  proof (cases l)
    case ERROR
    then obtain b' where b': "fails_to b' (stack s)" "error_steps ps b b'" using assms e by (auto simp: query_fails_def)
    have h: "hoare (\<lambda>s'. stack s' = stack s) (AbortCurrentTransaction cf) (\<lambda>_ s'. resting b' (stack s')) (settled (\<lambda>_. False))"
      using abort_current_recovers [of "stack s" cf] b'(1) by (auto simp: fails_to_def)
    show ?thesis
    proof (cases "AbortCurrentTransaction cf s")
      case (Pair r s')
      then show ?thesis using ERROR e b'(2) hoareD [OF h refl]
        by (cases r) (auto simp: recover_error_def settled_def split: xact_error.splits elevel.splits)
    qed
  qed (use assms e in \<open>auto simp: recover_error_def\<close>)
qed

lemma query_outcome:
  assumes "resting b (stack s)"
  shows "case PostgresMain_query cf fp q s of
     Ready r s' \<Rightarrow> \<exists>b'. query_steps q b r b' \<and> resting b' (stack s')
   | Exited e s' \<Rightarrow> \<exists>x. e = Xerror PANIC x"
proof (cases "exec_simple_query cf fp q s")
  case (Pair r s')
  show ?thesis
  proof (cases q)
    case None
    then have "settled (query_fails [OtherStmt []] b) e s'" "r = Inl e" if "r = Inl e" for e
      using hoareD(2) [OF exec_bad_query assms] Pair that by auto
    moreover have "\<exists>e. r = Inl e" using hoareD(1) [OF exec_bad_query [where Q = "\<lambda>_ _. False"] assms] Pair None by (cases r) auto
    ultimately obtain e where e: "r = Inl e" "settled (query_fails [OtherStmt []] b) e s'" by auto
    show ?thesis using recover_rests [OF e(2), of cf] Pair e(1) None
      by (auto simp: PostgresMain_query_def query_steps_def split: step_result.splits)
  next
    case (Some ps)
    show ?thesis
    proof (cases r)
      case (Inl e)
      then have "settled (query_fails ps b) e s'" using hoareD(2) [OF exec_query assms] Pair Some by simp
      from recover_rests [OF this, of cf] show ?thesis using Pair Inl Some
        by (auto simp: PostgresMain_query_def query_steps_def split: step_result.splits)
    next
      case (Inr u)
      then show ?thesis using hoareD(1) [OF exec_query assms] Pair Some by (auto simp: PostgresMain_query_def query_steps_def)
    qed
  qed
qed

end
