(* ===== verification/HeapTuple.thy ===== *)
theory HeapTuple
  imports Transam
begin

text \<open>
  Heap tuple headers: the structs of \<^verbatim>\<open>src/include/access/htup_details.h\<close>,
  \<^verbatim>\<open>htup.h\<close> and \<^verbatim>\<open>src/include/storage/itemptr.h\<close>, the infomask bits and the accessor
  macros. The lemmas reduce every mask test to tests of single bits (\<open>flag_simps\<close>), which
  is the form the visibility proofs work on.
\<close>

section \<open>Structs\<close>

record ItemPointerData =
  ip_blkid :: BlockNumber
  ip_posid :: OffsetNumber

text \<open>\<open>t_field3\<close> is the union of \<^verbatim>\<open>t_cid\<close> and \<^verbatim>\<open>t_xvac\<close>, both 32 bits wide.\<close>

record HeapTupleHeaderData =
  t_xmin :: TransactionId
  t_xmax :: TransactionId
  t_field3 :: uint32
  t_ctid :: ItemPointerData
  t_infomask2 :: uint16
  t_infomask :: uint16
  t_hoff :: uint8
  t_bits :: "uint8 list"

record HeapTupleData =
  t_len :: uint32
  t_self :: ItemPointerData
  t_tableOid :: uint32
  t_data :: HeapTupleHeaderData

definition SpecTokenOffsetNumber :: OffsetNumber where "SpecTokenOffsetNumber = 0xfffe"
definition MovedPartitionsOffsetNumber :: OffsetNumber where "MovedPartitionsOffsetNumber = 0xfffd"
definition InvalidBlockNumber :: BlockNumber where "InvalidBlockNumber = 0xFFFFFFFF"

definition ItemPointerEquals :: "ItemPointerData \<Rightarrow> ItemPointerData \<Rightarrow> bool" where
  "ItemPointerEquals p1 p2 \<longleftrightarrow> ip_blkid p1 = ip_blkid p2 \<and> ip_posid p1 = ip_posid p2"

section \<open>Infomask bits\<close>

definition HEAP_XMAX_KEYSHR_LOCK :: uint16 where "HEAP_XMAX_KEYSHR_LOCK = 0x0010"
definition HEAP_COMBOCID :: uint16 where "HEAP_COMBOCID = 0x0020"
definition HEAP_XMAX_EXCL_LOCK :: uint16 where "HEAP_XMAX_EXCL_LOCK = 0x0040"
definition HEAP_XMAX_LOCK_ONLY :: uint16 where "HEAP_XMAX_LOCK_ONLY = 0x0080"
definition HEAP_XMAX_SHR_LOCK :: uint16 where
  "HEAP_XMAX_SHR_LOCK = HEAP_XMAX_EXCL_LOCK OR HEAP_XMAX_KEYSHR_LOCK"
definition HEAP_LOCK_MASK :: uint16 where
  "HEAP_LOCK_MASK = HEAP_XMAX_SHR_LOCK OR HEAP_XMAX_EXCL_LOCK OR HEAP_XMAX_KEYSHR_LOCK"
definition HEAP_XMIN_COMMITTED :: uint16 where "HEAP_XMIN_COMMITTED = 0x0100"
definition HEAP_XMIN_INVALID :: uint16 where "HEAP_XMIN_INVALID = 0x0200"
definition HEAP_XMIN_FROZEN :: uint16 where
  "HEAP_XMIN_FROZEN = HEAP_XMIN_COMMITTED OR HEAP_XMIN_INVALID"
definition HEAP_XMAX_COMMITTED :: uint16 where "HEAP_XMAX_COMMITTED = 0x0400"
definition HEAP_XMAX_INVALID :: uint16 where "HEAP_XMAX_INVALID = 0x0800"
definition HEAP_XMAX_IS_MULTI :: uint16 where "HEAP_XMAX_IS_MULTI = 0x1000"
definition HEAP_UPDATED :: uint16 where "HEAP_UPDATED = 0x2000"
definition HEAP_MOVED_OFF :: uint16 where "HEAP_MOVED_OFF = 0x4000"
definition HEAP_MOVED_IN :: uint16 where "HEAP_MOVED_IN = 0x8000"
definition HEAP_MOVED :: uint16 where "HEAP_MOVED = HEAP_MOVED_OFF OR HEAP_MOVED_IN"

lemmas heap_bits = HEAP_XMAX_KEYSHR_LOCK_def HEAP_COMBOCID_def HEAP_XMAX_EXCL_LOCK_def
  HEAP_XMAX_LOCK_ONLY_def HEAP_XMAX_SHR_LOCK_def HEAP_LOCK_MASK_def HEAP_XMIN_COMMITTED_def
  HEAP_XMIN_INVALID_def HEAP_XMIN_FROZEN_def HEAP_XMAX_COMMITTED_def HEAP_XMAX_INVALID_def
  HEAP_XMAX_IS_MULTI_def HEAP_UPDATED_def HEAP_MOVED_OFF_def HEAP_MOVED_IN_def HEAP_MOVED_def

section \<open>Accessor macros\<close>

definition HEAP_XMAX_IS_LOCKED_ONLY :: "uint16 \<Rightarrow> bool" where
  "HEAP_XMAX_IS_LOCKED_ONLY infomask \<longleftrightarrow>
     flag infomask HEAP_XMAX_LOCK_ONLY \<or>
     infomask AND (HEAP_XMAX_IS_MULTI OR HEAP_LOCK_MASK) = HEAP_XMAX_EXCL_LOCK"

definition HEAP_LOCKED_UPGRADED :: "uint16 \<Rightarrow> bool" where
  "HEAP_LOCKED_UPGRADED infomask \<longleftrightarrow>
     infomask AND HEAP_XMAX_IS_MULTI \<noteq> 0 \<and>
     infomask AND HEAP_XMAX_LOCK_ONLY \<noteq> 0 \<and>
     infomask AND (HEAP_XMAX_EXCL_LOCK OR HEAP_XMAX_KEYSHR_LOCK) = 0"

definition HeapTupleHeaderGetRawXmin :: "HeapTupleHeaderData \<Rightarrow> TransactionId" where
  "HeapTupleHeaderGetRawXmin tup = t_xmin tup"

definition HeapTupleHeaderXminCommitted :: "HeapTupleHeaderData \<Rightarrow> bool" where
  "HeapTupleHeaderXminCommitted tup \<longleftrightarrow> t_infomask tup AND HEAP_XMIN_COMMITTED \<noteq> 0"

definition HeapTupleHeaderXminInvalid :: "HeapTupleHeaderData \<Rightarrow> bool" where
  "HeapTupleHeaderXminInvalid tup \<longleftrightarrow>
     t_infomask tup AND (HEAP_XMIN_COMMITTED OR HEAP_XMIN_INVALID) = HEAP_XMIN_INVALID"

definition HeapTupleHeaderXminFrozen :: "HeapTupleHeaderData \<Rightarrow> bool" where
  "HeapTupleHeaderXminFrozen tup \<longleftrightarrow> t_infomask tup AND HEAP_XMIN_FROZEN = HEAP_XMIN_FROZEN"

definition HeapTupleHeaderGetXmin :: "HeapTupleHeaderData \<Rightarrow> TransactionId" where
  "HeapTupleHeaderGetXmin tup =
     (if HeapTupleHeaderXminFrozen tup then FrozenTransactionId else HeapTupleHeaderGetRawXmin tup)"

definition HeapTupleHeaderGetRawXmax :: "HeapTupleHeaderData \<Rightarrow> TransactionId" where
  "HeapTupleHeaderGetRawXmax tup = t_xmax tup"

definition HeapTupleHeaderGetRawCommandId :: "HeapTupleHeaderData \<Rightarrow> CommandId" where
  "HeapTupleHeaderGetRawCommandId tup = t_field3 tup"

definition HeapTupleHeaderGetXvac :: "HeapTupleHeaderData \<Rightarrow> TransactionId" where
  "HeapTupleHeaderGetXvac tup =
     (if flag (t_infomask tup) HEAP_MOVED then t_field3 tup else InvalidTransactionId)"

definition HeapTupleHeaderSetCmin :: "HeapTupleHeaderData \<Rightarrow> CommandId \<Rightarrow> HeapTupleHeaderData" where
  "HeapTupleHeaderSetCmin tup cid =
     tup\<lparr>t_field3 := cid, t_infomask := t_infomask tup AND NOT HEAP_COMBOCID\<rparr>"

definition HeapTupleHeaderSetCmax ::
  "HeapTupleHeaderData \<Rightarrow> CommandId \<Rightarrow> bool \<Rightarrow> HeapTupleHeaderData" where
  "HeapTupleHeaderSetCmax tup cid iscombo =
     tup\<lparr>t_field3 := cid,
         t_infomask := (if iscombo then t_infomask tup OR HEAP_COMBOCID
                        else t_infomask tup AND NOT HEAP_COMBOCID)\<rparr>"

definition HeapTupleHeaderIsSpeculative :: "HeapTupleHeaderData \<Rightarrow> bool" where
  "HeapTupleHeaderIsSpeculative tup \<longleftrightarrow> ip_posid (t_ctid tup) = SpecTokenOffsetNumber"

definition HeapTupleHeaderGetSpeculativeToken :: "HeapTupleHeaderData \<Rightarrow> BlockNumber" where
  "HeapTupleHeaderGetSpeculativeToken tup = ip_blkid (t_ctid tup)"

definition HeapTupleHeaderIndicatesMovedPartitions :: "HeapTupleHeaderData \<Rightarrow> bool" where
  "HeapTupleHeaderIndicatesMovedPartitions tup \<longleftrightarrow>
     ip_posid (t_ctid tup) = MovedPartitionsOffsetNumber \<and>
     ip_blkid (t_ctid tup) = InvalidBlockNumber"

section \<open>Mask tests as single-bit tests\<close>

lemma xmin_committed_flag [flag_simps]:
  "HeapTupleHeaderXminCommitted t \<longleftrightarrow> flag (t_infomask t) HEAP_XMIN_COMMITTED"
  by (simp add: HeapTupleHeaderXminCommitted_def flag_def)

lemma xmin_invalid_flag [flag_simps]:
  "HeapTupleHeaderXminInvalid t \<longleftrightarrow>
   \<not> flag (t_infomask t) HEAP_XMIN_COMMITTED \<and> flag (t_infomask t) HEAP_XMIN_INVALID"
  unfolding HeapTupleHeaderXminInvalid_def
  by (subst mask_split) (auto simp: heap_bits flag_def and_pow_eq [of _ 9, simplified])

lemma xmin_frozen_flag [flag_simps]:
  "HeapTupleHeaderXminFrozen t \<longleftrightarrow>
   flag (t_infomask t) HEAP_XMIN_COMMITTED \<and> flag (t_infomask t) HEAP_XMIN_INVALID"
  unfolding HeapTupleHeaderXminFrozen_def HEAP_XMIN_FROZEN_def
  by (subst mask_both) (auto simp: heap_bits flag_def and_pow_eq [of _ 8, simplified]
      and_pow_eq [of _ 9, simplified])

lemma locked_only_flag [flag_simps]:
  "HEAP_XMAX_IS_LOCKED_ONLY m \<longleftrightarrow>
   flag m HEAP_XMAX_LOCK_ONLY \<or>
   (\<not> flag m HEAP_XMAX_IS_MULTI \<and> \<not> flag m HEAP_XMAX_KEYSHR_LOCK \<and> flag m HEAP_XMAX_EXCL_LOCK)"
proof -
  have "HEAP_XMAX_IS_MULTI OR HEAP_LOCK_MASK
        = (HEAP_XMAX_IS_MULTI OR HEAP_XMAX_KEYSHR_LOCK) OR HEAP_XMAX_EXCL_LOCK"
    by (simp add: heap_bits)
  moreover have "(m AND ((HEAP_XMAX_IS_MULTI OR HEAP_XMAX_KEYSHR_LOCK) OR HEAP_XMAX_EXCL_LOCK)
        = HEAP_XMAX_EXCL_LOCK)
     \<longleftrightarrow> \<not> flag m (HEAP_XMAX_IS_MULTI OR HEAP_XMAX_KEYSHR_LOCK) \<and> flag m HEAP_XMAX_EXCL_LOCK"
    by (subst mask_split) (auto simp: heap_bits flag_def and_pow_eq [of _ 6, simplified])
  ultimately show ?thesis
    by (auto simp: HEAP_XMAX_IS_LOCKED_ONLY_def flag_or_right)
qed

lemma locked_upgraded_flag [flag_simps]:
  "HEAP_LOCKED_UPGRADED m \<longleftrightarrow>
   flag m HEAP_XMAX_IS_MULTI \<and> flag m HEAP_XMAX_LOCK_ONLY \<and>
   \<not> flag m HEAP_XMAX_EXCL_LOCK \<and> \<not> flag m HEAP_XMAX_KEYSHR_LOCK"
proof -
  have "m AND (HEAP_XMAX_EXCL_LOCK OR HEAP_XMAX_KEYSHR_LOCK) = 0 \<longleftrightarrow>
        \<not> flag m HEAP_XMAX_EXCL_LOCK \<and> \<not> flag m HEAP_XMAX_KEYSHR_LOCK"
    using flag_or_right [of m HEAP_XMAX_EXCL_LOCK HEAP_XMAX_KEYSHR_LOCK]
    by (auto simp: flag_def)
  then show ?thesis
    by (simp add: HEAP_LOCKED_UPGRADED_def flag_def)
qed

end
