(* ===== verification/Combocid.thy ===== *)
theory Combocid
  imports HeapTuple
begin

text \<open>
  Combo command ids (\<^verbatim>\<open>src/backend/utils/time/combocid.c\<close>): when a transaction deletes a
  tuple it inserted itself, the one command-id field of the header holds the index of a
  (cmin, cmax) pair kept in backend-local memory. The state is the hash table, the array of
  pairs (its \<open>usedComboCids\<close> initialised elements) and the allocated size. An array
  read out of range is unspecified, as it is in C; the invariant \<open>combo_wf\<close> rules it out.
  Out-of-memory errors of the allocator are not modelled, and the C counters of type
  \<^verbatim>\<open>int\<close> are \<open>nat\<close>: the theorems that need it bound the array by \<open>2^31\<close> elements.
\<close>

section \<open>State and operations\<close>

type_synonym ComboCidKeyData = "CommandId \<times> CommandId"

record combo_state =
  comboHash :: "(ComboCidKeyData \<rightharpoonup> CommandId) option"
  comboCids :: "ComboCidKeyData list"
  sizeComboCids :: nat

abbreviation usedComboCids :: "combo_state \<Rightarrow> nat" where
  "usedComboCids s \<equiv> length (comboCids s)"

definition CCID_ARRAY_SIZE :: nat where "CCID_ARRAY_SIZE = 100"

definition AtEOXact_ComboCid :: "combo_state \<Rightarrow> combo_state" where
  "AtEOXact_ComboCid s = s\<lparr>comboHash := None, comboCids := [], sizeComboCids := 0\<rparr>"

definition GetRealCmin :: "combo_state \<Rightarrow> CommandId \<Rightarrow> CommandId" where
  "GetRealCmin s combocid = fst (comboCids s ! unat combocid)"

definition GetRealCmax :: "combo_state \<Rightarrow> CommandId \<Rightarrow> CommandId" where
  "GetRealCmax s combocid = snd (comboCids s ! unat combocid)"

text \<open>The three steps of \<^verbatim>\<open>GetComboCommandId\<close>: create the structures, grow the array, and look up
  or enter the pair.\<close>

definition combo_create :: "combo_state \<Rightarrow> combo_state" where
  "combo_create s =
     (if comboHash s = None
      then s\<lparr>comboCids := [], sizeComboCids := CCID_ARRAY_SIZE, comboHash := Some Map.empty\<rparr>
      else s)"

definition combo_grow :: "combo_state \<Rightarrow> combo_state" where
  "combo_grow s =
     (if usedComboCids s \<ge> sizeComboCids s then s\<lparr>sizeComboCids := sizeComboCids s * 2\<rparr> else s)"

definition GetComboCommandId ::
  "combo_state \<Rightarrow> CommandId \<Rightarrow> CommandId \<Rightarrow> CommandId \<times> combo_state" where
  "GetComboCommandId s cmin cmax =
     (let s = combo_grow (combo_create s); hash = the (comboHash s)
      in case hash (cmin, cmax) of
           Some combocid \<Rightarrow> (combocid, s)
         | None \<Rightarrow>
             let combocid = of_nat (usedComboCids s)
             in (combocid, s\<lparr>comboCids := comboCids s @ [(cmin, cmax)],
                             comboHash := Some (hash((cmin, cmax) \<mapsto> combocid))\<rparr>))"

definition HeapTupleHeaderGetCmin :: "combo_state \<Rightarrow> HeapTupleHeaderData \<Rightarrow> CommandId" where
  "HeapTupleHeaderGetCmin s tup =
     (let cid = HeapTupleHeaderGetRawCommandId tup
      in if flag (t_infomask tup) HEAP_COMBOCID then GetRealCmin s cid else cid)"

definition HeapTupleHeaderGetCmax :: "combo_state \<Rightarrow> HeapTupleHeaderData \<Rightarrow> CommandId" where
  "HeapTupleHeaderGetCmax s tup =
     (let cid = HeapTupleHeaderGetRawCommandId tup
      in if flag (t_infomask tup) HEAP_COMBOCID then GetRealCmax s cid else cid)"

text \<open>Returns the new \<open>*cmax\<close>, \<open>*iscombo\<close> and the state; \<open>is_current\<close> is
  \<^verbatim>\<open>TransactionIdIsCurrentTransactionId\<close>.\<close>

definition HeapTupleHeaderAdjustCmax ::
  "(TransactionId \<Rightarrow> bool) \<Rightarrow> combo_state \<Rightarrow> HeapTupleHeaderData \<Rightarrow> CommandId
   \<Rightarrow> CommandId \<times> bool \<times> combo_state" where
  "HeapTupleHeaderAdjustCmax is_current s tup cmax =
     (if \<not> HeapTupleHeaderXminCommitted tup \<and> is_current (HeapTupleHeaderGetRawXmin tup)
      then let cmin = HeapTupleHeaderGetCmin s tup;
               (cmax', s') = GetComboCommandId s cmin cmax
           in (cmax', True, s')
      else (cmax, False, s))"

section \<open>Handing the state to a parallel worker\<close>

text \<open>The serialized form: the count and that many pairs. \<^verbatim>\<open>sizeof(int)\<close> is 4 and
  \<^verbatim>\<open>sizeof(ComboCidKeyData)\<close> is 8.\<close>

definition EstimateComboCIDStateSpace :: "combo_state \<Rightarrow> nat" where
  "EstimateComboCIDStateSpace s = 4 + 8 * usedComboCids s"

datatype combo_error = NotEnoughSpace | UnexpectedCommandId

definition SerializeComboCIDState ::
  "combo_state \<Rightarrow> nat \<Rightarrow> combo_error + (nat \<times> ComboCidKeyData list)" where
  "SerializeComboCIDState s maxsize =
     (if 4 + 8 * usedComboCids s > maxsize then Inl NotEnoughSpace
      else Inr (usedComboCids s, comboCids s))"

text \<open>The loop of \<^verbatim>\<open>RestoreComboCIDState\<close> from element \<open>i\<close> on.\<close>

fun restore_from :: "combo_state \<Rightarrow> nat \<Rightarrow> ComboCidKeyData list \<Rightarrow> combo_error + combo_state" where
  "restore_from s i [] = Inr s"
| "restore_from s i ((cmin, cmax) # ks) =
     (let (cid, s') = GetComboCommandId s cmin cmax
      in if cid \<noteq> of_nat i then Inl UnexpectedCommandId else restore_from s' (Suc i) ks)"

definition RestoreComboCIDState ::
  "combo_state \<Rightarrow> nat \<times> ComboCidKeyData list \<Rightarrow> combo_error + combo_state" where
  "RestoreComboCIDState s st = (case st of (num, keydata) \<Rightarrow> restore_from s 0 (take num keydata))"

section \<open>Invariant\<close>

text \<open>The hash table is the inverse of the array, and the array fits its allocation.\<close>

definition combo_wf :: "combo_state \<Rightarrow> bool" where
  "combo_wf s \<longleftrightarrow>
     (case comboHash s of
        None \<Rightarrow> comboCids s = []
      | Some h \<Rightarrow> distinct (comboCids s) \<and> 0 < sizeComboCids s \<and>
          usedComboCids s \<le> sizeComboCids s \<and>
          (\<forall>k. h k = (if k \<in> set (comboCids s)
                      then Some (of_nat (pos_of k (comboCids s))) else None)))"

definition combo_empty :: combo_state where
  "combo_empty = \<lparr>comboHash = None, comboCids = [], sizeComboCids = 0\<rparr>"

lemma combo_wf_empty [simp]: "combo_wf combo_empty"
  by (simp add: combo_wf_def combo_empty_def)

lemma combo_wf_AtEOXact: "combo_wf (AtEOXact_ComboCid s)"
  by (simp add: combo_wf_def AtEOXact_ComboCid_def)

text \<open>After creation and growth there is a hash table, a free slot and an unchanged array.\<close>

lemma combo_prepared:
  assumes "combo_wf s"
  obtains h where "comboHash (combo_grow (combo_create s)) = Some h"
    and "comboCids (combo_grow (combo_create s)) = comboCids s"
    and "usedComboCids s < sizeComboCids (combo_grow (combo_create s))"
    and "combo_wf (combo_grow (combo_create s))"
proof (cases "comboHash s")
  case None
  with assms show ?thesis
    using that [of Map.empty]
    by (simp add: combo_wf_def combo_create_def combo_grow_def CCID_ARRAY_SIZE_def)
next
  case (Some h)
  with assms show ?thesis
    using that [of h]
    by (cases "sizeComboCids s \<le> usedComboCids s")
      (auto simp: combo_wf_def combo_create_def combo_grow_def)
qed

text \<open>The outcome of \<open>GetComboCommandId\<close>: the array grows by the pair unless it holds it already, and
  the id is the position of the pair.\<close>

lemma GetComboCommandId_cases:
  assumes wf: "combo_wf s" and get: "GetComboCommandId s cmin cmax = (cid, s')"
  shows "combo_wf s'"
    and "comboCids s' = (if (cmin, cmax) \<in> set (comboCids s) then comboCids s
                         else comboCids s @ [(cmin, cmax)])"
    and "cid = of_nat (pos_of (cmin, cmax) (comboCids s))"
proof -
  obtain h where h: "comboHash (combo_grow (combo_create s)) = Some h"
    and arr: "comboCids (combo_grow (combo_create s)) = comboCids s"
    and room: "usedComboCids s < sizeComboCids (combo_grow (combo_create s))"
    and wf1: "combo_wf (combo_grow (combo_create s))"
    using combo_prepared [OF wf] .
  have hk: "h k = (if k \<in> set (comboCids s)
      then Some (of_nat (pos_of k (comboCids s))) else None)" for k
    using wf1 unfolding combo_wf_def h arr option.case by blast
  have dist: "distinct (comboCids s)"
    using wf1 h arr by (simp add: combo_wf_def)
  show "combo_wf s'"
    and "comboCids s' = (if (cmin, cmax) \<in> set (comboCids s) then comboCids s
                         else comboCids s @ [(cmin, cmax)])"
    and "cid = of_nat (pos_of (cmin, cmax) (comboCids s))"
  proof (atomize (full), cases "(cmin, cmax) \<in> set (comboCids s)")
    case True
    then show "combo_wf s' \<and>
      comboCids s' = (if (cmin, cmax) \<in> set (comboCids s) then comboCids s
                         else comboCids s @ [(cmin, cmax)]) \<and>
      cid = of_nat (pos_of (cmin, cmax) (comboCids s))"
      using get wf1 h arr hk [of "(cmin, cmax)"]
      by (auto simp: GetComboCommandId_def Let_def)
  next
    case False
    then have tw: "pos_of (cmin, cmax) (comboCids s) = usedComboCids s"
      by (rule pos_of_notin)
    from False get h arr hk [of "(cmin, cmax)"]
    have eqs: "cid = of_nat (usedComboCids s)"
      "s' = (combo_grow (combo_create s))\<lparr>comboCids := comboCids s @ [(cmin, cmax)],
               comboHash := Some (h((cmin, cmax) \<mapsto> of_nat (usedComboCids s)))\<rparr>"
      by (auto simp: GetComboCommandId_def Let_def)
    have "combo_wf s'"
      using False dist room hk tw eqs
      by (auto simp: combo_wf_def)
    then show "combo_wf s' \<and>
      comboCids s' = (if (cmin, cmax) \<in> set (comboCids s) then comboCids s
                         else comboCids s @ [(cmin, cmax)]) \<and>
      cid = of_nat (pos_of (cmin, cmax) (comboCids s))"
      using False eqs tw by simp
  qed
qed

text \<open>The id handed out decodes to the pair, as long as the array stays below \<open>2^32\<close>.\<close>

lemma GetComboCommandId_real:
  assumes wf: "combo_wf s" and get: "GetComboCommandId s cmin cmax = (cid, s')"
    and small: "usedComboCids s < 2 ^ 31"
  shows "unat cid < usedComboCids s' \<and> GetRealCmin s' cid = cmin \<and> GetRealCmax s' cid = cmax"
proof -
  let ?i = "pos_of (cmin, cmax) (comboCids s)"
  note out = GetComboCommandId_cases [OF wf get]
  have "?i \<le> usedComboCids s"
    by (rule pos_of_le)
  then have cid: "unat cid = ?i"
    using out(3) small by (simp add: unat_of_nat_small)
  have "?i < usedComboCids s' \<and> comboCids s' ! ?i = (cmin, cmax)"
  proof (cases "(cmin, cmax) \<in> set (comboCids s)")
    case True
    then show ?thesis using out(2) pos_of_nth [OF True] by simp
  next
    case False
    then show ?thesis using out(2) by (simp add: pos_of_notin)
  qed
  then show ?thesis
    by (simp add: GetRealCmin_def GetRealCmax_def cid)
qed

text \<open>Ids given out earlier keep their meaning.\<close>

lemma GetComboCommandId_stable:
  assumes "combo_wf s" "GetComboCommandId s cmin cmax = (cid, s')" "unat c < usedComboCids s"
  shows "GetRealCmin s' c = GetRealCmin s c \<and> GetRealCmax s' c = GetRealCmax s c"
  using GetComboCommandId_cases(2) [OF assms(1,2)] assms(3)
  by (simp add: GetRealCmin_def GetRealCmax_def nth_append)

lemma restore_from_prefix:
  assumes "combo_wf s" "distinct (comboCids s @ ks)" "length (comboCids s @ ks) < 2 ^ 31"
  shows "\<exists>s'. restore_from s (usedComboCids s) ks = Inr s' \<and> comboCids s' = comboCids s @ ks \<and> combo_wf s'"
  using assms
proof (induction ks arbitrary: s)
  case Nil
  then show ?case by simp
next
  case (Cons k ks)
  obtain cmin cmax where k: "k = (cmin, cmax)" by (cases k)
  obtain cid s1 where get: "GetComboCommandId s cmin cmax = (cid, s1)"
    by (cases "GetComboCommandId s cmin cmax")
  note out = GetComboCommandId_cases [OF Cons.prems(1) get]
  have new: "(cmin, cmax) \<notin> set (comboCids s)"
    using Cons.prems(2) k by auto
  then have cid: "cid = of_nat (usedComboCids s)"
    using out(3) by (simp add: pos_of_notin)
  have arr: "comboCids s1 = comboCids s @ [k]"
    using out(2) new k by simp
  obtain s' where "restore_from s1 (usedComboCids s1) ks = Inr s'"
    "comboCids s' = comboCids s1 @ ks" "combo_wf s'"
    using Cons.IH [of s1] out(1) Cons.prems(2,3) arr by auto
  then show ?case
    using cid get k arr by simp
qed

section \<open>Properties\<close>

text \<open>C27: deleting a tuple that the transaction inserted itself. The id that \<^verbatim>\<open>HeapTupleHeaderAdjustCmax\<close>
  hands out, stored with \<^verbatim>\<open>HeapTupleHeaderSetCmax\<close>, lets both command ids be read back: the cmin
  the tuple had and the new cmax; the invariant is kept, and every combo id given out earlier
  keeps its meaning.\<close>

theorem combocid_delete_roundtrip:
  assumes "combo_wf s" "usedComboCids s < 2 ^ 31"
    and "\<not> HeapTupleHeaderXminCommitted tup" "is_current (HeapTupleHeaderGetRawXmin tup)"
    and "HeapTupleHeaderAdjustCmax is_current s tup cmax = (cmax', iscombo, s')"
  shows "HeapTupleHeaderGetCmin s' (HeapTupleHeaderSetCmax tup cmax' iscombo) = HeapTupleHeaderGetCmin s tup \<and>
    HeapTupleHeaderGetCmax s' (HeapTupleHeaderSetCmax tup cmax' iscombo) = cmax \<and> combo_wf s' \<and>
    (\<forall>c. unat c < usedComboCids s \<longrightarrow> GetRealCmin s' c = GetRealCmin s c \<and> GetRealCmax s' c = GetRealCmax s c)"
proof -
  obtain cid where get: "GetComboCommandId s (HeapTupleHeaderGetCmin s tup) cmax = (cid, s')"
    and out: "cmax' = cid" "iscombo"
    using assms(3,4,5) by (auto simp: HeapTupleHeaderAdjustCmax_def Let_def split: prod.splits)
  have flagged: "flag (t_infomask (HeapTupleHeaderSetCmax tup cmax' iscombo)) HEAP_COMBOCID"
    using out by (simp add: HeapTupleHeaderSetCmax_def) (simp add: flag_def HEAP_COMBOCID_def)
  have raw: "HeapTupleHeaderGetRawCommandId (HeapTupleHeaderSetCmax tup cmax' iscombo) = cid"
    using out by (simp add: HeapTupleHeaderSetCmax_def HeapTupleHeaderGetRawCommandId_def)
  show ?thesis
    using GetComboCommandId_real [OF assms(1) get assms(2)] GetComboCommandId_cases(1) [OF assms(1) get]
      GetComboCommandId_stable [OF assms(1) get] flagged raw
    unfolding HeapTupleHeaderGetCmin_def [of s'] HeapTupleHeaderGetCmax_def [of s'] Let_def
    by simp
qed

definition own_tuple :: HeapTupleHeaderData where
  "own_tuple = \<lparr>t_xmin = 100, t_xmax = 0, t_field3 = 4, t_ctid = \<lparr>ip_blkid = 0, ip_posid = 1\<rparr>,
     t_infomask2 = 1, t_infomask = 0, t_hoff = 24, t_bits = []\<rparr>"

theorem combocid_delete_roundtrip_witness:
  "HeapTupleHeaderGetCmin (snd (snd (HeapTupleHeaderAdjustCmax (\<lambda>x. x = 100) combo_empty own_tuple 9)))
     (HeapTupleHeaderSetCmax own_tuple (fst (HeapTupleHeaderAdjustCmax (\<lambda>x. x = 100) combo_empty own_tuple 9))
        (fst (snd (HeapTupleHeaderAdjustCmax (\<lambda>x. x = 100) combo_empty own_tuple 9)))) = 4"
proof -
  have "HeapTupleHeaderGetCmin combo_empty own_tuple = 4"
    by (simp add: HeapTupleHeaderGetCmin_def own_tuple_def HeapTupleHeaderGetRawCommandId_def)
  moreover have "usedComboCids combo_empty < 2 ^ 31" "\<not> HeapTupleHeaderXminCommitted own_tuple"
    "HeapTupleHeaderGetRawXmin own_tuple = 100"
    by (simp_all add: combo_empty_def own_tuple_def HeapTupleHeaderXminCommitted_def HeapTupleHeaderGetRawXmin_def)
  ultimately show ?thesis
    using combocid_delete_roundtrip [of combo_empty own_tuple "\<lambda>x. x = 100" 9] prod.collapse
    by (metis combo_wf_empty)
qed

text \<open>A tuple that another transaction inserted, or whose inserter is known committed, keeps a plain
  cmax: it is read back as given, and no combo id is used.\<close>

theorem combocid_plain_cmax:
  assumes "HeapTupleHeaderXminCommitted tup \<or> \<not> is_current (HeapTupleHeaderGetRawXmin tup)"
  shows "HeapTupleHeaderAdjustCmax is_current s tup cmax = (cmax, False, s) \<and>
    HeapTupleHeaderGetCmax s (HeapTupleHeaderSetCmax tup cmax False) = cmax"
proof -
  have "\<not> flag (t_infomask tup AND NOT HEAP_COMBOCID) HEAP_COMBOCID"
    by (simp add: flag_def and.assoc)
  with assms show ?thesis
    by (auto simp: HeapTupleHeaderAdjustCmax_def HeapTupleHeaderGetCmax_def HeapTupleHeaderSetCmax_def
        HeapTupleHeaderGetRawCommandId_def)
qed

theorem combocid_plain_cmax_witness:
  "HeapTupleHeaderAdjustCmax (\<lambda>x. x = 7) combo_empty own_tuple 9 = (9, False, combo_empty)"
  using combocid_plain_cmax [of own_tuple "\<lambda>x. x = 7" combo_empty 9]
  by (simp add: own_tuple_def HeapTupleHeaderGetRawXmin_def)

text \<open>A parallel worker that starts from the empty state and restores what its leader serialized
  decodes every combo id the way the leader does.\<close>

theorem combocid_serialize_restore:
  assumes "combo_wf s" "usedComboCids s < 2 ^ 31" "EstimateComboCIDStateSpace s \<le> maxsize"
  shows "\<exists>st s'. SerializeComboCIDState s maxsize = Inr st \<and>
    RestoreComboCIDState (AtEOXact_ComboCid s0) st = Inr s' \<and> combo_wf s' \<and>
    (\<forall>c. GetRealCmin s' c = GetRealCmin s c \<and> GetRealCmax s' c = GetRealCmax s c)"
proof -
  have "distinct (comboCids s)"
    using assms(1) by (auto simp: combo_wf_def split: option.splits)
  then obtain s' where "restore_from (AtEOXact_ComboCid s0) 0 (comboCids s) = Inr s'"
    "comboCids s' = comboCids s" "combo_wf s'"
    using restore_from_prefix [of "AtEOXact_ComboCid s0" "comboCids s"] assms(2) combo_wf_AtEOXact
    by (auto simp: AtEOXact_ComboCid_def)
  then show ?thesis
    using assms(3)
    by (simp add: SerializeComboCIDState_def EstimateComboCIDStateSpace_def RestoreComboCIDState_def
        GetRealCmin_def GetRealCmax_def)
qed

theorem combocid_serialize_restore_witness:
  "\<exists>st s'. SerializeComboCIDState (snd (GetComboCommandId combo_empty 3 5)) 12 = Inr st \<and>
     RestoreComboCIDState (AtEOXact_ComboCid combo_empty) st = Inr s'"
proof -
  obtain cid s where get: "GetComboCommandId combo_empty 3 5 = (cid, s)"
    by (cases "GetComboCommandId combo_empty 3 5")
  note out = GetComboCommandId_cases [OF combo_wf_empty get]
  have "comboCids s = [(3, 5)]"
    using out(2) by (simp add: combo_empty_def)
  then show ?thesis
    using combocid_serialize_restore [of s 12 combo_empty] out(1) get
    by (auto simp: EstimateComboCIDStateSpace_def)
qed

end
