(* ===== verification/Visibility.thy ===== *)
theory Visibility
  imports Combocid Snapshot
begin

text \<open>
  Tuple visibility (\<^verbatim>\<open>src/backend/access/heap/heapam_visibility.c\<close>): the seven snapshot tests,
  the update test and the vacuum test, each as written, with the hint bits they set. A test
  takes the tuple and its buffer and returns its answer together with the tuple and buffer it
  leaves behind.

  The services the tests call are the fields of \<open>xact_env\<close>: the transaction state of the
  backend (\<^verbatim>\<open>TransactionIdIsCurrentTransactionId\<close>, \<^verbatim>\<open>TransactionIdIsInProgress\<close>,
  \<^verbatim>\<open>TransactionIdDidCommit\<close>, \<^verbatim>\<open>SubTransGetTopmostTransaction\<close>), the WAL and buffer manager
  (\<^verbatim>\<open>TransactionIdGetCommitLSN\<close>, \<^verbatim>\<open>XLogNeedsFlush\<close>, \<^verbatim>\<open>MarkBufferDirtyHint\<close>), the multixact store
  (\<^verbatim>\<open>GetMultiXactIdMembers\<close>), the combo command ids, and the cid lookup of logical decoding.
  One call sees one value of each service: other backends do not move between two calls of the same
  test. \<^verbatim>\<open>Assert\<close> is compiled out, as in a production build.
\<close>

section \<open>Environment\<close>

datatype MultiXactStatus = MultiXactStatusForKeyShare | MultiXactStatusForShare
  | MultiXactStatusForNoKeyUpdate | MultiXactStatusForUpdate
  | MultiXactStatusNoKeyUpdate | MultiXactStatusUpdate

definition ISUPDATE_from_mxstatus :: "MultiXactStatus \<Rightarrow> bool" where
  "ISUPDATE_from_mxstatus s \<longleftrightarrow> s = MultiXactStatusNoKeyUpdate \<or> s = MultiXactStatusUpdate"

record MultiXactMember =
  mxm_xid :: TransactionId
  mxm_status :: MultiXactStatus

record bufstate =
  BufferIsPermanent :: bool
  BufferGetLSNAtomic :: XLogRecPtr
  buf_dirty :: bool

record xact_env =
  IsCurrent :: "TransactionId \<Rightarrow> bool"
  InProgress :: "TransactionId \<Rightarrow> bool"
  DidCommit :: "TransactionId \<Rightarrow> bool"
  Topmost :: "TransactionId \<Rightarrow> TransactionId"
  GetCommitLSN :: "TransactionId \<Rightarrow> XLogRecPtr"
  NeedsFlush :: "XLogRecPtr \<Rightarrow> bool"
  MarkDirtyHint :: "bufstate \<Rightarrow> bufstate"
  MultiMembers :: "MultiXactId \<Rightarrow> bool \<Rightarrow> MultiXactMember list"
  combo :: combo_state
  ResolveCids :: "HeapTupleData \<Rightarrow> (CommandId \<times> CommandId) option"

abbreviation GetCmin :: "xact_env \<Rightarrow> HeapTupleHeaderData \<Rightarrow> CommandId" where
  "GetCmin env \<equiv> HeapTupleHeaderGetCmin (combo env)"

abbreviation GetCmax :: "xact_env \<Rightarrow> HeapTupleHeaderData \<Rightarrow> CommandId" where
  "GetCmax env \<equiv> HeapTupleHeaderGetCmax (combo env)"

abbreviation InSnapshot :: "xact_env \<Rightarrow> SnapshotData \<Rightarrow> TransactionId \<Rightarrow> bool" where
  "InSnapshot env snapshot xid \<equiv> XidInMVCCSnapshot (Topmost env) xid snapshot"

text \<open>\<^verbatim>\<open>MultiXactIdIsRunning\<close> of \<^verbatim>\<open>multixact.c\<close>: both scans over the members.\<close>

definition MultiXactIdIsRunning :: "xact_env \<Rightarrow> MultiXactId \<Rightarrow> bool \<Rightarrow> bool" where
  "MultiXactIdIsRunning env multi isLockOnly =
     (let members = MultiMembers env multi isLockOnly
      in if members = [] then False
         else if list_ex (\<lambda>m. IsCurrent env (mxm_xid m)) members then True
         else list_ex (\<lambda>m. InProgress env (mxm_xid m)) members)"

text \<open>\<^verbatim>\<open>MultiXactIdGetUpdateXid\<close> of \<^verbatim>\<open>heapam.c\<close>: the first updating member.\<close>

definition MultiXactIdGetUpdateXid :: "xact_env \<Rightarrow> TransactionId \<Rightarrow> TransactionId" where
  "MultiXactIdGetUpdateXid env xmax =
     (case List.find (\<lambda>m. ISUPDATE_from_mxstatus (mxm_status m)) (MultiMembers env xmax False) of
        None \<Rightarrow> InvalidTransactionId
      | Some m \<Rightarrow> mxm_xid m)"

definition HeapTupleGetUpdateXid :: "xact_env \<Rightarrow> HeapTupleHeaderData \<Rightarrow> TransactionId" where
  "HeapTupleGetUpdateXid env tup = MultiXactIdGetUpdateXid env (HeapTupleHeaderGetRawXmax tup)"

definition HeapTupleHeaderGetUpdateXid :: "xact_env \<Rightarrow> HeapTupleHeaderData \<Rightarrow> TransactionId" where
  "HeapTupleHeaderGetUpdateXid env tup =
     (if \<not> flag (t_infomask tup) HEAP_XMAX_INVALID \<and> flag (t_infomask tup) HEAP_XMAX_IS_MULTI \<and>
         \<not> flag (t_infomask tup) HEAP_XMAX_LOCK_ONLY
      then HeapTupleGetUpdateXid env tup else HeapTupleHeaderGetRawXmax tup)"

section \<open>Hint bits\<close>

definition or_infomask :: "HeapTupleData \<Rightarrow> uint16 \<Rightarrow> HeapTupleData" where
  "or_infomask htup b = htup\<lparr>t_data := (t_data htup)\<lparr>t_infomask := t_infomask (t_data htup) OR b\<rparr>\<rparr>"

definition SetHintBits ::
  "xact_env \<Rightarrow> HeapTupleData \<Rightarrow> bufstate \<Rightarrow> uint16 \<Rightarrow> TransactionId \<Rightarrow> HeapTupleData \<times> bufstate" where
  "SetHintBits env htup buf infomask xid =
     (if TransactionIdIsValid xid \<and> BufferIsPermanent buf \<and> NeedsFlush env (GetCommitLSN env xid) \<and>
         BufferGetLSNAtomic buf < GetCommitLSN env xid
      then (htup, buf)
      else (or_infomask htup infomask, MarkDirtyHint env buf))"

text \<open>The block for tuples moved by an old-style VACUUM FULL, which the tests share but for the
  question whether \<open>xvac\<close> is still running. The answer \<open>True\<close> ends the test: the tuple is
  invisible.\<close>

definition xvac_check ::
  "xact_env \<Rightarrow> (TransactionId \<Rightarrow> bool) \<Rightarrow> HeapTupleData \<Rightarrow> bufstate \<Rightarrow> bool \<times> HeapTupleData \<times> bufstate" where
  "xvac_check env running htup buf =
     (let xvac = HeapTupleHeaderGetXvac (t_data htup)
      in if flag (t_infomask (t_data htup)) HEAP_MOVED_OFF then
           (if IsCurrent env xvac then (True, htup, buf)
            else if \<not> running xvac then
              (if DidCommit env xvac
               then (True, SetHintBits env htup buf HEAP_XMIN_INVALID InvalidTransactionId)
               else (False, SetHintBits env htup buf HEAP_XMIN_COMMITTED InvalidTransactionId))
            else (False, htup, buf))
         else
           (if \<not> IsCurrent env xvac then
              (if running xvac then (True, htup, buf)
               else if DidCommit env xvac
               then (False, SetHintBits env htup buf HEAP_XMIN_COMMITTED InvalidTransactionId)
               else (True, SetHintBits env htup buf HEAP_XMIN_INVALID InvalidTransactionId))
            else (False, htup, buf)))"

definition heap_moved :: "HeapTupleHeaderData \<Rightarrow> bool" where
  "heap_moved tup \<longleftrightarrow> flag (t_infomask tup) HEAP_MOVED_OFF \<or> flag (t_infomask tup) HEAP_MOVED_IN"

section \<open>SNAPSHOT_SELF, SNAPSHOT_ANY and SNAPSHOT_TOAST\<close>

text \<open>The part of \<^verbatim>\<open>HeapTupleSatisfiesSelf\<close> after ``by here, the inserting transaction has committed''.\<close>

definition HeapTupleSatisfiesSelf_xmax ::
  "xact_env \<Rightarrow> HeapTupleData \<Rightarrow> bufstate \<Rightarrow> bool \<times> HeapTupleData \<times> bufstate" where
  "HeapTupleSatisfiesSelf_xmax env htup buf =
     (let tuple = t_data htup; infomask = t_infomask tuple
      in if flag infomask HEAP_XMAX_INVALID then (True, htup, buf)
         else if flag infomask HEAP_XMAX_COMMITTED then
           (if HEAP_XMAX_IS_LOCKED_ONLY infomask then (True, htup, buf) else (False, htup, buf))
         else if flag infomask HEAP_XMAX_IS_MULTI then
           (if HEAP_XMAX_IS_LOCKED_ONLY infomask then (True, htup, buf)
            else let xmax = HeapTupleGetUpdateXid env tuple
                 in if IsCurrent env xmax then (False, htup, buf)
                    else if InProgress env xmax then (True, htup, buf)
                    else if DidCommit env xmax then (False, htup, buf)
                    else (True, htup, buf))
         else if IsCurrent env (HeapTupleHeaderGetRawXmax tuple) then
           (if HEAP_XMAX_IS_LOCKED_ONLY infomask then (True, htup, buf) else (False, htup, buf))
         else if InProgress env (HeapTupleHeaderGetRawXmax tuple) then (True, htup, buf)
         else if \<not> DidCommit env (HeapTupleHeaderGetRawXmax tuple) then
           (True, SetHintBits env htup buf HEAP_XMAX_INVALID InvalidTransactionId)
         else if HEAP_XMAX_IS_LOCKED_ONLY infomask then
           (True, SetHintBits env htup buf HEAP_XMAX_INVALID InvalidTransactionId)
         else (False, SetHintBits env htup buf HEAP_XMAX_COMMITTED (HeapTupleHeaderGetRawXmax tuple)))"

definition HeapTupleSatisfiesSelf ::
  "xact_env \<Rightarrow> HeapTupleData \<Rightarrow> bufstate \<Rightarrow> bool \<times> HeapTupleData \<times> bufstate" where
  "HeapTupleSatisfiesSelf env htup buf =
     (let tuple = t_data htup; infomask = t_infomask tuple
      in if \<not> HeapTupleHeaderXminCommitted tuple then
           (if HeapTupleHeaderXminInvalid tuple then (False, htup, buf)
            else if heap_moved tuple then
              (case xvac_check env (InProgress env) htup buf of
                 (True, st) \<Rightarrow> (False, st)
               | (False, htup, buf) \<Rightarrow> HeapTupleSatisfiesSelf_xmax env htup buf)
            else if IsCurrent env (HeapTupleHeaderGetRawXmin tuple) then
              (if flag infomask HEAP_XMAX_INVALID then (True, htup, buf)
               else if HEAP_XMAX_IS_LOCKED_ONLY infomask then (True, htup, buf)
               else if flag infomask HEAP_XMAX_IS_MULTI then
                 (let xmax = HeapTupleGetUpdateXid env tuple
                  in if \<not> IsCurrent env xmax then (True, htup, buf) else (False, htup, buf))
               else if \<not> IsCurrent env (HeapTupleHeaderGetRawXmax tuple) then
                 (True, SetHintBits env htup buf HEAP_XMAX_INVALID InvalidTransactionId)
               else (False, htup, buf))
            else if InProgress env (HeapTupleHeaderGetRawXmin tuple) then (False, htup, buf)
            else if DidCommit env (HeapTupleHeaderGetRawXmin tuple) then
              (case SetHintBits env htup buf HEAP_XMIN_COMMITTED (HeapTupleHeaderGetRawXmin tuple) of
                 (htup, buf) \<Rightarrow> HeapTupleSatisfiesSelf_xmax env htup buf)
            else (False, SetHintBits env htup buf HEAP_XMIN_INVALID InvalidTransactionId))
         else HeapTupleSatisfiesSelf_xmax env htup buf)"

definition HeapTupleSatisfiesAny ::
  "xact_env \<Rightarrow> HeapTupleData \<Rightarrow> bufstate \<Rightarrow> bool \<times> HeapTupleData \<times> bufstate" where
  "HeapTupleSatisfiesAny env htup buf = (True, htup, buf)"

definition HeapTupleSatisfiesToast ::
  "xact_env \<Rightarrow> HeapTupleData \<Rightarrow> bufstate \<Rightarrow> bool \<times> HeapTupleData \<times> bufstate" where
  "HeapTupleSatisfiesToast env htup buf =
     (let tuple = t_data htup
      in if \<not> HeapTupleHeaderXminCommitted tuple then
           (if HeapTupleHeaderXminInvalid tuple then (False, htup, buf)
            else if heap_moved tuple then
              (case xvac_check env (InProgress env) htup buf of (stop, st) \<Rightarrow> (\<not> stop, st))
            else if \<not> TransactionIdIsValid (HeapTupleHeaderGetXmin tuple) then (False, htup, buf)
            else (True, htup, buf))
         else (True, htup, buf))"

section \<open>The update test\<close>

datatype TM_Result = TM_Ok | TM_Invisible | TM_SelfModified | TM_Updated | TM_Deleted
  | TM_BeingModified | TM_WouldBlock

text \<open>The choice between \<^verbatim>\<open>TM_Updated\<close> and \<^verbatim>\<open>TM_Deleted\<close> that occurs three times.\<close>

definition updated_or_deleted :: "HeapTupleData \<Rightarrow> TM_Result" where
  "updated_or_deleted htup =
     (if \<not> ItemPointerEquals (t_self htup) (t_ctid (t_data htup)) \<or>
         HeapTupleHeaderIndicatesMovedPartitions (t_data htup)
      then TM_Updated else TM_Deleted)"

text \<open>The branch for a tuple inserted by the current transaction.\<close>

definition HeapTupleSatisfiesUpdate_own ::
  "xact_env \<Rightarrow> HeapTupleData \<Rightarrow> CommandId \<Rightarrow> bufstate \<Rightarrow> TM_Result \<times> HeapTupleData \<times> bufstate" where
  "HeapTupleSatisfiesUpdate_own env htup cid buf =
     (let tuple = t_data htup; infomask = t_infomask tuple
      in if GetCmin env tuple \<ge> cid then (TM_Invisible, htup, buf)
         else if flag infomask HEAP_XMAX_INVALID then (TM_Ok, htup, buf)
         else if HEAP_XMAX_IS_LOCKED_ONLY infomask then
           (let xmax = HeapTupleHeaderGetRawXmax tuple
            in if flag infomask HEAP_XMAX_IS_MULTI then
                 (if MultiXactIdIsRunning env xmax True then (TM_BeingModified, htup, buf)
                  else (TM_Ok, htup, buf))
               else if \<not> InProgress env xmax then (TM_Ok, htup, buf)
               else (TM_BeingModified, htup, buf))
         else if flag infomask HEAP_XMAX_IS_MULTI then
           (let xmax = HeapTupleGetUpdateXid env tuple
            in if \<not> IsCurrent env xmax then
                 (if MultiXactIdIsRunning env (HeapTupleHeaderGetRawXmax tuple) False
                  then (TM_BeingModified, htup, buf) else (TM_Ok, htup, buf))
               else if GetCmax env tuple \<ge> cid then (TM_SelfModified, htup, buf)
               else (TM_Invisible, htup, buf))
         else if \<not> IsCurrent env (HeapTupleHeaderGetRawXmax tuple) then
           (TM_Ok, SetHintBits env htup buf HEAP_XMAX_INVALID InvalidTransactionId)
         else if GetCmax env tuple \<ge> cid then (TM_SelfModified, htup, buf)
         else (TM_Invisible, htup, buf))"

text \<open>The part after ``by here, the inserting transaction has committed'': the case of a multixact
  first.\<close>

definition HeapTupleSatisfiesUpdate_multi ::
  "xact_env \<Rightarrow> HeapTupleData \<Rightarrow> CommandId \<Rightarrow> bufstate \<Rightarrow> TM_Result \<times> HeapTupleData \<times> bufstate" where
  "HeapTupleSatisfiesUpdate_multi env htup cid buf =
     (let tuple = t_data htup; infomask = t_infomask tuple
      in if HEAP_LOCKED_UPGRADED infomask then (TM_Ok, htup, buf)
         else if HEAP_XMAX_IS_LOCKED_ONLY infomask then
           (if MultiXactIdIsRunning env (HeapTupleHeaderGetRawXmax tuple) True
            then (TM_BeingModified, htup, buf)
            else (TM_Ok, SetHintBits env htup buf HEAP_XMAX_INVALID InvalidTransactionId))
         else
           let xmax = HeapTupleGetUpdateXid env tuple
           in if \<not> TransactionIdIsValid xmax \<and>
                 MultiXactIdIsRunning env (HeapTupleHeaderGetRawXmax tuple) False
              then (TM_BeingModified, htup, buf)
              else if IsCurrent env xmax then
                (if GetCmax env tuple \<ge> cid then (TM_SelfModified, htup, buf)
                 else (TM_Invisible, htup, buf))
              else if MultiXactIdIsRunning env (HeapTupleHeaderGetRawXmax tuple) False
              then (TM_BeingModified, htup, buf)
              else if DidCommit env xmax then (updated_or_deleted htup, htup, buf)
              else if \<not> MultiXactIdIsRunning env (HeapTupleHeaderGetRawXmax tuple) False
              then (TM_Ok, SetHintBits env htup buf HEAP_XMAX_INVALID InvalidTransactionId)
              else (TM_BeingModified, htup, buf))"

definition HeapTupleSatisfiesUpdate_xmax ::
  "xact_env \<Rightarrow> HeapTupleData \<Rightarrow> CommandId \<Rightarrow> bufstate \<Rightarrow> TM_Result \<times> HeapTupleData \<times> bufstate" where
  "HeapTupleSatisfiesUpdate_xmax env htup cid buf =
     (let tuple = t_data htup; infomask = t_infomask tuple
      in if flag infomask HEAP_XMAX_INVALID then (TM_Ok, htup, buf)
         else if flag infomask HEAP_XMAX_COMMITTED then
           (if HEAP_XMAX_IS_LOCKED_ONLY infomask then (TM_Ok, htup, buf)
            else (updated_or_deleted htup, htup, buf))
         else if flag infomask HEAP_XMAX_IS_MULTI then HeapTupleSatisfiesUpdate_multi env htup cid buf
         else if IsCurrent env (HeapTupleHeaderGetRawXmax tuple) then
           (if HEAP_XMAX_IS_LOCKED_ONLY infomask then (TM_BeingModified, htup, buf)
            else if GetCmax env tuple \<ge> cid then (TM_SelfModified, htup, buf)
            else (TM_Invisible, htup, buf))
         else if InProgress env (HeapTupleHeaderGetRawXmax tuple) then (TM_BeingModified, htup, buf)
         else if \<not> DidCommit env (HeapTupleHeaderGetRawXmax tuple) then
           (TM_Ok, SetHintBits env htup buf HEAP_XMAX_INVALID InvalidTransactionId)
         else if HEAP_XMAX_IS_LOCKED_ONLY infomask then
           (TM_Ok, SetHintBits env htup buf HEAP_XMAX_INVALID InvalidTransactionId)
         else
           (updated_or_deleted htup,
            SetHintBits env htup buf HEAP_XMAX_COMMITTED (HeapTupleHeaderGetRawXmax tuple)))"

definition HeapTupleSatisfiesUpdate ::
  "xact_env \<Rightarrow> HeapTupleData \<Rightarrow> CommandId \<Rightarrow> bufstate \<Rightarrow> TM_Result \<times> HeapTupleData \<times> bufstate" where
  "HeapTupleSatisfiesUpdate env htup cid buf =
     (let tuple = t_data htup
      in if \<not> HeapTupleHeaderXminCommitted tuple then
           (if HeapTupleHeaderXminInvalid tuple then (TM_Invisible, htup, buf)
            else if heap_moved tuple then
              (case xvac_check env (InProgress env) htup buf of
                 (True, st) \<Rightarrow> (TM_Invisible, st)
               | (False, htup, buf) \<Rightarrow> HeapTupleSatisfiesUpdate_xmax env htup cid buf)
            else if IsCurrent env (HeapTupleHeaderGetRawXmin tuple) then
              HeapTupleSatisfiesUpdate_own env htup cid buf
            else if InProgress env (HeapTupleHeaderGetRawXmin tuple) then (TM_Invisible, htup, buf)
            else if DidCommit env (HeapTupleHeaderGetRawXmin tuple) then
              (case SetHintBits env htup buf HEAP_XMIN_COMMITTED (HeapTupleHeaderGetRawXmin tuple) of
                 (htup, buf) \<Rightarrow> HeapTupleSatisfiesUpdate_xmax env htup cid buf)
            else (TM_Invisible, SetHintBits env htup buf HEAP_XMIN_INVALID InvalidTransactionId))
         else HeapTupleSatisfiesUpdate_xmax env htup cid buf)"

section \<open>SNAPSHOT_DIRTY\<close>

text \<open>The snapshot is an output: \<open>snap_xmin\<close>, \<open>snap_xmax\<close> and the speculative token name the
  concurrent transactions that affected the tuple.\<close>

definition HeapTupleSatisfiesDirty_xmax ::
  "xact_env \<Rightarrow> HeapTupleData \<Rightarrow> SnapshotData \<Rightarrow> bufstate
   \<Rightarrow> (bool \<times> SnapshotData) \<times> HeapTupleData \<times> bufstate" where
  "HeapTupleSatisfiesDirty_xmax env htup snapshot buf =
     (let tuple = t_data htup; infomask = t_infomask tuple
      in if flag infomask HEAP_XMAX_INVALID then ((True, snapshot), htup, buf)
         else if flag infomask HEAP_XMAX_COMMITTED then
           (if HEAP_XMAX_IS_LOCKED_ONLY infomask then ((True, snapshot), htup, buf)
            else ((False, snapshot), htup, buf))
         else if flag infomask HEAP_XMAX_IS_MULTI then
           (if HEAP_XMAX_IS_LOCKED_ONLY infomask then ((True, snapshot), htup, buf)
            else let xmax = HeapTupleGetUpdateXid env tuple
                 in if IsCurrent env xmax then ((False, snapshot), htup, buf)
                    else if InProgress env xmax
                    then ((True, snapshot\<lparr>snap_xmax := xmax\<rparr>), htup, buf)
                    else if DidCommit env xmax then ((False, snapshot), htup, buf)
                    else ((True, snapshot), htup, buf))
         else if IsCurrent env (HeapTupleHeaderGetRawXmax tuple) then
           (if HEAP_XMAX_IS_LOCKED_ONLY infomask then ((True, snapshot), htup, buf)
            else ((False, snapshot), htup, buf))
         else if InProgress env (HeapTupleHeaderGetRawXmax tuple) then
           (if \<not> HEAP_XMAX_IS_LOCKED_ONLY infomask
            then ((True, snapshot\<lparr>snap_xmax := HeapTupleHeaderGetRawXmax tuple\<rparr>), htup, buf)
            else ((True, snapshot), htup, buf))
         else if \<not> DidCommit env (HeapTupleHeaderGetRawXmax tuple) then
           ((True, snapshot), SetHintBits env htup buf HEAP_XMAX_INVALID InvalidTransactionId)
         else if HEAP_XMAX_IS_LOCKED_ONLY infomask then
           ((True, snapshot), SetHintBits env htup buf HEAP_XMAX_INVALID InvalidTransactionId)
         else ((False, snapshot),
               SetHintBits env htup buf HEAP_XMAX_COMMITTED (HeapTupleHeaderGetRawXmax tuple)))"

definition HeapTupleSatisfiesDirty ::
  "xact_env \<Rightarrow> HeapTupleData \<Rightarrow> SnapshotData \<Rightarrow> bufstate
   \<Rightarrow> (bool \<times> SnapshotData) \<times> HeapTupleData \<times> bufstate" where
  "HeapTupleSatisfiesDirty env htup snapshot buf =
     (let tuple = t_data htup; infomask = t_infomask tuple;
          snapshot = snapshot\<lparr>snap_xmin := InvalidTransactionId, snap_xmax := InvalidTransactionId,
                              speculativeToken := 0\<rparr>
      in if \<not> HeapTupleHeaderXminCommitted tuple then
           (if HeapTupleHeaderXminInvalid tuple then ((False, snapshot), htup, buf)
            else if heap_moved tuple then
              (case xvac_check env (InProgress env) htup buf of
                 (True, st) \<Rightarrow> ((False, snapshot), st)
               | (False, htup, buf) \<Rightarrow> HeapTupleSatisfiesDirty_xmax env htup snapshot buf)
            else if IsCurrent env (HeapTupleHeaderGetRawXmin tuple) then
              (if flag infomask HEAP_XMAX_INVALID then ((True, snapshot), htup, buf)
               else if HEAP_XMAX_IS_LOCKED_ONLY infomask then ((True, snapshot), htup, buf)
               else if flag infomask HEAP_XMAX_IS_MULTI then
                 (let xmax = HeapTupleGetUpdateXid env tuple
                  in if \<not> IsCurrent env xmax then ((True, snapshot), htup, buf)
                     else ((False, snapshot), htup, buf))
               else if \<not> IsCurrent env (HeapTupleHeaderGetRawXmax tuple) then
                 ((True, snapshot), SetHintBits env htup buf HEAP_XMAX_INVALID InvalidTransactionId)
               else ((False, snapshot), htup, buf))
            else if InProgress env (HeapTupleHeaderGetRawXmin tuple) then
              (let snapshot = (if HeapTupleHeaderIsSpeculative tuple
                 then snapshot\<lparr>speculativeToken := HeapTupleHeaderGetSpeculativeToken tuple\<rparr>
                 else snapshot)
               in ((True, snapshot\<lparr>snap_xmin := HeapTupleHeaderGetRawXmin tuple\<rparr>), htup, buf))
            else if DidCommit env (HeapTupleHeaderGetRawXmin tuple) then
              (case SetHintBits env htup buf HEAP_XMIN_COMMITTED (HeapTupleHeaderGetRawXmin tuple) of
                 (htup, buf) \<Rightarrow> HeapTupleSatisfiesDirty_xmax env htup snapshot buf)
            else ((False, snapshot),
                  SetHintBits env htup buf HEAP_XMIN_INVALID InvalidTransactionId))
         else HeapTupleSatisfiesDirty_xmax env htup snapshot buf)"

section \<open>SNAPSHOT_MVCC\<close>

definition HeapTupleSatisfiesMVCC_xmax ::
  "xact_env \<Rightarrow> HeapTupleData \<Rightarrow> SnapshotData \<Rightarrow> bufstate \<Rightarrow> bool \<times> HeapTupleData \<times> bufstate" where
  "HeapTupleSatisfiesMVCC_xmax env htup snapshot buf =
     (let tuple = t_data htup; infomask = t_infomask tuple
      in if flag infomask HEAP_XMAX_INVALID then (True, htup, buf)
         else if HEAP_XMAX_IS_LOCKED_ONLY infomask then (True, htup, buf)
         else if flag infomask HEAP_XMAX_IS_MULTI then
           (let xmax = HeapTupleGetUpdateXid env tuple
            in if IsCurrent env xmax then
                 (if GetCmax env tuple \<ge> curcid snapshot then (True, htup, buf)
                  else (False, htup, buf))
               else if InSnapshot env snapshot xmax then (True, htup, buf)
               else if DidCommit env xmax then (False, htup, buf)
               else (True, htup, buf))
         else if \<not> flag infomask HEAP_XMAX_COMMITTED then
           (if IsCurrent env (HeapTupleHeaderGetRawXmax tuple) then
              (if GetCmax env tuple \<ge> curcid snapshot then (True, htup, buf)
               else (False, htup, buf))
            else if InSnapshot env snapshot (HeapTupleHeaderGetRawXmax tuple) then (True, htup, buf)
            else if \<not> DidCommit env (HeapTupleHeaderGetRawXmax tuple) then
              (True, SetHintBits env htup buf HEAP_XMAX_INVALID InvalidTransactionId)
            else (False, SetHintBits env htup buf HEAP_XMAX_COMMITTED (HeapTupleHeaderGetRawXmax tuple)))
         else if InSnapshot env snapshot (HeapTupleHeaderGetRawXmax tuple) then (True, htup, buf)
         else (False, htup, buf))"

text \<open>The branch for a tuple inserted by the current transaction.\<close>

definition HeapTupleSatisfiesMVCC_own ::
  "xact_env \<Rightarrow> HeapTupleData \<Rightarrow> SnapshotData \<Rightarrow> bufstate \<Rightarrow> bool \<times> HeapTupleData \<times> bufstate" where
  "HeapTupleSatisfiesMVCC_own env htup snapshot buf =
     (let tuple = t_data htup; infomask = t_infomask tuple
      in if GetCmin env tuple \<ge> curcid snapshot then (False, htup, buf)
         else if flag infomask HEAP_XMAX_INVALID then (True, htup, buf)
         else if HEAP_XMAX_IS_LOCKED_ONLY infomask then (True, htup, buf)
         else if flag infomask HEAP_XMAX_IS_MULTI then
           (let xmax = HeapTupleGetUpdateXid env tuple
            in if \<not> IsCurrent env xmax then (True, htup, buf)
               else if GetCmax env tuple \<ge> curcid snapshot then (True, htup, buf)
               else (False, htup, buf))
         else if \<not> IsCurrent env (HeapTupleHeaderGetRawXmax tuple) then
           (True, SetHintBits env htup buf HEAP_XMAX_INVALID InvalidTransactionId)
         else if GetCmax env tuple \<ge> curcid snapshot then (True, htup, buf)
         else (False, htup, buf))"

definition HeapTupleSatisfiesMVCC ::
  "xact_env \<Rightarrow> HeapTupleData \<Rightarrow> SnapshotData \<Rightarrow> bufstate \<Rightarrow> bool \<times> HeapTupleData \<times> bufstate" where
  "HeapTupleSatisfiesMVCC env htup snapshot buf =
     (let tuple = t_data htup
      in if \<not> HeapTupleHeaderXminCommitted tuple then
           (if HeapTupleHeaderXminInvalid tuple then (False, htup, buf)
            else if heap_moved tuple then
              (case xvac_check env (InSnapshot env snapshot) htup buf of
                 (True, st) \<Rightarrow> (False, st)
               | (False, htup, buf) \<Rightarrow> HeapTupleSatisfiesMVCC_xmax env htup snapshot buf)
            else if IsCurrent env (HeapTupleHeaderGetRawXmin tuple) then
              HeapTupleSatisfiesMVCC_own env htup snapshot buf
            else if InSnapshot env snapshot (HeapTupleHeaderGetRawXmin tuple) then (False, htup, buf)
            else if DidCommit env (HeapTupleHeaderGetRawXmin tuple) then
              (case SetHintBits env htup buf HEAP_XMIN_COMMITTED (HeapTupleHeaderGetRawXmin tuple) of
                 (htup, buf) \<Rightarrow> HeapTupleSatisfiesMVCC_xmax env htup snapshot buf)
            else (False, SetHintBits env htup buf HEAP_XMIN_INVALID InvalidTransactionId))
         else
           (if \<not> HeapTupleHeaderXminFrozen tuple \<and>
               InSnapshot env snapshot (HeapTupleHeaderGetRawXmin tuple)
            then (False, htup, buf)
            else HeapTupleSatisfiesMVCC_xmax env htup snapshot buf))"

section \<open>The vacuum tests\<close>

datatype HTSV_Result = HEAPTUPLE_DEAD | HEAPTUPLE_LIVE | HEAPTUPLE_RECENTLY_DEAD
  | HEAPTUPLE_INSERT_IN_PROGRESS | HEAPTUPLE_DELETE_IN_PROGRESS

definition HeapTupleHeaderIsOnlyLocked :: "xact_env \<Rightarrow> HeapTupleHeaderData \<Rightarrow> bool" where
  "HeapTupleHeaderIsOnlyLocked env tuple =
     (if flag (t_infomask tuple) HEAP_XMAX_INVALID then True
      else if flag (t_infomask tuple) HEAP_XMAX_LOCK_ONLY then True
      else if \<not> TransactionIdIsValid (HeapTupleHeaderGetRawXmax tuple) then True
      else if \<not> flag (t_infomask tuple) HEAP_XMAX_IS_MULTI then False
      else
        let xmax = HeapTupleGetUpdateXid env tuple
        in if IsCurrent env xmax then False
           else if InProgress env xmax then False
           else if DidCommit env xmax then False
           else True)"

text \<open>Phase one: has the inserting transaction committed? \<open>Some\<close> is an early return, \<open>None\<close>
  goes on to the deleting transaction.\<close>

definition HeapTupleSatisfiesVacuum_xmin ::
  "xact_env \<Rightarrow> HeapTupleData \<Rightarrow> bufstate \<Rightarrow> HTSV_Result option \<times> HeapTupleData \<times> bufstate" where
  "HeapTupleSatisfiesVacuum_xmin env htup buf =
     (let tuple = t_data htup; infomask = t_infomask tuple
      in if \<not> HeapTupleHeaderXminCommitted tuple then
           (if HeapTupleHeaderXminInvalid tuple then (Some HEAPTUPLE_DEAD, htup, buf)
            else if flag infomask HEAP_MOVED_OFF then
              (let xvac = HeapTupleHeaderGetXvac tuple
               in if IsCurrent env xvac then (Some HEAPTUPLE_DELETE_IN_PROGRESS, htup, buf)
                  else if InProgress env xvac then (Some HEAPTUPLE_DELETE_IN_PROGRESS, htup, buf)
                  else if DidCommit env xvac then
                    (Some HEAPTUPLE_DEAD, SetHintBits env htup buf HEAP_XMIN_INVALID InvalidTransactionId)
                  else (None, SetHintBits env htup buf HEAP_XMIN_COMMITTED InvalidTransactionId))
            else if flag infomask HEAP_MOVED_IN then
              (let xvac = HeapTupleHeaderGetXvac tuple
               in if IsCurrent env xvac then (Some HEAPTUPLE_INSERT_IN_PROGRESS, htup, buf)
                  else if InProgress env xvac then (Some HEAPTUPLE_INSERT_IN_PROGRESS, htup, buf)
                  else if DidCommit env xvac then
                    (None, SetHintBits env htup buf HEAP_XMIN_COMMITTED InvalidTransactionId)
                  else
                    (Some HEAPTUPLE_DEAD, SetHintBits env htup buf HEAP_XMIN_INVALID InvalidTransactionId))
            else if IsCurrent env (HeapTupleHeaderGetRawXmin tuple) then
              (if flag infomask HEAP_XMAX_INVALID then (Some HEAPTUPLE_INSERT_IN_PROGRESS, htup, buf)
               else if HEAP_XMAX_IS_LOCKED_ONLY infomask \<or> HeapTupleHeaderIsOnlyLocked env tuple
               then (Some HEAPTUPLE_INSERT_IN_PROGRESS, htup, buf)
               else if IsCurrent env (HeapTupleHeaderGetUpdateXid env tuple)
               then (Some HEAPTUPLE_DELETE_IN_PROGRESS, htup, buf)
               else (Some HEAPTUPLE_INSERT_IN_PROGRESS, htup, buf))
            else if InProgress env (HeapTupleHeaderGetRawXmin tuple)
            then (Some HEAPTUPLE_INSERT_IN_PROGRESS, htup, buf)
            else if DidCommit env (HeapTupleHeaderGetRawXmin tuple) then
              (None, SetHintBits env htup buf HEAP_XMIN_COMMITTED (HeapTupleHeaderGetRawXmin tuple))
            else
              (Some HEAPTUPLE_DEAD, SetHintBits env htup buf HEAP_XMIN_INVALID InvalidTransactionId))
         else (None, htup, buf))"

text \<open>Phase two: the deleting transaction.\<close>

definition HeapTupleSatisfiesVacuum_xmax ::
  "xact_env \<Rightarrow> HeapTupleData \<Rightarrow> TransactionId \<Rightarrow> bufstate \<Rightarrow> HTSV_Result \<times> HeapTupleData \<times> bufstate" where
  "HeapTupleSatisfiesVacuum_xmax env htup OldestXmin buf =
     (let tuple = t_data htup; infomask = t_infomask tuple
      in if flag infomask HEAP_XMAX_INVALID then (HEAPTUPLE_LIVE, htup, buf)
         else if HEAP_XMAX_IS_LOCKED_ONLY infomask then
           (if \<not> flag infomask HEAP_XMAX_COMMITTED then
              (if flag infomask HEAP_XMAX_IS_MULTI then
                 (if \<not> HEAP_LOCKED_UPGRADED infomask \<and>
                     MultiXactIdIsRunning env (HeapTupleHeaderGetRawXmax tuple) True
                  then (HEAPTUPLE_LIVE, htup, buf)
                  else (HEAPTUPLE_LIVE,
                        SetHintBits env htup buf HEAP_XMAX_INVALID InvalidTransactionId))
               else if InProgress env (HeapTupleHeaderGetRawXmax tuple) then (HEAPTUPLE_LIVE, htup, buf)
               else (HEAPTUPLE_LIVE,
                     SetHintBits env htup buf HEAP_XMAX_INVALID InvalidTransactionId))
            else (HEAPTUPLE_LIVE, htup, buf))
         else if flag infomask HEAP_XMAX_IS_MULTI then
           (let xmax = HeapTupleGetUpdateXid env tuple
            in if InProgress env xmax then (HEAPTUPLE_DELETE_IN_PROGRESS, htup, buf)
               else if DidCommit env xmax then
                 (if \<not> TransactionIdPrecedes xmax OldestXmin then (HEAPTUPLE_RECENTLY_DEAD, htup, buf)
                  else (HEAPTUPLE_DEAD, htup, buf))
               else if \<not> MultiXactIdIsRunning env (HeapTupleHeaderGetRawXmax tuple) False then
                 (HEAPTUPLE_LIVE, SetHintBits env htup buf HEAP_XMAX_INVALID InvalidTransactionId)
               else (HEAPTUPLE_LIVE, htup, buf))
         else if \<not> flag infomask HEAP_XMAX_COMMITTED \<and>
                 InProgress env (HeapTupleHeaderGetRawXmax tuple)
         then (HEAPTUPLE_DELETE_IN_PROGRESS, htup, buf)
         else if \<not> flag infomask HEAP_XMAX_COMMITTED \<and>
                 \<not> DidCommit env (HeapTupleHeaderGetRawXmax tuple)
         then (HEAPTUPLE_LIVE, SetHintBits env htup buf HEAP_XMAX_INVALID InvalidTransactionId)
         else
           let st = (if \<not> flag infomask HEAP_XMAX_COMMITTED
                     then SetHintBits env htup buf HEAP_XMAX_COMMITTED (HeapTupleHeaderGetRawXmax tuple)
                     else (htup, buf))
           in if \<not> TransactionIdPrecedes (HeapTupleHeaderGetRawXmax tuple) OldestXmin
              then (HEAPTUPLE_RECENTLY_DEAD, st) else (HEAPTUPLE_DEAD, st))"

definition HeapTupleSatisfiesVacuum ::
  "xact_env \<Rightarrow> HeapTupleData \<Rightarrow> TransactionId \<Rightarrow> bufstate \<Rightarrow> HTSV_Result \<times> HeapTupleData \<times> bufstate" where
  "HeapTupleSatisfiesVacuum env htup OldestXmin buf =
     (case HeapTupleSatisfiesVacuum_xmin env htup buf of
        (Some r, st) \<Rightarrow> (r, st)
      | (None, htup, buf) \<Rightarrow> HeapTupleSatisfiesVacuum_xmax env htup OldestXmin buf)"

definition HeapTupleSatisfiesNonVacuumable ::
  "xact_env \<Rightarrow> HeapTupleData \<Rightarrow> SnapshotData \<Rightarrow> bufstate \<Rightarrow> bool \<times> HeapTupleData \<times> bufstate" where
  "HeapTupleSatisfiesNonVacuumable env htup snapshot buf =
     (case HeapTupleSatisfiesVacuum env htup (snap_xmin snapshot) buf of
        (r, st) \<Rightarrow> (r \<noteq> HEAPTUPLE_DEAD, st))"

definition HeapTupleIsSurelyDead :: "HeapTupleData \<Rightarrow> TransactionId \<Rightarrow> bool" where
  "HeapTupleIsSurelyDead htup OldestXmin =
     (let tuple = t_data htup
      in if \<not> HeapTupleHeaderXminCommitted tuple then HeapTupleHeaderXminInvalid tuple
         else if flag (t_infomask tuple) HEAP_XMAX_INVALID then False
         else if HEAP_XMAX_IS_LOCKED_ONLY (t_infomask tuple) then False
         else if flag (t_infomask tuple) HEAP_XMAX_IS_MULTI then False
         else if \<not> flag (t_infomask tuple) HEAP_XMAX_COMMITTED then False
         else TransactionIdPrecedes (HeapTupleHeaderGetRawXmax tuple) OldestXmin)"

section \<open>SNAPSHOT_HISTORIC_MVCC and the dispatcher\<close>

datatype vis_error = CouldNotResolveCminCmax | CouldNotResolveCombocid

text \<open>The part after ``at this point we know xmin is visible''.\<close>

definition HeapTupleSatisfiesHistoricMVCC_xmax ::
  "xact_env \<Rightarrow> HeapTupleData \<Rightarrow> SnapshotData \<Rightarrow> vis_error + bool" where
  "HeapTupleSatisfiesHistoricMVCC_xmax env htup snapshot =
     (let tuple = t_data htup; infomask = t_infomask tuple
      in if flag infomask HEAP_XMAX_INVALID then Inr True
         else if HEAP_XMAX_IS_LOCKED_ONLY infomask then Inr True
         else
           let xmax = (if flag infomask HEAP_XMAX_IS_MULTI then HeapTupleGetUpdateXid env tuple
                       else HeapTupleHeaderGetRawXmax tuple)
           in if TransactionIdInArray xmax (subxip snapshot) then
                (case ResolveCids env htup of
                   None \<Rightarrow> Inl CouldNotResolveCombocid
                 | Some (cmin, cmax) \<Rightarrow> Inr (cmax \<ge> curcid snapshot))
              else if TransactionIdPrecedes xmax (snap_xmin snapshot) then
                (if flag infomask HEAP_XMAX_COMMITTED then Inr False
                 else Inr (\<not> DidCommit env xmax))
              else if TransactionIdFollowsOrEquals xmax (snap_xmax snapshot) then Inr True
              else if TransactionIdInArray xmax (xip snapshot) then Inr False
              else Inr True)"

definition HeapTupleSatisfiesHistoricMVCC ::
  "xact_env \<Rightarrow> HeapTupleData \<Rightarrow> SnapshotData \<Rightarrow> vis_error + bool" where
  "HeapTupleSatisfiesHistoricMVCC env htup snapshot =
     (let tuple = t_data htup; xmin = HeapTupleHeaderGetXmin tuple
      in if HeapTupleHeaderXminInvalid tuple then Inr False
         else if TransactionIdInArray xmin (subxip snapshot) then
           (case ResolveCids env htup of
              None \<Rightarrow> Inl CouldNotResolveCminCmax
            | Some (cmin, cmax) \<Rightarrow>
                if cmin \<ge> curcid snapshot then Inr False
                else HeapTupleSatisfiesHistoricMVCC_xmax env htup snapshot)
         else if TransactionIdPrecedes xmin (snap_xmin snapshot) then
           (if \<not> HeapTupleHeaderXminCommitted tuple \<and> \<not> DidCommit env xmin then Inr False
            else HeapTupleSatisfiesHistoricMVCC_xmax env htup snapshot)
         else if TransactionIdFollowsOrEquals xmin (snap_xmax snapshot) then Inr False
         else if TransactionIdInArray xmin (xip snapshot) then
           HeapTupleSatisfiesHistoricMVCC_xmax env htup snapshot
         else Inr False)"

text \<open>The dispatcher returns the answer (or the error raised), the snapshot, which only
  \<^verbatim>\<open>HeapTupleSatisfiesDirty\<close> changes, and the tuple and buffer.\<close>

definition HeapTupleSatisfiesVisibility ::
  "xact_env \<Rightarrow> HeapTupleData \<Rightarrow> SnapshotData \<Rightarrow> bufstate
   \<Rightarrow> (vis_error + bool) \<times> SnapshotData \<times> HeapTupleData \<times> bufstate" where
  "HeapTupleSatisfiesVisibility env tup snapshot buf =
     (case snapshot_type snapshot of
        SNAPSHOT_MVCC \<Rightarrow>
          (case HeapTupleSatisfiesMVCC env tup snapshot buf of (r, st) \<Rightarrow> (Inr r, snapshot, st))
      | SNAPSHOT_SELF \<Rightarrow>
          (case HeapTupleSatisfiesSelf env tup buf of (r, st) \<Rightarrow> (Inr r, snapshot, st))
      | SNAPSHOT_ANY \<Rightarrow>
          (case HeapTupleSatisfiesAny env tup buf of (r, st) \<Rightarrow> (Inr r, snapshot, st))
      | SNAPSHOT_TOAST \<Rightarrow>
          (case HeapTupleSatisfiesToast env tup buf of (r, st) \<Rightarrow> (Inr r, snapshot, st))
      | SNAPSHOT_DIRTY \<Rightarrow>
          (case HeapTupleSatisfiesDirty env tup snapshot buf of
             ((r, snapshot), st) \<Rightarrow> (Inr r, snapshot, st))
      | SNAPSHOT_HISTORIC_MVCC \<Rightarrow>
          (HeapTupleSatisfiesHistoricMVCC env tup snapshot, snapshot, tup, buf)
      | SNAPSHOT_NON_VACUUMABLE \<Rightarrow>
          (case HeapTupleSatisfiesNonVacuumable env tup snapshot buf of
             (r, st) \<Rightarrow> (Inr r, snapshot, st)))"

end
