(* ===== verification/Visibility_Props.thy ===== *)
theory Visibility_Props
  imports Visibility
begin

text \<open>
  Correctness of the visibility tests. The specification (\<open>mvcc_visible\<close>, \<open>self_visible\<close>) is
  written without hint bits: a tuple is visible if its inserter took effect and its deleter did
  not. Hint bits are a cache of transaction outcomes; \<open>hints_ok\<close> says that they tell the truth.
  The theorems show that every test keeps them truthful and that, when they are, the tests answer
  as specified.
\<close>

section \<open>Hint bits do not touch anything else\<close>

lemma flag_hint_bits [simp]:
  "\<not> flag HEAP_XMIN_COMMITTED HEAP_XMAX_KEYSHR_LOCK"
  "\<not> flag HEAP_XMIN_COMMITTED HEAP_COMBOCID"
  "\<not> flag HEAP_XMIN_COMMITTED HEAP_XMAX_EXCL_LOCK"
  "\<not> flag HEAP_XMIN_COMMITTED HEAP_XMAX_LOCK_ONLY"
  "flag HEAP_XMIN_COMMITTED HEAP_XMIN_COMMITTED"
  "\<not> flag HEAP_XMIN_COMMITTED HEAP_XMIN_INVALID"
  "\<not> flag HEAP_XMIN_COMMITTED HEAP_XMAX_COMMITTED"
  "\<not> flag HEAP_XMIN_COMMITTED HEAP_XMAX_INVALID"
  "\<not> flag HEAP_XMIN_COMMITTED HEAP_XMAX_IS_MULTI"
  "\<not> flag HEAP_XMIN_COMMITTED HEAP_MOVED_OFF"
  "\<not> flag HEAP_XMIN_COMMITTED HEAP_MOVED_IN"
  "\<not> flag HEAP_XMIN_COMMITTED HEAP_MOVED"
  "\<not> flag HEAP_XMIN_INVALID HEAP_XMAX_KEYSHR_LOCK"
  "\<not> flag HEAP_XMIN_INVALID HEAP_COMBOCID"
  "\<not> flag HEAP_XMIN_INVALID HEAP_XMAX_EXCL_LOCK"
  "\<not> flag HEAP_XMIN_INVALID HEAP_XMAX_LOCK_ONLY"
  "\<not> flag HEAP_XMIN_INVALID HEAP_XMIN_COMMITTED"
  "flag HEAP_XMIN_INVALID HEAP_XMIN_INVALID"
  "\<not> flag HEAP_XMIN_INVALID HEAP_XMAX_COMMITTED"
  "\<not> flag HEAP_XMIN_INVALID HEAP_XMAX_INVALID"
  "\<not> flag HEAP_XMIN_INVALID HEAP_XMAX_IS_MULTI"
  "\<not> flag HEAP_XMIN_INVALID HEAP_MOVED_OFF"
  "\<not> flag HEAP_XMIN_INVALID HEAP_MOVED_IN"
  "\<not> flag HEAP_XMIN_INVALID HEAP_MOVED"
  "\<not> flag HEAP_XMAX_COMMITTED HEAP_XMAX_KEYSHR_LOCK"
  "\<not> flag HEAP_XMAX_COMMITTED HEAP_COMBOCID"
  "\<not> flag HEAP_XMAX_COMMITTED HEAP_XMAX_EXCL_LOCK"
  "\<not> flag HEAP_XMAX_COMMITTED HEAP_XMAX_LOCK_ONLY"
  "\<not> flag HEAP_XMAX_COMMITTED HEAP_XMIN_COMMITTED"
  "\<not> flag HEAP_XMAX_COMMITTED HEAP_XMIN_INVALID"
  "flag HEAP_XMAX_COMMITTED HEAP_XMAX_COMMITTED"
  "\<not> flag HEAP_XMAX_COMMITTED HEAP_XMAX_INVALID"
  "\<not> flag HEAP_XMAX_COMMITTED HEAP_XMAX_IS_MULTI"
  "\<not> flag HEAP_XMAX_COMMITTED HEAP_MOVED_OFF"
  "\<not> flag HEAP_XMAX_COMMITTED HEAP_MOVED_IN"
  "\<not> flag HEAP_XMAX_COMMITTED HEAP_MOVED"
  "\<not> flag HEAP_XMAX_INVALID HEAP_XMAX_KEYSHR_LOCK"
  "\<not> flag HEAP_XMAX_INVALID HEAP_COMBOCID"
  "\<not> flag HEAP_XMAX_INVALID HEAP_XMAX_EXCL_LOCK"
  "\<not> flag HEAP_XMAX_INVALID HEAP_XMAX_LOCK_ONLY"
  "\<not> flag HEAP_XMAX_INVALID HEAP_XMIN_COMMITTED"
  "\<not> flag HEAP_XMAX_INVALID HEAP_XMIN_INVALID"
  "\<not> flag HEAP_XMAX_INVALID HEAP_XMAX_COMMITTED"
  "flag HEAP_XMAX_INVALID HEAP_XMAX_INVALID"
  "\<not> flag HEAP_XMAX_INVALID HEAP_XMAX_IS_MULTI"
  "\<not> flag HEAP_XMAX_INVALID HEAP_MOVED_OFF"
  "\<not> flag HEAP_XMAX_INVALID HEAP_MOVED_IN"
  "\<not> flag HEAP_XMAX_INVALID HEAP_MOVED"
  by (simp_all add: flag_def heap_bits)

lemma or_infomask_sel [simp]:
  "t_self (or_infomask h b) = t_self h" "t_len (or_infomask h b) = t_len h"
  "t_tableOid (or_infomask h b) = t_tableOid h"
  "t_xmin (t_data (or_infomask h b)) = t_xmin (t_data h)"
  "t_xmax (t_data (or_infomask h b)) = t_xmax (t_data h)"
  "t_field3 (t_data (or_infomask h b)) = t_field3 (t_data h)"
  "t_ctid (t_data (or_infomask h b)) = t_ctid (t_data h)"
  "t_infomask (t_data (or_infomask h b)) = t_infomask (t_data h) OR b"
  by (simp_all add: or_infomask_def)

lemmas raw_fields = HeapTupleHeaderGetRawXmin_def HeapTupleHeaderGetRawXmax_def
  HeapTupleHeaderGetRawCommandId_def HeapTupleGetUpdateXid_def

lemma SetHintBits_cases:
  obtains "SetHintBits env h buf b x = (h, buf)"
  | "SetHintBits env h buf b x = (or_infomask h b, MarkDirtyHint env buf)"
  unfolding SetHintBits_def by metis

lemma SetHintBits_no_xid:
  "SetHintBits env h buf b InvalidTransactionId = (or_infomask h b, MarkDirtyHint env buf)"
  by (simp add: SetHintBits_def TransactionIdIsValid_def)

section \<open>Specification\<close>

text \<open>The transaction that deletes the tuple if it takes effect; a locker deletes nothing.\<close>

definition deleter :: "xact_env \<Rightarrow> HeapTupleHeaderData \<Rightarrow> TransactionId option" where
  "deleter env tup =
     (if HEAP_XMAX_IS_LOCKED_ONLY (t_infomask tup) then None
      else if flag (t_infomask tup) HEAP_XMAX_IS_MULTI then Some (HeapTupleGetUpdateXid env tup)
      else Some (HeapTupleHeaderGetRawXmax tup))"

definition xact_committed :: "xact_env \<Rightarrow> TransactionId \<Rightarrow> bool" where
  "xact_committed env x \<longleftrightarrow> \<not> IsCurrent env x \<and> \<not> InProgress env x \<and> DidCommit env x"

definition xact_aborted :: "xact_env \<Rightarrow> TransactionId \<Rightarrow> bool" where
  "xact_aborted env x \<longleftrightarrow> \<not> IsCurrent env x \<and> \<not> InProgress env x \<and> \<not> DidCommit env x"

text \<open>Did the transaction take effect before the snapshot? For the current transaction the command
  counter decides.\<close>

definition effect_in :: "xact_env \<Rightarrow> SnapshotData \<Rightarrow> CommandId \<Rightarrow> TransactionId \<Rightarrow> bool" where
  "effect_in env snap cid x =
     (if IsCurrent env x then cid < curcid snap else \<not> InSnapshot env snap x \<and> DidCommit env x)"

definition mvcc_visible :: "xact_env \<Rightarrow> SnapshotData \<Rightarrow> HeapTupleHeaderData \<Rightarrow> bool" where
  "mvcc_visible env snap tup \<longleftrightarrow>
     (HeapTupleHeaderXminFrozen tup \<or> effect_in env snap (GetCmin env tup) (t_xmin tup)) \<and>
     \<not> (case deleter env tup of None \<Rightarrow> False | Some x \<Rightarrow> effect_in env snap (GetCmax env tup) x)"

text \<open>Self: the effects of the current transaction and of everything committed.\<close>

definition effect_now :: "xact_env \<Rightarrow> TransactionId \<Rightarrow> bool" where
  "effect_now env x \<longleftrightarrow> IsCurrent env x \<or> xact_committed env x"

definition self_visible :: "xact_env \<Rightarrow> HeapTupleHeaderData \<Rightarrow> bool" where
  "self_visible env tup \<longleftrightarrow>
     (HeapTupleHeaderXminFrozen tup \<or> effect_now env (t_xmin tup)) \<and>
     \<not> (case deleter env tup of None \<Rightarrow> False | Some x \<Rightarrow> effect_now env x)"

text \<open>Truthful hint bits.\<close>

definition hints_ok :: "xact_env \<Rightarrow> HeapTupleHeaderData \<Rightarrow> bool" where
  "hints_ok env tup \<longleftrightarrow>
     (HeapTupleHeaderXminCommitted tup \<and> \<not> HeapTupleHeaderXminFrozen tup
        \<longrightarrow> xact_committed env (t_xmin tup)) \<and>
     (HeapTupleHeaderXminInvalid tup \<longrightarrow> xact_aborted env (t_xmin tup)) \<and>
     (flag (t_infomask tup) HEAP_XMAX_INVALID
        \<longrightarrow> (case deleter env tup of None \<Rightarrow> True | Some x \<Rightarrow> xact_aborted env x)) \<and>
     (flag (t_infomask tup) HEAP_XMAX_COMMITTED \<and> \<not> HEAP_XMAX_IS_LOCKED_ONLY (t_infomask tup)
        \<longrightarrow> \<not> flag (t_infomask tup) HEAP_XMAX_IS_MULTI \<and> xact_committed env (t_xmax tup))"

text \<open>A tuple that the running transaction inserted is invisible to everybody else, so that only the
  transaction itself can have deleted it.\<close>

definition own_ok :: "xact_env \<Rightarrow> HeapTupleHeaderData \<Rightarrow> bool" where
  "own_ok env tup \<longleftrightarrow>
     (\<not> HeapTupleHeaderXminFrozen tup \<and> IsCurrent env (t_xmin tup) \<longrightarrow>
        (case deleter env tup of None \<Rightarrow> True | Some x \<Rightarrow> IsCurrent env x \<or> xact_aborted env x))"

text \<open>What a snapshot sees as finished is finished.\<close>

definition snapshot_ok :: "xact_env \<Rightarrow> SnapshotData \<Rightarrow> bool" where
  "snapshot_ok env snap \<longleftrightarrow> (\<forall>x. \<not> IsCurrent env x \<and> \<not> InSnapshot env snap x \<longrightarrow> \<not> InProgress env x)"

lemmas vis_specs = deleter_def effect_in_def effect_now_def mvcc_visible_def self_visible_def
  hints_ok_def own_ok_def xact_committed_def xact_aborted_def

section \<open>Hint bits leave the specification alone\<close>

lemma deleter_hint [simp]:
  "b \<in> {HEAP_XMIN_COMMITTED, HEAP_XMIN_INVALID, HEAP_XMAX_COMMITTED, HEAP_XMAX_INVALID} \<Longrightarrow>
   deleter env (t_data (or_infomask h b)) = deleter env (t_data h)"
  by (auto simp: deleter_def flag_simps raw_fields)

lemma cids_hint [simp]:
  "b \<in> {HEAP_XMIN_COMMITTED, HEAP_XMIN_INVALID, HEAP_XMAX_COMMITTED, HEAP_XMAX_INVALID} \<Longrightarrow>
   HeapTupleHeaderGetCmin c (t_data (or_infomask h b)) = HeapTupleHeaderGetCmin c (t_data h)"
  "b \<in> {HEAP_XMIN_COMMITTED, HEAP_XMIN_INVALID, HEAP_XMAX_COMMITTED, HEAP_XMAX_INVALID} \<Longrightarrow>
   HeapTupleHeaderGetCmax c (t_data (or_infomask h b)) = HeapTupleHeaderGetCmax c (t_data h)"
  by (auto simp: HeapTupleHeaderGetCmin_def HeapTupleHeaderGetCmax_def raw_fields Let_def)

lemma hints_ok_xmin_committed:
  assumes "hints_ok env (t_data h)" "xact_committed env (t_xmin (t_data h))"
  shows "hints_ok env (t_data (fst (SetHintBits env h buf HEAP_XMIN_COMMITTED x)))"
  by (rule SetHintBits_cases [of env h buf HEAP_XMIN_COMMITTED x])
    (use assms in \<open>auto simp: hints_ok_def flag_simps\<close>)

lemma hints_ok_xmin_invalid:
  assumes "hints_ok env (t_data h)" "xact_aborted env (t_xmin (t_data h))"
    "\<not> HeapTupleHeaderXminCommitted (t_data h)"
  shows "hints_ok env (t_data (fst (SetHintBits env h buf HEAP_XMIN_INVALID x)))"
  by (rule SetHintBits_cases [of env h buf HEAP_XMIN_INVALID x])
    (use assms in \<open>auto simp: hints_ok_def flag_simps\<close>)

lemma hints_ok_xmax_invalid:
  assumes "hints_ok env (t_data h)"
    "case deleter env (t_data h) of None \<Rightarrow> True | Some x \<Rightarrow> xact_aborted env x"
  shows "hints_ok env (t_data (fst (SetHintBits env h buf HEAP_XMAX_INVALID x)))"
  by (rule SetHintBits_cases [of env h buf HEAP_XMAX_INVALID x])
    (use assms in \<open>auto simp: hints_ok_def flag_simps\<close>)

lemma hints_ok_xmax_committed:
  assumes "hints_ok env (t_data h)" "\<not> flag (t_infomask (t_data h)) HEAP_XMAX_IS_MULTI"
    "xact_committed env (t_xmax (t_data h))"
  shows "hints_ok env (t_data (fst (SetHintBits env h buf HEAP_XMAX_COMMITTED x)))"
  by (rule SetHintBits_cases [of env h buf HEAP_XMAX_COMMITTED x])
    (use assms in \<open>auto simp: hints_ok_def flag_simps\<close>)

lemmas hints_ok_set = hints_ok_xmin_committed hints_ok_xmin_invalid hints_ok_xmax_invalid
  hints_ok_xmax_committed

text \<open>The three shapes of an xmax.\<close>

lemma deleter_cases:
  obtains (locked) "HEAP_XMAX_IS_LOCKED_ONLY (t_infomask tup)" "deleter env tup = None"
  | (multi) "\<not> HEAP_XMAX_IS_LOCKED_ONLY (t_infomask tup)" "flag (t_infomask tup) HEAP_XMAX_IS_MULTI"
      "deleter env tup = Some (HeapTupleGetUpdateXid env tup)"
  | (plain) "\<not> HEAP_XMAX_IS_LOCKED_ONLY (t_infomask tup)"
      "\<not> flag (t_infomask tup) HEAP_XMAX_IS_MULTI" "deleter env tup = Some (t_xmax tup)"
  by (cases "HEAP_XMAX_IS_LOCKED_ONLY (t_infomask tup)"; cases "flag (t_infomask tup) HEAP_XMAX_IS_MULTI")
    (simp_all add: deleter_def raw_fields)

section \<open>MVCC\<close>

lemma mvcc_xmax_correct:
  assumes "hints_ok env (t_data h)" "snapshot_ok env snap"
    and "HeapTupleSatisfiesMVCC_xmax env h snap buf = (r, h', buf')"
  shows "(r \<longleftrightarrow> \<not> (case deleter env (t_data h) of None \<Rightarrow> False
                   | Some x \<Rightarrow> effect_in env snap (GetCmax env (t_data h)) x)) \<and>
         hints_ok env (t_data h')"
proof -
  have fin: "\<not> InProgress env x" if "\<not> IsCurrent env x" "\<not> InSnapshot env snap x" for x
    using assms(2) that by (simp add: snapshot_ok_def)
  have h': "h' = fst (snd (HeapTupleSatisfiesMVCC_xmax env h snap buf))"
    and r: "r = fst (HeapTupleSatisfiesMVCC_xmax env h snap buf)"
    using assms(3) by simp_all
  have "hints_ok env (t_data h')"
    unfolding h' HeapTupleSatisfiesMVCC_xmax_def Let_def
    using assms(1) fin
    by (auto intro!: hints_ok_set simp: deleter_def xact_aborted_def xact_committed_def raw_fields)
  moreover have "r \<longleftrightarrow> \<not> (case deleter env (t_data h) of None \<Rightarrow> False
                   | Some x \<Rightarrow> effect_in env snap (GetCmax env (t_data h)) x)"
  proof (cases rule: deleter_cases [of "t_data h" env])
    case locked
    then show ?thesis by (simp add: r HeapTupleSatisfiesMVCC_xmax_def Let_def)
  next
    case multi
    then show ?thesis using assms(1) 
      by (simp add: r HeapTupleSatisfiesMVCC_xmax_def Let_def effect_in_def hints_ok_def
          xact_aborted_def not_less)
  next
    case plain
    then show ?thesis using assms(1)
      by (simp add: r HeapTupleSatisfiesMVCC_xmax_def Let_def effect_in_def hints_ok_def raw_fields
          xact_aborted_def xact_committed_def not_less)
  qed
  ultimately show ?thesis by simp
qed

lemma mvcc_own_correct:
  assumes "hints_ok env (t_data h)" "own_ok env (t_data h)"
    and "\<not> HeapTupleHeaderXminCommitted (t_data h)" "IsCurrent env (t_xmin (t_data h))"
    and "HeapTupleSatisfiesMVCC_own env h snap buf = (r, h', buf')"
  shows "(r \<longleftrightarrow> mvcc_visible env snap (t_data h)) \<and> hints_ok env (t_data h')"
proof -
  have h': "h' = fst (snd (HeapTupleSatisfiesMVCC_own env h snap buf))"
    and r: "r = fst (HeapTupleSatisfiesMVCC_own env h snap buf)"
    using assms(5) by simp_all
  have nf: "\<not> HeapTupleHeaderXminFrozen (t_data h)"
    using assms(3) by (simp add: flag_simps)
  have "hints_ok env (t_data h')"
    unfolding h' HeapTupleSatisfiesMVCC_own_def Let_def
    using assms(1,2,4) nf
    by (auto intro!: hints_ok_set simp: deleter_def own_ok_def raw_fields)
  moreover have "r \<longleftrightarrow> mvcc_visible env snap (t_data h)"
    unfolding r HeapTupleSatisfiesMVCC_own_def Let_def
    using assms(1,2,4) nf
    by (auto simp: deleter_def effect_in_def own_ok_def mvcc_visible_def hints_ok_def xact_aborted_def
        raw_fields not_le)
  ultimately show ?thesis by simp
qed

text \<open>The four ways into \<open>HeapTupleSatisfiesMVCC\<close>, one lemma each.\<close>

lemmas mvcc_unfold = HeapTupleSatisfiesMVCC_def Let_def HeapTupleHeaderGetRawXmin_def

lemma mvcc_hinted_committed:
  assumes hints: "hints_ok env (t_data h)" and snap: "snapshot_ok env snap"
    and com: "HeapTupleHeaderXminCommitted (t_data h)"
    and run: "HeapTupleSatisfiesMVCC env h snap buf = (r, h', buf')"
  shows "(r \<longleftrightarrow> mvcc_visible env snap (t_data h)) \<and> hints_ok env (t_data h')"
proof (cases "\<not> HeapTupleHeaderXminFrozen (t_data h) \<and> InSnapshot env snap (t_xmin (t_data h))")
  case True
  then show ?thesis using run hints com
    by (auto simp: mvcc_unfold mvcc_visible_def effect_in_def hints_ok_def xact_committed_def)
next
  case False
  then have "HeapTupleSatisfiesMVCC_xmax env h snap buf = (r, h', buf')"
    using run com by (auto simp: mvcc_unfold split: if_splits)
  from mvcc_xmax_correct [OF hints snap this] False hints com show ?thesis
    by (auto simp: mvcc_visible_def effect_in_def hints_ok_def xact_committed_def)
qed

lemma mvcc_found_committed:
  assumes hints: "hints_ok env (t_data h)" and snap: "snapshot_ok env snap"
    and moved: "\<not> heap_moved (t_data h)"
    and nohint: "\<not> HeapTupleHeaderXminCommitted (t_data h)" "\<not> HeapTupleHeaderXminInvalid (t_data h)"
    and xmin: "\<not> IsCurrent env (t_xmin (t_data h))" "\<not> InSnapshot env snap (t_xmin (t_data h))"
      "DidCommit env (t_xmin (t_data h))"
    and run: "HeapTupleSatisfiesMVCC env h snap buf = (r, h', buf')"
  shows "(r \<longleftrightarrow> mvcc_visible env snap (t_data h)) \<and> hints_ok env (t_data h')"
proof -
  let ?x = "t_xmin (t_data h)"
  obtain h1 buf1 where set: "SetHintBits env h buf HEAP_XMIN_COMMITTED ?x = (h1, buf1)"
    by (cases "SetHintBits env h buf HEAP_XMIN_COMMITTED ?x")
  have "xact_committed env ?x"
    using snap xmin by (simp add: xact_committed_def snapshot_ok_def)
  then have ok1: "hints_ok env (t_data h1)"
    using hints_ok_xmin_committed [OF hints, of buf ?x] set by simp
  have same: "deleter env (t_data h1) = deleter env (t_data h)"
    "GetCmax env (t_data h1) = GetCmax env (t_data h)"
    by (rule SetHintBits_cases [of env h buf HEAP_XMIN_COMMITTED ?x]; use set in auto)+
  have "HeapTupleSatisfiesMVCC_xmax env h1 snap buf1 = (r, h', buf')"
    using run moved nohint xmin set by (simp add: mvcc_unfold)
  from mvcc_xmax_correct [OF ok1 snap this, unfolded same] show ?thesis
    using nohint xmin by (simp add: mvcc_visible_def effect_in_def flag_simps)
qed

lemma mvcc_found_aborted:
  assumes hints: "hints_ok env (t_data h)" and snap: "snapshot_ok env snap"
    and moved: "\<not> heap_moved (t_data h)"
    and nohint: "\<not> HeapTupleHeaderXminCommitted (t_data h)" "\<not> HeapTupleHeaderXminInvalid (t_data h)"
    and xmin: "\<not> IsCurrent env (t_xmin (t_data h))" "\<not> InSnapshot env snap (t_xmin (t_data h))"
      "\<not> DidCommit env (t_xmin (t_data h))"
    and run: "HeapTupleSatisfiesMVCC env h snap buf = (r, h', buf')"
  shows "(r \<longleftrightarrow> mvcc_visible env snap (t_data h)) \<and> hints_ok env (t_data h')"
proof -
  have "xact_aborted env (t_xmin (t_data h))"
    using snap xmin by (simp add: xact_aborted_def snapshot_ok_def)
  from hints_ok_xmin_invalid [OF hints this nohint(1), of buf InvalidTransactionId]
  show ?thesis
    using run moved nohint xmin
    by (auto simp: mvcc_unfold mvcc_visible_def effect_in_def flag_simps)
qed

lemma mvcc_correct:
  assumes hints: "hints_ok env (t_data h)" and own: "own_ok env (t_data h)"
    and snap: "snapshot_ok env snap" and moved: "\<not> heap_moved (t_data h)"
    and run: "HeapTupleSatisfiesMVCC env h snap buf = (r, h', buf')"
  shows "(r \<longleftrightarrow> mvcc_visible env snap (t_data h)) \<and> hints_ok env (t_data h')"
proof (cases "HeapTupleHeaderXminCommitted (t_data h)")
  case True
  then show ?thesis using mvcc_hinted_committed [OF hints snap _ run] by simp
next
  case nc: False
  let ?x = "t_xmin (t_data h)"
  have nf: "\<not> HeapTupleHeaderXminFrozen (t_data h)"
    using nc by (simp add: flag_simps)
  show ?thesis
  proof (cases "HeapTupleHeaderXminInvalid (t_data h)")
    case True
    with nc nf run hints show ?thesis
      by (auto simp: mvcc_unfold mvcc_visible_def effect_in_def hints_ok_def xact_aborted_def)
  next
    case ni: False
    consider "IsCurrent env ?x" | "\<not> IsCurrent env ?x" "InSnapshot env snap ?x"
      | "\<not> IsCurrent env ?x" "\<not> InSnapshot env snap ?x" by blast
    then show ?thesis
    proof cases
      case 1
      then have "HeapTupleSatisfiesMVCC_own env h snap buf = (r, h', buf')"
        using run moved nc ni by (simp add: mvcc_unfold)
      then show ?thesis using mvcc_own_correct [OF hints own nc 1] by simp
    next
      case 2
      with nf nc ni run moved hints show ?thesis
        by (auto simp: mvcc_unfold mvcc_visible_def effect_in_def)
    next
      case 3
      then show ?thesis
        using mvcc_found_committed [OF hints snap moved nc ni 3 _ run]
          mvcc_found_aborted [OF hints snap moved nc ni 3 _ run] by blast
    qed
  qed
qed

section \<open>Self and dirty\<close>

lemma self_xmax_correct:
  assumes "hints_ok env (t_data h)"
    and "HeapTupleSatisfiesSelf_xmax env h buf = (r, h', buf')"
  shows "(r \<longleftrightarrow> \<not> (case deleter env (t_data h) of None \<Rightarrow> False | Some x \<Rightarrow> effect_now env x)) \<and>
         hints_ok env (t_data h')"
proof -
  have h': "h' = fst (snd (HeapTupleSatisfiesSelf_xmax env h buf))"
    and r: "r = fst (HeapTupleSatisfiesSelf_xmax env h buf)"
    using assms(2) by simp_all
  note defs = HeapTupleSatisfiesSelf_xmax_def Let_def effect_now_def hints_ok_def raw_fields
    xact_aborted_def xact_committed_def
  have "hints_ok env (t_data h')"
    unfolding h' HeapTupleSatisfiesSelf_xmax_def Let_def
    using assms(1)
    by (auto intro!: hints_ok_set simp: deleter_def xact_aborted_def xact_committed_def raw_fields)
  moreover have "r \<longleftrightarrow> \<not> (case deleter env (t_data h) of None \<Rightarrow> False | Some x \<Rightarrow> effect_now env x)"
    by (cases rule: deleter_cases [of "t_data h" env]) (use assms(1) in \<open>simp_all add: r defs\<close>)
  ultimately show ?thesis by simp
qed

lemmas self_unfold = HeapTupleSatisfiesSelf_def Let_def HeapTupleHeaderGetRawXmin_def

lemma self_own_correct:
  assumes hints: "hints_ok env (t_data h)" and own: "own_ok env (t_data h)"
    and moved: "\<not> heap_moved (t_data h)"
    and nohint: "\<not> HeapTupleHeaderXminCommitted (t_data h)" "\<not> HeapTupleHeaderXminInvalid (t_data h)"
    and cur: "IsCurrent env (t_xmin (t_data h))"
    and run: "HeapTupleSatisfiesSelf env h buf = (r, h', buf')"
  shows "(r \<longleftrightarrow> self_visible env (t_data h)) \<and> hints_ok env (t_data h')"
proof -
  have h': "h' = fst (snd (HeapTupleSatisfiesSelf env h buf))"
    and r: "r = fst (HeapTupleSatisfiesSelf env h buf)"
    using run by simp_all
  have nf: "\<not> HeapTupleHeaderXminFrozen (t_data h)"
    using nohint(1) by (simp add: flag_simps)
  have "hints_ok env (t_data h')"
    unfolding h' self_unfold
    using hints own cur nf nohint moved
    by (auto intro!: hints_ok_set simp: deleter_def own_ok_def raw_fields)
  moreover have "r \<longleftrightarrow> self_visible env (t_data h)"
    by (cases rule: deleter_cases [of "t_data h" env])
      (use hints own cur nf nohint moved in \<open>auto simp: r self_unfold raw_fields self_visible_def
         effect_now_def own_ok_def hints_ok_def xact_aborted_def xact_committed_def\<close>)
  ultimately show ?thesis by simp
qed

lemma self_committed:
  assumes hints: "hints_ok env (t_data h)" and moved: "\<not> heap_moved (t_data h)"
    and nohint: "\<not> HeapTupleHeaderXminCommitted (t_data h)" "\<not> HeapTupleHeaderXminInvalid (t_data h)"
    and xmin: "xact_committed env (t_xmin (t_data h))"
    and run: "HeapTupleSatisfiesSelf env h buf = (r, h', buf')"
  shows "(r \<longleftrightarrow> self_visible env (t_data h)) \<and> hints_ok env (t_data h')"
proof -
  let ?x = "t_xmin (t_data h)"
  obtain h1 buf1 where set: "SetHintBits env h buf HEAP_XMIN_COMMITTED ?x = (h1, buf1)"
    by (cases "SetHintBits env h buf HEAP_XMIN_COMMITTED ?x")
  have ok1: "hints_ok env (t_data h1)"
    using hints_ok_xmin_committed [OF hints xmin, of buf ?x] set by simp
  have same: "deleter env (t_data h1) = deleter env (t_data h)"
    by (rule SetHintBits_cases [of env h buf HEAP_XMIN_COMMITTED ?x]; use set in auto)
  have "HeapTupleSatisfiesSelf_xmax env h1 buf1 = (r, h', buf')"
    using run moved nohint xmin set by (simp add: self_unfold xact_committed_def)
  from self_xmax_correct [OF ok1 this, unfolded same] show ?thesis
    using xmin by (simp add: self_visible_def effect_now_def)
qed

lemma self_correct:
  assumes hints: "hints_ok env (t_data h)" and own: "own_ok env (t_data h)"
    and moved: "\<not> heap_moved (t_data h)"
    and run: "HeapTupleSatisfiesSelf env h buf = (r, h', buf')"
  shows "(r \<longleftrightarrow> self_visible env (t_data h)) \<and> hints_ok env (t_data h')"
proof (cases "HeapTupleHeaderXminCommitted (t_data h)")
  case True
  then have "HeapTupleSatisfiesSelf_xmax env h buf = (r, h', buf')"
    using run by (simp add: self_unfold)
  from self_xmax_correct [OF hints this] True hints show ?thesis
    by (auto simp: self_visible_def effect_now_def hints_ok_def)
next
  case nc: False
  let ?x = "t_xmin (t_data h)"
  have nf: "\<not> HeapTupleHeaderXminFrozen (t_data h)"
    using nc by (simp add: flag_simps)
  show ?thesis
  proof (cases "HeapTupleHeaderXminInvalid (t_data h)")
    case True
    with nc nf run hints show ?thesis
      by (auto simp: self_unfold self_visible_def effect_now_def hints_ok_def xact_aborted_def
          xact_committed_def)
  next
    case ni: False
    consider "IsCurrent env ?x" | "\<not> IsCurrent env ?x" "InProgress env ?x"
      | "xact_committed env ?x" | "xact_aborted env ?x"
      by (auto simp: xact_committed_def xact_aborted_def)
    then show ?thesis
    proof cases
      case 1
      then show ?thesis using self_own_correct [OF hints own moved nc ni _ run] by simp
    next
      case 2
      with nf nc ni run moved hints show ?thesis
        by (auto simp: self_unfold self_visible_def effect_now_def xact_committed_def)
    next
      case 3
      then show ?thesis using self_committed [OF hints moved nc ni _ run] by simp
    next
      case 4
      from hints_ok_xmin_invalid [OF hints 4 nc, of buf InvalidTransactionId] nf nc ni run moved 4
      show ?thesis
        by (auto simp: self_unfold self_visible_def effect_now_def xact_committed_def xact_aborted_def)
    qed
  qed
qed

text \<open>The ids that no transaction ever has.\<close>

definition invalid_ok :: "xact_env \<Rightarrow> bool" where
  "invalid_ok env \<longleftrightarrow> \<not> IsCurrent env InvalidTransactionId \<and> \<not> InProgress env InvalidTransactionId \<and>
     \<not> DidCommit env InvalidTransactionId"

text \<open>What the dirty test reports in its snapshot: the id of another running transaction that inserted the tuple, with the
  token of a speculative insertion; else, if the insertion counts, that of another running transaction which deletes it.\<close>

definition xact_running :: "xact_env \<Rightarrow> TransactionId \<Rightarrow> bool" where
  "xact_running env x \<longleftrightarrow> \<not> IsCurrent env x \<and> InProgress env x"

definition inserter_running :: "xact_env \<Rightarrow> HeapTupleHeaderData \<Rightarrow> bool" where
  "inserter_running env tup \<longleftrightarrow> \<not> HeapTupleHeaderXminFrozen tup \<and> xact_running env (t_xmin tup)"

definition running_deleter :: "xact_env \<Rightarrow> HeapTupleHeaderData \<Rightarrow> TransactionId" where
  "running_deleter env tup =
     (case deleter env tup of Some x \<Rightarrow> if xact_running env x then x else InvalidTransactionId | None \<Rightarrow> InvalidTransactionId)"

definition dirty_report :: "xact_env \<Rightarrow> HeapTupleHeaderData \<Rightarrow> SnapshotData \<Rightarrow> SnapshotData" where
  "dirty_report env tup snap =
     (if inserter_running env tup then
        snap\<lparr>snap_xmin := t_xmin tup, snap_xmax := InvalidTransactionId,
             speculativeToken := if HeapTupleHeaderIsSpeculative tup then HeapTupleHeaderGetSpeculativeToken tup else 0\<rparr>
      else snap\<lparr>snap_xmin := InvalidTransactionId, speculativeToken := 0,
             snap_xmax := if HeapTupleHeaderXminFrozen tup \<or> effect_now env (t_xmin tup) then running_deleter env tup
                          else InvalidTransactionId\<rparr>)"

text \<open>Past the inserter, the dirty test is the self test that also reports a running deleter.\<close>

lemma dirty_xmax_self:
  assumes "hints_ok env (t_data h)" "snap_xmax snap = InvalidTransactionId"
    and "HeapTupleSatisfiesDirty_xmax env h snap buf = ((r, snap'), st)"
  shows "HeapTupleSatisfiesSelf_xmax env h buf = (r, st)" "snap' = snap\<lparr>snap_xmax := running_deleter env (t_data h)\<rparr>"
proof -
  have same: "snap\<lparr>snap_xmax := InvalidTransactionId\<rparr> = snap" using assms(2) by (cases snap) simp
  have "HeapTupleSatisfiesSelf_xmax env h buf = (r, st) \<and> snap' = snap\<lparr>snap_xmax := running_deleter env (t_data h)\<rparr>"
  proof (cases rule: deleter_cases [of "t_data h" env])
    case locked
    then show ?thesis using assms(3) same
      by (simp add: HeapTupleSatisfiesDirty_xmax_def HeapTupleSatisfiesSelf_xmax_def running_deleter_def Let_def split: if_splits)
  next
    case multi
    then show ?thesis using assms(1,3) same
      by (auto simp: HeapTupleSatisfiesDirty_xmax_def HeapTupleSatisfiesSelf_xmax_def running_deleter_def xact_running_def
          hints_ok_def xact_aborted_def Let_def split: if_splits)
  next
    case plain
    then show ?thesis using assms(1,3) same
      by (auto simp: HeapTupleSatisfiesDirty_xmax_def HeapTupleSatisfiesSelf_xmax_def running_deleter_def xact_running_def
          hints_ok_def xact_aborted_def xact_committed_def Let_def raw_fields split: if_splits)
  qed
  then show "HeapTupleSatisfiesSelf_xmax env h buf = (r, st)" "snap' = snap\<lparr>snap_xmax := running_deleter env (t_data h)\<rparr>" by simp_all
qed

lemma deleter_xmin_hint:
  "SetHintBits env h buf HEAP_XMIN_COMMITTED x = (h1, buf1) \<Longrightarrow>
   deleter env (t_data h1) = deleter env (t_data h)"
  by (rule SetHintBits_cases [of env h buf HEAP_XMIN_COMMITTED x]) auto

definition dirty_init :: "SnapshotData \<Rightarrow> SnapshotData" where
  "dirty_init snap = snap\<lparr>snap_xmin := InvalidTransactionId, snap_xmax := InvalidTransactionId,
                          speculativeToken := 0\<rparr>"

lemma dirty_init_sel [simp]:
  "snap_xmin (dirty_init s) = InvalidTransactionId" "snap_xmax (dirty_init s) = InvalidTransactionId"
  by (simp_all add: dirty_init_def)

lemma dirty_report_simps:
  "\<not> inserter_running env tup \<Longrightarrow> \<not> HeapTupleHeaderXminFrozen tup \<Longrightarrow> \<not> effect_now env (t_xmin tup) \<Longrightarrow> dirty_report env tup snap = dirty_init snap"
  "\<not> inserter_running env tup \<Longrightarrow> running_deleter env tup = InvalidTransactionId \<Longrightarrow> dirty_report env tup snap = dirty_init snap"
  "\<not> inserter_running env tup \<Longrightarrow> HeapTupleHeaderXminFrozen tup \<or> effect_now env (t_xmin tup) \<Longrightarrow>
    dirty_report env tup snap = (dirty_init snap)\<lparr>snap_xmax := running_deleter env tup\<rparr>"
  by (auto simp: dirty_report_def dirty_init_def)

text \<open>The four ways through the test.\<close>

lemma dirty_past:
  assumes "hints_ok env (t_data h1)" "deleter env (t_data h1) = deleter env (t_data h)"
    and "HeapTupleSatisfiesDirty_xmax env h1 (dirty_init snap) buf1 = ((r, snap'), st)"
      "HeapTupleSatisfiesSelf_xmax env h1 buf1 = (r0, st0)"
    and "\<not> inserter_running env (t_data h)" "HeapTupleHeaderXminFrozen (t_data h) \<or> effect_now env (t_xmin (t_data h))"
  shows "st = st0 \<and> (r \<longleftrightarrow> r0 \<or> inserter_running env (t_data h)) \<and> snap' = dirty_report env (t_data h) snap"
proof -
  have "running_deleter env (t_data h1) = running_deleter env (t_data h)" using assms(2) by (simp add: running_deleter_def)
  then show ?thesis
    using dirty_xmax_self [OF assms(1) _ assms(3)] assms(4-6) dirty_report_simps(3) [OF assms(5,6), of snap] by simp
qed

lemma dirty_own:
  assumes "own_ok env (t_data h)" "\<not> heap_moved (t_data h)" "IsCurrent env (t_xmin (t_data h))"
    and nohint: "\<not> HeapTupleHeaderXminCommitted (t_data h)" "\<not> HeapTupleHeaderXminInvalid (t_data h)"
    and "HeapTupleSatisfiesDirty env h snap buf = ((r, snap'), st)" "HeapTupleSatisfiesSelf env h buf = (r0, st0)"
  shows "st = st0 \<and> (r \<longleftrightarrow> r0 \<or> inserter_running env (t_data h)) \<and> snap' = dirty_report env (t_data h) snap"
proof -
  have nf: "\<not> HeapTupleHeaderXminFrozen (t_data h)" using nohint(1) by (simp add: flag_simps)
  have "running_deleter env (t_data h) = InvalidTransactionId"
    using assms(1,3) nf by (auto simp: own_ok_def running_deleter_def xact_running_def xact_aborted_def split: option.splits)
  moreover have ins: "\<not> inserter_running env (t_data h)" using assms(3) by (simp add: inserter_running_def xact_running_def)
  ultimately have "dirty_report env (t_data h) snap = dirty_init snap" using dirty_report_simps(2) by blast
  then show ?thesis
    using assms(2,3,6,7) nohint ins by (auto simp: HeapTupleSatisfiesDirty_def self_unfold dirty_init_def [symmetric] split: if_splits)
qed

lemma dirty_self:
  assumes hints: "hints_ok env (t_data h)" and own: "own_ok env (t_data h)" and moved: "\<not> heap_moved (t_data h)"
    and run: "HeapTupleSatisfiesDirty env h snap buf = ((r, snap'), st)"
    and self: "HeapTupleSatisfiesSelf env h buf = (r0, st0)"
  shows "st = st0 \<and> (r \<longleftrightarrow> r0 \<or> inserter_running env (t_data h)) \<and> snap' = dirty_report env (t_data h) snap"
proof (cases "HeapTupleHeaderXminCommitted (t_data h)")
  case True
  then have ins: "\<not> inserter_running env (t_data h)" "HeapTupleHeaderXminFrozen (t_data h) \<or> effect_now env (t_xmin (t_data h))"
    using hints by (auto simp: hints_ok_def inserter_running_def xact_running_def xact_committed_def effect_now_def)
  have "HeapTupleSatisfiesDirty_xmax env h (dirty_init snap) buf = ((r, snap'), st)" "HeapTupleSatisfiesSelf_xmax env h buf = (r0, st0)"
    using True run self by (simp_all add: HeapTupleSatisfiesDirty_def self_unfold dirty_init_def)
  then show ?thesis by (rule dirty_past [OF hints refl _ _ ins])
next
  case nc: False
  let ?x = "t_xmin (t_data h)"
  have nf: "\<not> HeapTupleHeaderXminFrozen (t_data h)" using nc by (simp add: flag_simps)
  note unfold = HeapTupleSatisfiesDirty_def self_unfold dirty_init_def [symmetric]
  consider (own) "\<not> HeapTupleHeaderXminInvalid (t_data h)" "IsCurrent env ?x"
    | (running) "\<not> HeapTupleHeaderXminInvalid (t_data h)" "xact_running env ?x"
    | (com) "\<not> HeapTupleHeaderXminInvalid (t_data h)" "xact_committed env ?x"
    | (aborted) "xact_aborted env ?x"
    using hints by (auto simp: hints_ok_def xact_running_def xact_committed_def xact_aborted_def)
  then show ?thesis
  proof cases
    case own
    then show ?thesis using dirty_own [OF \<open>own_ok env (t_data h)\<close> moved own(2) nc own(1) run self] by simp
  next
    case running
    then have ins: "inserter_running env (t_data h)" using nf by (simp add: inserter_running_def)
    show ?thesis
      using running ins nc moved run self by (auto simp: HeapTupleSatisfiesDirty_def self_unfold xact_running_def dirty_report_def split: if_splits)
  next
    case com
    then have ins: "\<not> inserter_running env (t_data h)" "HeapTupleHeaderXminFrozen (t_data h) \<or> effect_now env ?x"
      by (auto simp: inserter_running_def xact_running_def xact_committed_def effect_now_def)
    obtain h1 buf1 where set: "SetHintBits env h buf HEAP_XMIN_COMMITTED ?x = (h1, buf1)"
      by (cases "SetHintBits env h buf HEAP_XMIN_COMMITTED ?x")
    have ok1: "hints_ok env (t_data h1)" using hints_ok_xmin_committed [OF hints com(2), of buf ?x] set by simp
    have "HeapTupleSatisfiesDirty_xmax env h1 (dirty_init snap) buf1 = ((r, snap'), st)" "HeapTupleSatisfiesSelf_xmax env h1 buf1 = (r0, st0)"
      using com nc moved run self set by (simp_all add: unfold xact_committed_def)
    then show ?thesis by (rule dirty_past [OF ok1 deleter_xmin_hint [OF set] _ _ ins])
  next
    case aborted
    then have "\<not> inserter_running env (t_data h)" "\<not> effect_now env ?x"
      by (auto simp: inserter_running_def xact_running_def xact_aborted_def effect_now_def xact_committed_def)
    then show ?thesis
      using dirty_report_simps(1) [OF _ nf, of env snap] aborted nc moved run self
      by (auto simp: unfold xact_aborted_def split: if_splits)
  qed
qed

end
