(* ===== verification/Vacuum_Props.thy ===== *)
theory Vacuum_Props
  imports Visibility_Props
begin

text \<open>
  The vacuum test and the update test. Vacuum may only remove a tuple that no snapshot can still
  see: a \<open>HEAPTUPLE_DEAD\<close> verdict of one backend excludes visibility in any other backend
  whose snapshot is not older than the horizon. The update test's verdicts are characterised by the
  state of the inserting and deleting transactions.
\<close>

section \<open>Vacuum\<close>

text \<open>What two backends share: the commit log and the multixact store; and the xids of a running
  backend are in progress for everybody else.\<close>

definition shared_state :: "xact_env \<Rightarrow> xact_env \<Rightarrow> bool" where
  "shared_state env env' \<longleftrightarrow>
     DidCommit env' = DidCommit env \<and> MultiMembers env' = MultiMembers env \<and>
     (\<forall>x. IsCurrent env' x \<longrightarrow> InProgress env x)"

text \<open>The horizon is not ahead of the snapshot, and the wraparound guarantee holds for the tuple's
  deleter: an id older than the horizon is less than \<open>2^31\<close> ids away from it and from the snapshot.\<close>

definition below_horizon :: "xact_env \<Rightarrow> TransactionId \<Rightarrow> SnapshotData \<Rightarrow> HeapTupleHeaderData \<Rightarrow> bool" where
  "below_horizon env OldestXmin snap tup \<longleftrightarrow>
     TransactionIdIsNormal OldestXmin \<and> TransactionIdIsNormal (snap_xmin snap) \<and>
     TransactionIdPrecedesOrEquals OldestXmin (snap_xmin snap) \<and>
     (\<forall>x. deleter env tup = Some x \<and> TransactionIdPrecedes x OldestXmin \<longrightarrow>
          uint (OldestXmin - x) < 2 ^ 31 \<and> uint (snap_xmin snap - x) < 2 ^ 31)"

lemma below_horizon_precedes:
  assumes "below_horizon env OldestXmin snap tup" "deleter env tup = Some x"
    and "TransactionIdPrecedes x OldestXmin"
  shows "TransactionIdPrecedes x (snap_xmin snap)"
proof (cases "TransactionIdIsNormal x")
  case True
  have win: "uint (OldestXmin - x) < 2147483648" "uint (snap_xmin snap - x) < 2147483648"
    using assms by (auto simp: below_horizon_def)
  have norm: "TransactionIdIsNormal OldestXmin" "TransactionIdIsNormal (snap_xmin snap)"
    using assms(1) by (auto simp: below_horizon_def)
  have "OldestXmin = snap_xmin snap \<or> TransactionIdPrecedes OldestXmin (snap_xmin snap)"
    using assms(1) by (auto simp: below_horizon_def precedes_or_equals_iff)
  then show ?thesis
    using precedes_trans_window [OF assms(3) _ True norm win] assms(3) by auto
next
  case False
  then show ?thesis
    using assms(1) by (auto simp: below_horizon_def TransactionIdPrecedes_def normal_iff not_le)
qed

lemma shared_deleter: "shared_state env env' \<Longrightarrow> deleter env' tup = deleter env tup"
  by (simp add: shared_state_def deleter_def HeapTupleGetUpdateXid_def MultiXactIdGetUpdateXid_def)

text \<open>A verdict DEAD has one of two reasons.\<close>

definition dead_reason :: "xact_env \<Rightarrow> TransactionId \<Rightarrow> HeapTupleHeaderData \<Rightarrow> bool" where
  "dead_reason env OldestXmin tup \<longleftrightarrow>
     (\<not> HeapTupleHeaderXminFrozen tup \<and> \<not> InProgress env (t_xmin tup) \<and> \<not> DidCommit env (t_xmin tup)) \<or>
     (\<exists>x. deleter env tup = Some x \<and> \<not> InProgress env x \<and> DidCommit env x \<and>
          TransactionIdPrecedes x OldestXmin)"

lemma vacuum_xmax_dead:
  assumes "hints_ok env (t_data h)"
    and "HeapTupleSatisfiesVacuum_xmax env h OldestXmin buf = (HEAPTUPLE_DEAD, st)"
  shows "\<exists>x. deleter env (t_data h) = Some x \<and> \<not> InProgress env x \<and> DidCommit env x \<and>
             TransactionIdPrecedes x OldestXmin"
proof (cases rule: deleter_cases [of "t_data h" env])
  case locked
  then show ?thesis using assms by (simp add: HeapTupleSatisfiesVacuum_xmax_def Let_def split: if_splits)
next
  case multi
  then show ?thesis using assms
    by (simp add: HeapTupleSatisfiesVacuum_xmax_def Let_def split: if_splits)
next
  case plain
  then show ?thesis using assms
    by (auto simp: HeapTupleSatisfiesVacuum_xmax_def Let_def raw_fields hints_ok_def xact_committed_def
        split: if_splits)
qed

lemma vacuum_xmin_phase:
  assumes hints: "hints_ok env (t_data h)" and moved: "\<not> heap_moved (t_data h)"
    and run: "HeapTupleSatisfiesVacuum_xmin env h buf = (v, h1, buf1)"
  shows "(v = Some HEAPTUPLE_DEAD \<longrightarrow>
            \<not> HeapTupleHeaderXminFrozen (t_data h) \<and> xact_aborted env (t_xmin (t_data h))) \<and>
         (v = None \<longrightarrow> hints_ok env (t_data h1) \<and> deleter env (t_data h1) = deleter env (t_data h))"
proof (cases "HeapTupleHeaderXminCommitted (t_data h)")
  case True
  then show ?thesis using run hints by (auto simp: HeapTupleSatisfiesVacuum_xmin_def Let_def)
next
  case False
  let ?x = "t_xmin (t_data h)"
  have nf: "\<not> HeapTupleHeaderXminFrozen (t_data h)"
    using False by (simp add: flag_simps)
  have com: "hints_ok env (t_data h1) \<and> deleter env (t_data h1) = deleter env (t_data h)"
    if "SetHintBits env h buf HEAP_XMIN_COMMITTED ?x = (h1, buf1)" "xact_committed env ?x"
    using hints_ok_xmin_committed [OF hints that(2), of buf ?x] that(1) deleter_xmin_hint [OF that(1)]
    by simp
  show ?thesis
    using run False moved nf hints com
    by (auto simp: HeapTupleSatisfiesVacuum_xmin_def Let_def heap_moved_def raw_fields(1)
        hints_ok_def xact_aborted_def xact_committed_def split: if_splits)
qed

lemma vacuum_dead_reason:
  assumes "hints_ok env (t_data h)" "\<not> heap_moved (t_data h)"
    and run: "HeapTupleSatisfiesVacuum env h OldestXmin buf = (HEAPTUPLE_DEAD, st)"
  shows "dead_reason env OldestXmin (t_data h)"
proof -
  obtain v h1 buf1 where phase: "HeapTupleSatisfiesVacuum_xmin env h buf = (v, h1, buf1)"
    by (cases "HeapTupleSatisfiesVacuum_xmin env h buf")
  note one = vacuum_xmin_phase [OF assms(1,2) phase]
  show ?thesis
  proof (cases v)
    case None
    then have "HeapTupleSatisfiesVacuum_xmax env h1 OldestXmin buf1 = (HEAPTUPLE_DEAD, st)"
      using run phase by (simp add: HeapTupleSatisfiesVacuum_def)
    with vacuum_xmax_dead one None show ?thesis
      unfolding dead_reason_def by metis
  next
    case (Some a)
    then show ?thesis
      using run phase one by (auto simp: HeapTupleSatisfiesVacuum_def dead_reason_def xact_aborted_def)
  qed
qed

lemma dead_invisible:
  assumes "dead_reason env OldestXmin tup" "shared_state env env'" "below_horizon env OldestXmin snap tup"
  shows "\<not> mvcc_visible env' snap tup"
proof -
  have cur: "\<not> IsCurrent env' x" if "\<not> InProgress env x" for x
    using assms(2) that by (auto simp: shared_state_def)
  have com: "DidCommit env' = DidCommit env"
    using assms(2) by (simp add: shared_state_def)
  from assms(1) show ?thesis
    unfolding dead_reason_def
  proof
    assume "\<not> HeapTupleHeaderXminFrozen tup \<and> \<not> InProgress env (t_xmin tup) \<and> \<not> DidCommit env (t_xmin tup)"
    with cur com show ?thesis by (simp add: mvcc_visible_def effect_in_def)
  next
    assume "\<exists>x. deleter env tup = Some x \<and> \<not> InProgress env x \<and> DidCommit env x \<and>
          TransactionIdPrecedes x OldestXmin"
    then obtain x where x: "deleter env' tup = Some x" "\<not> IsCurrent env' x" "DidCommit env' x"
        "TransactionIdPrecedes x (snap_xmin snap)"
      using cur com below_horizon_precedes [OF assms(3)] shared_deleter [OF assms(2)] by auto
    then have "\<not> InSnapshot env' snap x"
      by (simp add: in_snapshot_below_xmin)
    with x show ?thesis
      by (simp add: mvcc_visible_def effect_in_def)
  qed
qed

lemma surely_dead_vacuum:
  "HeapTupleIsSurelyDead h OldestXmin \<Longrightarrow> HeapTupleSatisfiesVacuum env h OldestXmin buf = (HEAPTUPLE_DEAD, h, buf)"
  by (auto simp: HeapTupleIsSurelyDead_def HeapTupleSatisfiesVacuum_def HeapTupleSatisfiesVacuum_xmin_def
      HeapTupleSatisfiesVacuum_xmax_def Let_def split: if_splits)

section \<open>Update\<close>

text \<open>No member of a multixact that is not running is running; in particular not its updater.\<close>

lemma multi_not_running:
  assumes "\<not> MultiXactIdIsRunning env (t_xmax tup) False" "invalid_ok env"
  shows "\<not> IsCurrent env (HeapTupleGetUpdateXid env tup) \<and> \<not> InProgress env (HeapTupleGetUpdateXid env tup)"
proof (cases "List.find (\<lambda>m. ISUPDATE_from_mxstatus (mxm_status m)) (MultiMembers env (t_xmax tup) False)")
  case None
  then show ?thesis
    using assms(2) by (simp add: HeapTupleGetUpdateXid_def MultiXactIdGetUpdateXid_def raw_fields invalid_ok_def)
next
  case (Some m)
  then have "m \<in> set (MultiMembers env (t_xmax tup) False)"
    by (auto simp: find_Some_iff)
  then show ?thesis
    using assms(1) Some
    by (auto simp: HeapTupleGetUpdateXid_def MultiXactIdGetUpdateXid_def raw_fields
        MultiXactIdIsRunning_def Let_def list_ex_iff split: if_splits)
qed

text \<open>What the verdict has to be, for the command \<open>cid\<close>. First, does the insertion count for that command?\<close>

definition inserted_before :: "xact_env \<Rightarrow> CommandId \<Rightarrow> HeapTupleHeaderData \<Rightarrow> bool" where
  "inserted_before env cid tup \<longleftrightarrow>
     HeapTupleHeaderXminFrozen tup \<or>
     (if IsCurrent env (t_xmin tup) then GetCmin env tup < cid else xact_committed env (t_xmin tup))"

text \<open>A newer version exists if the tuple's link leads elsewhere, or if the row went to another partition.\<close>

definition moved_on :: "HeapTupleData \<Rightarrow> bool" where
  "moved_on h \<longleftrightarrow> t_ctid (t_data h) \<noteq> t_self h \<or> t_ctid (t_data h) = \<lparr>ip_blkid = 0xFFFFFFFF, ip_posid = 0xFFFD\<rparr>"

text \<open>Another member of the tuple's multixact runs; a locker that no hint bit rules out runs; some holder of xmax runs.\<close>

definition multi_running :: "xact_env \<Rightarrow> HeapTupleHeaderData \<Rightarrow> bool" where
  "multi_running env tup \<longleftrightarrow> flag (t_infomask tup) HEAP_XMAX_IS_MULTI \<and> \<not> flag (t_infomask tup) HEAP_XMAX_INVALID
     \<and> MultiXactIdIsRunning env (t_xmax tup) False"

definition locker_running :: "xact_env \<Rightarrow> HeapTupleHeaderData \<Rightarrow> bool" where
  "locker_running env tup \<longleftrightarrow> \<not> flag (t_infomask tup) HEAP_XMAX_INVALID \<and> \<not> flag (t_infomask tup) HEAP_XMAX_COMMITTED \<and>
     (if flag (t_infomask tup) HEAP_XMAX_IS_MULTI
      then \<not> HEAP_LOCKED_UPGRADED (t_infomask tup) \<and> MultiXactIdIsRunning env (t_xmax tup) True
      else InProgress env (t_xmax tup))"

definition xmax_held :: "xact_env \<Rightarrow> HeapTupleHeaderData \<Rightarrow> bool" where
  "xmax_held env tup \<longleftrightarrow>
     (if flag (t_infomask tup) HEAP_XMAX_IS_MULTI then MultiXactIdIsRunning env (t_xmax tup) True
      else IsCurrent env (t_xmax tup) \<or> InProgress env (t_xmax tup))"

definition update_verdict :: "xact_env \<Rightarrow> CommandId \<Rightarrow> HeapTupleData \<Rightarrow> TM_Result \<Rightarrow> bool" where
  "update_verdict env cid h v =
     (if \<not> inserted_before env cid (t_data h) then v = TM_Invisible
      else case deleter env (t_data h) of
          None \<Rightarrow> (v = TM_Ok \<and> \<not> locker_running env (t_data h)) \<or> (v = TM_BeingModified \<and> xmax_held env (t_data h))
        | Some x \<Rightarrow>
            if IsCurrent env x then v = (if cid \<le> GetCmax env (t_data h) then TM_SelfModified else TM_Invisible)
            else if InProgress env x \<or> multi_running env (t_data h) then v = TM_BeingModified
            else if DidCommit env x then v = (if moved_on h then TM_Updated else TM_Deleted)
            else v = TM_Ok)"

lemma updated_or_deleted_iff: "updated_or_deleted h = (if moved_on h then TM_Updated else TM_Deleted)"
  by (auto simp: updated_or_deleted_def moved_on_def ItemPointerEquals_def HeapTupleHeaderIndicatesMovedPartitions_def
      MovedPartitionsOffsetNumber_def InvalidBlockNumber_def)

lemmas verdict_defs = update_verdict_def updated_or_deleted_iff locker_running_def xmax_held_def multi_running_def

lemma update_own_verdict:
  assumes "hints_ok env (t_data h)" "own_ok env (t_data h)"
    and cur: "IsCurrent env (t_xmin (t_data h))" "\<not> HeapTupleHeaderXminFrozen (t_data h)"
    and "HeapTupleSatisfiesUpdate_own env h cid buf = (v, st)"
  shows "update_verdict env cid h v"
proof -
  have ins: "inserted_before env cid (t_data h) \<longleftrightarrow> \<not> cid \<le> GetCmin env (t_data h)"
    using cur by (simp add: inserted_before_def not_le)
  show ?thesis
  proof (cases rule: deleter_cases [of "t_data h" env])
    case locked
    then show ?thesis using assms(5)
      by (auto simp: HeapTupleSatisfiesUpdate_own_def Let_def verdict_defs ins raw_fields split: if_splits)
  next
    case multi
    then show ?thesis using assms(1,2,5) cur
      by (auto simp: HeapTupleSatisfiesUpdate_own_def Let_def verdict_defs ins raw_fields(2) own_ok_def hints_ok_def
          xact_aborted_def split: if_splits)
  next
    case plain
    then show ?thesis using assms(1,2,5) cur
      by (auto simp: HeapTupleSatisfiesUpdate_own_def Let_def verdict_defs ins raw_fields own_ok_def hints_ok_def
          xact_aborted_def split: if_splits)
  qed
qed

lemma update_multi_verdict:
  assumes "invalid_ok env" "flag (t_infomask (t_data h)) HEAP_XMAX_IS_MULTI" "\<not> flag (t_infomask (t_data h)) HEAP_XMAX_INVALID"
    and ins: "inserted_before env cid (t_data h)"
    and "HeapTupleSatisfiesUpdate_multi env h cid buf = (v, st)"
  shows "update_verdict env cid h v"
proof (cases "HEAP_XMAX_IS_LOCKED_ONLY (t_infomask (t_data h))")
  case True
  then have "deleter env (t_data h) = None" by (simp add: deleter_def)
  with True assms show ?thesis
    by (auto simp: HeapTupleSatisfiesUpdate_multi_def Let_def verdict_defs raw_fields split: if_splits)
next
  case False
  let ?u = "HeapTupleGetUpdateXid env (t_data h)"
  have del: "deleter env (t_data h) = Some ?u"
    using False assms(2) by (simp add: deleter_def)
  have up: "\<not> HEAP_LOCKED_UPGRADED (t_infomask (t_data h))"
    using False by (auto simp: flag_simps)
  have inv: "\<not> TransactionIdIsValid ?u \<Longrightarrow> \<not> IsCurrent env ?u \<and> \<not> InProgress env ?u"
    using assms(1) by (auto simp: invalid_ok_def TransactionIdIsValid_def)
  note nr = multi_not_running [OF _ assms(1), of "t_data h"]
  show ?thesis
    using False up assms(2,3,5) ins nr inv
    by (auto simp: HeapTupleSatisfiesUpdate_multi_def Let_def verdict_defs del raw_fields(2) split: if_splits)
qed

lemma update_xmax_verdict:
  assumes hints: "hints_ok env (t_data h)" and inv: "invalid_ok env"
    and ins: "inserted_before env cid (t_data h)"
    and run: "HeapTupleSatisfiesUpdate_xmax env h cid buf = (v, st)"
  shows "update_verdict env cid h v"
proof (cases rule: deleter_cases [of "t_data h" env])
  case locked
  then show ?thesis
    using update_multi_verdict [OF inv _ _ ins, of buf v st] run ins
    by (cases "flag (t_infomask (t_data h)) HEAP_XMAX_IS_MULTI")
      (auto simp: HeapTupleSatisfiesUpdate_xmax_def Let_def verdict_defs raw_fields split: if_splits)
next
  case multi
  then show ?thesis
    using update_multi_verdict [OF inv _ _ ins, of buf v st] run ins hints
    by (cases "flag (t_infomask (t_data h)) HEAP_XMAX_INVALID")
      (auto simp: HeapTupleSatisfiesUpdate_xmax_def Let_def verdict_defs hints_ok_def xact_aborted_def split: if_splits)
next
  case plain
  then show ?thesis
    using run ins hints
    by (auto simp: HeapTupleSatisfiesUpdate_xmax_def Let_def verdict_defs raw_fields
        hints_ok_def xact_committed_def xact_aborted_def split: if_splits)
qed

text \<open>Setting the xmin hint leaves every verdict's meaning alone.\<close>

lemma update_verdict_xmin_hint:
  assumes "SetHintBits env h buf HEAP_XMIN_COMMITTED x = (h1, buf1)"
    "\<not> HeapTupleHeaderXminInvalid (t_data h)" "\<not> HeapTupleHeaderXminCommitted (t_data h)"
  shows "update_verdict env cid h1 v \<longleftrightarrow> update_verdict env cid h v"
proof (cases rule: SetHintBits_cases [of env h buf HEAP_XMIN_COMMITTED x])
  case 1
  then show ?thesis using assms by simp
next
  case 2
  then have h1: "h1 = or_infomask h HEAP_XMIN_COMMITTED" using assms by simp
  have "HeapTupleHeaderXminFrozen (t_data h1) = HeapTupleHeaderXminFrozen (t_data h)"
    unfolding h1 using assms(2,3) by (simp add: flag_simps)
  then have ins: "inserted_before env cid (t_data h1) = inserted_before env cid (t_data h)"
    by (simp add: inserted_before_def h1)
  have "deleter env (t_data h1) = deleter env (t_data h)" "moved_on h1 = moved_on h"
      "multi_running env (t_data h1) = multi_running env (t_data h)" "locker_running env (t_data h1) = locker_running env (t_data h)"
      "xmax_held env (t_data h1) = xmax_held env (t_data h)" "GetCmax env (t_data h1) = GetCmax env (t_data h)"
    by (simp_all add: h1 moved_on_def multi_running_def locker_running_def xmax_held_def flag_simps)
  then show ?thesis by (simp only: update_verdict_def ins)
qed

lemma update_correct:
  assumes hints: "hints_ok env (t_data h)" and own: "own_ok env (t_data h)"
    and inv: "invalid_ok env" and moved: "\<not> heap_moved (t_data h)"
    and run: "HeapTupleSatisfiesUpdate env h cid buf = (v, st)"
  shows "update_verdict env cid h v"
proof (cases "HeapTupleHeaderXminCommitted (t_data h)")
  case True
  then have "HeapTupleSatisfiesUpdate_xmax env h cid buf = (v, st)"
    using run by (simp add: HeapTupleSatisfiesUpdate_def Let_def)
  moreover have "inserted_before env cid (t_data h)"
    using True hints by (auto simp: hints_ok_def inserted_before_def xact_committed_def)
  ultimately show ?thesis using update_xmax_verdict [OF hints inv] by simp
next
  case nc: False
  let ?x = "t_xmin (t_data h)"
  have nf: "\<not> HeapTupleHeaderXminFrozen (t_data h)"
    using nc by (simp add: flag_simps)
  note unfold = HeapTupleSatisfiesUpdate_def Let_def raw_fields(1)
  consider (invalid) "HeapTupleHeaderXminInvalid (t_data h)"
    | (own) "\<not> HeapTupleHeaderXminInvalid (t_data h)" "IsCurrent env ?x"
    | (com) "\<not> HeapTupleHeaderXminInvalid (t_data h)" "xact_committed env ?x"
    | (other) "\<not> HeapTupleHeaderXminInvalid (t_data h)" "\<not> effect_now env ?x"
    by (auto simp: effect_now_def)
  then show ?thesis
  proof cases
    case invalid
    then have "\<not> inserted_before env cid (t_data h)"
      using hints nf by (simp add: inserted_before_def hints_ok_def xact_aborted_def xact_committed_def)
    then show ?thesis using invalid nc run by (simp add: unfold update_verdict_def)
  next
    case own
    then show ?thesis
      using update_own_verdict [OF hints \<open>own_ok env (t_data h)\<close> own(2) nf] run nc moved
      by (simp add: unfold)
  next
    case com
    obtain h1 buf1 where set: "SetHintBits env h buf HEAP_XMIN_COMMITTED ?x = (h1, buf1)"
      by (cases "SetHintBits env h buf HEAP_XMIN_COMMITTED ?x")
    have "HeapTupleSatisfiesUpdate_xmax env h1 cid buf1 = (v, st)"
      using run nc com moved set by (simp add: unfold xact_committed_def)
    moreover have "hints_ok env (t_data h1)"
      using hints_ok_xmin_committed [OF hints com(2), of buf ?x] set by simp
    moreover have "t_xmin (t_data h1) = ?x"
      using set by (rule_tac SetHintBits_cases [of env h buf HEAP_XMIN_COMMITTED ?x]) auto
    then have "inserted_before env cid (t_data h1)"
      using com(2) by (simp add: inserted_before_def xact_committed_def)
    ultimately show ?thesis
      using update_xmax_verdict [OF _ inv, of h1 cid buf1 v st] update_verdict_xmin_hint [OF set com(1) nc] by simp
  next
    case other
    then have "\<not> inserted_before env cid (t_data h)"
      using nf by (simp add: inserted_before_def effect_now_def)
    then show ?thesis
      using other nc run moved by (auto simp: unfold update_verdict_def effect_now_def xact_committed_def split: if_splits)
  qed
qed

end
