(* ===== verification/Hint_Frame.thy ===== *)
theory Hint_Frame
  imports Vacuum_Props
begin

text \<open>
  The frame of the visibility tests: whatever a test answers, the tuple it leaves behind differs
  from the one it was given only by hint bits, set one after the other and never so that an
  ordinary tuple would turn into a frozen one. The specification predicates do not read hint
  bits, so that a test may be repeated.
\<close>

section \<open>Setting hints, step by step\<close>

inductive hint_rel :: "HeapTupleData \<Rightarrow> HeapTupleData \<Rightarrow> bool" where
  hint_refl: "hint_rel h h"
| hint_xmin: "hint_rel h h1 \<Longrightarrow> b \<in> {HEAP_XMIN_COMMITTED, HEAP_XMIN_INVALID} \<Longrightarrow>
    \<not> flag (t_infomask (t_data h1)) HEAP_XMIN_COMMITTED \<Longrightarrow>
    \<not> flag (t_infomask (t_data h1)) HEAP_XMIN_INVALID \<Longrightarrow> hint_rel h (or_infomask h1 b)"
| hint_xmax: "hint_rel h h1 \<Longrightarrow> b \<in> {HEAP_XMAX_COMMITTED, HEAP_XMAX_INVALID} \<Longrightarrow>
    hint_rel h (or_infomask h1 b)"

declare hint_refl [simp, intro]

lemma hint_rel_trans: "hint_rel h1 h2 \<Longrightarrow> hint_rel h h1 \<Longrightarrow> hint_rel h h2"
  by (induction rule: hint_rel.induct) (auto intro: hint_rel.intros)

lemma hint_rel_set_xmax_committed: "hint_rel h (fst (SetHintBits env h buf HEAP_XMAX_COMMITTED x))"
  by (rule SetHintBits_cases [of env h buf HEAP_XMAX_COMMITTED x]) (auto intro: hint_rel.intros)

lemma hint_rel_set_xmax_invalid: "hint_rel h (fst (SetHintBits env h buf HEAP_XMAX_INVALID x))"
  by (rule SetHintBits_cases [of env h buf HEAP_XMAX_INVALID x]) (auto intro: hint_rel.intros)

lemma hint_rel_set_xmin_committed:
  "\<not> HeapTupleHeaderXminCommitted (t_data h) \<Longrightarrow> \<not> HeapTupleHeaderXminInvalid (t_data h) \<Longrightarrow>
   hint_rel h (fst (SetHintBits env h buf HEAP_XMIN_COMMITTED x))"
  by (rule SetHintBits_cases [of env h buf HEAP_XMIN_COMMITTED x])
    (auto intro: hint_rel.intros simp: flag_simps)

lemma hint_rel_set_xmin_invalid:
  "\<not> HeapTupleHeaderXminCommitted (t_data h) \<Longrightarrow> \<not> HeapTupleHeaderXminInvalid (t_data h) \<Longrightarrow>
   hint_rel h (fst (SetHintBits env h buf HEAP_XMIN_INVALID x))"
  by (rule SetHintBits_cases [of env h buf HEAP_XMIN_INVALID x])
    (auto intro: hint_rel.intros simp: flag_simps)

lemmas hint_rel_set = hint_rel_set_xmax_committed hint_rel_set_xmax_invalid
  hint_rel_set_xmin_committed hint_rel_set_xmin_invalid

text \<open>What a hint leaves alone.\<close>

lemma hint_rel_frame:
  assumes "hint_rel h h'"
  shows "t_self h' = t_self h" "t_len h' = t_len h" "t_tableOid h' = t_tableOid h"
    "t_xmin (t_data h') = t_xmin (t_data h)" "t_xmax (t_data h') = t_xmax (t_data h)"
    "t_field3 (t_data h') = t_field3 (t_data h)" "t_ctid (t_data h') = t_ctid (t_data h)"
    "t_infomask2 (t_data h') = t_infomask2 (t_data h)" "t_hoff (t_data h') = t_hoff (t_data h)"
    "t_bits (t_data h') = t_bits (t_data h)"
  using assms by (induction rule: hint_rel.induct) (auto simp: or_infomask_def)

lemma hint_rel_flags:
  assumes "hint_rel h h'"
    and "f \<in> {HEAP_XMAX_KEYSHR_LOCK, HEAP_COMBOCID, HEAP_XMAX_EXCL_LOCK, HEAP_XMAX_LOCK_ONLY,
      HEAP_XMAX_IS_MULTI, HEAP_MOVED_OFF, HEAP_MOVED_IN, HEAP_MOVED}"
  shows "flag (t_infomask (t_data h')) f = flag (t_infomask (t_data h)) f"
  using assms by (induction rule: hint_rel.induct) auto

lemma hint_rel_frozen:
  "hint_rel h h' \<Longrightarrow> HeapTupleHeaderXminFrozen (t_data h') = HeapTupleHeaderXminFrozen (t_data h)"
  by (induction rule: hint_rel.induct) (auto simp: flag_simps)

lemma hint_rel_deleter: "hint_rel h h' \<Longrightarrow> deleter env (t_data h') = deleter env (t_data h)"
  by (induction rule: hint_rel.induct) auto

lemma hint_rel_cids:
  assumes "hint_rel h h'"
  shows "HeapTupleHeaderGetCmin c (t_data h') = HeapTupleHeaderGetCmin c (t_data h)"
    "HeapTupleHeaderGetCmax c (t_data h') = HeapTupleHeaderGetCmax c (t_data h)"
  using assms by (induction rule: hint_rel.induct) auto

lemma hint_rel_specs:
  assumes "hint_rel h h'"
  shows "mvcc_visible env snap (t_data h') = mvcc_visible env snap (t_data h)"
    "self_visible env (t_data h') = self_visible env (t_data h)"
    "own_ok env (t_data h') = own_ok env (t_data h)"
    "heap_moved (t_data h') = heap_moved (t_data h)"
  unfolding mvcc_visible_def self_visible_def own_ok_def heap_moved_def hint_rel_frame [OF assms]
    hint_rel_frozen [OF assms] hint_rel_deleter [OF assms] hint_rel_cids [OF assms]
  by (simp_all add: hint_rel_flags [OF assms])

section \<open>Every test only sets hints\<close>

lemma xvac_check_hints:
  assumes "\<not> HeapTupleHeaderXminCommitted (t_data h)" "\<not> HeapTupleHeaderXminInvalid (t_data h)"
  shows "hint_rel h (fst (snd (xvac_check env running h buf)))"
  using assms by (auto simp: xvac_check_def Let_def intro!: hint_rel_set)

lemma self_xmax_hints: "hint_rel h (fst (snd (HeapTupleSatisfiesSelf_xmax env h buf)))"
  by (auto simp: HeapTupleSatisfiesSelf_xmax_def Let_def intro!: hint_rel_set)

lemma dirty_xmax_hints: "hint_rel h (fst (snd (HeapTupleSatisfiesDirty_xmax env h snap buf)))"
  by (auto simp: HeapTupleSatisfiesDirty_xmax_def Let_def intro!: hint_rel_set)

lemma mvcc_xmax_hints: "hint_rel h (fst (snd (HeapTupleSatisfiesMVCC_xmax env h snap buf)))"
  by (auto simp: HeapTupleSatisfiesMVCC_xmax_def Let_def intro!: hint_rel_set)

lemma mvcc_own_hints: "hint_rel h (fst (snd (HeapTupleSatisfiesMVCC_own env h snap buf)))"
  by (auto simp: HeapTupleSatisfiesMVCC_own_def Let_def intro!: hint_rel_set)

lemma update_multi_hints: "hint_rel h (fst (snd (HeapTupleSatisfiesUpdate_multi env h cid buf)))"
  by (auto simp: HeapTupleSatisfiesUpdate_multi_def Let_def intro!: hint_rel_set)

lemma update_own_hints: "hint_rel h (fst (snd (HeapTupleSatisfiesUpdate_own env h cid buf)))"
  by (auto simp: HeapTupleSatisfiesUpdate_own_def Let_def intro!: hint_rel_set)

lemma update_xmax_hints: "hint_rel h (fst (snd (HeapTupleSatisfiesUpdate_xmax env h cid buf)))"
  by (auto simp: HeapTupleSatisfiesUpdate_xmax_def Let_def intro!: hint_rel_set update_multi_hints)

lemma vacuum_xmin_hints: "hint_rel h (fst (snd (HeapTupleSatisfiesVacuum_xmin env h buf)))"
  by (auto simp: HeapTupleSatisfiesVacuum_xmin_def Let_def intro!: hint_rel_set)

lemma vacuum_xmax_hints: "hint_rel h (fst (snd (HeapTupleSatisfiesVacuum_xmax env h oldest buf)))"
  by (auto simp: HeapTupleSatisfiesVacuum_xmax_def Let_def intro!: hint_rel_set)

text \<open>Continuing after a hint.\<close>

lemma hint_rel_then_xmin:
  assumes "\<not> HeapTupleHeaderXminCommitted (t_data h)" "\<not> HeapTupleHeaderXminInvalid (t_data h)"
    and "\<And>h1 buf1. hint_rel h1 (fst (snd (f h1 buf1)))"
  shows "hint_rel h (fst (snd (case SetHintBits env h buf HEAP_XMIN_COMMITTED x of (h1, buf1) \<Rightarrow> f h1 buf1)))"
  using hint_rel_set_xmin_committed [OF assms(1,2), of env buf x] hint_rel_trans [OF assms(3)]
  by (auto split: prod.splits)

lemma hint_rel_then_xvac:
  assumes "\<not> HeapTupleHeaderXminCommitted (t_data h)" "\<not> HeapTupleHeaderXminInvalid (t_data h)"
    and "\<And>h1 buf1. hint_rel h1 (fst (snd (f h1 buf1)))"
  shows "hint_rel h (fst (snd (case xvac_check env running h buf of
           (True, st) \<Rightarrow> (r, st) | (False, h1, buf1) \<Rightarrow> f h1 buf1)))"
  using xvac_check_hints [OF assms(1,2), of env running buf] hint_rel_trans [OF assms(3)]
  by (auto split: prod.splits bool.splits)

lemma self_hints: "hint_rel h (fst (snd (HeapTupleSatisfiesSelf env h buf)))"
  by (auto simp: HeapTupleSatisfiesSelf_def Let_def self_xmax_hints
      intro!: hint_rel_set hint_rel_then_xmin hint_rel_then_xvac)

lemma dirty_hints: "hint_rel h (fst (snd (HeapTupleSatisfiesDirty env h snap buf)))"
  by (auto simp: HeapTupleSatisfiesDirty_def Let_def dirty_xmax_hints
      intro!: hint_rel_set hint_rel_then_xmin hint_rel_then_xvac)

lemma mvcc_hints: "hint_rel h (fst (snd (HeapTupleSatisfiesMVCC env h snap buf)))"
  by (auto simp: HeapTupleSatisfiesMVCC_def Let_def mvcc_xmax_hints mvcc_own_hints
      intro!: hint_rel_set hint_rel_then_xmin hint_rel_then_xvac)

lemma update_hints: "hint_rel h (fst (snd (HeapTupleSatisfiesUpdate env h cid buf)))"
  by (auto simp: HeapTupleSatisfiesUpdate_def Let_def update_xmax_hints update_own_hints
      intro!: hint_rel_set hint_rel_then_xmin hint_rel_then_xvac)

lemma toast_hints: "hint_rel h (fst (snd (HeapTupleSatisfiesToast env h buf)))"
  using xvac_check_hints [of h env "InProgress env" buf]
  by (auto simp: HeapTupleSatisfiesToast_def Let_def split: prod.splits)

lemma vacuum_hints: "hint_rel h (fst (snd (HeapTupleSatisfiesVacuum env h oldest buf)))"
proof (cases "HeapTupleSatisfiesVacuum_xmin env h buf")
  case (fields v h1 buf1)
  then show ?thesis
    using vacuum_xmin_hints [of h env buf] vacuum_xmax_hints [of h1 env oldest buf1]
    by (cases v) (auto simp: HeapTupleSatisfiesVacuum_def intro: hint_rel_trans)
qed

end
