(* ===== verification/Visibility_Main.thy ===== *)
theory Visibility_Main
  imports Hint_Frame
begin

text \<open>
  The properties of the tuple visibility tests, and the concrete environment their witnesses use:
  transaction 100 is the backend's own, 101 runs elsewhere, 50 and 60 have committed, 70 has
  aborted.
\<close>

section \<open>A concrete environment\<close>

definition env0 :: xact_env where
  "env0 = \<lparr>IsCurrent = (\<lambda>x. x = 100), InProgress = (\<lambda>x. x = 100 \<or> x = 101),
     DidCommit = (\<lambda>x. x = 50 \<or> x = 60), Topmost = (\<lambda>x. x), GetCommitLSN = (\<lambda>_. 0),
     NeedsFlush = (\<lambda>_. False), MarkDirtyHint = (\<lambda>b. b\<lparr>buf_dirty := True\<rparr>), MultiMembers = (\<lambda>_ _. []),
     combo = combo_empty, ResolveCids = (\<lambda>_. None)\<rparr>"

definition snap0 :: SnapshotData where
  "snap0 = \<lparr>snapshot_type = SNAPSHOT_MVCC, snap_xmin = 100, snap_xmax = 102, xip = [101], subxip = [],
     suboverflowed = False, takenDuringRecovery = False, curcid = 5, speculativeToken = 0\<rparr>"

definition buf0 :: bufstate where
  "buf0 = \<lparr>BufferIsPermanent = True, BufferGetLSNAtomic = 0, buf_dirty = False\<rparr>"

definition tup0 :: "TransactionId \<Rightarrow> TransactionId \<Rightarrow> uint16 \<Rightarrow> HeapTupleData" where
  "tup0 mn mx im = \<lparr>t_len = 32, t_self = \<lparr>ip_blkid = 0, ip_posid = 1\<rparr>, t_tableOid = 16384,
     t_data = \<lparr>t_xmin = mn, t_xmax = mx, t_field3 = 3, t_ctid = \<lparr>ip_blkid = 0, ip_posid = 1\<rparr>,
       t_infomask2 = 1, t_infomask = im, t_hoff = 24, t_bits = []\<rparr>\<rparr>"

lemma env0_simps [simp]:
  "IsCurrent env0 = (\<lambda>x. x = 100)" "InProgress env0 = (\<lambda>x. x = 100 \<or> x = 101)"
  "DidCommit env0 = (\<lambda>x. x = 50 \<or> x = 60)" "Topmost env0 = (\<lambda>x. x)"
  "MultiMembers env0 = (\<lambda>_ _. [])" "combo env0 = combo_empty"
  by (simp_all add: env0_def)

lemma tup0_simps [simp]:
  "t_xmin (t_data (tup0 mn mx im)) = mn" "t_xmax (t_data (tup0 mn mx im)) = mx"
  "t_infomask (t_data (tup0 mn mx im)) = im" "t_field3 (t_data (tup0 mn mx im)) = 3"
  by (simp_all add: tup0_def)

text \<open>A tuple that 50 inserted and 60 deleted, with no hint bit set yet.\<close>

lemma tup0_plain:
  "\<not> HeapTupleHeaderXminCommitted (t_data (tup0 mn mx 0))" "\<not> HeapTupleHeaderXminInvalid (t_data (tup0 mn mx 0))"
  "\<not> HeapTupleHeaderXminFrozen (t_data (tup0 mn mx 0))" "\<not> heap_moved (t_data (tup0 mn mx 0))"
  "\<not> HEAP_XMAX_IS_LOCKED_ONLY 0" "deleter env (t_data (tup0 mn mx 0)) = Some mx"
  by (simp_all add: flag_simps heap_moved_def deleter_def raw_fields)

lemma tup0_ok: "hints_ok env (t_data (tup0 mn mx 0))" "mn \<noteq> 100 \<Longrightarrow> own_ok env0 (t_data (tup0 mn mx 0))"
  by (simp_all add: hints_ok_def own_ok_def tup0_plain)

lemma snap0_in: "XidInMVCCSnapshot topm x snap0 \<longleftrightarrow>
    \<not> TransactionIdPrecedes x 100 \<and> (TransactionIdFollowsOrEquals x 102 \<or> x = 101)"
  by (simp add: XidInMVCCSnapshot_def snap0_def)

lemma snap0_ok: "snapshot_ok env0 snap0"
  by (auto simp: snapshot_ok_def snap0_in TransactionIdPrecedes_def normal_iff xid_diff_uint)

lemma env0_invalid: "invalid_ok env0"
  by (simp add: invalid_ok_def special_xids)

section \<open>Properties\<close>

text \<open>C11: the MVCC test decides visibility as specified. If hint bits tell the truth and the
  snapshot's view of what is finished is right, the test answers whether the inserter took effect
  before the snapshot and the deleter did not, and the hint bits it leaves behind tell the truth.\<close>

theorem mvcc_visibility_correct:
  assumes "hints_ok env (t_data h)" "own_ok env (t_data h)" "snapshot_ok env snap" "\<not> heap_moved (t_data h)"
    and "HeapTupleSatisfiesMVCC env h snap buf = (r, h', buf')"
  shows "(r \<longleftrightarrow> mvcc_visible env snap (t_data h)) \<and> hints_ok env (t_data h')"
  by (rule mvcc_correct [OF assms])

theorem mvcc_visibility_correct_witness:
  "fst (HeapTupleSatisfiesMVCC env0 (tup0 50 101 0) snap0 buf0)"
proof -
  have "\<not> InSnapshot env0 snap0 50" "InSnapshot env0 snap0 101"
    by (simp_all add: snap0_in TransactionIdPrecedes_def TransactionIdFollowsOrEquals_def normal_iff xid_diff_uint)
  then have "mvcc_visible env0 snap0 (t_data (tup0 50 101 0))"
    by (simp add: mvcc_visible_def effect_in_def tup0_plain)
  moreover obtain r h' buf' where run: "HeapTupleSatisfiesMVCC env0 (tup0 50 101 0) snap0 buf0 = (r, h', buf')"
    by (rule prod_cases3)
  ultimately show ?thesis
    using mvcc_visibility_correct [OF tup0_ok(1) tup0_ok(2) snap0_ok tup0_plain(4) run] by simp
qed

text \<open>What may happen around a backend while it holds a snapshot: other transactions start, commit and
  abort. What the snapshot sees as finished keeps its outcome, and the backend's own state stays.\<close>

definition snapshot_held :: "SnapshotData \<Rightarrow> xact_env \<Rightarrow> xact_env \<Rightarrow> bool" where
  "snapshot_held snap env env2 \<longleftrightarrow>
     IsCurrent env2 = IsCurrent env \<and> Topmost env2 = Topmost env \<and> combo env2 = combo env \<and>
     MultiMembers env2 = MultiMembers env \<and>
     (\<forall>x. \<not> IsCurrent env x \<and> \<not> InSnapshot env snap x \<longrightarrow> DidCommit env2 x = DidCommit env x)"

lemma snapshot_held_visible:
  assumes "snapshot_held snap env env2"
  shows "mvcc_visible env2 snap tup = mvcc_visible env snap tup"
proof -
  have "deleter env2 tup = deleter env tup"
    using assms by (simp add: snapshot_held_def deleter_def HeapTupleGetUpdateXid_def MultiXactIdGetUpdateXid_def)
  moreover have "effect_in env2 snap cid x = effect_in env snap cid x" for cid x
    using assms by (auto simp: snapshot_held_def effect_in_def)
  ultimately show ?thesis
    using assms by (simp add: mvcc_visible_def snapshot_held_def split: option.splits)
qed

text \<open>C12: snapshot isolation. A test repeated under the same snapshot gives the same answer, although
  other transactions may have started, committed or aborted in the meantime and any number of
  hint bits may have been set on the tuple by tests of this or other backends.\<close>

theorem mvcc_snapshot_isolation:
  assumes "hints_ok env (t_data h)" "own_ok env (t_data h)" "snapshot_ok env snap" "\<not> heap_moved (t_data h)"
    and "HeapTupleSatisfiesMVCC env h snap buf = (r, h1, buf1)"
    and "snapshot_held snap env env2" "hint_rel h1 h2"
    and "hints_ok env2 (t_data h2)" "own_ok env2 (t_data h2)" "snapshot_ok env2 snap"
    and "HeapTupleSatisfiesMVCC env2 h2 snap buf2 = (r2, h3, buf3)"
  shows "r2 = r"
proof -
  have "hint_rel h h1"
    using mvcc_hints [of h env snap buf] assms(5) by simp
  then have rel: "hint_rel h h2"
    using hint_rel_trans [OF assms(7)] by simp
  then have "\<not> heap_moved (t_data h2)"
    using assms(4) by (simp add: hint_rel_specs(4))
  then have "r2 = mvcc_visible env2 snap (t_data h2)"
    using mvcc_correct [OF assms(8,9,10) _ assms(11)] by simp
  also have "\<dots> = mvcc_visible env snap (t_data h)"
    by (simp add: hint_rel_specs(1) [OF rel] snapshot_held_visible [OF assms(6)])
  finally show ?thesis
    using mvcc_correct [OF assms(1-5)] by simp
qed

text \<open>Transaction 101 commits while the snapshot is held.\<close>

definition env1 :: xact_env where
  "env1 = env0\<lparr>InProgress := (\<lambda>x. x = 100), DidCommit := (\<lambda>x. x = 50 \<or> x = 60 \<or> x = 101)\<rparr>"

lemma env1_facts:
  "snapshot_held snap0 env0 env1" "snapshot_ok env1 snap0" "IsCurrent env1 = (\<lambda>x. x = 100)"
  by (auto simp: env1_def snapshot_held_def snapshot_ok_def snap0_in TransactionIdPrecedes_def
      TransactionIdFollowsOrEquals_def normal_iff xid_diff_uint)

lemma run0: "HeapTupleSatisfiesMVCC env0 (tup0 50 101 0) snap0 buf0 = (True, tup0 50 101 256, buf0\<lparr>buf_dirty := True\<rparr>)"
proof -
  have "\<not> InSnapshot env0 snap0 50" "InSnapshot env0 snap0 101"
    by (simp_all add: snap0_in TransactionIdPrecedes_def TransactionIdFollowsOrEquals_def normal_iff xid_diff_uint)
  moreover have "SetHintBits env0 (tup0 50 101 0) buf0 HEAP_XMIN_COMMITTED 50 = (tup0 50 101 256, buf0\<lparr>buf_dirty := True\<rparr>)"
    by (simp add: SetHintBits_def env0_def or_infomask_def tup0_def HEAP_XMIN_COMMITTED_def)
  ultimately show ?thesis
    by (simp add: HeapTupleSatisfiesMVCC_def HeapTupleSatisfiesMVCC_xmax_def tup0_plain raw_fields)
      (simp add: heap_bits flag_def HEAP_XMAX_IS_LOCKED_ONLY_def Let_def raw_fields)
qed

lemma tup256:
  "hints_ok env1 (t_data (tup0 50 101 256))" "own_ok env1 (t_data (tup0 50 101 256))"
  by (simp_all add: hints_ok_def own_ok_def env1_def xact_committed_def flag_simps)
    (simp_all add: heap_bits flag_def)

theorem mvcc_snapshot_isolation_witness:
  "fst (HeapTupleSatisfiesMVCC env1 (tup0 50 101 256) snap0 buf0)"
proof -
  obtain r2 h3 b3 where run: "HeapTupleSatisfiesMVCC env1 (tup0 50 101 256) snap0 buf0 = (r2, h3, b3)"
    by (rule prod_cases3)
  show ?thesis
    using mvcc_snapshot_isolation [OF tup0_ok(1) tup0_ok(2) snap0_ok tup0_plain(4) run0 env1_facts(1) hint_refl
        tup256 env1_facts(2) run] run by simp
qed

text \<open>C13: vacuum is safe. When the vacuum test of one backend finds a tuple \<open>HEAPTUPLE_DEAD\<close>, the MVCC
  test of any other backend that shares the commit log answers that the tuple is invisible, if its
  snapshot is not older than the horizon the vacuum used and the id wraparound guarantee
  holds for the deleter.\<close>

theorem vacuum_dead_invisible:
  assumes "hints_ok env (t_data h)" "\<not> heap_moved (t_data h)"
    and "HeapTupleSatisfiesVacuum env h OldestXmin buf = (HEAPTUPLE_DEAD, h1, buf1)"
    and "shared_state env env'" "below_horizon env OldestXmin snap (t_data h)"
    and "hints_ok env' (t_data h1)" "own_ok env' (t_data h1)" "snapshot_ok env' snap"
    and "HeapTupleSatisfiesMVCC env' h1 snap buf' = (r, h2, buf2)"
  shows "\<not> r"
proof -
  have rel: "hint_rel h h1"
    using vacuum_hints [of h env OldestXmin buf] assms(3) by simp
  have "\<not> mvcc_visible env' snap (t_data h)"
    by (rule dead_invisible [OF vacuum_dead_reason [OF assms(1,2,3)] assms(4,5)])
  then show ?thesis
    using mvcc_correct [OF assms(6,7,8) _ assms(9)] assms(2) hint_rel_specs(1,4) [OF rel] by simp
qed

text \<open>The backend of transaction 101, with a snapshot that 100 is in.\<close>

definition env101 :: xact_env where
  "env101 = env0\<lparr>IsCurrent := (\<lambda>x. x = 101)\<rparr>"

definition snap101 :: SnapshotData where
  "snap101 = snap0\<lparr>xip := [100]\<rparr>"

lemma snap101_in: "XidInMVCCSnapshot topm x snap101 \<longleftrightarrow>
    \<not> TransactionIdPrecedes x 100 \<and> (TransactionIdFollowsOrEquals x 102 \<or> x = 100)"
  by (simp add: XidInMVCCSnapshot_def snap0_def snap101_def)

lemma env101_facts:
  "shared_state env0 env101" "snapshot_ok env101 snap101"
  "below_horizon env0 100 snap101 (t_data (tup0 50 60 0))"
  by (auto simp: env101_def shared_state_def snapshot_ok_def snap101_in below_horizon_def tup0_plain
      TransactionIdPrecedes_def TransactionIdPrecedesOrEquals_def normal_iff xid_diff_uint)
    (auto simp: snap101_def snap0_def)

lemma run_vacuum: "HeapTupleSatisfiesVacuum env0 (tup0 50 60 0) 100 buf0 =
    (HEAPTUPLE_DEAD, tup0 50 60 0x500, buf0\<lparr>buf_dirty := True\<rparr>)"
proof -
  have "SetHintBits env0 (tup0 50 60 0) buf0 HEAP_XMIN_COMMITTED 50 = (tup0 50 60 0x100, buf0\<lparr>buf_dirty := True\<rparr>)"
    "SetHintBits env0 (tup0 50 60 0x100) (buf0\<lparr>buf_dirty := True\<rparr>) HEAP_XMAX_COMMITTED 60
       = (tup0 50 60 0x500, buf0\<lparr>buf_dirty := True\<rparr>)"
    by (simp_all add: SetHintBits_def env0_def or_infomask_def tup0_def heap_bits)
  moreover have "TransactionIdPrecedes 60 100"
    by (simp add: TransactionIdPrecedes_def normal_iff xid_diff_uint)
  ultimately show ?thesis
    by (simp add: HeapTupleSatisfiesVacuum_def HeapTupleSatisfiesVacuum_xmin_def tup0_plain raw_fields Let_def
        HeapTupleSatisfiesVacuum_xmax_def) (simp add: heap_bits flag_def HEAP_XMAX_IS_LOCKED_ONLY_def)
qed

lemma tup500:
  "hints_ok env101 (t_data (tup0 50 60 0x500))" "own_ok env101 (t_data (tup0 50 60 0x500))"
  by (simp_all add: hints_ok_def own_ok_def env101_def xact_committed_def flag_simps)
    (simp_all add: heap_bits flag_def)

theorem vacuum_dead_invisible_witness:
  "\<not> fst (HeapTupleSatisfiesMVCC env101 (tup0 50 60 0x500) snap101 buf0)"
proof -
  obtain r h2 b2 where run: "HeapTupleSatisfiesMVCC env101 (tup0 50 60 0x500) snap101 buf0 = (r, h2, b2)"
    by (rule prod_cases3)
  show ?thesis
    using vacuum_dead_invisible [OF tup0_ok(1) tup0_plain(4) run_vacuum env101_facts(1,3) tup500 env101_facts(2) run]
      run by simp
qed

text \<open>C24: the update test gives the right verdict for the command \<open>cid\<close>. A tuple whose insertion does not count for that command,
  because the inserter has not committed, or is the current transaction in this or a later command, is \<open>TM_Invisible\<close>. Of the others, one
  that the current transaction deletes is \<open>TM_SelfModified\<close> if this or a later command does it, else
  \<open>TM_Invisible\<close>; one that another running transaction deletes, or whose multixact has a running member, is
  \<open>TM_BeingModified\<close>; one that a committed transaction deleted is \<open>TM_Updated\<close> if its link leads to a newer version or to another partition, else
  \<open>TM_Deleted\<close>; and one that nobody deletes is \<open>TM_Ok\<close>. A locker makes it \<open>TM_BeingModified\<close> only while it
  runs, and always when it runs and no hint bit rules it out.\<close>

theorem update_verdict_correct:
  assumes "hints_ok env (t_data h)" "own_ok env (t_data h)" "invalid_ok env" "\<not> heap_moved (t_data h)"
    and "HeapTupleSatisfiesUpdate env h cid buf = (v, st)"
  shows "update_verdict env cid h v"
  by (rule update_correct [OF assms])

lemma own_tuple_ok: "own_ok env0 (t_data (tup0 100 0 0))"
  by (simp add: own_ok_def tup0_plain xact_aborted_def)

text \<open>A deleted tuple, the same with a newer version, one of the current transaction seen by the command that wrote it and by
  the next one, and one that a running transaction deletes.\<close>

theorem update_verdict_correct_witness:
  "fst (HeapTupleSatisfiesUpdate env0 (tup0 50 60 0) 6 buf0) = TM_Deleted \<and>
   fst (HeapTupleSatisfiesUpdate env0 ((tup0 50 60 0)\<lparr>t_self := \<lparr>ip_blkid = 0, ip_posid = 2\<rparr>\<rparr>) 6 buf0) = TM_Updated \<and>
   fst (HeapTupleSatisfiesUpdate env0 (tup0 100 0 0) 3 buf0) = TM_Invisible \<and>
   fst (HeapTupleSatisfiesUpdate env0 (tup0 100 0 0) 4 buf0) = TM_Ok \<and>
   fst (HeapTupleSatisfiesUpdate env0 (tup0 50 101 0) 4 buf0) = TM_BeingModified"
proof -
  have verdict: "update_verdict env0 cid h (fst (HeapTupleSatisfiesUpdate env0 h cid buf0))"
    if "t_data h = t_data (tup0 mn mx 0)" "own_ok env0 (t_data (tup0 mn mx 0))" for cid h mn mx
    using update_verdict_correct [of env0 h cid buf0 "fst (HeapTupleSatisfiesUpdate env0 h cid buf0)" "snd (HeapTupleSatisfiesUpdate env0 h cid buf0)"]
      that tup0_ok(1) tup0_plain(4) env0_invalid by simp
  have fields: "t_ctid (t_data (tup0 mn mx 0)) = \<lparr>ip_blkid = 0, ip_posid = 1\<rparr>" "t_self (tup0 mn mx 0) = \<lparr>ip_blkid = 0, ip_posid = 1\<rparr>" for mn mx
    by (simp_all add: tup0_def)
  have cmin: "HeapTupleHeaderGetCmin combo_empty (t_data (tup0 mn mx 0)) = 3" for mn mx
    by (simp add: HeapTupleHeaderGetCmin_def raw_fields Let_def flag_def)
  note spec = update_verdict_def inserted_before_def tup0_plain xact_committed_def multi_running_def flag_def moved_on_def fields cmin
  show ?thesis
    using verdict [of "tup0 50 60 0" 50 60 6] verdict [of "(tup0 50 60 0)\<lparr>t_self := \<lparr>ip_blkid = 0, ip_posid = 2\<rparr>\<rparr>" 50 60 6]
      verdict [of "tup0 100 0 0" 100 0 3] verdict [of "tup0 100 0 0" 100 0 4] verdict [of "tup0 50 101 0" 50 101 4]
      tup0_ok(2) own_tuple_ok by (simp add: spec)
qed

text \<open>C25: the self test answers whether the tuple is visible to the current transaction right now: inserted
  by it or by a committed transaction, and deleted by neither; its hint bits tell the truth.\<close>

theorem self_visibility_correct:
  assumes "hints_ok env (t_data h)" "own_ok env (t_data h)" "\<not> heap_moved (t_data h)"
    and "HeapTupleSatisfiesSelf env h buf = (r, h', buf')"
  shows "(r \<longleftrightarrow> self_visible env (t_data h)) \<and> hints_ok env (t_data h')"
  by (rule self_correct [OF assms])

theorem self_visibility_correct_witness:
  "\<not> fst (HeapTupleSatisfiesSelf env0 (tup0 50 60 0) buf0)"
proof -
  obtain r h' b' where run: "HeapTupleSatisfiesSelf env0 (tup0 50 60 0) buf0 = (r, h', b')"
    by (rule prod_cases3)
  have "\<not> self_visible env0 (t_data (tup0 50 60 0))"
    by (simp add: self_visible_def tup0_plain effect_now_def xact_committed_def)
  then show ?thesis
    using self_visibility_correct [OF tup0_ok(1) tup0_ok(2) tup0_plain(4) run] run by simp
qed

text \<open>C26: the dirty test is the self test, opened to the effects of running transactions. It leaves the
  same tuple and buffer; it answers true in addition for a tuple whose inserter runs in another backend; and it reports in the
  snapshot exactly who runs: in xmin that inserter, with the token of a speculative insertion; otherwise in xmax the
  transaction of another backend that deletes a tuple whose insertion counts; and nothing if there is none.\<close>

theorem dirty_extends_self:
  assumes "hints_ok env (t_data h)" "own_ok env (t_data h)" "\<not> heap_moved (t_data h)"
    and "HeapTupleSatisfiesDirty env h snap buf = ((r, snap'), st)"
    and "HeapTupleSatisfiesSelf env h buf = (r0, st0)"
  shows "st = st0 \<and> (r \<longleftrightarrow> r0 \<or> inserter_running env (t_data h)) \<and> snap' = dirty_report env (t_data h) snap"
  by (rule dirty_self [OF assms])

text \<open>A tuple that the running transaction 101 inserted, one that it deletes, and one that it inserts speculatively with token 7.\<close>

definition spec_tup :: HeapTupleData where
  "spec_tup = (tup0 101 0 0)\<lparr>t_data := (t_data (tup0 101 0 0))\<lparr>t_ctid := \<lparr>ip_blkid = 7, ip_posid = 0xfffe\<rparr>\<rparr>\<rparr>"

theorem dirty_extends_self_witness:
  "fst (HeapTupleSatisfiesDirty env0 (tup0 101 0 0) snap0 buf0) = (True, snap0\<lparr>snap_xmin := 101, snap_xmax := 0, speculativeToken := 0\<rparr>) \<and>
   fst (HeapTupleSatisfiesDirty env0 spec_tup snap0 buf0) = (True, snap0\<lparr>snap_xmin := 101, snap_xmax := 0, speculativeToken := 7\<rparr>) \<and>
   snd (fst (HeapTupleSatisfiesDirty env0 (tup0 50 101 0) snap0 buf0)) = snap0\<lparr>snap_xmin := 0, snap_xmax := 101, speculativeToken := 0\<rparr> \<and>
   snd (fst (HeapTupleSatisfiesDirty env0 (tup0 50 60 0) snap0 buf0)) = snap0\<lparr>snap_xmin := 0, snap_xmax := 0, speculativeToken := 0\<rparr>"
proof -
  have dirty: "fst (fst (HeapTupleSatisfiesDirty env0 h snap0 buf0)) = (fst (HeapTupleSatisfiesSelf env0 h buf0) \<or> inserter_running env0 (t_data h)) \<and>
      snd (fst (HeapTupleSatisfiesDirty env0 h snap0 buf0)) = dirty_report env0 (t_data h) snap0"
    if "hints_ok env0 (t_data h)" "own_ok env0 (t_data h)" "\<not> heap_moved (t_data h)" for h
    using dirty_extends_self [OF that, of snap0 buf0] by (metis prod.collapse)
  have spec: "t_infomask (t_data spec_tup) = 0" "t_xmin (t_data spec_tup) = 101" "t_xmax (t_data spec_tup) = 0"
      "t_ctid (t_data spec_tup) = \<lparr>ip_blkid = 7, ip_posid = 0xfffe\<rparr>"
    by (simp_all add: spec_tup_def tup0_def)
  have flags: "\<not> HeapTupleHeaderXminFrozen (t_data spec_tup)" "\<not> heap_moved (t_data spec_tup)" "hints_ok env0 (t_data spec_tup)"
      "own_ok env0 (t_data spec_tup)"
    by (simp_all add: heap_moved_def hints_ok_def own_ok_def flag_simps spec)
  have token: "HeapTupleHeaderIsSpeculative (t_data spec_tup)" "HeapTupleHeaderGetSpeculativeToken (t_data spec_tup) = 7"
      "\<not> HeapTupleHeaderIsSpeculative (t_data (tup0 101 0 0))"
    by (simp_all add: HeapTupleHeaderIsSpeculative_def HeapTupleHeaderGetSpeculativeToken_def spec tup0_def SpecTokenOffsetNumber_def)
  note report = dirty_report_def inserter_running_def xact_running_def running_deleter_def tup0_plain effect_now_def xact_committed_def
    InvalidTransactionId_def
  show ?thesis
    using dirty [of "tup0 101 0 0"] dirty [of spec_tup] dirty [of "tup0 50 101 0"] dirty [of "tup0 50 60 0"]
      tup0_ok tup0_plain(4) flags spec token by (simp add: report prod_eq_iff)
qed

text \<open>C29: a tuple that the hint bits alone show to be dead, which lets an index scan skip it without a look at
  the commit log, is dead for the full vacuum test too, which leaves it untouched.\<close>

theorem surely_dead_is_dead:
  assumes "HeapTupleIsSurelyDead h OldestXmin"
  shows "HeapTupleSatisfiesVacuum env h OldestXmin buf = (HEAPTUPLE_DEAD, h, buf)"
  by (rule surely_dead_vacuum [OF assms])

theorem surely_dead_is_dead_witness:
  "HeapTupleSatisfiesVacuum env0 (tup0 50 60 0x500) 100 buf0 = (HEAPTUPLE_DEAD, tup0 50 60 0x500, buf0)"
  by (rule surely_dead_is_dead)
    (simp add: HeapTupleIsSurelyDead_def Let_def heap_bits flag_def raw_fields flag_simps
      TransactionIdPrecedes_def normal_iff xid_diff_uint)

text \<open>Whatever snapshot type the dispatcher is given, the tuple it leaves behind differs from the one it
  was given only by hint bits, and a tuple that was not frozen does not become frozen.\<close>

theorem visibility_only_hints:
  "hint_rel tup (fst (snd (snd (HeapTupleSatisfiesVisibility env tup snapshot buf))))"
proof (cases "snapshot_type snapshot")
  case SNAPSHOT_DIRTY
  then show ?thesis
    using dirty_hints [of tup env snapshot buf]
    by (auto simp: HeapTupleSatisfiesVisibility_def split: prod.splits)
qed (use mvcc_hints [of tup env snapshot buf] self_hints [of tup env buf] toast_hints [of tup env buf]
    vacuum_hints [of tup env "snap_xmin snapshot" buf]
  in \<open>auto simp: HeapTupleSatisfiesVisibility_def HeapTupleSatisfiesAny_def HeapTupleSatisfiesNonVacuumable_def
    split: prod.splits\<close>)

end
