(* ===== verification/Procarray_Props.thy ===== *)
theory Procarray_Props
  imports Procarray Visibility_Main
begin

text \<open>
  Correctness of the snapshots that \<^verbatim>\<open>GetSnapshotData\<close> takes and of the vacuum horizon. The main
  result: a transaction that the running backends show as in progress, and that is not the
  backend's own, is in progress according to the snapshot. This discharges the assumption on
  snapshots that the visibility theorems make.
\<close>

section \<open>The running transactions\<close>

text \<open>All ids of running transactions lie in a window of \<open>2^31\<close> ids after \<open>base\<close>; subtransactions are younger than
  their parents; a backend without an id has no subtransactions.\<close>

definition proc_ok :: "TransactionId \<Rightarrow> procarray \<Rightarrow> nat \<Rightarrow> bool" where
  "proc_ok base s p \<longleftrightarrow>
     (let px = pgx_xid (allPgXact s p) in
      (px = InvalidTransactionId \<longrightarrow> subxids (allProcs s p) = [] \<and> \<not> overflowed (allPgXact s p)) \<and>
      (px \<noteq> InvalidTransactionId \<longrightarrow> in_window base px \<and>
         (\<forall>y\<in>set (subxids (allProcs s p)). in_window base y \<and> TransactionIdPrecedes px y)))"

definition procs_ok :: "TransactionId \<Rightarrow> procarray \<Rightarrow> bool" where
  "procs_ok base s \<longleftrightarrow> (\<forall>p\<in>set (pgprocnos s). proc_ok base s p) \<and>
     in_window base (latestCompletedXid s) \<and> in_window base (TransactionIdAdvance (latestCompletedXid s))"

lemma normal_precedes_window:
  "in_window base a \<Longrightarrow> in_window base b \<Longrightarrow> NormalTransactionIdPrecedes a b \<longleftrightarrow> uint (a - base) < uint (b - base)"
  using window_precedes [of base a b]
  by (simp add: NormalTransactionIdPrecedes_def TransactionIdPrecedes_def in_window_def)

text \<open>Backends that the snapshot passes over: lazy vacuum and logical decoding.\<close>

definition skipped :: "procarray \<Rightarrow> nat \<Rightarrow> bool" where
  "skipped s p \<longleftrightarrow> flag (vacuumFlags (allPgXact s p)) (PROC_IN_LOGICAL_DECODING OR PROC_IN_VACUUM)"

definition counted :: "procarray \<Rightarrow> TransactionId \<Rightarrow> nat \<Rightarrow> bool" where
  "counted s xmax p \<longleftrightarrow> \<not> skipped s p \<and> TransactionIdIsNormal (pgx_xid (allPgXact s p)) \<and>
     TransactionIdPrecedes (pgx_xid (allPgXact s p)) xmax"

section \<open>The loop of the snapshot\<close>

definition acc_le :: "TransactionId \<Rightarrow> snap_acc \<Rightarrow> snap_acc \<Rightarrow> bool" where
  "acc_le base a b \<longleftrightarrow>
     in_window base (acc_xmin b) \<and> uint (acc_xmin b - base) \<le> uint (acc_xmin a - base) \<and>
     set (acc_xip a) \<subseteq> set (acc_xip b) \<and> set (acc_subxip a) \<subseteq> set (acc_subxip b) \<and>
     (acc_suboverflowed a \<longrightarrow> acc_suboverflowed b)"

definition covers :: "TransactionId \<Rightarrow> nat \<Rightarrow> procarray \<Rightarrow> nat \<Rightarrow> snap_acc \<Rightarrow> bool" where
  "covers base me s p a \<longleftrightarrow>
     (let px = pgx_xid (allPgXact s p) in
      uint (acc_xmin a - base) \<le> uint (px - base) \<and>
      (p \<noteq> me \<longrightarrow> px \<in> set (acc_xip a) \<and>
         (\<not> acc_suboverflowed a \<longrightarrow> \<not> overflowed (allPgXact s p) \<and> set (subxids (allProcs s p)) \<subseteq> set (acc_subxip a))))"

lemma covers_mono: "acc_le base a b \<Longrightarrow> covers base me s p a \<Longrightarrow> covers base me s p b"
  by (auto simp: acc_le_def covers_def Let_def)

lemma acc_le_trans: "acc_le base a b \<Longrightarrow> acc_le base b c \<Longrightarrow> acc_le base a c"
  by (auto simp: acc_le_def)

lemma step_xid_window:
  assumes "proc_ok base s p" "TransactionIdIsNormal (pgx_xid (allPgXact s p))"
  shows "in_window base (pgx_xid (allPgXact s p))"
  using assms by (auto simp: proc_ok_def Let_def special_xids)

lemma snapshot_step_le:
  assumes "proc_ok base s p" "in_window base xmax" "in_window base (acc_xmin a)"
  shows "acc_le base a (snapshot_step me s xmax p a)"
  using assms step_xid_window [OF assms(1)]
  by (auto simp: snapshot_step_def acc_le_def Let_def normal_precedes_window)

lemma snapshot_step_covers:
  assumes "proc_ok base s p" "in_window base xmax" "in_window base (acc_xmin a)" "counted s xmax p"
  shows "covers base me s p (snapshot_step me s xmax p a)"
proof -
  have win: "in_window base (pgx_xid (allPgXact s p))"
    using assms(1,4) step_xid_window by (simp add: counted_def)
  show ?thesis
    using assms(2,3,4) win
    by (auto simp: snapshot_step_def covers_def counted_def skipped_def Let_def normal_precedes_window window_precedes not_less)
qed

lemma snapshot_fold:
  assumes "\<forall>p\<in>set ps. proc_ok base s p" "in_window base xmax" "in_window base (acc_xmin a)"
  shows "acc_le base a (fold (snapshot_step me s xmax) ps a) \<and>
    (\<forall>p\<in>set ps. counted s xmax p \<longrightarrow> covers base me s p (fold (snapshot_step me s xmax) ps a))"
  using assms
proof (induction ps arbitrary: a)
  case Nil
  then show ?case by (simp add: acc_le_def)
next
  case (Cons p ps)
  have ok: "proc_ok base s p" using Cons.prems by simp
  let ?b = "snapshot_step me s xmax p a"
  have le: "acc_le base a ?b"
    by (rule snapshot_step_le [OF ok Cons.prems(2,3)])
  have win: "in_window base (acc_xmin ?b)"
    using le by (simp add: acc_le_def)
  note IH = Cons.IH [OF _ Cons.prems(2) win]
  show ?case
    using IH Cons.prems(1) acc_le_trans [OF le] snapshot_step_covers [OF ok Cons.prems(2,3)] covers_mono
    by auto
qed

text \<open>The shape of a snapshot taken outside recovery.\<close>

lemma get_snapshot:
  assumes "GetSnapshotData False age cid snap v s = (snap', v', s')" "procs_ok base s"
  defines "xmax \<equiv> TransactionIdAdvance (latestCompletedXid s)"
  shows "snap_xmax snap' = xmax \<and> in_window base (snap_xmin snap') \<and> uint (snap_xmin snap' - base) \<le> uint (xmax - base) \<and>
    \<not> takenDuringRecovery snap' \<and> RecentXmin v' = snap_xmin snap' \<and> MyProc v' = MyProc v \<and>
    TransactionXmin v' = (if TransactionIdIsValid (pgx_xmin (allPgXact s (MyProc v))) then TransactionXmin v else snap_xmin snap') \<and>
    (\<forall>p\<in>set (pgprocnos s). counted s xmax p \<longrightarrow>
       covers base (MyProc v) s p \<lparr>acc_globalxmin = 0, acc_xmin = snap_xmin snap', acc_xip = xip snap',
         acc_subxip = subxip snap', acc_suboverflowed = suboverflowed snap'\<rparr>)"
proof -
  define a0 where "a0 = \<lparr>acc_globalxmin = xmax, acc_xmin = xmax, acc_xip = [], acc_subxip = [], acc_suboverflowed = False\<rparr>"
  define a where "a = fold (snapshot_step (MyProc v) s xmax) (pgprocnos s) a0"
  have win: "in_window base xmax"
    using assms(2) by (simp add: procs_ok_def xmax_def)
  have fold: "acc_le base a0 a" "\<forall>p\<in>set (pgprocnos s). counted s xmax p \<longrightarrow> covers base (MyProc v) s p a"
    using snapshot_fold [of "pgprocnos s" base s xmax a0 "MyProc v"] assms(2) win
    by (auto simp: procs_ok_def a_def a0_def)
  have shape: "snap_xmax snap' = xmax" "snap_xmin snap' = acc_xmin a" "xip snap' = acc_xip a" "subxip snap' = acc_subxip a"
    "suboverflowed snap' = acc_suboverflowed a" "\<not> takenDuringRecovery snap'" "RecentXmin v' = acc_xmin a"
    "MyProc v' = MyProc v"
    "TransactionXmin v' = (if TransactionIdIsValid (pgx_xmin (allPgXact s (MyProc v))) then TransactionXmin v else acc_xmin a)"
    using assms(1) by (auto simp: GetSnapshotData_def Let_def a_def a0_def xmax_def)
  show ?thesis
    using fold shape by (auto simp: acc_le_def a0_def covers_def Let_def)
qed

section \<open>The scan for running transactions\<close>

lemma scan_procs_found:
  "scan_procs me s x ps xids = None \<Longrightarrow>
   \<exists>p\<in>set ps. p \<noteq> me \<and> TransactionIdIsValid (pgx_xid (allPgXact s p)) \<and>
     (pgx_xid (allPgXact s p) = x \<or> x \<in> set (subxids (allProcs s p)))"
  by (induction ps arbitrary: xids) (auto simp: Let_def split: if_splits)

lemma scan_procs_overflowed:
  "scan_procs me s x ps xids = Some ys \<Longrightarrow>
   set ys \<subseteq> set xids \<union> {pgx_xid (allPgXact s p) |p. p \<in> set ps \<and> p \<noteq> me \<and>
     TransactionIdIsValid (pgx_xid (allPgXact s p)) \<and> overflowed (allPgXact s p)}"
proof (induction ps arbitrary: xids)
  case (Cons p ps)
  show ?case
    using Cons.prems Cons.IH [of xids] Cons.IH [of "xids @ [pgx_xid (allPgXact s p)]"]
    by (auto simp: Let_def split: if_splits)
qed simp

text \<open>The topmost parent as a total function: the loop's result, or the id itself where it raises an error.\<close>

definition topmost_of :: "subtrans \<Rightarrow> TransactionId \<Rightarrow> TransactionId \<Rightarrow> TransactionId" where
  "topmost_of st h x = (case SubTransGetTopmostTransaction st h x of Some (Inr t) \<Rightarrow> t | _ \<Rightarrow> x)"

text \<open>The parent links of running transactions lead to the id their backend advertises.\<close>

definition links_running :: "subtrans \<Rightarrow> TransactionId \<Rightarrow> procarray \<Rightarrow> bool" where
  "links_running st h s \<longleftrightarrow>
     (\<forall>p\<in>set (pgprocnos s). TransactionIdIsValid (pgx_xid (allPgXact s p)) \<longrightarrow>
        topmost_of st h (pgx_xid (allPgXact s p)) = pgx_xid (allPgXact s p) \<and>
        (\<forall>y\<in>set (subxids (allProcs s p)). topmost_of st h y = pgx_xid (allPgXact s p)))"


lemma topmost_of_ok:
  assumes "subtrans_ok st" "TransactionIdIsNormal h" "TransactionIdIsValid x"
  shows "SubTransGetTopmostTransaction st h x = Some (Inr (topmost_of st h x))"
proof -
  obtain t where "SubTransGetTopmostTransaction st h x = Some (Inr t)"
    using topmost_ok [OF assms] .
  then show ?thesis by (simp add: topmost_of_def)
qed

lemma topmost_old: "TransactionIdIsValid x \<Longrightarrow> TransactionIdPrecedes x h \<Longrightarrow> topmost_of st h x = x"
  by (simp add: topmost_of_def SubTransGetTopmostTransaction_def topmost_loop.simps [of st h x x] Let_def)

text \<open>A parent found in the window is older.\<close>

lemma topmost_window:
  assumes ok: "subtrans_ok st" "TransactionIdIsNormal h" and x: "TransactionIdIsNormal x"
    and t: "topmost_of st h x \<noteq> x" "in_window h (topmost_of st h x)"
  shows "in_window h x \<and> uint (topmost_of st h x - h) < uint (x - h)"
proof -
  have valid: "TransactionIdIsValid x"
    using x by (auto simp: normal_iff valid_iff)
  have "\<not> TransactionIdPrecedes x h"
    using topmost_old [OF valid] t(1) by blast
  then have win: "in_window h x"
    using not_precedes_window [OF ok(2) x] x by (simp add: in_window_def)
  have "in_window h h"
    using ok(2) by (simp add: in_window_def)
  then have "\<not> TransactionIdPrecedes (topmost_of st h x) h"
    using t(2) window_precedes by simp
  with topmost_closer [OF ok topmost_of_ok [OF ok valid] valid] t(1)
  have "unat (topmost_of st h x - h) < unat (x - h)" by blast
  with win show ?thesis
    by (simp add: word_less_nat_alt [symmetric] word_less_def)
qed

section \<open>Snapshots see what runs\<close>

lemma running_in_snapshot:
  assumes snap: "GetSnapshotData False age cid snap v s = (snap', v', s')"
    and ok: "procs_ok (TransactionXmin v') s" "TransactionIdIsNormal (TransactionXmin v')"
    and links: "subtrans_ok st" "links_running st (TransactionXmin v') s"
    and p: "p \<in> set (pgprocnos s)" "p \<noteq> MyProc v" "\<not> skipped s p" "TransactionIdIsValid (pgx_xid (allPgXact s p))"
    and x: "in_window (TransactionXmin v') x" "\<not> TransactionIdPrecedes x (snap_xmin snap')"
    and child: "x = pgx_xid (allPgXact s p) \<or> x \<in> set (subxids (allProcs s p)) \<or>
      overflowed (allPgXact s p) \<and> topmost_of st (TransactionXmin v') x = pgx_xid (allPgXact s p)"
  shows "XidInMVCCSnapshot (topmost_of st (TransactionXmin v')) x snap'"
proof -
  let ?h = "TransactionXmin v'" and ?px = "pgx_xid (allPgXact s p)"
  let ?xmax = "TransactionIdAdvance (latestCompletedXid s)"
  have shape: "snap_xmax snap' = ?xmax" "in_window ?h (snap_xmin snap')" "\<not> takenDuringRecovery snap'"
    "\<forall>p\<in>set (pgprocnos s). counted s ?xmax p \<longrightarrow>
       covers ?h (MyProc v) s p \<lparr>acc_globalxmin = 0, acc_xmin = snap_xmin snap', acc_xip = xip snap',
         acc_subxip = subxip snap', acc_suboverflowed = suboverflowed snap'\<rparr>"
    using get_snapshot [OF snap ok(1)] by blast+
  have proc: "proc_ok ?h s p" and xmax: "in_window ?h ?xmax"
    using ok(1) p(1) by (auto simp: procs_ok_def)
  have px: "in_window ?h ?px" "TransactionIdIsNormal ?px"
    using proc p(4) by (auto simp: proc_ok_def Let_def TransactionIdIsValid_def in_window_def)
  have top: "topmost_of st ?h x = ?px"
    using child links(2) p(1,4) by (auto simp: links_running_def)
  have older: "uint (?px - ?h) \<le> uint (x - ?h)"
  proof (cases "?px = x")
    case False
    then show ?thesis
      using topmost_window [OF links(1) ok(2), of x] x(1) px(1) top by (simp add: in_window_def)
  qed simp
  show ?thesis
  proof (cases "TransactionIdFollowsOrEquals x ?xmax")
    case True
    then show ?thesis using shape x(2) by (simp add: XidInMVCCSnapshot_def)
  next
    case False
    then have "counted s ?xmax p"
      using older px p(3) window_follows_eq [OF x(1) xmax] window_precedes [OF px(1) xmax] by (simp add: counted_def)
    then have cov: "uint (snap_xmin snap' - ?h) \<le> uint (?px - ?h)" "?px \<in> set (xip snap')"
      "\<not> suboverflowed snap' \<longrightarrow> \<not> overflowed (allPgXact s p) \<and> set (subxids (allProcs s p)) \<subseteq> set (subxip snap')"
      using shape(4) p(1,2) by (auto simp: covers_def Let_def)
    have "\<not> TransactionIdPrecedes ?px (snap_xmin snap')"
      using cov(1) window_precedes [OF px(1) shape(2)] by simp
    then show ?thesis
      using shape(1,3) False x(2) cov(2,3) top child by (auto simp: XidInMVCCSnapshot_def Let_def)
  qed
qed

lemma in_progress_cases:
  assumes "TransactionIdIsInProgress False is_current v c st s cache x = Some (Inr (True, cache'))"
    and "\<not> is_current x"
  obtains (latest) "TransactionIdPrecedes (latestCompletedXid s) x"
  | (found) p where "p \<in> set (pgprocnos s)" "p \<noteq> MyProc v" "TransactionIdIsValid (pgx_xid (allPgXact s p))"
      "pgx_xid (allPgXact s p) = x \<or> x \<in> set (subxids (allProcs s p))"
  | (overflow) p where "p \<in> set (pgprocnos s)" "p \<noteq> MyProc v" "TransactionIdIsValid (pgx_xid (allPgXact s p))"
      "overflowed (allPgXact s p)" "SubTransGetTopmostTransaction st (TransactionXmin v) x = Some (Inr (pgx_xid (allPgXact s p)))"
      "pgx_xid (allPgXact s p) \<noteq> x"
proof (cases "TransactionIdPrecedes (latestCompletedXid s) x")
  case True
  then show ?thesis by (rule latest)
next
  case False
  show ?thesis
  proof (cases "scan_procs (MyProc v) s x (pgprocnos s) []")
    case None
    then show ?thesis using found scan_procs_found [OF None] by blast
  next
    case (Some ys)
    then have "check_subtrans c st (TransactionXmin v) cache x ys = Some (Inr (True, cache'))"
      using assms False by (auto simp: TransactionIdIsInProgress_def split: if_splits)
    then obtain t where "SubTransGetTopmostTransaction st (TransactionXmin v) x = Some (Inr t)" "t \<noteq> x" "t \<in> set ys"
      by (auto simp: check_subtrans_def split: if_splits option.splits bool.splits sum.splits prod.splits)
    then show ?thesis
      using scan_procs_overflowed [OF Some] overflow by auto
  qed
qed

lemma in_progress_recent:
  "TransactionIdIsInProgress False is_current v c st s cache x = Some (Inr (True, cache')) \<Longrightarrow>
   \<not> TransactionIdPrecedes x (RecentXmin v)"
  by (auto simp: TransactionIdIsInProgress_def split: if_splits)

section \<open>The answer of the progress test\<close>

text \<open>A backend runs an id: it is the backend's own id, a cached subtransaction, or a subtransaction that was not
  cached and is linked to the backend's id.\<close>

definition runs :: "subtrans \<Rightarrow> TransactionId \<Rightarrow> procarray \<Rightarrow> nat \<Rightarrow> TransactionId \<Rightarrow> bool" where
  "runs st h s p x \<longleftrightarrow>
     (let px = pgx_xid (allPgXact s p) in TransactionIdIsValid px \<and>
      (x = px \<or> x \<in> set (subxids (allProcs s p)) \<or> overflowed (allPgXact s p) \<and> topmost_of st h x = px))"

definition runs_cached :: "procarray \<Rightarrow> nat \<Rightarrow> TransactionId \<Rightarrow> bool" where
  "runs_cached s p x \<longleftrightarrow> TransactionIdIsValid (pgx_xid (allPgXact s p)) \<and>
     (x = pgx_xid (allPgXact s p) \<or> x \<in> set (subxids (allProcs s p)))"

definition run_by_other :: "nat \<Rightarrow> clog \<Rightarrow> subtrans \<Rightarrow> TransactionId \<Rightarrow> procarray \<Rightarrow> TransactionId \<Rightarrow> bool" where
  "run_by_other me c st h s x \<longleftrightarrow>
     (\<exists>p\<in>set (pgprocnos s). p \<noteq> me \<and>
        (runs_cached s p x \<or> runs st h s p x \<and> \<not> did_abort c st h x))"

lemma subxid_not_before:
  assumes "proc_ok h s p" "y \<in> set (subxids (allProcs s p))"
  shows "\<not> TransactionIdPrecedes y (pgx_xid (allPgXact s p))"
  using assms window_precedes [of h y "pgx_xid (allPgXact s p)"] window_precedes [of h "pgx_xid (allPgXact s p)" y]
  by (cases "pgx_xid (allPgXact s p) = InvalidTransactionId") (auto simp: proc_ok_def Let_def)

lemma scan_procs_cached:
  "\<forall>p\<in>set ps. proc_ok h s p \<Longrightarrow> scan_procs me s x ps xids = None \<longleftrightarrow> (\<exists>p\<in>set ps. p \<noteq> me \<and> runs_cached s p x)"
proof (induction ps arbitrary: xids)
  case (Cons p ps)
  then show ?case
    using subxid_not_before [of h s p x] by (auto simp: Let_def runs_cached_def)
qed simp

lemma scan_procs_list:
  "scan_procs me s x ps xids = Some ys \<Longrightarrow>
   set ys = set xids \<union> {pgx_xid (allPgXact s p) |p. p \<in> set ps \<and> p \<noteq> me \<and> TransactionIdIsValid (pgx_xid (allPgXact s p)) \<and>
     overflowed (allPgXact s p) \<and> \<not> TransactionIdPrecedes x (pgx_xid (allPgXact s p))}"
proof (induction ps arbitrary: xids)
  case (Cons p ps)
  show ?case
    using Cons.prems Cons.IH [of xids] Cons.IH [of "xids @ [pgx_xid (allPgXact s p)]"]
    by (auto simp: Let_def split: if_splits)
qed simp

lemma check_subtrans_answer:
  assumes "subtrans_ok st" "TransactionIdIsNormal h" "cache_ok c cache" "TransactionIdIsValid x"
  shows "\<exists>b k. check_subtrans c st h cache x xids = Some (Inr (b, k)) \<and> cache_ok c k \<and>
    (b \<longleftrightarrow> \<not> did_abort c st h x \<and> topmost_of st h x \<noteq> x \<and> topmost_of st h x \<in> set xids)"
proof -
  obtain b k where r: "TransactionIdDidAbort c st h cache x = Some (b, k)"
    using DidAbort_ends [OF assms(1,2)] by (metis surj_pair)
  from DidAbort_result [OF r] assms(3,4) have "b \<longleftrightarrow> did_abort c st h x" "cache_ok c k" by simp_all
  then show ?thesis
    using r topmost_of_ok [OF assms(1,2,4)] assms(3)
    by (cases b) (auto simp: check_subtrans_def)
qed

lemma in_progress_answer:
  assumes links: "subtrans_ok st" "TransactionIdIsNormal (TransactionXmin v)" "cache_ok c cache" "TransactionIdIsValid x"
    and ok: "\<forall>p\<in>set (pgprocnos s). proc_ok (TransactionXmin v) s p"
  shows "\<exists>b k. TransactionIdIsInProgress False is_current v c st s cache x = Some (Inr (b, k)) \<and> cache_ok c k \<and>
    (b \<longleftrightarrow> \<not> TransactionIdPrecedes x (RecentXmin v) \<and> \<not> TransactionIdIsKnownCompleted cache x \<and>
      (is_current x \<or> TransactionIdPrecedes (latestCompletedXid s) x \<or>
       run_by_other (MyProc v) c st (TransactionXmin v) s x))"
proof -
  let ?h = "TransactionXmin v"
  show ?thesis
  proof (cases "scan_procs (MyProc v) s x (pgprocnos s) []")
    case None
    then have "run_by_other (MyProc v) c st ?h s x"
      using scan_procs_cached [OF ok] by (auto simp: run_by_other_def)
    then show ?thesis using None links(3) by (auto simp: TransactionIdIsInProgress_def)
  next
    case (Some ys)
    have none: "\<not> runs_cached s p x" if "p \<in> set (pgprocnos s)" "p \<noteq> MyProc v" for p
      using that scan_procs_cached [OF ok, of "MyProc v" x "[]"] Some by auto
    have before: "\<not> TransactionIdPrecedes x (pgx_xid (allPgXact s p))"
      if p: "p \<in> set (pgprocnos s)" "TransactionIdIsValid (pgx_xid (allPgXact s p))" and t: "topmost_of st ?h x = pgx_xid (allPgXact s p)" for p
    proof (cases "topmost_of st ?h x = x")
      case True
      then show ?thesis using t window_precedes [of "pgx_xid (allPgXact s p)"] by (simp add: TransactionIdPrecedes_def xid_diff_def)
    next
      case False
      have win: "in_window ?h (pgx_xid (allPgXact s p))"
        using p ok by (auto simp: proc_ok_def Let_def TransactionIdIsValid_def)
      have "\<not> TransactionIdPrecedes x ?h"
        using topmost_old [OF links(4)] False by blast
      then have "TransactionIdIsNormal x"
        using valid_special_precedes [OF links(2)] by blast
      then show ?thesis
        using topmost_window [OF links(1,2) _ False] win t window_precedes [of ?h x] by auto
    qed
    have other: "run_by_other (MyProc v) c st ?h s x \<longleftrightarrow>
        \<not> did_abort c st ?h x \<and> topmost_of st ?h x \<noteq> x \<and> topmost_of st ?h x \<in> set ys"
      using none before scan_procs_list [OF Some] by (auto simp: run_by_other_def runs_def runs_cached_def Let_def)
    show ?thesis
      using Some links(3) check_subtrans_answer [OF links, of ys] other by (auto simp: TransactionIdIsInProgress_def)
  qed
qed

section \<open>Ending a transaction\<close>

lemma advance_latest_simps [simp]:
  "pgprocnos (advance_latest l s) = pgprocnos s" "allProcs (advance_latest l s) = allProcs s"
  "allPgXact (advance_latest l s) = allPgXact s"
  by (simp_all add: advance_latest_def)

lemma advance_latest_window:
  assumes "in_window base l" "in_window base (latestCompletedXid s)"
  shows "in_window base (latestCompletedXid (advance_latest l s)) \<and>
    uint (latestCompletedXid (advance_latest l s) - base) = max (uint (l - base)) (uint (latestCompletedXid s - base))"
  using assms by (auto simp: advance_latest_def window_precedes)

lemma end_internal_shape:
  "pgprocnos (ProcArrayEndTransactionInternal p l s) = pgprocnos s"
  "pgx_xid (allPgXact (ProcArrayEndTransactionInternal p l s) q) = (if q = p then InvalidTransactionId else pgx_xid (allPgXact s q))"
  "subxids (allProcs (ProcArrayEndTransactionInternal p l s) q) = (if q = p then [] else subxids (allProcs s q))"
  "overflowed (allPgXact (ProcArrayEndTransactionInternal p l s) q) \<longleftrightarrow> q \<noteq> p \<and> overflowed (allPgXact s q)"
  "pgx_xmin (allPgXact (ProcArrayEndTransactionInternal p l s) q) = (if q = p then InvalidTransactionId else pgx_xmin (allPgXact s q))"
  by (simp_all add: ProcArrayEndTransactionInternal_def Let_def)

lemma end_internal_latest:
  assumes "in_window base l" "in_window base (latestCompletedXid s)"
  shows "in_window base (latestCompletedXid (ProcArrayEndTransactionInternal p l s)) \<and>
    uint (latestCompletedXid (ProcArrayEndTransactionInternal p l s) - base) =
      max (uint (l - base)) (uint (latestCompletedXid s - base))"
proof -
  have "latestCompletedXid (ProcArrayEndTransactionInternal p l s) = latestCompletedXid (advance_latest l s)"
    by (simp add: ProcArrayEndTransactionInternal_def Let_def advance_latest_def)
  then show ?thesis using advance_latest_window [OF assms] by simp
qed

lemma end_internal_proc_ok:
  "proc_ok h s q \<Longrightarrow> proc_ok h (ProcArrayEndTransactionInternal p l s) q"
  by (simp add: proc_ok_def end_internal_shape)

lemma end_internal_runs:
  "runs st h (ProcArrayEndTransactionInternal p l s) q x \<longleftrightarrow> q \<noteq> p \<and> runs st h s q x"
  "runs_cached (ProcArrayEndTransactionInternal p l s) q x \<longleftrightarrow> q \<noteq> p \<and> runs_cached s q x"
  by (auto simp: runs_def runs_cached_def end_internal_shape Let_def TransactionIdIsValid_def)

text \<open>The group leader's walk: the members are cleared and everything else stays.\<close>

lemma group_clear_Cons:
  "ProcArrayGroupClear (m # ms) s = ProcArrayGroupClear ms (ProcArrayEndTransactionInternal (fst m) (snd m) s)"
  by (simp add: ProcArrayGroupClear_def case_prod_beta)

lemma group_clear_runs:
  "pgprocnos (ProcArrayGroupClear ms s) = pgprocnos s \<and>
   (runs st h (ProcArrayGroupClear ms s) q x \<longleftrightarrow> q \<notin> fst ` set ms \<and> runs st h s q x) \<and>
   (runs_cached (ProcArrayGroupClear ms s) q x \<longleftrightarrow> q \<notin> fst ` set ms \<and> runs_cached s q x)"
proof (induction ms arbitrary: s)
  case (Cons m ms)
  then show ?case by (auto simp: group_clear_Cons end_internal_shape end_internal_runs)
qed (simp add: ProcArrayGroupClear_def)

lemma group_clear_proc_ok: "proc_ok h s q \<Longrightarrow> proc_ok h (ProcArrayGroupClear ms s) q"
  by (induction ms arbitrary: s) (simp_all add: group_clear_Cons end_internal_proc_ok, simp add: ProcArrayGroupClear_def)

lemma group_clear_latest:
  assumes "\<forall>m\<in>set ms. in_window base (snd m)" "in_window base (latestCompletedXid s)"
  shows "in_window base (latestCompletedXid (ProcArrayGroupClear ms s)) \<and>
    uint (latestCompletedXid s - base) \<le> uint (latestCompletedXid (ProcArrayGroupClear ms s) - base) \<and>
    (\<forall>m\<in>set ms. uint (snd m - base) \<le> uint (latestCompletedXid (ProcArrayGroupClear ms s) - base))"
  using assms
proof (induction ms arbitrary: s)
  case (Cons m ms)
  show ?case
    using Cons.IH [of "ProcArrayEndTransactionInternal (fst m) (snd m) s"] Cons.prems
      end_internal_latest [of base "snd m" s "fst m"]
    by (auto simp: group_clear_Cons)
qed (simp add: ProcArrayGroupClear_def)

lemma end_transaction_parts:
  assumes links: "subtrans_ok st" "TransactionIdIsNormal (TransactionXmin v)" "cache_ok c cache" "TransactionIdIsValid x"
    and ok: "procs_ok (TransactionXmin v) s" "\<forall>m\<in>set ms. in_window (TransactionXmin v) (snd m)"
    and s': "s' = ProcArrayGroupClear ms s"
  shows "(p, l) \<in> set ms \<Longrightarrow> runs st (TransactionXmin v) s p x \<Longrightarrow> in_window (TransactionXmin v) x \<Longrightarrow>
      \<not> TransactionIdPrecedes l x \<Longrightarrow> \<forall>q\<in>set (pgprocnos s). runs st (TransactionXmin v) s q x \<longrightarrow> q \<in> fst ` set ms \<Longrightarrow>
      \<not> is_current x \<Longrightarrow>
      \<exists>k. TransactionIdIsInProgress False is_current v c st s' cache x = Some (Inr (False, k))"
    and "q \<in> set (pgprocnos s) \<Longrightarrow> q \<notin> fst ` set ms \<Longrightarrow> q \<noteq> MyProc v \<Longrightarrow> runs_cached s q x \<Longrightarrow>
      \<not> TransactionIdPrecedes x (RecentXmin v) \<Longrightarrow> \<not> TransactionIdIsKnownCompleted cache x \<Longrightarrow>
      \<exists>k. TransactionIdIsInProgress False is_current v c st s' cache x = Some (Inr (True, k))"
proof -
  let ?h = "TransactionXmin v"
  have procs: "\<forall>p\<in>set (pgprocnos s'). proc_ok ?h s' p"
    using ok(1) group_clear_proc_ok group_clear_runs [of ms s st ?h] by (simp add: s' procs_ok_def)
  note ans = in_progress_answer [OF links procs]
  have late: "\<forall>m\<in>set ms. uint (snd m - ?h) \<le> uint (latestCompletedXid s' - ?h)" "in_window ?h (latestCompletedXid s')"
    using group_clear_latest [OF ok(2), of s] ok(1) by (simp_all add: s' procs_ok_def)
  note clear = group_clear_runs [of ms s st ?h, folded s']
  show "\<exists>k. TransactionIdIsInProgress False is_current v c st s' cache x = Some (Inr (False, k))"
    if m: "(p, l) \<in> set ms" and run: "runs st ?h s p x" and x: "in_window ?h x" and l: "\<not> TransactionIdPrecedes l x"
      and only: "\<forall>q\<in>set (pgprocnos s). runs st ?h s q x \<longrightarrow> q \<in> fst ` set ms" and cur: "\<not> is_current x"
  proof -
    have "in_window ?h l" "uint (l - ?h) \<le> uint (latestCompletedXid s' - ?h)"
      using m ok(2) late(1) by force+
    then have "\<not> TransactionIdPrecedes (latestCompletedXid s') x"
      using l x late(2) by (simp add: window_precedes)
    moreover have "runs_cached s q x \<Longrightarrow> runs st ?h s q x" for q
      by (auto simp: runs_cached_def runs_def Let_def)
    then have "\<not> run_by_other (MyProc v) c st ?h s' x"
      using only clear by (auto simp: run_by_other_def)
    ultimately show ?thesis using ans [of is_current] cur by auto
  qed
  show "\<exists>k. TransactionIdIsInProgress False is_current v c st s' cache x = Some (Inr (True, k))"
    if "q \<in> set (pgprocnos s)" "q \<notin> fst ` set ms" "q \<noteq> MyProc v" "runs_cached s q x"
      "\<not> TransactionIdPrecedes x (RecentXmin v)" "\<not> TransactionIdIsKnownCompleted cache x"
  proof -
    have "run_by_other (MyProc v) c st ?h s' x"
      using that clear by (auto simp: run_by_other_def)
    then show ?thesis using ans [of is_current] that by auto
  qed
qed

text \<open>A transaction that ends alone is a group of one.\<close>

lemma end_transaction_single: "TransactionIdIsValid l \<Longrightarrow> ProcArrayEndTransaction p l s = ProcArrayGroupClear [(p, l)] s"
  by (simp add: ProcArrayEndTransaction_def ProcArrayGroupClear_def)

text \<open>A small cluster: backend 0 (this one) in transaction 100, backend 1 in transaction 101 with the
  subtransaction 103; the last completed id is 104.\<close>

definition proc0 :: PGPROC where
  "proc0 = \<lparr>lxid = 1, pid = 1, databaseId = 1, recoveryConflictPending = False, subxids = []\<rparr>"

definition pgx0 :: PGXACT where
  "pgx0 = \<lparr>pgx_xid = 100, pgx_xmin = 0, vacuumFlags = 0, overflowed = False, delayChkpt = False\<rparr>"

definition pa0 :: procarray where
  "pa0 = \<lparr>pgprocnos = [0, 1], maxProcs = 4, lastOverflowedXid = 0, replication_slot_xmin = 0,
     replication_slot_catalog_xmin = 0,
     allProcs = (\<lambda>_. proc0)(1 := proc0\<lparr>subxids := [103]\<rparr>), allPgXact = (\<lambda>_. pgx0)(1 := pgx0\<lparr>pgx_xid := 101\<rparr>),
     knownXids = \<lparr>KnownAssignedXids = [0, 0], KnownAssignedXidsValid = [False, False], numKnownAssignedXids = 0,
       tailKnownAssignedXids = 0, headKnownAssignedXids = 0, PROCARRAY_MAXPROCS = 1\<rparr>,
     latestCompletedXid = 104\<rparr>"

definition vars0 :: backend_vars where
  "vars0 = \<lparr>MyProc = 0, MyDatabaseId = 1, TransactionXmin = 0, RecentXmin = 0, RecentGlobalXmin = 0, RecentGlobalDataXmin = 0\<rparr>"

lemma running_seen:
  assumes snap: "GetSnapshotData False age cid snap v s = (snap', v', s')"
    and ok: "procs_ok (TransactionXmin v') s" "TransactionIdIsNormal (TransactionXmin v')"
    and links: "subtrans_ok st" "links_running st (TransactionXmin v') s"
    and others: "\<forall>p\<in>set (pgprocnos s). p \<noteq> MyProc v \<longrightarrow> \<not> skipped s p"
    and run: "TransactionIdIsInProgress False is_current v' c st s cache x = Some (Inr (True, cache'))" "\<not> is_current x"
  shows "XidInMVCCSnapshot (topmost_of st (TransactionXmin v')) x snap'"
proof -
  let ?h = "TransactionXmin v'"
  have shape: "snap_xmax snap' = TransactionIdAdvance (latestCompletedXid s)" "in_window ?h (snap_xmin snap')"
    "RecentXmin v' = snap_xmin snap'" "MyProc v' = MyProc v"
    using get_snapshot [OF snap ok(1)] by blast+
  have after: "\<not> TransactionIdPrecedes x (snap_xmin snap')"
    using in_progress_recent [OF run(1)] shape(3) by simp
  then have normal: "TransactionIdIsNormal x"
    using shape(2) by (auto simp: TransactionIdPrecedes_def in_window_def normal_iff word_less_nat_alt word_le_nat_alt split: if_splits)
  have cons: "XidInMVCCSnapshot (topmost_of st ?h) x snap'" if "p \<in> set (pgprocnos s)" "p \<noteq> MyProc v"
    "TransactionIdIsValid (pgx_xid (allPgXact s p))" "in_window ?h x"
    "x = pgx_xid (allPgXact s p) \<or> x \<in> set (subxids (allProcs s p)) \<or>
      overflowed (allPgXact s p) \<and> topmost_of st ?h x = pgx_xid (allPgXact s p)" for p
    using that others running_in_snapshot [OF snap ok links _ _ _ _ _ after] by blast
  have win: "in_window ?h (pgx_xid (allPgXact s p)) \<and> (\<forall>y\<in>set (subxids (allProcs s p)). in_window ?h y)"
    if "p \<in> set (pgprocnos s)" "TransactionIdIsValid (pgx_xid (allPgXact s p))" for p
    using that ok(1) by (auto simp: procs_ok_def proc_ok_def Let_def TransactionIdIsValid_def)
  show ?thesis
    using run
  proof (cases rule: in_progress_cases)
    case latest
    have "TransactionIdIsNormal (latestCompletedXid s)"
      using ok(1) by (simp add: procs_ok_def in_window_def)
    then have "TransactionIdFollowsOrEquals x (snap_xmax snap')"
      using after_latest latest normal shape(1) by simp
    then show ?thesis using after by (simp add: XidInMVCCSnapshot_def)
  next
    case (found p)
    then show ?thesis using cons [of p] win [of p] shape(4) by auto
  next
    case (overflow p)
    have "TransactionIdIsValid x" using normal by (auto simp: normal_iff valid_iff)
    then have "topmost_of st ?h x = pgx_xid (allPgXact s p)"
      using overflow(5) by (simp add: topmost_of_def)
    then show ?thesis
      using cons [of p] win [of p] overflow shape(4) topmost_window [OF links(1) ok(2) normal] by auto
  qed
qed

section \<open>Properties\<close>

text \<open>C30: a snapshot contains everything that runs. Whatever transaction \<^verbatim>\<open>TransactionIdIsInProgress\<close> reports
  as running in another backend, when asked in the state in which the snapshot was taken, is in progress
  according to \<^verbatim>\<open>XidInMVCCSnapshot\<close>: also if subtransactions overflowed the shared cache and are found
  through \<^verbatim>\<open>pg_subtrans\<close> only. The ids in use span less than half the id space, and no other backend is
  left out of snapshots for being a vacuum or a logical decoder.\<close>

theorem snapshot_sees_running:
  assumes snap: "GetSnapshotData False age cid snap v s = (snap', v', s')"
    and ok: "procs_ok (TransactionXmin v') s" "TransactionIdIsNormal (TransactionXmin v')"
    and links: "subtrans_ok st" "links_running st (TransactionXmin v') s"
    and others: "\<forall>p\<in>set (pgprocnos s). p \<noteq> MyProc v \<longrightarrow> \<not> skipped s p"
    and run: "TransactionIdIsInProgress False is_current v' c st s cache x = Some (Inr (True, cache'))" "\<not> is_current x"
  shows "XidInMVCCSnapshot (topmost_of st (TransactionXmin v')) x snap'"
  by (rule running_seen [OF assms])

definition st0 :: subtrans where
  "st0 = SubTransSetParent 103 101 subtrans_empty"

lemma st0_facts: "subtrans_ok st0" "topmost_of st0 100 100 = 100" "topmost_of st0 100 101 = 101" "topmost_of st0 100 103 = 101"
proof -
  show "subtrans_ok st0"
    unfolding st0_def
    by (rule st_log.links_ok_set [OF subtrans_empty_ok]) (simp_all add: normal_iff TransactionIdPrecedes_def xid_diff_uint)
  have "SubTransGetParent st0 y = (if y = 103 then 101 else SubTransGetParent subtrans_empty y)" for y
    unfolding st0_def by (rule st_log.get_set) (simp_all add: normal_iff TransactionIdPrecedes_def xid_diff_uint)
  then have "SubTransGetParent st0 100 = 0" "SubTransGetParent st0 101 = 0" "SubTransGetParent st0 103 = 101"
    by (simp_all add: SubTransGetParent_def [of "subtrans_empty"]) (simp_all add: subtrans_empty_def special_xids)
  then show "topmost_of st0 100 100 = 100" "topmost_of st0 100 101 = 101" "topmost_of st0 100 103 = 101"
    by (simp_all add: topmost_of_def SubTransGetTopmostTransaction_def Let_def special_xids
        topmost_loop.simps [of st0 100 100 100] topmost_loop.simps [of st0 100 101 101]
        topmost_loop.simps [of st0 100 0 100] topmost_loop.simps [of st0 100 0 101]
        topmost_loop.simps [of st0 100 103 103] topmost_loop.simps [of st0 100 101 103]
        normal_iff TransactionIdPrecedes_def xid_diff_uint valid_iff)
qed

lemma pa0_ok: "procs_ok 100 pa0" "links_running st0 100 pa0"
  using st0_facts
  by (simp_all add: procs_ok_def links_running_def proc_ok_def Let_def pa0_def pgx0_def proc0_def special_xids in_window_def
      normal_iff TransactionIdPrecedes_def xid_diff_uint TransactionIdAdvance_def)

definition snap1 :: SnapshotData where
  "snap1 = snap0\<lparr>snap_xmin := 100, snap_xmax := 105, xip := [101], subxip := [103], suboverflowed := False,
     takenDuringRecovery := False, curcid := 0\<rparr>"

definition vars1 :: backend_vars where
  "vars1 = vars0\<lparr>TransactionXmin := 100, RecentXmin := 100, RecentGlobalXmin := 100, RecentGlobalDataXmin := 100\<rparr>"

lemma pa0_snapshot: "fst (GetSnapshotData False 0 0 snap0 vars0 pa0) = snap1" "fst (snd (GetSnapshotData False 0 0 snap0 vars0 pa0)) = vars1"
  by code_simp+

theorem snapshot_sees_running_witness: "XidInMVCCSnapshot (topmost_of st0 100) 103 snap1"
proof -
  obtain s' where snap: "GetSnapshotData False 0 0 snap0 vars0 pa0 = (snap1, vars1, s')"
    using pa0_snapshot by (metis prod.collapse)
  have run: "TransactionIdIsInProgress False (\<lambda>x. x = 100) vars1 clog_empty st0 pa0 cache_empty 103 = Some (Inr (True, cache_empty))"
    by (simp add: TransactionIdIsInProgress_def TransactionIdIsKnownCompleted_def vars1_def vars0_def pa0_def pgx0_def proc0_def
      cache_empty_def Let_def valid_iff normal_iff TransactionIdPrecedes_def xid_diff_uint)
  have "TransactionXmin vars1 = 100" "MyProc vars0 = 0"
    by (simp_all add: vars1_def vars0_def)
  then show ?thesis
    using snapshot_sees_running [OF snap _ _ st0_facts(1) _ _ run] pa0_ok
    by (simp add: normal_iff skipped_def pa0_def pgx0_def flag_def)
qed

text \<open>C31: the progress test is exact. In a sane array it always answers, and it says yes exactly for
  the ids that are not older than every snapshot, not known to have finished, and that are the backend's own,
  newer than the last completed one, or run by another backend: as its main id, as a cached subtransaction,
  or, when the cache overflowed, as a subtransaction that \<^verbatim>\<open>pg_subtrans\<close> links to it and that did not abort.\<close>

theorem in_progress_exact:
  assumes "subtrans_ok st" "TransactionIdIsNormal (TransactionXmin v)" "cache_ok c cache" "TransactionIdIsValid x"
    and "procs_ok (TransactionXmin v) s"
  shows "\<exists>b k. TransactionIdIsInProgress False is_current v c st s cache x = Some (Inr (b, k)) \<and> cache_ok c k \<and>
    (b \<longleftrightarrow> \<not> TransactionIdPrecedes x (RecentXmin v) \<and> \<not> TransactionIdIsKnownCompleted cache x \<and>
      (is_current x \<or> TransactionIdPrecedes (latestCompletedXid s) x \<or>
       run_by_other (MyProc v) c st (TransactionXmin v) s x))"
  using assms by (intro in_progress_answer) (simp_all add: procs_ok_def)

theorem in_progress_exact_witness:
  "\<exists>b k. TransactionIdIsInProgress False (\<lambda>x. x = 100) vars1 clog_empty st0 pa0 cache_empty 103 = Some (Inr (b, k)) \<and> cache_ok clog_empty k"
proof -
  have "TransactionXmin vars1 = 100" by (simp add: vars1_def)
  then show ?thesis
    using in_progress_exact [OF st0_facts(1) _ cache_empty_ok, of vars1 103 pa0 "\<lambda>x. x = 100"] pa0_ok(1)
    by (fastforce simp: normal_iff valid_iff)
qed

text \<open>C32: ending transactions, alone or as a group under one leader. Once the members are cleared, every id
  their backends ran is reported as finished, if each member passed the latest id of its tree and ids are run by
  one backend only; a transaction of a backend outside the group is still reported as running.\<close>

theorem end_transaction_finishes:
  assumes "subtrans_ok st" "TransactionIdIsNormal (TransactionXmin v)" "cache_ok c cache" "TransactionIdIsValid x"
    and "procs_ok (TransactionXmin v) s" "\<forall>m\<in>set ms. in_window (TransactionXmin v) (snd m)"
    and "s' = ProcArrayGroupClear ms s"
  shows "((p, l) \<in> set ms \<and> runs st (TransactionXmin v) s p x \<and> in_window (TransactionXmin v) x \<and>
       \<not> TransactionIdPrecedes l x \<and> (\<forall>q\<in>set (pgprocnos s). runs st (TransactionXmin v) s q x \<longrightarrow> q \<in> fst ` set ms) \<and>
       \<not> is_current x \<longrightarrow>
       (\<exists>k. TransactionIdIsInProgress False is_current v c st s' cache x = Some (Inr (False, k)))) \<and>
    (q \<in> set (pgprocnos s) \<and> q \<notin> fst ` set ms \<and> q \<noteq> MyProc v \<and> runs_cached s q x \<and>
       \<not> TransactionIdPrecedes x (RecentXmin v) \<and> \<not> TransactionIdIsKnownCompleted cache x \<longrightarrow>
       (\<exists>k. TransactionIdIsInProgress False is_current v c st s' cache x = Some (Inr (True, k))))"
  using end_transaction_parts [OF assms] by blast

theorem end_transaction_finishes_witness:
  "\<exists>k. TransactionIdIsInProgress False (\<lambda>x. x = 100) vars1 clog_empty st0 (ProcArrayGroupClear [(1, 103)] pa0) cache_empty 103
     = Some (Inr (False, k))"
proof -
  have "TransactionXmin vars1 = 100" by (simp add: vars1_def)
  moreover have "runs st0 100 pa0 q 103 \<longleftrightarrow> q = 1" for q
    by (auto simp: runs_def pa0_def pgx0_def proc0_def valid_iff)
  ultimately show ?thesis
    using end_transaction_finishes [OF st0_facts(1) _ cache_empty_ok, of vars1 103 pa0 "[(1, 103)]" _ 1 103 "\<lambda>x. x = 100"] pa0_ok(1)
    by (simp add: normal_iff valid_iff in_window_def TransactionIdPrecedes_def xid_diff_uint)
qed

end
