(* ===== verification/Session_Main.thy ===== *)
theory Session_Main
  imports Session_Props Procarray_Props
begin

text \<open>
  A backend from its start: the client's view is implemented by every query, every state it can
  reach between two queries is one of idle, open and failed, and the status the client is told is
  the right one.
\<close>

section \<open>A backend that has just started\<close>

definition TopTransactionStateData :: TransactionStateData where
  "TopTransactionStateData =
     \<lparr>fullTransactionId = InvalidFullTransactionId, subTransactionId = 0, spname = None, savepointLevel = 0,
      trans_state = TRANS_DEFAULT, blockState = TBLOCK_DEFAULT, nestingLevel = 0, childXids = [], prevXactReadOnly = False,
      startedInRecovery = False, didLogXid = False, parallelModeLevel = 0, chain = False, curTransactionOwner = False\<rparr>"

definition xact0 :: xact where
  "xact0 = \<lparr>stack = [TopTransactionStateData], currentSubTransactionId = 0, currentCommandId = 0, currentCommandIdUsed = False,
     XactTopFullTransactionId = InvalidFullTransactionId, ParallelCurrentXids = [], unreportedXids = [], prepareGID = None,
     forceSyncCommit = False, XactReadOnly = False, XactDeferrable = False, XactIsoLevel = 1, save_XactReadOnly = False,
     save_XactDeferrable = False, save_XactIsoLevel = 1, XactLastRecEnd = 0, walEnd = 1000, pendingDeletes = 0,
     FirstSnapshotSet = False, deferredError = False, nextLocalTransactionId = 1, fetchCache = cache_empty, backend = vars0,
     xsys = sys0 \<lparr>fxid_value = 700\<rparr> pa0\<rparr>"

definition config0 :: config where
  "config0 = \<lparr>DefaultXactReadOnly = False, DefaultXactDeferrable = False, DefaultXactIsoLevel = 1, RecoveryInProgress = False,
     IsUnderPostmaster = True, IsParallelWorker = False, XLogStandbyInfoActive = True, XLogLogicalInfoActive = False,
     synchronousCommit = True, recordLength = 32, markAsPreparing = (\<lambda>_ _. True), 
     othersMeanwhile = (\<lambda>y. snd (take_xid 1 False y))\<rparr>"

definition tstmt :: "TransactionStmtKind \<Rightarrow> string \<Rightarrow> bool \<Rightarrow> RawStmt" where
  "tstmt k n ch = TransactionStmt \<lparr>stmt_kind = k, stmt_options = [], savepoint_name = n, stmt_gid = n, stmt_chain = ch\<rparr>"

fun run_queries :: "RawStmt list list \<Rightarrow> xact \<Rightarrow> (xact_reason option \<times> xact) option" where
  "run_queries [] s = None"
| "run_queries (q # qs) s =
     (case PostgresMain_query config0 (\<lambda>_ _. True) (Some q) s of
        Ready r s' \<Rightarrow> if qs = [] then Some (r, s') else run_queries qs s'
      | Exited _ _ \<Rightarrow> None)"

definition blocks_after :: "RawStmt list list \<Rightarrow> (xact_reason option \<times> TBlockState list) option" where
  "blocks_after qs = map_option (\<lambda>(r, s). (r, map blockState (stack s))) (run_queries qs xact0)"

lemma resting_start: "resting Idle [TopTransactionStateData]"
  by (simp add: TopTransactionStateData_def based_def)

text \<open>C1: the main loop of a backend implements the transaction block a client sees. Started between two queries, with the
  stack of transaction states in a shape that stands for a block \<open>b\<close> (idle, open or failed, with its savepoints), a query of any
  statements ends between two queries again: without an error in the block \<open>ok_steps\<close> gives, with an error in one that
  \<open>error_steps\<close> allows. No branch for an unexpected state (\<^verbatim>\<open>FATAL\<close>) is ever reached; the backend stops only when
  the commit log contradicts an abort (\<^verbatim>\<open>PANIC\<close>).\<close>

theorem query_refines_block:
  assumes "resting b (stack s)"
  shows "case PostgresMain_query cf fp q s of
     Ready r s' \<Rightarrow> \<exists>b'. query_steps q b r b' \<and> resting b' (stack s')
   | Exited e s' \<Rightarrow> \<exists>x. e = Xerror PANIC x"
  using assms by (rule query_outcome)

definition savepoint_query :: "RawStmt list" where
  "savepoint_query = [tstmt TRANS_STMT_BEGIN [] False, tstmt TRANS_STMT_SAVEPOINT ''a'' False]"

theorem query_refines_block_witness:
  "(case PostgresMain_query config0 (\<lambda>_ _. True) (Some savepoint_query) xact0 of
      Ready r s' \<Rightarrow> \<exists>b'. query_steps (Some savepoint_query) Idle r b' \<and> resting b' (stack s')
    | Exited e s' \<Rightarrow> \<exists>x. e = Xerror PANIC x)
   \<and> blocks_after [savepoint_query] = Some (None, [TBLOCK_SUBINPROGRESS, TBLOCK_INPROGRESS])"
proof (rule conjI)
  show "case PostgresMain_query config0 (\<lambda>_ _. True) (Some savepoint_query) xact0 of
      Ready r s' \<Rightarrow> \<exists>b'. query_steps (Some savepoint_query) Idle r b' \<and> resting b' (stack s')
    | Exited e s' \<Rightarrow> \<exists>x. e = Xerror PANIC x"
    by (rule query_refines_block) (simp only: resting_start xact0_def xact.simps)
  show "blocks_after [savepoint_query] = Some (None, [TBLOCK_SUBINPROGRESS, TBLOCK_INPROGRESS])"
    by code_simp
qed

section \<open>Reachable states\<close>

inductive session :: "config \<Rightarrow> (string \<Rightarrow> bool \<Rightarrow> bool) \<Rightarrow> xact \<Rightarrow> bool" for cf fp where
  session_start: "stack s = [TopTransactionStateData] \<Longrightarrow> session cf fp s"
| session_query: "session cf fp s \<Longrightarrow> PostgresMain_query cf fp q s = Ready r s' \<Longrightarrow> session cf fp s'"

definition status_code :: "block \<Rightarrow> char" where
  "status_code b = (case b of Idle \<Rightarrow> CHR ''I'' | Open _ \<Rightarrow> CHR ''T'' | Failed _ \<Rightarrow> CHR ''E'')"

lemma resting_status: "resting b (stack s) \<Longrightarrow> TransactionBlockStatusCode s = status_code b"
  by (cases b; cases "stack s" rule: recoverable.cases) (auto simp: status_code_def sub_live_def)

lemma query_rests:
  assumes "resting b (stack s)" "PostgresMain_query cf fp q s = Ready r s'"
  shows "\<exists>b'. resting b' (stack s')"
  using query_outcome [OF assms(1), where cf = cf and fp = fp and q = q] assms(2) by auto

text \<open>C2: whatever queries a client sends, with whatever errors, a backend that waits for the next query is idle, in an open
  block or in a failed one, its stack of transaction states is of that shape, and the status letter it
  sends with \<^verbatim>\<open>ReadyForQuery\<close> says so.\<close>

theorem session_invariant:
  assumes "session cf fp s"
  shows "\<exists>b. resting b (stack s) \<and> TransactionBlockStatusCode s = status_code b"
  using assms
proof induction
  case (session_start s)
  then show ?case using resting_start resting_status by metis
next
  case (session_query s q r s')
  then obtain b' where "resting b' (stack s')" using query_rests by blast
  then show ?case using resting_status by blast
qed

theorem session_invariant_witness:
  "(\<exists>b. resting b (stack xact0) \<and> TransactionBlockStatusCode xact0 = status_code b) \<and>
   map_option (\<lambda>(r, s). TransactionBlockStatusCode s) (run_queries [savepoint_query, [OtherStmt [W_fail]]] xact0) = Some (CHR ''E'')"
proof (rule conjI)
  have "session config0 (\<lambda>_ _. True) xact0" by (rule session_start) (simp add: xact0_def)
  then show "\<exists>b. resting b (stack xact0) \<and> TransactionBlockStatusCode xact0 = status_code b" by (rule session_invariant)
  show "map_option (\<lambda>(r, s). TransactionBlockStatusCode s) (run_queries [savepoint_query, [OtherStmt [W_fail]]] xact0) = Some (CHR ''E'')"
    by code_simp
qed

section \<open>Chained transactions\<close>

text \<open>C7: \<^verbatim>\<open>COMMIT AND CHAIN\<close> inside a savepoint, when it succeeds, leaves the session outside of any transaction. The
  new transaction that the command promises is not started: the case \<^verbatim>\<open>TBLOCK_SUBCOMMIT\<close> of \<^verbatim>\<open>CommitTransactionCommand\<close>
  does not look at the \<^verbatim>\<open>chain\<close> flag.\<close>

theorem commit_chain_in_savepoint:
  assumes "resting (Open (n # ns)) (stack s)" "stmt_kind st = TRANS_STMT_COMMIT" "stmt_chain st"
    and "PostgresMain_query cf fp (Some [TransactionStmt st]) s = Ready None s'"
  shows "resting Idle (stack s')"
  using query_outcome [OF assms(1), where cf = cf and fp = fp and q = "Some [TransactionStmt st]"] assms(2-)
  by (auto simp: query_steps_def ok_step_def txn_step_def simp del: resting.simps)

definition in_savepoint :: xact where
  "in_savepoint = snd (the (run_queries [savepoint_query] xact0))"

definition commit_chain :: TransactionStmt where
  "commit_chain = \<lparr>stmt_kind = TRANS_STMT_COMMIT, stmt_options = [], savepoint_name = [], stmt_gid = [], stmt_chain = True\<rparr>"

theorem commit_chain_in_savepoint_witness:
  "\<exists>s'. PostgresMain_query config0 (\<lambda>_ _. True) (Some [TransactionStmt commit_chain]) in_savepoint = Ready None s' \<and> resting Idle (stack s')"
proof -
  have "case PostgresMain_query config0 (\<lambda>_ _. True) (Some [TransactionStmt commit_chain]) in_savepoint of Ready None _ \<Rightarrow> True | _ \<Rightarrow> False"
    by code_simp
  then obtain s' where s': "PostgresMain_query config0 (\<lambda>_ _. True) (Some [TransactionStmt commit_chain]) in_savepoint = Ready None s'"
    by (auto split: step_result.splits option.splits)
  have "map (\<lambda>t. (blockState t, trans_state t, spname t, savepointLevel t, nestingLevel t)) (stack in_savepoint)
      = [(TBLOCK_SUBINPROGRESS, TRANS_INPROGRESS, Some ''a'', 0, 2), (TBLOCK_INPROGRESS, TRANS_INPROGRESS, None, 0, 1)]"
    by code_simp
  then have "resting (Open [Some ''a'']) (stack in_savepoint)"
    by (auto simp: map_eq_Cons_conv sub_live_def based_def)
  from commit_chain_in_savepoint [OF this _ _ s'] s' show ?thesis by (auto simp: commit_chain_def simp del: resting.simps)
qed

text \<open>Outside of a savepoint the same command does start one.\<close>

lemma commit_chain_outside:
  "blocks_after [[tstmt TRANS_STMT_BEGIN [] False], [tstmt TRANS_STMT_COMMIT [] True]] = Some (None, [TBLOCK_INPROGRESS])"
  by code_simp

end
