(* ===== verification/Hyperedge.thy ===== *)
theory Hyperedge
  imports Session_Main "HOL-Library.Sublist"
begin

text \<open>
  The hyperedge extension of the main loop (\<^verbatim>\<open>isHyper\<close>, \<^verbatim>\<open>findCommand\<close>, \<^verbatim>\<open>createXML\<close>,
  \<^verbatim>\<open>query_rewrite\<close> and \<^verbatim>\<open>connectToHGDB\<close> in \<^verbatim>\<open>src/backend/tcop/postgres.c\<close>): queries that contain
  the word ``hyper'' are meant for a hypergraph server on a local port, all others for \<^verbatim>\<open>exec_simple_query\<close>. The results
  of the socket calls and the contents of fresh memory are parameters; what the routines ask of the
  system is recorded as a list of calls. Letters are those of the C locale. A write past a buffer is an error of
  the model.
\<close>

section \<open>Recognizing hyperedge queries\<close>

definition tolower :: "char \<Rightarrow> char" where
  "tolower c = (let n = of_char c :: nat in if 65 \<le> n \<and> n \<le> 90 then char_of (n + 32) else c)"

fun case_prefix :: "string \<Rightarrow> string \<Rightarrow> bool" where
  "case_prefix [] hay = True"
| "case_prefix (n # needle) [] = False"
| "case_prefix (n # needle) (h # hay) = (tolower n = tolower h \<and> case_prefix needle hay)"

fun strcasestr :: "string \<Rightarrow> string \<Rightarrow> bool" where
  "strcasestr [] needle = (needle = [])"
| "strcasestr (h # hay) needle = (case_prefix needle (h # hay) \<or> strcasestr hay needle)"

definition strcasecmp_eq :: "string \<Rightarrow> string \<Rightarrow> bool" where
  "strcasecmp_eq a b \<longleftrightarrow> map tolower a = map tolower b"

definition isHyper :: "string \<Rightarrow> bool" where
  "isHyper query = (if strcasestr query ''hyper'' then True else False)"

lemma case_prefix_iff: "case_prefix needle hay \<longleftrightarrow> prefix (map tolower needle) (map tolower hay)"
  by (induction needle hay rule: case_prefix.induct) auto

lemma strcasestr_iff: "strcasestr hay needle \<longleftrightarrow> sublist (map tolower needle) (map tolower hay)"
  by (induction hay needle rule: strcasestr.induct) (auto simp: case_prefix_iff sublist_Cons_right)

section \<open>The command word\<close>

definition QUERY_SIZE :: nat where "QUERY_SIZE = 500"

datatype hyper_error = HeapOverflow | OverRead

text \<open>The copy loop writes \<^verbatim>\<open>command[i]\<close> without looking at the size of the block; the terminating zero goes to index
  \<open>i\<close> too. \<open>command\<close> holds what has been written.\<close>

fun copy_word :: "string \<Rightarrow> nat \<Rightarrow> string \<Rightarrow> hyper_error + string" where
  "copy_word [] i command = (if i < QUERY_SIZE then Inr command else Inl HeapOverflow)"
| "copy_word (c # query) i command =
     (if c \<noteq> CHR '' '' then
        if i < QUERY_SIZE then copy_word query (i + 1) (command @ [c]) else Inl HeapOverflow
      else if i < QUERY_SIZE then Inr command else Inl HeapOverflow)"

definition findCommand :: "string \<Rightarrow> hyper_error + string" where
  "findCommand query = copy_word query 0 []"

definition first_word :: "string \<Rightarrow> string" where
  "first_word query = takeWhile (\<lambda>c. c \<noteq> CHR '' '') query"

lemma copy_word_iff:
  "copy_word query i command =
     (if i + length (first_word query) < QUERY_SIZE then Inr (command @ first_word query) else Inl HeapOverflow)"
  by (induction query i command rule: copy_word.induct) (auto simp: first_word_def)

lemma findCommand_iff:
  "findCommand query = (if length (first_word query) < QUERY_SIZE then Inr (first_word query) else Inl HeapOverflow)"
  by (simp add: findCommand_def copy_word_iff)

section \<open>Rewriting\<close>

text \<open>What the system answers: the results of \<^verbatim>\<open>setsockopt\<close> and \<^verbatim>\<open>connect\<close>, and the string found in the block that
  \<^verbatim>\<open>createXML\<close> allocates and returns as it is.\<close>

record hg_system =
  setsockopt_result :: int
  connect_result :: int
  fresh_block :: string

datatype hg_call = Socket | SetSockOpt | Connect | Perror string | Printf string | Send string | Read

definition createXML :: "hg_system \<Rightarrow> string \<Rightarrow> string" where
  "createXML y command = fresh_block y"

definition report_command :: "string \<Rightarrow> hg_call list" where
  "report_command command =
     (if strcasecmp_eq command ''create'' then [Printf ''create command'']
      else if strcasecmp_eq command ''alter'' then [Printf ''alter command'']
      else if strcasecmp_eq command ''delete'' then [Printf ''delete command'']
      else [])"

text \<open>The part of \<^verbatim>\<open>query_rewrite\<close> for a hyperedge query: the calls made, and an error if a buffer was overrun, after which the
  behaviour of the program is undefined.\<close>

definition hyper_query :: "hg_system \<Rightarrow> string \<Rightarrow> (hyper_error + unit) \<times> hg_call list" where
  "hyper_query y query =
     (if setsockopt_result y = 0 then (Inr (), [Socket, SetSockOpt, Perror ''setsockopt error''])
      else if connect_result y < 0 then (Inr (), [Socket, SetSockOpt, Connect, Perror ''connection error''])
      else
        let calls = [Socket, SetSockOpt, Connect, Printf ''HYPEREDGE keyword found'']
        in case findCommand query of
             Inl e \<Rightarrow> (Inl e, calls)
           | Inr command \<Rightarrow> (Inr (), calls @ [Send (createXML y command)] @ report_command command @ [Read]))"

text \<open>\<open>parse\<close> stands for the parser, which \<^verbatim>\<open>exec_simple_query\<close> calls.\<close>

definition query_rewrite ::
  "config \<Rightarrow> (string \<Rightarrow> bool \<Rightarrow> bool) \<Rightarrow> (string \<Rightarrow> RawStmt list option) \<Rightarrow> hg_system \<Rightarrow> string \<Rightarrow> xact
    \<Rightarrow> (hyper_error + (xact_error + unit) \<times> xact) \<times> hg_call list" where
  "query_rewrite cf fp parse y query s =
     (if \<not> isHyper query then (Inr (exec_simple_query cf fp (parse query) s), [])
      else case hyper_query y query of
          (Inl e, calls) \<Rightarrow> (Inl e, calls)
        | (Inr _, calls) \<Rightarrow> (Inr (Inr (), s), calls))"

text \<open>Case \<^verbatim>\<open>'Q'\<close> of the main loop, outside of a walsender, with the error recovery around it.\<close>

definition case_Q ::
  "config \<Rightarrow> (string \<Rightarrow> bool \<Rightarrow> bool) \<Rightarrow> (string \<Rightarrow> RawStmt list option) \<Rightarrow> hg_system \<Rightarrow> string \<Rightarrow> xact
    \<Rightarrow> (hyper_error + xact step_result) \<times> hg_call list" where
  "case_Q cf fp parse y query s =
     (case query_rewrite cf fp parse y query s of
        (Inl e, calls) \<Rightarrow> (Inl e, calls)
      | (Inr (Inr _, s'), calls) \<Rightarrow> (Inr (Ready None s'), calls)
      | (Inr (Inl e, s'), calls) \<Rightarrow> (Inr (recover_error cf e s'), calls))"

text \<open>The main loop over the query messages a client sends.\<close>

fun message_loop ::
  "config \<Rightarrow> (string \<Rightarrow> bool \<Rightarrow> bool) \<Rightarrow> (string \<Rightarrow> RawStmt list option) \<Rightarrow> hg_system \<Rightarrow> string list \<Rightarrow> xact
    \<Rightarrow> (hyper_error + xact step_result) list" where
  "message_loop cf fp parse y [] s = []"
| "message_loop cf fp parse y (query # queries) s =
     (case fst (case_Q cf fp parse y query s) of
        Inr (Ready r s') \<Rightarrow> Inr (Ready r s') # message_loop cf fp parse y queries s'
      | Inr (Exited e s') \<Rightarrow> [Inr (Exited e s')]
      | Inl e \<Rightarrow> [Inl e])"

section \<open>The conversation before the main loop\<close>

text \<open>
  \<^verbatim>\<open>connectToHGDB\<close> reads lines from its standard input, sends each to the hypergraph server and prints the answer. The world
  it talks to: the characters waiting on the standard input, after which comes the end of file; what each call of \<^verbatim>\<open>recvfrom\<close> finds
  (\<open>None\<close> if it fails); and what was sent and printed so far. The results of \<^verbatim>\<open>socket\<close>, \<^verbatim>\<open>connect\<close> and \<^verbatim>\<open>send\<close> are not looked
  at by the code. Calls that wait for ever and signals that end the process are not modelled.
\<close>

definition MSG_SIZE :: nat where "MSG_SIZE = 500"

abbreviation NUL :: char where "NUL \<equiv> CHR 0x00"
abbreviation NEWLINE :: char where "NEWLINE \<equiv> CHR 0x0A"

record hg_world =
  hg_stdin :: string
  hg_answer :: "nat \<Rightarrow> string option"
  hg_received :: nat
  hg_sent :: "string list"
  hg_printed :: "string list"

text \<open>The string that starts a buffer.\<close>

definition c_string :: "string \<Rightarrow> string" where
  "c_string buf = takeWhile (\<lambda>c. c \<noteq> NUL) buf"

fun up_to_newline :: "nat \<Rightarrow> string \<Rightarrow> string" where
  "up_to_newline 0 input = []"
| "up_to_newline (Suc n) [] = []"
| "up_to_newline (Suc n) (c # input) = (if c = NEWLINE then [c] else c # up_to_newline n input)"

text \<open>Writing at the start of a buffer.\<close>

definition overwrite :: "string \<Rightarrow> string \<Rightarrow> string" where
  "overwrite new buf = new @ drop (length new) buf"

text \<open>\<^verbatim>\<open>fgets\<close>: at the end of file the buffer is left alone.\<close>

definition fgets :: "nat \<Rightarrow> string \<Rightarrow> string \<Rightarrow> string \<times> string" where
  "fgets n buf input =
     (if input = [] then (buf, [])
      else let line = up_to_newline (n - 1) input
           in (overwrite (line @ [NUL]) buf, drop (length line) input))"

text \<open>One round of the loop. Printing reads the buffer up to its first zero byte; if there is none, it reads past its end.\<close>

definition hg_round :: "hg_world \<Rightarrow> hyper_error + hg_world" where
  "hg_round w =
     (let message = replicate MSG_SIZE NUL;
          (message, input) = fgets MSG_SIZE message (hg_stdin w);
          w = w\<lparr>hg_stdin := input, hg_sent := hg_sent w @ [c_string message]\<rparr>;
          message = replicate MSG_SIZE NUL;
          message = (case hg_answer w (hg_received w) of
                       None \<Rightarrow> message
                     | Some bytes \<Rightarrow> overwrite (take MSG_SIZE bytes) message);
          w = w\<lparr>hg_received := hg_received w + 1\<rparr>
      in if NUL \<in> set message then Inr (w\<lparr>hg_printed := hg_printed w @ [c_string message]\<rparr>)
         else Inl OverRead)"

partial_function (option) hg_loop :: "hg_world \<Rightarrow> (hyper_error + unit) option" where
  "hg_loop w = (case hg_round w of Inl e \<Rightarrow> Some (Inl e) | Inr w' \<Rightarrow> hg_loop w')"

definition hg_start :: "string \<Rightarrow> (nat \<Rightarrow> string option) \<Rightarrow> hg_world" where
  "hg_start input answer = \<lparr>hg_stdin = input, hg_answer = answer, hg_received = 0, hg_sent = [], hg_printed = []\<rparr>"

definition connectToHGDB :: "string \<Rightarrow> (nat \<Rightarrow> string option) \<Rightarrow> (hyper_error + unit) option" where
  "connectToHGDB input answer = hg_loop (hg_start input answer)"

text \<open>The start of \<^verbatim>\<open>PostgresMain\<close>: \<open>None\<close> if the main loop is not reached because the call before it does not return.\<close>

definition PostgresMain_start ::
  "config \<Rightarrow> (string \<Rightarrow> bool \<Rightarrow> bool) \<Rightarrow> (string \<Rightarrow> RawStmt list option) \<Rightarrow> hg_system \<Rightarrow> string \<Rightarrow> (nat \<Rightarrow> string option)
    \<Rightarrow> string list \<Rightarrow> xact \<Rightarrow> (hyper_error + xact step_result) list option" where
  "PostgresMain_start cf fp parse y input answer queries s =
     (case connectToHGDB input answer of
        None \<Rightarrow> None
      | Some (Inl e) \<Rightarrow> Some [Inl e]
      | Some (Inr _) \<Rightarrow> Some (message_loop cf fp parse y queries s))"

section \<open>Rounds\<close>

text \<open>The first rounds of the conversation.\<close>

primrec hg_rounds :: "nat \<Rightarrow> hg_world \<Rightarrow> hyper_error + hg_world" where
  "hg_rounds 0 w = Inr w"
| "hg_rounds (Suc n) w = (case hg_round w of Inl e \<Rightarrow> Inl e | Inr w' \<Rightarrow> hg_rounds n w')"

definition fills_buffer :: "string option \<Rightarrow> bool" where
  "fills_buffer r \<longleftrightarrow> (case r of None \<Rightarrow> False | Some bytes \<Rightarrow> MSG_SIZE \<le> length bytes \<and> NUL \<notin> set (take MSG_SIZE bytes))"

lemma up_to_newline_Nil [simp]: "up_to_newline n [] = []"
  by (cases n) simp_all

lemma up_to_newline_prefix: "up_to_newline n input = take (length (up_to_newline n input)) input"
  by (induction n input rule: up_to_newline.induct) simp_all

lemma up_to_newline_length: "length (up_to_newline n input) \<le> n"
  by (induction n input rule: up_to_newline.induct) simp_all

lemma up_to_newline_some: "input \<noteq> [] \<Longrightarrow> 0 < n \<Longrightarrow> up_to_newline n input \<noteq> []"
  by (cases "(n, input)" rule: up_to_newline.cases) simp_all

lemma up_to_newline_one_line: "NEWLINE \<notin> set (butlast (up_to_newline n input))"
  by (induction n input rule: up_to_newline.induct) auto

text \<open>What is sent in a round: the next line, cut at 499 characters and at a zero byte.\<close>

lemma fgets_sent:
  "c_string (fst (fgets MSG_SIZE (replicate MSG_SIZE NUL) input)) = c_string (up_to_newline 499 input)"
proof (cases "input = []")
  case True
  then show ?thesis by (simp add: fgets_def c_string_def MSG_SIZE_def)
next
  case False
  have "takeWhile (\<lambda>c. c \<noteq> NUL) (xs @ NUL # ys) = takeWhile (\<lambda>c. c \<noteq> NUL) xs" for xs ys
    by (induction xs) simp_all
  then show ?thesis using False by (simp add: fgets_def c_string_def overwrite_def Let_def MSG_SIZE_def)
qed

lemma fgets_rest: "snd (fgets MSG_SIZE buf input) = drop (length (up_to_newline 499 input)) input"
  by (simp add: fgets_def Let_def MSG_SIZE_def)

lemma received_zero:
  "NUL \<in> set (case r of None \<Rightarrow> replicate MSG_SIZE NUL | Some bytes \<Rightarrow> overwrite (take MSG_SIZE bytes) (replicate MSG_SIZE NUL))
   \<longleftrightarrow> \<not> fills_buffer r"
  by (cases r) (auto simp: fills_buffer_def overwrite_def MSG_SIZE_def)

lemma hg_round_result:
  "if fills_buffer (hg_answer w (hg_received w)) then hg_round w = Inl OverRead
   else \<exists>w'. hg_round w = Inr w' \<and> hg_answer w' = hg_answer w \<and> hg_received w' = hg_received w + 1
      \<and> hg_stdin w' = drop (length (up_to_newline 499 (hg_stdin w))) (hg_stdin w)
      \<and> hg_sent w' = hg_sent w @ [c_string (up_to_newline 499 (hg_stdin w))]"
proof -
  obtain m i where f: "fgets MSG_SIZE (replicate MSG_SIZE NUL) (hg_stdin w) = (m, i)" by force
  then have "c_string m = c_string (up_to_newline 499 (hg_stdin w))"
      "i = drop (length (up_to_newline 499 (hg_stdin w))) (hg_stdin w)"
    using fgets_sent [of "hg_stdin w"] fgets_rest [of "replicate MSG_SIZE NUL" "hg_stdin w"] by simp_all
  then show ?thesis
    using received_zero [of "hg_answer w (hg_received w)"] by (auto simp: hg_round_def f Let_def)
qed

lemma prefix_butlast_mono: "prefix xs ys \<Longrightarrow> prefix (butlast xs) (butlast ys)"
  by (cases ys rule: rev_cases) (auto simp: prefix_snoc intro: prefix_order.trans [OF prefixeq_butlast])

lemma hg_rounds_add: "hg_rounds n w = Inr w' \<Longrightarrow> hg_rounds (Suc n) w = hg_round w'"
proof (induction n arbitrary: w)
  case 0
  then show ?case by (simp split: sum.splits)
next
  case (Suc n)
  then obtain v where "hg_round w = Inr v" "hg_rounds n v = Inr w'" by (auto split: sum.splits)
  then show ?case using Suc(1) [of v] by simp
qed

text \<open>As long as the answers are short, the conversation goes on, and every character of the input is sent once.\<close>

lemma hg_rounds_go_on:
  assumes "\<forall>k<n. \<not> fills_buffer (answer k)"
  shows "\<exists>w. hg_rounds n (hg_start input answer) = Inr w \<and> hg_answer w = answer \<and> hg_received w = n \<and> length (hg_sent w) = n
     \<and> length (hg_stdin w) \<le> length input - n \<and> set (hg_stdin w) \<subseteq> set input
     \<and> list_all (\<lambda>m. length m \<le> 499 \<and> NEWLINE \<notin> set (butlast m)) (hg_sent w)
     \<and> (NUL \<notin> set input \<longrightarrow> concat (hg_sent w) @ hg_stdin w = input)"
  using assms
proof (induction n)
  case 0
  show ?case by (simp add: hg_start_def)
next
  case (Suc n)
  obtain w where w: "hg_rounds n (hg_start input answer) = Inr w" "hg_answer w = answer" "hg_received w = n" "length (hg_sent w) = n"
      "length (hg_stdin w) \<le> length input - n" "set (hg_stdin w) \<subseteq> set input"
      "list_all (\<lambda>m. length m \<le> 499 \<and> NEWLINE \<notin> set (butlast m)) (hg_sent w)"
      "NUL \<notin> set input \<longrightarrow> concat (hg_sent w) @ hg_stdin w = input"
    using Suc by auto
  let ?line = "up_to_newline 499 (hg_stdin w)"
  obtain w' where w': "hg_round w = Inr w'" "hg_answer w' = answer" "hg_received w' = Suc n"
      "hg_stdin w' = drop (length ?line) (hg_stdin w)" "hg_sent w' = hg_sent w @ [c_string ?line]"
    using hg_round_result [of w] Suc(2) w(2,3) by auto
  have eq: "?line @ hg_stdin w' = hg_stdin w"
    using up_to_newline_prefix [of 499 "hg_stdin w"] append_take_drop_id [of "length ?line" "hg_stdin w"] w'(4) by simp
  have shorter: "length (hg_stdin w') \<le> length (hg_stdin w) - 1"
    using up_to_newline_some [of "hg_stdin w" 499] w'(4) by (cases "hg_stdin w = []"; cases ?line) auto
  have cut: "prefix (c_string ?line) ?line" unfolding c_string_def by (rule takeWhile_is_prefix)
  have msg: "length (c_string ?line) \<le> 499"
    using prefix_length_le [OF cut] up_to_newline_length [of 499 "hg_stdin w"] by simp
  have one: "NEWLINE \<notin> set (butlast (c_string ?line))"
    using up_to_newline_one_line [of 499 "hg_stdin w"] cut set_mono_prefix [OF prefix_butlast_mono] by blast
  have whole: "c_string ?line = ?line" if "NUL \<notin> set input"
    using that w(6) arg_cong [OF eq, of set] by (auto simp: c_string_def takeWhile_eq_all_conv)
  show ?case
  proof (intro exI [of _ w'] conjI)
    show "hg_rounds (Suc n) (hg_start input answer) = Inr w'" using hg_rounds_add [OF w(1)] w'(1) by simp
    show "set (hg_stdin w') \<subseteq> set input" using w(6) arg_cong [OF eq, of set] by auto
    show "NUL \<notin> set input \<longrightarrow> concat (hg_sent w') @ hg_stdin w' = input" using w(8) whole eq w'(5) by auto
  qed (use w w' shorter msg one in \<open>simp_all\<close>)
qed

lemma hg_loop_rounds: "hg_rounds n w = Inr w' \<Longrightarrow> hg_loop w = hg_loop w'"
proof (induction n arbitrary: w)
  case (Suc n)
  then show ?case by (auto simp: hg_loop.simps [of w] split: sum.splits)
qed simp

text \<open>A loop that ends has a last round.\<close>

lemma hg_loop_ends:
  assumes "hg_loop w = Some r"
  shows "\<exists>n e. r = Inl e \<and> hg_rounds n w = Inl e"
proof (rule hg_loop.raw_induct [OF _ assms])
  fix f :: "hg_world \<Rightarrow> (hyper_error + unit) option" and w r
  assume rest: "\<And>w r. f w = Some r \<Longrightarrow> \<exists>n e. r = Inl e \<and> hg_rounds n w = Inl e"
    and now: "(case hg_round w of Inl e \<Rightarrow> Some (Inl e) | Inr w' \<Rightarrow> f w') = Some r"
  show "\<exists>n e. r = Inl e \<and> hg_rounds n w = Inl e"
  proof (cases "hg_round w")
    case (Inl e)
    then have "r = Inl e \<and> hg_rounds (Suc 0) w = Inl e" using now by simp
    then show ?thesis by blast
  next
    case (Inr w')
    then obtain n e where "r = Inl e" "hg_rounds n w' = Inl e" using rest [of w' r] now by auto
    then have "r = Inl e \<and> hg_rounds (Suc n) w = Inl e" using Inr by simp
    then show ?thesis by blast
  qed
qed

lemma connect_forever:
  assumes "\<forall>k. \<not> fills_buffer (answer k)"
  shows "connectToHGDB input answer = None"
proof (rule ccontr)
  assume "connectToHGDB input answer \<noteq> None"
  then obtain n e where "hg_rounds n (hg_start input answer) = Inl e"
    using hg_loop_ends [of "hg_start input answer"] by (fastforce simp: connectToHGDB_def)
  then show False using hg_rounds_go_on [of n answer input] assms by auto
qed

lemma connect_over_read:
  assumes "fills_buffer (answer k)"
  shows "connectToHGDB input answer = Some (Inl OverRead)"
proof -
  define n where "n = (LEAST k. fills_buffer (answer k))"
  have n: "fills_buffer (answer n)" unfolding n_def by (rule LeastI [of "\<lambda>k. fills_buffer (answer k)", OF assms])
  have "\<forall>k<n. \<not> fills_buffer (answer k)" unfolding n_def using not_less_Least by blast
  from hg_rounds_go_on [OF this, of input]
  obtain w where w: "hg_rounds n (hg_start input answer) = Inr w" "hg_answer w = answer" "hg_received w = n" by blast
  then have "hg_round w = Inl OverRead" using hg_round_result [of w] n by simp
  then have "hg_loop w = Some (Inl OverRead)" by (simp add: hg_loop.simps [of w])
  then show ?thesis using hg_loop_rounds [OF w(1)] by (simp add: connectToHGDB_def)
qed

section \<open>Properties\<close>

lemma isHyper_iff: "isHyper query \<longleftrightarrow> sublist ''hyper'' (map tolower query)"
proof -
  have "map tolower ''hyper'' = ''hyper''" by code_simp
  then show ?thesis by (simp only: isHyper_def strcasestr_iff) simp
qed

lemma case_Q_plain: "\<not> isHyper query \<Longrightarrow> case_Q cf fp parse y query s = (Inr (PostgresMain_query cf fp (parse query) s), [])"
  by (auto simp: case_Q_def query_rewrite_def PostgresMain_query_def split: prod.splits sum.splits)

lemma case_Q_hyper:
  "isHyper query \<Longrightarrow> case_Q cf fp parse y query s =
     (case hyper_query y query of (Inl e, calls) \<Rightarrow> (Inl e, calls) | (Inr _, calls) \<Rightarrow> (Inr (Ready None s), calls))"
  by (auto simp: case_Q_def query_rewrite_def split: prod.splits sum.splits)

text \<open>C8: the dispatch of queries. A query without ``hyper'' in any letter case is handled exactly as before the extension. Any
  other query, whatever else it says, leaves the transaction state alone and is answered without an error, unless it
  overruns a buffer; when \<^verbatim>\<open>setsockopt\<close> succeeds it is dropped and nothing is sent to the hypergraph server; and when the
  server is reached, a first word of 500 or more characters is written past the end of its buffer, after which the
  behaviour is undefined, and a shorter one is copied whole.\<close>

theorem query_rewrite_dispatch:
  "(\<not> sublist ''hyper'' (map tolower query) \<longrightarrow>
      case_Q cf fp parse y query s = (Inr (PostgresMain_query cf fp (parse query) s), [])) \<and>
   (sublist ''hyper'' (map tolower query) \<longrightarrow>
      fst (case_Q cf fp parse y query s) =
        (if setsockopt_result y \<noteq> 0 \<and> connect_result y \<ge> 0 \<and> 500 \<le> length (first_word query) then Inl HeapOverflow else Inr (Ready None s)) \<and>
      (setsockopt_result y = 0 \<longrightarrow> snd (case_Q cf fp parse y query s) = [Socket, SetSockOpt, Perror ''setsockopt error'']) \<and>
      (setsockopt_result y \<noteq> 0 \<longrightarrow> connect_result y \<ge> 0 \<longrightarrow> length (first_word query) < 500 \<longrightarrow>
         findCommand query = Inr (first_word query)))"
  unfolding isHyper_iff [symmetric]
  by (auto simp: case_Q_plain case_Q_hyper hyper_query_def findCommand_iff QUERY_SIZE_def Let_def)

definition hg_ok :: hg_system where
  "hg_ok = \<lparr>setsockopt_result = 0, connect_result = 0, fresh_block = []\<rparr>"

definition hg_reached :: hg_system where
  "hg_reached = \<lparr>setsockopt_result = -1, connect_result = 0, fresh_block = []\<rparr>"

theorem query_rewrite_dispatch_witness:
  "(\<forall>cf fp parse s. case_Q cf fp parse hg_ok ''DROP TABLE HyPeRlinks'' s =
      (Inr (Ready None s), [Socket, SetSockOpt, Perror ''setsockopt error''])) \<and>
   (\<forall>cf fp parse s. fst (case_Q cf fp parse hg_reached (replicate 500 CHR ''x'' @ ''hyper'') s) = Inl HeapOverflow) \<and>
   (\<forall>cf fp parse s. case_Q cf fp parse hg_ok ''COMMIT'' s = (Inr (PostgresMain_query cf fp (parse ''COMMIT'') s), []))"
proof -
  have words: "strcasestr ''DROP TABLE HyPeRlinks'' ''hyper''" "\<not> strcasestr ''COMMIT'' ''hyper''" by code_simp+
  have sub: "sublist ''hyper'' (map tolower ''DROP TABLE HyPeRlinks'')" "\<not> sublist ''hyper'' (map tolower ''COMMIT'')"
    using words unfolding isHyper_iff [symmetric] isHyper_def by simp_all
  have "map tolower ''hyper'' = ''hyper''" by code_simp
  then have long: "sublist ''hyper'' (map tolower (replicate 500 CHR ''x'' @ ''hyper''))" by (simp only: map_append sublist_append_leftI)
  have "500 \<le> length (first_word (replicate 500 CHR ''x'' @ ''hyper''))"
    by (simp only: first_word_def, subst takeWhile_append2) auto
  moreover have "setsockopt_result hg_ok = 0" "setsockopt_result hg_reached \<noteq> 0" "connect_result hg_reached \<ge> 0"
    by (simp_all add: hg_ok_def hg_reached_def)
  ultimately show ?thesis
    using query_rewrite_dispatch [where query = "''DROP TABLE HyPeRlinks''" and y = hg_ok]
      query_rewrite_dispatch [where query = "replicate 500 CHR ''x'' @ ''hyper''" and y = hg_reached]
      query_rewrite_dispatch [where query = "''COMMIT''" and y = hg_ok] sub long by (simp add: prod_eq_iff)
qed

text \<open>C9: a backend of this build never answers a query. \<^verbatim>\<open>PostgresMain\<close> calls \<^verbatim>\<open>connectToHGDB\<close> before its
  message loop, and that routine does not return, whatever the queries. If some answer of the hypergraph server fills
  the buffer of 500 bytes without a zero byte, the routine reads past the buffer, after the rounds before that
  answer. Otherwise it goes on for ever: each of its rounds is reached and sends at most one line of the standard input, of
  at most 499 characters; and if the input has no zero byte, all of it is sent in order, within as many rounds
  as it has characters.\<close>

theorem main_loop_not_reached:
  "(if \<exists>k. fills_buffer (answer k) then PostgresMain_start cf fp parse y input answer queries s = Some [Inl OverRead]
    else PostgresMain_start cf fp parse y input answer queries s = None) \<and>
   ((\<forall>k<n. \<not> fills_buffer (answer k)) \<longrightarrow>
     (\<exists>w. hg_rounds n (hg_start input answer) = Inr w \<and> length (hg_sent w) = n
        \<and> list_all (\<lambda>m. length m \<le> 499 \<and> NEWLINE \<notin> set (butlast m)) (hg_sent w)
        \<and> (NUL \<notin> set input \<longrightarrow> prefix (concat (hg_sent w)) input \<and> (length input \<le> n \<longrightarrow> concat (hg_sent w) = input))))"
proof (intro conjI impI)
  show "if \<exists>k. fills_buffer (answer k) then PostgresMain_start cf fp parse y input answer queries s = Some [Inl OverRead]
    else PostgresMain_start cf fp parse y input answer queries s = None"
    using connect_over_read [of answer _ input] connect_forever [of answer input] by (auto simp: PostgresMain_start_def)
next
  assume "\<forall>k<n. \<not> fills_buffer (answer k)"
  from hg_rounds_go_on [OF this, of input] obtain w where w: "hg_rounds n (hg_start input answer) = Inr w" "length (hg_sent w) = n"
      "length (hg_stdin w) \<le> length input - n" "list_all (\<lambda>m. length m \<le> 499 \<and> NEWLINE \<notin> set (butlast m)) (hg_sent w)"
      "NUL \<notin> set input \<longrightarrow> concat (hg_sent w) @ hg_stdin w = input" by blast
  then show "\<exists>w. hg_rounds n (hg_start input answer) = Inr w \<and> length (hg_sent w) = n
        \<and> list_all (\<lambda>m. length m \<le> 499 \<and> NEWLINE \<notin> set (butlast m)) (hg_sent w)
        \<and> (NUL \<notin> set input \<longrightarrow> prefix (concat (hg_sent w)) input \<and> (length input \<le> n \<longrightarrow> concat (hg_sent w) = input))"
    by (intro exI [of _ w]) (auto simp: prefix_def)
qed

text \<open>Two lines without an end of line after the second; the server answers ``ok'' twice and then with 500 letters.\<close>

definition answers0 :: "nat \<Rightarrow> string option" where
  "answers0 k = (if k < 2 then Some ''ok'' else Some (replicate 500 CHR ''x''))"

theorem main_loop_not_reached_witness:
  "(\<forall>cf fp parse y queries s. PostgresMain_start cf fp parse y (''hi'' @ [NEWLINE] @ ''you'') answers0 queries s = Some [Inl OverRead]) \<and>
   (\<forall>cf fp parse y queries s. PostgresMain_start cf fp parse y (''hi'' @ [NEWLINE] @ ''you'') (\<lambda>_. Some ''ok'') queries s = None) \<and>
   (\<exists>w. hg_rounds 2 (hg_start (''hi'' @ [NEWLINE] @ ''you'') answers0) = Inr w \<and> hg_sent w = [''hi'' @ [NEWLINE], ''you''])"
proof -
  let ?in = "''hi'' @ [NEWLINE] @ ''you''"
  have fill: "fills_buffer (answers0 2)" "\<not> fills_buffer (Some ''ok'')" "\<forall>k<2. \<not> fills_buffer (answers0 k)"
    by (auto simp: fills_buffer_def answers0_def MSG_SIZE_def)
  obtain w where w: "hg_rounds 2 (hg_start ?in answers0) = Inr w"
    using main_loop_not_reached [where n = 2 and answer = answers0 and input = ?in] fill(3) by blast
  have "map_sum (\<lambda>_. ()) hg_sent (hg_rounds 2 (hg_start ?in answers0)) = Inr [''hi'' @ [NEWLINE], ''you'']" by code_simp
  then have "hg_sent w = [''hi'' @ [NEWLINE], ''you'']" unfolding w by simp
  moreover have ends: "\<exists>k. fills_buffer (answers0 k)" using fill(1) by blast
  have "PostgresMain_start cf fp parse y ?in answers0 queries s = Some [Inl OverRead]" for cf fp parse y queries s
    using conjunct1 [OF main_loop_not_reached [where n = 2 and answer = answers0 and input = ?in], unfolded if_P [OF ends]] .
  moreover have "PostgresMain_start cf fp parse y ?in (\<lambda>_. Some ''ok'') queries s = None" for cf fp parse y queries s
    using conjunct1 [OF main_loop_not_reached [where n = 2 and answer = "\<lambda>_. Some ''ok''" and input = ?in]] fill(2) by simp
  ultimately show ?thesis using w by blast
qed

text \<open>The loop itself would keep every session in a known block.\<close>

lemma message_loop_rests:
  "resting b (stack s) \<Longrightarrow> Inr (Ready r s') \<in> set (message_loop cf fp parse y queries s) \<Longrightarrow> \<exists>b'. resting b' (stack s')"
proof (induction queries arbitrary: s b)
  case (Cons q queries)
  have step: "\<exists>b1. resting b1 (stack s1)" if "fst (case_Q cf fp parse y q s) = Inr (Ready r1 s1)" for r1 s1
    using that Cons(2) query_rests [OF Cons(2), of cf fp "parse q" r1 s1]
    by (cases "isHyper q") (auto simp: case_Q_plain case_Q_hyper split: prod.splits sum.splits simp del: resting.simps)
  show ?case
  proof (cases "\<exists>r1 s1. fst (case_Q cf fp parse y q s) = Inr (Ready r1 s1)")
    case True
    then obtain r1 s1 where ready: "fst (case_Q cf fp parse y q s) = Inr (Ready r1 s1)" by blast
    then obtain b1 where "resting b1 (stack s1)" using step by blast
    then show ?thesis using Cons(1) [of b1 s1] Cons(3) ready by (auto simp del: resting.simps)
  next
    case False
    then show ?thesis using Cons(3) by (auto split: sum.splits step_result.splits)
  qed
qed simp

end
