(* ===== verification/Xact_Outcome.thy ===== *)
theory Xact_Outcome
  imports Session_Main
begin

text \<open>
  What the end of a transaction leaves in the commit log. Committing records all ids of the tree or
  none; leaving every transaction when a backend exits records all of them as aborted and always
  succeeds, as long as the log has not recorded them otherwise.
\<close>

section \<open>Ids and their recorded outcomes\<close>

definition recorded :: "xact \<Rightarrow> TransactionId \<Rightarrow> XidStatus" where
  "recorded s x = fst (TransactionIdGetStatus (pg_xact (xsys s)) x)"

text \<open>The ids of an entry that has one: its own and those of its committed children.\<close>

definition tree_xids :: "TransactionStateData \<Rightarrow> TransactionId list" where
  "tree_xids t = (if FullTransactionIdIsValid (fullTransactionId t) then XidFromFullTransactionId (fullTransactionId t) # childXids t else [])"

lemma tree_xids_frame [simp]:
  "tree_xids (t\<lparr>trans_state := st\<rparr>) = tree_xids t" "tree_xids (t\<lparr>parallelModeLevel := n\<rparr>) = tree_xids t"
  "tree_xids (t\<lparr>blockState := b\<rparr>) = tree_xids t" "tree_xids (t\<lparr>spname := m\<rparr>) = tree_xids t"
  by (simp_all add: tree_xids_def)

lemma tree_recorded:
  assumes "TransactionIdIsValid xid" "st = TRANSACTION_STATUS_COMMITTED \<or> st = TRANSACTION_STATUS_ABORTED"
  shows "fst (TransactionIdGetStatus (TransactionIdSetTreeStatus rec xid xids st lsn c) y) =
    (if y = xid \<or> y \<in> set xids then st else fst (TransactionIdGetStatus c y))"
proof -
  have "st < 4" "st \<noteq> TRANSACTION_STATUS_SUB_COMMITTED" using assms(2) by (auto simp: xid_status_defs)
  then show ?thesis
    using clog_log.tree_final [of st y xid xids rec lsn c] clog_log.tree_untouched [of st y xid xids rec lsn c]
    by (simp add: tree_status_writes [OF assms(1)])
qed

lemma recorded_frame [simp]:
  "recorded (upd_cur f s) = recorded s" "recorded (set_block b s) = recorded s" "recorded (set_state st s) = recorded s"
  "recorded (end_in_procarray l s) = recorded s" "recorded (reset_top s) = recorded s" "recorded (EnterParallelMode s) = recorded s"
  "recorded (s\<lparr>stack := ts\<rparr>) = recorded s" "recorded (s\<lparr>XactReadOnly := ro\<rparr>) = recorded s" "recorded (s\<lparr>pendingDeletes := n\<rparr>) = recorded s" "recorded (s\<lparr>deferredError := d\<rparr>) = recorded s"
  by (simp_all add: recorded_def fun_eq_iff upd_cur_def set_block_def set_state_def end_in_procarray_def reset_top_def EnterParallelMode_def)

section \<open>Aborting\<close>

text \<open>The commit test says no for an id without a recorded outcome.\<close>

lemma did_not_commit:
  assumes "TransactionIdIsNormal x" "fst (TransactionIdGetStatus c x) = TRANSACTION_STATUS_IN_PROGRESS" "x \<noteq> cachedFetchXid cache"
  shows "TransactionIdDidCommit c sub h cache x = Some (False, cache)"
  using assms by (subst TransactionIdDidCommit.simps)
    (auto simp: TransactionLogFetch_def Let_def xid_status_defs split: prod.splits)

text \<open>Ids that the log has not decided and the cache of the log does not know.\<close>

definition undecided :: "xact \<Rightarrow> TransactionId list \<Rightarrow> bool" where
  "undecided s xs \<longleftrightarrow> list_all (\<lambda>x. TransactionIdIsNormal x \<and> recorded s x = TRANSACTION_STATUS_IN_PROGRESS
     \<and> x \<noteq> cachedFetchXid (fetchCache s)) xs"

lemma record_abort:
  assumes "stack s = t # ts" "undecided s (tree_xids t)"
  obtains l s' where "RecordTransactionAbort cf b s = (Inr l, s')" "stack s' = stack s" "fetchCache s' = fetchCache s"
    "\<And>x. recorded s' x = (if x \<in> set (tree_xids t) then TRANSACTION_STATUS_ABORTED else recorded s x)"
proof (cases "FullTransactionIdIsValid (fullTransactionId t)")
  case False
  then show ?thesis using assms that [of InvalidTransactionId "if b then s else s\<lparr>XactLastRecEnd := 0\<rparr>"]
    by (auto simp: RecordTransactionAbort_def GetCurrentTransactionIdIfAny_def FullTransactionIdIsValid_def Let_def tree_xids_def recorded_def)
next
  case True
  let ?x = "XidFromFullTransactionId (fullTransactionId t)"
  have no: "TransactionIdDidCommit (pg_xact (xsys s)) (pg_subtrans (xsys s)) (TransactionXmin (backend s)) (fetchCache s) ?x = Some (False, fetchCache s)"
    using assms True by (intro did_not_commit) (auto simp: undecided_def tree_xids_def recorded_def)
  show ?thesis
    using assms True no
    by (intro that [of "TransactionIdLatest ?x (childXids t)" "snd (RecordTransactionAbort cf b s)"])
      (auto simp: RecordTransactionAbort_def GetCurrentTransactionIdIfAny_def FullTransactionIdIsValid_def Let_def tree_xids_def recorded_def TransactionIdAbortTree_def tree_recorded)
qed

lemma undecided_cong:
  "recorded s' = recorded s \<Longrightarrow> fetchCache s' = fetchCache s \<Longrightarrow> undecided s' xs = undecided s xs"
  by (simp add: undecided_def)

lemma fetchCache_frame [simp]:
  "fetchCache (upd_cur f s) = fetchCache s" "fetchCache (set_block b s) = fetchCache s" "fetchCache (set_state st s) = fetchCache s"
  "fetchCache (end_in_procarray l s) = fetchCache s" "fetchCache (reset_top s) = fetchCache s"
  by (simp_all add: upd_cur_def set_block_def set_state_def end_in_procarray_def reset_top_def)

lemma abort_pop_records:
  assumes "stack s = t # u # ts" "undecided s (tree_xids t)" "curTransactionOwner t \<or> tree_xids t = []"
  obtains s' where "xthen (AbortSubTransaction cf) CleanupSubTransaction s = (Inr (), s')" "stack s' = u # ts" "fetchCache s' = fetchCache s"
    "\<And>x. recorded s' x = (if x \<in> set (tree_xids t) then TRANSACTION_STATUS_ABORTED else recorded s x)"
proof (cases "curTransactionOwner t")
  case True
  let ?t = "t\<lparr>trans_state := TRANS_ABORT, parallelModeLevel := 0\<rparr>"
  let ?s = "upd_cur (\<lambda>t. t\<lparr>trans_state := TRANS_ABORT, parallelModeLevel := 0\<rparr>) s"
  have s: "stack ?s = ?t # u # ts" "undecided ?s (tree_xids ?t)" "tree_xids ?t = tree_xids t"
    using assms by (simp_all add: undecided_def)
  obtain l s1 where r: "RecordTransactionAbort cf True ?s = (Inr l, s1)" "stack s1 = stack ?s" "fetchCache s1 = fetchCache ?s"
      "\<And>x. recorded s1 x = (if x \<in> set (tree_xids t) then TRANSACTION_STATUS_ABORTED else recorded ?s x)"
    using record_abort [OF s(1,2)] s(3) by metis
  show ?thesis using that r s True assms
    by (cases "FullTransactionIdIsValid (fullTransactionId t)") (auto simp: AbortSubTransaction_def CleanupSubTransaction_def AtSubAbort_childXids_def PopTransaction_def xm_defs)
next
  case False
  then show ?thesis using that assms
    by (auto simp: AbortSubTransaction_def CleanupSubTransaction_def PopTransaction_def xm_defs)
qed

lemma clean_pop_records:
  assumes "stack s = t # u # ts"
  obtains s' where "CleanupSubTransaction s = (Inr (), s')" "stack s' = u # ts" "fetchCache s' = fetchCache s" "recorded s' = recorded s"
  using that assms by (auto simp: CleanupSubTransaction_def PopTransaction_def xm_defs)

text \<open>The ids whose abort is still to be recorded. A failed entry, a worker and an idle backend have none.\<close>

definition live_xids :: "TransactionStateData \<Rightarrow> TransactionId list" where
  "live_xids t =
     (if blockState t \<in> {TBLOCK_SUBABORT, TBLOCK_SUBABORT_END, TBLOCK_SUBABORT_RESTART, TBLOCK_ABORT, TBLOCK_ABORT_END, TBLOCK_PARALLEL_INPROGRESS}
        \<or> blockState t = TBLOCK_DEFAULT \<and> trans_state t = TRANS_DEFAULT then []
      else tree_xids t)"

definition all_live :: "frames \<Rightarrow> TransactionId list" where
  "all_live ts = concat (map live_xids ts)"

lemma all_live_simps [simp]: "all_live [] = []" "all_live (t # ts) = live_xids t @ all_live ts"
  by (simp_all add: all_live_def)

text \<open>An entry that has started owns its resources.\<close>

definition owned :: "TransactionStateData \<Rightarrow> bool" where
  "owned t \<longleftrightarrow> curTransactionOwner t \<or> live_xids t = []"

lemma abort_top_records:
  assumes "stack s = [t]" "blockState t \<noteq> TBLOCK_PARALLEL_INPROGRESS" "undecided s (tree_xids t)"
  obtains s' t' where "abort_and_clean cf s = (Inr (), s')" "stack s' = [t']" "blockState t' = blockState t" "trans_state t' = TRANS_DEFAULT"
    "\<And>x. recorded s' x = (if x \<in> set (tree_xids t) then TRANSACTION_STATUS_ABORTED else recorded s x)"
proof -
  let ?t = "t\<lparr>trans_state := TRANS_ABORT, parallelModeLevel := 0\<rparr>"
  let ?s = "(upd_cur (\<lambda>t. t\<lparr>trans_state := TRANS_ABORT, parallelModeLevel := 0\<rparr>) s)\<lparr>deferredError := False, pendingDeletes := 0\<rparr>"
  have s: "stack ?s = [?t]" "undecided ?s (tree_xids ?t)" "tree_xids ?t = tree_xids t"
    using assms by (simp_all add: undecided_def)
  obtain l s1 where r: "RecordTransactionAbort cf False ?s = (Inr l, s1)" "stack s1 = stack ?s"
      "\<And>x. recorded s1 x = (if x \<in> set (tree_xids t) then TRANSACTION_STATUS_ABORTED else recorded ?s x)"
    using record_abort [OF s(1,2)] s(3) by metis
  show ?thesis
    using that [of "upd_cur (\<lambda>t. t\<lparr>parallelModeLevel := 0\<rparr>) (reset_top (end_in_procarray l s1))"] r s assms
    by (auto simp: abort_and_clean_def AbortTransaction_def CleanupTransaction_def xm_defs Let_def)
qed

lemma abort_worker_records:
  assumes "stack s = [t]" "blockState t = TBLOCK_PARALLEL_INPROGRESS"
  obtains s' t' where "abort_and_clean cf s = (Inr (), s')" "stack s' = [t']" "blockState t' = blockState t" "trans_state t' = TRANS_DEFAULT"
    "recorded s' = recorded s"
  using that assms by (auto simp: abort_and_clean_def AbortTransaction_def CleanupTransaction_def xm_defs Let_def)

lemma abort_out_top_records:
  assumes "nested [t]" "stack s = [t]" "undecided s (live_xids t)"
  shows "\<exists>s'. AbortOutOfAnyTransaction cf s = (Inr (), s') \<and> idle (stack s')
     \<and> (\<forall>x. recorded s' x = (if x \<in> set (live_xids t) then TRANSACTION_STATUS_ABORTED else recorded s x))"
proof -
  consider (idle) "blockState t = TBLOCK_DEFAULT" "trans_state t = TRANS_DEFAULT"
    | (start) "blockState t = TBLOCK_DEFAULT" "trans_state t \<noteq> TRANS_DEFAULT"
    | (failed) "blockState t = TBLOCK_ABORT \<or> blockState t = TBLOCK_ABORT_END" "trans_state t = TRANS_ABORT"
    | (worker) "blockState t = TBLOCK_PARALLEL_INPROGRESS"
    | (other) "blockState t \<in> {TBLOCK_STARTED, TBLOCK_BEGIN, TBLOCK_INPROGRESS, TBLOCK_IMPLICIT_INPROGRESS, TBLOCK_END,
        TBLOCK_ABORT_PENDING, TBLOCK_PREPARE}"
    using assms(1) by (cases "blockState t") (auto simp: sub_states_def)
  then show ?thesis
  proof cases
    case idle
    then show ?thesis using assms by (auto simp: AbortOutOfAnyTransaction.simps abort_idle_def ret_def live_xids_def)
  next
    case start
    let ?s = "if trans_state t = TRANS_START then set_state TRANS_INPROGRESS s else s"
    obtain t1 where t1: "stack ?s = [t1]" "blockState t1 = TBLOCK_DEFAULT" "tree_xids t1 = tree_xids t" "undecided ?s (tree_xids t1)"
      using assms start by (cases "trans_state t = TRANS_START") (auto simp: undecided_def live_xids_def)
    obtain s' t' where r: "abort_and_clean cf ?s = (Inr (), s')" "stack s' = [t']" "blockState t' = blockState t1" "trans_state t' = TRANS_DEFAULT"
        "\<And>x. recorded s' x = (if x \<in> set (tree_xids t1) then TRANSACTION_STATUS_ABORTED else recorded ?s x)"
      using abort_top_records [OF t1(1) _ t1(4), of cf thesis] t1(2) by auto
    have "AbortOutOfAnyTransaction cf s = (Inr (), s')"
      using r(1) start assms(2) by (simp add: AbortOutOfAnyTransaction.simps abort_idle_def)
    then show ?thesis using r(2-) t1 start by (auto simp: live_xids_def)
  next
    case failed
    then show ?thesis using assms
      by (auto simp: AbortOutOfAnyTransaction.simps CleanupTransaction_def xthen_def modify_def live_xids_def)
  next
    case worker
    obtain s' t' where r: "abort_and_clean cf s = (Inr (), s')" "stack s' = [t']" "blockState t' = blockState t" "trans_state t' = TRANS_DEFAULT"
        "recorded s' = recorded s"
      using abort_worker_records [OF assms(2) worker, of cf thesis] by auto
    then show ?thesis using worker assms(2)
      by (auto simp: AbortOutOfAnyTransaction.simps abort_to_default_def xthen_def modify_def live_xids_def)
  next
    case other
    then have live: "live_xids t = tree_xids t" by (auto simp: live_xids_def)
    have "blockState t \<noteq> TBLOCK_PARALLEL_INPROGRESS" using other by auto
    then obtain s' t' where r: "abort_and_clean cf s = (Inr (), s')" "stack s' = [t']" "blockState t' = blockState t" "trans_state t' = TRANS_DEFAULT"
        "\<And>x. recorded s' x = (if x \<in> set (tree_xids t) then TRANSACTION_STATUS_ABORTED else recorded s x)"
      using abort_top_records [OF assms(2), of cf thesis] assms(3) live by auto
    have "AbortOutOfAnyTransaction cf s = abort_to_default cf s" using other assms(2) by (auto simp: AbortOutOfAnyTransaction.simps)
    then show ?thesis using r live by (auto simp: abort_to_default_def xthen_def modify_def)
  qed
qed

lemma undecided_append [simp]: "undecided s (xs @ ys) \<longleftrightarrow> undecided s xs \<and> undecided s ys"
  by (simp add: undecided_def)

lemma undecided_after:
  assumes "undecided s ys" "set xs \<inter> set ys = {}" "fetchCache s' = fetchCache s"
    and "\<And>x. recorded s' x = (if x \<in> set xs then TRANSACTION_STATUS_ABORTED else recorded s x)"
  shows "undecided s' ys"
  using assms by (auto simp: undecided_def list_all_iff)

text \<open>C4: a backend that exits, at whatever point of whatever transaction, gets out of it. If no outcome of the open transactions is
  recorded yet, \<^verbatim>\<open>AbortOutOfAnyTransaction\<close> raises no error, leaves the backend idle, and then exactly
  the ids of the transaction and of all its subtransactions that are not yet aborted are newly recorded as aborted.\<close>

theorem exit_aborts_everything:
  assumes "nested (stack s)" "list_all owned (stack s)"
    and "distinct (all_live (stack s))" "undecided s (all_live (stack s))"
  shows "\<exists>s'. AbortOutOfAnyTransaction cf s = (Inr (), s') \<and> idle (stack s')
     \<and> (\<forall>x. recorded s' x = (if x \<in> set (all_live (stack s)) then TRANSACTION_STATUS_ABORTED else recorded s x))"
  using assms
proof (induction "stack s" arbitrary: s rule: nested.induct)
  case (2 t)
  then show ?case using abort_out_top_records [of t s cf] by (metis append_Nil2 all_live_simps)
next
  case (3 t u ts)
  note st = 3(2) [symmetric]
  have rest: "nested (u # ts)" "list_all owned (u # ts)" "distinct (all_live (u # ts))" "set (live_xids t) \<inter> set (all_live (u # ts)) = {}"
    using 3(3-5) by (auto simp: st)
  have loop: "\<exists>s'. (if blockState (cur s1) \<noteq> TBLOCK_DEFAULT then AbortOutOfAnyTransaction cf s1 else ret () s1) = (Inr (), s') \<and> idle (stack s')
     \<and> (\<forall>x. recorded s' x = (if x \<in> set (all_live (stack s)) then TRANSACTION_STATUS_ABORTED else recorded s x))"
    if s1: "stack s1 = u # ts" "fetchCache s1 = fetchCache s"
      "\<And>x. recorded s1 x = (if x \<in> set (live_xids t) then TRANSACTION_STATUS_ABORTED else recorded s x)" for s1
  proof -
    have "undecided s (all_live (u # ts))" using 3(6) unfolding st by simp
    then have "undecided s1 (all_live (u # ts))" using rest(4) s1(2,3) by (rule undecided_after)
    then obtain s' where "AbortOutOfAnyTransaction cf s1 = (Inr (), s')" "idle (stack s')"
        "\<forall>x. recorded s' x = (if x \<in> set (all_live (u # ts)) then TRANSACTION_STATUS_ABORTED else recorded s1 x)"
      using 3(1) [of s1] s1(1) rest by auto
    moreover have "blockState u \<noteq> TBLOCK_DEFAULT" using 3(3) by (auto simp: st)
    ultimately show ?thesis using s1 by (auto simp: st)
  qed
  show ?case
  proof (cases "blockState t \<in> {TBLOCK_SUBABORT, TBLOCK_SUBABORT_END, TBLOCK_SUBABORT_RESTART}")
    case True
    obtain s1 where "CleanupSubTransaction s = (Inr (), s1)" "stack s1 = u # ts" "fetchCache s1 = fetchCache s" "recorded s1 = recorded s"
      using clean_pop_records [OF st] by blast
    moreover have "live_xids t = []" using True by (auto simp: live_xids_def)
    ultimately show ?thesis using loop [of s1] True st by (auto simp: AbortOutOfAnyTransaction.simps [of cf s] xthen_def)
  next
    case False
    then have state: "blockState t \<in> sub_states" and live: "live_xids t = tree_xids t"
      using 3(3) by (auto simp: st live_xids_def sub_states_def)
    obtain s1 where r: "xthen (AbortSubTransaction cf) CleanupSubTransaction s = (Inr (), s1)" "stack s1 = u # ts" "fetchCache s1 = fetchCache s"
        "\<And>x. recorded s1 x = (if x \<in> set (tree_xids t) then TRANSACTION_STATUS_ABORTED else recorded s x)"
      using abort_pop_records [OF st, of cf thesis] 3(4,6) live by (auto simp: st owned_def)
    have "AbortOutOfAnyTransaction cf s = xthen (xthen (AbortSubTransaction cf) CleanupSubTransaction)
        (\<lambda>s. if blockState (cur s) \<noteq> TBLOCK_DEFAULT then AbortOutOfAnyTransaction cf s else ret () s) s"
      using state False st by (auto simp: AbortOutOfAnyTransaction.simps [of cf s] xthen_assoc sub_states_def)
    then show ?thesis using loop [of s1] r live by (simp add: xthen_def [of "xthen _ _"])
  qed
qed simp

section \<open>Committing\<close>

text \<open>An entry without an id has no committed children, and the entries above it have no ids either.\<close>

fun assigned :: "frames \<Rightarrow> bool" where
  "assigned [] = True"
| "assigned [t] = (FullTransactionIdIsValid (fullTransactionId t) \<or> childXids t = [])"
| "assigned (t # u # ts) =
     ((FullTransactionIdIsValid (fullTransactionId t) \<or> childXids t = [])
      \<and> (FullTransactionIdIsValid (fullTransactionId t) \<longrightarrow> FullTransactionIdIsValid (fullTransactionId u)) \<and> assigned (u # ts))"

definition all_xids :: "frames \<Rightarrow> TransactionId set" where
  "all_xids ts = set (concat (map tree_xids ts))"

lemma all_xids_simps [simp]: "all_xids [] = {}" "all_xids (t # ts) = set (tree_xids t) \<union> all_xids ts"
  by (simp_all add: all_xids_def)

lemma assigned_Cons: "assigned (t # u # ts) \<Longrightarrow> assigned (u # ts)"
  by simp

lemma commit_sub_xids:
  assumes "stack s = t # u # ts" "assigned (t # u # ts)" "CommitSubTransaction cf s = (r, s')"
  shows "recorded s' = recorded s"
    and "r = Inr x \<Longrightarrow> XactTopFullTransactionId s' = XactTopFullTransactionId s \<and>
      (\<exists>u'. stack s' = u' # ts \<and> alike u u' \<and> fullTransactionId u' = fullTransactionId u \<and> assigned (u' # ts)
        \<and> set (tree_xids u') = set (tree_xids t) \<union> set (tree_xids u))"
proof -
  have "recorded s' = recorded s \<and> (\<forall>x. r = Inr x \<longrightarrow> XactTopFullTransactionId s' = XactTopFullTransactionId s \<and>
      (\<exists>u'. stack s' = u' # ts \<and> alike u u' \<and> fullTransactionId u' = fullTransactionId u \<and> assigned (u' # ts)
        \<and> set (tree_xids u') = set (tree_xids t) \<union> set (tree_xids u)))"
    using assms
    by (cases ts; cases "FullTransactionIdIsValid (fullTransactionId t)")
      (auto simp: CommitSubTransaction_def CommandCounterIncrement_def AtSubCommit_childXids_def PopTransaction_def xm_defs
        alike_def tree_xids_def recorded_def fun_eq_iff upd_cur_def split: if_splits)
  then show "recorded s' = recorded s"
    and "r = Inr x \<Longrightarrow> XactTopFullTransactionId s' = XactTopFullTransactionId s \<and>
      (\<exists>u'. stack s' = u' # ts \<and> alike u u' \<and> fullTransactionId u' = fullTransactionId u \<and> assigned (u' # ts)
        \<and> set (tree_xids u') = set (tree_xids t) \<union> set (tree_xids u))"
    by blast+
qed


text \<open>The loop leaves one entry, which has the ids of all.\<close>

lemma commit_subs_xids:
  assumes "commit_marked (stack s)" "length (stack s) > 1" "assigned (stack s)" "commit_subs cf TBLOCK_SUBCOMMIT s = (r, s')"
  shows "recorded s' = recorded s \<and> (\<forall>x. r = Inr x \<longrightarrow> XactTopFullTransactionId s' = XactTopFullTransactionId s \<and>
      (\<exists>v. stack s' = [v] \<and> alike (last (stack s)) v \<and> fullTransactionId v = fullTransactionId (last (stack s)) \<and> assigned [v]
        \<and> set (tree_xids v) = all_xids (stack s)))"
  using assms
proof (induction "length (stack s)" arbitrary: s rule: less_induct)
  case less
  obtain t u ts where st: "stack s = t # u # ts" using less(2,3) by (cases "stack s" rule: commit_marked.cases) auto
  obtain r1 s1 where r1: "CommitSubTransaction cf s = (r1, s1)" by (cases "CommitSubTransaction cf s")
  note sub = commit_sub_xids [OF st less(4) [unfolded st] r1]
  show ?case
  proof (cases r1)
    case (Inl e)
    then show ?thesis using less(5) r1 sub(1) by (auto simp: commit_subs.simps [of cf _ s] xthen_def)
  next
    case (Inr x)
    obtain u' where u': "stack s1 = u' # ts" "alike u u'" "fullTransactionId u' = fullTransactionId u" "assigned (u' # ts)"
        "set (tree_xids u') = set (tree_xids t) \<union> set (tree_xids u)" and top_id: "XactTopFullTransactionId s1 = XactTopFullTransactionId s"
      using sub(2) [OF Inr] by blast
    have rest: "(if blockState u' = TBLOCK_SUBCOMMIT then commit_subs cf TBLOCK_SUBCOMMIT s1 else ret () s1) = (r, s')"
      using less(5) r1 Inr u'(1) by (simp add: commit_subs.simps [of cf _ s] xthen_def)
    have marked: "commit_marked (u' # ts)" using commit_marked_left [of u ts u'] less(2) st u'(2) by (simp add: alike_def)
    show ?thesis
    proof (cases ts)
      case Nil
      then have "s' = s1" using rest marked by (auto simp: ret_def)
      then show ?thesis using u' top_id sub(1) st Nil by auto
    next
      case (Cons w ws)
      have "blockState u' = TBLOCK_SUBCOMMIT" using marked Cons by simp
      then show ?thesis using less(1) [of s1] rest marked u' top_id sub(1) st Cons by auto
    qed
  qed
qed

lemma commit_top_records:
  assumes "stack s = [t]" "blockState t = TBLOCK_END" "XactTopFullTransactionId s = fullTransactionId t" "assigned [t]"
    "CommitTransaction cf s = (r, s')"
  shows "recorded s' x = (if r = Inr () \<and> x \<in> set (tree_xids t) then TRANSACTION_STATUS_COMMITTED else recorded s x)"
proof -
  let ?t = "t\<lparr>trans_state := TRANS_COMMIT, parallelModeLevel := 0\<rparr>"
  let ?s = "upd_cur (\<lambda>t. t\<lparr>trans_state := TRANS_COMMIT, parallelModeLevel := 0\<rparr>) s"
  have s: "stack ?s = [?t]" "XactTopFullTransactionId ?s = fullTransactionId t" using assms by (auto simp: upd_cur_def)
  have rec: "recorded s1 x = (if (\<exists>l. r1 = Inr l) \<and> x \<in> set (tree_xids t) then TRANSACTION_STATUS_COMMITTED else recorded s x)"
    if "RecordTransactionCommit cf ?s = (r1, s1)" for r1 s1
    using that s assms(4)
    by (cases "FullTransactionIdIsValid (fullTransactionId t)")
      (auto simp: RecordTransactionCommit_def Let_def raise_def GetTopTransactionIdIfAny_def FullTransactionIdIsValid_def tree_xids_def
        TransactionIdCommitTree_def TransactionIdAsyncCommitTree_def tree_recorded recorded_def upd_cur_def split: if_splits)
  show ?thesis using assms(1,2,5) rec
    by (cases "RecordTransactionCommit cf ?s"; cases "fst (RecordTransactionCommit cf ?s)")
      (auto simp: CommitTransaction_def Let_def xm_defs split: if_splits)
qed

lemma recorded_chain [simp]: "recorded (finish_chain cf s) = recorded s"
  by (simp add: recorded_def fun_eq_iff finish_chain_def Let_def RestoreTransactionCharacteristics_def upd_cur_def set_block_def set_state_def
      StartTransaction_def GetNextLocalTransactionId_def split: prod.splits)

lemma recorded_save [simp]: "recorded (SaveTransactionCharacteristics s) = recorded s"
  by (simp add: recorded_def fun_eq_iff SaveTransactionCharacteristics_def)

lemma save_top_id [simp]: "XactTopFullTransactionId (SaveTransactionCharacteristics s) = XactTopFullTransactionId s"
  by (simp add: SaveTransactionCharacteristics_def)

lemma xthen_modify_records:
  assumes "\<And>s. recorded (f s) = recorded s" "xthen m (modify f) s = (r, s')"
  obtains s1 where "m s = (r, s1)" "recorded s' = recorded s1"
  using assms by (cases "m s"; cases "fst (m s)") (auto simp: xthen_def modify_def)

text \<open>C3: committing is all or nothing. When \<^verbatim>\<open>CommitTransactionCommand\<close> carries out a \<^verbatim>\<open>COMMIT\<close> with any number of open
  savepoints and returns, the ids of the transaction and of all its subtransactions, and no other ones, are newly
  recorded as committed in \<^verbatim>\<open>pg_xact\<close>; when it raises an error, nothing is.\<close>

theorem commit_all_or_nothing:
  assumes "commit_marked (stack s)" "blockState (last (stack s)) = TBLOCK_END" "assigned (stack s)"
    and "XactTopFullTransactionId s = fullTransactionId (last (stack s))" "CommitTransactionCommand cf s = (r, s')"
  shows "recorded s' x = (if r = Inr () \<and> x \<in> all_xids (stack s) then TRANSACTION_STATUS_COMMITTED else recorded s x)"
proof -
  define s0 where "s0 = (if chain (cur s) then SaveTransactionCharacteristics s else s)"
  have s0: "stack s0 = stack s" "recorded s0 = recorded s" "XactTopFullTransactionId s0 = XactTopFullTransactionId s"
    by (simp_all add: s0_def)
  show ?thesis
  proof (cases "stack s" rule: commit_marked.cases)
    case (2 t)
    then have "xthen (CommitTransaction cf) (modify (finish_chain cf)) s0 = (r, s')"
      using assms(2,5) by (simp add: CommitTransactionCommand.simps [of cf s] s0_def)
    then obtain s1 where "CommitTransaction cf s0 = (r, s1)" "recorded s' = recorded s1"
      by (rule xthen_modify_records [OF recorded_chain])
    then show ?thesis using commit_top_records [of s0 t cf r s1 x] assms 2 s0 by simp
  next
    case (3 t u ts)
    have eq: "s0 = (if chain t then SaveTransactionCharacteristics s else s)" and cur: "cur s0 = t" using 3 s0(1) by (simp_all add: s0_def)
    obtain r1 s1 where r1: "commit_subs cf TBLOCK_SUBCOMMIT s0 = (r1, s1)" by (cases "commit_subs cf TBLOCK_SUBCOMMIT s0")
    have subs: "recorded s1 = recorded s \<and> (\<forall>x. r1 = Inr x \<longrightarrow> XactTopFullTransactionId s1 = XactTopFullTransactionId s0 \<and>
      (\<exists>v. stack s1 = [v] \<and> alike (last (stack s)) v \<and> fullTransactionId v = fullTransactionId (last (stack s)) \<and> assigned [v]
        \<and> set (tree_xids v) = all_xids (stack s)))"
      using commit_subs_xids [of s0 cf r1 s1] assms(1,3) r1 s0 3 by simp
    show ?thesis
    proof (cases r1)
      case (Inl e)
      then show ?thesis using assms(1,5) r1 subs cur 3
        by (auto simp: CommitTransactionCommand.simps [of cf s] eq [symmetric] xthen_def)
    next
      case (Inr a)
      then obtain v where v: "stack s1 = [v]" "blockState v = TBLOCK_END" "XactTopFullTransactionId s1 = fullTransactionId v" "assigned [v]"
          "set (tree_xids v) = all_xids (stack s)"
        using subs assms(2,4) s0(3) by (auto simp: alike_def)
      have "xthen (CommitTransaction cf) (modify (set_block TBLOCK_DEFAULT)) s1 = (r, s')"
        using assms(1,5) r1 Inr v cur 3 by (auto simp: CommitTransactionCommand.simps [of cf s] eq [symmetric] xthen_def [of "commit_subs _ _"])
      then obtain s2 where "CommitTransaction cf s1 = (r, s2)" "recorded s' = recorded s2"
        by (rule xthen_modify_records [OF recorded_frame(2)])
      then show ?thesis using commit_top_records [of s1 v cf r s2 x] v subs by simp
    qed
  qed (use assms in simp)
qed


section \<open>On a backend with a savepoint\<close>

text \<open>A transaction that wrote before and after \<^verbatim>\<open>SAVEPOINT a\<close>.\<close>

definition wrote_twice :: xact where
  "wrote_twice = snd (the (run_queries [[tstmt TRANS_STMT_BEGIN [] False], [OtherStmt [W_xid]],
     [tstmt TRANS_STMT_SAVEPOINT ''a'' False], [OtherStmt [W_xid]]] xact0))"

definition wrote_twice_end :: xact where
  "wrote_twice_end = snd (EndTransactionBlock False wrote_twice)"

lemma wrote_twice_stack:
  "map (\<lambda>t. (blockState t, trans_state t, tree_xids t, curTransactionOwner t)) (stack wrote_twice)
    = [(TBLOCK_SUBINPROGRESS, TRANS_INPROGRESS, [701], True), (TBLOCK_INPROGRESS, TRANS_INPROGRESS, [700], True)]"
  by code_simp

lemma wrote_twice_undecided: "undecided wrote_twice [701, 700]"
  by code_simp

theorem exit_aborts_everything_witness:
  "\<exists>s'. AbortOutOfAnyTransaction config0 wrote_twice = (Inr (), s') \<and> idle (stack s')
     \<and> recorded s' 701 = TRANSACTION_STATUS_ABORTED \<and> recorded s' 700 = TRANSACTION_STATUS_ABORTED"
proof -
  have live: "all_live (stack wrote_twice) = [701, 700]" "list_all owned (stack wrote_twice)" "nested (stack wrote_twice)"
    using wrote_twice_stack by (auto simp: map_eq_Cons_conv live_xids_def owned_def sub_states_def)
  then have "undecided wrote_twice (all_live (stack wrote_twice))" "distinct (all_live (stack wrote_twice))"
    using wrote_twice_undecided by simp_all
  from exit_aborts_everything [OF live(3,2) this(2,1), where cf = config0] show ?thesis using live(1) by auto
qed

text \<open>A commit with one savepoint returns when nothing was left to be checked at commit and no counter is at its limit.\<close>

lemma commit_sub_returns:
  assumes "stack s = [t, u]" "childXids t = []" "childXids u = []" "\<not> currentCommandIdUsed s"
  obtains s1 u' where "CommitSubTransaction cf s = (Inr (), s1)" "stack s1 = [u']" "blockState u' = blockState u"
    "deferredError s1 = deferredError s" "pendingDeletes s1 = pendingDeletes s"
  using that assms
  by (cases "FullTransactionIdIsValid (fullTransactionId t)")
    (auto simp: CommitSubTransaction_def CommandCounterIncrement_def AtSubCommit_childXids_def MaxAllocSize_def PopTransaction_def xm_defs upd_cur_def)

lemma commit_top_returns:
  assumes "stack s = [t]" "blockState t = TBLOCK_END" "\<not> deferredError s" "pendingDeletes s = 0"
  shows "\<exists>s'. CommitTransaction cf s = (Inr (), s')"
  using assms by (auto simp: CommitTransaction_def RecordTransactionCommit_def Let_def xm_defs upd_cur_def)

lemma commit_two_returns:
  assumes "stack s = [t, u]" "blockState t = TBLOCK_SUBCOMMIT" "blockState u = TBLOCK_END" "childXids t = []" "childXids u = []"
    "\<not> currentCommandIdUsed s" "\<not> deferredError s" "pendingDeletes s = 0" "\<not> chain t"
  shows "\<exists>s'. CommitTransactionCommand cf s = (Inr (), s')"
proof -
  obtain s1 u' where s1: "CommitSubTransaction cf s = (Inr (), s1)" "stack s1 = [u']" "blockState u' = TBLOCK_END"
      "\<not> deferredError s1" "pendingDeletes s1 = 0"
    using commit_sub_returns [OF assms(1,4,5,6)] assms(3,7,8) by metis
  have "commit_subs cf TBLOCK_SUBCOMMIT s = (Inr (), s1)"
    using s1 by (simp add: commit_subs.simps [of cf _ s] xthen_def ret_def)
  then show ?thesis using commit_top_returns [OF s1(2-5), of cf] s1 assms(1,2,9)
    by (auto simp: CommitTransactionCommand.simps [of cf s] Let_def xthen_def modify_def)
qed

theorem commit_all_or_nothing_witness:
  "\<exists>s'. CommitTransactionCommand config0 wrote_twice_end = (Inr (), s') \<and> recorded s' 701 = TRANSACTION_STATUS_COMMITTED
     \<and> recorded s' 700 = TRANSACTION_STATUS_COMMITTED \<and> recorded s' 699 = recorded wrote_twice_end 699"
proof -
  have st: "map (\<lambda>t. (blockState t, tree_xids t, childXids t, fullTransactionId t, chain t)) (stack wrote_twice_end)
      = [(TBLOCK_SUBCOMMIT, [701], [], \<lparr>fxid_value = 701\<rparr>, False), (TBLOCK_END, [700], [], \<lparr>fxid_value = 700\<rparr>, False)]"
    by code_simp
  have top_id: "XactTopFullTransactionId wrote_twice_end = \<lparr>fxid_value = 700\<rparr>" by code_simp
  have state: "\<not> currentCommandIdUsed wrote_twice_end" "\<not> deferredError wrote_twice_end" "pendingDeletes wrote_twice_end = 0" by code_simp+
  obtain s' where s': "CommitTransactionCommand config0 wrote_twice_end = (Inr (), s')"
    using st state commit_two_returns [of wrote_twice_end _ _ config0] by (auto simp: map_eq_Cons_conv)
  have valid: "FullTransactionIdIsValid \<lparr>fxid_value = 700\<rparr>" "FullTransactionIdIsValid \<lparr>fxid_value = 701\<rparr>" by code_simp+
  have pre: "commit_marked (stack wrote_twice_end)" "blockState (last (stack wrote_twice_end)) = TBLOCK_END" "assigned (stack wrote_twice_end)"
      "XactTopFullTransactionId wrote_twice_end = fullTransactionId (last (stack wrote_twice_end))"
    using st top_id valid by (auto simp: map_eq_Cons_conv)
  note commit_all_or_nothing [OF pre s']
  moreover have "all_xids (stack wrote_twice_end) = {701, 700}" using st by (auto simp: map_eq_Cons_conv)
  ultimately show ?thesis using s' by simp
qed

end
