(* ===== verification/Varsup_Race.thy ===== *)
theory Varsup_Race
  imports Varsup Procarray_Props
begin

text \<open>
  Assignment of transaction ids by many backends at once. Past \<^verbatim>\<open>xidVacLimit\<close> a backend checks the stop
  limit, releases \<^verbatim>\<open>XidGenLock\<close> and takes the next id later without a second check, so that ids
  past the stop limit can be handed out. The theory bounds how far: each backend can be
  caught in between only once, and the room left behind the stop limit is larger than the greatest
  number of backends.
\<close>

section \<open>Backends between the two critical sections\<close>

definition MAX_BACKENDS :: nat where "MAX_BACKENDS = 0x3FFFF"

abbreviation next_of :: "xid_system \<Rightarrow> TransactionId" where
  "next_of y \<equiv> XidFromFullTransactionId (nextFullXid (shmem y))"

text \<open>
  The states of the shared memory with the backends that have passed the check and wait for the lock. Other
  work of the backends may change everything but the variables of \<^verbatim>\<open>varsup.c\<close>; vacuum may move the oldest id and
  with it the limits.
\<close>

inductive xid_race :: "nat \<Rightarrow> xid_system \<Rightarrow> nat list \<Rightarrow> bool" for N where
  race_start: "TransactionIdIsNormal oldest \<Longrightarrow> uint age \<le> 2000000000 \<Longrightarrow>
    shmem y = (SetTransactionIdLimit age oldest db v0)\<lparr>nextFullXid := nxt\<rparr> \<Longrightarrow>
    TransactionIdIsNormal (XidFromFullTransactionId nxt) \<Longrightarrow> uint (XidFromFullTransactionId nxt - oldest) \<le> 2146483650 \<Longrightarrow>
    xid_race N y []"
| race_direct: "xid_race N y waiting \<Longrightarrow> b < N \<Longrightarrow> b \<notin> set waiting \<Longrightarrow> xid_gate True y = Inr False \<Longrightarrow>
    xid_race N (snd (take_xid b isSubXact y)) waiting"
| race_release: "xid_race N y waiting \<Longrightarrow> b < N \<Longrightarrow> b \<notin> set waiting \<Longrightarrow> xid_gate True y = Inr True \<Longrightarrow>
    xid_race N y (b # waiting)"
| race_resume: "xid_race N y waiting \<Longrightarrow> b \<in> set waiting \<Longrightarrow>
    xid_race N (snd (take_xid b isSubXact y)) (remove1 b waiting)"
| race_quit: "xid_race N y waiting \<Longrightarrow> xid_race N y (remove1 b waiting)"
| race_limit: "xid_race N y waiting \<Longrightarrow> uint age \<le> 2000000000 \<Longrightarrow> TransactionIdIsNormal oldest' \<Longrightarrow>
    uint (oldest' - oldestXid (shmem y)) \<le> uint (next_of y - oldestXid (shmem y)) \<Longrightarrow>
    xid_race N (y\<lparr>shmem := SetTransactionIdLimit age oldest' db (shmem y)\<rparr>) waiting"
| race_other: "xid_race N y waiting \<Longrightarrow> shmem y' = shmem y \<Longrightarrow> xid_race N y' waiting"

section \<open>Counting ids\<close>

text \<open>The number of normal ids from \<open>oldest\<close> to an id: the three special ids at the wrap-around do not count.\<close>

definition id_count :: "TransactionId \<Rightarrow> TransactionId \<Rightarrow> int" where
  "id_count oldest x = uint (x - oldest) - (if x < oldest then 3 else 0)"

lemma id_count_bounds: "id_count oldest x \<le> uint (x - oldest)" "uint (x - oldest) \<le> id_count oldest x + 3"
  by (simp_all add: id_count_def)

lemma uint_diff: "uint (x - b) = (if b \<le> x then uint x - uint b else uint x - uint b + 4294967296)" for x b :: TransactionId
  using uint_lt2p [of x] uint_lt2p [of b] by (auto simp: uint_sub_if' word_le_def)

lemma id_count_advance:
  assumes "TransactionIdIsNormal oldest" "TransactionIdIsNormal x" "uint (x - oldest) < 2147483648"
  shows "id_count oldest (TransactionIdAdvance x) = id_count oldest x + 1"
proof (cases "uint x = 4294967295")
  case True
  then have x: "x = 4294967295" by (simp add: word_uint_eq_iff)
  have o: "uint oldest \<ge> 2147483648"
    using assms(3) uint_lt2p [of oldest] by (auto simp: x uint_diff word_le_def split: if_splits)
  have "TransactionIdAdvance x = 3" by (simp add: x TransactionIdAdvance_def special_xids)
  then show ?thesis
    using o uint_lt2p [of oldest] by (auto simp: id_count_def x uint_diff word_le_def word_less_def)
next
  case False
  then have u: "uint (x + 1) = uint x + 1" using uint_lt2p [of x] by (simp add: uint_plus_if')
  have n: "3 \<le> uint x" using assms(2) by (simp add: normal_iff word_le_def)
  have "TransactionIdAdvance x = x + 1"
    using n u by (simp add: TransactionIdAdvance_def special_xids word_less_def Let_def)
  moreover have "uint x \<noteq> uint oldest - 1 \<or> uint (x - oldest) = 4294967295"
    using u uint_lt2p [of oldest] by (auto simp: uint_diff word_le_def)
  ultimately show ?thesis
    using u assms(3) by (auto simp: id_count_def uint_diff word_le_def word_less_def split: if_splits)
qed

text \<open>Moving the oldest id forward never increases the count.\<close>

lemma id_count_move:
  assumes "TransactionIdIsNormal oldest" "TransactionIdIsNormal oldest'" "TransactionIdIsNormal x"
    "uint (oldest' - oldest) \<le> uint (x - oldest)" "uint (x - oldest) < 2147483648"
  shows "id_count oldest' x \<le> id_count oldest x" "uint (x - oldest') \<le> uint (x - oldest)"
proof -
  have n: "3 \<le> uint oldest" "3 \<le> uint oldest'" "3 \<le> uint x" using assms(1-3) by (simp_all add: normal_iff word_le_def)
  show "uint (x - oldest') \<le> uint (x - oldest)"
    using assms(4,5) n uint_lt2p [of x] uint_lt2p [of oldest] uint_lt2p [of oldest']
    by (auto simp: uint_diff word_le_def split: if_splits)
  show "id_count oldest' x \<le> id_count oldest x"
    using assms(4,5) n uint_lt2p [of x] uint_lt2p [of oldest] uint_lt2p [of oldest']
    by (auto simp: id_count_def uint_diff word_le_def word_less_def split: if_splits)
qed

section \<open>The invariant\<close>

definition race_ok :: "nat \<Rightarrow> xid_system \<Rightarrow> nat list \<Rightarrow> bool" where
  "race_ok N y waiting \<longleftrightarrow> (let oldest = oldestXid (shmem y) in
     TransactionIdIsNormal oldest \<and> in_window oldest (next_of y)
   \<and> (\<exists>age db v0. uint age \<le> 2000000000 \<and> shmem y = (SetTransactionIdLimit age oldest db v0)\<lparr>nextFullXid := nextFullXid (shmem y)\<rparr>)
   \<and> distinct waiting \<and> set waiting \<subseteq> {..<N}
   \<and> id_count oldest (next_of y) \<le> 2146483650 + int N - int (length waiting))"

lemma race_okD:
  assumes "race_ok N y waiting"
  shows "TransactionIdIsNormal (oldestXid (shmem y))" "in_window (oldestXid (shmem y)) (next_of y)"
    "\<exists>age db v0. uint age \<le> 2000000000 \<and> shmem y =
       (SetTransactionIdLimit age (oldestXid (shmem y)) db v0)\<lparr>nextFullXid := nextFullXid (shmem y)\<rparr>"
    "distinct waiting" "set waiting \<subseteq> {..<N}"
    "id_count (oldestXid (shmem y)) (next_of y) \<le> 2146483650 + int N - int (length waiting)"
  using assms by (simp_all add: race_ok_def Let_def)

lemma gate_result:
  assumes "race_ok N y waiting"
  shows "case xid_gate True y of
      Inl e \<Rightarrow> e = WraparoundDataLoss \<and> 2146483644 \<le> uint (next_of y - oldestXid (shmem y))
    | Inr _ \<Rightarrow> uint (next_of y - oldestXid (shmem y)) \<le> 2146483649"
proof -
  let ?o = "oldestXid (shmem y)"
  obtain age db v0 where lim: "uint age \<le> 2000000000"
      "shmem y = (SetTransactionIdLimit age ?o db v0)\<lparr>nextFullXid := nextFullXid (shmem y)\<rparr>"
    using race_okD(3) [OF assms] by blast
  let ?v = "SetTransactionIdLimit age ?o db v0"
  note nx = race_okD(2) [OF assms]
  note vac = vac_distance [OF lim(1) refl, of ?o db v0] and stop = stop_distance [OF refl, of ?o age db v0]
  have sh: "xidVacLimit (shmem y) = xidVacLimit ?v" "xidStopLimit (shmem y) = xidStopLimit ?v" by (subst lim(2), simp)+
  have cond: "TransactionIdFollowsOrEquals (next_of y) (xidVacLimit ?v) \<longleftrightarrow> uint (xidVacLimit ?v - ?o) \<le> uint (next_of y - ?o)"
    "TransactionIdFollowsOrEquals (next_of y) (xidStopLimit ?v) \<longleftrightarrow> uint (xidStopLimit ?v - ?o) \<le> uint (next_of y - ?o)"
    by (rule window_follows_eq [OF nx conjunct1 [OF vac]], rule window_follows_eq [OF nx conjunct1 [OF stop]])
  show ?thesis
    using vac stop by (auto simp: xid_gate_def sh cond Let_def)
qed

lemma take_xid_simps [simp]:
  "fst (take_xid b sub y) = nextFullXid (shmem y)"
  "shmem (snd (take_xid b sub y)) = (shmem y)\<lparr>nextFullXid := FullTransactionIdAdvance (nextFullXid (shmem y))\<rparr>"
  by (simp_all add: take_xid_def Let_def)

text \<open>Taking an id, with room for one more among the \<open>N\<close> backends.\<close>

lemma take_xid_ok:
  assumes ok: "race_ok N y waiting" and N: "N \<le> MAX_BACKENDS"
    and w: "distinct waiting'" "set waiting' \<subseteq> {..<N}"
    and room: "id_count (oldestXid (shmem y)) (next_of y) < 2146483650 + int N - int (length waiting')"
  shows "race_ok N (snd (take_xid b sub y)) waiting'"
    "in_window (oldestXid (shmem y)) (next_of (snd (take_xid b sub y)))"
    "uint (next_of y - oldestXid (shmem y)) < uint (next_of (snd (take_xid b sub y)) - oldestXid (shmem y))"
proof -
  let ?o = "oldestXid (shmem y)" and ?x = "next_of y"
  note nx = race_okD(2) [OF ok]
  have n: "TransactionIdIsNormal ?x" "uint (?x - ?o) < 2147483648" using nx by (simp_all add: in_window_def)
  have adv: "next_of (snd (take_xid b sub y)) = TransactionIdAdvance ?x" by (simp add: full_advance_low)
  have cnt: "id_count ?o (TransactionIdAdvance ?x) = id_count ?o ?x + 1"
    by (rule id_count_advance [OF race_okD(1) [OF ok] n])
  have le: "uint (?x - ?o) \<le> 2147483640"
    using id_count_bounds(2) [of ?x ?o] room N by (simp add: MAX_BACKENDS_def)
  have up: "uint (TransactionIdAdvance ?x - ?o) \<le> 2146745797"
    using id_count_bounds(2) [of "TransactionIdAdvance ?x" ?o] cnt room N by (simp add: MAX_BACKENDS_def)
  have norm: "TransactionIdIsNormal (TransactionIdAdvance ?x)"
    by (rule advance_normal)
  show win: "in_window ?o (next_of (snd (take_xid b sub y)))"
    unfolding adv in_window_def using up norm by simp
  show "uint (?x - ?o) < uint (next_of (snd (take_xid b sub y)) - ?o)"
  proof -
    obtain d where d: "TransactionIdAdvance ?x = ?x + d" "uint d = 1 \<or> uint d = 4 \<and> ?x = 4294967295"
      using advance_step [OF n(1)] .
    have "uint (TransactionIdAdvance ?x - ?o) = uint ((?x - ?o) + d)" by (simp add: d(1) algebra_simps)
    also have "\<dots> = uint (?x - ?o) + uint d" using le d(2) by (subst uint_plus_if') auto
    finally show ?thesis unfolding adv using d(2) by auto
  qed
  obtain age db v0 where lim: "uint age \<le> 2000000000"
      "shmem y = (SetTransactionIdLimit age ?o db v0)\<lparr>nextFullXid := nextFullXid (shmem y)\<rparr>"
    using race_okD(3) [OF ok] by blast
  have "(shmem y)\<lparr>nextFullXid := n\<rparr> = (SetTransactionIdLimit age ?o db v0)\<lparr>nextFullXid := n\<rparr>" for n
    by (subst lim(2)) simp
  then have "\<exists>age db v0. uint age \<le> 2000000000 \<and>
      (shmem y)\<lparr>nextFullXid := n\<rparr> = (SetTransactionIdLimit age ?o db v0)\<lparr>nextFullXid := n\<rparr>" for n
    using lim(1) by blast
  then show "race_ok N (snd (take_xid b sub y)) waiting'"
    using race_okD(1) [OF ok] win w room cnt adv by (simp add: race_ok_def Let_def)
qed

lemma waiting_length: "distinct w \<Longrightarrow> set w \<subseteq> {..<N} \<Longrightarrow> length w \<le> N"
  using card_mono [of "{..<N}" "set w"] by (simp add: distinct_card)

lemma waiting_Cons_length:
  assumes "distinct w" "set w \<subseteq> {..<N}" "b < N" "b \<notin> set w"
  shows "length w < N"
  using waiting_length [of "b # w" N] assms by simp

lemma race_ok_start:
  assumes "TransactionIdIsNormal oldest" "uint age \<le> 2000000000"
    and y: "shmem y = (SetTransactionIdLimit age oldest db v0)\<lparr>nextFullXid := nxt\<rparr>"
    and "TransactionIdIsNormal (XidFromFullTransactionId nxt)" "uint (XidFromFullTransactionId nxt - oldest) \<le> 2146483650"
  shows "race_ok N y []"
proof -
  have o: "oldestXid (shmem y) = oldest" "nextFullXid (shmem y) = nxt" by (simp_all add: y SetTransactionIdLimit_def Let_def)
  have "\<exists>age db v0. uint age \<le> 2000000000 \<and> shmem y = (SetTransactionIdLimit age oldest db v0)\<lparr>nextFullXid := nxt\<rparr>"
    using assms(2) y by blast
  then show ?thesis
    using assms(1,4,5) id_count_bounds(1) [of oldest "XidFromFullTransactionId nxt"]
    by (simp add: race_ok_def Let_def in_window_def o)
qed

lemma race_ok_remove: "race_ok N y waiting \<Longrightarrow> race_ok N y (remove1 b waiting)"
  using set_remove1_subset [of b waiting] by (auto simp: race_ok_def Let_def length_remove1)

lemma remove1_length: "b \<in> set w \<Longrightarrow> length w = Suc (length (remove1 b w))"
  using length_pos_if_in_set [of b w] by (simp add: length_remove1)

lemma race_invariant:
  assumes "xid_race N y waiting" "N \<le> MAX_BACKENDS"
  shows "race_ok N y waiting"
  using assms
proof (induction rule: xid_race.induct)
  case (race_start oldest age y db v0 nxt)
  then show ?case by (intro race_ok_start)
next
  case (race_direct y waiting b isSubXact)
  then have ok: "race_ok N y waiting" by blast
  have "uint (next_of y - oldestXid (shmem y)) \<le> 2146483649"
    using gate_result [OF ok] race_direct.hyps(4) by simp
  moreover have "length waiting < N"
    using waiting_Cons_length [OF race_okD(4,5) [OF ok] race_direct.hyps(2,3)] .
  ultimately have "id_count (oldestXid (shmem y)) (next_of y) < 2146483650 + int N - int (length waiting)"
    using id_count_bounds(1) [of "oldestXid (shmem y)" "next_of y"] by simp
  then show ?case using take_xid_ok(1) [OF ok race_direct.prems race_okD(4,5) [OF ok]] by blast
next
  case (race_release y waiting b)
  then have ok: "race_ok N y waiting" by blast
  have "uint (next_of y - oldestXid (shmem y)) \<le> 2146483649"
    using gate_result [OF ok] race_release.hyps(4) by simp
  then have "id_count (oldestXid (shmem y)) (next_of y) \<le> 2146483649"
    using id_count_bounds(1) [of "oldestXid (shmem y)" "next_of y"] by simp
  then show ?case
    using race_okD [OF ok] race_release.hyps(2,3) waiting_Cons_length [OF race_okD(4,5) [OF ok] race_release.hyps(2,3)]
    by (simp add: race_ok_def Let_def)
next
  case (race_resume y waiting b isSubXact)
  then have ok: "race_ok N y waiting" by blast
  have w: "distinct (remove1 b waiting)" "set (remove1 b waiting) \<subseteq> {..<N}"
    using race_okD(4,5) [OF ok] set_remove1_subset [of b waiting] by auto
  have "length waiting = Suc (length (remove1 b waiting))"
    using race_resume.hyps(2) by (rule remove1_length)
  then have "id_count (oldestXid (shmem y)) (next_of y) < 2146483650 + int N - int (length (remove1 b waiting))"
    using race_okD(6) [OF ok] by simp
  then show ?case using take_xid_ok(1) [OF ok race_resume.prems w] by blast
next
  case (race_quit y waiting b)
  then show ?case by (intro race_ok_remove)
next
  case (race_limit y waiting age oldest' db)
  then have ok: "race_ok N y waiting" by blast
  let ?v = "SetTransactionIdLimit age oldest' db (shmem y)"
  have nxt: "nextFullXid ?v = nextFullXid (shmem y)" "oldestXid ?v = oldest'"
    by (simp_all add: SetTransactionIdLimit_def Let_def)
  have n: "TransactionIdIsNormal (next_of y)" "uint (next_of y - oldestXid (shmem y)) < 2147483648"
    using race_okD(2) [OF ok] by (simp_all add: in_window_def)
  note move = id_count_move [OF race_okD(1) [OF ok] race_limit.hyps(3) n(1) race_limit.hyps(4) n(2)]
  have "?v = ?v\<lparr>nextFullXid := nextFullXid (shmem y)\<rparr>" using nxt(1) by simp
  then have "\<exists>age db v0. uint age \<le> 2000000000 \<and> ?v = (SetTransactionIdLimit age oldest' db v0)\<lparr>nextFullXid := nextFullXid (shmem y)\<rparr>"
    using race_limit.hyps(2) by blast
  then show ?case
    using race_okD(4,5,6) [OF ok] race_limit.hyps(3) n move nxt by (simp add: race_ok_def Let_def in_window_def)
next
  case (race_other y waiting y')
  then show ?case by (simp add: race_ok_def)
qed

text \<open>What \<open>take_xid\<close> gives to a backend that holds the right to take an id.\<close>

lemma take_in_window:
  assumes "race_ok N y waiting" "N \<le> MAX_BACKENDS"
    and "b \<in> set waiting \<or> b < N \<and> xid_gate True y = Inr False"
  shows "in_window (oldestXid (shmem y)) (next_of (snd (take_xid b isSubXact y)))"
    "TransactionIdPrecedes (next_of y) (next_of (snd (take_xid b isSubXact y)))"
    "uint (next_of (snd (take_xid b isSubXact y)) - oldestXid (shmem y)) \<le> 2146483653 + int N"
proof -
  let ?o = "oldestXid (shmem y)"
  note ok = assms(1) and nx = race_okD(2) [OF assms(1)]
  define w where "w = remove1 b waiting"
  have w: "distinct w" "set w \<subseteq> {..<N}"
    using race_okD(4,5) [OF ok] set_remove1_subset [of b waiting] by (auto simp: w_def)
  have room: "id_count ?o (next_of y) < 2146483650 + int N - int (length w)"
  proof (cases "b \<in> set waiting")
    case True
    then have "length waiting = Suc (length w)" unfolding w_def by (rule remove1_length)
    then show ?thesis using race_okD(6) [OF ok] by simp
  next
    case False
    with assms(3) have b: "b < N" "xid_gate True y = Inr False" by auto
    have "w = waiting" using False by (simp add: w_def remove1_idem)
    then have "length w < N" using waiting_Cons_length [OF race_okD(4,5) [OF ok] b(1) False] by simp
    then show ?thesis
      using gate_result [OF ok] b(2) id_count_bounds(1) [of ?o "next_of y"] by simp
  qed
  note t = take_xid_ok [OF ok assms(2) w room, of b isSubXact]
  show "in_window ?o (next_of (snd (take_xid b isSubXact y)))" by (rule t(2))
  show "TransactionIdPrecedes (next_of y) (next_of (snd (take_xid b isSubXact y)))"
    using t(3) window_precedes [OF nx t(2)] by simp
  have "oldestXid (shmem (snd (take_xid b isSubXact y))) = ?o" by simp
  then show "uint (next_of (snd (take_xid b isSubXact y)) - ?o) \<le> 2146483653 + int N"
    using race_okD(6) [OF t(1)] id_count_bounds(2) [of "next_of (snd (take_xid b isSubXact y))" ?o] by simp
qed

section \<open>Properties\<close>

text \<open>C40: no wraparound, with any number of backends up to \<^verbatim>\<open>MAX_BACKENDS\<close> assigning ids at the same time, each of which may be
  held up between its check of the stop limit and the assignment while the others go on, and with vacuum
  moving the oldest id; the counter starts at or before the stop limit. A backend that asks for an id is refused
  only with \<^verbatim>\<open>WraparoundDataLoss\<close>, at most six ids before the largest stop limit. Otherwise it gets the next id, that of the moment when it takes
  the lock for the second time if it had to release it. That id, even past the stop limit, and the counter
  after it lie in the half circle after the oldest id of the cluster, where the circular comparison
  agrees with the true order, with more than 700000 ids to spare. The hypothesis on \<open>meanwhile\<close> says that while the lock is released the others
  take steps of their own.\<close>

theorem xid_assignment_no_wraparound:
  assumes "xid_race N y waiting" "N \<le> MAX_BACKENDS" "b < N" "b \<notin> set waiting"
    and "xid_gate True y = Inr True \<Longrightarrow> xid_race N (meanwhile y) waiting' \<and> b \<in> set waiting'"
  shows "case GetNewTransactionId False False False True meanwhile b isSubXact y of
      Inl e \<Rightarrow> e = WraparoundDataLoss \<and> 2146483644 \<le> uint (next_of y - oldestXid (shmem y))
        \<and> uint (xidStopLimit (shmem y) - oldestXid (shmem y)) \<le> 2146483650
    | Inr (full, y') \<Rightarrow> let oldest = oldestXid (shmem y') in
        full = nextFullXid (shmem (if xid_gate True y = Inr True then meanwhile y else y))
        \<and> in_window oldest (XidFromFullTransactionId full) \<and> in_window oldest (next_of y')
        \<and> TransactionIdPrecedes (XidFromFullTransactionId full) (next_of y')
        \<and> uint (next_of y' - oldest) < 2147483648 - 700000"
proof (cases "xid_gate True y")
  case (Inl e)
  have ok: "race_ok N y waiting" by (rule race_invariant [OF assms(1,2)])
  obtain age db v0 where
      lim: "shmem y = (SetTransactionIdLimit age (oldestXid (shmem y)) db v0)\<lparr>nextFullXid := nextFullXid (shmem y)\<rparr>"
    using race_okD(3) [OF ok] by blast
  have "xidStopLimit (shmem y) = xidStopLimit (SetTransactionIdLimit age (oldestXid (shmem y)) db v0)"
    by (subst lim) simp
  then show ?thesis
    using Inl gate_result [OF ok] stop_distance [OF refl, of "oldestXid (shmem y)" age db v0]
    by (simp add: GetNewTransactionId_def)
next
  case (Inr released)
  define y1 where "y1 = (if released then meanwhile y else y)"
  have "\<exists>w. race_ok N y1 w \<and> (b \<in> set w \<or> b < N \<and> xid_gate True y1 = Inr False)"
    using Inr assms(3,5) race_invariant [OF _ assms(2)] assms(1) by (cases released) (auto simp: y1_def)
  then obtain w where w: "race_ok N y1 w" "b \<in> set w \<or> b < N \<and> xid_gate True y1 = Inr False" by blast
  note t = take_in_window [OF w(1) assms(2) w(2), of isSubXact]
  have "GetNewTransactionId False False False True meanwhile b isSubXact y = Inr (nextFullXid (shmem y1), snd (take_xid b isSubXact y1))"
    using Inr by (simp add: GetNewTransactionId_def y1_def take_xid_def Let_def)
  moreover have "oldestXid (shmem (snd (take_xid b isSubXact y1))) = oldestXid (shmem y1)" by simp
  moreover have "y1 = (if xid_gate True y = Inr True then meanwhile y else y)" using Inr by (simp add: y1_def)
  ultimately show ?thesis
    using t race_okD(2) [OF w(1)] assms(2) by (simp add: MAX_BACKENDS_def Let_def del: take_xid_simps)
qed

text \<open>
  Two backends pass the check at the last id before the stop limit. While backend 0 reports its warning, backend 1
  takes that id; backend 0 then gets the stop limit itself, which the check would have refused.
\<close>

definition near_stop :: xid_system where "near_stop = sys0 \<lparr>fxid_value = 2146484246\<rparr> pa0"

definition other_takes :: "xid_system \<Rightarrow> xid_system" where "other_takes y = snd (take_xid 1 False y)"

lemma near_stop_limits:
  "next_of near_stop = 2146484246" "oldestXid (shmem near_stop) = 600"
  "xidVacLimit (shmem near_stop) = 200000600" "xidStopLimit (shmem near_stop) = 2146484247"
  by (simp_all add: near_stop_def sys0_def XidFromFullTransactionId_def SetTransactionIdLimit_def Let_def MaxTransactionId_def
      special_xids drop_bit_eq_div)

lemma near_stop_gate: "xid_gate True near_stop = Inr True"
  by (simp add: xid_gate_def near_stop_limits TransactionIdFollowsOrEquals_def normal_iff xid_diff_def)

lemma near_stop_race: "xid_race 2 near_stop []"
  by (rule race_start [where oldest = 600 and age = 200000000 and db = 1 and ?v0.0 = limits0 and nxt = "\<lparr>fxid_value = 2146484246\<rparr>"])
    (simp_all add: normal_iff near_stop_def sys0_def XidFromFullTransactionId_def)

lemma other_takes_race: "xid_race 2 (other_takes near_stop) [0]"
proof -
  have "xid_race 2 near_stop [0]" by (rule race_release [OF near_stop_race _ _ near_stop_gate]) simp_all
  then have "xid_race 2 near_stop [1, 0]" by (rule race_release [OF _ _ _ near_stop_gate]) simp_all
  from race_resume [OF this, of 1 False] show ?thesis by (simp add: other_takes_def)
qed

theorem xid_assignment_no_wraparound_witness:
  "case GetNewTransactionId False False False True other_takes 0 False near_stop of
     Inl e \<Rightarrow> False
   | Inr (full, y') \<Rightarrow> XidFromFullTransactionId full = xidStopLimit (shmem y') \<and> oldestXid (shmem y') = 600 \<and>
       in_window 600 (XidFromFullTransactionId full) \<and> in_window 600 (next_of y') \<and>
       uint (next_of y' - 600) < 2147483648 - 700000"
proof -
  have full: "nextFullXid (shmem (other_takes near_stop)) = \<lparr>fxid_value = 2146484247\<rparr>"
    by (simp add: other_takes_def near_stop_def sys0_def FullTransactionIdAdvance_def skip_special.simps special_xids)
  have old: "oldestXid (shmem (other_takes near_stop)) = 600" "xidStopLimit (shmem (other_takes near_stop)) = 2146484247"
    by (simp_all add: other_takes_def near_stop_limits)
  show ?thesis
    using xid_assignment_no_wraparound [OF near_stop_race, of 0 other_takes "[0]" False] other_takes_race
    by (simp add: MAX_BACKENDS_def GetNewTransactionId_def near_stop_gate take_xid_def Let_def full old XidFromFullTransactionId_def)
qed

end
