(* ===== verification/Xact_Xids.thy ===== *)
theory Xact_Xids
  imports Xact_Outcome Varsup_Race
begin

text \<open>
  The ids of a backend's open transactions ascend from the outermost transaction inwards. Every routine of
  \<^verbatim>\<open>xact.c\<close> and of the main loop keeps this, also when it raises an error.
\<close>

section \<open>New ids\<close>

text \<open>The limits that protect from wraparound are set and the next id is in the half circle after \<open>oldest\<close>.\<close>

definition limited :: "TransactionId \<Rightarrow> VariableCacheData \<Rightarrow> bool" where
  "limited oldest v \<longleftrightarrow> TransactionIdIsNormal oldest \<and> in_window oldest (XidFromFullTransactionId (nextFullXid v))
     \<and> (\<exists>age db v0. uint age \<le> 2000000000 \<and> v = (SetTransactionIdLimit age oldest db v0)\<lparr>nextFullXid := nextFullXid v\<rparr>)"

abbreviation next_xid :: "xid_system \<Rightarrow> TransactionId" where
  "next_xid y \<equiv> XidFromFullTransactionId (nextFullXid (shmem y))"

text \<open>The backend runs under the postmaster, where the stop limit counts, and whatever the other backends do while
  \<^verbatim>\<open>GetNewTransactionId\<close> waits for the lock again, they leave the oldest id alone and the counter within
  the bound that the theory \<^verbatim>\<open>Varsup_Race\<close> proves for them.\<close>

definition guarded :: "TransactionId \<Rightarrow> config \<Rightarrow> bool" where
  "guarded oldest cf \<longleftrightarrow> IsUnderPostmaster cf \<and>
     (\<forall>y. limited oldest (shmem y) \<longrightarrow> xid_gate True y = Inr True \<longrightarrow>
        limited oldest (shmem (othersMeanwhile cf y)) \<and> uint (next_xid y - oldest) \<le> uint (next_xid (othersMeanwhile cf y) - oldest)
        \<and> uint (next_xid (othersMeanwhile cf y) - oldest) \<le> 2146483653 + int MAX_BACKENDS)"

text \<open>An id that was taken below that bound.\<close>

lemma taken_in_window:
  assumes "limited oldest (shmem y)" "uint (next_xid y - oldest) \<le> 2146483653 + int MAX_BACKENDS"
  shows "limited oldest (shmem (snd (take_xid me sub y)))"
    "uint (next_xid y - oldest) < uint (next_xid (snd (take_xid me sub y)) - oldest)"
proof -
  obtain age db v0 where lim: "uint age \<le> 2000000000" "shmem y = (SetTransactionIdLimit age oldest db v0)\<lparr>nextFullXid := nextFullXid (shmem y)\<rparr>"
    and nx: "in_window oldest (next_xid y)"
    using assms(1) by (auto simp: limited_def)
  have adv: "next_xid (snd (take_xid me sub y)) = TransactionIdAdvance (next_xid y)" by (simp add: full_advance_low)
  have d: "in_window oldest (TransactionIdAdvance (next_xid y))" "uint (next_xid y - oldest) < uint (TransactionIdAdvance (next_xid y) - oldest)"
    using advance_distance [OF nx] assms(2) by (simp_all add: MAX_BACKENDS_def)
  show "uint (next_xid y - oldest) < uint (next_xid (snd (take_xid me sub y)) - oldest)" unfolding adv by (rule d(2))
  have "(shmem y)\<lparr>nextFullXid := n\<rparr> = (SetTransactionIdLimit age oldest db v0)\<lparr>nextFullXid := n\<rparr>" for n
    by (subst lim(2)) simp
  then show "limited oldest (shmem (snd (take_xid me sub y)))"
    unfolding limited_def adv using d(1) lim(1) assms(1) by (auto simp: limited_def)
qed

lemma gate_passed:
  assumes "limited oldest (shmem y)" "xid_gate True y = Inr released"
  shows "uint (next_xid y - oldest) \<le> 2146483649"
proof -
  obtain age db v0 where lim: "uint age \<le> 2000000000" "shmem y = (SetTransactionIdLimit age oldest db v0)\<lparr>nextFullXid := nextFullXid (shmem y)\<rparr>"
    and nx: "in_window oldest (next_xid y)"
    using assms(1) by (auto simp: limited_def)
  let ?v = "SetTransactionIdLimit age oldest db v0"
  note vac = vac_distance [OF lim(1) refl, of oldest db v0] and stop = stop_distance [OF refl, of oldest age db v0]
  have sh: "xidVacLimit (shmem y) = xidVacLimit ?v" "xidStopLimit (shmem y) = xidStopLimit ?v" by (subst lim(2), simp)+
  then have "uint (next_xid y - oldest) < uint (xidVacLimit ?v - oldest) \<or> uint (next_xid y - oldest) < uint (xidStopLimit ?v - oldest)"
    using assms(2) window_follows_eq [OF nx conjunct1 [OF vac]] window_follows_eq [OF nx conjunct1 [OF stop]]
    by (auto simp: xid_gate_def Let_def split: if_splits)
  then show ?thesis using stop vac by linarith
qed

lemma assigned_in_window:
  assumes "limited oldest (shmem y)" "guarded oldest cf"
    and "GetNewTransactionId par False rec (IsUnderPostmaster cf) (othersMeanwhile cf) me sub y = Inr (full, y')"
  shows "in_window oldest (XidFromFullTransactionId full) \<and> uint (next_xid y - oldest) \<le> uint (XidFromFullTransactionId full - oldest)
     \<and> limited oldest (shmem y') \<and> uint (XidFromFullTransactionId full - oldest) < uint (next_xid y' - oldest)"
proof -
  obtain released where gate: "xid_gate True y = Inr released"
      and y': "(full, y') = take_xid me sub (if released then othersMeanwhile cf y else y)"
    using assms(2,3) by (auto simp: GetNewTransactionId_def guarded_def split: if_splits sum.splits)
  define y1 where "y1 = (if released then othersMeanwhile cf y else y)"
  have y1: "limited oldest (shmem y1)" "uint (next_xid y - oldest) \<le> uint (next_xid y1 - oldest)"
      "uint (next_xid y1 - oldest) \<le> 2146483653 + int MAX_BACKENDS"
    using assms(1,2) gate gate_passed [OF assms(1) gate] by (cases released; auto simp: y1_def guarded_def)+
  have "full = nextFullXid (shmem y1)" "y' = snd (take_xid me sub y1)"
    using arg_cong [OF y', of fst] arg_cong [OF y', of snd] by (simp_all add: y1_def)
  then show ?thesis using y1 taken_in_window [OF y1(1,3), of me sub] by (auto simp: limited_def)
qed

section \<open>The invariant\<close>

definition stack_xids :: "frames \<Rightarrow> TransactionId list" where
  "stack_xids ts = concat (map frame_xids (rev ts))"

lemma stack_xids_simps [simp]: "stack_xids [] = []" "stack_xids (t # ts) = stack_xids ts @ frame_xids t"
  by (simp_all add: stack_xids_def)

definition ascending :: "TransactionId \<Rightarrow> TransactionId list \<Rightarrow> bool" where
  "ascending oldest xs \<longleftrightarrow> list_all (in_window oldest) xs \<and> sorted_wrt (\<lambda>x y. uint (x - oldest) < uint (y - oldest)) xs"

definition xids_ok :: "TransactionId \<Rightarrow> xact \<Rightarrow> bool" where
  "xids_ok oldest s \<longleftrightarrow> limited oldest (shmem (xsys s)) \<and> ParallelCurrentXids s = [] \<and> stack s \<noteq> [] \<and> assigned (stack s)
     \<and> ascending oldest (stack_xids (stack s) @ [next_xid (xsys s)])"

text \<open>What the invariant depends on.\<close>

definition view :: "TransactionStateData \<Rightarrow> FullTransactionId \<times> TransactionId list" where
  "view t = (fullTransactionId t, childXids t)"

definition ids_of :: "xact \<Rightarrow> _" where
  "ids_of s = (shmem (xsys s), ParallelCurrentXids s, map view (stack s))"

lemma assigned_cong:
  "map view ts = map view us \<Longrightarrow> assigned ts = assigned us"
proof (induction ts arbitrary: us rule: assigned.induct)
  case (2 t)
  then show ?case by (cases us) (auto simp: view_def)
next
  case (3 t u ts)
  obtain t' u' us' where us: "us = t' # u' # us'" using 3(2) by (cases us; cases "tl us") simp_all
  have eqs: "fullTransactionId t' = fullTransactionId t" "childXids t' = childXids t" "fullTransactionId u' = fullTransactionId u"
    using 3(2) by (simp_all add: us view_def)
  have "assigned (u # ts) = assigned (u' # us')" using 3(1) [of "u' # us'"] 3(2) by (simp add: us)
  then show ?case by (simp only: us assigned.simps eqs)
qed simp

lemma stack_xids_cong:
  "map view ts = map view us \<Longrightarrow> stack_xids ts = stack_xids us"
proof (induction ts arbitrary: us)
  case (Cons t ts)
  then obtain u us' where "us = u # us'" by (cases us) simp_all
  then show ?case using Cons(1) [of us'] Cons(2) by (simp add: view_def)
qed simp

lemma xids_ok_cong: "ids_of s' = ids_of s \<Longrightarrow> xids_ok oldest s' = xids_ok oldest s"
  using assigned_cong [of "stack s'" "stack s"] stack_xids_cong [of "stack s'" "stack s"] map_is_Nil_conv [of view "stack s'"] by (auto simp: ids_of_def xids_ok_def)

lemma assigned_tl: "assigned (t # ts) \<Longrightarrow> assigned ts"
  by (cases ts) auto

lemma ascending_prefix: "ascending oldest (xs @ ys @ [n]) \<Longrightarrow> ascending oldest (xs @ [n])"
  by (auto simp: ascending_def sorted_wrt_append)

lemma ascending_later:
  "ascending oldest (xs @ [n]) \<Longrightarrow> in_window oldest m \<Longrightarrow> uint (n - oldest) \<le> uint (m - oldest) \<Longrightarrow> ascending oldest (xs @ [m])"
  by (force simp: ascending_def sorted_wrt_append)

lemma ids_of_frame [simp]:
  "ids_of (set_block b s) = ids_of s" "ids_of (set_state st s) = ids_of s" "ids_of (end_in_procarray l s) = ids_of s"
  "ids_of (EnterParallelMode s) = ids_of s" "ids_of (ExitParallelMode s) = ids_of s" "ids_of (StartSubTransaction s) = ids_of s"
  "ids_of (set_block_chain b ch s) = ids_of s" "ids_of (SaveTransactionCharacteristics s) = ids_of s"
  "ids_of (RestoreTransactionCharacteristics s) = ids_of s" "ids_of (BeginImplicitTransactionBlock s) = ids_of s"
  "ids_of (EndImplicitTransactionBlock s) = ids_of s"
  by (auto simp: ids_of_def view_def upd_cur_def set_block_def set_state_def end_in_procarray_def EnterParallelMode_def ExitParallelMode_def
      StartSubTransaction_def set_block_chain_def SaveTransactionCharacteristics_def RestoreTransactionCharacteristics_def
      BeginImplicitTransactionBlock_def EndImplicitTransactionBlock_def split: list.splits)

lemma ids_of_upd_cur: "(\<And>t. fullTransactionId (f t) = fullTransactionId t \<and> childXids (f t) = childXids t) \<Longrightarrow> ids_of (upd_cur f s) = ids_of s"
  by (auto simp: ids_of_def view_def upd_cur_def split: list.splits)

lemma ids_of_update [simp]:
  "ids_of (s\<lparr>XactReadOnly := ro\<rparr>) = ids_of s" "ids_of (s\<lparr>XactIsoLevel := n\<rparr>) = ids_of s" "ids_of (s\<lparr>XactDeferrable := d\<rparr>) = ids_of s"
  "ids_of (s\<lparr>deferredError := e\<rparr>) = ids_of s" "ids_of (s\<lparr>pendingDeletes := n\<rparr>) = ids_of s" "ids_of (s\<lparr>FirstSnapshotSet := b\<rparr>) = ids_of s"
  "ids_of (s\<lparr>prepareGID := g\<rparr>) = ids_of s"
  by (simp_all add: ids_of_def)

section \<open>Routines that keep the invariant\<close>

definition safe :: "TransactionId \<Rightarrow> 'a xm \<Rightarrow> bool" where
  "safe oldest m \<longleftrightarrow> (\<forall>s r s'. xids_ok oldest s \<longrightarrow> m s = (r, s') \<longrightarrow> xids_ok oldest s')"

lemma safeI: "(\<And>s r s'. xids_ok oldest s \<Longrightarrow> m s = (r, s') \<Longrightarrow> xids_ok oldest s') \<Longrightarrow> safe oldest m"
  by (auto simp: safe_def)

lemma safeD: "safe oldest m \<Longrightarrow> xids_ok oldest s \<Longrightarrow> m s = (r, s') \<Longrightarrow> xids_ok oldest s'"
  by (auto simp: safe_def)

lemma safe_ids: "(\<And>s r s'. m s = (r, s') \<Longrightarrow> ids_of s' = ids_of s) \<Longrightarrow> safe oldest m"
  by (rule safeI) (metis xids_ok_cong)

named_theorems safe_intros

lemma safe_basic [safe_intros]: "safe oldest (ret a)" "safe oldest (raise l r)"
  by (simp_all add: safe_def ret_def raise_def)

lemma safe_modify: "(\<And>s. ids_of (f s) = ids_of s) \<Longrightarrow> safe oldest (modify f)"
  by (rule safe_ids) (auto simp: modify_def)

lemma safe_xthen [safe_intros]:
  assumes "safe oldest m" "safe oldest k"
  shows "safe oldest (xthen m k)"
proof (rule safeI)
  fix s r s' assume s: "xids_ok oldest s" "xthen m k s = (r, s')"
  obtain r1 s1 where m: "m s = (r1, s1)" by (cases "m s")
  have s1: "xids_ok oldest s1" using safeD [OF assms(1) s(1) m] .
  then show "xids_ok oldest s'" using safeD [OF assms(2) s1, of r s'] s(2) m by (cases r1) (auto simp: xthen_def)
qed

lemma safe_xbind [safe_intros]:
  assumes "safe oldest m" "\<And>a. safe oldest (f a)"
  shows "safe oldest (xbind m f)"
proof (rule safeI)
  fix s r s' assume s: "xids_ok oldest s" "xbind m f s = (r, s')"
  obtain r1 s1 where m: "m s = (r1, s1)" by (cases "m s")
  have s1: "xids_ok oldest s1" using safeD [OF assms(1) s(1) m] .
  then show "xids_ok oldest s'" using safeD [OF assms(2) s1, of _ r s'] s(2) m by (cases r1) (auto simp: xbind_def)
qed

lemma safe_seq [safe_intros]: "list_all (safe oldest) ms \<Longrightarrow> safe oldest (seq ms)"
  by (induction ms) (simp_all add: safe_basic safe_xthen)

text \<open>A routine that picks its continuation by looking at the state.\<close>

lemma safe_choice: "(\<And>s0. safe oldest (m s0)) \<Longrightarrow> safe oldest (\<lambda>s. m s s)"
  by (rule safeI) (erule safeD [rotated])

lemma safe_if [safe_intros]: "safe oldest m \<Longrightarrow> safe oldest k \<Longrightarrow> safe oldest (\<lambda>s. if P s then m s else k s)"
  by (rule safe_choice [where m = "\<lambda>s0. if P s0 then m else k", simplified if_distribR]) simp

subsection \<open>Entries of the stack\<close>

declare frame_xids.simps [simp del]

lemma xids_ok_Cons:
  "stack s = t # ts \<Longrightarrow> xids_ok oldest s \<longleftrightarrow> limited oldest (shmem (xsys s)) \<and> ParallelCurrentXids s = [] \<and> assigned (t # ts)
     \<and> ascending oldest (stack_xids ts @ frame_xids t @ [next_xid (xsys s)])"
  by (simp add: xids_ok_def)

lemma no_id [simp]: "\<not> FullTransactionIdIsValid InvalidFullTransactionId"
  by (simp add: InvalidFullTransactionId_def FullTransactionIdIsValid_def XidFromFullTransactionId_def TransactionIdIsValid_def InvalidTransactionId_def)

lemma no_frame_xids: "fullTransactionId t = InvalidFullTransactionId \<Longrightarrow> childXids t = [] \<Longrightarrow> frame_xids t = []"
  by (simp add: frame_xids.simps)

text \<open>Changing the current entry to one with fewer ids.\<close>

lemma xids_ok_fewer:
  assumes "xids_ok oldest s" "stack s = t # ts" "stack s' = t' # ts" "shmem (xsys s') = shmem (xsys s)" "ParallelCurrentXids s' = []"
    and "frame_xids t = frame_xids t' @ zs" "FullTransactionIdIsValid (fullTransactionId t') \<Longrightarrow> FullTransactionIdIsValid (fullTransactionId t)"
      "FullTransactionIdIsValid (fullTransactionId t') \<or> childXids t' = []"
  shows "xids_ok oldest s'"
proof -
  have "ascending oldest ((stack_xids ts @ frame_xids t') @ zs @ [next_xid (xsys s)])"
    using assms(1,2,6) by (simp add: xids_ok_Cons)
  from ascending_prefix [OF this] have "ascending oldest (stack_xids ts @ frame_xids t' @ [next_xid (xsys s)])" by simp
  moreover have "assigned (t' # ts)" using assms(1,2,7,8) by (cases ts) (auto simp: xids_ok_Cons)
  ultimately show ?thesis using assms(1-5) by (simp add: xids_ok_Cons)
qed

lemma safe_push [safe_intros]: "safe oldest PushTransaction"
proof (rule safeI)
  fix s r s' assume "xids_ok oldest s" "PushTransaction s = (r, s')"
  then show "xids_ok oldest s'"
    by (cases "stack s") (auto simp: PushTransaction_def Let_def raise_def xids_ok_def no_frame_xids split: if_splits)
qed

lemma safe_pop [safe_intros]: "safe oldest PopTransaction"
proof (rule safeI)
  fix s r s' assume s: "xids_ok oldest s" "PopTransaction s = (r, s')"
  show "xids_ok oldest s'"
  proof (cases "\<exists>t p ts. stack s = t # p # ts")
    case True
    then obtain t p ts where st: "stack s = t # p # ts" by blast
    then have "s' = s\<lparr>stack := p # ts\<rparr>" using s(2) by (simp add: PopTransaction_def)
    then show ?thesis using s(1) st ascending_prefix [of oldest "stack_xids ts @ frame_xids p" "frame_xids t"]
      by (auto simp: xids_ok_Cons dest: assigned_tl)
  qed (use s in \<open>auto simp: PopTransaction_def raise_def split: list.splits\<close>)
qed

lemma xids_ok_upd_cur:
  assumes "xids_ok oldest s" "ids_of s' = ids_of s"
    and "\<And>t. \<exists>zs. frame_xids t = frame_xids (f t) @ zs"
    and "\<And>t. FullTransactionIdIsValid (fullTransactionId (f t)) \<Longrightarrow> FullTransactionIdIsValid (fullTransactionId t)"
    and "\<And>t. FullTransactionIdIsValid (fullTransactionId (f t)) \<or> childXids (f t) = []"
  shows "xids_ok oldest (upd_cur f s')"
proof (cases "stack s'")
  case (Cons t ts)
  have ok: "xids_ok oldest s'" using assms(1,2) xids_ok_cong by blast
  obtain zs where zs: "frame_xids t = frame_xids (f t) @ zs" using assms(3) by blast
  show ?thesis
    by (rule xids_ok_fewer [OF ok Cons _ _ _ zs]) (use ok Cons assms(4,5) in \<open>auto simp: upd_cur_def xids_ok_def\<close>)
next
  case Nil
  then have "ids_of (upd_cur f s') = ids_of s'" by (simp add: ids_of_def upd_cur_def)
  then show ?thesis using assms(1,2) xids_ok_cong by metis
qed

lemma xids_ok_reset:
  assumes "xids_ok oldest s"
  shows "xids_ok oldest (reset_top s)"
proof -
  have "ids_of (s\<lparr>XactTopFullTransactionId := InvalidFullTransactionId, ParallelCurrentXids := [], FirstSnapshotSet := False\<rparr>) = ids_of s"
    using assms by (simp add: ids_of_def xids_ok_def)
  then show ?thesis unfolding reset_top_def by (rule xids_ok_upd_cur [OF assms]) (auto simp: no_frame_xids)
qed

lemma xids_ok_clear: "xids_ok oldest s \<Longrightarrow> xids_ok oldest (AtSubAbort_childXids s)"
  unfolding AtSubAbort_childXids_def by (erule xids_ok_upd_cur) (auto simp: frame_xids.simps)

text \<open>Committing a subtransaction moves its ids up, which leaves their order alone.\<close>

lemma xids_ok_commit_sub:
  assumes "stack s = t # u # ts" "xids_ok oldest s" "CommitSubTransaction cf s = (r, s')"
  shows "xids_ok oldest s'"
proof (cases r)
  case (Inl e)
  then have "ids_of s' = ids_of s" using assms(1,3)
    by (cases "FullTransactionIdIsValid (fullTransactionId t)")
      (auto simp: CommitSubTransaction_def CommandCounterIncrement_def AtSubCommit_childXids_def PopTransaction_def xm_defs ids_of_def view_def upd_cur_def split: if_splits)
  then show ?thesis using assms(2) xids_ok_cong by metis
next
  case (Inr x)
  have st: "xsys s' = xsys s \<and> ParallelCurrentXids s' = ParallelCurrentXids s \<and>
      (\<exists>u'. stack s' = u' # ts \<and> fullTransactionId u' = fullTransactionId u
        \<and> childXids u' = childXids u @ (if FullTransactionIdIsValid (fullTransactionId t) then frame_xids t else []))"
    using assms(1,3) Inr
    by (cases "FullTransactionIdIsValid (fullTransactionId t)")
      (auto simp: CommitSubTransaction_def CommandCounterIncrement_def AtSubCommit_childXids_def PopTransaction_def xm_defs frame_xids.simps upd_cur_def split: if_splits)
  then obtain u' where u': "stack s' = u' # ts" "fullTransactionId u' = fullTransactionId u"
      "childXids u' = childXids u @ (if FullTransactionIdIsValid (fullTransactionId t) then frame_xids t else [])" by blast
  have ok: "assigned (t # u # ts)" using assms(1,2) by (simp add: xids_ok_Cons)
  then have ids: "frame_xids u' = frame_xids u @ frame_xids t" and "assigned (u' # ts)"
    using u'(2,3) by (cases ts; auto simp: frame_xids.simps)+
  then show ?thesis using assms(1,2) u'(1) st by (simp add: xids_ok_Cons)
qed

lemma safe_commit_sub [safe_intros]: "safe oldest (CommitSubTransaction cf)"
proof (rule safeI)
  fix s r s' assume s: "xids_ok oldest s" "CommitSubTransaction cf s = (r, s')"
  show "xids_ok oldest s'"
  proof (cases "stack s" rule: commit_marked.cases)
    case (3 t u ts)
    then show ?thesis using xids_ok_commit_sub s by blast
  next
    case (2 t)
    then have "ids_of s' = ids_of s" using s(2)
      by (auto simp: CommitSubTransaction_def CommandCounterIncrement_def AtSubCommit_childXids_def PopTransaction_def xm_defs ids_of_def view_def upd_cur_def split: if_splits)
    then show ?thesis using s(1) xids_ok_cong by metis
  next
    case 1
    then have "ids_of s' = ids_of s" using s(2)
      by (auto simp: CommitSubTransaction_def CommandCounterIncrement_def AtSubCommit_childXids_def PopTransaction_def xm_defs ids_of_def view_def upd_cur_def split: if_splits)
    then show ?thesis using s(1) xids_ok_cong by metis
  qed
qed

subsection \<open>Assignment\<close>

definition no_ids :: "TransactionStateData \<Rightarrow> bool" where
  "no_ids t \<longleftrightarrow> \<not> FullTransactionIdIsValid (fullTransactionId t) \<and> childXids t = []"

lemma no_ids_stack: "list_all no_ids us \<Longrightarrow> stack_xids (us @ ts) = stack_xids ts"
  by (induction us) (auto simp: no_ids_def frame_xids.simps)

lemma assigned_no_ids: "assigned (us @ ts) \<Longrightarrow> list_all (\<lambda>t. \<not> FullTransactionIdIsValid (fullTransactionId t)) us \<Longrightarrow> list_all no_ids us \<and> assigned ts"
proof (induction us)
  case (Cons t us)
  have "assigned (us @ ts)" using Cons(2) assigned_tl by simp
  moreover have "no_ids t" using Cons(2,3) by (cases "us @ ts") (auto simp: no_ids_def)
  ultimately show ?case using Cons by simp
qed simp

lemma no_ids_assigned: "list_all no_ids us \<Longrightarrow> assigned ts \<Longrightarrow> assigned (us @ ts)"
proof (induction us)
  case (Cons t us)
  then show ?case by (cases "us @ ts") (auto simp: no_ids_def)
qed simp

lemma map_update_same: "(\<And>t. g (f t) = g t) \<Longrightarrow> map g (ts[i := f (ts ! i)]) = map g ts"
  by (cases "i < length ts") (auto intro: nth_equalityI simp: nth_list_update)

lemma ids_of_upd_frame: "(\<And>t. fullTransactionId (f t) = fullTransactionId t \<and> childXids (f t) = childXids t) \<Longrightarrow> ids_of (upd_frame i f s) = ids_of s"
  by (simp add: ids_of_def view_def upd_frame_def map_update_same)

lemma ids_of_report [simp]: "ids_of (report_xid cf x b s) = ids_of s"
proof -
  have "ids_of (s\<lparr>unreportedXids := us, walEnd := e, XactLastRecEnd := l\<rparr>) = ids_of s" "ids_of (s\<lparr>unreportedXids := us\<rparr>) = ids_of s" for us e l
    by (simp_all add: ids_of_def)
  then show ?thesis by (simp add: report_xid_def Let_def ids_of_upd_frame)
qed

text \<open>One entry that gets an id, below entries without one.\<close>

lemma xids_ok_new:
  assumes "xids_ok oldest s" "stack s = us @ t # ws" "list_all no_ids us" "no_ids t"
    and "ws \<noteq> [] \<Longrightarrow> FullTransactionIdIsValid (fullTransactionId (hd ws))"
    and "guarded oldest cf"
    and "GetNewTransactionId par False rec (IsUnderPostmaster cf) (othersMeanwhile cf) me sub (xsys s) = Inr (full, y)"
  shows "FullTransactionIdIsValid full \<and> xids_ok oldest (s\<lparr>stack := us @ t\<lparr>fullTransactionId := full\<rparr> # ws, xsys := y\<rparr>)"
proof -
  let ?t = "t\<lparr>fullTransactionId := full\<rparr>"
  have ok: "limited oldest (shmem (xsys s))" "assigned (us @ t # ws)" "ascending oldest (stack_xids ws @ [next_xid (xsys s)])" "ParallelCurrentXids s = []"
    using assms(1-4) no_ids_stack [of "us @ [t]" ws] by (auto simp: xids_ok_def)
  have new: "in_window oldest (XidFromFullTransactionId full)" "limited oldest (shmem y)"
      "uint (XidFromFullTransactionId full - oldest) < uint (next_xid y - oldest)"
      "uint (next_xid (xsys s) - oldest) \<le> uint (XidFromFullTransactionId full - oldest)"
    using assigned_in_window [OF ok(1) assms(6,7)] by auto
  have valid: "FullTransactionIdIsValid full"
    using new(1) by (auto simp: in_window_def FullTransactionIdIsValid_def TransactionIdIsNormal_def TransactionIdIsValid_def special_xids)
  have ids: "stack_xids (us @ ?t # ws) = stack_xids ws @ [XidFromFullTransactionId full]"
    using assms(3,4) no_ids_stack [of us "?t # ws"] valid by (simp add: frame_xids.simps no_ids_def)
  have tail: "assigned ws" using assigned_no_ids [of "us @ [t]" ws] ok(2) assms(3,4) by (auto simp: no_ids_def list_all_iff)
  have "assigned (us @ ?t # ws)"
    by (rule no_ids_assigned [OF assms(3)]) (use assms(5) valid tail in \<open>cases ws; auto\<close>)
  moreover have "ascending oldest ((stack_xids ws @ [XidFromFullTransactionId full]) @ [next_xid y])"
    using ascending_later [OF ok(3) new(1,4)] new by (auto simp: ascending_def sorted_wrt_append limited_def)
  ultimately show ?thesis using new ok ids valid by (simp add: xids_ok_def)
qed

lemma no_ids_view: "list_all no_ids ts \<longleftrightarrow> list_all (\<lambda>(f, c). \<not> FullTransactionIdIsValid f \<and> c = []) (map view ts)"
  by (simp add: list.pred_map no_ids_def view_def list_all_iff)

lemma ids_of_stack: "ids_of s' = ids_of s \<Longrightarrow> map view (stack s') = map view (stack s)"
  by (simp add: ids_of_def view_def)

lemma assign_frame_result:
  assumes "stack s = us @ t # ws" "\<not> IsInParallelMode s" "\<not> IsParallelWorker cf"
    and "GetNewTransactionId False False (RecoveryInProgress cf) (IsUnderPostmaster cf) (othersMeanwhile cf) (MyProc (backend s)) (length us + 1 < length (stack s)) (xsys s) = Inr (full, y)"
    and "assign_frame cf (length us) s = (r, s')"
  shows "ids_of s' = ids_of (s\<lparr>stack := us @ t\<lparr>fullTransactionId := full\<rparr> # ws, xsys := y\<rparr>)"
proof -
  have "ids_of (u\<lparr>XactTopFullTransactionId := f\<rparr>) = ids_of u" for u f by (simp add: ids_of_def)
  then show ?thesis
    using assms by (auto simp: assign_frame_def new_xid_def xbind_def ret_def Let_def upd_frame_def nth_append list_update_append ids_of_def [of "_\<lparr>xsys := _\<rparr>"] ids_of_def [of "_\<lparr>stack := _\<rparr>"] split: if_splits)
qed

text \<open>The outcome of \<open>assign_frame\<close> on such an entry.\<close>

lemma assign_frame_ok:
  assumes ok: "xids_ok oldest s" "guarded oldest cf" and i: "i < length (stack s)" "list_all no_ids (take (Suc i) (stack s))"
    and parent: "Suc i < length (stack s) \<Longrightarrow> FullTransactionIdIsValid (fullTransactionId (stack s ! Suc i))"
    and run: "assign_frame cf i s = (r, s')"
  shows "xids_ok oldest s' \<and> (r = Inr () \<longrightarrow> length (stack s') = length (stack s) \<and> list_all no_ids (take i (stack s'))
    \<and> FullTransactionIdIsValid (fullTransactionId (stack s' ! i)))"
proof -
  define us t ws where "us = take i (stack s)" and "t = stack s ! i" and "ws = drop (Suc i) (stack s)"
  have st: "stack s = us @ t # ws" "length us = i" using i(1) by (auto simp: us_def t_def ws_def id_take_nth_drop)
  have none: "list_all no_ids us" "no_ids t" using i by (auto simp: us_def t_def take_Suc_conv_app_nth)
  have par: "ws \<noteq> [] \<Longrightarrow> FullTransactionIdIsValid (fullTransactionId (hd ws))"
    using parent by (auto simp: ws_def hd_drop_conv_nth)
  show ?thesis
  proof (cases "IsInParallelMode s \<or> IsParallelWorker cf")
    case True
    then show ?thesis using run ok by (auto simp: assign_frame_def raise_def)
  next
    case seq: False
    show ?thesis
    proof (cases "GetNewTransactionId False False (RecoveryInProgress cf) (IsUnderPostmaster cf) (othersMeanwhile cf) (MyProc (backend s)) (i + 1 < length (stack s)) (xsys s)")
      case (Inl e)
      then show ?thesis using run seq ok by (auto simp: assign_frame_def new_xid_def xbind_def raise_def Let_def)
    next
      case (Inr fy)
      obtain full y where fy: "fy = (full, y)" by (cases fy)
      have z: "ids_of s' = ids_of (s\<lparr>stack := us @ t\<lparr>fullTransactionId := full\<rparr> # ws, xsys := y\<rparr>)"
        using assign_frame_result [OF st(1), of cf full y r s'] seq Inr fy run st(2) by auto
      have new: "FullTransactionIdIsValid full" "xids_ok oldest (s\<lparr>stack := us @ t\<lparr>fullTransactionId := full\<rparr> # ws, xsys := y\<rparr>)"
        using xids_ok_new [OF ok(1) st(1) none par ok(2)] Inr fy by auto
      have v: "map view (stack s') = map view (us @ t\<lparr>fullTransactionId := full\<rparr> # ws)" using ids_of_stack [OF z] by simp
      then have len: "length (stack s') = length (stack s)" using st(1) map_eq_imp_length_eq [OF v] by simp
      have "list_all no_ids (take i (stack s'))"
        using none(1) arg_cong [OF v, of "take i"] st(2) by (simp add: no_ids_view take_map)
      moreover have "view (stack s' ! i) = view (t\<lparr>fullTransactionId := full\<rparr>)"
        using arg_cong [OF v, of "\<lambda>vs. vs ! i"] i(1) len st(2) by (simp add: nth_append)
      ultimately show ?thesis using new len xids_ok_cong [OF z, of oldest] by (simp add: view_def)
    qed
  qed
qed

lemma assign_frames_ok:
  assumes "xids_ok oldest s" "guarded oldest cf" "n \<le> length (stack s)" "list_all no_ids (take n (stack s))"
    and "n < length (stack s) \<Longrightarrow> FullTransactionIdIsValid (fullTransactionId (stack s ! n))"
    and "seq (map (assign_frame cf) (rev [0 ..< n])) s = (r, s')"
  shows "xids_ok oldest s'"
  using assms
proof (induction n arbitrary: s)
  case (Suc n)
  obtain r1 s1 where r1: "assign_frame cf n s = (r1, s1)" by (cases "assign_frame cf n s")
  have step: "xids_ok oldest s1" "r1 = Inr () \<Longrightarrow> length (stack s1) = length (stack s) \<and> list_all no_ids (take n (stack s1))
      \<and> FullTransactionIdIsValid (fullTransactionId (stack s1 ! n))"
    using assign_frame_ok [OF Suc(2,3) _ Suc(5,6) r1] Suc(4) by auto
  show ?case
  proof (cases r1)
    case (Inl e)
    then show ?thesis using Suc(7) r1 step(1) by (simp add: xthen_def)
  next
    case (Inr x)
    then show ?thesis using Suc(1) [of s1] Suc(3,4,7) r1 step by (simp add: xthen_def)
  qed
qed (simp add: ret_def)

lemma safe_current_xid [safe_intros]:
  assumes "guarded oldest cf"
  shows "safe oldest (GetCurrentTransactionId cf)"
proof -
  have "xids_ok oldest s'" if s: "xids_ok oldest s" "\<not> FullTransactionIdIsValid (fullTransactionId (cur s))" "AssignTransactionId cf 0 s = (r, s')" "stack s \<noteq> []" for s r s'
  proof (cases "IsInParallelMode s \<or> IsParallelWorker cf")
    case True
    then show ?thesis using s by (auto simp: AssignTransactionId_def raise_def)
  next
    case False
    obtain t ts where st: "stack s = t # ts" using s(4) by (cases "stack s") auto
    let ?P = "\<lambda>t. \<not> FullTransactionIdIsValid (fullTransactionId t)"
    let ?n = "1 + length (takeWhile ?P ts)"
    have take: "take ?n (stack s) = t # takeWhile ?P ts" by (simp add: st takeWhile_eq_take [symmetric])
    have "list_all ?P (t # takeWhile ?P ts)" using s(2) st by (auto simp: list_all_iff dest: set_takeWhileD)
    moreover have "assigned ((t # takeWhile ?P ts) @ dropWhile ?P ts)" using s(1) st by (simp add: xids_ok_Cons)
    ultimately have none: "list_all no_ids (take ?n (stack s))" using assigned_no_ids take by metis
    have "FullTransactionIdIsValid (fullTransactionId (stack s ! ?n))" if "?n < length (stack s)"
      using that nth_length_takeWhile [of ?P ts] by (simp add: st)
    moreover have "seq (map (assign_frame cf) (rev [0 ..< ?n])) s = (r, s')"
      using s(3) False st by (simp add: AssignTransactionId_def Let_def)
    moreover have "?n \<le> length (stack s)" using length_takeWhile_le [of ?P ts] by (simp add: st)
    ultimately show ?thesis using assign_frames_ok [OF s(1) assms _ none] by blast
  qed
  note assign = this
  have "safe oldest (\<lambda>s. if \<not> FullTransactionIdIsValid (fullTransactionId (cur s)) then AssignTransactionId cf 0 s else ret () s)"
  proof (rule safeI)
    fix s r s' assume s: "xids_ok oldest s" "(if \<not> FullTransactionIdIsValid (fullTransactionId (cur s)) then AssignTransactionId cf 0 s else ret () s) = (r, s')"
    then have "stack s \<noteq> []" by (simp add: xids_ok_def)
    then show "xids_ok oldest s'" using assign [OF s(1)] s by (cases "FullTransactionIdIsValid (fullTransactionId (cur s))") (auto simp: ret_def)
  qed
  then show ?thesis unfolding GetCurrentTransactionId_def by (rule safe_xbind) (simp add: safe_def)
qed

subsection \<open>Ends and starts of transactions\<close>

lemma safe_counter [safe_intros]: "safe oldest (CommandCounterIncrement cf)"
  by (rule safe_ids) (auto simp: CommandCounterIncrement_def raise_def ids_of_def split: if_splits)

lemma safe_record [safe_intros]: "safe oldest (RecordTransactionAbort cf b)" "safe oldest (RecordTransactionCommit cf)"
  by (rule safe_ids, auto simp: RecordTransactionAbort_def RecordTransactionCommit_def raise_def Let_def ids_of_def split: if_splits option.splits bool.splits)+

lemma safe_update: "(\<And>s. xids_ok oldest s \<Longrightarrow> xids_ok oldest (f s)) \<Longrightarrow> safe oldest (modify f)"
  by (rule safeI) (auto simp: modify_def)

lemma safe_after: "(\<And>s. xids_ok oldest s \<Longrightarrow> xids_ok oldest (f s)) \<Longrightarrow> safe oldest m \<Longrightarrow> safe oldest (\<lambda>s. m (f s))"
  unfolding safe_def by blast

lemma xids_ok_upd [simp]: "(\<And>t. fullTransactionId (f t) = fullTransactionId t \<and> childXids (f t) = childXids t) \<Longrightarrow> xids_ok oldest (upd_cur f s) = xids_ok oldest s"
  by (rule xids_ok_cong [OF ids_of_upd_cur])

lemma safe_abort_sub [safe_intros]: "safe oldest (AbortSubTransaction cf)"
proof -
  have "safe oldest (\<lambda>s. ret () (if FullTransactionIdIsValid (fullTransactionId (cur s)) then AtSubAbort_childXids s else s))"
    by (rule safeI) (auto simp: ret_def xids_ok_clear split: if_splits)
  then have "safe oldest (xbind (RecordTransactionAbort cf True) (\<lambda>_ s. ret () (if FullTransactionIdIsValid (fullTransactionId (cur s)) then AtSubAbort_childXids s else s)))"
    by (intro safe_xbind safe_record)
  then show ?thesis unfolding AbortSubTransaction_def
    by (intro safe_seq) (auto intro!: safe_modify safe_if safe_basic ids_of_upd_cur)
qed

lemma safe_cleanup_sub [safe_intros]: "safe oldest CleanupSubTransaction"
  unfolding CleanupSubTransaction_def by (intro safe_seq) (auto intro!: safe_modify safe_pop ids_of_upd_cur)

lemma xids_ok_start:
  assumes "xids_ok oldest s"
  shows "xids_ok oldest (StartTransaction cf s)"
proof -
  have nxt: "ascending oldest [next_xid (xsys s)]" using assms ascending_prefix [of oldest "[]"] by (auto simp: xids_ok_def)
  obtain t where t: "stack (StartTransaction cf s) = [t]" "no_ids t" "shmem (xsys (StartTransaction cf s)) = shmem (xsys s)" "ParallelCurrentXids (StartTransaction cf s) = ParallelCurrentXids s"
    by (simp add: StartTransaction_def Let_def GetNextLocalTransactionId_def set_state_def upd_cur_def no_ids_def split: prod.splits)
  then show ?thesis using assms nxt by (simp add: xids_ok_def no_ids_def frame_xids.simps)
qed

lemma xids_ok_chain: "xids_ok oldest s \<Longrightarrow> xids_ok oldest (finish_chain cf s)"
  using xids_ok_start [of oldest "set_block TBLOCK_DEFAULT s" cf]
  by (simp add: finish_chain_def Let_def xids_ok_cong [OF ids_of_frame(9)] xids_ok_cong [OF ids_of_frame(1)])

lemma safe_end [safe_intros]:
  "safe oldest (CommitTransaction cf)" "safe oldest (AbortTransaction cf)" "safe oldest CleanupTransaction"
proof -
  have reset: "safe oldest (modify (\<lambda>s. reset_top (s\<lparr>pendingDeletes := 0\<rparr>)))"
    by (rule safe_update) (simp add: xids_ok_reset xids_ok_cong [OF ids_of_update(5)])
  have "safe oldest (\<lambda>s. (\<lambda>w. seq [
        modify (\<lambda>s. if w then EnterParallelMode s else s),
        (\<lambda>s. if deferredError s then raise ERROR DeferredFailure s else ret () s),
        modify (upd_cur (\<lambda>t. t\<lparr>trans_state := TRANS_COMMIT, parallelModeLevel := 0\<rparr>)),
        xbind (if w then ret InvalidTransactionId else RecordTransactionCommit cf) (\<lambda>latestXid. modify (end_in_procarray latestXid)),
        modify (\<lambda>s. reset_top (s\<lparr>pendingDeletes := 0\<rparr>))]) (blockState (cur s) = TBLOCK_PARALLEL_INPROGRESS) s)"
    by (rule safe_choice, intro safe_seq) (auto intro!: safe_modify safe_if safe_basic safe_xbind safe_record ids_of_upd_cur reset)
  then show "safe oldest (CommitTransaction cf)" by (simp add: CommitTransaction_def [abs_def] Let_def)
  have "safe oldest (\<lambda>s. (\<lambda>w. seq [
        modify (upd_cur (\<lambda>t. t\<lparr>trans_state := TRANS_ABORT, parallelModeLevel := 0\<rparr>)),
        modify (\<lambda>s. s\<lparr>deferredError := False, pendingDeletes := 0\<rparr>),
        xbind (if w then ret InvalidTransactionId else RecordTransactionAbort cf False)
          (\<lambda>latestXid. modify (end_in_procarray latestXid))]) (blockState (cur s) = TBLOCK_PARALLEL_INPROGRESS) s)"
    by (rule safe_choice, intro safe_seq) (auto intro!: safe_modify safe_basic safe_xbind safe_record ids_of_upd_cur)
  then show "safe oldest (AbortTransaction cf)" by (simp add: AbortTransaction_def [abs_def] Let_def)
  show "safe oldest CleanupTransaction"
    by (rule safeI) (auto simp: CleanupTransaction_def raise_def xids_ok_reset split: if_splits)
qed

lemma safe_prepare [safe_intros]:
  assumes "guarded oldest cf"
  shows "safe oldest (PrepareTransaction cf)"
proof -
  have reset: "safe oldest (modify (\<lambda>s. reset_top (s\<lparr>pendingDeletes := 0\<rparr>)))"
    by (rule safe_update) (simp add: xids_ok_reset xids_ok_cong [OF ids_of_update(5)])
  have "safe oldest (\<lambda>s. if markAsPreparing cf xid (prepareGID s) then ret () (s\<lparr>prepareGID := None\<rparr>) else raise ERROR PrepareRefused s)" for xid
    by (rule safe_ids) (auto simp: ret_def raise_def split: if_splits)
  moreover have "safe oldest (modify (\<lambda>s. s\<lparr>XactLastRecEnd := 0,
      xsys := (xsys s)\<lparr>parray := ProcArrayClearTransaction (MyProc (backend s)) (parray (xsys s))\<rparr>\<rparr>))"
    by (rule safe_modify) (simp add: ids_of_def)
  ultimately show ?thesis unfolding PrepareTransaction_def
    by (intro safe_xbind safe_current_xid [OF assms] safe_seq) (auto intro!: safe_modify safe_if safe_basic reset)
qed

subsection \<open>Commands\<close>

lemma safe_start_command [safe_intros]: "safe oldest (StartTransactionCommand cf)"
  by (rule safeI) (auto simp: ret_def raise_def xids_ok_start xids_ok_cong [OF ids_of_frame(1)] split: TBlockState.splits)

text \<open>Routines with a case distinction are judged by the state they leave.\<close>

lemma safe_by_cases: "(\<And>s. xids_ok oldest s \<Longrightarrow> xids_ok oldest (snd (m s))) \<Longrightarrow> safe oldest m"
  by (rule safeI) (metis snd_conv)

lemma safe_snd: "safe oldest m \<Longrightarrow> xids_ok oldest s \<Longrightarrow> xids_ok oldest (snd (m s))"
  by (metis prod.collapse safeD)

lemma snd_basic [simp]: "snd (ret a s) = s" "snd (raise l r s) = s" "snd (modify f s) = f s"
  by (simp_all add: ret_def raise_def modify_def)

lemma safe_savepoint [safe_intros]: "safe oldest (DefineSavepoint n)"
proof (rule safe_by_cases)
  fix s assume s: "xids_ok oldest s"
  have "safe oldest (xthen PushTransaction (modify (upd_cur (\<lambda>t. t\<lparr>spname := n\<rparr>))))"
    by (intro safe_xthen safe_push safe_modify ids_of_upd_cur) simp
  from safe_snd [OF this s] show "xids_ok oldest (snd (DefineSavepoint n s))"
    using s by (cases "blockState (cur s)") (simp_all add: DefineSavepoint_def)
qed

lemma safe_restart [safe_intros]: "safe oldest (restart_savepoint n l)"
  unfolding restart_savepoint_def by (intro safe_seq) (auto intro!: safe_savepoint safe_modify ids_of_upd_cur)

lemma xids_ok_save: "xids_ok oldest s \<Longrightarrow> xids_ok oldest (if P then SaveTransactionCharacteristics s else s)"
  by (simp add: xids_ok_cong [OF ids_of_frame(8)])

text \<open>The recursive commands: each step is safe, and so is the rest of the work on the shorter stack.\<close>

lemma xids_ok_xthen:
  assumes "xids_ok oldest s" "safe oldest m" "\<And>s1. m s = (Inr (), s1) \<Longrightarrow> xids_ok oldest s1 \<Longrightarrow> xids_ok oldest (snd (k s1))"
  shows "xids_ok oldest (snd (xthen m k s))"
proof -
  obtain r s1 where m: "m s = (r, s1)" by (cases "m s")
  then have "xids_ok oldest s1" using safeD [OF assms(2,1)] by blast
  then show ?thesis using m assms(3) by (cases r) (auto simp: xthen_def)
qed

lemma safe_commit_subs [safe_intros]: "safe oldest (commit_subs cf b)"
proof (rule safe_by_cases)
  fix s show "xids_ok oldest s \<Longrightarrow> xids_ok oldest (snd (commit_subs cf b s))"
  proof (induction cf b s rule: commit_subs.induct)
    case (1 cf b s)
    show ?case unfolding commit_subs.simps [of cf b s]
      by (rule xids_ok_xthen [OF 1(2) safe_commit_sub]) (use 1(1) in simp)
  qed
qed

lemma safe_to_default:
  assumes "safe oldest m"
  shows "safe oldest (xthen m (modify (set_block b)))" "safe oldest (xthen m (modify (finish_chain cf)))"
  by (intro safe_xthen assms safe_modify, simp, intro safe_xthen assms safe_update xids_ok_chain)

lemma safe_commit_command [safe_intros]:
  assumes "guarded oldest cf"
  shows "safe oldest (CommitTransactionCommand cf)"
proof (rule safe_by_cases)
  fix s show "xids_ok oldest s \<Longrightarrow> xids_ok oldest (snd (CommitTransactionCommand cf s))"
    using assms
  proof (induction cf s rule: CommitTransactionCommand.induct)
    case (1 cf s0)
    define s where "s = (if chain (cur s0) then SaveTransactionCharacteristics s0 else s0)"
    have s: "xids_ok oldest s" using 1 by (simp add: s_def xids_ok_save)
    have last: "safe oldest (\<lambda>s. if blockState (cur s) = TBLOCK_END then xthen (CommitTransaction cf) (modify (set_block TBLOCK_DEFAULT)) s
            else if blockState (cur s) = TBLOCK_PREPARE
            then xthen (PrepareTransaction cf) (modify (set_block TBLOCK_DEFAULT)) s
            else raise ERROR UnexpectedState s)"
      by (intro safe_if safe_to_default safe_end safe_prepare [OF 1(4)] safe_basic)
    have pop: "safe oldest (xthen (AbortSubTransaction cf) (xthen CleanupSubTransaction (restart_savepoint n l)))"
      "safe oldest (xthen CleanupSubTransaction (restart_savepoint n l))" for n l
      by (intro safe_intros)+
    have "xids_ok oldest (upd_cur (\<lambda>t. t\<lparr>spname := None\<rparr>) s)" using s by simp
    note restart = safe_snd [OF pop(1) this] safe_snd [OF pop(2) this]
    have ends: "safe oldest (xthen CleanupTransaction (modify (finish_chain cf)))" "safe oldest (xthen (CommitTransaction cf) (modify (finish_chain cf)))"
        "safe oldest (xthen (CommitTransaction cf) (modify (set_block TBLOCK_DEFAULT)))" "safe oldest (xthen (PrepareTransaction cf) (modify (set_block TBLOCK_DEFAULT)))"
        "safe oldest (xthen (AbortTransaction cf) (xthen CleanupTransaction (modify (finish_chain cf))))"
        "safe oldest (xthen (commit_subs cf TBLOCK_SUBCOMMIT) (\<lambda>s. if blockState (cur s) = TBLOCK_END then xthen (CommitTransaction cf) (modify (set_block TBLOCK_DEFAULT)) s
            else if blockState (cur s) = TBLOCK_PREPARE
            then xthen (PrepareTransaction cf) (modify (set_block TBLOCK_DEFAULT)) s
            else raise ERROR UnexpectedState s))"
      by (intro safe_to_default safe_xthen safe_end safe_prepare [OF 1(4)] safe_commit_subs last)+
    note step = ends [THEN safe_snd, OF s] restart safe_snd [OF safe_counter s] safe_snd [OF safe_commit_subs s]
    have next1: "xids_ok oldest (snd (xthen CleanupSubTransaction (CommitTransactionCommand cf) s))" if "blockState (cur s) = TBLOCK_SUBABORT_END"
      by (rule xids_ok_xthen [OF s safe_cleanup_sub]) (use 1(1) [OF s_def] that 1(4) in blast)
    have next2: "xids_ok oldest (snd (xthen (AbortSubTransaction cf) (xthen CleanupSubTransaction (CommitTransactionCommand cf)) s))"
      if "blockState (cur s) = TBLOCK_SUBABORT_PENDING"
      by (rule xids_ok_xthen [OF s safe_abort_sub], rule xids_ok_xthen [OF _ safe_cleanup_sub]) (use 1(2) [OF s_def] that 1(4) in blast)+
    show ?case unfolding CommitTransactionCommand.simps [of cf s0] s_def [symmetric] Let_def
      by (cases "blockState (cur s)") (simp_all add: step s next1 next2 xids_ok_cong [OF ids_of_frame(1)] xids_ok_cong [OF ids_of_frame(6)])
  qed
qed

lemma safe_abort_parts: "safe oldest (abort_and_clean cf)" "safe oldest (abort_idle cf)" "safe oldest (abort_to_default cf)"
proof -
  show clean: "safe oldest (abort_and_clean cf)" unfolding abort_and_clean_def by (intro safe_intros)
  show "safe oldest (abort_to_default cf)" unfolding abort_to_default_def by (rule safe_to_default(1) [OF clean])
  show "safe oldest (abort_idle cf)"
  proof (rule safe_by_cases)
    fix s assume s: "xids_ok oldest s"
    then have "xids_ok oldest (if trans_state (cur s) = TRANS_START then set_state TRANS_INPROGRESS s else s)"
      by (simp add: xids_ok_cong [OF ids_of_frame(2)])
    from safe_snd [OF clean this] s show "xids_ok oldest (snd (abort_idle cf s))" by (simp add: abort_idle_def)
  qed
qed

lemma safe_abort_current [safe_intros]: "safe oldest (AbortCurrentTransaction cf)"
proof (rule safe_by_cases)
  fix s show "xids_ok oldest s \<Longrightarrow> xids_ok oldest (snd (AbortCurrentTransaction cf s))"
  proof (induction cf s rule: AbortCurrentTransaction.induct)
    case (1 cf s)
    note s = 1(8)
    note step = safe_abort_parts [THEN safe_snd, OF s] safe_to_default(1) [OF safe_end(2), THEN safe_snd, OF s]
      safe_to_default(1) [OF safe_end(3), THEN safe_snd, OF s] safe_to_default(1) [OF safe_abort_sub, THEN safe_snd, OF s]
    have pop: "xids_ok oldest (snd (xthen (AbortSubTransaction cf) (xthen CleanupSubTransaction (AbortCurrentTransaction cf)) s))"
      if "blockState (cur s) \<in> {TBLOCK_SUBBEGIN, TBLOCK_SUBRELEASE, TBLOCK_SUBCOMMIT, TBLOCK_SUBABORT_PENDING, TBLOCK_SUBRESTART}"
      by (rule xids_ok_xthen [OF s safe_abort_sub], rule xids_ok_xthen [OF _ safe_cleanup_sub]) (use 1(1-7) that in blast)+
    have clean: "xids_ok oldest (snd (xthen CleanupSubTransaction (AbortCurrentTransaction cf) s))"
      if "blockState (cur s) \<in> {TBLOCK_SUBABORT_END, TBLOCK_SUBABORT_RESTART}"
      by (rule xids_ok_xthen [OF s safe_cleanup_sub]) (use 1(1-7) that in blast)
    show ?case unfolding AbortCurrentTransaction.simps [of cf s]
      by (cases "blockState (cur s)") (simp_all add: step s pop clean)
  qed
qed

subsection \<open>Statements\<close>

lemma mark_up_view: "map view (fst (mark_up sub tp ch ts)) = map view ts"
  by (induction sub tp ch ts rule: mark_up.induct) (auto simp: view_def split: option.splits prod.splits)

lemma mark_rollback_view: "map view (fst (mark_rollback i ts)) = map view ts"
  by (induction i ts rule: mark_rollback.induct) (auto simp: view_def split: option.splits prod.splits)

lemma ids_of_stack_update: "map view ts = map view (stack s) \<Longrightarrow> ids_of (s\<lparr>stack := ts\<rparr>) = ids_of s"
  by (simp add: ids_of_def)

lemma safe_marks [safe_intros]: "safe oldest (mark_stack sub tp ch)"
proof (rule safe_by_cases)
  fix s assume "xids_ok oldest s"
  moreover have "ids_of (snd (mark_stack sub tp ch s)) = ids_of s"
    using mark_up_view [of sub tp ch "stack s"] by (auto simp: mark_stack_def ids_of_stack_update raise_def split: prod.splits bool.splits)
  ultimately show "xids_ok oldest (snd (mark_stack sub tp ch s))" using xids_ok_cong by metis
qed

lemma safe_blocks [safe_intros]:
  "safe oldest BeginTransactionBlock" "safe oldest (EndTransactionBlock ch)" "safe oldest (UserAbortTransactionBlock ch)"
proof -
  show "safe oldest BeginTransactionBlock"
    by (rule safe_by_cases, subst BeginTransactionBlock.simps) (auto simp: xids_ok_cong [OF ids_of_frame(1)] split: TBlockState.splits)
  show "safe oldest (EndTransactionBlock ch)"
  proof (rule safe_by_cases)
    fix s assume s: "xids_ok oldest s"
    have "safe oldest (xthen (mark_stack a b ch) (ret x))" for a b and x :: bool by (intro safe_intros)
    note safe_snd [OF this s]
    then show "xids_ok oldest (snd (EndTransactionBlock ch s))" using s
      by (subst EndTransactionBlock.simps) (auto simp: xids_ok_cong [OF ids_of_frame(7)] split: TBlockState.splits)
  qed
  show "safe oldest (UserAbortTransactionBlock ch)"
  proof (rule safe_by_cases)
    fix s assume s: "xids_ok oldest s"
    note safe_snd [OF safe_marks s]
    then show "xids_ok oldest (snd (UserAbortTransactionBlock ch s))" using s
      by (subst UserAbortTransactionBlock.simps) (auto simp: xids_ok_cong [OF ids_of_frame(7)] split: TBlockState.splits)
  qed
qed

lemma safe_prepare_block [safe_intros]: "safe oldest (PrepareTransactionBlock gid)"
proof -
  have "safe oldest (\<lambda>s. if result then
       let n = length (stack s) - 1
       in if blockState (stack s ! n) = TBLOCK_END
          then (Inr True, upd_frame n (\<lambda>t. t\<lparr>blockState := TBLOCK_PREPARE\<rparr>) (s\<lparr>prepareGID := Some gid\<rparr>))
          else (Inr False, s)
     else (Inr False, s))" for result
    by (rule safe_ids) (auto simp: Let_def ids_of_upd_frame split: if_splits)
  then show ?thesis unfolding PrepareTransactionBlock_def by (intro safe_xbind safe_blocks)
qed

lemma release_view: "map (view \<circ> blockState_update (\<lambda>_. b)) (take n ts) @ map view (drop n ts) = map view ts"
proof -
  have "view \<circ> blockState_update (\<lambda>_. b) = view" by (simp add: fun_eq_iff view_def)
  then show ?thesis by (simp flip: map_append)
qed

lemma safe_savepoints [safe_intros]: "safe oldest (ReleaseSavepoint n)" "safe oldest (RollbackToSavepoint n)"
proof -
  have target: "safe oldest (savepoint_target n)"
    by (rule safe_ids) (auto simp: savepoint_target_def raise_def split: option.splits if_splits)
  have release: "safe oldest (xbind (savepoint_target n) (\<lambda>i s.
      (Inr (), s\<lparr>stack := map (\<lambda>t. t\<lparr>blockState := TBLOCK_SUBRELEASE\<rparr>) (take (i + 1) (stack s)) @ drop (i + 1) (stack s)\<rparr>)))"
    by (intro safe_xbind target safe_ids) (auto intro!: ids_of_stack_update simp: release_view)
  show "safe oldest (ReleaseSavepoint n)"
    by (rule safe_by_cases) (use safe_snd [OF release] in \<open>auto simp: ReleaseSavepoint_def split: TBlockState.splits\<close>)
  have rollback: "safe oldest (xbind (savepoint_target n) (\<lambda>i s. case mark_rollback i (stack s) of
            (ts, True) \<Rightarrow> (Inr (), s\<lparr>stack := ts\<rparr>)
          | (ts, False) \<Rightarrow> raise FATAL UnexpectedState (s\<lparr>stack := ts\<rparr>)))"
    by (intro safe_xbind target safe_ids)
      (use mark_rollback_view in \<open>auto intro!: ids_of_stack_update simp: raise_def split: prod.splits bool.splits\<close>, (metis fst_conv)+)
  show "safe oldest (RollbackToSavepoint n)"
    by (rule safe_by_cases) (use safe_snd [OF rollback] in \<open>auto simp: RollbackToSavepoint_def\<close>)
qed

lemma safe_checks [safe_intros]:
  "safe oldest (PreventInTransactionBlock b)" "safe oldest (RequireTransactionBlock b)" "safe oldest (PreventCommandDuringRecovery cf)"
  "safe oldest (SetPGVariable cf opt)"
  by (rule safe_ids, auto simp: PreventInTransactionBlock_def RequireTransactionBlock_def CheckTransactionBlock_def PreventCommandDuringRecovery_def
    ret_def raise_def elim!: SetPGVariable.elims split: if_splits)+

lemma safe_internal [safe_intros]:
  assumes "guarded oldest cf"
  shows "safe oldest (BeginInternalSubTransaction cf n)" "safe oldest (ReleaseCurrentSubTransaction cf)"
    "safe oldest (RollbackAndReleaseCurrentSubTransaction cf)"
proof -
  have start: "safe oldest (seq [PushTransaction, modify (upd_cur (\<lambda>t. t\<lparr>spname := n\<rparr>)), CommitTransactionCommand cf, StartTransactionCommand cf])"
    using safe_commit_command [OF assms] by (intro safe_seq) (auto intro!: safe_push safe_modify ids_of_upd_cur safe_start_command)
  show "safe oldest (BeginInternalSubTransaction cf n)"
    by (rule safe_by_cases) (use safe_snd [OF start] in \<open>simp add: BeginInternalSubTransaction_def\<close>)
  show "safe oldest (ReleaseCurrentSubTransaction cf)"
    by (rule safe_by_cases) (use safe_snd [OF safe_commit_sub] in \<open>simp add: ReleaseCurrentSubTransaction_def\<close>)
  show "safe oldest (RollbackAndReleaseCurrentSubTransaction cf)"
    by (rule safe_by_cases) (use safe_snd [OF safe_xthen [OF safe_abort_sub safe_cleanup_sub]] safe_snd [OF safe_cleanup_sub] in
      \<open>simp add: RollbackAndReleaseCurrentSubTransaction_def\<close>)
qed

lemma safe_stmt_block:
  assumes "guarded oldest cf" "safe oldest body" "\<And>h. handler = Some h \<Longrightarrow> safe oldest h"
  shows "safe oldest (exec_stmt_block cf body handler)"
  unfolding exec_stmt_block_def
proof (intro safe_xthen safe_internal(1) [OF assms(1)], rule safe_by_cases)
  fix s assume s: "xids_ok oldest s"
  obtain r s1 where r: "xthen body (ReleaseCurrentSubTransaction cf) s = (r, s1)" by (cases "xthen body (ReleaseCurrentSubTransaction cf) s")
  have s1: "xids_ok oldest s1" using safeD [OF safe_xthen [OF assms(2) safe_internal(2) [OF assms(1)]] s r] .
  have "safe oldest (xthen (RollbackAndReleaseCurrentSubTransaction cf) (case handler of Some h \<Rightarrow> h | None \<Rightarrow> raise ERROR x))" for x
    using assms(3) by (intro safe_xthen safe_internal(3) [OF assms(1)]) (auto intro: safe_basic split: option.splits)
  from safe_snd [OF this s1] s1 show "xids_ok oldest (snd (case xthen body (ReleaseCurrentSubTransaction cf) s of
         (Inr _, s) \<Rightarrow> (Inr (), s)
       | (Inl (Xerror lev r), s) \<Rightarrow>
           if lev = ERROR then
             xthen (RollbackAndReleaseCurrentSubTransaction cf) (case handler of Some h \<Rightarrow> h | None \<Rightarrow> raise ERROR r) s
           else (Inl (Xerror lev r), s)))"
    by (auto simp: r split: sum.splits xact_error.splits)
qed

lemma safe_work [safe_intros]:
  "guarded oldest cf \<Longrightarrow> safe oldest (do_work cf w)"
  "guarded oldest cf \<Longrightarrow> safe oldest (do_works cf ws)"
proof (induction cf w and cf ws rule: do_work_do_works.induct)
  case (2 cf)
  show ?case by (auto intro!: safe_ids simp: GetCurrentCommandId_def ids_of_def)
next
  case (10 cf ws h)
  then show ?case by (auto intro!: safe_stmt_block split: option.splits)
qed (auto intro!: safe_xbind safe_current_xid safe_counter safe_modify safe_checks safe_basic safe_seq safe_xthen)

subsection \<open>Queries\<close>

lemma safe_transaction_stmt [safe_intros]: "safe oldest (ProcessTransactionStmt cf fp b stmt)"
proof -
  have "safe oldest (seq (BeginTransactionBlock # map (SetPGVariable cf) opts))" for opts
    by (intro safe_seq) (auto simp: list.pred_map list_all_iff intro: safe_intros)
  then show ?thesis
    by (auto simp: ProcessTransactionStmt_def intro!: safe_xbind safe_xthen safe_basic safe_blocks safe_prepare_block safe_savepoint safe_savepoints safe_checks
      split: TransactionStmtKind.splits)
qed

lemma safe_stmts [safe_intros]:
  assumes "guarded oldest cf"
  shows "safe oldest (exec_stmts cf fp imp ps st)"
proof -
  note cmd = safe_commit_command [OF assms]
  have start: "safe oldest (start_xact_command cf x)" and finish: "safe oldest (finish_xact_command cf x)" for x
    by (auto simp: start_xact_command_def finish_xact_command_def intro!: safe_xthen safe_start_command cmd safe_basic)
  have portal: "safe oldest (run_portal cf fp p)" for p
    by (cases p) (auto simp: run_portal_def intro: safe_transaction_stmt safe_work [OF assms])
  have after: "safe oldest (after_stmt cf imp p l)" for p l
  proof (rule safe_by_cases)
    fix s assume s: "xids_ok oldest s"
    then have "xids_ok oldest (if imp then EndImplicitTransactionBlock s else s)" by (simp add: xids_ok_cong [OF ids_of_frame(11)])
    from safe_snd [OF finish this] safe_snd [OF finish s] safe_snd [OF safe_xthen [OF safe_counter safe_basic(1)] s]
    show "xids_ok oldest (snd (after_stmt cf imp p l s))" by (auto simp: after_stmt_def split: RawStmt.splits)
  qed
  have one: "safe oldest (exec_stmt cf fp imp l p x)" for l p x
  proof -
    have "safe oldest (\<lambda>s. xthen (run_portal cf fp p) (after_stmt cf imp p l) (if imp then BeginImplicitTransactionBlock s else s))"
      by (rule safe_after [where f = "\<lambda>s. if imp then BeginImplicitTransactionBlock s else s"])
        (auto simp: xids_ok_cong [OF ids_of_frame(10)] intro: safe_xthen portal after)
    then have "safe oldest (xbind (start_xact_command cf x) (\<lambda>_ s. xthen (run_portal cf fp p) (after_stmt cf imp p l) (if imp then BeginImplicitTransactionBlock s else s)))"
      by (rule safe_xbind [OF start])
    then show ?thesis unfolding exec_stmt_def [abs_def] by (intro safe_if safe_basic)
  qed
  show ?thesis by (induction ps arbitrary: st) (auto intro!: safe_basic safe_xbind one)
qed

lemma safe_query:
  assumes "guarded oldest cf"
  shows "safe oldest (exec_simple_query cf fp q)"
  unfolding exec_simple_query_def start_xact_command_def finish_xact_command_def
  by (intro safe_xbind; (cases q)?)
    (auto intro!: safe_xthen safe_start_command safe_commit_command [OF assms] safe_stmts [OF assms] safe_basic safe_xbind)

lemma query_xids_ok:
  assumes "guarded oldest cf" "xids_ok oldest s" "PostgresMain_query cf fp q s = Ready r s'"
  shows "xids_ok oldest s'"
proof -
  obtain r1 s1 where r1: "exec_simple_query cf fp q s = (r1, s1)" by (cases "exec_simple_query cf fp q s")
  have s1: "xids_ok oldest s1" using safeD [OF safe_query [OF assms(1)] assms(2) r1] .
  show ?thesis
    using assms(3) r1 s1 safe_snd [OF safe_abort_current [of oldest cf] s1]
    by (auto simp: PostgresMain_query_def recover_error_def split: sum.splits prod.splits xact_error.splits elevel.splits)
qed

end
