(* ===== verification/Xact_Current.thy ===== *)
theory Xact_Current
  imports Xact_Xids
begin

text \<open>
  Because the ids of the open transactions ascend in every state a session can reach, the binary searches of
  \<^verbatim>\<open>TransactionIdIsCurrentTransactionId\<close> find exactly them, in the backend itself and in its parallel workers.
\<close>

section \<open>Current ids\<close>

text \<open>The ids a backend regards as its own.\<close>

definition current_xids :: "xact \<Rightarrow> TransactionId set" where
  "current_xids s = set (concat (map tree_xids (filter (\<lambda>t. trans_state t \<noteq> TRANS_ABORT) (stack s))))"

lemma ascending_search:
  assumes "ascending oldest xs"
  shows "binsearch (\<lambda>p. p = x) (\<lambda>p. TransactionIdPrecedes p x) xs 0 (int (length xs) - 1) \<longleftrightarrow> x \<in> set xs"
proof -
  have before: "TransactionIdPrecedes (xs ! i) (xs ! j) \<and> \<not> TransactionIdPrecedes (xs ! j) (xs ! i)" if "i < j" "j < length xs" for i j
    using assms that window_precedes [of oldest "xs ! i" "xs ! j"] window_precedes [of oldest "xs ! j" "xs ! i"]
    by (auto simp: ascending_def list_all_length dest: sorted_wrt_nth_less)
  have "search_sorted (\<lambda>p. p = x) (\<lambda>p. TransactionIdPrecedes p x) xs"
    unfolding search_sorted_in_def using before by blast
  then show ?thesis by (simp add: binsearch_whole)
qed

lemma ascending_sublist: "ascending oldest (xs @ ys @ zs) \<Longrightarrow> ascending oldest ys"
  by (auto simp: ascending_def sorted_wrt_append)

lemma current_in_stack_iff:
  assumes "ascending oldest (stack_xids ts)" "assigned ts"
  shows "current_in_stack x ts \<longleftrightarrow> x \<in> set (concat (map tree_xids (filter (\<lambda>t. trans_state t \<noteq> TRANS_ABORT) ts)))"
  using assms
proof (induction ts)
  case (Cons t ts)
  have tl: "ascending oldest (stack_xids ts)" "assigned ts"
    using Cons(2,3) ascending_sublist [of oldest "[]" "stack_xids ts"] assigned_tl by auto
  have "ascending oldest (childXids t)"
    using Cons(2) ascending_sublist [of oldest "stack_xids ts @ _" "childXids t" "[]"] by (simp add: frame_xids.simps)
  then show ?case using Cons(1) [OF tl] by (auto simp: ascending_search tree_xids_def)
qed simp

lemma current_iff:
  assumes "xids_ok oldest s"
  shows "TransactionIdIsCurrentTransactionId s x \<longleftrightarrow> x \<in> current_xids s"
proof -
  have asc: "ascending oldest (stack_xids (stack s))" "assigned (stack s)" "ParallelCurrentXids s = []"
    using assms ascending_sublist [of oldest "[]" "stack_xids (stack s)"] by (auto simp: xids_ok_def)
  have sub: "set (concat (map tree_xids (filter P ts))) \<subseteq> set (stack_xids ts)" for P ts
    by (induction ts) (auto simp: tree_xids_def frame_xids.simps)
  have "TransactionIdIsNormal x" if "x \<in> current_xids s"
    using that sub [of "\<lambda>t. trans_state t \<noteq> TRANS_ABORT" "stack s"] asc(1)
    by (auto simp: current_xids_def ascending_def list_all_iff in_window_def)
  then show ?thesis using current_in_stack_iff [OF asc(1,2)] asc(3) by (auto simp: TransactionIdIsCurrentTransactionId_def current_xids_def)
qed

text \<open>A session among others: between its queries, other backends take ids.\<close>

inductive shared_session :: "config \<Rightarrow> (string \<Rightarrow> bool \<Rightarrow> bool) \<Rightarrow> TransactionId \<Rightarrow> xact \<Rightarrow> bool" for cf fp oldest where
  shared_start: "stack s = [TopTransactionStateData] \<Longrightarrow> ParallelCurrentXids s = [] \<Longrightarrow> limited oldest (shmem (xsys s)) \<Longrightarrow> shared_session cf fp oldest s"
| shared_query: "shared_session cf fp oldest s \<Longrightarrow> PostgresMain_query cf fp q s = Ready r s' \<Longrightarrow> shared_session cf fp oldest s'"
| shared_others: "shared_session cf fp oldest s \<Longrightarrow> limited oldest (shmem y) \<Longrightarrow> uint (next_xid (xsys s) - oldest) \<le> uint (next_xid y - oldest)
    \<Longrightarrow> shared_session cf fp oldest (s\<lparr>xsys := y\<rparr>)"

lemma top_no_ids: "no_ids TopTransactionStateData"
  by (simp add: no_ids_def TopTransactionStateData_def)

lemma xids_ok_session:
  assumes "guarded oldest cf" "shared_session cf fp oldest s"
  shows "xids_ok oldest s"
  using assms(2)
proof induction
  case (shared_start s)
  then show ?case using no_ids_stack [of "[TopTransactionStateData]" "[]"] top_no_ids
    by (auto simp: xids_ok_def no_ids_def ascending_def limited_def)
next
  case (shared_query s q r s')
  then show ?case using query_xids_ok [OF assms(1)] by blast
next
  case (shared_others s y)
  then show ?case by (auto simp: xids_ok_def limited_def intro: ascending_later)
qed

text \<open>C5: the ids of a session's open transactions are well-formed in every state between two queries, whatever statements,
  savepoints, exception blocks and errors came before and whatever ids other backends took meanwhile, also while this one waited
  between its check of the stop limit and its assignment (within the bound proved for them): entries with an id
  have a parent with one, and the ids ascend from the outermost transaction to the innermost, below the next
  id. So the binary searches of \<^verbatim>\<open>TransactionIdIsCurrentTransactionId\<close> are right: it accepts exactly
  the ids of the transaction, of its open and of its committed subtransactions.\<close>

theorem session_xids_well_formed:
  assumes "guarded oldest cf" "shared_session cf fp oldest s"
  shows "assigned (stack s) \<and> ascending oldest (stack_xids (stack s) @ [next_xid (xsys s)])
    \<and> (\<forall>xid. TransactionIdIsCurrentTransactionId s xid \<longleftrightarrow> xid \<in> current_xids s)"
  using xids_ok_session [OF assms] current_iff [of oldest s] by (auto simp: xids_ok_def)

lemma run_queries_session:
  "shared_session config0 (\<lambda>_ _. True) oldest s \<Longrightarrow> run_queries qs s = Some (r, s') \<Longrightarrow> shared_session config0 (\<lambda>_ _. True) oldest s'"
proof (induction qs s rule: run_queries.induct)
  case (2 q qs s)
  then show ?case by (auto split: step_result.splits if_splits dest: shared_query)
qed simp

lemma guarded_config0: "guarded 600 config0"
proof -
  have "limited 600 (shmem (snd (take_xid 1 False y))) \<and> uint (next_xid y - 600) \<le> uint (next_xid (snd (take_xid 1 False y)) - 600)
      \<and> uint (next_xid (snd (take_xid 1 False y)) - 600) \<le> 2146483653 + int MAX_BACKENDS"
    if y: "limited 600 (shmem y)" "xid_gate True y = Inr True" for y
  proof -
    have d: "uint (next_xid y - 600) \<le> 2146483649" and nx: "in_window 600 (next_xid y)"
      using gate_passed [OF y] y(1) by (simp_all add: limited_def)
    have "next_xid (snd (take_xid 1 False y)) = TransactionIdAdvance (next_xid y)" by (simp add: full_advance_low)
    moreover have "uint (TransactionIdAdvance (next_xid y) - 600) \<le> uint (next_xid y - 600) + 4"
      using advance_distance [OF nx] d by simp
    ultimately have "uint (next_xid (snd (take_xid 1 False y)) - 600) \<le> 2146483653 + int MAX_BACKENDS"
      using d by (simp only:)
    then show ?thesis using taken_in_window [OF y(1), of 1 False] d by (simp only:) (simp add: MAX_BACKENDS_def)
  qed
  then show ?thesis by (simp only: guarded_def) (simp add: config0_def)
qed

lemma xact0_session: "shared_session config0 (\<lambda>_ _. True) 600 xact0"
proof (rule shared_start)
  have low: "XidFromFullTransactionId \<lparr>fxid_value = 700\<rparr> = 700" by (simp add: XidFromFullTransactionId_def)
  show "limited 600 (shmem (xsys xact0))" unfolding limited_def
    by (intro conjI exI [of _ 200000000] exI [of _ 1] exI [of _ limits0]) (simp_all add: xact0_def sys0_def in_window_def normal_iff low)
qed (simp_all add: xact0_def)

lemma wrote_twice_session: "shared_session config0 (\<lambda>_ _. True) 600 wrote_twice"
proof -
  let ?qs = "[[tstmt TRANS_STMT_BEGIN [] False], [OtherStmt [W_xid]], [tstmt TRANS_STMT_SAVEPOINT ''a'' False], [OtherStmt [W_xid]]]"
  have "case run_queries ?qs xact0 of Some _ \<Rightarrow> True | None \<Rightarrow> False" by code_simp
  then obtain r where "run_queries ?qs xact0 = Some (r, wrote_twice)" by (auto simp: wrote_twice_def split: option.splits)
  then show ?thesis by (rule run_queries_session [OF xact0_session])
qed

theorem session_xids_well_formed_witness:
  "\<forall>xid. TransactionIdIsCurrentTransactionId wrote_twice xid \<longleftrightarrow> xid \<in> {700, 701}"
proof -
  from session_xids_well_formed [OF guarded_config0 wrote_twice_session]
  have "\<forall>xid. TransactionIdIsCurrentTransactionId wrote_twice xid \<longleftrightarrow> xid \<in> current_xids wrote_twice" by blast
  moreover have "current_xids wrote_twice = {700, 701}"
    using wrote_twice_stack by (auto simp: map_eq_Cons_conv current_xids_def)
  ultimately show ?thesis by simp
qed

section \<open>Parallel workers\<close>

lemma stack_xids_set: "set (concat (map frame_xids ts)) = set (stack_xids ts)"
  by (auto simp: stack_xids_def)

lemma current_all:
  assumes "assigned ts" "list_all (\<lambda>t. trans_state t \<noteq> TRANS_ABORT) ts"
  shows "set (concat (map tree_xids (filter (\<lambda>t. trans_state t \<noteq> TRANS_ABORT) ts))) = set (stack_xids ts)"
  using assms
proof (induction ts)
  case (Cons t ts)
  have "set (tree_xids t) = set (frame_xids t)" using Cons(2) by (cases ts) (auto simp: tree_xids_def frame_xids.simps)
  then show ?case using Cons assigned_tl by auto
qed simp

lemma worker_fields:
  "XactTopFullTransactionId (StartParallelWorkerTransaction cf ts w) = ser_topFullTransactionId ts"
  "currentCommandId (StartParallelWorkerTransaction cf ts w) = ser_currentCommandId ts"
  "XactIsoLevel (StartParallelWorkerTransaction cf ts w) = ser_xactIsoLevel ts"
  "ParallelCurrentXids (StartParallelWorkerTransaction cf ts w) = ser_parallelCurrentXids ts"
  "\<exists>t. stack (StartParallelWorkerTransaction cf ts w) = [t] \<and> fullTransactionId t = ser_currentFullTransactionId ts \<and> childXids t = []"
  by (auto simp: StartParallelWorkerTransaction_def set_block_def upd_cur_def StartTransaction_def Let_def GetNextLocalTransactionId_def set_state_def)

lemma estimate_length:
  "sum_list (map (\<lambda>t. (if FullTransactionIdIsValid (fullTransactionId t) then 1 else 0) + length (childXids t)) ts) = length (concat (map frame_xids ts))"
  by (induction ts) (auto simp: frame_xids.simps)

text \<open>C6: a parallel worker sees the leader's transaction. Started from the state that the leader serializes, in whatever idle
  state it was, the worker takes exactly the leader's ids for current, has the same current and top-level id, the same command
  counter and isolation level; and the space that \<^verbatim>\<open>EstimateTransactionStateSpace\<close> asks for is what the ids and the
  header of size \<open>hdr\<close> need.\<close>

theorem worker_shares_transaction:
  assumes "xids_ok oldest s" "list_all (\<lambda>t. trans_state t \<noteq> TRANS_ABORT) (stack s)"
    and "w = StartParallelWorkerTransaction cf (SerializeTransactionState s) w0"
  shows "(\<forall>xid. TransactionIdIsCurrentTransactionId w xid = TransactionIdIsCurrentTransactionId s xid)
    \<and> GetTopTransactionIdIfAny w = GetTopTransactionIdIfAny s \<and> GetCurrentTransactionIdIfAny w = GetCurrentTransactionIdIfAny s
    \<and> currentCommandId w = currentCommandId s \<and> XactIsoLevel w = XactIsoLevel s
    \<and> EstimateTransactionStateSpace hdr s = hdr + 4 * length (ser_parallelCurrentXids (SerializeTransactionState s))"
proof -
  let ?ids = "sort (concat (map frame_xids (stack s)))"
  have ok: "assigned (stack s)" "ascending oldest (stack_xids (stack s))" "ParallelCurrentXids s = []"
    using assms(1) ascending_sublist [of oldest "[]" "stack_xids (stack s)"] by (auto simp: xids_ok_def)
  have ser: "ser_parallelCurrentXids (SerializeTransactionState s) = ?ids" using ok(3) by (simp add: SerializeTransactionState_def)
  have own: "TransactionIdIsCurrentTransactionId s xid \<longleftrightarrow> xid \<in> set (stack_xids (stack s))" for xid
    using current_iff [OF assms(1), unfolded current_xids_def current_all [OF ok(1) assms(2)]] .
  obtain t where t: "stack w = [t]" "fullTransactionId t = fullTransactionId (cur s)" "childXids t = []"
    using worker_fields(5) [of cf "SerializeTransactionState s" w0] by (auto simp: assms(3) SerializeTransactionState_def)
  have "TransactionIdIsCurrentTransactionId w xid \<longleftrightarrow> xid \<in> set (stack_xids (stack s))" for xid
  proof (cases "?ids = []")
    case False
    have normal: "xid \<in> set (stack_xids (stack s)) \<Longrightarrow> TransactionIdIsNormal xid"
      using ok(2) by (auto simp: ascending_def list_all_iff in_window_def)
    have "binsearch (\<lambda>p. p = xid) (\<lambda>p. p < xid) ?ids 0 (int (length ?ids) - 1) \<longleftrightarrow> xid \<in> set (stack_xids (stack s))"
      using binsearch_whole [OF sorted_search_sorted [of ?ids xid]] stack_xids_set [of "stack s"] by auto
    moreover have "ParallelCurrentXids w = ?ids" using ser by (simp only: assms(3) worker_fields)
    then have "TransactionIdIsCurrentTransactionId w xid \<longleftrightarrow> TransactionIdIsNormal xid \<and> binsearch (\<lambda>p. p = xid) (\<lambda>p. p < xid) ?ids 0 (int (length ?ids) - 1)"
      using False by (simp only: TransactionIdIsCurrentTransactionId_def length_greater_0_conv if_True not_False_eq_True) auto
    ultimately show ?thesis using normal by blast
  next
    case True
    then have none: "stack_xids (stack s) = []" using stack_xids_set [of "stack s"] by (metis set_sort set_empty)
    have par: "ParallelCurrentXids w = []" using ser True by (simp only: assms(3) worker_fields)
    have "\<not> FullTransactionIdIsValid (fullTransactionId (cur s))"
      using none assms(1) by (cases "stack s") (auto simp: xids_ok_def frame_xids.simps split: if_splits)
    then show ?thesis using none par t by (simp add: TransactionIdIsCurrentTransactionId_def)
  qed
  moreover have "EstimateTransactionStateSpace hdr s = hdr + 4 * length ?ids"
    by (simp add: EstimateTransactionStateSpace_def estimate_length Let_def)
  ultimately show ?thesis using own ser t
    by (auto simp: assms(3) worker_fields SerializeTransactionState_def GetTopTransactionIdIfAny_def GetCurrentTransactionIdIfAny_def)
qed

theorem worker_shares_transaction_witness:
  "TransactionIdIsCurrentTransactionId (StartParallelWorkerTransaction config0 (SerializeTransactionState wrote_twice) xact0) 701
    \<and> \<not> TransactionIdIsCurrentTransactionId (StartParallelWorkerTransaction config0 (SerializeTransactionState wrote_twice) xact0) 702
    \<and> EstimateTransactionStateSpace 40 wrote_twice = 48"
proof -
  have ok: "xids_ok 600 wrote_twice"
    by (rule xids_ok_session [OF guarded_config0 wrote_twice_session])
  have running: "list_all (\<lambda>t. trans_state t \<noteq> TRANS_ABORT) (stack wrote_twice)"
    using wrote_twice_stack by (auto simp: map_eq_Cons_conv)
  have "TransactionIdIsCurrentTransactionId wrote_twice 701" "\<not> TransactionIdIsCurrentTransactionId wrote_twice 702"
      "length (ser_parallelCurrentXids (SerializeTransactionState wrote_twice)) = 2"
    by code_simp+
  then show ?thesis using worker_shares_transaction [OF ok running refl, where cf = config0 and ?w0.0 = xact0 and hdr = 40] by simp
qed

text \<open>The estimate does not count the ids that a worker was handed: a worker that serialized its state again would
  write more than the estimate.\<close>

lemma worker_estimate_short:
  assumes "w = StartParallelWorkerTransaction cf ts w0" "length (ser_parallelCurrentXids ts) > 1"
  shows "EstimateTransactionStateSpace hdr w < hdr + 4 * length (ser_parallelCurrentXids (SerializeTransactionState w))"
proof -
  obtain t where t: "stack w = [t]" "childXids t = []" using worker_fields(5) [of cf ts w0] by (auto simp: assms(1))
  then have "EstimateTransactionStateSpace hdr w \<le> hdr + 4" by (simp add: EstimateTransactionStateSpace_def)
  moreover have "ser_parallelCurrentXids (SerializeTransactionState w) = ser_parallelCurrentXids ts"
    using assms by (auto simp: SerializeTransactionState_def worker_fields)
  ultimately show ?thesis using assms(2) by simp
qed

end
