(* ===== verification/Backend_Reads.thy ===== *)
theory Backend_Reads
  imports Visibility_Main Xact_Current
begin

text \<open>
  A backend that reads: the tests a visibility check calls are those of the backend's transaction
  state, the array of running backends and the transaction logs, and the snapshot is the one
  \<^verbatim>\<open>GetSnapshotData\<close> took.
\<close>

section \<open>The environment of a backend\<close>

text \<open>What the visibility tests call, on a primary server. \<open>e\<close> supplies the rest: buffers, multixacts, combo ids.\<close>

definition backend_env :: "xact_env \<Rightarrow> xact \<Rightarrow> xact_env" where
  "backend_env e s =
     e\<lparr>IsCurrent := TransactionIdIsCurrentTransactionId s,
       InProgress := (\<lambda>x. case TransactionIdIsInProgress False (TransactionIdIsCurrentTransactionId s) (backend s) (pg_xact (xsys s))
           (pg_subtrans (xsys s)) (parray (xsys s)) (fetchCache s) x of Some (Inr (b, _)) \<Rightarrow> b | _ \<Rightarrow> False),
       DidCommit := (\<lambda>x. case TransactionIdDidCommit (pg_xact (xsys s)) (pg_subtrans (xsys s)) (TransactionXmin (backend s)) (fetchCache s) x of
           Some (b, _) \<Rightarrow> b | None \<Rightarrow> False),
       Topmost := topmost_of (pg_subtrans (xsys s)) (TransactionXmin (backend s))\<rparr>"

lemma snapshot_array:
  assumes "GetSnapshotData rec age cid snap v s = (snap', v', s')"
  obtains "s' = s" | m where "s' = s\<lparr>allPgXact := (allPgXact s)(MyProc v := (allPgXact s (MyProc v))\<lparr>pgx_xmin := m\<rparr>)\<rparr>"
  using assms by (auto simp: GetSnapshotData_def Let_def split: if_splits)

lemma scan_procs_xmin:
  "scan_procs me (s\<lparr>allPgXact := (allPgXact s)(p := (allPgXact s p)\<lparr>pgx_xmin := m\<rparr>)\<rparr>) x ps xs = scan_procs me s x ps xs"
  by (induction ps arbitrary: xs) (auto simp: Let_def)

lemma in_progress_xmin:
  assumes "GetSnapshotData rec age cid snap v s = (snap', v', s')"
  shows "TransactionIdIsInProgress False is_cur w c st s' cache x = TransactionIdIsInProgress False is_cur w c st s cache x"
  using assms
proof (cases rule: snapshot_array)
  case (2 m)
  then show ?thesis by (simp add: TransactionIdIsInProgress_def scan_procs_xmin split: option.splits)
qed simp


section \<open>What a read sees\<close>

text \<open>A transaction has taken effect for the snapshot: an own one by the command counter, another one by the commit log.\<close>

definition took_effect :: "xact \<Rightarrow> SnapshotData \<Rightarrow> CommandId \<Rightarrow> TransactionId \<Rightarrow> bool" where
  "took_effect s snap cid x =
     (if x \<in> current_xids s then cid < curcid snap
      else \<not> XidInMVCCSnapshot (topmost_of (pg_subtrans (xsys s)) (TransactionXmin (backend s))) x snap
        \<and> TransactionIdIsValid x \<and> did_commit (pg_xact (xsys s)) (pg_subtrans (xsys s)) (TransactionXmin (backend s)) x)"

definition reads_tuple :: "xact_env \<Rightarrow> xact \<Rightarrow> SnapshotData \<Rightarrow> HeapTupleHeaderData \<Rightarrow> bool" where
  "reads_tuple e s snap tup \<longleftrightarrow>
     (HeapTupleHeaderXminFrozen tup \<or> took_effect s snap (GetCmin e tup) (t_xmin tup)) \<and>
     \<not> (case deleter e tup of None \<Rightarrow> False | Some x \<Rightarrow> took_effect s snap (GetCmax e tup) x)"

text \<open>The cache of the log is truthful, or as it was at the start of the backend.\<close>

definition cache_fresh :: "xact \<Rightarrow> bool" where
  "cache_fresh s \<longleftrightarrow> cache_ok (pg_xact (xsys s)) (fetchCache s)
     \<and> (cachedFetchXid (fetchCache s) = InvalidTransactionId \<longrightarrow> cachedFetchXidStatus (fetchCache s) = TRANSACTION_STATUS_IN_PROGRESS)"

lemma invalid_not_committed:
  assumes "cache_fresh s"
  shows "TransactionIdDidCommit c st h (fetchCache s) InvalidTransactionId = Some (False, fetchCache s)"
  using assms by (subst TransactionIdDidCommit.simps)
    (auto simp: TransactionLogFetch_def cache_fresh_def Let_def xid_status_defs special_xids normal_iff split: prod.splits)

lemma env_did_commit:
  assumes "subtrans_ok (pg_subtrans (xsys s))" "TransactionIdIsNormal (TransactionXmin (backend s))" "cache_fresh s"
  shows "DidCommit (backend_env e s) x \<longleftrightarrow> TransactionIdIsValid x \<and> did_commit (pg_xact (xsys s)) (pg_subtrans (xsys s)) (TransactionXmin (backend s)) x"
proof (cases "TransactionIdIsValid x")
  case True
  obtain r where r: "TransactionIdDidCommit (pg_xact (xsys s)) (pg_subtrans (xsys s)) (TransactionXmin (backend s)) (fetchCache s) x = Some r"
    using DidCommit_ends [OF assms(1,2)] by blast
  then show ?thesis using DidCommit_result [OF r] True assms(3) by (cases r) (simp add: backend_env_def cache_fresh_def)
next
  case False
  then have "x = InvalidTransactionId" by (simp add: TransactionIdIsValid_def)
  then show ?thesis using False invalid_not_committed [OF assms(3)] by (simp add: backend_env_def)
qed

lemma env_spec:
  assumes "xids_ok oldest s" "subtrans_ok (pg_subtrans (xsys s))" "TransactionIdIsNormal (TransactionXmin (backend s))" "cache_fresh s"
  shows "mvcc_visible (backend_env e s) snap tup \<longleftrightarrow> reads_tuple e s snap tup"
proof -
  have "effect_in (backend_env e s) snap cid x \<longleftrightarrow> took_effect s snap cid x" for cid x
    using current_iff [OF assms(1)] env_did_commit [OF assms(2-4)]
    by (simp add: effect_in_def took_effect_def) (simp add: backend_env_def)
  moreover have "deleter (backend_env e s) tup = deleter e tup"
    by (simp add: backend_env_def deleter_def HeapTupleGetUpdateXid_def MultiXactIdGetUpdateXid_def)
  moreover have "combo (backend_env e s) = combo e" by (simp add: backend_env_def)
  ultimately show ?thesis by (simp add: mvcc_visible_def reads_tuple_def split: option.splits)
qed


section \<open>Taking the snapshot, then reading\<close>

text \<open>The backend after \<^verbatim>\<open>GetSnapshotData\<close>.\<close>

definition with_snapshot :: "TransactionId \<Rightarrow> CommandId \<Rightarrow> SnapshotData \<Rightarrow> xact \<Rightarrow> SnapshotData \<times> xact" where
  "with_snapshot age cid snap s =
     (let (snap', v', a') = GetSnapshotData False age cid snap (backend s) (parray (xsys s))
      in (snap', s\<lparr>backend := v', xsys := (xsys s)\<lparr>parray := a'\<rparr>\<rparr>))"

lemma with_snapshot_ok:
  assumes take: "with_snapshot age cid snap s = (snap', s')"
    and ok: "procs_ok (TransactionXmin (backend s')) (parray (xsys s))" "TransactionIdIsNormal (TransactionXmin (backend s'))"
    and links: "subtrans_ok (pg_subtrans (xsys s))" "links_running (pg_subtrans (xsys s)) (TransactionXmin (backend s')) (parray (xsys s))"
    and others: "\<forall>p\<in>set (pgprocnos (parray (xsys s))). p \<noteq> MyProc (backend s) \<longrightarrow> \<not> skipped (parray (xsys s)) p"
  shows "snapshot_ok (backend_env e s') snap'"
proof -
  obtain v' a' where data: "GetSnapshotData False age cid snap (backend s) (parray (xsys s)) = (snap', v', a')"
    and s': "s' = s\<lparr>backend := v', xsys := (xsys s)\<lparr>parray := a'\<rparr>\<rparr>"
    using take by (auto simp: with_snapshot_def split: prod.splits)
  have "XidInMVCCSnapshot (topmost_of (pg_subtrans (xsys s)) (TransactionXmin v')) x snap'"
    if cur: "\<not> TransactionIdIsCurrentTransactionId s' x" and prog: "InProgress (backend_env e s') x" for x
  proof -
    obtain cache' where "TransactionIdIsInProgress False (TransactionIdIsCurrentTransactionId s') v' (pg_xact (xsys s)) (pg_subtrans (xsys s))
        a' (fetchCache s) x = Some (Inr (True, cache'))"
      using prog by (auto simp: backend_env_def s' split: option.splits sum.splits)
    then show ?thesis
      using running_seen [OF data _ _ links(1) _ others, where is_current = "TransactionIdIsCurrentTransactionId s'" and x = x] cur ok links(2) in_progress_xmin [OF data] by (simp add: s')
  qed
  then show ?thesis by (auto simp: snapshot_ok_def) (auto simp: backend_env_def s')
qed

text \<open>C10: reading. A backend that takes a snapshot with \<^verbatim>\<open>GetSnapshotData\<close> and tests a tuple against it sees
  the tuple exactly if its inserter took effect and its deleter did not: an id of the backend's own transaction, as
  its stack of subtransactions has it, by the command counter; any other one if the snapshot does not hold it in
  progress and the commit log, followed through the parents in \<^verbatim>\<open>pg_subtrans\<close>, says committed. No
  test of the running transactions can contradict the snapshot, and the hint bits left on the tuple tell the truth.\<close>

theorem snapshot_read_correct:
  assumes "with_snapshot age cid snap s = (snap', s')"
    and "procs_ok (TransactionXmin (backend s')) (parray (xsys s))" "TransactionIdIsNormal (TransactionXmin (backend s'))"
    and "subtrans_ok (pg_subtrans (xsys s))" "links_running (pg_subtrans (xsys s)) (TransactionXmin (backend s')) (parray (xsys s))"
    and "\<forall>p\<in>set (pgprocnos (parray (xsys s))). p \<noteq> MyProc (backend s) \<longrightarrow> \<not> skipped (parray (xsys s)) p"
    and "xids_ok oldest s'" "cache_fresh s'"
    and "hints_ok (backend_env e s') (t_data h)" "own_ok (backend_env e s') (t_data h)" "\<not> heap_moved (t_data h)"
    and "HeapTupleSatisfiesMVCC (backend_env e s') h snap' buf = (r, h', buf')"
  shows "(r \<longleftrightarrow> reads_tuple e s' snap' (t_data h)) \<and> hints_ok (backend_env e s') (t_data h')"
proof -
  have "pg_subtrans (xsys s') = pg_subtrans (xsys s)"
    using assms(1) by (auto simp: with_snapshot_def split: prod.splits)
  then show ?thesis
    using mvcc_correct [OF assms(9,10) with_snapshot_ok [OF assms(1-6)] assms(11,12)] env_spec [OF assms(7) _ assms(3,8)] assms(4) by simp
qed

text \<open>A backend that has not written, beside one that runs 101 with the subtransaction 103.\<close>

definition reader0 :: xact where
  "reader0 = xact0\<lparr>xsys := (xsys xact0)\<lparr>pg_subtrans := st0\<rparr>\<rparr>"

lemma reader0_snapshot:
  obtains s' where "with_snapshot 0 0 snap0 reader0 = (snap1, s')" "backend s' = vars1" "stack s' = stack xact0"
    "shmem (xsys s') = shmem (xsys xact0)" "ParallelCurrentXids s' = []" "fetchCache s' = cache_empty" "pg_xact (xsys s') = clog_empty"
    "pg_subtrans (xsys s') = st0"
proof -
  obtain a' where "GetSnapshotData False 0 0 snap0 vars0 pa0 = (snap1, vars1, a')"
    using pa0_snapshot by (metis prod.collapse)
  then show thesis by (intro that [of "reader0\<lparr>backend := vars1, xsys := (xsys reader0)\<lparr>parray := a'\<rparr>\<rparr>"]) (simp_all add: with_snapshot_def reader0_def xact0_def sys0_def)
qed

theorem snapshot_read_correct_witness:
  "fst (HeapTupleSatisfiesMVCC (backend_env env0 (snd (with_snapshot 0 0 snap0 reader0))) (tup0 FrozenTransactionId 103 0) snap1 buf0)"
proof -
  obtain s' where take: "with_snapshot 0 0 snap0 reader0 = (snap1, s')" and s': "backend s' = vars1" "stack s' = stack xact0"
    "shmem (xsys s') = shmem (xsys xact0)" "ParallelCurrentXids s' = []" "fetchCache s' = cache_empty" "pg_xact (xsys s') = clog_empty"
    "pg_subtrans (xsys s') = st0" by (rule reader0_snapshot)
  have ok: "xids_ok 600 s'" "cache_fresh s'" "current_xids s' = {}"
    using xids_ok_session [OF guarded_config0 xact0_session] s'
    by (simp_all add: config0_def xids_ok_def cache_fresh_def cache_empty_ok current_xids_def xact0_def tree_xids_def TopTransactionStateData_def)
      (simp_all add: cache_empty_def xid_status_defs)
  obtain r h' buf' where run: "HeapTupleSatisfiesMVCC (backend_env env0 s') (tup0 FrozenTransactionId 103 0) snap1 buf0 = (r, h', buf')"
    by (rule prod_cases3)
  have "procs_ok (TransactionXmin (backend s')) (parray (xsys reader0))" "TransactionIdIsNormal (TransactionXmin (backend s'))"
      "subtrans_ok (pg_subtrans (xsys reader0))" "links_running (pg_subtrans (xsys reader0)) (TransactionXmin (backend s')) (parray (xsys reader0))"
      "\<forall>p\<in>set (pgprocnos (parray (xsys reader0))). p \<noteq> MyProc (backend reader0) \<longrightarrow> \<not> skipped (parray (xsys reader0)) p"
      "own_ok (backend_env env0 s') (t_data (tup0 FrozenTransactionId 103 0))"
    using pa0_ok st0_facts(1) current_iff [OF ok(1)] ok(3)
    by (simp_all add: s' reader0_def xact0_def sys0_def vars1_def vars0_def normal_iff skipped_def pa0_def pgx0_def flag_def own_ok_def)
      (simp_all add: backend_env_def)
  from snapshot_read_correct [OF take this(1-5) ok(1,2) tup0_ok(1) this(6) tup0_plain(4) run]
  have "r \<longleftrightarrow> reads_tuple env0 s' snap1 (t_data (tup0 FrozenTransactionId 103 0))" by blast
  moreover have "XidInMVCCSnapshot (topmost_of st0 100) 103 snap1" "\<not> XidInMVCCSnapshot (topmost_of st0 100) FrozenTransactionId snap1"
    by (simp_all add: XidInMVCCSnapshot_def snap1_def snap0_def TransactionIdPrecedes_def TransactionIdFollowsOrEquals_def normal_iff xid_diff_uint special_xids)
  ultimately have r by (simp add: reads_tuple_def took_effect_def ok(3) s' tup0_plain vars1_def) (auto intro!: dc_top simp: log_status_def special_xids valid_iff normal_iff)
  then show ?thesis using run take by simp
qed

end
