(* ===== verification/Pairingheap.thy ===== *)
theory Pairingheap
  imports Prelude "HOL-Library.Multiset"
begin

text \<open>
  Pairing heaps (\<^verbatim>\<open>src/backend/lib/pairingheap.c\<close>). A node with the list of its children, linked through
  \<^verbatim>\<open>first_child\<close> and \<^verbatim>\<open>next_sibling\<close>, is a tree; \<^verbatim>\<open>prev_or_parent\<close>, which leads to the place where a node
  hangs, is implied by the tree. The payload of a node is its identity, and \<open>cmp\<close> is the heap's \<^verbatim>\<open>ph_compare\<close>: the
  root is a node that compares highest.
\<close>

section \<open>Operations\<close>

datatype 'a pnode = PNode (payload: 'a) (subheaps: "'a pnode list")

type_synonym 'a compare = "'a \<Rightarrow> 'a \<Rightarrow> int"

fun pairingheap_merge :: "'a compare \<Rightarrow> 'a pnode option \<Rightarrow> 'a pnode option \<Rightarrow> 'a pnode option" where
  "pairingheap_merge cmp None b = b"
| "pairingheap_merge cmp (Some a) None = Some a"
| "pairingheap_merge cmp (Some a) (Some b) =
     (if cmp (payload a) (payload b) < 0 then Some (PNode (payload b) (a # subheaps b))
      else Some (PNode (payload a) (b # subheaps a)))"

definition pairingheap_add :: "'a compare \<Rightarrow> 'a \<Rightarrow> 'a pnode option \<Rightarrow> 'a pnode option" where
  "pairingheap_add cmp node heap = pairingheap_merge cmp heap (Some (PNode node []))"

definition pairingheap_is_empty :: "'a pnode option \<Rightarrow> bool" where
  "pairingheap_is_empty heap \<longleftrightarrow> heap = None"

definition pairingheap_is_singular :: "'a pnode option \<Rightarrow> bool" where
  "pairingheap_is_singular heap \<longleftrightarrow> (case heap of None \<Rightarrow> False | Some r \<Rightarrow> subheaps r = [])"

definition pairingheap_first :: "'a pnode option \<Rightarrow> 'a option" where
  "pairingheap_first heap = map_option payload heap"

text \<open>The first pass of \<^verbatim>\<open>merge_children\<close> puts the merged pairs in front of the list \<open>pairs\<close>, the second merges that list from
  its head on.\<close>

fun merge_in_pairs :: "'a compare \<Rightarrow> 'a pnode list \<Rightarrow> 'a pnode list \<Rightarrow> 'a pnode list" where
  "merge_in_pairs cmp [] pairs = pairs"
| "merge_in_pairs cmp [cur_node] pairs = cur_node # pairs"
| "merge_in_pairs cmp (cur_node # sibling # rest) pairs =
     merge_in_pairs cmp rest (the (pairingheap_merge cmp (Some cur_node) (Some sibling)) # pairs)"

definition merge_children :: "'a compare \<Rightarrow> 'a pnode list \<Rightarrow> 'a pnode option" where
  "merge_children cmp children =
     (case children of
        [] \<Rightarrow> None
      | [c] \<Rightarrow> Some c
      | _ \<Rightarrow> fold (\<lambda>cur_node newroot. pairingheap_merge cmp newroot (Some cur_node)) (merge_in_pairs cmp children []) None)"

definition pairingheap_remove_first :: "'a compare \<Rightarrow> 'a pnode option \<Rightarrow> 'a option \<times> 'a pnode option" where
  "pairingheap_remove_first cmp heap =
     (case heap of None \<Rightarrow> (None, None) | Some r \<Rightarrow> (Some (payload r), merge_children cmp (subheaps r)))"

text \<open>Below the root a removed node is replaced in the list of its siblings by the heap of its children, if it has any.\<close>

fun remove_below :: "'a compare \<Rightarrow> 'a \<Rightarrow> 'a pnode list \<Rightarrow> 'a pnode list" where
  "remove_below cmp node [] = []"
| "remove_below cmp node (PNode x children # siblings) =
     (if x = node then (case merge_children cmp children of None \<Rightarrow> siblings | Some replacement \<Rightarrow> replacement # siblings)
      else PNode x (remove_below cmp node children) # remove_below cmp node siblings)"

definition pairingheap_remove :: "'a compare \<Rightarrow> 'a \<Rightarrow> 'a pnode option \<Rightarrow> 'a pnode option" where
  "pairingheap_remove cmp node heap =
     (case heap of
        None \<Rightarrow> None
      | Some r \<Rightarrow>
          (if payload r = node then snd (pairingheap_remove_first cmp heap)
           else Some (PNode (payload r) (remove_below cmp node (subheaps r)))))"

section \<open>Contents\<close>

fun tree_nodes :: "'a pnode \<Rightarrow> 'a multiset" where
  "tree_nodes (PNode x cs) = add_mset x (sum_list (map tree_nodes cs))"

abbreviation forest_nodes :: "'a pnode list \<Rightarrow> 'a multiset" where
  "forest_nodes ts \<equiv> sum_list (map tree_nodes ts)"

definition heap_nodes :: "'a pnode option \<Rightarrow> 'a multiset" where
  "heap_nodes heap = (case heap of None \<Rightarrow> {#} | Some r \<Rightarrow> tree_nodes r)"

lemma heap_nodes_simps [simp]: "heap_nodes None = {#}" "heap_nodes (Some r) = tree_nodes r"
  by (simp_all add: heap_nodes_def)

lemma tree_nodes_split: "tree_nodes r = add_mset (payload r) (forest_nodes (subheaps r))"
  by (cases r) simp

lemma merge_nodes [simp]: "heap_nodes (pairingheap_merge cmp a b) = heap_nodes a + heap_nodes b"
  by (cases "(cmp, a, b)" rule: pairingheap_merge.cases) (auto simp: tree_nodes_split)

lemma merge_Some [simp]: "pairingheap_merge cmp a b = None \<longleftrightarrow> a = None \<and> b = None"
  by (cases a; cases b) auto

lemma pairs_nodes: "forest_nodes (merge_in_pairs cmp ts pairs) = forest_nodes ts + forest_nodes pairs"
proof (induction cmp ts pairs rule: merge_in_pairs.induct)
  case (3 cmp cur_node sibling rest pairs)
  obtain m where m: "pairingheap_merge cmp (Some cur_node) (Some sibling) = Some m" by (cases "pairingheap_merge cmp (Some cur_node) (Some sibling)") (auto split: if_splits)
  then have "tree_nodes m = tree_nodes cur_node + tree_nodes sibling" using merge_nodes [of cmp "Some cur_node" "Some sibling"] by simp
  then show ?case using 3 m by simp
qed simp_all

lemma merge_fold_nodes:
  "heap_nodes (fold (\<lambda>cur_node newroot. pairingheap_merge cmp newroot (Some cur_node)) ts h) = forest_nodes ts + heap_nodes h"
  by (induction ts arbitrary: h) (simp_all add: ac_simps)

lemma children_nodes [simp]: "heap_nodes (merge_children cmp ts) = forest_nodes ts"
  by (auto simp: merge_children_def merge_fold_nodes pairs_nodes tree_nodes_split [symmetric] split: list.split)

lemma merge_children_None: "merge_children cmp ts = None \<longleftrightarrow> ts = []"
proof
  assume "merge_children cmp ts = None"
  then have "forest_nodes ts = {#}" using children_nodes [of cmp ts] by simp
  then show "ts = []" by (cases ts) (auto simp: tree_nodes_split)
qed (simp add: merge_children_def)

lemma remove_below_absent: "node \<notin># forest_nodes ts \<Longrightarrow> remove_below cmp node ts = ts"
  by (induction cmp node ts rule: remove_below.induct) auto

lemma replaced_nodes: "forest_nodes (case merge_children cmp cs of None \<Rightarrow> ts | Some r \<Rightarrow> r # ts) = forest_nodes cs + forest_nodes ts"
  by (cases "merge_children cmp cs") (use children_nodes [of cmp cs] in auto)

text \<open>Every node is in the heap once.\<close>

lemma remove_below_nodes:
  "count (forest_nodes ts) node \<le> 1 \<Longrightarrow> forest_nodes (remove_below cmp node ts) = forest_nodes ts - {#node#}"
proof (induction cmp node ts rule: remove_below.induct)
  case (2 cmp node x cs ts)
  show ?case
  proof (cases "x = node")
    case True
    then show ?thesis by (simp add: replaced_nodes)
  next
    case False
    have one: "count (forest_nodes cs) node + count (forest_nodes ts) node \<le> 1" using 2(3) False by simp
    show ?thesis
    proof (cases "node \<in># forest_nodes cs")
      case True
      then have "0 < count (forest_nodes cs) node" by (simp only: count_greater_zero_iff)
      then have "count (forest_nodes ts) node = 0" using one by linarith
      then have "node \<notin># forest_nodes ts" by (simp only: count_eq_zero_iff not_False_eq_True)
      then show ?thesis using 2(1) [OF False] one True False by (simp add: remove_below_absent)
    next
      case out: False
      then have "forest_nodes (remove_below cmp node ts) = forest_nodes ts - {#node#}" using 2(2) [OF False] one by simp
      moreover have "count (forest_nodes cs) node = 0" using out by (simp only: not_in_iff)
      ultimately show ?thesis using out False by (intro multiset_eqI) (auto simp: remove_below_absent)
    qed
  qed
qed simp

lemma add_nodes: "heap_nodes (pairingheap_add cmp x h) = add_mset x (heap_nodes h)"
  by (simp add: pairingheap_add_def)

lemma remove_nodes:
  assumes "count (heap_nodes h) x \<le> 1"
  shows "heap_nodes (pairingheap_remove cmp x h) = heap_nodes h - {#x#}"
proof (cases h)
  case (Some r)
  show ?thesis
  proof (cases "payload r = x")
    case True
    then show ?thesis using Some by (simp add: pairingheap_remove_def pairingheap_remove_first_def tree_nodes_split [of r])
  next
    case False
    then have "count (forest_nodes (subheaps r)) x \<le> 1" using assms Some by (simp add: tree_nodes_split [of r])
    then show ?thesis using Some False remove_below_nodes [of "subheaps r" x cmp]
      by (simp add: pairingheap_remove_def tree_nodes_split [of r])
  qed
qed (simp add: pairingheap_remove_def)

lemma remove_first_nodes:
  "pairingheap_remove_first cmp (Some r) = (x, h) \<Longrightarrow> x = Some (payload r) \<and> heap_nodes (Some r) = add_mset (payload r) (heap_nodes h)"
  by (auto simp: pairingheap_remove_first_def tree_nodes_split)

lemma empty_nodes: "pairingheap_is_empty h \<longleftrightarrow> heap_nodes h = {#}"
  by (cases h) (auto simp: pairingheap_is_empty_def tree_nodes_split)

lemma singular_nodes: "pairingheap_is_singular h \<longleftrightarrow> size (heap_nodes h) = 1"
proof (cases h)
  case (Some r)
  have "forest_nodes ts = {#} \<longleftrightarrow> ts = []" for ts :: "'a pnode list" by (cases ts) (auto simp: tree_nodes_split)
  then show ?thesis using Some by (simp add: pairingheap_is_singular_def tree_nodes_split)
qed (simp add: pairingheap_is_singular_def)

section \<open>Order\<close>

text \<open>Keys do not decrease from a node to its children; all nodes are from a set \<open>D\<close>.\<close>

fun ordered :: "('a \<Rightarrow> 'k::linorder) \<Rightarrow> 'a pnode \<Rightarrow> bool" where
  "ordered key (PNode x cs) \<longleftrightarrow> (\<forall>c\<in>set cs. key x \<le> key (payload c) \<and> ordered key c)"

definition heap_ordered :: "('a \<Rightarrow> 'k::linorder) \<Rightarrow> 'a set \<Rightarrow> 'a pnode option \<Rightarrow> bool" where
  "heap_ordered key D h \<longleftrightarrow> (case h of None \<Rightarrow> True | Some r \<Rightarrow> ordered key r) \<and> set_mset (heap_nodes h) \<subseteq> D"

lemma payload_in: "payload r \<in># tree_nodes r"
  by (cases r) simp

lemma ordered_cong: "(\<And>x. x \<in># tree_nodes r \<Longrightarrow> key x = key' x) \<Longrightarrow> ordered key r = ordered key' r"
proof (induction r)
  case (PNode y cs)
  have "key y = key' y" "\<And>c. c \<in> set cs \<Longrightarrow> key (payload c) = key' (payload c)" using PNode(2) payload_in by fastforce+
  moreover have "\<And>c. c \<in> set cs \<Longrightarrow> ordered key c = ordered key' c" using PNode by auto
  ultimately show ?case by auto
qed

lemma heap_ordered_cong:
  "heap_ordered key D h \<Longrightarrow> (\<And>x. x \<in># heap_nodes h \<Longrightarrow> key x = key' x \<and> x \<in> D') \<Longrightarrow> heap_ordered key' D' h"
  using ordered_cong [of _ key key'] by (cases h) (auto simp: heap_ordered_def)

text \<open>A comparison that ranks the nodes of \<open>D\<close> by a key, the smallest key first.\<close>

locale ranked =
  fixes cmp :: "'a compare" and key :: "'a \<Rightarrow> 'k::linorder" and D :: "'a set"
  assumes ranks: "a \<in> D \<Longrightarrow> b \<in> D \<Longrightarrow> cmp a b < 0 \<longleftrightarrow> key b < key a"
begin

lemma ordered_split: "ordered key r \<longleftrightarrow> (\<forall>c\<in>set (subheaps r). key (payload r) \<le> key (payload c) \<and> ordered key c)"
  by (cases r) simp

lemma ordered_merge:
  assumes "heap_ordered key D a" "heap_ordered key D b"
  shows "heap_ordered key D (pairingheap_merge cmp a b)"
proof (cases "(cmp, a, b)" rule: pairingheap_merge.cases)
  case (3 cmp' x y)
  have D: "payload x \<in> D" "payload y \<in> D" using assms 3 payload_in by (auto simp: heap_ordered_def)
  then show ?thesis using assms 3 ranks [OF D]
    by (auto simp: heap_ordered_def ordered_split [of x] ordered_split [of y] tree_nodes_split [of x] tree_nodes_split [of y])
qed (use assms in auto)

lemma ordered_add: "heap_ordered key D h \<Longrightarrow> x \<in> D \<Longrightarrow> heap_ordered key D (pairingheap_add cmp x h)"
  unfolding pairingheap_add_def by (rule ordered_merge) (auto simp: heap_ordered_def)

lemma ordered_pairs:
  "(\<forall>t\<in>set ts \<union> set pairs. heap_ordered key D (Some t)) \<Longrightarrow> \<forall>t\<in>set (merge_in_pairs cmp ts pairs). heap_ordered key D (Some t)"
proof (induction ts arbitrary: pairs rule: induct_list012)
  case (3 x y ts)
  have m: "heap_ordered key D (pairingheap_merge cmp (Some x) (Some y))" using 3(3) by (intro ordered_merge) auto
  let ?m = "the (pairingheap_merge cmp (Some x) (Some y))"
  have "heap_ordered key D (Some ?m)" using m by (simp split: if_splits)
  then have "\<forall>t\<in>set (merge_in_pairs cmp ts (?m # pairs)). heap_ordered key D (Some t)" using 3(3) by (intro 3(1)) auto
  then show ?case by (simp only: merge_in_pairs.simps)
qed auto

lemma ordered_fold:
  "(\<forall>t\<in>set ts. heap_ordered key D (Some t)) \<Longrightarrow> heap_ordered key D h \<Longrightarrow> heap_ordered key D (fold (\<lambda>c root. pairingheap_merge cmp root (Some c)) ts h)"
  by (induction ts arbitrary: h) (auto intro: ordered_merge)

lemma ordered_children: "(\<forall>t\<in>set ts. heap_ordered key D (Some t)) \<Longrightarrow> heap_ordered key D (merge_children cmp ts)"
proof -
  assume ts: "\<forall>t\<in>set ts. heap_ordered key D (Some t)"
  then have "\<forall>t\<in>set (merge_in_pairs cmp ts []). heap_ordered key D (Some t)" by (intro ordered_pairs) simp
  then have "heap_ordered key D (fold (\<lambda>c root. pairingheap_merge cmp root (Some c)) (merge_in_pairs cmp ts []) None)"
    by (intro ordered_fold) (auto simp: heap_ordered_def)
  then show ?thesis using ts by (auto simp: merge_children_def heap_ordered_def split: list.split)
qed

lemma subheap_ordered: "heap_ordered key D (Some r) \<Longrightarrow> t \<in> set (subheaps r) \<Longrightarrow> heap_ordered key D (Some t) \<and> key (payload r) \<le> key (payload t)"
  by (auto simp: heap_ordered_def ordered_split [of r] tree_nodes_split [of r])

text \<open>The root has the smallest key.\<close>

lemma ordered_least: "ordered key r \<Longrightarrow> x \<in># tree_nodes r \<Longrightarrow> key (payload r) \<le> key x"
proof (induction r arbitrary: x)
  case (PNode y cs)
  show ?case
  proof (cases "x = y")
    case False
    then obtain c where c: "c \<in> set cs" "x \<in># tree_nodes c" using PNode(3) by auto
    then show ?thesis using PNode by (metis ordered.simps order_trans pnode.sel(1))
  qed simp
qed

lemma first_least:
  assumes "heap_ordered key D h" "pairingheap_first h = Some m"
  shows "m \<in># heap_nodes h \<and> (\<forall>x\<in>#heap_nodes h. key m \<le> key x)"
  using assms ordered_least payload_in by (cases h) (auto simp: pairingheap_first_def heap_ordered_def)

lemma ordered_remove_below:
  "(\<forall>t\<in>set ts. heap_ordered key D (Some t) \<and> k \<le> key (payload t)) \<Longrightarrow>
   (\<forall>t\<in>set (remove_below cmp x ts). heap_ordered key D (Some t) \<and> k \<le> key (payload t))"
proof (induction "size_list size ts" arbitrary: ts k rule: less_induct)
  case less
  show ?case
  proof (cases ts)
    case (Cons t ts')
    obtain y cs where t: "t = PNode y cs" by (cases t)
    have sub: "\<forall>c\<in>set cs. heap_ordered key D (Some c) \<and> key y \<le> key (payload c)"
      using less(2) subheap_ordered [of t] by (auto simp: Cons t)
    have rest: "\<forall>c\<in>set (remove_below cmp x ts'). heap_ordered key D (Some c) \<and> k \<le> key (payload c)"
      using less(1) [of ts' k] less(2) by (auto simp: Cons)
    show ?thesis
    proof (cases "y = x")
      case True
      have ts': "\<forall>c\<in>set ts'. heap_ordered key D (Some c) \<and> k \<le> key (payload c)" using less(2) Cons by simp
      show ?thesis
      proof (cases "merge_children cmp cs")
        case None
        then show ?thesis using ts' True by (simp add: Cons t)
      next
        case (Some r)
        have "heap_ordered key D (Some r)" using ordered_children [of cs] sub Some by simp
        moreover obtain c where "c \<in> set cs" "payload r \<in># tree_nodes c"
          using children_nodes [of cmp cs] payload_in [of r] Some by auto
        then have "key y \<le> key (payload r)" using sub ordered_least [of c "payload r"] by (fastforce simp: heap_ordered_def)
        ultimately show ?thesis using less(2) ts' True Some by (auto simp: Cons t)
      qed
    next
      case False
      have "size_list size cs < size_list size ts" by (simp add: Cons t)
      from less(1) [OF this sub] have below: "\<forall>c\<in>set (remove_below cmp x cs). heap_ordered key D (Some c) \<and> key y \<le> key (payload c)" .
      have "y \<in> D" using less(2) by (auto simp: Cons t heap_ordered_def)
      then have "heap_ordered key D (Some (PNode y (remove_below cmp x cs)))" using below by (auto simp: heap_ordered_def)
      then show ?thesis using rest less(2) False by (auto simp: Cons t)
    qed
  qed simp
qed

lemma ordered_remove:
  assumes "heap_ordered key D h"
  shows "heap_ordered key D (pairingheap_remove cmp x h)"
proof (cases h)
  case (Some r)
  have sub: "\<forall>t\<in>set (subheaps r). heap_ordered key D (Some t) \<and> key (payload r) \<le> key (payload t)"
    using assms Some subheap_ordered by blast
  show ?thesis
  proof (cases "payload r = x")
    case True
    then show ?thesis using Some sub ordered_children [of "subheaps r"] by (simp add: pairingheap_remove_def pairingheap_remove_first_def)
  next
    case False
    have "payload r \<in> D" using assms Some payload_in [of r] by (auto simp: heap_ordered_def)
    then show ?thesis using False Some ordered_remove_below [OF sub, of x] by (auto simp: pairingheap_remove_def heap_ordered_def)
  qed
qed (simp add: pairingheap_remove_def heap_ordered_def)

lemma ordered_None: "heap_ordered key D None"
  by (simp add: heap_ordered_def)

end

section \<open>Properties\<close>

text \<open>C38: the pairing heap is a priority queue. With a comparison that ranks the nodes by a key, a heap that is ordered and holds
  every node at most once behaves as the set of its nodes: adding, taking out the first node and removing any node change
  exactly that node and keep the order, and the first node is one with the least key.\<close>

theorem pairingheap_priority_queue:
  assumes ranks: "\<forall>a\<in>D. \<forall>b\<in>D. cmp a b < 0 \<longleftrightarrow> key b < key a"
    and h: "heap_ordered key D h" "\<forall>y. count (heap_nodes h) y \<le> 1" and x: "x \<in> D"
  shows "heap_ordered key D (pairingheap_add cmp x h) \<and> heap_nodes (pairingheap_add cmp x h) = add_mset x (heap_nodes h) \<and>
    heap_ordered key D (pairingheap_remove cmp y h) \<and> heap_nodes (pairingheap_remove cmp y h) = heap_nodes h - {#y#} \<and>
    (case pairingheap_remove_first cmp h of
       (None, h') \<Rightarrow> heap_nodes h = {#} \<and> h' = None \<and> pairingheap_first h = None
     | (Some m, h') \<Rightarrow> pairingheap_first h = Some m \<and> heap_nodes h = add_mset m (heap_nodes h') \<and> heap_ordered key D h' \<and>
         (\<forall>z\<in>#heap_nodes h. key m \<le> key z)) \<and>
    (pairingheap_is_empty h \<longleftrightarrow> heap_nodes h = {#}) \<and> (pairingheap_is_singular h \<longleftrightarrow> size (heap_nodes h) = 1)"
proof -
  have r: "ranked cmp key D" using ranks by (simp add: ranked_def)
  have first: "case pairingheap_remove_first cmp h of
       (None, h') \<Rightarrow> heap_nodes h = {#} \<and> h' = None \<and> pairingheap_first h = None
     | (Some m, h') \<Rightarrow> pairingheap_first h = Some m \<and> heap_nodes h = add_mset m (heap_nodes h') \<and> heap_ordered key D h' \<and>
         (\<forall>z\<in>#heap_nodes h. key m \<le> key z)"
  proof (cases h)
    case (Some t)
    have "heap_ordered key D (merge_children cmp (subheaps t))"
      using ranked.subheap_ordered [OF r] h(1) Some by (intro ranked.ordered_children [OF r]) blast
    moreover have "pairingheap_first h = Some (payload t)" using Some by (simp add: pairingheap_first_def)
    moreover have "\<forall>z\<in>#heap_nodes h. key (payload t) \<le> key z" using ranked.first_least [OF r h(1)] calculation(2) by blast
    ultimately show ?thesis using Some by (simp add: pairingheap_remove_first_def tree_nodes_split [of t])
  qed (simp add: pairingheap_remove_first_def pairingheap_first_def)
  have remove: "heap_ordered key D (pairingheap_remove cmp y h)" "heap_nodes (pairingheap_remove cmp y h) = heap_nodes h - {#y#}"
    using ranked.ordered_remove [OF r h(1)] remove_nodes [of h y cmp] h(2) by simp_all
  have add: "heap_ordered key D (pairingheap_add cmp x h)" "heap_nodes (pairingheap_add cmp x h) = add_mset x (heap_nodes h)"
    using ranked.ordered_add [OF r h(1) x] add_nodes [of cmp x h] by simp_all
  show ?thesis by (intro conjI add remove first empty_nodes singular_nodes)
qed

theorem pairingheap_priority_queue_witness:
  "heap_nodes (pairingheap_add (\<lambda>a b. b - a) 3 (pairingheap_add (\<lambda>a b. b - a) 8 None)) = {#3, 8 :: int#} \<and>
   heap_ordered (\<lambda>k. k) UNIV (pairingheap_add (\<lambda>a b. b - a) (3 :: int) (pairingheap_add (\<lambda>a b. b - a) 8 None))"
proof -
  let ?h = "pairingheap_add (\<lambda>a b. b - a) (8 :: int) None"
  have "heap_ordered (\<lambda>k. k) UNIV ?h" "\<forall>y. count (heap_nodes ?h) y \<le> 1" by (simp_all add: pairingheap_add_def heap_ordered_def)
  then show ?thesis using pairingheap_priority_queue [of UNIV "\<lambda>a b. b - a" "\<lambda>k. k" ?h 3] by (simp add: pairingheap_add_def)
qed

end
