(* ===== verification/Procarray_Horizon.thy ===== *)
theory Procarray_Horizon
  imports Procarray_Props "HOL-Library.Multiset"
begin

text \<open>
  The array of running backends as a sorted set of slots, the cache of subtransaction ids as a
  multiset, and the horizon that \<^verbatim>\<open>GetOldestXmin\<close> computes for vacuum.
\<close>

section \<open>The cache of subtransaction ids\<close>

lemma find_last_Some:
  "List.find P (rev [0..<n]) = Some j \<Longrightarrow> j < n \<and> P j"
  by (induction n) (auto split: if_splits)

lemma find_last_None: "List.find P (rev [0..<n]) = None \<Longrightarrow> j < n \<Longrightarrow> \<not> P j"
  by (simp add: find_None_iff)

lemma cache_remove_mset: "mset (cache_remove x xs) = mset xs - {#x#}"
proof (cases "List.find (\<lambda>j. xs ! j = x) (rev [0..<length xs])")
  case None
  then have "x \<notin> set xs"
    using find_last_None [OF None] by (auto simp: in_set_conv_nth)
  then show ?thesis using None by (simp add: cache_remove_def)
next
  case (Some j)
  then have j: "j < length xs" "xs ! j = x"
    using find_last_Some by fastforce+
  have nonempty: "xs \<noteq> []" using j by auto
  have "mset (xs[j := last xs]) = mset xs - {#x#} + {#last xs#}"
    using j by (simp add: mset_update)
  moreover have "last (xs[j := last xs]) = last xs"
    using nonempty j by (cases "j = length xs - 1") (auto simp: last_conv_nth nth_list_update)
  moreover have "mset ys = mset (butlast ys) + {#last ys#}" if "ys \<noteq> []" for ys :: "TransactionId list"
    using that by (metis append_butlast_last_id mset_append mset_single_iff union_commute mset.simps)
  ultimately show ?thesis
    using Some nonempty by (simp add: cache_remove_def)
qed

lemma cache_remove_fold: "mset (fold cache_remove ys xs) = mset xs - mset ys"
  by (induction ys arbitrary: xs) (simp_all add: cache_remove_mset)

section \<open>Membership of the array\<close>

lemma split_sorted:
  "sorted (xs :: nat list) \<Longrightarrow> n \<notin> set xs \<Longrightarrow> distinct xs \<Longrightarrow>
   sorted (takeWhile (\<lambda>m. \<not> m > n) xs @ n # dropWhile (\<lambda>m. \<not> m > n) xs) \<and>
   set (takeWhile (\<lambda>m. \<not> m > n) xs @ n # dropWhile (\<lambda>m. \<not> m > n) xs) = insert n (set xs) \<and>
   distinct (takeWhile (\<lambda>m. \<not> m > n) xs @ n # dropWhile (\<lambda>m. \<not> m > n) xs)"
  by (induction xs) (auto simp: not_less dest: set_takeWhileD set_dropWhileD)

lemma dropWhile_remove1:
  "(case dropWhile (\<lambda>m. m \<noteq> n) xs of [] \<Rightarrow> xs | _ # rest \<Rightarrow> takeWhile (\<lambda>m. m \<noteq> n) xs @ rest) = remove1 n xs"
proof (induction xs)
  case (Cons a xs)
  then show ?case
    by (cases "dropWhile (\<lambda>m. m \<noteq> n) xs") (simp_all del: dropWhile_eq_Nil_conv)
qed simp

section \<open>The horizon\<close>

text \<open>The ids of a backend that count for a horizon.\<close>

definition matters :: "backend_vars \<Rightarrow> procarray \<Rightarrow> uint8 \<Rightarrow> bool \<Rightarrow> nat \<Rightarrow> bool" where
  "matters v s flags allDbs p \<longleftrightarrow>
     \<not> flag (vacuumFlags (allPgXact s p)) (flags AND PROCARRAY_PROC_FLAGS_MASK) \<and>
     (allDbs \<or> databaseId (allProcs s p) = MyDatabaseId v \<or> databaseId (allProcs s p) = 0)"

definition horizon_ids :: "procarray \<Rightarrow> nat \<Rightarrow> TransactionId set" where
  "horizon_ids s p = {y \<in> {pgx_xid (allPgXact s p), pgx_xmin (allPgXact s p)}. TransactionIdIsNormal y}"

lemma lower_bound:
  assumes "in_window base r" "TransactionIdIsNormal y \<longrightarrow> in_window base y"
  defines "r' \<equiv> if TransactionIdIsNormal y \<and> TransactionIdPrecedes y r then y else r"
  shows "in_window base r' \<and> uint (r' - base) \<le> uint (r - base) \<and>
    (TransactionIdIsNormal y \<longrightarrow> uint (r' - base) \<le> uint (y - base)) \<and> (r' = r \<or> r' = y \<and> TransactionIdIsNormal y)"
proof (cases "TransactionIdIsNormal y")
  case True
  then show ?thesis using assms(1,2) window_precedes [of base y r] by (simp add: r'_def)
qed (simp add: r'_def assms(1))

lemma oldest_step_bound:
  fixes v flags allDbs
  assumes ids: "\<forall>y\<in>horizon_ids s p. in_window base y" and r: "in_window base r"
  defines "r' \<equiv> oldest_step v s flags allDbs p r"
  shows "in_window base r'" "uint (r' - base) \<le> uint (r - base)"
    "matters v s flags allDbs p \<longrightarrow> (\<forall>y\<in>horizon_ids s p. uint (r' - base) \<le> uint (y - base))"
proof -
  let ?x = "pgx_xid (allPgXact s p)" and ?m = "pgx_xmin (allPgXact s p)"
  define r1 where "r1 = (if TransactionIdIsNormal ?x \<and> TransactionIdPrecedes ?x r then ?x else r)"
  define r2 where "r2 = (if TransactionIdIsNormal ?m \<and> TransactionIdPrecedes ?m r1 then ?m else r1)"
  have r': "r' = (if matters v s flags allDbs p then r2 else r)"
    unfolding r'_def oldest_step_def matters_def Let_def r1_def r2_def by presburger
  have one: "in_window base r1" "uint (r1 - base) \<le> uint (r - base)"
      "TransactionIdIsNormal ?x \<longrightarrow> uint (r1 - base) \<le> uint (?x - base)"
    using lower_bound [OF r, of ?x, folded r1_def] ids by (simp_all add: horizon_ids_def)
  have two: "in_window base r2" "uint (r2 - base) \<le> uint (r1 - base)"
      "TransactionIdIsNormal ?m \<longrightarrow> uint (r2 - base) \<le> uint (?m - base)"
    using lower_bound [OF one(1), of ?m, folded r2_def] ids by (simp_all add: horizon_ids_def)
  show "in_window base r'" using two(1) r by (simp add: r')
  show "uint (r' - base) \<le> uint (r - base)" using one(2) two(2) by (simp add: r')
  show "matters v s flags allDbs p \<longrightarrow> (\<forall>y\<in>horizon_ids s p. uint (r' - base) \<le> uint (y - base))"
    using one(3) two(2,3) by (auto simp: r' horizon_ids_def)
qed

lemma oldest_fold_bound:
  assumes "\<forall>p\<in>set ps. \<forall>y\<in>horizon_ids s p. in_window base y" "in_window base r"
  shows "in_window base (fold (oldest_step v s flags allDbs) ps r) \<and>
    uint (fold (oldest_step v s flags allDbs) ps r - base) \<le> uint (r - base) \<and>
    (\<forall>p\<in>set ps. matters v s flags allDbs p \<longrightarrow>
      (\<forall>y\<in>horizon_ids s p. uint (fold (oldest_step v s flags allDbs) ps r - base) \<le> uint (y - base)))"
  using assms
proof (induction ps arbitrary: r)
  case (Cons p ps)
  let ?r = "oldest_step v s flags allDbs p r"
  have ids: "\<forall>y\<in>horizon_ids s p. in_window base y" using Cons.prems by simp
  note one = oldest_step_bound [OF ids Cons.prems(2), of v flags allDbs]
  have "in_window base (fold (oldest_step v s flags allDbs) ps ?r) \<and>
    uint (fold (oldest_step v s flags allDbs) ps ?r - base) \<le> uint (?r - base) \<and>
    (\<forall>p\<in>set ps. matters v s flags allDbs p \<longrightarrow>
      (\<forall>y\<in>horizon_ids s p. uint (fold (oldest_step v s flags allDbs) ps ?r - base) \<le> uint (y - base)))"
    using Cons.IH [OF _ one(1)] Cons.prems(1) by simp
  with one(2,3) show ?case
    by (simp only: fold_simps list.simps(15) ball_simps(7) comp_apply) (meson order_trans)
qed simp

text \<open>Backing off by \<^verbatim>\<open>vacuum_defer_cleanup_age\<close> stays in the window if there is room for it.\<close>

lemma defer_xmin_bound:
  assumes "in_window base r" "uint age \<le> uint (r - base)"
  shows "in_window base (defer_xmin r age) \<and> uint (defer_xmin r age - base) \<le> uint (r - base)"
proof (cases "TransactionIdIsNormal (r - age)")
  case True
  have "uint (r - age - base) = uint ((r - base) - age)"
    by (simp add: algebra_simps)
  also have "\<dots> = uint (r - base) - uint age"
    using assms(2) by (simp only: uint_sub_if' if_True)
  finally have "uint (r - age - base) \<le> uint (r - base)" by simp
  then show ?thesis
    using True assms(1) uint_lt2p [of age] by (auto simp: defer_xmin_def in_window_def intro: le_less_trans)
next
  case False
  define g where "g = 3 - (r - age)"
  have low: "unat (r - age) < 3"
    using False by (simp add: normal_iff word_le_nat_alt)
  have gu: "unat g = 3 - unat (r - age)"
    unfolding g_def using low by (simp add: unat_sub word_le_nat_alt)
  have room: "unat age \<le> unat (r - base)"
    using assms(2) by (metis word_le_def word_le_nat_alt)
  have rle: "3 \<le> unat r"
    using assms(1) by (simp add: in_window_def normal_iff word_le_nat_alt)
  have gle: "g \<le> age"
  proof -
    have "unat r = (unat (r - age) + unat age) mod 2 ^ LENGTH(32)"
      using unat_word_ariths(1) [of "r - age" age] by (simp only: diff_add_cancel)
    then have "unat r \<le> unat (r - age) + unat age"
      by (metis mod_less_eq_dividend)
    then show ?thesis using gu rle by (simp add: word_le_nat_alt)
  qed
  have "3 - base = (r - base) - (age - g)"
    by (simp add: g_def)
  moreover have "age - g \<le> r - base"
    using room gle by (simp add: word_le_nat_alt unat_sub)
  ultimately have "3 - base \<le> r - base"
    using word_sub_le by (simp only:)
  then have "uint (3 - base) \<le> uint (r - base)"
    by (simp only: word_le_def)
  then show ?thesis
    using False assms(1) by (simp add: defer_xmin_def in_window_def special_xids normal_iff)
qed

lemma oldest_fold_member:
  "\<exists>y \<in> insert r (\<Union>p\<in>set ps. horizon_ids s p). fold (oldest_step v s flags allDbs) ps r = y"
proof (induction ps arbitrary: r)
  case (Cons p ps)
  have "oldest_step v s flags allDbs p r \<in> insert r (horizon_ids s p)"
    unfolding oldest_step_def horizon_ids_def Let_def by (simp split: if_split)
  then show ?case using Cons [of "oldest_step v s flags allDbs p r"] by auto
qed simp

text \<open>Everything the horizon is computed from lies in a window with room for the deferral.\<close>

definition horizon_window :: "TransactionId \<Rightarrow> TransactionId \<Rightarrow> procarray \<Rightarrow> bool" where
  "horizon_window base age s \<longleftrightarrow>
     (\<forall>y \<in> insert (TransactionIdAdvance (latestCompletedXid s)) (\<Union>p\<in>set (pgprocnos s). horizon_ids s p).
        in_window base y \<and> uint age \<le> uint (y - base)) \<and>
     (\<forall>y \<in> {replication_slot_xmin s, replication_slot_catalog_xmin s}. TransactionIdIsValid y \<longrightarrow> in_window base y)"

lemma slot_lower:
  assumes "in_window base r" "TransactionIdIsValid y \<longrightarrow> in_window base y"
    "r' = (if c \<and> TransactionIdIsValid y \<and> NormalTransactionIdPrecedes y r then y else r)"
  shows "in_window base r' \<and> uint (r' - base) \<le> uint (r - base) \<and>
    (c \<and> TransactionIdIsValid y \<longrightarrow> uint (r' - base) \<le> uint (y - base))"
proof (cases "c \<and> TransactionIdIsValid y")
  case True
  then show ?thesis using assms normal_precedes_window [of base y r] by (simp only: assms(3)) auto
next
  case False
  then show ?thesis using assms(1) by (auto simp: assms(3))
qed

lemma oldest_xmin_bound:
  fixes rel flags v
  assumes win: "horizon_window base age s"
  defines "allDbs \<equiv> (case rel of None \<Rightarrow> True | Some (relisshared, _) \<Rightarrow> relisshared)"
  defines "r \<equiv> GetOldestXmin False age rel flags v s"
  shows "in_window base r \<and>
    (\<forall>p\<in>set (pgprocnos s). matters v s flags allDbs p \<longrightarrow> (\<forall>y\<in>horizon_ids s p. uint (r - base) \<le> uint (y - base))) \<and>
    (\<not> flag flags PROCARRAY_SLOTS_XMIN \<and> TransactionIdIsValid (replication_slot_xmin s) \<longrightarrow>
       uint (r - base) \<le> uint (replication_slot_xmin s - base))"
proof -
  define xmax where "xmax = TransactionIdAdvance (latestCompletedXid s)"
  define r0 where "r0 = fold (oldest_step v s flags allDbs) (pgprocnos s) xmax"
  define r1 where "r1 = defer_xmin r0 age"
  define r2 where "r2 = (if \<not> flag flags PROCARRAY_SLOTS_XMIN \<and> TransactionIdIsValid (replication_slot_xmin s) \<and>
      NormalTransactionIdPrecedes (replication_slot_xmin s) r1 then replication_slot_xmin s else r1)"
  define c where "c \<longleftrightarrow> \<not> flag flags PROCARRAY_SLOTS_XMIN \<and> (case rel of None \<Rightarrow> True | Some (_, decoding) \<Rightarrow> decoding)"
  have r: "r = (if c \<and> TransactionIdIsValid (replication_slot_catalog_xmin s) \<and>
      NormalTransactionIdPrecedes (replication_slot_catalog_xmin s) r2 then replication_slot_catalog_xmin s else r2)"
    unfolding r_def GetOldestXmin_def Let_def r2_def r1_def r0_def c_def allDbs_def xmax_def by (simp split: if_split)
  have ids: "\<forall>p\<in>set (pgprocnos s). \<forall>y\<in>horizon_ids s p. in_window base y" "in_window base xmax"
    using win by (auto simp: horizon_window_def xmax_def)
  note b0 = oldest_fold_bound [OF ids, of v flags allDbs, folded r0_def]
  have "uint age \<le> uint (r0 - base)"
    using oldest_fold_member [where r = xmax and ps = "pgprocnos s" and s = s and v = v and flags = flags and allDbs = allDbs, folded r0_def] win
    by (auto simp: horizon_window_def xmax_def)
  note b1 = defer_xmin_bound [OF conjunct1 [OF b0] this, folded r1_def]
  have b2: "in_window base r2 \<and> uint (r2 - base) \<le> uint (r1 - base) \<and>
      (\<not> flag flags PROCARRAY_SLOTS_XMIN \<and> TransactionIdIsValid (replication_slot_xmin s) \<longrightarrow>
       uint (r2 - base) \<le> uint (replication_slot_xmin s - base))"
    by (rule slot_lower [OF conjunct1 [OF b1]]) (use win in \<open>simp_all add: horizon_window_def r2_def\<close>)
  have b3: "in_window base r \<and> uint (r - base) \<le> uint (r2 - base) \<and>
      (c \<and> TransactionIdIsValid (replication_slot_catalog_xmin s) \<longrightarrow>
       uint (r - base) \<le> uint (replication_slot_catalog_xmin s - base))"
    by (rule slot_lower [OF conjunct1 [OF b2]]) (use win in \<open>simp_all add: horizon_window_def r\<close>)
  have "uint (r - base) \<le> uint (r0 - base)"
    using b1 b2 b3 by linarith
  then show ?thesis using b0 b2 b3 by (meson order_trans)
qed

text \<open>What taking a snapshot changes in shared memory.\<close>

lemma get_snapshot_state:
  assumes "GetSnapshotData False age cid snap v s = (snap', v', s')"
  shows "s' = (if TransactionIdIsValid (pgx_xmin (allPgXact s (MyProc v))) then s
    else s\<lparr>allPgXact := (allPgXact s)(MyProc v := (allPgXact s (MyProc v))\<lparr>pgx_xmin := snap_xmin snap'\<rparr>)\<rparr>)"
  using assms by (auto simp: GetSnapshotData_def Let_def)

section \<open>Properties\<close>

text \<open>the array of backends is a sorted set of slots with room for \<open>maxProcs\<close>. Joining fails exactly when
  the array is full; otherwise it adds the slot and nothing else, and leaving again restores the array, whatever
  id the leaving backend reports as completed.\<close>

theorem procarray_membership:
  assumes "sorted (pgprocnos s)" "distinct (pgprocnos s)" "n \<notin> set (pgprocnos s)"
  shows "case ProcArrayAdd n s of
      Inl TooManyClients \<Rightarrow> maxProcs s \<le> length (pgprocnos s)
    | Inr s' \<Rightarrow> length (pgprocnos s) < maxProcs s \<and> length (pgprocnos s') \<le> maxProcs s' \<and>
        sorted (pgprocnos s') \<and> distinct (pgprocnos s') \<and> set (pgprocnos s') = insert n (set (pgprocnos s)) \<and>
        s'\<lparr>pgprocnos := pgprocnos s\<rparr> = s \<and>
        pgprocnos (ProcArrayRemove n latestXid s') = pgprocnos s"
proof -
  let ?ps = "takeWhile (\<lambda>m. \<not> m > n) (pgprocnos s) @ n # dropWhile (\<lambda>m. \<not> m > n) (pgprocnos s)"
  have len: "length ?ps = Suc (length (pgprocnos s))"
    using length_append [of "takeWhile (\<lambda>m. \<not> m > n) (pgprocnos s)" "dropWhile (\<lambda>m. \<not> m > n) (pgprocnos s)"]
    by (simp del: length_append) (simp add: length_append)
  have "n \<notin> set (takeWhile (\<lambda>m. \<not> m > n) (pgprocnos s))"
    using assms(3) set_takeWhileD by fast
  then have gone: "remove1 n ?ps = pgprocnos s"
    by (simp add: remove1_append)
  have rem: "pgprocnos (ProcArrayRemove m l t) = remove1 m (pgprocnos t)" for m l t
  proof -
    let ?t = "if TransactionIdIsValid l then advance_latest l t else t"
    have same: "pgprocnos ?t = pgprocnos t" by simp
    then have "pgprocnos (ProcArrayRemove m l t) = (case dropWhile (\<lambda>x. x \<noteq> m) (pgprocnos ?t) of
        [] \<Rightarrow> pgprocnos ?t | _ # rest \<Rightarrow> takeWhile (\<lambda>x. x \<noteq> m) (pgprocnos ?t) @ rest)"
      by (cases "dropWhile (\<lambda>x. x \<noteq> m) (pgprocnos ?t)") (simp_all only: ProcArrayRemove_def Let_def list.case, simp)
    also have "\<dots> = remove1 m (pgprocnos ?t)" by (rule dropWhile_remove1)
    finally show ?thesis using same by simp
  qed
  show ?thesis
  proof (cases "length (pgprocnos s) \<ge> maxProcs s")
    case False
    then have "ProcArrayAdd n s = Inr (s\<lparr>pgprocnos := ?ps\<rparr>)" by (simp add: ProcArrayAdd_def)
    then show ?thesis
      using split_sorted [OF assms(1,3,2)] len gone False by (simp only: sum.case rem) simp
  qed (simp add: ProcArrayAdd_def)
qed

theorem procarray_membership_witness:
  "case ProcArrayAdd 2 pa0 of Inl TooManyClients \<Rightarrow> False
   | Inr s' \<Rightarrow> set (pgprocnos s') = {0, 1, 2} \<and> pgprocnos (ProcArrayRemove 2 7 s') = [0, 1]"
proof -
  have "pgprocnos pa0 = [0, 1]" "maxProcs pa0 = 4" by (simp_all add: pa0_def)
  then show ?thesis using procarray_membership [of pa0 2 7]
    by (auto split: sum.splits proc_error.splits)
qed

text \<open>Removing the ids of an aborted subtransaction takes each of them once out of the backend's cache, as
  far as they are there, in whatever order the array holds them; no other backend's entry changes, and the last
  completed id moves to the later of the old one and the given one.\<close>

theorem xid_cache_remove:
  assumes "in_window base latestXid" "in_window base (latestCompletedXid s)"
    and "s' = XidCacheRemoveRunningXids me xid xids latestXid s"
  shows "mset (subxids (allProcs s' me)) = mset (subxids (allProcs s me)) - mset xids - {#xid#} \<and>
    (\<forall>p. p \<noteq> me \<longrightarrow> allProcs s' p = allProcs s p) \<and> allPgXact s' = allPgXact s \<and>
    uint (latestCompletedXid s' - base) = max (uint (latestXid - base)) (uint (latestCompletedXid s - base))"
proof -
  let ?t = "s\<lparr>allProcs := (allProcs s)(me := (allProcs s me)\<lparr>subxids := cache_remove xid (fold cache_remove (rev xids) (subxids (allProcs s me)))\<rparr>)\<rparr>"
  have s': "s' = advance_latest latestXid ?t"
    by (simp add: assms(3) XidCacheRemoveRunningXids_def Let_def)
  show ?thesis
    using advance_latest_window [of base latestXid ?t] assms(1,2)
    by (simp add: s' cache_remove_mset cache_remove_fold)
qed

theorem xid_cache_remove_witness:
  "mset (subxids (allProcs (XidCacheRemoveRunningXids 1 103 [] 103 pa0) 1)) = {#}"
  using xid_cache_remove [of 100 103 pa0 _ 1 103 "[]", OF _ _ refl]
  by (simp add: pa0_def proc0_def in_window_def normal_iff)

text \<open>C39: the vacuum horizon outside recovery is not newer than anything it must protect: the id and the
  advertised \<open>xmin\<close> of every backend that the flags and the database do not exclude, and the replication slots'
  \<open>xmin\<close>, also when \<^verbatim>\<open>vacuum_defer_cleanup_age\<close> pushes it back across the special ids.\<close>

theorem oldest_xmin_horizon:
  assumes "horizon_window base age s"
    and "r = GetOldestXmin False age rel flags v s"
  shows "TransactionIdIsNormal r \<and>
    (\<forall>p\<in>set (pgprocnos s). matters v s flags (case rel of None \<Rightarrow> True | Some (relisshared, _) \<Rightarrow> relisshared) p \<longrightarrow>
       (\<forall>y\<in>horizon_ids s p. \<not> TransactionIdPrecedes y r)) \<and>
    (\<not> flag flags PROCARRAY_SLOTS_XMIN \<and> TransactionIdIsValid (replication_slot_xmin s) \<longrightarrow>
       \<not> TransactionIdPrecedes (replication_slot_xmin s) r)"
proof -
  have prec: "\<not> TransactionIdPrecedes y r \<longleftrightarrow> uint (r - base) \<le> uint (y - base)" if "in_window base y" "in_window base r" for y
    using window_precedes that by auto
  show ?thesis
    using oldest_xmin_bound [OF assms(1), of rel flags v] assms prec by (auto simp: horizon_window_def in_window_def)
qed

text \<open>Backends in the transactions 5 and 6, shortly after the ids wrapped around: a deferral by four ids would give a special id, one by ten
  gives an id before the wrap-around.\<close>

definition pa_low :: procarray where
  "pa_low = pa0\<lparr>allPgXact := (\<lambda>_. pgx0\<lparr>pgx_xid := 5\<rparr>)(1 := pgx0\<lparr>pgx_xid := 6\<rparr>), latestCompletedXid := 8\<rparr>"

lemma pa_low_horizon: "uint age \<le> 10 \<Longrightarrow> horizon_window 4294967200 age pa_low"
  by (auto simp: horizon_window_def pa_low_def pa0_def pgx0_def horizon_ids_def in_window_def normal_iff valid_iff TransactionIdAdvance_def special_xids)

theorem oldest_xmin_horizon_witness:
  "GetOldestXmin False 4 None 0 vars0 pa_low = 3 \<and> GetOldestXmin False 10 None 0 vars0 pa_low = 4294967291 \<and>
   \<not> TransactionIdPrecedes 5 (GetOldestXmin False 4 None 0 vars0 pa_low) \<and> \<not> TransactionIdPrecedes 6 (GetOldestXmin False 10 None 0 vars0 pa_low)"
proof -
  have "GetOldestXmin False 4 None 0 vars0 pa_low = 3" "GetOldestXmin False 10 None 0 vars0 pa_low = 4294967291" by code_simp+
  moreover have "\<not> TransactionIdPrecedes 5 (GetOldestXmin False 4 None 0 vars0 pa_low)"
    using oldest_xmin_horizon [OF pa_low_horizon refl, of 4 None 0 vars0]
    by (simp add: pa_low_def pa0_def matters_def horizon_ids_def flag_def pgx0_def normal_iff)
  moreover have "\<not> TransactionIdPrecedes 6 (GetOldestXmin False 10 None 0 vars0 pa_low)"
    using oldest_xmin_horizon [OF pa_low_horizon refl, of 10 None 0 vars0]
    by (simp add: pa_low_def pa0_def matters_def horizon_ids_def flag_def pgx0_def normal_iff)
  ultimately show ?thesis by blast
qed

text \<open>A registered snapshot holds the horizon back. Once a backend without an advertised \<open>xmin\<close> has taken
  a snapshot, no other backend computes a horizon newer than the snapshot's \<open>xmin\<close>, unless its flags or its choice
  of database exclude that backend; with the theorem on dead tuples, vacuum removes nothing the snapshot sees.\<close>

theorem horizon_respects_snapshot:
  assumes snap: "GetSnapshotData False age cid snap v s = (snap', v', s')"
    and fresh: "\<not> TransactionIdIsValid (pgx_xmin (allPgXact s (MyProc v)))" "MyProc v \<in> set (pgprocnos s)"
    and ok: "procs_ok base s" and win: "horizon_window base age' s'"
    and m: "matters w s' flags (case rel of None \<Rightarrow> True | Some (relisshared, _) \<Rightarrow> relisshared) (MyProc v)"
  shows "\<not> TransactionIdPrecedes (snap_xmin snap') (GetOldestXmin False age' rel flags w s')"
proof -
  have xmin: "in_window base (snap_xmin snap')"
    using get_snapshot [OF snap ok] by blast
  have "pgprocnos s' = pgprocnos s" "pgx_xmin (allPgXact s' (MyProc v)) = snap_xmin snap'"
    using get_snapshot_state [OF snap] fresh(1) by simp_all
  then have "snap_xmin snap' \<in> horizon_ids s' (MyProc v)" "MyProc v \<in> set (pgprocnos s')"
    using xmin fresh(2) by (auto simp: horizon_ids_def in_window_def)
  with oldest_xmin_bound [OF win, of rel flags w] m
  have "in_window base (GetOldestXmin False age' rel flags w s')"
    "uint (GetOldestXmin False age' rel flags w s' - base) \<le> uint (snap_xmin snap' - base)"
    by blast+
  then show ?thesis using window_precedes [OF xmin] by simp
qed

theorem horizon_respects_snapshot_witness:
  "\<exists>s'. GetSnapshotData False 0 0 snap0 vars0 pa0 = (snap1, vars1, s') \<and>
     \<not> TransactionIdPrecedes 100 (GetOldestXmin False 0 None 0 vars0 s')"
proof -
  obtain s' where snap: "GetSnapshotData False 0 0 snap0 vars0 pa0 = (snap1, vars1, s')"
    using pa0_snapshot by (metis prod.collapse)
  have s': "s' = pa0\<lparr>allPgXact := (allPgXact pa0)(0 := pgx0\<lparr>pgx_xmin := 100\<rparr>)\<rparr>"
    using get_snapshot_state [OF snap] by (simp add: vars0_def pa0_def pgx0_def snap1_def valid_iff)
  have "horizon_window 100 0 s'"
    by (auto simp: s' horizon_window_def pa0_def pgx0_def proc0_def horizon_ids_def in_window_def normal_iff valid_iff
        TransactionIdAdvance_def special_xids)
  then have "\<not> TransactionIdPrecedes (snap_xmin snap1) (GetOldestXmin False 0 None 0 vars0 s')"
    by (intro horizon_respects_snapshot [OF snap _ _ pa0_ok(1)])
      (simp_all add: vars0_def pa0_def pgx0_def valid_iff matters_def flag_def s')
  then show ?thesis using snap by (auto simp: snap1_def)
qed

end
