(* ===== verification/Snapmgr.thy ===== *)
theory Snapmgr
  imports Pairingheap Procarray_Horizon
begin

text \<open>
  The snapshot manager of a backend (\<^verbatim>\<open>src/backend/utils/time/snapmgr.c\<close>): which snapshots are in use, as active ones on a
  stack or as registered ones in a pairing heap, and the \<open>xmin\<close> the backend advertises for them. Snapshots are shared by
  reference, so they are kept in a store of addresses; a copied snapshot that was freed is no longer in
  the store. Resource owners are represented by the references they remember. Exported snapshots, which are files, historic snapshots
  of logical decoding and the snapshot-too-old feature are left out. In serializable transactions \<^verbatim>\<open>predicate.c\<close> wraps
  \<^verbatim>\<open>GetSnapshotData\<close> in its own processing, which is not modelled.
\<close>

section \<open>State\<close>

datatype snap_addr = CurrentSnapshotData | SecondarySnapshotData | CatalogSnapshotData | Allocated nat

record snap_obj =
  obj_data :: SnapshotData
  active_count :: nat
  regd_count :: nat
  copied :: bool

record snapmgr =
  snap_mem :: "snap_addr \<Rightarrow> snap_obj option"
  next_alloc :: nat
  CurrentSnapshot :: "snap_addr option"
  SecondarySnapshot :: "snap_addr option"
  CatalogSnapshot :: "snap_addr option"
  ActiveSnapshot :: "(snap_addr \<times> nat) list"
  RegisteredSnapshots :: "snap_addr pnode option"
  firstSnapshotSet :: bool
  FirstXactSnapshot :: "snap_addr option"
  ownedSnapshots :: "snap_addr list"
  sm_backend :: backend_vars
  sm_array :: procarray

text \<open>What the snapshot manager asks of its surroundings: recovery and \<^verbatim>\<open>vacuum_defer_cleanup_age\<close> for \<^verbatim>\<open>GetSnapshotData\<close>, and
  the command id, isolation level, parallel mode and nesting level of the current transaction.\<close>

record snap_ctx =
  ctx_recovery :: bool
  ctx_age :: TransactionId
  ctx_cid :: CommandId
  ctx_iso :: nat
  ctx_parallel :: bool
  ctx_level :: nat

text \<open>\<open>BadSnapshot\<close> is the use of a null or freed pointer.\<close>

datatype snap_error = SnapshotInParallel | SnapshotNotOwned | XminNotInstalled | BadSnapshot

type_synonym 'a sm = "snapmgr \<Rightarrow> (snap_error + 'a) \<times> snapmgr"

definition sm_bind :: "'a sm \<Rightarrow> ('a \<Rightarrow> 'b sm) \<Rightarrow> 'b sm" where
  "sm_bind m f s = (case m s of (Inl e, s') \<Rightarrow> (Inl e, s') | (Inr a, s') \<Rightarrow> f a s')"

definition sm_ret :: "'a \<Rightarrow> 'a sm" where "sm_ret a s = (Inr a, s)"
definition sm_fail :: "snap_error \<Rightarrow> 'a sm" where "sm_fail e s = (Inl e, s)"

definition upd_obj :: "snap_addr \<Rightarrow> (snap_obj \<Rightarrow> snap_obj) \<Rightarrow> snapmgr \<Rightarrow> snapmgr" where
  "upd_obj p f s = s\<lparr>snap_mem := (snap_mem s)(p := map_option f (snap_mem s p))\<rparr>"

definition my_xmin :: "snapmgr \<Rightarrow> TransactionId" where
  "my_xmin s = pgx_xmin (allPgXact (sm_array s) (MyProc (sm_backend s)))"

definition set_my_xmin :: "TransactionId \<Rightarrow> snapmgr \<Rightarrow> snapmgr" where
  "set_my_xmin x s =
     (let pa = sm_array s; me = MyProc (sm_backend s)
      in s\<lparr>sm_array := pa\<lparr>allPgXact := (allPgXact pa)(me := (allPgXact pa me)\<lparr>pgx_xmin := x\<rparr>)\<rparr>\<rparr>)"

definition IsolationUsesXactSnapshot :: "snap_ctx \<Rightarrow> bool" where
  "IsolationUsesXactSnapshot c \<longleftrightarrow> ctx_iso c \<ge> 2"

section \<open>The heap of registered snapshots\<close>

definition mem_xmin :: "(snap_addr \<Rightarrow> snap_obj option) \<Rightarrow> snap_addr \<Rightarrow> TransactionId" where
  "mem_xmin m p = (case m p of Some ob \<Rightarrow> snap_xmin (obj_data ob) | None \<Rightarrow> InvalidTransactionId)"

definition xmin_cmp :: "(snap_addr \<Rightarrow> snap_obj option) \<Rightarrow> snap_addr \<Rightarrow> snap_addr \<Rightarrow> int" where
  "xmin_cmp m a b =
     (if TransactionIdPrecedes (mem_xmin m a) (mem_xmin m b) then 1
      else if TransactionIdFollows (mem_xmin m a) (mem_xmin m b) then -1
      else 0)"

definition heap_add :: "snap_addr \<Rightarrow> snapmgr \<Rightarrow> snapmgr" where
  "heap_add p s = s\<lparr>RegisteredSnapshots := pairingheap_add (xmin_cmp (snap_mem s)) p (RegisteredSnapshots s)\<rparr>"

definition heap_remove :: "snap_addr \<Rightarrow> snapmgr \<Rightarrow> snapmgr" where
  "heap_remove p s = s\<lparr>RegisteredSnapshots := pairingheap_remove (xmin_cmp (snap_mem s)) p (RegisteredSnapshots s)\<rparr>"

text \<open>Advance the advertised \<open>xmin\<close> as far as the snapshots in use allow.\<close>

definition SnapshotResetXmin :: "snapmgr \<Rightarrow> snapmgr" where
  "SnapshotResetXmin s =
     (if ActiveSnapshot s \<noteq> [] then s
      else case pairingheap_first (RegisteredSnapshots s) of
        None \<Rightarrow> set_my_xmin InvalidTransactionId s
      | Some minSnapshot \<Rightarrow>
          (if TransactionIdPrecedes (my_xmin s) (mem_xmin (snap_mem s) minSnapshot)
           then set_my_xmin (mem_xmin (snap_mem s) minSnapshot) s else s))"

section \<open>Taking snapshots\<close>

text \<open>\<^verbatim>\<open>GetSnapshotData\<close> on one of the static snapshots.\<close>

definition take_snapshot :: "snap_ctx \<Rightarrow> snap_addr \<Rightarrow> snap_addr sm" where
  "take_snapshot c p s =
     (case snap_mem s p of
        None \<Rightarrow> (Inl BadSnapshot, s)
      | Some ob \<Rightarrow>
          (case GetSnapshotData (ctx_recovery c) (ctx_age c) (ctx_cid c) (obj_data ob) (sm_backend s) (sm_array s) of
             (snap, v, pa) \<Rightarrow>
               (Inr p, s\<lparr>snap_mem := (snap_mem s)(p \<mapsto> \<lparr>obj_data = snap, active_count = 0, regd_count = 0, copied = False\<rparr>),
                         sm_backend := v, sm_array := pa\<rparr>)))"

definition copy_data :: "SnapshotData \<Rightarrow> SnapshotData" where
  "copy_data snap = snap\<lparr>subxip := (if length (subxip snap) > 0 \<and> (\<not> suboverflowed snap \<or> takenDuringRecovery snap) then subxip snap else [])\<rparr>"

definition CopySnapshot :: "snap_addr \<Rightarrow> snap_addr sm" where
  "CopySnapshot p s =
     (case snap_mem s p of
        None \<Rightarrow> (Inl BadSnapshot, s)
      | Some ob \<Rightarrow>
          (let q = Allocated (next_alloc s)
           in (Inr q, s\<lparr>snap_mem := (snap_mem s)(q \<mapsto> \<lparr>obj_data = copy_data (obj_data ob), active_count = 0, regd_count = 0, copied = True\<rparr>),
                        next_alloc := next_alloc s + 1\<rparr>)))"

definition FreeSnapshot :: "snap_addr \<Rightarrow> snapmgr \<Rightarrow> snapmgr" where
  "FreeSnapshot p s = s\<lparr>snap_mem := (snap_mem s)(p := None)\<rparr>"

definition InvalidateCatalogSnapshot :: "snapmgr \<Rightarrow> snapmgr" where
  "InvalidateCatalogSnapshot s =
     (case CatalogSnapshot s of
        None \<Rightarrow> s
      | Some p \<Rightarrow> SnapshotResetXmin ((heap_remove p s)\<lparr>CatalogSnapshot := None\<rparr>))"

definition InvalidateCatalogSnapshotConditionally :: "snapmgr \<Rightarrow> snapmgr" where
  "InvalidateCatalogSnapshotConditionally s =
     (if CatalogSnapshot s \<noteq> None \<and> ActiveSnapshot s = [] \<and> pairingheap_is_singular (RegisteredSnapshots s)
      then InvalidateCatalogSnapshot s else s)"

text \<open>The copy that lives until the end of a transaction in transaction-snapshot mode.\<close>

definition save_xact_snapshot :: "snap_addr \<Rightarrow> snap_addr sm" where
  "save_xact_snapshot p = sm_bind (CopySnapshot p) (\<lambda>q s.
     (Inr q, heap_add q (upd_obj q (\<lambda>ob. ob\<lparr>regd_count := regd_count ob + 1\<rparr>)
        (s\<lparr>CurrentSnapshot := Some q, FirstXactSnapshot := Some q\<rparr>))))"

definition GetTransactionSnapshot :: "snap_ctx \<Rightarrow> snap_addr sm" where
  "GetTransactionSnapshot c s =
     (if \<not> firstSnapshotSet s then
        let s = InvalidateCatalogSnapshot s
        in if ctx_parallel c then (Inl SnapshotInParallel, s)
           else sm_bind (take_snapshot c CurrentSnapshotData) (\<lambda>p s.
             sm_bind (if IsolationUsesXactSnapshot c then save_xact_snapshot p
                      else (\<lambda>s. (Inr p, s\<lparr>CurrentSnapshot := Some p\<rparr>)))
               (\<lambda>q s. (Inr q, s\<lparr>firstSnapshotSet := True\<rparr>)) s) s
      else if IsolationUsesXactSnapshot c then
        (case CurrentSnapshot s of Some p \<Rightarrow> (Inr p, s) | None \<Rightarrow> (Inl BadSnapshot, s))
      else
        sm_bind (take_snapshot c CurrentSnapshotData) (\<lambda>p s. (Inr p, s\<lparr>CurrentSnapshot := Some p\<rparr>)) (InvalidateCatalogSnapshot s))"

definition GetLatestSnapshot :: "snap_ctx \<Rightarrow> snap_addr sm" where
  "GetLatestSnapshot c s =
     (if ctx_parallel c then (Inl SnapshotInParallel, s)
      else if \<not> firstSnapshotSet s then GetTransactionSnapshot c s
      else sm_bind (take_snapshot c SecondarySnapshotData) (\<lambda>p s. (Inr p, s\<lparr>SecondarySnapshot := Some p\<rparr>)) s)"

text \<open>\<open>refresh\<close> tells that no invalidation messages are sent for the relation.\<close>

definition GetNonHistoricCatalogSnapshot :: "snap_ctx \<Rightarrow> bool \<Rightarrow> snap_addr sm" where
  "GetNonHistoricCatalogSnapshot c refresh s =
     (let s = (if CatalogSnapshot s \<noteq> None \<and> refresh then InvalidateCatalogSnapshot s else s)
      in case CatalogSnapshot s of
           Some p \<Rightarrow> (Inr p, s)
         | None \<Rightarrow> sm_bind (take_snapshot c CatalogSnapshotData)
             (\<lambda>p s. (Inr p, heap_add p (s\<lparr>CatalogSnapshot := Some p\<rparr>))) s)"

definition set_curcid :: "CommandId \<Rightarrow> snap_addr option \<Rightarrow> snapmgr \<Rightarrow> snapmgr" where
  "set_curcid cid p s =
     (case p of None \<Rightarrow> s | Some p \<Rightarrow> upd_obj p (\<lambda>ob. ob\<lparr>obj_data := (obj_data ob)\<lparr>curcid := cid\<rparr>\<rparr>) s)"

definition SnapshotSetCommandId :: "CommandId \<Rightarrow> snapmgr \<Rightarrow> snapmgr" where
  "SnapshotSetCommandId cid s =
     (if \<not> firstSnapshotSet s then s
      else set_curcid cid (SecondarySnapshot s) (set_curcid cid (CurrentSnapshot s) s))"

section \<open>Active snapshots\<close>

definition PushActiveSnapshot :: "snap_ctx \<Rightarrow> snap_addr \<Rightarrow> unit sm" where
  "PushActiveSnapshot c p = sm_bind
     (\<lambda>s. case snap_mem s p of
        None \<Rightarrow> (Inl BadSnapshot, s)
      | Some ob \<Rightarrow>
          (if CurrentSnapshot s = Some p \<or> SecondarySnapshot s = Some p \<or> \<not> copied ob then CopySnapshot p s else (Inr p, s)))
     (\<lambda>q s. (Inr (), upd_obj q (\<lambda>ob. ob\<lparr>active_count := active_count ob + 1\<rparr>)
        (s\<lparr>ActiveSnapshot := (q, ctx_level c) # ActiveSnapshot s\<rparr>)))"

definition PushCopiedSnapshot :: "snap_ctx \<Rightarrow> snap_addr \<Rightarrow> unit sm" where
  "PushCopiedSnapshot c p = sm_bind (CopySnapshot p) (PushActiveSnapshot c)"

definition UpdateActiveSnapshotCommandId :: "snap_ctx \<Rightarrow> unit sm" where
  "UpdateActiveSnapshotCommandId c s =
     (case ActiveSnapshot s of
        [] \<Rightarrow> (Inl BadSnapshot, s)
      | (p, _) # _ \<Rightarrow>
          (case snap_mem s p of
             None \<Rightarrow> (Inl BadSnapshot, s)
           | Some ob \<Rightarrow>
               (if ctx_parallel c \<and> curcid (obj_data ob) \<noteq> ctx_cid c then (Inl SnapshotInParallel, s)
                else (Inr (), set_curcid (ctx_cid c) (Some p) s))))"

text \<open>A reference to an active snapshot is dropped; the last one frees it.\<close>

definition drop_active :: "snap_addr \<Rightarrow> unit sm" where
  "drop_active p s =
     (case snap_mem s p of
        None \<Rightarrow> (Inl BadSnapshot, s)
      | Some ob \<Rightarrow>
          (let s = upd_obj p (\<lambda>ob. ob\<lparr>active_count := active_count ob - 1\<rparr>) s
           in (Inr (), if active_count ob - 1 = 0 \<and> regd_count ob = 0 then FreeSnapshot p s else s)))"

definition PopActiveSnapshot :: "unit sm" where
  "PopActiveSnapshot s =
     (case ActiveSnapshot s of
        [] \<Rightarrow> (Inl BadSnapshot, s)
      | (p, _) # newstack \<Rightarrow>
          sm_bind (drop_active p) (\<lambda>_ s. (Inr (), SnapshotResetXmin (s\<lparr>ActiveSnapshot := newstack\<rparr>))) s)"

definition GetActiveSnapshot :: "snapmgr \<Rightarrow> snap_addr option" where
  "GetActiveSnapshot s = (case ActiveSnapshot s of [] \<Rightarrow> None | (p, _) # _ \<Rightarrow> Some p)"

definition ActiveSnapshotSet :: "snapmgr \<Rightarrow> bool" where
  "ActiveSnapshotSet s \<longleftrightarrow> ActiveSnapshot s \<noteq> []"

section \<open>Registered snapshots\<close>

definition RegisterSnapshotOnOwner :: "snap_addr option \<Rightarrow> snap_addr option sm" where
  "RegisterSnapshotOnOwner snapshot s =
     (case snapshot of
        None \<Rightarrow> (Inr None, s)
      | Some p \<Rightarrow>
          (case snap_mem s p of
             None \<Rightarrow> (Inl BadSnapshot, s)
           | Some ob \<Rightarrow>
               sm_bind (if copied ob then sm_ret p else CopySnapshot p) (\<lambda>q s.
                 let s = (upd_obj q (\<lambda>ob. ob\<lparr>regd_count := regd_count ob + 1\<rparr>) s)\<lparr>ownedSnapshots := q # ownedSnapshots s\<rparr>
                 in (Inr (Some q), if map_option regd_count (snap_mem s q) = Some 1 then heap_add q s else s)) s))"

definition UnregisterSnapshotFromOwner :: "snap_addr option \<Rightarrow> unit sm" where
  "UnregisterSnapshotFromOwner snapshot s =
     (case snapshot of
        None \<Rightarrow> (Inr (), s)
      | Some p \<Rightarrow>
          (case snap_mem s p of
             None \<Rightarrow> (Inl BadSnapshot, s)
           | Some ob \<Rightarrow>
               (if p \<notin> set (ownedSnapshots s) then (Inl SnapshotNotOwned, s)
                else
                  let s = upd_obj p (\<lambda>ob. ob\<lparr>regd_count := regd_count ob - 1\<rparr>) (s\<lparr>ownedSnapshots := remove1 p (ownedSnapshots s)\<rparr>);
                      s = (if regd_count ob - 1 = 0 then heap_remove p s else s)
                  in (Inr (), if regd_count ob - 1 = 0 \<and> active_count ob = 0 then SnapshotResetXmin (FreeSnapshot p s) else s))))"

section \<open>Ends of subtransactions and transactions\<close>

fun relabel :: "nat \<Rightarrow> (snap_addr \<times> nat) list \<Rightarrow> (snap_addr \<times> nat) list" where
  "relabel level [] = []"
| "relabel level ((p, l) # as) = (if l < level then (p, l) # as else (p, level - 1) # relabel level as)"

definition AtSubCommit_Snapshot :: "nat \<Rightarrow> snapmgr \<Rightarrow> snapmgr" where
  "AtSubCommit_Snapshot level s = s\<lparr>ActiveSnapshot := relabel level (ActiveSnapshot s)\<rparr>"

function forget_active :: "nat \<Rightarrow> unit sm" where
  "forget_active level s =
     (case ActiveSnapshot s of
        [] \<Rightarrow> (Inr (), s)
      | (p, l) # rest \<Rightarrow>
          (if l \<ge> level then
             (case drop_active p s of
                (Inl e, s') \<Rightarrow> (Inl e, s')
              | (Inr _, s') \<Rightarrow> forget_active level (s'\<lparr>ActiveSnapshot := rest\<rparr>))
           else (Inr (), s)))"
  by pat_completeness auto
termination
  by (relation "measure (\<lambda>(level, s). length (ActiveSnapshot s))") auto

declare forget_active.simps [simp del]

definition AtSubAbort_Snapshot :: "nat \<Rightarrow> unit sm" where
  "AtSubAbort_Snapshot level = sm_bind (forget_active level) (\<lambda>_ s. (Inr (), SnapshotResetXmin s))"

text \<open>The memory of copied snapshots goes away with \<^verbatim>\<open>TopTransactionContext\<close>.\<close>

definition AtEOXact_Snapshot :: "bool \<Rightarrow> snapmgr \<Rightarrow> snapmgr" where
  "AtEOXact_Snapshot resetXmin s =
     (let s = (case FirstXactSnapshot s of None \<Rightarrow> s | Some p \<Rightarrow> heap_remove p s);
          s = InvalidateCatalogSnapshot (s\<lparr>FirstXactSnapshot := None\<rparr>);
          s = s\<lparr>ActiveSnapshot := [], RegisteredSnapshots := None, CurrentSnapshot := None, SecondarySnapshot := None,
                firstSnapshotSet := False, ownedSnapshots := [],
                snap_mem := (\<lambda>p. case p of Allocated _ \<Rightarrow> None | _ \<Rightarrow> snap_mem s p)\<rparr>
      in if resetXmin then SnapshotResetXmin s else s)"

section \<open>Handing snapshots to parallel workers\<close>

definition SerializeSnapshot :: "SnapshotData \<Rightarrow> SnapshotData" where
  "SerializeSnapshot snap =
     snap\<lparr>subxip := (if suboverflowed snap \<and> \<not> takenDuringRecovery snap then [] else subxip snap), speculativeToken := 0\<rparr>"

definition RestoreSnapshot :: "SnapshotData \<Rightarrow> snap_addr sm" where
  "RestoreSnapshot ser s =
     (let q = Allocated (next_alloc s)
      in (Inr q, s\<lparr>snap_mem := (snap_mem s)(q \<mapsto> \<lparr>obj_data = ser\<lparr>snapshot_type := SNAPSHOT_MVCC\<rparr>, active_count = 0, regd_count = 0, copied = True\<rparr>),
                   next_alloc := next_alloc s + 1\<rparr>))"

definition ProcArrayInstallRestoredXmin :: "TransactionId \<Rightarrow> nat \<Rightarrow> snapmgr \<Rightarrow> bool \<times> snapmgr" where
  "ProcArrayInstallRestoredXmin xmin proc s =
     (let xid = pgx_xmin (allPgXact (sm_array s) proc)
      in if databaseId (allProcs (sm_array s) proc) = MyDatabaseId (sm_backend s) \<and> TransactionIdIsNormal xid \<and> TransactionIdPrecedesOrEquals xid xmin
         then (True, (set_my_xmin xmin s)\<lparr>sm_backend := (sm_backend s)\<lparr>TransactionXmin := xmin\<rparr>\<rparr>)
         else (False, s))"

text \<open>\<^verbatim>\<open>RestoreTransactionSnapshot\<close>: the transaction snapshot of a worker is the leader's, whose slot is \<open>proc\<close>.\<close>

definition RestoreTransactionSnapshot :: "snap_ctx \<Rightarrow> snap_addr \<Rightarrow> nat \<Rightarrow> unit sm" where
  "RestoreTransactionSnapshot c sourcesnap proc s =
     sm_bind (take_snapshot c CurrentSnapshotData) (\<lambda>p s.
       case (snap_mem s sourcesnap, snap_mem s p) of
         (Some src, Some ob) \<Rightarrow>
           (let s = (upd_obj p (\<lambda>ob. ob\<lparr>obj_data := (obj_data src)\<lparr>snapshot_type := snapshot_type (obj_data ob),
                       curcid := curcid (obj_data ob), speculativeToken := speculativeToken (obj_data ob)\<rparr>\<rparr>) s)\<lparr>CurrentSnapshot := Some p\<rparr>
            in case ProcArrayInstallRestoredXmin (mem_xmin (snap_mem s) p) proc s of
                 (False, s) \<Rightarrow> (Inl XminNotInstalled, s)
               | (True, s) \<Rightarrow>
                   sm_bind (if IsolationUsesXactSnapshot c then save_xact_snapshot p else sm_ret p)
                     (\<lambda>_ s. (Inr (), s\<lparr>firstSnapshotSet := True\<rparr>)) s)
       | _ \<Rightarrow> (Inl BadSnapshot, s)) (InvalidateCatalogSnapshot s)"

definition GetFullRecentGlobalXmin :: "FullTransactionId \<Rightarrow> TransactionId \<Rightarrow> FullTransactionId" where
  "GetFullRecentGlobalXmin nextxid_full recentGlobalXmin =
     (let nextxid_epoch = EpochFromFullTransactionId nextxid_full; nextxid_xid = XidFromFullTransactionId nextxid_full;
          epoch = (if recentGlobalXmin > nextxid_xid then nextxid_epoch - 1 else nextxid_epoch)
      in FullTransactionIdFromEpochAndXid epoch recentGlobalXmin)"

end
