(* ===== verification/Snapmgr_Props.thy ===== *)
theory Snapmgr_Props
  imports Snapmgr
begin

text \<open>
  The invariant of the snapshot manager. References and counts agree, nothing in use has been freed, and the
  \<open>xmin\<close> the backend advertises is not newer than that of any snapshot in use.
\<close>

section \<open>The order of the heap\<close>

abbreviation xkey :: "TransactionId \<Rightarrow> (snap_addr \<Rightarrow> snap_obj option) \<Rightarrow> snap_addr \<Rightarrow> int" where
  "xkey base m p \<equiv> uint (mem_xmin m p - base)"

definition xdom :: "TransactionId \<Rightarrow> (snap_addr \<Rightarrow> snap_obj option) \<Rightarrow> snap_addr set" where
  "xdom base m = {p. in_window base (mem_xmin m p)}"

lemma window_follows:
  assumes "in_window base a" "in_window base b"
  shows "TransactionIdFollows a b \<longleftrightarrow> uint (b - base) < uint (a - base)"
proof -
  have "TransactionIdFollows a b \<longleftrightarrow> \<not> TransactionIdPrecedesOrEquals a b"
    by (auto simp: TransactionIdFollows_def TransactionIdPrecedesOrEquals_def)
  then show ?thesis using window_precedes [OF assms] window_eq [of a base b] by (auto simp: precedes_or_equals_iff)
qed

interpretation snap_heap: ranked "xmin_cmp m" "xkey base m" "xdom base m" for m base
proof
  fix a b assume "a \<in> xdom base m" "b \<in> xdom base m"
  then have "in_window base (mem_xmin m a)" "in_window base (mem_xmin m b)" by (simp_all add: xdom_def)
  then show "xmin_cmp m a b < 0 \<longleftrightarrow> xkey base m b < xkey base m a"
    using window_precedes [of base "mem_xmin m a" "mem_xmin m b"] window_follows [of base "mem_xmin m a" "mem_xmin m b"]
    by (simp add: xmin_cmp_def)
qed

section \<open>References\<close>

fun is_alloc :: "snap_addr \<Rightarrow> bool" where
  "is_alloc (Allocated _) = True"
| "is_alloc _ = False"

definition pinned :: "snapmgr \<Rightarrow> snap_addr \<Rightarrow> nat" where
  "pinned s p = count_list (map fst (ActiveSnapshot s)) p"

definition held :: "snapmgr \<Rightarrow> snap_addr \<Rightarrow> nat" where
  "held s p = count_list (ownedSnapshots s) p + (if FirstXactSnapshot s = Some p then 1 else 0)"

definition obj_ok :: "snapmgr \<Rightarrow> snap_addr \<Rightarrow> bool" where
  "obj_ok s p \<longleftrightarrow>
     (snap_mem s p = None \<longrightarrow> is_alloc p) \<and> (snap_mem s p = None \<or> \<not> is_alloc p \<longrightarrow> pinned s p = 0 \<and> held s p = 0) \<and>
     (\<forall>ob. snap_mem s p = Some ob \<longrightarrow> active_count ob = pinned s p \<and> regd_count ob = held s p \<and> copied ob = is_alloc p) \<and>
     (\<forall>n\<ge>next_alloc s. p = Allocated n \<longrightarrow> snap_mem s p = None)"

definition heap_ok :: "snapmgr \<Rightarrow> bool" where
  "heap_ok s \<longleftrightarrow> (\<forall>p. count (heap_nodes (RegisteredSnapshots s)) p = (if held s p > 0 \<or> CatalogSnapshot s = Some p then 1 else 0))"

definition ptrs_ok :: "snapmgr \<Rightarrow> bool" where
  "ptrs_ok s \<longleftrightarrow> CatalogSnapshot s \<in> {None, Some CatalogSnapshotData} \<and> SecondarySnapshot s \<in> {None, Some SecondarySnapshotData}
     \<and> (CurrentSnapshot s \<in> {None, Some CurrentSnapshotData, FirstXactSnapshot s})
     \<and> (firstSnapshotSet s \<longrightarrow> CurrentSnapshot s \<noteq> None \<and> (FirstXactSnapshot s \<noteq> None \<longrightarrow> CurrentSnapshot s = FirstXactSnapshot s))
     \<and> (\<not> firstSnapshotSet s \<longrightarrow> FirstXactSnapshot s = None)"

definition refs_ok :: "snapmgr \<Rightarrow> bool" where
  "refs_ok s \<longleftrightarrow> (\<forall>p. obj_ok s p) \<and> heap_ok s \<and> ptrs_ok s"

section \<open>The advertised xmin\<close>

definition in_use :: "snapmgr \<Rightarrow> snap_addr set" where
  "in_use s = fst ` set (ActiveSnapshot s) \<union> set_mset (heap_nodes (RegisteredSnapshots s))"

text \<open>Nothing older than \<open>x\<close> is running, or can come to be seen as running by a new snapshot.\<close>

definition reached :: "TransactionId \<Rightarrow> procarray \<Rightarrow> TransactionId \<Rightarrow> bool" where
  "reached base a x \<longleftrightarrow> uint (x - base) \<le> uint (TransactionIdAdvance (latestCompletedXid a) - base)
     \<and> (\<forall>p\<in>set (pgprocnos a). \<not> skipped a p \<and> TransactionIdIsNormal (pgx_xid (allPgXact a p)) \<longrightarrow> uint (x - base) \<le> uint (pgx_xid (allPgXact a p) - base))"

definition protects :: "TransactionId \<Rightarrow> snapmgr \<Rightarrow> snap_addr \<Rightarrow> bool" where
  "protects base s p \<longleftrightarrow> my_xmin s \<noteq> InvalidTransactionId \<and> in_window base (mem_xmin (snap_mem s) p)
     \<and> uint (my_xmin s - base) \<le> uint (mem_xmin (snap_mem s) p - base) \<and> reached base (sm_array s) (mem_xmin (snap_mem s) p)"

definition xmin_ok :: "TransactionId \<Rightarrow> snapmgr \<Rightarrow> bool" where
  "xmin_ok base s \<longleftrightarrow> procs_ok base (sm_array s) \<and> MyProc (sm_backend s) \<in> set (pgprocnos (sm_array s))
     \<and> heap_ordered (xkey base (snap_mem s)) (xdom base (snap_mem s)) (RegisteredSnapshots s)
     \<and> (\<forall>p\<in>in_use s. protects base s p)
     \<and> (my_xmin s \<noteq> InvalidTransactionId \<longrightarrow> in_window base (my_xmin s) \<and> reached base (sm_array s) (my_xmin s))"

text \<open>A later snapshot is not older than what has been reached, and what it sees as its \<open>xmin\<close> is reached.\<close>

lemma snapshot_fold_ge:
  assumes "\<forall>p\<in>set ps. proc_ok base a p" "in_window base xmax" "in_window base (acc_xmin acc)"
    and "k \<le> uint (acc_xmin acc - base)"
    and "\<forall>p\<in>set ps. \<not> skipped a p \<and> TransactionIdIsNormal (pgx_xid (allPgXact a p)) \<longrightarrow> k \<le> uint (pgx_xid (allPgXact a p) - base)"
  shows "k \<le> uint (acc_xmin (fold (snapshot_step me a xmax) ps acc) - base)"
  using assms
proof (induction ps arbitrary: acc)
  case (Cons p ps)
  have ok: "proc_ok base a p" using Cons.prems by simp
  let ?b = "snapshot_step me a xmax p acc"
  have win: "in_window base (acc_xmin ?b)"
    using snapshot_step_le [OF ok Cons.prems(2,3)] by (simp add: acc_le_def)
  have "k \<le> uint (acc_xmin ?b - base)"
    using Cons.prems(4,5) by (auto simp: snapshot_step_def skipped_def Let_def)
  then show ?case using Cons.IH [OF _ Cons.prems(2) win] Cons.prems(1,5) by simp
qed simp

lemma snapshot_after_reached:
  assumes "GetSnapshotData False age cid snap v a = (snap', v', a')" "procs_ok base a" "reached base a x"
  shows "uint (x - base) \<le> uint (snap_xmin snap' - base)"
proof -
  let ?xmax = "TransactionIdAdvance (latestCompletedXid a)"
  let ?a0 = "\<lparr>acc_globalxmin = ?xmax, acc_xmin = ?xmax, acc_xip = [], acc_subxip = [], acc_suboverflowed = False\<rparr>"
  have "snap_xmin snap' = acc_xmin (fold (snapshot_step (MyProc v) a ?xmax) (pgprocnos a) ?a0)"
    using assms(1) by (auto simp: GetSnapshotData_def Let_def)
  then show ?thesis
    using snapshot_fold_ge [of "pgprocnos a" base a ?xmax ?a0 "uint (x - base)" "MyProc v"] assms(2,3)
    by (auto simp: procs_ok_def reached_def)
qed

lemma snapshot_reached:
  assumes "GetSnapshotData False age cid snap v a = (snap', v', a')" "procs_ok base a"
  shows "reached base a (snap_xmin snap')"
proof -
  let ?xmax = "TransactionIdAdvance (latestCompletedXid a)"
  have le: "uint (snap_xmin snap' - base) \<le> uint (?xmax - base)"
    using get_snapshot [OF assms] by blast
  have "uint (snap_xmin snap' - base) \<le> uint (pgx_xid (allPgXact a p) - base)"
    if "p \<in> set (pgprocnos a)" "\<not> skipped a p" "TransactionIdIsNormal (pgx_xid (allPgXact a p))" for p
  proof (cases "TransactionIdPrecedes (pgx_xid (allPgXact a p)) ?xmax")
    case True
    then have "counted a ?xmax p" using that by (simp add: counted_def)
    then show ?thesis using get_snapshot [OF assms] that(1) by (auto simp: covers_def Let_def)
  next
    case False
    have "in_window base (pgx_xid (allPgXact a p))" "in_window base ?xmax"
      using that assms(2) step_xid_window by (auto simp: procs_ok_def)
    then show ?thesis using False le window_precedes by fastforce
  qed
  then show ?thesis using le by (auto simp: reached_def)
qed

section \<open>Changing the advertised xmin\<close>

lemma set_my_xmin_fields [simp]:
  "snap_mem (set_my_xmin x s) = snap_mem s" "next_alloc (set_my_xmin x s) = next_alloc s"
  "CurrentSnapshot (set_my_xmin x s) = CurrentSnapshot s" "SecondarySnapshot (set_my_xmin x s) = SecondarySnapshot s"
  "CatalogSnapshot (set_my_xmin x s) = CatalogSnapshot s" "ActiveSnapshot (set_my_xmin x s) = ActiveSnapshot s"
  "RegisteredSnapshots (set_my_xmin x s) = RegisteredSnapshots s" "firstSnapshotSet (set_my_xmin x s) = firstSnapshotSet s"
  "FirstXactSnapshot (set_my_xmin x s) = FirstXactSnapshot s" "ownedSnapshots (set_my_xmin x s) = ownedSnapshots s"
  "sm_backend (set_my_xmin x s) = sm_backend s" "my_xmin (set_my_xmin x s) = x"
  by (simp_all add: set_my_xmin_def my_xmin_def Let_def)

lemma xmin_irrelevant [simp]:
  "procs_ok base (a\<lparr>allPgXact := (allPgXact a)(p := (allPgXact a p)\<lparr>pgx_xmin := x\<rparr>)\<rparr>) = procs_ok base a"
  "reached base (a\<lparr>allPgXact := (allPgXact a)(p := (allPgXact a p)\<lparr>pgx_xmin := x\<rparr>)\<rparr>) y = reached base a y"
proof -
  let ?a = "a\<lparr>allPgXact := (allPgXact a)(p := (allPgXact a p)\<lparr>pgx_xmin := x\<rparr>)\<rparr>"
  have "proc_ok base ?a q = proc_ok base a q" "skipped ?a q = skipped a q" "pgx_xid (allPgXact ?a q) = pgx_xid (allPgXact a q)" for q
    by (simp_all add: proc_ok_def skipped_def Let_def)
  then show "procs_ok base ?a = procs_ok base a" "reached base ?a y = reached base a y" by (simp_all add: procs_ok_def reached_def)
qed

lemma set_my_xmin_array [simp]:
  "procs_ok base (sm_array (set_my_xmin x s)) = procs_ok base (sm_array s)"
  "reached base (sm_array (set_my_xmin x s)) y = reached base (sm_array s) y"
  "pgprocnos (sm_array (set_my_xmin x s)) = pgprocnos (sm_array s)"
  by (simp_all add: set_my_xmin_def Let_def)

lemma reset_fields [simp]:
  "snap_mem (SnapshotResetXmin s) = snap_mem s" "next_alloc (SnapshotResetXmin s) = next_alloc s"
  "CurrentSnapshot (SnapshotResetXmin s) = CurrentSnapshot s" "SecondarySnapshot (SnapshotResetXmin s) = SecondarySnapshot s"
  "CatalogSnapshot (SnapshotResetXmin s) = CatalogSnapshot s" "ActiveSnapshot (SnapshotResetXmin s) = ActiveSnapshot s"
  "RegisteredSnapshots (SnapshotResetXmin s) = RegisteredSnapshots s" "firstSnapshotSet (SnapshotResetXmin s) = firstSnapshotSet s"
  "FirstXactSnapshot (SnapshotResetXmin s) = FirstXactSnapshot s" "ownedSnapshots (SnapshotResetXmin s) = ownedSnapshots s"
  "sm_backend (SnapshotResetXmin s) = sm_backend s"
  by (simp_all add: SnapshotResetXmin_def split: option.split)

lemma reset_array [simp]:
  "reached base (sm_array (SnapshotResetXmin s)) x = reached base (sm_array s) x"
  "procs_ok base (sm_array (SnapshotResetXmin s)) = procs_ok base (sm_array s)"
  "pgprocnos (sm_array (SnapshotResetXmin s)) = pgprocnos (sm_array s)"
  by (simp_all add: SnapshotResetXmin_def split: option.split)

lemma count_cong: "ActiveSnapshot s' = ActiveSnapshot s \<Longrightarrow> pinned s' = pinned s"
    "ownedSnapshots s' = ownedSnapshots s \<Longrightarrow> FirstXactSnapshot s' = FirstXactSnapshot s \<Longrightarrow> held s' = held s"
  by (auto simp: pinned_def held_def)

lemma refs_ok_set_my_xmin [simp]: "refs_ok (set_my_xmin x s) = refs_ok s" "in_use (set_my_xmin x s) = in_use s"
  by (simp_all add: refs_ok_def obj_ok_def heap_ok_def ptrs_ok_def in_use_def count_cong [of "set_my_xmin x s" s])

lemma refs_ok_reset [simp]: "refs_ok (SnapshotResetXmin s) = refs_ok s"
  by (simp add: refs_ok_def obj_ok_def heap_ok_def ptrs_ok_def count_cong [of "SnapshotResetXmin s" s])

lemma in_use_reset [simp]: "in_use (SnapshotResetXmin s) = in_use s"
  by (simp add: in_use_def)

lemma window_valid: "in_window base x \<Longrightarrow> x \<noteq> InvalidTransactionId"
  by (auto simp: in_window_def normal_iff special_xids)

lemma heap_first_None: "pairingheap_first h = None \<longleftrightarrow> heap_nodes h = {#}"
  by (cases h) (auto simp: pairingheap_first_def tree_nodes_split)

text \<open>What the reset does: nothing while a snapshot is active; otherwise nothing is advertised, or the oldest registered one if that is an advance.\<close>

lemma reset_cases:
  assumes "xmin_ok base s"
  obtains (active) "ActiveSnapshot s \<noteq> []" "SnapshotResetXmin s = s"
    | (idle) "in_use s = {}" "SnapshotResetXmin s = set_my_xmin InvalidTransactionId s"
    | (oldest) p where "ActiveSnapshot s = []" "p \<in> in_use s" "\<forall>q\<in>in_use s. xkey base (snap_mem s) p \<le> xkey base (snap_mem s) q"
        "SnapshotResetXmin s = (if TransactionIdPrecedes (my_xmin s) (mem_xmin (snap_mem s) p) then set_my_xmin (mem_xmin (snap_mem s) p) s else s)"
proof (cases "ActiveSnapshot s = []")
  case empty: True
  show thesis
  proof (cases "pairingheap_first (RegisteredSnapshots s)")
    case None
    then have "heap_nodes (RegisteredSnapshots s) = {#}" by (simp only: heap_first_None)
    then have "in_use s = {}" using empty by (simp add: in_use_def)
    moreover have "SnapshotResetXmin s = set_my_xmin InvalidTransactionId s" using None empty by (simp add: SnapshotResetXmin_def)
    ultimately show thesis by (rule idle)
  next
    case (Some p)
    have "heap_ordered (xkey base (snap_mem s)) (xdom base (snap_mem s)) (RegisteredSnapshots s)"
      using assms by (simp add: xmin_ok_def)
    from snap_heap.first_least [OF this Some] have "p \<in> in_use s" "\<forall>q\<in>in_use s. xkey base (snap_mem s) p \<le> xkey base (snap_mem s) q"
      using empty by (simp_all add: in_use_def)
    moreover have "SnapshotResetXmin s = (if TransactionIdPrecedes (my_xmin s) (mem_xmin (snap_mem s) p) then set_my_xmin (mem_xmin (snap_mem s) p) s else s)"
      using empty Some by (simp add: SnapshotResetXmin_def)
    ultimately show thesis using empty by (intro oldest)
  qed
next
  case False
  then show thesis by (intro active) (simp_all add: SnapshotResetXmin_def)
qed

lemma xmin_ok_reset:
  assumes "xmin_ok base s"
  shows "xmin_ok base (SnapshotResetXmin s)"
  using assms
proof (cases rule: reset_cases)
  case idle
  then show ?thesis using assms by (auto simp: xmin_ok_def in_use_def)
next
  case (oldest p)
  have "protects base s q" if "q \<in> in_use s" for q using assms that by (simp add: xmin_ok_def)
  then show ?thesis using assms oldest window_valid [of base] by (auto simp: xmin_ok_def in_use_def protects_def)
qed (use assms in simp)

section \<open>Objects\<close>

lemma upd_obj_fields [simp]:
  "next_alloc (upd_obj p f s) = next_alloc s"
  "CurrentSnapshot (upd_obj p f s) = CurrentSnapshot s" "SecondarySnapshot (upd_obj p f s) = SecondarySnapshot s"
  "CatalogSnapshot (upd_obj p f s) = CatalogSnapshot s" "ActiveSnapshot (upd_obj p f s) = ActiveSnapshot s"
  "RegisteredSnapshots (upd_obj p f s) = RegisteredSnapshots s" "firstSnapshotSet (upd_obj p f s) = firstSnapshotSet s"
  "FirstXactSnapshot (upd_obj p f s) = FirstXactSnapshot s" "ownedSnapshots (upd_obj p f s) = ownedSnapshots s"
  "sm_backend (upd_obj p f s) = sm_backend s" "sm_array (upd_obj p f s) = sm_array s"
  "snap_mem (upd_obj p f s) = (snap_mem s)(p := map_option f (snap_mem s p))"
  by (simp_all add: upd_obj_def)

lemma heap_op_fields [simp]:
  "next_alloc (heap_add p s) = next_alloc s" "next_alloc (heap_remove p s) = next_alloc s"
  "CurrentSnapshot (heap_add p s) = CurrentSnapshot s" "CurrentSnapshot (heap_remove p s) = CurrentSnapshot s"
  "SecondarySnapshot (heap_add p s) = SecondarySnapshot s" "SecondarySnapshot (heap_remove p s) = SecondarySnapshot s"
  "CatalogSnapshot (heap_add p s) = CatalogSnapshot s" "CatalogSnapshot (heap_remove p s) = CatalogSnapshot s"
  "ActiveSnapshot (heap_add p s) = ActiveSnapshot s" "ActiveSnapshot (heap_remove p s) = ActiveSnapshot s"
  "firstSnapshotSet (heap_add p s) = firstSnapshotSet s" "firstSnapshotSet (heap_remove p s) = firstSnapshotSet s"
  "FirstXactSnapshot (heap_add p s) = FirstXactSnapshot s" "FirstXactSnapshot (heap_remove p s) = FirstXactSnapshot s"
  "ownedSnapshots (heap_add p s) = ownedSnapshots s" "ownedSnapshots (heap_remove p s) = ownedSnapshots s"
  "sm_backend (heap_add p s) = sm_backend s" "sm_backend (heap_remove p s) = sm_backend s"
  "sm_array (heap_add p s) = sm_array s" "sm_array (heap_remove p s) = sm_array s"
  "snap_mem (heap_add p s) = snap_mem s" "snap_mem (heap_remove p s) = snap_mem s"
  "heap_nodes (RegisteredSnapshots (heap_add p s)) = add_mset p (heap_nodes (RegisteredSnapshots s))"
  by (simp_all add: heap_add_def heap_remove_def add_nodes)

lemma heap_remove_nodes:
  "count (heap_nodes (RegisteredSnapshots s)) p \<le> 1 \<Longrightarrow> heap_nodes (RegisteredSnapshots (heap_remove p s)) = heap_nodes (RegisteredSnapshots s) - {#p#}"
  by (simp add: heap_remove_def remove_nodes)

text \<open>The heap and the protection depend on the xmins only.\<close>

lemma xmin_ok_moved:
  assumes "xmin_ok base s" "RegisteredSnapshots s' = RegisteredSnapshots s" "procs_ok base (sm_array s')"
    and "MyProc (sm_backend s') \<in> set (pgprocnos (sm_array s'))"
    and prot: "\<forall>p\<in>in_use s'. protects base s' p \<and> mem_xmin (snap_mem s') p = mem_xmin (snap_mem s) p"
    and "my_xmin s' \<noteq> InvalidTransactionId \<longrightarrow> in_window base (my_xmin s') \<and> reached base (sm_array s') (my_xmin s')"
  shows "xmin_ok base s'"
proof -
  have "heap_ordered (xkey base (snap_mem s)) (xdom base (snap_mem s)) (RegisteredSnapshots s')"
    using assms(1,2) by (simp add: xmin_ok_def)
  moreover have "xkey base (snap_mem s) x = xkey base (snap_mem s') x \<and> x \<in> xdom base (snap_mem s')" if "x \<in># heap_nodes (RegisteredSnapshots s')" for x
  proof -
    have "x \<in> in_use s'" using that by (simp add: in_use_def)
    then have "protects base s' x" "mem_xmin (snap_mem s') x = mem_xmin (snap_mem s) x" using prot by blast+
    then show ?thesis by (simp add: xdom_def protects_def)
  qed
  ultimately have "heap_ordered (xkey base (snap_mem s')) (xdom base (snap_mem s')) (RegisteredSnapshots s')" by (rule heap_ordered_cong)
  then show ?thesis using assms by (simp add: xmin_ok_def)
qed

lemma xmin_ok_frame:
  assumes "xmin_ok base s" "sm_array s' = sm_array s" "MyProc (sm_backend s') = MyProc (sm_backend s)"
    and "\<forall>p\<in>in_use s'. mem_xmin (snap_mem s') p = mem_xmin (snap_mem s) p"
    and "RegisteredSnapshots s' = RegisteredSnapshots s" "\<forall>p\<in>in_use s'. p \<in> in_use s \<or> protects base s p"
  shows "xmin_ok base s'"
proof (rule xmin_ok_moved [OF assms(1,5)])
  have my: "my_xmin s' = my_xmin s" using assms(2,3) by (simp add: my_xmin_def)
  have "protects base s p" if "p \<in> in_use s'" for p using assms(1,6) that by (auto simp: xmin_ok_def)
  then show "\<forall>p\<in>in_use s'. protects base s' p \<and> mem_xmin (snap_mem s') p = mem_xmin (snap_mem s) p"
    using assms(2,4) my by (simp add: protects_def)
  show "my_xmin s' \<noteq> InvalidTransactionId \<longrightarrow> in_window base (my_xmin s') \<and> reached base (sm_array s') (my_xmin s')"
    using assms(1,2) my by (simp add: xmin_ok_def)
qed (use assms in \<open>simp_all add: xmin_ok_def\<close>)

lemma xmin_ok_add:
  assumes "xmin_ok base s" "protects base s p"
  shows "xmin_ok base (heap_add p s)"
proof -
  have "heap_ordered (xkey base (snap_mem s)) (xdom base (snap_mem s)) (RegisteredSnapshots (heap_add p s))"
    using assms snap_heap.ordered_add [of "snap_mem s" base "RegisteredSnapshots s" p]
    by (simp add: heap_add_def xmin_ok_def) (simp add: xdom_def protects_def)
  moreover have "in_use (heap_add p s) = insert p (in_use s)" by (auto simp: in_use_def)
  ultimately show ?thesis using assms by (simp add: xmin_ok_def protects_def my_xmin_def)
qed

lemma xmin_ok_remove:
  assumes "xmin_ok base s" "count (heap_nodes (RegisteredSnapshots s)) p \<le> 1"
  shows "xmin_ok base (heap_remove p s)"
proof -
  have "heap_ordered (xkey base (snap_mem s)) (xdom base (snap_mem s)) (RegisteredSnapshots (heap_remove p s))"
    using assms by (simp add: heap_remove_def xmin_ok_def snap_heap.ordered_remove)
  moreover have "in_use (heap_remove p s) \<subseteq> in_use s" using heap_remove_nodes [OF assms(2)] by (auto simp: in_use_def dest: in_diffD)
  ultimately show ?thesis using assms by (auto simp: xmin_ok_def protects_def my_xmin_def)
qed

section \<open>Taking and dropping references\<close>

definition sm_ok :: "TransactionId \<Rightarrow> snapmgr \<Rightarrow> bool" where
  "sm_ok base s \<longleftrightarrow> refs_ok s \<and> xmin_ok base s"

definition usable :: "TransactionId \<Rightarrow> snapmgr \<Rightarrow> snap_addr \<Rightarrow> bool" where
  "usable base s p \<longleftrightarrow> snap_mem s p \<noteq> None \<and> protects base s p"

lemma held_add: "ownedSnapshots s' = q # ownedSnapshots s \<Longrightarrow> FirstXactSnapshot s' = FirstXactSnapshot s \<Longrightarrow> held s' r = held s r + (if r = q then 1 else 0)"
    "ActiveSnapshot s' = (q, l) # ActiveSnapshot s \<Longrightarrow> pinned s' r = pinned s r + (if r = q then 1 else 0)"
  by (simp_all add: held_def pinned_def)

lemma mem_xmin_upd:
  "(\<And>ob. snap_xmin (obj_data (f ob)) = snap_xmin (obj_data ob)) \<Longrightarrow> mem_xmin (m(q := map_option f (m q))) r = mem_xmin m r"
  by (auto simp: mem_xmin_def split: option.split)

lemma push_ok:
  assumes ok: "sm_ok base s" and q: "usable base s q" "is_alloc q"
  shows "sm_ok base (upd_obj q (\<lambda>ob. ob\<lparr>active_count := active_count ob + 1\<rparr>) (s\<lparr>ActiveSnapshot := (q, l) # ActiveSnapshot s\<rparr>))"
    (is "sm_ok base ?s")
proof -
  have pin: "pinned ?s r = pinned s r + (if r = q then 1 else 0)" "held ?s r = held s r" for r
    by (simp_all add: pinned_def held_def)
  have "obj_ok ?s r" for r
    using ok q pin by (auto simp: sm_ok_def refs_ok_def obj_ok_def usable_def)
  moreover have "heap_ok ?s" "ptrs_ok ?s" using ok pin(2) by (simp_all add: sm_ok_def refs_ok_def heap_ok_def ptrs_ok_def)
  moreover have "xmin_ok base ?s"
  proof (rule xmin_ok_frame [of base s])
    show "\<forall>p\<in>in_use ?s. p \<in> in_use s \<or> protects base s p" using q(1) by (auto simp: in_use_def usable_def)
  qed (use ok in \<open>auto simp: sm_ok_def mem_xmin_upd\<close>)
  ultimately show ?thesis by (simp add: sm_ok_def refs_ok_def)
qed

text \<open>A registration counts on the object, and the first one enters it in the heap.\<close>

lemma hold_ok:
  assumes ok: "sm_ok base s" and q: "usable base s q" "is_alloc q"
    and held: "\<And>r. held s' r = held s r + (if r = q then 1 else 0)" and ptrs: "ptrs_ok s'"
    and mem: "snap_mem s' = (snap_mem s)(q := map_option (\<lambda>ob. ob\<lparr>regd_count := regd_count ob + 1\<rparr>) (snap_mem s q))"
    and same: "next_alloc s' = next_alloc s" "ActiveSnapshot s' = ActiveSnapshot s" "RegisteredSnapshots s' = RegisteredSnapshots s"
      "CatalogSnapshot s' = CatalogSnapshot s" "sm_array s' = sm_array s" "sm_backend s' = sm_backend s"
  shows "sm_ok base (if map_option regd_count (snap_mem s' q) = Some 1 then heap_add q s' else s')"
proof -
  have pin: "pinned s' = pinned s" by (rule count_cong(1) [OF same(2)])
  have xm: "mem_xmin (snap_mem s') r = mem_xmin (snap_mem s) r" for r unfolding mem by (rule mem_xmin_upd) simp
  have objs: "obj_ok s' r" for r
    using ok q held pin same mem by (auto simp: sm_ok_def refs_ok_def obj_ok_def usable_def)
  have xmin: "xmin_ok base s'"
    by (rule xmin_ok_frame [of base s]) (use ok same xm in \<open>auto simp: sm_ok_def in_use_def\<close>)
  obtain ob where ob: "snap_mem s q = Some ob" using q(1) by (auto simp: usable_def)
  have regd: "regd_count ob = held s q" "CatalogSnapshot s \<noteq> Some q"
    using ok ob q(2) by (auto simp: sm_ok_def refs_ok_def obj_ok_def ptrs_ok_def)
  have heap: "count (heap_nodes (RegisteredSnapshots s)) r = (if held s r > 0 \<or> CatalogSnapshot s = Some r then 1 else 0)" for r
    using ok by (simp add: sm_ok_def refs_ok_def heap_ok_def)
  show ?thesis
  proof (cases "held s q = 0")
    case True
    have "protects base s' q" using q(1) xm same by (simp add: usable_def protects_def my_xmin_def)
    then have "xmin_ok base (heap_add q s')" by (rule xmin_ok_add [OF xmin])
    moreover have "held (heap_add q s') = held s'" "pinned (heap_add q s') = pinned s'" by (simp_all add: count_cong [of "heap_add q s'" s'])
    then have "refs_ok (heap_add q s')"
      using objs ptrs heap held regd True same by (simp add: refs_ok_def obj_ok_def ptrs_ok_def heap_ok_def)
    ultimately show ?thesis using True regd mem ob by (simp add: sm_ok_def)
  next
    case False
    then have "heap_ok s'" using heap held same by (auto simp: heap_ok_def)
    then show ?thesis using False objs ptrs xmin regd mem ob by (simp add: sm_ok_def refs_ok_def)
  qed
qed

text \<open>The last reference frees the object.\<close>

lemma drop_ok:
  assumes ok: "sm_ok base s" and act: "ActiveSnapshot s = (p, l) # rest"
  obtains s1 where "drop_active p s = (Inr (), s1)" "sm_ok base (s1\<lparr>ActiveSnapshot := rest\<rparr>)"
    "in_use (s1\<lparr>ActiveSnapshot := rest\<rparr>) \<subseteq> in_use s" "RegisteredSnapshots s1 = RegisteredSnapshots s"
proof -
  have obj: "obj_ok s r" for r using ok by (simp add: sm_ok_def refs_ok_def)
  have pinp: "pinned s p > 0" using act by (simp add: pinned_def)
  then obtain ob where ob: "snap_mem s p = Some ob" "active_count ob = pinned s p" "regd_count ob = held s p" "is_alloc p"
    using obj [of p] by (cases "snap_mem s p") (auto simp: obj_ok_def)
  let ?u = "upd_obj p (\<lambda>ob. ob\<lparr>active_count := active_count ob - 1\<rparr>) s"
  define s1 where "s1 = (if active_count ob - 1 = 0 \<and> regd_count ob = 0 then FreeSnapshot p ?u else ?u)"
  have run: "drop_active p s = (Inr (), s1)" by (simp add: drop_active_def ob(1) s1_def Let_def)
  let ?s = "s1\<lparr>ActiveSnapshot := rest\<rparr>"
  have fields: "next_alloc s1 = next_alloc s" "CurrentSnapshot s1 = CurrentSnapshot s" "SecondarySnapshot s1 = SecondarySnapshot s"
      "CatalogSnapshot s1 = CatalogSnapshot s" "RegisteredSnapshots s1 = RegisteredSnapshots s" "firstSnapshotSet s1 = firstSnapshotSet s"
      "FirstXactSnapshot s1 = FirstXactSnapshot s" "ownedSnapshots s1 = ownedSnapshots s" "sm_backend s1 = sm_backend s" "sm_array s1 = sm_array s"
    by (simp_all add: s1_def FreeSnapshot_def)
  have mem: "snap_mem s1 = (snap_mem s)(p := if pinned s p = 1 \<and> held s p = 0 then None else Some (ob\<lparr>active_count := pinned s p - 1\<rparr>))"
    using ob pinp by (auto simp: s1_def FreeSnapshot_def)
  have counts: "pinned ?s r = pinned s r - (if r = p then 1 else 0)" "held ?s r = held s r" for r
    using act fields by (simp_all add: pinned_def held_def)
  have objs: "obj_ok ?s r" for r
  proof (cases "r = p")
    case True
    then show ?thesis using obj [of p] ob pinp counts [of p] fields mem by (auto simp: obj_ok_def)
  next
    case False
    then show ?thesis using obj [of r] counts [of r] fields mem by (simp add: obj_ok_def)
  qed
  have use: "in_use ?s \<subseteq> in_use s" using act fields by (auto simp: in_use_def)
  have "xmin_ok base ?s"
  proof (rule xmin_ok_frame [of base s])
    have heap: "count (heap_nodes (RegisteredSnapshots s)) p = (if held s p > 0 \<or> CatalogSnapshot s = Some p then 1 else 0)"
      using ok by (simp add: sm_ok_def refs_ok_def heap_ok_def)
    have "CatalogSnapshot s \<noteq> Some p" using ok ob(4) by (auto simp: sm_ok_def refs_ok_def ptrs_ok_def)
    then have "p \<notin> in_use ?s" if "pinned s p = 1" "held s p = 0"
      using that counts(1) [of p] heap fields by (auto simp: in_use_def pinned_def count_list_0_iff not_in_iff)
    then show "\<forall>r\<in>in_use ?s. mem_xmin (snap_mem ?s) r = mem_xmin (snap_mem s) r" using ob(1) by (auto simp: mem mem_xmin_def)
  qed (use ok fields use in \<open>auto simp: sm_ok_def\<close>)
  moreover have "refs_ok ?s"
    using ok objs counts fields by (simp add: sm_ok_def refs_ok_def heap_ok_def ptrs_ok_def)
  ultimately show thesis using that [OF run] use fields by (simp add: sm_ok_def)
qed

section \<open>New objects\<close>

lemma not_in_use:
  assumes "refs_ok s" "pinned s p = 0" "held s p = 0" "CatalogSnapshot s \<noteq> Some p"
  shows "p \<notin> in_use s"
proof -
  have "count (heap_nodes (RegisteredSnapshots s)) p = 0" using assms by (simp add: refs_ok_def heap_ok_def)
  then have "p \<notin># heap_nodes (RegisteredSnapshots s)" by (simp add: not_in_iff)
  moreover have "p \<notin> fst ` set (ActiveSnapshot s)" using assms(2) by (simp add: pinned_def count_list_0_iff)
  ultimately show ?thesis by (simp add: in_use_def)
qed

definition with_copy :: "SnapshotData \<Rightarrow> snapmgr \<Rightarrow> snapmgr" where
  "with_copy d s = s\<lparr>snap_mem := (snap_mem s)(Allocated (next_alloc s) \<mapsto> \<lparr>obj_data = d, active_count = 0, regd_count = 0, copied = True\<rparr>),
     next_alloc := next_alloc s + 1\<rparr>"

lemma alloc_ok:
  assumes "sm_ok base s"
  shows "sm_ok base (with_copy d s)" "snap_mem s (Allocated (next_alloc s)) = None" "held s (Allocated (next_alloc s)) = 0"
    "in_use (with_copy d s) = in_use s" "p \<noteq> Allocated (next_alloc s) \<Longrightarrow> protects base (with_copy d s) p = protects base s p"
proof -
  let ?q = "Allocated (next_alloc s)" and ?s = "with_copy d s"
  have obj: "obj_ok s r" for r using assms by (simp add: sm_ok_def refs_ok_def)
  then show fresh: "snap_mem s ?q = None" by (simp add: obj_ok_def)
  then show "held s ?q = 0" using obj [of ?q] by (simp add: obj_ok_def)
  have counts: "pinned ?s = pinned s" "held ?s = held s" by (rule count_cong; simp add: with_copy_def)+
  show use: "in_use ?s = in_use s" by (simp add: in_use_def with_copy_def)
  have "obj_ok ?s r" for r
  proof (cases "r = ?q")
    case True
    then show ?thesis using obj [of ?q] fresh counts by (simp add: obj_ok_def with_copy_def)
  next
    case False
    then show ?thesis using obj [of r] counts by (simp add: obj_ok_def with_copy_def)
  qed
  then have "refs_ok ?s" using assms counts by (simp add: sm_ok_def refs_ok_def heap_ok_def ptrs_ok_def) (simp add: with_copy_def)
  moreover have out: "?q \<notin> in_use s"
    using assms obj [of ?q] fresh by (intro not_in_use) (auto simp: sm_ok_def refs_ok_def obj_ok_def ptrs_ok_def)
  have "xmin_ok base ?s"
    by (rule xmin_ok_frame [of base s]) (use assms use out in \<open>auto simp: sm_ok_def with_copy_def mem_xmin_def\<close>)
  ultimately show "sm_ok base ?s" by (simp add: sm_ok_def)
  show "p \<noteq> ?q \<Longrightarrow> protects base ?s p = protects base s p" by (simp add: protects_def with_copy_def my_xmin_def mem_xmin_def)
qed

lemma copy_ok:
  assumes ok: "sm_ok base s" and p: "usable base s p"
  obtains d q where "CopySnapshot p s = (Inr q, with_copy d s)" "sm_ok base (with_copy d s)" "usable base (with_copy d s) q"
    "is_alloc q" "held (with_copy d s) q = 0" "q \<noteq> p" "usable base (with_copy d s) p"
proof -
  obtain ob where ob: "snap_mem s p = Some ob" using p by (auto simp: usable_def)
  let ?q = "Allocated (next_alloc s)" and ?d = "copy_data (obj_data ob)"
  have "?q \<noteq> p" using alloc_ok(2) [OF ok] ob by auto
  moreover have "held (with_copy ?d s) = held s" by (rule count_cong) (simp_all add: with_copy_def)
  moreover have "snap_xmin ?d = mem_xmin (snap_mem s) p" by (simp add: copy_data_def mem_xmin_def ob)
  then have "protects base (with_copy ?d s) ?q"
    using p by (simp add: usable_def protects_def with_copy_def my_xmin_def mem_xmin_def)
  moreover have "CopySnapshot p s = (Inr ?q, with_copy ?d s)" by (simp add: CopySnapshot_def ob with_copy_def Let_def)
  ultimately show thesis
    using that [of ?q ?d] alloc_ok [OF ok] p by (simp add: usable_def) (simp add: with_copy_def)
qed

text \<open>A new snapshot in a static object that is not in use.\<close>

lemma take_xmin:
  assumes ok: "xmin_ok base s" and out: "p \<notin> in_use s"
    and data: "GetSnapshotData False age cid old (sm_backend s) (sm_array s) = (snap, v, a)"
  defines "s1 \<equiv> s\<lparr>snap_mem := (snap_mem s)(p \<mapsto> \<lparr>obj_data = snap, active_count = 0, regd_count = 0, copied = False\<rparr>), sm_backend := v, sm_array := a\<rparr>"
  shows "xmin_ok base s1" "protects base s1 p" "reached base a x = reached base (sm_array s) x"
proof -
  have arr: "procs_ok base (sm_array s)" using ok by (simp add: xmin_ok_def)
  have win: "in_window base (snap_xmin snap)" "MyProc v = MyProc (sm_backend s)" using get_snapshot [OF data arr] by blast+
  have a: "a = (if my_xmin s \<noteq> InvalidTransactionId then sm_array s else sm_array (set_my_xmin (snap_xmin snap) s))"
    using get_snapshot_state [OF data] by (auto simp: my_xmin_def set_my_xmin_def Let_def TransactionIdIsValid_def)
  have my: "my_xmin s1 = (if my_xmin s \<noteq> InvalidTransactionId then my_xmin s else snap_xmin snap)"
    by (simp add: s1_def my_xmin_def a win) (simp add: set_my_xmin_def my_xmin_def Let_def)
  show reach: "reached base a x = reached base (sm_array s) x" for x by (simp add: a)
  have le: "uint (my_xmin s1 - base) \<le> uint (snap_xmin snap - base)"
    using ok my snapshot_after_reached [OF data arr, of "my_xmin s"] by (auto simp: xmin_ok_def)
  have xm: "mem_xmin (snap_mem s1) r = (if r = p then snap_xmin snap else mem_xmin (snap_mem s) r)" for r by (simp add: s1_def mem_xmin_def)
  have arr1: "sm_array s1 = a" "in_use s1 = in_use s" by (simp_all add: s1_def in_use_def)
  show "protects base s1 p"
    using snapshot_reached [OF data arr] win le my window_valid [OF win(1)] by (simp add: protects_def xm arr1 reach)
  show "xmin_ok base s1"
  proof (rule xmin_ok_moved [OF ok])
    have "protects base s1 r \<and> mem_xmin (snap_mem s1) r = mem_xmin (snap_mem s) r" if "r \<in> in_use s" for r
    proof -
      have "r \<noteq> p" "protects base s r" using that out ok by (auto simp: xmin_ok_def)
      then show ?thesis using my by (simp add: protects_def xm arr1 reach)
    qed
    then show "\<forall>r\<in>in_use s1. protects base s1 r \<and> mem_xmin (snap_mem s1) r = mem_xmin (snap_mem s) r" using arr1 by simp
    show "my_xmin s1 \<noteq> InvalidTransactionId \<longrightarrow> in_window base (my_xmin s1) \<and> reached base (sm_array s1) (my_xmin s1)"
      using ok my win(1) snapshot_reached [OF data arr] by (simp add: xmin_ok_def arr1 reach)
  qed (use ok win arr in \<open>simp_all add: s1_def a xmin_ok_def\<close>)
qed

lemma take_ok:
  assumes ok: "sm_ok base s" and p: "\<not> is_alloc p" "CatalogSnapshot s \<noteq> Some p" and prim: "\<not> ctx_recovery c"
  obtains s1 where "take_snapshot c p s = (Inr p, s1)" "sm_ok base s1" "usable base s1 p"
    "CatalogSnapshot s1 = CatalogSnapshot s" "CurrentSnapshot s1 = CurrentSnapshot s" "FirstXactSnapshot s1 = FirstXactSnapshot s"
    "firstSnapshotSet s1 = firstSnapshotSet s" "ActiveSnapshot s1 = ActiveSnapshot s" "ownedSnapshots s1 = ownedSnapshots s"
    "\<forall>r. r \<noteq> p \<longrightarrow> snap_mem s1 r = snap_mem s r" "\<forall>x. reached base (sm_array s1) x = reached base (sm_array s) x"
proof -
  have obj: "obj_ok s r" for r using ok by (simp add: sm_ok_def refs_ok_def)
  have refs: "pinned s p = 0" "held s p = 0" using obj [of p] p by (auto simp: obj_ok_def)
  obtain ob where ob: "snap_mem s p = Some ob" using obj [of p] p by (auto simp: obj_ok_def)
  obtain snap v a where data: "GetSnapshotData False (ctx_age c) (ctx_cid c) (obj_data ob) (sm_backend s) (sm_array s) = (snap, v, a)"
    by (rule prod_cases3)
  define s1 where "s1 = s\<lparr>snap_mem := (snap_mem s)(p \<mapsto> \<lparr>obj_data = snap, active_count = 0, regd_count = 0, copied = False\<rparr>),
      sm_backend := v, sm_array := a\<rparr>"
  have run: "take_snapshot c p s = (Inr p, s1)" using prim by (simp add: take_snapshot_def ob data s1_def)
  have out: "p \<notin> in_use s" using ok refs p(2) by (intro not_in_use) (simp_all add: sm_ok_def)
  have x: "xmin_ok base s" using ok by (simp add: sm_ok_def)
  note xmin = take_xmin [OF x out data, folded s1_def]
  have counts: "pinned s1 = pinned s" "held s1 = held s" by (rule count_cong; simp add: s1_def)+
  have "obj_ok s1 r" for r
    using obj [of r] obj [of p] refs p(1) ob counts by (cases "r = p") (auto simp: obj_ok_def s1_def)
  then have "refs_ok s1" using ok counts by (simp add: sm_ok_def refs_ok_def heap_ok_def ptrs_ok_def) (simp add: s1_def)
  then show thesis
    using that [OF run] xmin by (simp add: sm_ok_def usable_def) (simp add: s1_def)
qed

end
