(* ===== verification/Snapmgr_Ops.thy ===== *)
theory Snapmgr_Ops
  imports Snapmgr_Props
begin

text \<open>Every operation of the snapshot manager keeps its invariant, and none of them uses a freed or null snapshot.\<close>

section \<open>Safe operations\<close>

definition sm_safe :: "TransactionId \<Rightarrow> (snapmgr \<Rightarrow> bool) \<Rightarrow> 'a sm \<Rightarrow> ('a \<Rightarrow> snapmgr \<Rightarrow> bool) \<Rightarrow> bool" where
  "sm_safe base P m Q \<longleftrightarrow> (\<forall>s. sm_ok base s \<and> P s \<longrightarrow>
     (case m s of (Inl e, s') \<Rightarrow> sm_ok base s' \<and> e \<noteq> BadSnapshot | (Inr a, s') \<Rightarrow> sm_ok base s' \<and> Q a s'))"

lemma safe_bind:
  assumes "sm_safe base P m Q" "\<And>a. sm_safe base (Q a) (f a) R"
  shows "sm_safe base P (sm_bind m f) R"
  unfolding sm_safe_def
proof (intro allI impI)
  fix s assume "sm_ok base s \<and> P s"
  then have m: "case m s of (Inl e, s') \<Rightarrow> sm_ok base s' \<and> e \<noteq> BadSnapshot | (Inr a, s') \<Rightarrow> sm_ok base s' \<and> Q a s'"
    using assms(1) by (simp add: sm_safe_def)
  obtain r s' where r: "m s = (r, s')" by (rule prod.exhaust)
  show "case sm_bind m f s of (Inl e, s') \<Rightarrow> sm_ok base s' \<and> e \<noteq> BadSnapshot | (Inr a, s') \<Rightarrow> sm_ok base s' \<and> R a s'"
  proof (cases r)
    case (Inr a)
    then have "sm_ok base s'" "Q a s'" using m r by simp_all
    then show ?thesis using assms(2) [of a] Inr r by (simp add: sm_bind_def sm_safe_def)
  qed (use m r in \<open>simp add: sm_bind_def\<close>)
qed

lemma safe_Inr:
  "(\<And>s. sm_ok base s \<Longrightarrow> P s \<Longrightarrow> \<exists>a s'. m s = (Inr a, s') \<and> sm_ok base s' \<and> Q a s') \<Longrightarrow> sm_safe base P m Q"
  by (fastforce simp: sm_safe_def)

lemma safe_pre: "sm_safe base P m Q \<Longrightarrow> (\<And>s. sm_ok base s \<Longrightarrow> P' s \<Longrightarrow> P s) \<Longrightarrow> sm_safe base P' m Q"
  by (auto simp: sm_safe_def)

lemma post_mono:
  "case x of (Inl e, s') \<Rightarrow> A s' \<and> B e | (Inr a, s') \<Rightarrow> A s' \<and> Q a s' \<Longrightarrow> (\<And>a s. A s \<Longrightarrow> Q a s \<Longrightarrow> Q' a s) \<Longrightarrow>
   case x of (Inl e, s') \<Rightarrow> A s' \<and> B e | (Inr a, s') \<Rightarrow> A s' \<and> Q' a s'"
  by (auto split: prod.splits sum.splits)

lemma safe_post:
  assumes "sm_safe base P m Q" "\<And>a s. sm_ok base s \<Longrightarrow> Q a s \<Longrightarrow> Q' a s"
  shows "sm_safe base P m Q'"
  unfolding sm_safe_def
proof (intro allI impI)
  fix s assume "sm_ok base s \<and> P s"
  then have "case m s of (Inl e, s') \<Rightarrow> sm_ok base s' \<and> e \<noteq> BadSnapshot | (Inr a, s') \<Rightarrow> sm_ok base s' \<and> Q a s'"
    using assms(1) by (simp add: sm_safe_def)
  then show "case m s of (Inl e, s') \<Rightarrow> sm_ok base s' \<and> e \<noteq> BadSnapshot | (Inr a, s') \<Rightarrow> sm_ok base s' \<and> Q' a s'"
    by (rule post_mono) (rule assms(2))
qed

lemma safe_apply: "sm_safe base P m Q \<Longrightarrow> sm_ok base s \<Longrightarrow> P s \<Longrightarrow> m s = (r, s') \<Longrightarrow>
   sm_ok base s' \<and> r \<noteq> Inl BadSnapshot \<and> (\<forall>a. r = Inr a \<longrightarrow> Q a s')"
  by (cases r) (fastforce simp: sm_safe_def)+

lemma static_ok:
  assumes "sm_ok base s" "\<not> is_alloc p"
  shows "snap_mem s p \<noteq> None" "held s p = 0" "pinned s p = 0"
  using assms by (auto simp: sm_ok_def refs_ok_def obj_ok_def)

lemma in_use_usable:
  assumes "sm_ok base s" "p \<in> in_use s"
  shows "usable base s p"
proof -
  have "snap_mem s p \<noteq> None"
  proof
    assume none: "snap_mem s p = None"
    then have "is_alloc p" "pinned s p = 0" "held s p = 0" using assms(1) by (auto simp: sm_ok_def refs_ok_def obj_ok_def)
    moreover have "CatalogSnapshot s \<noteq> Some p" using assms(1) \<open>is_alloc p\<close> by (auto simp: sm_ok_def refs_ok_def ptrs_ok_def)
    ultimately show False using not_in_use [of s p] assms by (simp add: sm_ok_def)
  qed
  then show ?thesis using assms by (simp add: usable_def sm_ok_def xmin_ok_def)
qed

section \<open>The catalog snapshot\<close>

lemma refs_ok_catalog:
  assumes "refs_ok s" "CatalogSnapshot s = Some p"
  shows "refs_ok ((heap_remove p s)\<lparr>CatalogSnapshot := None\<rparr>)" "count (heap_nodes (RegisteredSnapshots s)) p = 1"
proof -
  let ?s = "(heap_remove p s)\<lparr>CatalogSnapshot := None\<rparr>"
  have heap: "count (heap_nodes (RegisteredSnapshots s)) r = (if held s r > 0 \<or> CatalogSnapshot s = Some r then 1 else 0)" for r
    using assms(1) by (simp add: refs_ok_def heap_ok_def)
  then show one: "count (heap_nodes (RegisteredSnapshots s)) p = 1" using assms(2) by simp
  have counts: "pinned ?s = pinned s" "held ?s = held s" by (rule count_cong; simp)+
  have "held s p = 0" using assms by (auto simp: refs_ok_def obj_ok_def ptrs_ok_def)
  then have "heap_ok ?s" using heap one heap_remove_nodes [of s p] assms(2) counts by (auto simp: heap_ok_def)
  then show "refs_ok ?s" using assms(1) counts by (simp add: refs_ok_def obj_ok_def ptrs_ok_def)
qed

lemma invalidate_catalog_fields [simp]:
  "CatalogSnapshot (InvalidateCatalogSnapshot s) = None" "ActiveSnapshot (InvalidateCatalogSnapshot s) = ActiveSnapshot s"
  "firstSnapshotSet (InvalidateCatalogSnapshot s) = firstSnapshotSet s" "FirstXactSnapshot (InvalidateCatalogSnapshot s) = FirstXactSnapshot s"
  "CurrentSnapshot (InvalidateCatalogSnapshot s) = CurrentSnapshot s" "snap_mem (InvalidateCatalogSnapshot s) = snap_mem s"
  "next_alloc (InvalidateCatalogSnapshot s) = next_alloc s" "ownedSnapshots (InvalidateCatalogSnapshot s) = ownedSnapshots s"
  "reached base (sm_array (InvalidateCatalogSnapshot s)) x = reached base (sm_array s) x"
  by (simp_all add: InvalidateCatalogSnapshot_def split: option.split)

lemma xmin_ok_catalog:
  assumes "xmin_ok base s" "\<And>p. CatalogSnapshot s = Some p \<Longrightarrow> count (heap_nodes (RegisteredSnapshots s)) p \<le> 1"
  shows "xmin_ok base (InvalidateCatalogSnapshot s)"
proof (cases "CatalogSnapshot s")
  case (Some p)
  have "xmin_ok base (heap_remove p s)" by (rule xmin_ok_remove [OF assms(1) assms(2) [OF Some]])
  then have "xmin_ok base ((heap_remove p s)\<lparr>CatalogSnapshot := None\<rparr>)"
    by (rule xmin_ok_frame) (auto simp: in_use_def)
  then show ?thesis using Some by (simp add: InvalidateCatalogSnapshot_def xmin_ok_reset)
qed (use assms in \<open>simp add: InvalidateCatalogSnapshot_def\<close>)

lemma invalidate_catalog_ok:
  assumes "sm_ok base s"
  shows "sm_ok base (InvalidateCatalogSnapshot s)"
proof (cases "CatalogSnapshot s")
  case (Some p)
  have refs: "refs_ok s" using assms by (simp add: sm_ok_def)
  have "xmin_ok base (InvalidateCatalogSnapshot s)"
    using assms refs_ok_catalog(2) [OF refs] by (intro xmin_ok_catalog) (auto simp: sm_ok_def)
  then show ?thesis using refs_ok_catalog(1) [OF refs Some] Some by (simp add: sm_ok_def InvalidateCatalogSnapshot_def)
qed (use assms in \<open>simp add: InvalidateCatalogSnapshot_def\<close>)

lemma invalidate_catalog_conditionally_ok: "sm_ok base s \<Longrightarrow> sm_ok base (InvalidateCatalogSnapshotConditionally s)"
  by (simp add: InvalidateCatalogSnapshotConditionally_def invalidate_catalog_ok)

lemma catalog_safe:
  assumes "\<not> ctx_recovery c"
  shows "sm_safe base (\<lambda>_. True) (GetNonHistoricCatalogSnapshot c refresh) (\<lambda>p s. usable base s p)"
proof (rule safe_Inr)
  fix s0 assume ok0: "sm_ok base s0"
  define s where "s = (if CatalogSnapshot s0 \<noteq> None \<and> refresh then InvalidateCatalogSnapshot s0 else s0)"
  have ok: "sm_ok base s" using ok0 by (simp add: s_def invalidate_catalog_ok)
  have run: "GetNonHistoricCatalogSnapshot c refresh s0 = (case CatalogSnapshot s of
           Some p \<Rightarrow> (Inr p, s)
         | None \<Rightarrow> sm_bind (take_snapshot c CatalogSnapshotData) (\<lambda>p s. (Inr p, heap_add p (s\<lparr>CatalogSnapshot := Some p\<rparr>))) s)"
    by (simp only: GetNonHistoricCatalogSnapshot_def s_def Let_def)
  show "\<exists>p s'. GetNonHistoricCatalogSnapshot c refresh s0 = (Inr p, s') \<and> sm_ok base s' \<and> usable base s' p"
  proof (cases "CatalogSnapshot s")
    case (Some p)
    have "count (heap_nodes (RegisteredSnapshots s)) p = 1" using refs_ok_catalog(2) [OF _ Some] ok by (simp add: sm_ok_def)
    then have "p \<in># heap_nodes (RegisteredSnapshots s)" by (simp flip: count_greater_zero_iff)
    then have "usable base s p" using ok by (intro in_use_usable) (simp_all add: in_use_def)
    then show ?thesis using run Some ok by simp
  next
    case None
    obtain s1 where take: "take_snapshot c CatalogSnapshotData s = (Inr CatalogSnapshotData, s1)" "sm_ok base s1" "usable base s1 CatalogSnapshotData"
        "CatalogSnapshot s1 = None"
      by (rule take_ok [OF ok, of CatalogSnapshotData c]) (use assms None in auto)
    let ?t = "s1\<lparr>CatalogSnapshot := Some CatalogSnapshotData\<rparr>"
    have prot: "protects base ?t CatalogSnapshotData" using take(3) by (simp add: usable_def protects_def my_xmin_def)
    have "xmin_ok base ?t" by (rule xmin_ok_frame [of base s1]) (use take(2) in \<open>auto simp: sm_ok_def in_use_def\<close>)
    then have "xmin_ok base (heap_add CatalogSnapshotData ?t)" by (rule xmin_ok_add [OF _ prot])
    moreover have counts: "pinned (heap_add CatalogSnapshotData ?t) = pinned s1" "held (heap_add CatalogSnapshotData ?t) = held s1" by (rule count_cong; simp)+
    have zero: "held s1 CatalogSnapshotData = 0" by (rule static_ok [OF take(2)]) simp
    have "refs_ok (heap_add CatalogSnapshotData ?t)"
      using take(2,4) counts zero by (simp add: sm_ok_def refs_ok_def obj_ok_def ptrs_ok_def heap_ok_def)
    ultimately show ?thesis using run None take prot by (simp add: sm_bind_def usable_def sm_ok_def) (simp add: protects_def my_xmin_def)
  qed
qed

section \<open>Transaction snapshots\<close>

text \<open>The isolation level is fixed once the transaction has a snapshot: \<^verbatim>\<open>check_XactIsoLevel\<close> refuses to change it.\<close>

definition iso_kept :: "snap_ctx \<Rightarrow> snapmgr \<Rightarrow> bool" where
  "iso_kept c s \<longleftrightarrow> (firstSnapshotSet s \<longrightarrow> IsolationUsesXactSnapshot c = (FirstXactSnapshot s \<noteq> None))"

lemma set_current_ok:
  assumes "sm_ok base s" "FirstXactSnapshot s = None"
  shows "sm_ok base (s\<lparr>CurrentSnapshot := Some CurrentSnapshotData, firstSnapshotSet := b\<rparr>)"
proof -
  let ?s = "s\<lparr>CurrentSnapshot := Some CurrentSnapshotData, firstSnapshotSet := b\<rparr>"
  have counts: "pinned ?s = pinned s" "held ?s = held s" by (rule count_cong; simp)+
  have "xmin_ok base ?s" by (rule xmin_ok_frame [of base s]) (use assms in \<open>auto simp: sm_ok_def in_use_def\<close>)
  then show ?thesis using assms counts by (simp add: sm_ok_def refs_ok_def obj_ok_def heap_ok_def ptrs_ok_def)
qed

lemma usable_cong:
  "snap_mem s' = snap_mem s \<Longrightarrow> sm_array s' = sm_array s \<Longrightarrow> sm_backend s' = sm_backend s \<Longrightarrow> usable base s' p = usable base s p"
  by (simp add: usable_def protects_def my_xmin_def)

lemma save_xact_ok:
  assumes ok: "sm_ok base s" and p: "usable base s p" and none: "FirstXactSnapshot s = None"
  shows "\<exists>q s'. sm_bind (save_xact_snapshot p) (\<lambda>q s. (Inr q, s\<lparr>firstSnapshotSet := True\<rparr>)) s = (Inr q, s') \<and> sm_ok base s' \<and> usable base s' q"
proof -
  obtain d q where copy: "CopySnapshot p s = (Inr q, with_copy d s)" "sm_ok base (with_copy d s)" "usable base (with_copy d s) q"
      "is_alloc q" "held (with_copy d s) q = 0"
    by (rule copy_ok [OF ok p])
  let ?c = "with_copy d s"
  let ?t = "(upd_obj q (\<lambda>ob. ob\<lparr>regd_count := regd_count ob + 1\<rparr>) (?c\<lparr>CurrentSnapshot := Some q, FirstXactSnapshot := Some q\<rparr>))\<lparr>firstSnapshotSet := True\<rparr>"
  have fields: "FirstXactSnapshot ?c = None" using none by (simp add: with_copy_def)
  obtain ob where ob: "snap_mem ?c q = Some ob" using copy(3) by (auto simp: usable_def)
  have "regd_count ob = 0" using copy(2,5) ob by (auto simp: sm_ok_def refs_ok_def obj_ok_def)
  then have one: "map_option regd_count (snap_mem ?t q) = Some 1" using ob by simp
  have "sm_ok base (if map_option regd_count (snap_mem ?t q) = Some 1 then heap_add q ?t else ?t)"
    using fields copy(2) by (intro hold_ok [OF copy(2,3,4)]) (auto simp: held_def sm_ok_def refs_ok_def ptrs_ok_def)
  then have "sm_ok base (heap_add q ?t)" using one by simp
  moreover have "sm_bind (save_xact_snapshot p) (\<lambda>q s. (Inr q, s\<lparr>firstSnapshotSet := True\<rparr>)) s = (Inr q, heap_add q ?t)"
    by (simp add: sm_bind_def save_xact_snapshot_def copy(1) heap_add_def)
  moreover have "mem_xmin (snap_mem (heap_add q ?t)) q = mem_xmin (snap_mem ?c) q" by (simp add: ob mem_xmin_def)
  then have "usable base (heap_add q ?t) q" using copy(3) by (simp add: usable_def protects_def my_xmin_def)
  ultimately show ?thesis by blast
qed

lemma transaction_snapshot_safe:
  assumes "\<not> ctx_recovery c"
  shows "sm_safe base (iso_kept c) (GetTransactionSnapshot c) (\<lambda>p s. usable base s p)"
  unfolding sm_safe_def
proof (intro allI impI)
  fix s0 assume asm: "sm_ok base s0 \<and> iso_kept c s0"
  let ?s = "InvalidateCatalogSnapshot s0"
  have ok: "sm_ok base ?s" using asm invalidate_catalog_ok by blast
  obtain s1 where take: "take_snapshot c CurrentSnapshotData ?s = (Inr CurrentSnapshotData, s1)" "sm_ok base s1" "usable base s1 CurrentSnapshotData"
      "FirstXactSnapshot s1 = FirstXactSnapshot s0" "firstSnapshotSet s1 = firstSnapshotSet s0"
    by (rule take_ok [OF ok, of CurrentSnapshotData c]) (use assms in auto)
  have none: "\<not> firstSnapshotSet s0 \<Longrightarrow> FirstXactSnapshot s0 = None" using asm by (simp add: sm_ok_def refs_ok_def ptrs_ok_def)
  have cur: "CurrentSnapshot s0 = FirstXactSnapshot s0" if "firstSnapshotSet s0" "FirstXactSnapshot s0 \<noteq> None"
    using asm that by (auto simp: sm_ok_def refs_ok_def ptrs_ok_def)
  have in_heap: "p \<in> in_use s0" if "FirstXactSnapshot s0 = Some p" for p
  proof -
    have "count (heap_nodes (RegisteredSnapshots s0)) p = 1" using asm that by (simp add: sm_ok_def refs_ok_def heap_ok_def held_def)
    then show ?thesis by (simp add: in_use_def flip: count_greater_zero_iff)
  qed
  consider (parallel) "\<not> firstSnapshotSet s0" "ctx_parallel c" | (save) "\<not> firstSnapshotSet s0" "\<not> ctx_parallel c" "IsolationUsesXactSnapshot c"
    | (first) "\<not> firstSnapshotSet s0" "\<not> ctx_parallel c" "\<not> IsolationUsesXactSnapshot c"
    | (again) "firstSnapshotSet s0" "IsolationUsesXactSnapshot c" | (fresh) "firstSnapshotSet s0" "\<not> IsolationUsesXactSnapshot c" by blast
  then show "case GetTransactionSnapshot c s0 of (Inl e, s') \<Rightarrow> sm_ok base s' \<and> e \<noteq> BadSnapshot | (Inr p, s') \<Rightarrow> sm_ok base s' \<and> usable base s' p"
  proof cases
    case parallel
    then show ?thesis using ok by (simp add: GetTransactionSnapshot_def)
  next
    case save
    obtain q s' where "sm_bind (save_xact_snapshot CurrentSnapshotData) (\<lambda>q s. (Inr q, s\<lparr>firstSnapshotSet := True\<rparr>)) s1 = (Inr q, s')"
        "sm_ok base s'" "usable base s' q"
      using save_xact_ok [OF take(2,3)] none save(1) take(4) by auto
    then show ?thesis using save take(1) by (simp add: GetTransactionSnapshot_def Let_def sm_bind_def)
  next
    case first
    have "sm_ok base (s1\<lparr>CurrentSnapshot := Some CurrentSnapshotData, firstSnapshotSet := True\<rparr>)"
      using set_current_ok [OF take(2)] none first(1) take(4) by simp
    moreover have "usable base (s1\<lparr>CurrentSnapshot := Some CurrentSnapshotData, firstSnapshotSet := True\<rparr>) CurrentSnapshotData"
      using take(3) by (simp add: usable_def protects_def my_xmin_def)
    ultimately show ?thesis using first take(1) by (simp add: GetTransactionSnapshot_def Let_def sm_bind_def)
  next
    case again
    then obtain p where p: "FirstXactSnapshot s0 = Some p" using asm by (auto simp: iso_kept_def)
    then have "usable base s0 p" using in_use_usable in_heap asm by blast
    then show ?thesis using again asm cur p by (simp add: GetTransactionSnapshot_def)
  next
    case fresh
    then have "FirstXactSnapshot s1 = None" using asm take(4) by (simp add: iso_kept_def)
    then have "sm_ok base (s1\<lparr>CurrentSnapshot := Some CurrentSnapshotData, firstSnapshotSet := firstSnapshotSet s1\<rparr>)"
      by (rule set_current_ok [OF take(2)])
    moreover have "usable base (s1\<lparr>CurrentSnapshot := Some CurrentSnapshotData\<rparr>) CurrentSnapshotData"
      using take(3) by (simp add: usable_def protects_def my_xmin_def)
    ultimately show ?thesis using fresh take(1) by (simp add: GetTransactionSnapshot_def sm_bind_def)
  qed
qed

lemma latest_snapshot_safe:
  assumes "\<not> ctx_recovery c"
  shows "sm_safe base (iso_kept c) (GetLatestSnapshot c) (\<lambda>p s. usable base s p)"
  unfolding sm_safe_def
proof (intro allI impI)
  fix s assume asm: "sm_ok base s \<and> iso_kept c s"
  then have ok: "sm_ok base s" by simp
  obtain s1 where take: "take_snapshot c SecondarySnapshotData s = (Inr SecondarySnapshotData, s1)" "sm_ok base s1" "usable base s1 SecondarySnapshotData"
    by (rule take_ok [OF ok, of SecondarySnapshotData c]) (use assms ok in \<open>auto simp: sm_ok_def refs_ok_def ptrs_ok_def\<close>)
  let ?s = "s1\<lparr>SecondarySnapshot := Some SecondarySnapshotData\<rparr>"
  have counts: "pinned ?s = pinned s1" "held ?s = held s1" by (rule count_cong; simp)+
  have "xmin_ok base ?s" by (rule xmin_ok_frame [of base s1]) (use take(2) in \<open>auto simp: sm_ok_def in_use_def\<close>)
  then have "sm_ok base ?s" using take(2) counts by (simp add: sm_ok_def refs_ok_def obj_ok_def heap_ok_def ptrs_ok_def)
  moreover have "usable base ?s SecondarySnapshotData" using take(3) by (simp add: usable_def protects_def my_xmin_def)
  ultimately show "case GetLatestSnapshot c s of (Inl e, s') \<Rightarrow> sm_ok base s' \<and> e \<noteq> BadSnapshot | (Inr p, s') \<Rightarrow> sm_ok base s' \<and> usable base s' p"
    using asm take(1) transaction_snapshot_safe [OF assms, of base] by (simp add: GetLatestSnapshot_def sm_bind_def sm_safe_def)
qed

end
