(* ===== verification/Snapmgr_Refs.thy ===== *)
theory Snapmgr_Refs
  imports Snapmgr_Ops
begin

text \<open>The operations on references: the stack of active snapshots, registrations, the ends of transactions, and workers.\<close>

section \<open>Command ids\<close>

lemma set_curcid_ok:
  assumes "sm_ok base s"
  shows "sm_ok base (set_curcid cid p s)"
proof (cases p)
  case (Some q)
  let ?s = "upd_obj q (\<lambda>ob. ob\<lparr>obj_data := (obj_data ob)\<lparr>curcid := cid\<rparr>\<rparr>) s"
  have counts: "pinned ?s = pinned s" "held ?s = held s" by (rule count_cong; simp)+
  have "xmin_ok base ?s" by (rule xmin_ok_frame [of base s]) (use assms in \<open>auto simp: sm_ok_def in_use_def mem_xmin_upd\<close>)
  moreover have "obj_ok ?s r" for r using assms counts by (auto simp: sm_ok_def refs_ok_def obj_ok_def)
  ultimately show ?thesis using assms counts Some by (simp add: sm_ok_def refs_ok_def heap_ok_def ptrs_ok_def set_curcid_def)
qed (use assms in \<open>simp add: set_curcid_def\<close>)

lemma set_command_id_ok: "sm_ok base s \<Longrightarrow> sm_ok base (SnapshotSetCommandId cid s)"
  by (simp add: SnapshotSetCommandId_def set_curcid_ok)

lemma active_in_use: "(p, l) \<in> set (ActiveSnapshot s) \<Longrightarrow> p \<in> in_use s"
  by (force simp: in_use_def)

lemma update_command_id_safe: "sm_safe base (\<lambda>s. ActiveSnapshot s \<noteq> []) (UpdateActiveSnapshotCommandId c) (\<lambda>_ _. True)"
  unfolding sm_safe_def
proof (intro allI impI)
  fix s assume asm: "sm_ok base s \<and> ActiveSnapshot s \<noteq> []"
  then obtain p l as where act: "ActiveSnapshot s = (p, l) # as" by (metis list.exhaust surj_pair)
  have "usable base s p" using asm act by (intro in_use_usable active_in_use [of p l]) simp_all
  then obtain ob where "snap_mem s p = Some ob" by (auto simp: usable_def)
  then show "case UpdateActiveSnapshotCommandId c s of (Inl e, s') \<Rightarrow> sm_ok base s' \<and> e \<noteq> BadSnapshot | (Inr _, s') \<Rightarrow> sm_ok base s' \<and> True"
    using asm act by (simp add: UpdateActiveSnapshotCommandId_def set_curcid_ok)
qed

section \<open>Active snapshots\<close>

lemma push_safe: "sm_safe base (\<lambda>s. usable base s p) (PushActiveSnapshot c p) (\<lambda>_ _. True)"
proof (rule safe_Inr)
  fix s assume ok: "sm_ok base s" and p: "usable base s p"
  obtain ob where ob: "snap_mem s p = Some ob" using p by (auto simp: usable_def)
  have copied: "copied ob = is_alloc p" using ok ob by (simp add: sm_ok_def refs_ok_def obj_ok_def)
  show "\<exists>a s'. PushActiveSnapshot c p s = (Inr a, s') \<and> sm_ok base s' \<and> True"
  proof (cases "CurrentSnapshot s = Some p \<or> SecondarySnapshot s = Some p \<or> \<not> copied ob")
    case True
    obtain d q where copy: "CopySnapshot p s = (Inr q, with_copy d s)" "sm_ok base (with_copy d s)" "usable base (with_copy d s) q" "is_alloc q"
      by (rule copy_ok [OF ok p])
    show ?thesis using push_ok [OF copy(2,3,4), of "ctx_level c"] True ob copy(1) by (simp add: PushActiveSnapshot_def sm_bind_def)
  next
    case False
    then have "is_alloc p" using copied by simp
    then show ?thesis using push_ok [OF ok p, of "ctx_level c"] False ob by (simp add: PushActiveSnapshot_def sm_bind_def)
  qed
qed

lemma push_copied_safe: "sm_safe base (\<lambda>s. usable base s p) (PushCopiedSnapshot c p) (\<lambda>_ _. True)"
  unfolding PushCopiedSnapshot_def
proof (rule safe_bind)
  show "sm_safe base (\<lambda>s. usable base s p) (CopySnapshot p) (\<lambda>q s. usable base s q)"
    by (rule safe_Inr) (metis copy_ok)
qed (rule push_safe)

lemma pop_safe: "sm_safe base (\<lambda>s. ActiveSnapshot s \<noteq> []) PopActiveSnapshot (\<lambda>_ _. True)"
proof (rule safe_Inr)
  fix s assume ok: "sm_ok base s" and "ActiveSnapshot s \<noteq> []"
  then obtain p l as where act: "ActiveSnapshot s = (p, l) # as" by (metis list.exhaust surj_pair)
  obtain s1 where "drop_active p s = (Inr (), s1)" "sm_ok base (s1\<lparr>ActiveSnapshot := as\<rparr>)" by (rule drop_ok [OF ok act])
  then show "\<exists>a s'. PopActiveSnapshot s = (Inr a, s') \<and> sm_ok base s' \<and> True"
    using act xmin_ok_reset by (simp add: PopActiveSnapshot_def sm_bind_def sm_ok_def)
qed

section \<open>Registrations\<close>

lemma register_safe:
  "sm_safe base (\<lambda>s. \<forall>p. snapshot = Some p \<longrightarrow> usable base s p) (RegisterSnapshotOnOwner snapshot)
     (\<lambda>r s. (r = None) = (snapshot = None))"
proof (rule safe_Inr)
  fix s assume ok: "sm_ok base s" and pre: "\<forall>p. snapshot = Some p \<longrightarrow> usable base s p"
  show "\<exists>a s'. RegisterSnapshotOnOwner snapshot s = (Inr a, s') \<and> sm_ok base s' \<and> (a = None) = (snapshot = None)"
  proof (cases snapshot)
    case (Some p)
    have p: "usable base s p" using pre Some by simp
    obtain ob where ob: "snap_mem s p = Some ob" using p by (auto simp: usable_def)
    have copied: "copied ob = is_alloc p" using ok ob by (simp add: sm_ok_def refs_ok_def obj_ok_def)
    obtain q t where t: "(if copied ob then sm_ret p else CopySnapshot p) s = (Inr q, t)" "sm_ok base t" "usable base t q" "is_alloc q"
    proof (cases "copied ob")
      case True
      then show thesis using that [of p s] ok p copied by (simp add: sm_ret_def)
    next
      case False
      then show thesis using that by (metis copy_ok [OF ok p])
    qed
    let ?t = "(upd_obj q (\<lambda>ob. ob\<lparr>regd_count := regd_count ob + 1\<rparr>) t)\<lparr>ownedSnapshots := q # ownedSnapshots t\<rparr>"
    have "sm_ok base (if map_option regd_count (snap_mem ?t q) = Some 1 then heap_add q ?t else ?t)"
      using t(2) by (intro hold_ok [OF t(2-4)]) (simp_all add: held_def sm_ok_def refs_ok_def ptrs_ok_def)
    moreover have "RegisterSnapshotOnOwner snapshot s = (Inr (Some q), if map_option regd_count (snap_mem ?t q) = Some 1 then heap_add q ?t else ?t)"
      by (simp only: RegisterSnapshotOnOwner_def sm_bind_def Let_def Some ob t(1) option.case prod.case sum.case)
    ultimately show ?thesis using Some by blast
  qed (use ok in \<open>simp add: RegisterSnapshotOnOwner_def\<close>)
qed

lemma in_heap_iff: "refs_ok s \<Longrightarrow> count (heap_nodes (RegisteredSnapshots s)) r = (if held s r > 0 \<or> CatalogSnapshot s = Some r then 1 else 0)"
  by (simp add: refs_ok_def heap_ok_def)

text \<open>A registration is given up: the count goes down, and the last one takes the object out of the heap.\<close>

lemma unregister_ok:
  assumes ok: "sm_ok base s" and own: "p \<in> set (ownedSnapshots s)" and ob: "snap_mem s p = Some ob"
  defines "t \<equiv> upd_obj p (\<lambda>ob. ob\<lparr>regd_count := regd_count ob - 1\<rparr>) (s\<lparr>ownedSnapshots := remove1 p (ownedSnapshots s)\<rparr>)"
  defines "s' \<equiv> if regd_count ob - 1 = 0 then heap_remove p t else t"
  shows "sm_ok base s'" "held s' p = regd_count ob - 1" "is_alloc p" "CatalogSnapshot s' \<noteq> Some p" "active_count ob = pinned s' p"
proof -
  have refs: "refs_ok s" and obj: "obj_ok s r" for r using ok by (simp_all add: sm_ok_def refs_ok_def)
  have owned: "count_list (ownedSnapshots s) p > 0" using own by (metis count_list_0_iff gr0I)
  then have heldp: "held s p > 0" "regd_count ob = held s p" "active_count ob = pinned s p"
    using obj [of p] ob by (auto simp: held_def obj_ok_def)
  then show alloc: "is_alloc p" using obj [of p] by (auto simp: obj_ok_def)
  then have cat: "CatalogSnapshot s \<noteq> Some p" using refs by (auto simp: refs_ok_def ptrs_ok_def)
  have count: "count_list (remove1 p xs) r = count_list xs r - (if r = p then 1 else 0)" for r xs
    by (induction xs) auto
  have counts: "held t r = held s r - (if r = p then 1 else 0)" "pinned t r = pinned s r" for r
    using owned by (auto simp: t_def held_def pinned_def count)
  have heap': "held s' = held t" "pinned s' = pinned t" by (simp_all add: s'_def count_cong [of "heap_remove p t" t])
  have xm: "mem_xmin (snap_mem t) r = mem_xmin (snap_mem s) r" for r by (simp add: t_def mem_xmin_upd)
  have "xmin_ok base t"
    by (rule xmin_ok_frame [of base s]) (use ok xm in \<open>auto simp: sm_ok_def in_use_def t_def\<close>)
  moreover have one: "count (heap_nodes (RegisteredSnapshots t)) p = 1" using in_heap_iff [OF refs] heldp by (simp add: t_def)
  ultimately have "xmin_ok base s'" by (simp add: s'_def xmin_ok_remove)
  moreover have "obj_ok s' r" for r
    using obj [of r] counts [of r] heap' heldp alloc ob by (cases "r = p") (auto simp: obj_ok_def s'_def t_def)
  moreover have "heap_ok s'"
    using in_heap_iff [OF refs] counts heap' heldp one heap_remove_nodes [of t p] cat by (auto simp: heap_ok_def s'_def t_def)
  ultimately show "sm_ok base s'" using refs by (simp add: sm_ok_def refs_ok_def ptrs_ok_def) (simp add: s'_def t_def)
  show "held s' p = regd_count ob - 1" "active_count ob = pinned s' p" using counts heap' heldp by simp_all
  show "CatalogSnapshot s' \<noteq> Some p" using cat by (simp add: s'_def t_def)
qed

lemma free_ok:
  assumes ok: "sm_ok base s" and p: "is_alloc p" "pinned s p = 0" "held s p = 0" "CatalogSnapshot s \<noteq> Some p"
  shows "sm_ok base (FreeSnapshot p s)"
proof -
  let ?s = "FreeSnapshot p s"
  have counts: "pinned ?s = pinned s" "held ?s = held s" by (rule count_cong; simp add: FreeSnapshot_def)+
  have out: "p \<notin> in_use s" using ok p by (intro not_in_use) (simp_all add: sm_ok_def)
  have "xmin_ok base ?s"
    by (rule xmin_ok_frame [of base s]) (use ok out in \<open>auto simp: sm_ok_def in_use_def FreeSnapshot_def mem_xmin_def\<close>)
  moreover have "obj_ok ?s r" for r
    using ok counts p by (cases "r = p") (auto simp: sm_ok_def refs_ok_def obj_ok_def FreeSnapshot_def)
  ultimately show ?thesis using ok counts by (simp add: sm_ok_def refs_ok_def heap_ok_def ptrs_ok_def) (simp add: FreeSnapshot_def)
qed

lemma unregister_safe: "sm_safe base (\<lambda>s. \<forall>p. snapshot = Some p \<longrightarrow> snap_mem s p \<noteq> None) (UnregisterSnapshotFromOwner snapshot) (\<lambda>_ _. True)"
  unfolding sm_safe_def
proof (intro allI impI)
  fix s assume asm: "sm_ok base s \<and> (\<forall>p. snapshot = Some p \<longrightarrow> snap_mem s p \<noteq> None)"
  show "case UnregisterSnapshotFromOwner snapshot s of (Inl e, s') \<Rightarrow> sm_ok base s' \<and> e \<noteq> BadSnapshot | (Inr _, s') \<Rightarrow> sm_ok base s' \<and> True"
  proof (cases "snapshot = None \<or> the snapshot \<notin> set (ownedSnapshots s)")
    case True
    then show ?thesis using asm by (auto simp: UnregisterSnapshotFromOwner_def split: option.split)
  next
    case False
    then obtain p where p: "snapshot = Some p" "p \<in> set (ownedSnapshots s)" by auto
    obtain ob where ob: "snap_mem s p = Some ob" using asm p by auto
    let ?t = "upd_obj p (\<lambda>ob. ob\<lparr>regd_count := regd_count ob - 1\<rparr>) (s\<lparr>ownedSnapshots := remove1 p (ownedSnapshots s)\<rparr>)"
    define s1 where "s1 = (if regd_count ob - 1 = 0 then heap_remove p ?t else ?t)"
    note rel = unregister_ok [OF conjunct1 [OF asm] p(2) ob, folded s1_def]
    have run: "UnregisterSnapshotFromOwner snapshot s
        = (Inr (), if regd_count ob - 1 = 0 \<and> active_count ob = 0 then SnapshotResetXmin (FreeSnapshot p s1) else s1)"
      unfolding s1_def using p ob by (simp only: UnregisterSnapshotFromOwner_def option.case Let_def if_False not_not simp_thms)
    show ?thesis
    proof (cases "regd_count ob - 1 = 0 \<and> active_count ob = 0")
      case True
      then have "sm_ok base (FreeSnapshot p s1)" using rel by (intro free_ok) simp_all
      then have "sm_ok base (SnapshotResetXmin (FreeSnapshot p s1))" using xmin_ok_reset by (simp add: sm_ok_def)
      then show ?thesis using run True by simp
    next
      case False
      then show ?thesis using run rel(1) by auto
    qed
  qed
qed

section \<open>Ends of transactions\<close>

lemma relabel_fst: "map fst (relabel level as) = map fst as"
  by (induction level as rule: relabel.induct) auto

lemma sub_commit_ok:
  assumes "sm_ok base s"
  shows "sm_ok base (AtSubCommit_Snapshot level s)"
proof -
  let ?s = "AtSubCommit_Snapshot level s"
  have counts: "pinned ?s = pinned s" "held ?s = held s" by (auto simp: pinned_def held_def AtSubCommit_Snapshot_def relabel_fst)
  have "fst ` set (relabel level (ActiveSnapshot s)) = fst ` set (ActiveSnapshot s)"
    using relabel_fst [of level "ActiveSnapshot s"] by (metis list.set_map)
  then have "in_use ?s = in_use s" by (simp add: in_use_def AtSubCommit_Snapshot_def)
  then have "xmin_ok base ?s"
    by - (rule xmin_ok_frame [of base s], use assms in \<open>auto simp: sm_ok_def AtSubCommit_Snapshot_def\<close>)
  then show ?thesis using assms counts
    by (simp add: sm_ok_def refs_ok_def obj_ok_def heap_ok_def ptrs_ok_def) (simp add: AtSubCommit_Snapshot_def)
qed

lemma forget_active_ok:
  "sm_ok base s \<Longrightarrow> \<exists>s'. forget_active level s = (Inr (), s') \<and> sm_ok base s' \<and> list_all (\<lambda>(_, l). l < level) (take 1 (ActiveSnapshot s'))"
proof (induction level s rule: forget_active.induct)
  case (1 level s)
  show ?case
  proof (cases "ActiveSnapshot s")
    case Nil
    then show ?thesis using 1(2) by (simp add: forget_active.simps [of level s])
  next
    case (Cons a rest)
    obtain p l where act: "ActiveSnapshot s = (p, l) # rest" using Cons by (cases a) simp
    obtain s1 where drop: "drop_active p s = (Inr (), s1)" "sm_ok base (s1\<lparr>ActiveSnapshot := rest\<rparr>)" by (rule drop_ok [OF 1(2) act])
    show ?thesis
    proof (cases "l \<ge> level")
      case True
      have "\<exists>s'. forget_active level (s1\<lparr>ActiveSnapshot := rest\<rparr>) = (Inr (), s') \<and> sm_ok base s' \<and> list_all (\<lambda>(_, l). l < level) (take 1 (ActiveSnapshot s'))"
        by (rule 1(1) [OF act refl True drop(1) [symmetric] refl drop(2)])
      then show ?thesis using True act drop(1) by (simp add: forget_active.simps [of level s])
    next
      case False
      then show ?thesis using 1(2) act by (simp add: forget_active.simps [of level s])
    qed
  qed
qed

lemma sub_abort_safe: "sm_safe base (\<lambda>_. True) (AtSubAbort_Snapshot level) (\<lambda>_ _. True)"
proof (rule safe_Inr)
  fix s assume "sm_ok base s"
  from forget_active_ok [OF this, of level] obtain s' where "forget_active level s = (Inr (), s')" "sm_ok base s'" by blast
  then show "\<exists>a s'. AtSubAbort_Snapshot level s = (Inr a, s') \<and> sm_ok base s' \<and> True"
    using xmin_ok_reset by (simp add: AtSubAbort_Snapshot_def sm_bind_def sm_ok_def)
qed

text \<open>At the end of a transaction nothing is in use any more. At a commit the advertised \<open>xmin\<close> has been cleared before.\<close>

lemma reset_xmin_from: "my_xmin (SnapshotResetXmin s) \<in> {my_xmin s, InvalidTransactionId} \<union> mem_xmin (snap_mem s) ` in_use s"
proof (cases "RegisteredSnapshots s")
  case (Some t)
  then have "payload t \<in> in_use s" using payload_in [of t] by (simp add: in_use_def)
  then show ?thesis using Some by (auto simp: SnapshotResetXmin_def pairingheap_first_def)
qed (simp add: SnapshotResetXmin_def pairingheap_first_def)

lemma invalidate_xmin_from:
  assumes "\<And>p. count (heap_nodes (RegisteredSnapshots s)) p \<le> 1"
  shows "my_xmin (InvalidateCatalogSnapshot s) \<in> {my_xmin s, InvalidTransactionId} \<union> mem_xmin (snap_mem s) ` in_use s"
proof (cases "CatalogSnapshot s")
  case (Some p)
  let ?s = "(heap_remove p s)\<lparr>CatalogSnapshot := None\<rparr>"
  have "in_use ?s \<subseteq> in_use s" using heap_remove_nodes [OF assms] by (auto simp: in_use_def dest: in_diffD)
  moreover have "my_xmin ?s = my_xmin s" by (simp add: my_xmin_def)
  ultimately show ?thesis using reset_xmin_from [of ?s] Some by (auto simp: InvalidateCatalogSnapshot_def)
qed (simp add: InvalidateCatalogSnapshot_def)

lemma end_of_xact_shape:
  assumes refs: "refs_ok s"
  defines "s' \<equiv> AtEOXact_Snapshot False s"
  shows "refs_ok s'" "in_use s' = {}" "RegisteredSnapshots s' = None" "sm_backend s' = sm_backend s"
    "procs_ok base (sm_array s') = procs_ok base (sm_array s)" "reached base (sm_array s') x = reached base (sm_array s) x"
    "pgprocnos (sm_array s') = pgprocnos (sm_array s)" "my_xmin s' \<in> {my_xmin s, InvalidTransactionId} \<union> mem_xmin (snap_mem s) ` in_use s"
proof -
  define s1 where "s1 = (case FirstXactSnapshot s of None \<Rightarrow> s | Some p \<Rightarrow> heap_remove p s)\<lparr>FirstXactSnapshot := None\<rparr>"
  define s2 where "s2 = InvalidateCatalogSnapshot s1"
  have s': "s' = s2\<lparr>ActiveSnapshot := [], RegisteredSnapshots := None, CurrentSnapshot := None, SecondarySnapshot := None,
      firstSnapshotSet := False, ownedSnapshots := [], snap_mem := (\<lambda>p. case p of Allocated _ \<Rightarrow> None | _ \<Rightarrow> snap_mem s2 p)\<rparr>"
    unfolding s'_def AtEOXact_Snapshot_def Let_def s2_def s1_def if_False by (rule refl)
  have one: "count (heap_nodes (RegisteredSnapshots s)) r \<le> 1" for r using in_heap_iff [OF refs] by simp
  have one1: "count (heap_nodes (RegisteredSnapshots s1)) r \<le> 1" for r
    using one [of r] heap_remove_nodes [OF one] by (auto simp: s1_def split: option.split)
  have "set_mset (heap_nodes (RegisteredSnapshots s1)) \<subseteq> set_mset (heap_nodes (RegisteredSnapshots s))"
    using heap_remove_nodes [OF one] by (auto simp: s1_def split: option.split dest: in_diffD)
  then have use1: "in_use s1 \<subseteq> in_use s" by (auto simp: in_use_def s1_def split: option.splits)
  have f1: "my_xmin s1 = my_xmin s" "snap_mem s1 = snap_mem s" by (simp_all add: s1_def my_xmin_def split: option.split)
  have "my_xmin s' = my_xmin s2" by (simp add: s' my_xmin_def)
  then show "my_xmin s' \<in> {my_xmin s, InvalidTransactionId} \<union> mem_xmin (snap_mem s) ` in_use s"
    using invalidate_xmin_from [OF one1] use1 f1 by (auto simp: s2_def)
  show "in_use s' = {}" "RegisteredSnapshots s' = None" by (simp_all add: in_use_def s')
  show "sm_backend s' = sm_backend s" "procs_ok base (sm_array s') = procs_ok base (sm_array s)"
    "reached base (sm_array s') x = reached base (sm_array s) x" "pgprocnos (sm_array s') = pgprocnos (sm_array s)"
    by (simp_all add: s' s2_def InvalidateCatalogSnapshot_def s1_def split: option.split)
  have fields: "snap_mem s2 = snap_mem s" "next_alloc s2 = next_alloc s" "CatalogSnapshot s2 = None" "FirstXactSnapshot s2 = None"
    by (simp_all add: s2_def s1_def split: option.split)
  have zero: "held s' r = 0" "pinned s' r = 0" for r by (simp_all add: held_def pinned_def s' fields)
  have "obj_ok s' r" for r
    using refs zero by (cases r) (auto simp: refs_ok_def obj_ok_def s' fields)
  then show "refs_ok s'" using zero by (simp add: refs_ok_def heap_ok_def ptrs_ok_def) (simp add: s' fields)
qed

lemma end_of_xact_ok:
  assumes ok: "sm_ok base s" and u: "u \<in> {s, set_my_xmin InvalidTransactionId s}"
  shows "sm_ok base (AtEOXact_Snapshot resetXmin u) \<and> in_use (AtEOXact_Snapshot resetXmin u) = {}
    \<and> (resetXmin \<longrightarrow> my_xmin (AtEOXact_Snapshot resetXmin u) = InvalidTransactionId)"
proof -
  have same: "refs_ok u" "in_use u = in_use s" "snap_mem u = snap_mem s" "my_xmin u \<in> {my_xmin s, InvalidTransactionId}"
      "reached base (sm_array u) = reached base (sm_array s)" "procs_ok base (sm_array u)" "MyProc (sm_backend u) \<in> set (pgprocnos (sm_array u))"
    using ok u by (auto simp: sm_ok_def xmin_ok_def)
  let ?e = "AtEOXact_Snapshot False u"
  note shape = end_of_xact_shape [OF same(1)]
  have "my_xmin ?e \<in> {my_xmin s, InvalidTransactionId} \<union> mem_xmin (snap_mem s) ` in_use s" using shape(8) same by auto
  then have "my_xmin ?e \<noteq> InvalidTransactionId \<longrightarrow> in_window base (my_xmin ?e) \<and> reached base (sm_array ?e) (my_xmin ?e)"
    using ok shape(6) same(5) by (auto simp: sm_ok_def xmin_ok_def protects_def)
  then have e: "xmin_ok base ?e"
    using shape same by (simp add: xmin_ok_def snap_heap.ordered_None)
  have reset: "AtEOXact_Snapshot True u = SnapshotResetXmin ?e" by (simp add: AtEOXact_Snapshot_def Let_def)
  have "ActiveSnapshot ?e = []" using shape(2) by (simp add: in_use_def)
  then have "my_xmin (SnapshotResetXmin ?e) = InvalidTransactionId" using shape(3) by (simp add: SnapshotResetXmin_def pairingheap_first_def)
  then show ?thesis using e xmin_ok_reset [OF e] shape(1,2) reset by (cases resetXmin) (simp_all add: sm_ok_def)
qed

section \<open>Workers\<close>

lemma restore_snapshot_ok: "sm_ok base s \<Longrightarrow> \<exists>q d. RestoreSnapshot ser s = (Inr q, with_copy d s) \<and> sm_ok base (with_copy d s)"
  using alloc_ok(1) by (auto simp: RestoreSnapshot_def with_copy_def Let_def)

lemma upd_current: "upd_obj p f (s\<lparr>CurrentSnapshot := q\<rparr>) = (upd_obj p f s)\<lparr>CurrentSnapshot := q\<rparr>"
  by (rule snapmgr.equality) simp_all

text \<open>A worker that has no snapshot in use takes over one that the leader holds. What it installs as its \<open>xmin\<close> is the \<open>xmin\<close> of that snapshot.\<close>

lemma unused_ok:
  assumes ok: "sm_ok base s" and none: "in_use s = {}" and p: "\<not> is_alloc p" "snap_mem s p = Some ob"
    and x: "in_window base (snap_xmin d)" "reached base (sm_array s) (snap_xmin d)"
  defines "t \<equiv> upd_obj p (\<lambda>ob. ob\<lparr>obj_data := d\<rparr>) s"
  shows "sm_ok base t" "MyProc v = MyProc (sm_backend s) \<Longrightarrow> sm_ok base ((set_my_xmin (snap_xmin d) t)\<lparr>sm_backend := v\<rparr>)
    \<and> usable base ((set_my_xmin (snap_xmin d) t)\<lparr>sm_backend := v\<rparr>) p"
proof -
  have counts: "pinned t = pinned s" "held t = held s" by (rule count_cong; simp add: t_def)+
  have "obj_ok t r" for r using ok counts by (auto simp: sm_ok_def refs_ok_def obj_ok_def t_def)
  then have refs: "refs_ok t" using ok counts by (simp add: sm_ok_def refs_ok_def heap_ok_def ptrs_ok_def) (simp add: t_def)
  have use: "in_use t = {}" using none by (simp add: in_use_def t_def)
  then have "xmin_ok base t" by - (rule xmin_ok_frame [of base s], use ok in \<open>auto simp: sm_ok_def t_def\<close>)
  then show "sm_ok base t" using refs by (simp add: sm_ok_def)
  assume v: "MyProc v = MyProc (sm_backend s)"
  let ?u = "(set_my_xmin (snap_xmin d) t)\<lparr>sm_backend := v\<rparr>"
  have my: "my_xmin ?u = snap_xmin d" using v by (simp add: my_xmin_def set_my_xmin_def Let_def t_def)
  have use': "in_use ?u = {}" using use by (simp add: in_use_def)
  have arr: "sm_array t = sm_array s" by (simp add: t_def)
  have "heap_nodes (RegisteredSnapshots t) = {#}" using use by (simp add: in_use_def)
  then have "RegisteredSnapshots t = None" by (simp add: pairingheap_is_empty_def flip: empty_nodes)
  then have xm: "xmin_ok base ?u"
    using \<open>xmin_ok base t\<close> my use' x arr v by (simp add: xmin_ok_def snap_heap.ordered_None t_def)
  have "pinned ?u = pinned t" "held ?u = held t" by (rule count_cong; simp)+
  then have "refs_ok ?u" using refs by (simp add: refs_ok_def obj_ok_def heap_ok_def ptrs_ok_def)
  moreover have "mem_xmin (snap_mem ?u) p = snap_xmin d" using p(2) by (simp add: t_def mem_xmin_def)
  then have "usable base ?u p" using x my window_valid [OF x(1)] arr p(2) by (simp add: usable_def protects_def) (simp add: t_def)
  ultimately show "sm_ok base ?u \<and> usable base ?u p" using xm by (simp add: sm_ok_def)
qed

lemma installed_safe:
  assumes ok: "sm_ok base u" and use: "usable base u CurrentSnapshotData"
    and fu: "FirstXactSnapshot u = None" "CurrentSnapshot u = Some CurrentSnapshotData"
  shows "case sm_bind (if IsolationUsesXactSnapshot c then save_xact_snapshot CurrentSnapshotData else sm_ret CurrentSnapshotData)
      (\<lambda>_ s. (Inr (), s\<lparr>firstSnapshotSet := True\<rparr>)) u of
    (Inl e, s') \<Rightarrow> sm_ok base s' \<and> e \<noteq> BadSnapshot | (Inr a, s') \<Rightarrow> sm_ok base s' \<and> True"
proof (cases "IsolationUsesXactSnapshot c")
  case True
  then show ?thesis using save_xact_ok [OF ok use fu(1)] by (auto simp: sm_bind_def split: sum.splits prod.splits)
next
  case False
  have "sm_ok base (u\<lparr>CurrentSnapshot := Some CurrentSnapshotData, firstSnapshotSet := True\<rparr>)" by (rule set_current_ok [OF ok fu(1)])
  moreover have "u\<lparr>CurrentSnapshot := Some CurrentSnapshotData, firstSnapshotSet := True\<rparr> = u\<lparr>firstSnapshotSet := True\<rparr>"
    using fu(2) by (metis snapmgr.surjective snapmgr.update_convs(3))
  ultimately show ?thesis using False by (simp add: sm_bind_def sm_ret_def)
qed

lemma restore_transaction_safe:
  assumes prim: "\<not> ctx_recovery c"
  shows "sm_safe base (\<lambda>s. ActiveSnapshot s = [] \<and> ownedSnapshots s = [] \<and> \<not> firstSnapshotSet s \<and> is_alloc src \<and> snap_mem s src \<noteq> None
      \<and> in_window base (mem_xmin (snap_mem s) src) \<and> reached base (sm_array s) (mem_xmin (snap_mem s) src))
    (RestoreTransactionSnapshot c src proc) (\<lambda>_ _. True)"
  unfolding sm_safe_def
proof (intro allI impI, elim conjE)
  fix s assume ok0: "sm_ok base s" and pre: "ActiveSnapshot s = []" "ownedSnapshots s = []" "\<not> firstSnapshotSet s" "is_alloc src" "snap_mem s src \<noteq> None"
    and x: "in_window base (mem_xmin (snap_mem s) src)" "reached base (sm_array s) (mem_xmin (snap_mem s) src)"
  let ?s = "InvalidateCatalogSnapshot s"
  have ok: "sm_ok base ?s" by (rule invalidate_catalog_ok [OF ok0])
  obtain s1 where take: "take_snapshot c CurrentSnapshotData ?s = (Inr CurrentSnapshotData, s1)" "sm_ok base s1"
      "CatalogSnapshot s1 = None" "FirstXactSnapshot s1 = FirstXactSnapshot s" "ActiveSnapshot s1 = []" "ownedSnapshots s1 = []"
      "\<forall>r. r \<noteq> CurrentSnapshotData \<longrightarrow> snap_mem s1 r = snap_mem s r" "\<forall>x. reached base (sm_array s1) x = reached base (sm_array s) x"
    by (rule take_ok [OF ok, of CurrentSnapshotData c]) (use prim pre in auto)
  have none: "FirstXactSnapshot s1 = None" using ok0 pre(3) take(4) by (auto simp: sm_ok_def refs_ok_def ptrs_ok_def)
  define t where "t = s1\<lparr>CurrentSnapshot := Some CurrentSnapshotData\<rparr>"
  have okt: "sm_ok base t" using set_current_ok [OF take(2) none, of "firstSnapshotSet s1"] by (simp add: t_def)
  have "held s1 r = 0" for r using none take(6) by (simp add: held_def)
  then have "heap_nodes (RegisteredSnapshots s1) = {#}"
    using take(2,3) by (intro multiset_eqI) (simp add: sm_ok_def refs_ok_def heap_ok_def)
  then have use: "in_use t = {}" using take(5) by (simp add: in_use_def t_def)
  obtain so where so: "snap_mem s src = Some so" using pre(5) by auto
  have src: "src \<noteq> CurrentSnapshotData" using pre(4) by auto
  obtain ob where ob: "snap_mem s1 CurrentSnapshotData = Some ob" using static_ok(1) [OF take(2), of CurrentSnapshotData] by auto
  define d where "d = (obj_data so)\<lparr>snapshot_type := snapshot_type (obj_data ob), curcid := curcid (obj_data ob), speculativeToken := speculativeToken (obj_data ob)\<rparr>"
  have xd: "in_window base (snap_xmin d)" "reached base (sm_array t) (snap_xmin d)" using x take(8) by (simp_all add: d_def so mem_xmin_def t_def)
  let ?t = "upd_obj CurrentSnapshotData (\<lambda>ob. ob\<lparr>obj_data := d\<rparr>) t"
  have obt: "snap_mem t CurrentSnapshotData = Some ob" using ob by (simp add: t_def)
  note unused = unused_ok [OF okt use _ obt xd]
  have run: "RestoreTransactionSnapshot c src proc s = (case ProcArrayInstallRestoredXmin (snap_xmin d) proc ?t of
      (False, s) \<Rightarrow> (Inl XminNotInstalled, s)
    | (True, s) \<Rightarrow> sm_bind (if IsolationUsesXactSnapshot c then save_xact_snapshot CurrentSnapshotData else sm_ret CurrentSnapshotData)
        (\<lambda>_ s. (Inr (), s\<lparr>firstSnapshotSet := True\<rparr>)) s)"
    using take(1,7) src so ob by (simp add: RestoreTransactionSnapshot_def sm_bind_def [of "take_snapshot _ _"] Let_def d_def [symmetric] t_def mem_xmin_def upd_current)
      (simp add: d_def upd_obj_def)
  have install: "ProcArrayInstallRestoredXmin (snap_xmin d) proc ?t \<in> {(False, ?t), (True, (set_my_xmin (snap_xmin d) ?t)\<lparr>sm_backend := (sm_backend t)\<lparr>TransactionXmin := snap_xmin d\<rparr>\<rparr>)}"
    by (simp add: ProcArrayInstallRestoredXmin_def Let_def)
  have first: "FirstXactSnapshot t = None" "CurrentSnapshot t = Some CurrentSnapshotData" using none by (simp_all add: t_def)
  from install show "case RestoreTransactionSnapshot c src proc s of (Inl e, s') \<Rightarrow> sm_ok base s' \<and> e \<noteq> BadSnapshot | (Inr a, s') \<Rightarrow> sm_ok base s' \<and> True"
  proof (elim insertE emptyE)
    assume "ProcArrayInstallRestoredXmin (snap_xmin d) proc ?t = (False, ?t)"
    then show ?thesis using run unused(1) by simp
  next
    let ?u = "(set_my_xmin (snap_xmin d) ?t)\<lparr>sm_backend := (sm_backend t)\<lparr>TransactionXmin := snap_xmin d\<rparr>\<rparr>"
    assume inst: "ProcArrayInstallRestoredXmin (snap_xmin d) proc ?t = (True, ?u)"
    have "sm_ok base ?u" "usable base ?u CurrentSnapshotData" using unused(2) by simp_all
    from installed_safe [OF this, of c] show ?thesis unfolding run inst prod.case bool.case using first by (cases "IsolationUsesXactSnapshot c") simp_all
  qed
qed

end
