(* ===== verification/Snapmgr_Main.thy ===== *)
theory Snapmgr_Main
  imports Snapmgr_Refs Varsup
begin

text \<open>
  The snapshot manager in use: which calls a backend makes, in what states the rest of the system lets it find the shared array, and
  what holds of every state it can get to.
\<close>

section \<open>Calls\<close>

text \<open>Where a caller has a snapshot from, and what it does with it. The code's callers take a snapshot and use it at once,
  as in \<^verbatim>\<open>PushActiveSnapshot(GetTransactionSnapshot())\<close>, or share one that is in use.\<close>

datatype snap_source = TransactionSource | LatestSource | CatalogSource bool | HeldSource snap_addr

datatype snap_use = LookOnly | PushUse | PushCopiedUse | RegisterUse

text \<open>At a commit \<^verbatim>\<open>ProcArrayEndTransaction\<close> has cleared the advertised \<open>xmin\<close> before \<^verbatim>\<open>AtEOXact_Snapshot\<close> is called without a reset.\<close>

datatype snap_op = Use snap_ctx snap_source snap_use | UpdateCommandId snap_ctx | SetCommandId CommandId | Pop | Unregister "snap_addr option"
  | InvalidateCatalog | InvalidateCatalogConditionally | SubCommit nat | SubAbort nat | EndOfXact bool
  | RestoreOp SnapshotData | RestoreXactOp snap_ctx snap_addr nat

fun get_snapshot_from :: "snap_ctx \<Rightarrow> snap_source \<Rightarrow> snap_addr sm" where
  "get_snapshot_from c TransactionSource = GetTransactionSnapshot c"
| "get_snapshot_from c LatestSource = GetLatestSnapshot c"
| "get_snapshot_from c (CatalogSource refresh) = GetNonHistoricCatalogSnapshot c refresh"
| "get_snapshot_from c (HeldSource p) = sm_ret p"

fun use_snapshot :: "snap_ctx \<Rightarrow> snap_use \<Rightarrow> snap_addr \<Rightarrow> unit sm" where
  "use_snapshot c LookOnly p = sm_ret ()"
| "use_snapshot c PushUse p = PushActiveSnapshot c p"
| "use_snapshot c PushCopiedUse p = PushCopiedSnapshot c p"
| "use_snapshot c RegisterUse p = sm_bind (RegisterSnapshotOnOwner (Some p)) (\<lambda>_. sm_ret ())"

definition sm_do :: "(snapmgr \<Rightarrow> snapmgr) \<Rightarrow> unit sm" where
  "sm_do f s = (Inr (), f s)"

fun run_op :: "snap_op \<Rightarrow> unit sm" where
  "run_op (Use c src u) = sm_bind (get_snapshot_from c src) (use_snapshot c u)"
| "run_op (UpdateCommandId c) = UpdateActiveSnapshotCommandId c"
| "run_op (SetCommandId cid) = sm_do (SnapshotSetCommandId cid)"
| "run_op Pop = PopActiveSnapshot"
| "run_op (Unregister p) = UnregisterSnapshotFromOwner p"
| "run_op InvalidateCatalog = sm_do InvalidateCatalogSnapshot"
| "run_op InvalidateCatalogConditionally = sm_do InvalidateCatalogSnapshotConditionally"
| "run_op (SubCommit level) = sm_do (AtSubCommit_Snapshot level)"
| "run_op (SubAbort level) = AtSubAbort_Snapshot level"
| "run_op (EndOfXact resetXmin) = sm_do (\<lambda>s. AtEOXact_Snapshot resetXmin (if resetXmin then s else set_my_xmin InvalidTransactionId s))"
| "run_op (RestoreOp ser) = sm_bind (RestoreSnapshot ser) (\<lambda>_. sm_ret ())"
| "run_op (RestoreXactOp c src proc) = RestoreTransactionSnapshot c src proc"

text \<open>What a caller must see to: what the code asserts, that the isolation level stays while there is a
  snapshot, and that a worker restores a snapshot that its leader took. The server is not in recovery.\<close>

fun op_allowed :: "TransactionId \<Rightarrow> snap_op \<Rightarrow> snapmgr \<Rightarrow> bool" where
  "op_allowed base (Use c src u) s \<longleftrightarrow> \<not> ctx_recovery c \<and>
     (case src of HeldSource p \<Rightarrow> p \<in> in_use s | CatalogSource _ \<Rightarrow> True | _ \<Rightarrow> iso_kept c s)"
| "op_allowed base (UpdateCommandId c) s \<longleftrightarrow> ActiveSnapshot s \<noteq> []"
| "op_allowed base Pop s \<longleftrightarrow> ActiveSnapshot s \<noteq> []"
| "op_allowed base (Unregister snapshot) s \<longleftrightarrow> (\<forall>p. snapshot = Some p \<longrightarrow> p \<in> in_use s)"
| "op_allowed base (RestoreXactOp c src proc) s \<longleftrightarrow> \<not> ctx_recovery c \<and> ActiveSnapshot s = [] \<and> ownedSnapshots s = [] \<and> \<not> firstSnapshotSet s
     \<and> is_alloc src \<and> snap_mem s src \<noteq> None \<and> in_window base (mem_xmin (snap_mem s) src) \<and> reached base (sm_array s) (mem_xmin (snap_mem s) src)"
| "op_allowed base _ s \<longleftrightarrow> True"

lemma safe_do: "(\<And>s. sm_ok base s \<Longrightarrow> sm_ok base (f s)) \<Longrightarrow> sm_safe base P (sm_do f) (\<lambda>_ _. True)"
  by (rule safe_Inr) (simp add: sm_do_def)

lemma safe_ret: "sm_safe base P (sm_ret a) (\<lambda>_ _. True)"
  by (rule safe_Inr) (simp add: sm_ret_def)

lemma get_safe: "\<not> ctx_recovery c \<Longrightarrow> sm_safe base (op_allowed base (Use c src u)) (get_snapshot_from c src) (\<lambda>p s. usable base s p)"
proof (cases src)
  case (HeldSource p)
  show ?thesis unfolding HeldSource by (rule safe_Inr) (simp add: sm_ret_def in_use_usable)
next
  case TransactionSource
  assume "\<not> ctx_recovery c"
  from transaction_snapshot_safe [OF this] show ?thesis unfolding TransactionSource get_snapshot_from.simps by (rule safe_pre) simp
next
  case LatestSource
  assume "\<not> ctx_recovery c"
  from latest_snapshot_safe [OF this] show ?thesis unfolding LatestSource get_snapshot_from.simps by (rule safe_pre) simp
next
  case (CatalogSource refresh)
  assume "\<not> ctx_recovery c"
  from catalog_safe [OF this] show ?thesis unfolding CatalogSource get_snapshot_from.simps by (rule safe_pre) simp
qed

lemma use_safe: "sm_safe base (\<lambda>s. usable base s p) (use_snapshot c u p) (\<lambda>_ _. True)"
proof (cases u)
  case RegisterUse
  have "sm_safe base (\<lambda>s. usable base s p) (RegisterSnapshotOnOwner (Some p)) (\<lambda>r s. (r = None) = (Some p = None))"
    by (rule safe_pre [OF register_safe]) simp
  then show ?thesis unfolding RegisterUse use_snapshot.simps by (rule safe_bind) (rule safe_ret)
qed (simp_all add: safe_ret push_safe push_copied_safe)

text \<open>Every call keeps the invariant, and none uses a null or freed snapshot.\<close>

lemma op_safe: "sm_safe base (op_allowed base op) (run_op op) (\<lambda>_ _. True)"
proof (cases op)
  case (Use c src u)
  show ?thesis
  proof (cases "ctx_recovery c")
    case True
    then show ?thesis by (simp add: Use sm_safe_def)
  next
    case False
    then show ?thesis unfolding Use run_op.simps by (intro safe_bind [OF get_safe] use_safe)
  qed
next
  case (Unregister snapshot)
  show ?thesis unfolding Unregister run_op.simps by (rule safe_pre [OF unregister_safe]) (use in_use_usable in \<open>auto simp: usable_def\<close>)
next
  case (RestoreOp ser)
  have "sm_safe base (op_allowed base op) (RestoreSnapshot ser) (\<lambda>_ _. True)" by (rule safe_Inr) (use restore_snapshot_ok in blast)
  then show ?thesis unfolding RestoreOp run_op.simps by (rule safe_bind) (rule safe_ret)
next
  case (RestoreXactOp c src proc)
  show ?thesis
  proof (cases "ctx_recovery c")
    case False
    show ?thesis unfolding RestoreXactOp run_op.simps by (rule safe_pre [OF restore_transaction_safe [OF False]]) simp
  qed (simp add: RestoreXactOp sm_safe_def)
next
  case (EndOfXact resetXmin)
  show ?thesis unfolding EndOfXact run_op.simps by (rule safe_do) (use end_of_xact_ok in \<open>simp split: if_split\<close>)
next
  case (UpdateCommandId c)
  show ?thesis unfolding UpdateCommandId run_op.simps by (rule safe_pre [OF update_command_id_safe]) simp
next
  case Pop
  show ?thesis unfolding Pop run_op.simps by (rule safe_pre [OF pop_safe]) simp
next
  case (SubAbort level)
  show ?thesis unfolding SubAbort run_op.simps by (rule safe_pre [OF sub_abort_safe]) simp
qed (simp_all add: safe_do set_command_id_ok invalidate_catalog_ok invalidate_catalog_conditionally_ok sub_commit_ok)

section \<open>Reachable states\<close>

definition backend_start :: "TransactionId \<Rightarrow> snapmgr \<Rightarrow> bool" where
  "backend_start base s \<longleftrightarrow>
     (\<forall>p. case snap_mem s p of None \<Rightarrow> is_alloc p | Some ob \<Rightarrow> \<not> is_alloc p \<and> active_count ob = 0 \<and> regd_count ob = 0 \<and> \<not> copied ob)
     \<and> CurrentSnapshot s = None \<and> SecondarySnapshot s = None \<and> CatalogSnapshot s = None \<and> ActiveSnapshot s = [] \<and> RegisteredSnapshots s = None
     \<and> \<not> firstSnapshotSet s \<and> FirstXactSnapshot s = None \<and> ownedSnapshots s = []
     \<and> procs_ok base (sm_array s) \<and> MyProc (sm_backend s) \<in> set (pgprocnos (sm_array s)) \<and> my_xmin s = InvalidTransactionId"

text \<open>What other backends, and this one when it takes an id, may do to the array meanwhile: ids that run were running before or are newer
  than the last completed one, which only advances. The advertised \<open>xmin\<close> of this backend is its own.\<close>

definition running_id :: "procarray \<Rightarrow> nat \<Rightarrow> bool" where
  "running_id a p \<longleftrightarrow> p \<in> set (pgprocnos a) \<and> \<not> skipped a p \<and> TransactionIdIsNormal (pgx_xid (allPgXact a p))"

definition others_move :: "TransactionId \<Rightarrow> nat \<Rightarrow> procarray \<Rightarrow> procarray \<Rightarrow> bool" where
  "others_move base me a a' \<longleftrightarrow> procs_ok base a' \<and> me \<in> set (pgprocnos a') \<and> pgx_xmin (allPgXact a' me) = pgx_xmin (allPgXact a me)
     \<and> uint (TransactionIdAdvance (latestCompletedXid a) - base) \<le> uint (TransactionIdAdvance (latestCompletedXid a') - base)
     \<and> (\<forall>p. running_id a' p \<longrightarrow> (\<exists>q. running_id a q \<and> pgx_xid (allPgXact a q) = pgx_xid (allPgXact a' p))
          \<or> uint (TransactionIdAdvance (latestCompletedXid a) - base) \<le> uint (pgx_xid (allPgXact a' p) - base))"

inductive snap_session :: "TransactionId \<Rightarrow> snapmgr \<Rightarrow> bool" for base where
  sn_start: "backend_start base s \<Longrightarrow> snap_session base s"
| sn_op: "snap_session base s \<Longrightarrow> op_allowed base op s \<Longrightarrow> run_op op s = (r, s') \<Longrightarrow> snap_session base s'"
| sn_others: "snap_session base s \<Longrightarrow> others_move base (MyProc (sm_backend s)) (sm_array s) a \<Longrightarrow> snap_session base (s\<lparr>sm_array := a\<rparr>)"

lemma start_ok:
  assumes "backend_start base s"
  shows "sm_ok base s"
proof -
  have zero: "pinned s p = 0" "held s p = 0" for p using assms by (simp_all add: backend_start_def pinned_def held_def)
  have "obj_ok s p" for p using assms zero by (auto simp: backend_start_def obj_ok_def split: option.splits dest: spec [of _ p])
  then have "refs_ok s" using assms zero by (simp add: refs_ok_def heap_ok_def ptrs_ok_def backend_start_def)
  moreover have "xmin_ok base s" using assms by (simp add: xmin_ok_def backend_start_def in_use_def snap_heap.ordered_None)
  ultimately show ?thesis by (simp add: sm_ok_def)
qed

lemma reached_move:
  assumes "others_move base me a a'" "reached base a x"
  shows "reached base a' x"
proof -
  have "uint (x - base) \<le> uint (pgx_xid (allPgXact a' p) - base)" if run: "running_id a' p" for p
  proof -
    have "\<forall>p. running_id a' p \<longrightarrow> (\<exists>q. running_id a q \<and> pgx_xid (allPgXact a q) = pgx_xid (allPgXact a' p))
        \<or> uint (TransactionIdAdvance (latestCompletedXid a) - base) \<le> uint (pgx_xid (allPgXact a' p) - base)"
      using assms(1) by (simp add: others_move_def)
    then consider q where "running_id a q" "pgx_xid (allPgXact a q) = pgx_xid (allPgXact a' p)"
      | "uint (TransactionIdAdvance (latestCompletedXid a) - base) \<le> uint (pgx_xid (allPgXact a' p) - base)"
      using run by blast
    then show ?thesis
    proof cases
      case 1
      have "uint (x - base) \<le> uint (pgx_xid (allPgXact a q) - base)" using assms(2) 1(1) by (simp add: reached_def running_id_def)
      then show ?thesis using 1(2) by simp
    qed (use assms(2) in \<open>simp add: reached_def\<close>)
  qed
  then show ?thesis using assms by (auto simp: others_move_def reached_def running_id_def)
qed

lemma others_ok:
  assumes ok: "sm_ok base s" and move: "others_move base (MyProc (sm_backend s)) (sm_array s) a"
  shows "sm_ok base (s\<lparr>sm_array := a\<rparr>)"
proof -
  let ?s = "s\<lparr>sm_array := a\<rparr>"
  have my: "my_xmin ?s = my_xmin s" using move by (simp add: my_xmin_def others_move_def)
  have use: "in_use ?s = in_use s" by (simp add: in_use_def)
  have "protects base ?s p" if "protects base s p" for p
    using that my reached_move [OF move] by (simp add: protects_def)
  then have "xmin_ok base ?s" using ok my use move reached_move [OF move] by (simp add: sm_ok_def xmin_ok_def others_move_def)
  moreover have "pinned ?s = pinned s" "held ?s = held s" by (rule count_cong; simp)+
  then have "refs_ok ?s" using ok by (simp add: sm_ok_def refs_ok_def obj_ok_def heap_ok_def ptrs_ok_def)
  ultimately show ?thesis by (simp add: sm_ok_def)
qed

lemma session_ok: "snap_session base s \<Longrightarrow> sm_ok base s"
proof (induction rule: snap_session.induct)
  case (sn_op s op r s')
  then show ?case using safe_apply [OF op_safe] by blast
qed (simp_all add: start_ok others_ok)

text \<open>Taking a snapshot in another backend, and the end of a transaction of another backend, are such moves.\<close>

lemma snapshot_moves:
  assumes "GetSnapshotData False age cid snap w a = (snap', w', a')" "MyProc w \<noteq> me" "procs_ok base a" "me \<in> set (pgprocnos a)"
  shows "others_move base me a a'"
proof -
  have a': "a' = (if TransactionIdIsValid (pgx_xmin (allPgXact a (MyProc w))) then a
      else a\<lparr>allPgXact := (allPgXact a)(MyProc w := (allPgXact a (MyProc w))\<lparr>pgx_xmin := snap_xmin snap'\<rparr>)\<rparr>)"
    by (rule get_snapshot_state [OF assms(1)])
  have same: "running_id a' p = running_id a p" "pgx_xid (allPgXact a' p) = pgx_xid (allPgXact a p)" for p
    by (simp_all add: a' running_id_def skipped_def)
  have "\<forall>p. running_id a' p \<longrightarrow> (\<exists>q. running_id a q \<and> pgx_xid (allPgXact a q) = pgx_xid (allPgXact a' p))" using same by auto
  then show ?thesis using assms(2-4) by (auto simp: others_move_def a')
qed

text \<open>Once no snapshot is active, the reset makes the advertised \<open>xmin\<close> that of the oldest snapshot in use.\<close>

definition oldest_advertised :: "snapmgr \<Rightarrow> bool" where
  "oldest_advertised s \<longleftrightarrow>
     (if in_use s = {} then my_xmin s = InvalidTransactionId
      else \<exists>p\<in>in_use s. my_xmin s = mem_xmin (snap_mem s) p \<and> (\<forall>q\<in>in_use s. \<not> TransactionIdPrecedes (mem_xmin (snap_mem s) q) (mem_xmin (snap_mem s) p)))"

lemma reset_exact:
  assumes "xmin_ok base s" "ActiveSnapshot s = []"
  shows "oldest_advertised (SnapshotResetXmin s)"
  using assms(1)
proof (cases rule: reset_cases)
  case idle
  then have "in_use (set_my_xmin InvalidTransactionId s) = {}" by (simp add: in_use_def)
  then show ?thesis using idle(2) by (simp add: oldest_advertised_def)
next
  case (oldest p)
  have win: "in_window base (mem_xmin (snap_mem s) q)" "my_xmin s \<noteq> InvalidTransactionId" "xkey base (snap_mem s) q \<ge> uint (my_xmin s - base)" if "q \<in> in_use s" for q
    using assms(1) that by (auto simp: xmin_ok_def protects_def)
  then have wmy: "in_window base (my_xmin s)" using assms(1) oldest(2) by (auto simp: xmin_ok_def)
  have "my_xmin (SnapshotResetXmin s) = mem_xmin (snap_mem s) p"
  proof (cases "TransactionIdPrecedes (my_xmin s) (mem_xmin (snap_mem s) p)")
    case False
    then have "uint (my_xmin s - base) = uint (mem_xmin (snap_mem s) p - base)"
      using win(3) [OF oldest(2)] window_precedes [OF wmy win(1) [OF oldest(2)]] by simp
    then have "my_xmin s = mem_xmin (snap_mem s) p" by (simp only: window_eq)
    then show ?thesis using False oldest(4) by simp
  qed (simp add: oldest(4))
  moreover have "\<not> TransactionIdPrecedes (mem_xmin (snap_mem s) q) (mem_xmin (snap_mem s) p)" if "q \<in> in_use s" for q
    using window_precedes [OF win(1) [OF that] win(1) [OF oldest(2)]] oldest(3) that by fastforce
  ultimately show ?thesis using oldest(2) by (auto simp: oldest_advertised_def)
qed (use assms(2) in simp)

section \<open>Properties\<close>

text \<open>C14: snapshots in use are protected. In every state a backend gets to by the calls of the snapshot manager, with other
  backends starting and ending transactions in between, every active or registered snapshot is in memory, the \<open>xmin\<close>
  that the backend advertises is not newer than the \<open>xmin\<close> of the snapshot, and no other backend computes a vacuum horizon
  newer than it, unless its flags or its choice of database exclude this backend.\<close>

theorem snapshots_protected:
  assumes "snap_session base s" "p \<in> in_use s"
  shows "snap_mem s p \<noteq> None \<and> TransactionIdIsNormal (my_xmin s) \<and> \<not> TransactionIdPrecedes (mem_xmin (snap_mem s) p) (my_xmin s) \<and>
    (\<forall>age rel flags w. horizon_window base age (sm_array s) \<and>
       matters w (sm_array s) flags (case rel of None \<Rightarrow> True | Some (relisshared, _) \<Rightarrow> relisshared) (MyProc (sm_backend s)) \<longrightarrow>
       \<not> TransactionIdPrecedes (mem_xmin (snap_mem s) p) (GetOldestXmin False age rel flags w (sm_array s)))"
proof -
  let ?x = "mem_xmin (snap_mem s) p"
  have ok: "sm_ok base s" by (rule session_ok [OF assms(1)])
  have use: "snap_mem s p \<noteq> None" "protects base s p" using in_use_usable [OF ok assms(2)] by (simp_all add: usable_def)
  have my: "in_window base (my_xmin s)" "in_window base ?x" "uint (my_xmin s - base) \<le> uint (?x - base)"
    using ok use(2) by (auto simp: sm_ok_def xmin_ok_def protects_def)
  have me: "MyProc (sm_backend s) \<in> set (pgprocnos (sm_array s))" "my_xmin s \<in> horizon_ids (sm_array s) (MyProc (sm_backend s))"
    using ok my(1) by (simp_all add: sm_ok_def xmin_ok_def horizon_ids_def my_xmin_def in_window_def)
  have "\<not> TransactionIdPrecedes ?x (GetOldestXmin False age rel flags w (sm_array s))"
    if "horizon_window base age (sm_array s)" "matters w (sm_array s) flags (case rel of None \<Rightarrow> True | Some (b, _) \<Rightarrow> b) (MyProc (sm_backend s))"
    for age rel flags w
  proof -
    let ?r = "GetOldestXmin False age rel flags w (sm_array s)"
    have "in_window base ?r" "uint (?r - base) \<le> uint (my_xmin s - base)"
      using oldest_xmin_bound [OF that(1), of rel flags w] me that(2) by blast+
    then show ?thesis using window_precedes [OF my(2)] my(3) by fastforce
  qed
  then show ?thesis using use(1) my window_precedes [OF my(2,1)] by (auto simp: in_window_def)
qed

text \<open>The backend that runs 100 begins a query.\<close>

definition snapmgr0 :: snapmgr where
  "snapmgr0 = \<lparr>snap_mem = (\<lambda>p. if is_alloc p then None else Some \<lparr>obj_data = snap0, active_count = 0, regd_count = 0, copied = False\<rparr>),
     next_alloc = 0, CurrentSnapshot = None, SecondarySnapshot = None, CatalogSnapshot = None, ActiveSnapshot = [], RegisteredSnapshots = None,
     firstSnapshotSet = False, FirstXactSnapshot = None, ownedSnapshots = [], sm_backend = vars0, sm_array = pa0\<rparr>"

definition ctx0 :: snap_ctx where
  "ctx0 = \<lparr>ctx_recovery = False, ctx_age = 0, ctx_cid = 0, ctx_iso = 1, ctx_parallel = False, ctx_level = 1\<rparr>"

definition pa1 :: procarray where
  "pa1 = pa0\<lparr>allPgXact := (allPgXact pa0)(0 := (allPgXact pa0 0)\<lparr>pgx_xmin := 100\<rparr>)\<rparr>"

lemma snapmgr0_data: "GetSnapshotData False 0 0 snap0 vars0 pa0 = (snap1, vars1, pa1)"
proof -
  obtain s' where data: "GetSnapshotData False 0 0 snap0 vars0 pa0 = (snap1, vars1, s')"
    using pa0_snapshot by (metis prod.collapse)
  then show ?thesis using get_snapshot_state [OF data] by (simp add: pa1_def vars0_def pa0_def pgx0_def snap1_def valid_iff)
qed

lemma snapmgr0_start: "backend_start 100 snapmgr0"
  using pa0_ok(1) by (simp add: backend_start_def snapmgr0_def my_xmin_def vars0_def pa0_def pgx0_def special_xids)

definition pushed0 :: snapmgr where
  "pushed0 = snd (run_op (Use ctx0 TransactionSource PushUse) snapmgr0)"

lemma pushed0_run: "run_op (Use ctx0 TransactionSource PushUse) snapmgr0 = (Inr (), pushed0)"
  "ActiveSnapshot pushed0 = [(Allocated 0, 1)]" "mem_xmin (snap_mem pushed0) (Allocated 0) = 100" "sm_array pushed0 = pa1" "sm_backend pushed0 = vars1"
  "snap_mem pushed0 (Allocated 0) = Some \<lparr>obj_data = copy_data snap1, active_count = 1, regd_count = 0, copied = True\<rparr>"
  "RegisteredSnapshots pushed0 = None" "ownedSnapshots pushed0 = []" "FirstXactSnapshot pushed0 = None" "CatalogSnapshot pushed0 = None"
proof -
  let ?s = "snapmgr0\<lparr>snap_mem := (snap_mem snapmgr0)(CurrentSnapshotData \<mapsto> \<lparr>obj_data = snap1, active_count = 0, regd_count = 0, copied = False\<rparr>),
      sm_backend := vars1, sm_array := pa1\<rparr>"
  have take: "take_snapshot ctx0 CurrentSnapshotData snapmgr0 = (Inr CurrentSnapshotData, ?s)"
    using snapmgr0_data by (simp add: take_snapshot_def snapmgr0_def ctx0_def)
  have "InvalidateCatalogSnapshot snapmgr0 = snapmgr0" by (simp add: InvalidateCatalogSnapshot_def snapmgr0_def)
  then have get: "GetTransactionSnapshot ctx0 snapmgr0 = (Inr CurrentSnapshotData, ?s\<lparr>CurrentSnapshot := Some CurrentSnapshotData, firstSnapshotSet := True\<rparr>)"
    using take by (simp add: GetTransactionSnapshot_def sm_bind_def Let_def) (simp add: ctx0_def snapmgr0_def IsolationUsesXactSnapshot_def)
  have d: "snap_xmin (copy_data snap1) = 100" by (simp add: copy_data_def snap1_def)
  show "run_op (Use ctx0 TransactionSource PushUse) snapmgr0 = (Inr (), pushed0)" "ActiveSnapshot pushed0 = [(Allocated 0, 1)]"
    "mem_xmin (snap_mem pushed0) (Allocated 0) = 100" "sm_array pushed0 = pa1" "sm_backend pushed0 = vars1"
    "snap_mem pushed0 (Allocated 0) = Some \<lparr>obj_data = copy_data snap1, active_count = 1, regd_count = 0, copied = True\<rparr>"
    "RegisteredSnapshots pushed0 = None" "ownedSnapshots pushed0 = []" "FirstXactSnapshot pushed0 = None" "CatalogSnapshot pushed0 = None"
    using get d by (simp_all add: pushed0_def sm_bind_def PushActiveSnapshot_def CopySnapshot_def Let_def)
      (simp_all add: snapmgr0_def ctx0_def mem_xmin_def)
qed

lemma pushed0_session: "snap_session 100 pushed0"
  by (rule sn_op [OF sn_start [OF snapmgr0_start] _ pushed0_run(1)]) (simp add: ctx0_def iso_kept_def snapmgr0_def)

theorem snapshots_protected_witness:
  "\<not> TransactionIdPrecedes (mem_xmin (snap_mem pushed0) (Allocated 0)) (GetOldestXmin False 0 None 0 vars0 (sm_array pushed0))"
proof -
  have "Allocated 0 \<in> in_use pushed0" by (simp add: in_use_def pushed0_run)
  moreover have "horizon_window 100 0 pa1"
    by (auto simp: horizon_window_def pa1_def pa0_def pgx0_def proc0_def horizon_ids_def in_window_def normal_iff valid_iff
        TransactionIdAdvance_def special_xids)
  moreover have "matters vars0 pa1 0 True 0" by (simp add: matters_def flag_def pa1_def pa0_def pgx0_def)
  moreover have "MyProc vars1 = 0" by (simp add: vars1_def vars0_def)
  ultimately show ?thesis using snapshots_protected [OF pushed0_session, of "Allocated 0"] pushed0_run(4,5) by (metis option.case(1))
qed

text \<open>C15: references. In every reachable state the counts of every snapshot in memory are the number of its entries in the
  stack of active snapshots and the number of its registrations, every snapshot referred to is in memory, the heap holds exactly the
  registered snapshots and the catalog snapshot, each once, and no call finds a null or freed snapshot.\<close>

theorem snapshot_references_exact:
  assumes "snap_session base s"
  shows "(\<forall>p ob. snap_mem s p = Some ob \<longrightarrow> active_count ob = count_list (map fst (ActiveSnapshot s)) p \<and>
        regd_count ob = count_list (ownedSnapshots s) p + (if FirstXactSnapshot s = Some p then 1 else 0)) \<and>
     (\<forall>p. p \<in> fst ` set (ActiveSnapshot s) \<union> set (ownedSnapshots s) \<union> set_option (FirstXactSnapshot s) \<longrightarrow> snap_mem s p \<noteq> None) \<and>
     heap_nodes (RegisteredSnapshots s) = mset_set (set (ownedSnapshots s) \<union> set_option (FirstXactSnapshot s) \<union> set_option (CatalogSnapshot s)) \<and>
     (\<forall>op. op_allowed base op s \<longrightarrow> fst (run_op op s) \<noteq> Inl BadSnapshot)"
proof -
  have ok: "sm_ok base s" by (rule session_ok [OF assms])
  then have refs: "refs_ok s" and obj: "obj_ok s p" for p by (simp_all add: sm_ok_def refs_ok_def)
  have pos: "0 < count_list xs p \<longleftrightarrow> p \<in> set xs" for xs :: "snap_addr list" and p by (metis count_list_0_iff gr_zeroI less_irrefl)
  have held: "held s p > 0 \<longleftrightarrow> p \<in> set (ownedSnapshots s) \<union> set_option (FirstXactSnapshot s)" for p
    using pos by (auto simp: held_def)
  have pin: "pinned s p > 0 \<longleftrightarrow> p \<in> fst ` set (ActiveSnapshot s)" for p
    by (simp add: pinned_def pos)
  have "heap_nodes (RegisteredSnapshots s) = mset_set (set (ownedSnapshots s) \<union> set_option (FirstXactSnapshot s) \<union> set_option (CatalogSnapshot s))"
  proof (rule multiset_eqI)
    fix p
    have fin: "finite (set (ownedSnapshots s) \<union> set_option (FirstXactSnapshot s) \<union> set_option (CatalogSnapshot s))" by simp
    show "count (heap_nodes (RegisteredSnapshots s)) p
        = count (mset_set (set (ownedSnapshots s) \<union> set_option (FirstXactSnapshot s) \<union> set_option (CatalogSnapshot s))) p"
      unfolding in_heap_iff [OF refs] count_mset_set'  held by (auto simp: fin)
  qed
  moreover have "fst (run_op op s) \<noteq> Inl BadSnapshot" if "op_allowed base op s" for op
    using safe_apply [OF op_safe ok that prod.collapse [symmetric]] by blast
  moreover have "snap_mem s p \<noteq> None" if "p \<in> fst ` set (ActiveSnapshot s) \<union> set (ownedSnapshots s) \<union> set_option (FirstXactSnapshot s)" for p
    using that obj [of p] held [of p] pin [of p] by (auto simp: obj_ok_def)
  moreover have "active_count ob = count_list (map fst (ActiveSnapshot s)) p \<and>
      regd_count ob = count_list (ownedSnapshots s) p + (if FirstXactSnapshot s = Some p then 1 else 0)" if "snap_mem s p = Some ob" for p ob
    using obj [of p] that by (simp add: obj_ok_def pinned_def held_def)
  ultimately show ?thesis by blast
qed

theorem snapshot_references_exact_witness: "fst (run_op Pop pushed0) \<noteq> Inl BadSnapshot"
proof -
  have "op_allowed 100 Pop pushed0" by (simp add: pushed0_run)
  then show ?thesis using snapshot_references_exact [OF pushed0_session] by blast
qed

text \<open>At a commit the resource owner has released the registered snapshots, so that the heap holds no more than the transaction snapshot
  and the catalog snapshot, and taking these out advertises nothing again.\<close>

lemma end_of_commit_xmin:
  assumes refs: "refs_ok s" and none: "ownedSnapshots s = []" "my_xmin s = InvalidTransactionId"
  shows "my_xmin (AtEOXact_Snapshot False s) = InvalidTransactionId"
proof -
  define s1 where "s1 = (case FirstXactSnapshot s of None \<Rightarrow> s | Some p \<Rightarrow> heap_remove p s)\<lparr>FirstXactSnapshot := None\<rparr>"
  have nodes: "count (heap_nodes (RegisteredSnapshots s)) r = (if FirstXactSnapshot s = Some r \<or> CatalogSnapshot s = Some r then 1 else 0)" for r
    using in_heap_iff [OF refs, of r] none(1) by (simp add: held_def)
  have nodes1: "count (heap_nodes (RegisteredSnapshots s1)) r \<le> (if CatalogSnapshot s = Some r then 1 else 0)" for r
    using nodes [of r] heap_remove_nodes [of s] nodes
    by (cases "FirstXactSnapshot s") (auto simp: s1_def split: if_splits)
  have same: "my_xmin s1 = my_xmin s" "CatalogSnapshot s1 = CatalogSnapshot s"
    by (simp_all add: s1_def my_xmin_def split: option.split)
  have "my_xmin (InvalidateCatalogSnapshot s1) = InvalidTransactionId"
  proof (cases "CatalogSnapshot s")
    case None
    then show ?thesis using same none(2) by (simp add: InvalidateCatalogSnapshot_def)
  next
    case (Some p)
    let ?t = "(heap_remove p s1)\<lparr>CatalogSnapshot := None\<rparr>"
    have one: "count (heap_nodes (RegisteredSnapshots s1)) r \<le> (if r = p then 1 else 0)" for r using nodes1 [of r] Some by auto
    have "count (heap_nodes (RegisteredSnapshots s1)) p \<le> 1" using one [of p] by simp
    then have "heap_nodes (RegisteredSnapshots ?t) = heap_nodes (RegisteredSnapshots s1) - {#p#}" by (simp add: heap_remove_nodes)
    moreover have "count (heap_nodes (RegisteredSnapshots s1) - {#p#}) r = 0" for r using one [of r] by auto
    ultimately have "heap_nodes (RegisteredSnapshots ?t) = {#}" by (simp add: multiset_eq_iff)
    then have "RegisteredSnapshots ?t = None" using payload_in by (metis empty_iff heap_nodes_simps(2) not_None_eq set_mset_empty)
    moreover have "my_xmin ?t = InvalidTransactionId" using same none(2) by (simp add: my_xmin_def)
    ultimately have "my_xmin (SnapshotResetXmin ?t) = InvalidTransactionId"
      by (simp add: SnapshotResetXmin_def pairingheap_first_def)
    then show ?thesis using Some same by (simp add: InvalidateCatalogSnapshot_def)
  qed
  then show ?thesis
    by (simp add: AtEOXact_Snapshot_def Let_def s1_def [symmetric] my_xmin_def)
qed

text \<open>C16: the horizon is released. When a backend pops its last active snapshot, the \<open>xmin\<close> it advertises becomes that of the oldest
  snapshot that is still registered, or none if there is none. At the end of a transaction nothing is in use or advertised: with the reset,
  whatever was in use; and without it, as at a commit, when \<^verbatim>\<open>ProcArrayEndTransaction\<close> has cleared the advertised \<open>xmin\<close> and the
  resource owner has released the registered snapshots.\<close>

theorem horizon_released:
  assumes "snap_session base s"
  shows "(\<forall>r s'. ActiveSnapshot s \<noteq> [] \<and> PopActiveSnapshot s = (r, s') \<and> ActiveSnapshot s' = [] \<longrightarrow> r = Inr () \<and> oldest_advertised s') \<and>
    in_use (AtEOXact_Snapshot True s) = {} \<and> my_xmin (AtEOXact_Snapshot True s) = InvalidTransactionId \<and>
    in_use (AtEOXact_Snapshot False (set_my_xmin InvalidTransactionId s)) = {} \<and>
    (ownedSnapshots s = [] \<longrightarrow> my_xmin (AtEOXact_Snapshot False (set_my_xmin InvalidTransactionId s)) = InvalidTransactionId)"
proof -
  have ok: "sm_ok base s" by (rule session_ok [OF assms])
  have "r = Inr () \<and> oldest_advertised s'" if pop: "ActiveSnapshot s \<noteq> []" "PopActiveSnapshot s = (r, s')" "ActiveSnapshot s' = []" for r s'
  proof -
    obtain p l as where act: "ActiveSnapshot s = (p, l) # as" using pop(1) by (metis list.exhaust surj_pair)
    obtain s1 where drop: "drop_active p s = (Inr (), s1)" "sm_ok base (s1\<lparr>ActiveSnapshot := as\<rparr>)" by (rule drop_ok [OF ok act])
    then have s': "s' = SnapshotResetXmin (s1\<lparr>ActiveSnapshot := as\<rparr>)" "r = Inr ()"
      using pop(2) act by (simp_all add: PopActiveSnapshot_def sm_bind_def)
    then show ?thesis using reset_exact [of base "s1\<lparr>ActiveSnapshot := as\<rparr>"] drop(2) pop(3) by (simp add: sm_ok_def)
  qed
  moreover have "refs_ok (set_my_xmin InvalidTransactionId s)" using ok by (simp add: sm_ok_def)
  ultimately show ?thesis
    using end_of_xact_ok [OF ok, of s True] end_of_xact_ok [OF ok, of "set_my_xmin InvalidTransactionId s" False]
      end_of_commit_xmin [of "set_my_xmin InvalidTransactionId s"] by auto
qed

text \<open>The snapshot that was pushed is registered as well: popping it keeps its \<open>xmin\<close> advertised; popped without that, nothing is.\<close>

definition registered0 :: snapmgr where
  "registered0 = snd (run_op (Use ctx0 (HeldSource (Allocated 0)) RegisterUse) pushed0)"

lemma registered0_run:
  "run_op (Use ctx0 (HeldSource (Allocated 0)) RegisterUse) pushed0 = (Inr (), registered0)"
  "ActiveSnapshot registered0 = [(Allocated 0, 1)]" "RegisteredSnapshots registered0 = Some (PNode (Allocated 0) [])"
  "snap_mem registered0 (Allocated 0) = Some \<lparr>obj_data = copy_data snap1, active_count = 1, regd_count = 1, copied = True\<rparr>"
  by (simp_all add: registered0_def sm_bind_def sm_ret_def RegisterSnapshotOnOwner_def Let_def pushed0_run upd_obj_def heap_add_def
      pairingheap_add_def)

lemma registered0_session: "snap_session 100 registered0"
  by (rule sn_op [OF pushed0_session _ registered0_run(1)]) (simp add: ctx0_def in_use_def pushed0_run)

theorem horizon_released_witness:
  "my_xmin (snd (PopActiveSnapshot registered0)) = 100 \<and> my_xmin (snd (PopActiveSnapshot pushed0)) = InvalidTransactionId \<and>
   my_xmin pushed0 = 100 \<and> my_xmin (AtEOXact_Snapshot True pushed0) = InvalidTransactionId \<and>
   my_xmin (AtEOXact_Snapshot False (set_my_xmin InvalidTransactionId pushed0)) = InvalidTransactionId"
proof -
  have pop: "ActiveSnapshot (snd (PopActiveSnapshot s)) = []" "RegisteredSnapshots (snd (PopActiveSnapshot s)) = RegisteredSnapshots s"
    if "s \<in> {pushed0, registered0}" for s
    using that pushed0_run(2,6) registered0_run(2,4)
    by (auto simp: PopActiveSnapshot_def sm_bind_def drop_active_def Let_def FreeSnapshot_def)
  have use: "in_use (snd (PopActiveSnapshot pushed0)) = {}" "in_use (snd (PopActiveSnapshot registered0)) = {Allocated 0}"
    using pop pushed0_run(7) registered0_run(3) by (simp_all add: in_use_def)
  have adv: "oldest_advertised (snd (PopActiveSnapshot pushed0))" "oldest_advertised (snd (PopActiveSnapshot registered0))"
    using horizon_released [OF pushed0_session] horizon_released [OF registered0_session] pop pushed0_run(2) registered0_run(2)
    by (metis insertCI list.distinct(1) prod.collapse)+
  have "mem_xmin (snap_mem (snd (PopActiveSnapshot registered0))) (Allocated 0) = 100"
    using registered0_run(2,4) by (simp add: PopActiveSnapshot_def sm_bind_def drop_active_def Let_def upd_obj_def mem_xmin_def copy_data_def snap1_def)
  then have "my_xmin (snd (PopActiveSnapshot registered0)) = 100" using adv(2) use(2) by (simp add: oldest_advertised_def)
  moreover have "my_xmin pushed0 = 100" by (simp add: my_xmin_def pushed0_run pa1_def vars1_def vars0_def)
  ultimately show ?thesis
    using horizon_released [OF pushed0_session] pushed0_run(8) adv(1) use(1) by (simp add: oldest_advertised_def)
qed

text \<open>Handing on. A copied snapshot, and one that a parallel worker restores from the serialized form, sees the same transactions
  in progress as the original, whether or not subtransactions overflowed and whether or not it was taken during recovery, and has its
  command id and bounds.\<close>

theorem handed_snapshot_same:
  "XidInMVCCSnapshot topm xid (copy_data snap) = XidInMVCCSnapshot topm xid snap \<and>
   curcid (copy_data snap) = curcid snap \<and> snap_xmin (copy_data snap) = snap_xmin snap \<and> snap_xmax (copy_data snap) = snap_xmax snap \<and>
   (\<exists>q s' ob. RestoreSnapshot (SerializeSnapshot snap) s = (Inr q, s') \<and> snap_mem s' q = Some ob \<and> copied ob \<and>
      XidInMVCCSnapshot topm xid (obj_data ob) = XidInMVCCSnapshot topm xid snap \<and>
      curcid (obj_data ob) = curcid snap \<and> snap_xmin (obj_data ob) = snap_xmin snap \<and> snap_xmax (obj_data ob) = snap_xmax snap)"
  by (auto simp: copy_data_def SerializeSnapshot_def RestoreSnapshot_def Let_def XidInMVCCSnapshot_def)

text \<open>The 64-bit form of the horizon: the epoch of a recent id is that of the next id, or the one before it if the id is the larger one.\<close>

theorem full_recent_xmin:
  assumes "XidFromFullTransactionId f = x" "uint (fxid_value f) \<le> uint (fxid_value nxt)" "uint (fxid_value nxt) - uint (fxid_value f) < 4294967296"
  shows "GetFullRecentGlobalXmin nxt x = f"
proof -
  let ?N = "uint (fxid_value nxt)" and ?F = "uint (fxid_value f)" and ?e = "EpochFromFullTransactionId nxt" and ?y = "XidFromFullTransactionId nxt"
  have low: "uint x = ?F mod 4294967296" "uint ?y = ?N mod 4294967296" using uint_xid_full [of f] uint_xid_full [of nxt] assms(1) by simp_all
  have wrap: "?N div 4294967296 = ?F div 4294967296 + (if ?N mod 4294967296 < ?F mod 4294967296 then 1 else 0)"
  proof (cases "?F = ?N")
    case False
    then show ?thesis using assms(2,3) by (intro div_step) simp_all
  qed simp
  have "0 \<le> ?F div 4294967296" by (simp add: pos_imp_zdiv_nonneg_iff)
  then have "uint (if x > ?y then ?e - 1 else ?e) = ?F div 4294967296"
    using wrap low epoch_of_full [of nxt] by (auto simp: word_less_def uint_sub_if' split: if_splits)
  then have "FullTransactionIdFromEpochAndXid (if x > ?y then ?e - 1 else ?e) x = f"
    by (intro full_eqI) (simp add: full_of_epoch low)
  then show ?thesis by (simp add: GetFullRecentGlobalXmin_def Let_def)
qed

end
