(* ===== verification/Lock.thy ===== *)
theory Lock
  imports Prelude
begin

text \<open>
  The shared lock table of \<^verbatim>\<open>backend/storage/lmgr/lock.c\<close> and the wait queues of
  \<^verbatim>\<open>backend/storage/lmgr/proc.c\<close>. A \<^verbatim>\<open>PGPROC *\<close> is the index of the process, a
  \<^verbatim>\<open>PROCLOCK *\<close> the process of the entry within the list of its lock object (the proclock
  hash table is keyed by the two together), and the lock hash table a map from lock tags to
  lock objects. The count arrays are functions from lock modes; all modes in use are between 1
  and 8. Every section below runs under the partition lock of the tag, so each operation is one
  transition of the shared state; the arguments \<open>room\<close> say whether the shared hash tables have
  a free entry. Every \<^verbatim>\<open>elog\<close> of the sections is a value of \<open>lock_error\<close>.
\<close>

section \<open>Lock modes and the conflict table\<close>

type_synonym LOCKMODE = nat
type_synonym LOCKMASK = "32 word"
type_synonym proc = nat

definition LOCKBIT_ON :: "LOCKMODE \<Rightarrow> LOCKMASK" where
  "LOCKBIT_ON lockmode = push_bit lockmode 1"

definition LOCKBIT_OFF :: "LOCKMODE \<Rightarrow> LOCKMASK" where
  "LOCKBIT_OFF lockmode = NOT (push_bit lockmode 1)"

abbreviation AccessShareLock :: LOCKMODE where "AccessShareLock \<equiv> 1"
abbreviation RowShareLock :: LOCKMODE where "RowShareLock \<equiv> 2"
abbreviation RowExclusiveLock :: LOCKMODE where "RowExclusiveLock \<equiv> 3"
abbreviation ShareUpdateExclusiveLock :: LOCKMODE where "ShareUpdateExclusiveLock \<equiv> 4"
abbreviation ShareLock :: LOCKMODE where "ShareLock \<equiv> 5"
abbreviation ShareRowExclusiveLock :: LOCKMODE where "ShareRowExclusiveLock \<equiv> 6"
abbreviation ExclusiveLock :: LOCKMODE where "ExclusiveLock \<equiv> 7"
abbreviation AccessExclusiveLock :: LOCKMODE where "AccessExclusiveLock \<equiv> 8"

definition LockConflicts :: "LOCKMASK list" where
  "LockConflicts = [
    0,
    LOCKBIT_ON AccessExclusiveLock,
    LOCKBIT_ON ExclusiveLock OR LOCKBIT_ON AccessExclusiveLock,
    LOCKBIT_ON ShareLock OR LOCKBIT_ON ShareRowExclusiveLock OR
      LOCKBIT_ON ExclusiveLock OR LOCKBIT_ON AccessExclusiveLock,
    LOCKBIT_ON ShareUpdateExclusiveLock OR
      LOCKBIT_ON ShareLock OR LOCKBIT_ON ShareRowExclusiveLock OR
      LOCKBIT_ON ExclusiveLock OR LOCKBIT_ON AccessExclusiveLock,
    LOCKBIT_ON RowExclusiveLock OR LOCKBIT_ON ShareUpdateExclusiveLock OR
      LOCKBIT_ON ShareRowExclusiveLock OR
      LOCKBIT_ON ExclusiveLock OR LOCKBIT_ON AccessExclusiveLock,
    LOCKBIT_ON RowExclusiveLock OR LOCKBIT_ON ShareUpdateExclusiveLock OR
      LOCKBIT_ON ShareLock OR LOCKBIT_ON ShareRowExclusiveLock OR
      LOCKBIT_ON ExclusiveLock OR LOCKBIT_ON AccessExclusiveLock,
    LOCKBIT_ON RowShareLock OR
      LOCKBIT_ON RowExclusiveLock OR LOCKBIT_ON ShareUpdateExclusiveLock OR
      LOCKBIT_ON ShareLock OR LOCKBIT_ON ShareRowExclusiveLock OR
      LOCKBIT_ON ExclusiveLock OR LOCKBIT_ON AccessExclusiveLock,
    LOCKBIT_ON AccessShareLock OR LOCKBIT_ON RowShareLock OR
      LOCKBIT_ON RowExclusiveLock OR LOCKBIT_ON ShareUpdateExclusiveLock OR
      LOCKBIT_ON ShareLock OR LOCKBIT_ON ShareRowExclusiveLock OR
      LOCKBIT_ON ExclusiveLock OR LOCKBIT_ON AccessExclusiveLock]"

abbreviation numLockModes :: nat where "numLockModes \<equiv> 8"

text \<open>The entry of the conflict table: modes outside the table are refused before it is read.\<close>

definition conflictTab :: "LOCKMODE \<Rightarrow> LOCKMASK" where
  "conflictTab lockmode = (if lockmode \<le> numLockModes then LockConflicts ! lockmode else 0)"

definition DoLockModesConflict :: "LOCKMODE \<Rightarrow> LOCKMODE \<Rightarrow> bool" where
  "DoLockModesConflict mode1 mode2 \<longleftrightarrow> flag (conflictTab mode1) (LOCKBIT_ON mode2)"

definition valid_mode :: "LOCKMODE \<Rightarrow> bool" where
  "valid_mode lockmode \<longleftrightarrow> 0 < lockmode \<and> lockmode \<le> numLockModes"

section \<open>Lock objects, their holders and their waiters\<close>

record LOCKTAG =
  locktag_field1 :: uint32
  locktag_field2 :: uint32
  locktag_field3 :: uint32
  locktag_field4 :: uint16
  locktag_type :: uint8
  locktag_lockmethodid :: uint8

record PROCLOCK =
  myProc :: proc
  groupLeader :: proc
  holdMask :: LOCKMASK

record LOCK =
  grantMask :: LOCKMASK
  waitMask :: LOCKMASK
  procLocks :: "PROCLOCK list"
  waitProcs :: "proc list"
  requested :: "LOCKMODE \<Rightarrow> int"
  nRequested :: int
  granted :: "LOCKMODE \<Rightarrow> int"
  nGranted :: int

datatype wait_status = STATUS_OK | STATUS_WAITING | STATUS_ERROR

text \<open>The fields of a \<^verbatim>\<open>PGPROC\<close> that lock management uses.\<close>

record lock_proc =
  lockGroupLeader :: "proc option"
  waitLock :: "LOCKTAG option"
  waitLockMode :: LOCKMODE
  heldLocks :: LOCKMASK
  waitStatus :: wait_status

type_synonym lock_procs = "proc \<Rightarrow> lock_proc"

record lock_table =
  procs :: lock_procs
  locks :: "LOCKTAG \<Rightarrow> LOCK option"

datatype lock_error = ProclocksDoNotMatch | ProclockTableCorrupted | LockTableCorrupted | AlreadyHeldLock

definition find_proclock :: "LOCK \<Rightarrow> proc \<Rightarrow> PROCLOCK option" where
  "find_proclock lock p = find (\<lambda>pl. myProc pl = p) (procLocks lock)"

definition upd_proclock :: "proc \<Rightarrow> (LOCKMASK \<Rightarrow> LOCKMASK) \<Rightarrow> LOCK \<Rightarrow> LOCK" where
  "upd_proclock p f lock = lock\<lparr>procLocks :=
     map (\<lambda>pl. if myProc pl = p then pl\<lparr>holdMask := f (holdMask pl)\<rparr> else pl) (procLocks lock)\<rparr>"

definition del_proclock :: "proc \<Rightarrow> LOCK \<Rightarrow> LOCK" where
  "del_proclock p lock = lock\<lparr>procLocks := filter (\<lambda>pl. myProc pl \<noteq> p) (procLocks lock)\<rparr>"

definition group_of :: "lock_procs \<Rightarrow> proc \<Rightarrow> proc" where
  "group_of ps p = (case lockGroupLeader (ps p) of Some l \<Rightarrow> l | None \<Rightarrow> p)"

definition new_lock :: LOCK where
  "new_lock = \<lparr>grantMask = 0, waitMask = 0, procLocks = [], waitProcs = [],
     requested = (\<lambda>_. 0), nRequested = 0, granted = (\<lambda>_. 0), nGranted = 0\<rparr>"

section \<open>Conflict checks\<close>

text \<open>The inner loop over the modes of one proclock of the same lock group.\<close>

fun subtract_modes :: "LOCKMASK \<Rightarrow> LOCKMODE list \<Rightarrow> (LOCKMODE \<Rightarrow> int) \<times> int
    \<Rightarrow> lock_error + ((LOCKMODE \<Rightarrow> int) \<times> int)" where
  "subtract_modes intersectMask [] r = Inr r"
| "subtract_modes intersectMask (i # is) (rem, tot) =
    (if flag intersectMask (LOCKBIT_ON i)
     then if rem i \<le> 0 then Inl ProclocksDoNotMatch
          else subtract_modes intersectMask is (rem(i := rem i - 1), tot - 1)
     else subtract_modes intersectMask is (rem, tot))"

text \<open>The outer loop over the proclocks of the object; the result tells whether a conflict remains.\<close>

fun subtract_group :: "LOCKMASK \<Rightarrow> PROCLOCK \<Rightarrow> PROCLOCK list \<Rightarrow> (LOCKMODE \<Rightarrow> int) \<times> int
    \<Rightarrow> lock_error + bool" where
  "subtract_group conflictMask proclock [] r = Inr True"
| "subtract_group conflictMask proclock (other # pls) r =
    (if myProc proclock \<noteq> myProc other \<and> groupLeader proclock = groupLeader other
        \<and> flag (holdMask other) conflictMask
     then case subtract_modes (holdMask other AND conflictMask) [1..<Suc numLockModes] r of
            Inl e \<Rightarrow> Inl e
          | Inr r' \<Rightarrow> if snd r' = 0 then Inr False else subtract_group conflictMask proclock pls r'
     else subtract_group conflictMask proclock pls r)"

definition conflicts_remaining :: "LOCKMASK \<Rightarrow> LOCK \<Rightarrow> PROCLOCK \<Rightarrow> LOCKMODE \<Rightarrow> int" where
  "conflicts_remaining conflictMask lock proclock i =
     (if \<not> flag conflictMask (LOCKBIT_ON i) then 0
      else granted lock i - (if flag (holdMask proclock) (LOCKBIT_ON i) then 1 else 0))"

text \<open>
  \<^verbatim>\<open>STATUS_FOUND\<close> is \<open>True\<close>. The argument \<open>me\<close> is \<^verbatim>\<open>MyProc\<close>, the process that runs the check,
  which is not the owner of the proclock when a release wakes the waiters.
\<close>

definition LockCheckConflicts :: "lock_procs \<Rightarrow> proc \<Rightarrow> LOCKMODE \<Rightarrow> LOCK \<Rightarrow> PROCLOCK \<Rightarrow> lock_error + bool" where
  "LockCheckConflicts ps me lockmode lock proclock =
    (let conflictMask = conflictTab lockmode;
         rem = conflicts_remaining conflictMask lock proclock;
         tot = sum_list (map rem [1..<Suc numLockModes])
     in if \<not> flag conflictMask (grantMask lock) then Inr False
        else if tot = 0 then Inr False
        else if groupLeader proclock = me \<and> lockGroupLeader (ps me) = None then Inr True
        else subtract_group conflictMask proclock (procLocks lock) (rem, tot))"

section \<open>Granting and releasing\<close>

definition GrantLock :: "LOCK \<Rightarrow> proc \<Rightarrow> LOCKMODE \<Rightarrow> LOCK" where
  "GrantLock lock p lockmode =
    (let lock = lock\<lparr>nGranted := nGranted lock + 1,
           granted := (granted lock)(lockmode := granted lock lockmode + 1),
           grantMask := grantMask lock OR LOCKBIT_ON lockmode\<rparr>;
         lock = (if granted lock lockmode = requested lock lockmode
                 then lock\<lparr>waitMask := waitMask lock AND LOCKBIT_OFF lockmode\<rparr> else lock)
     in upd_proclock p (\<lambda>m. m OR LOCKBIT_ON lockmode) lock)"

definition UnGrantLock :: "LOCK \<Rightarrow> proc \<Rightarrow> LOCKMODE \<Rightarrow> LOCK \<times> bool" where
  "UnGrantLock lock p lockmode =
    (let lock = lock\<lparr>nRequested := nRequested lock - 1,
           requested := (requested lock)(lockmode := requested lock lockmode - 1),
           nGranted := nGranted lock - 1,
           granted := (granted lock)(lockmode := granted lock lockmode - 1)\<rparr>;
         lock = (if granted lock lockmode = 0
                 then lock\<lparr>grantMask := grantMask lock AND LOCKBIT_OFF lockmode\<rparr> else lock);
         wakeupNeeded = flag (conflictTab lockmode) (waitMask lock)
     in (upd_proclock p (\<lambda>m. m AND LOCKBIT_OFF lockmode) lock, wakeupNeeded))"

definition ProcWakeup :: "proc \<Rightarrow> wait_status \<Rightarrow> lock_procs \<times> LOCK \<Rightarrow> lock_procs \<times> LOCK" where
  "ProcWakeup p status = (\<lambda>(ps, lock).
    (ps(p := (ps p)\<lparr>waitLock := None, waitStatus := status\<rparr>),
     lock\<lparr>waitProcs := remove1 p (waitProcs lock)\<rparr>))"

fun wakeup_loop :: "proc \<Rightarrow> proc list \<Rightarrow> LOCKMASK \<Rightarrow> lock_procs \<times> LOCK \<Rightarrow> lock_error + (lock_procs \<times> LOCK)" where
  "wakeup_loop me [] aheadRequests s = Inr s"
| "wakeup_loop me (p # q) aheadRequests s =
    (let ps = fst s; lock = snd s; lockmode = waitLockMode (ps p) in
     if flag (conflictTab lockmode) aheadRequests
     then wakeup_loop me q (aheadRequests OR LOCKBIT_ON lockmode) s
     else case find_proclock lock p of
         None \<Rightarrow> Inl ProclockTableCorrupted
       | Some proclock \<Rightarrow>
          (case LockCheckConflicts ps me lockmode lock proclock of
             Inl e \<Rightarrow> Inl e
           | Inr False \<Rightarrow>
               wakeup_loop me q aheadRequests (ProcWakeup p STATUS_OK (ps, GrantLock lock p lockmode))
           | Inr True \<Rightarrow> wakeup_loop me q (aheadRequests OR LOCKBIT_ON lockmode) s))"

definition ProcLockWakeup :: "proc \<Rightarrow> lock_procs \<times> LOCK \<Rightarrow> lock_error + (lock_procs \<times> LOCK)" where
  "ProcLockWakeup me s = wakeup_loop me (waitProcs (snd s)) 0 s"

text \<open>The result has no lock object when it was garbage-collected.\<close>

definition CleanUpLock :: "proc \<Rightarrow> lock_procs \<times> LOCK \<Rightarrow> proc \<Rightarrow> bool \<Rightarrow> lock_error + (lock_procs \<times> LOCK option)" where
  "CleanUpLock me s p wakeupNeeded =
    (case find_proclock (snd s) p of
       None \<Rightarrow> Inl ProclockTableCorrupted
     | Some proclock \<Rightarrow>
        (let lock = (if holdMask proclock = 0 then del_proclock p (snd s) else snd s)
         in if nRequested lock = 0 then Inr (fst s, None)
            else if wakeupNeeded
            then (case ProcLockWakeup me (fst s, lock) of
                    Inl e \<Rightarrow> Inl e
                  | Inr s' \<Rightarrow> Inr (fst s', Some (snd s')))
            else Inr (fst s, Some lock)))"

definition RemoveFromWaitQueue :: "proc \<Rightarrow> lock_procs \<times> LOCK \<Rightarrow> proc \<Rightarrow> lock_error + (lock_procs \<times> LOCK option)" where
  "RemoveFromWaitQueue me s p =
    (let ps = fst s; lock = snd s; lockmode = waitLockMode (ps p);
         lock = lock\<lparr>waitProcs := remove1 p (waitProcs lock),
                     nRequested := nRequested lock - 1,
                     requested := (requested lock)(lockmode := requested lock lockmode - 1)\<rparr>;
         lock = (if granted lock lockmode = requested lock lockmode
                 then lock\<lparr>waitMask := waitMask lock AND LOCKBIT_OFF lockmode\<rparr> else lock);
         ps = ps(p := (ps p)\<lparr>waitLock := None, waitStatus := STATUS_ERROR\<rparr>)
     in CleanUpLock me (ps, lock) p True)"

section \<open>Joining the wait queue\<close>

datatype queue_place = InsertAt nat | GrantAtOnce | DeadlockAt nat

text \<open>
  The scan for the place in the queue: \<open>n\<close> waiters have been passed and the requests of those
  of other groups are in \<open>aheadRequests\<close>.
\<close>

fun scan_queue :: "lock_procs \<Rightarrow> proc option \<Rightarrow> LOCKMODE \<Rightarrow> LOCKMASK \<Rightarrow> lock_error + bool
    \<Rightarrow> nat \<Rightarrow> LOCKMASK \<Rightarrow> proc list \<Rightarrow> lock_error + queue_place" where
  "scan_queue ps leader lockmode myHeldLocks check n aheadRequests [] = Inr (InsertAt n)"
| "scan_queue ps leader lockmode myHeldLocks check n aheadRequests (w # ws) =
    (if leader \<noteq> None \<and> leader = lockGroupLeader (ps w)
     then scan_queue ps leader lockmode myHeldLocks check (Suc n) aheadRequests ws
     else if flag (conflictTab (waitLockMode (ps w))) myHeldLocks
     then if flag (conflictTab lockmode) (heldLocks (ps w)) then Inr (DeadlockAt n)
          else if flag (conflictTab lockmode) aheadRequests then Inr (InsertAt n)
          else (case check of
                  Inl e \<Rightarrow> Inl e
                | Inr True \<Rightarrow> Inr (InsertAt n)
                | Inr False \<Rightarrow> Inr GrantAtOnce)
     else scan_queue ps leader lockmode myHeldLocks check (Suc n)
            (aheadRequests OR LOCKBIT_ON (waitLockMode (ps w))) ws)"

text \<open>The locks a group holds: those of the process and, in a group, those of its members.\<close>

definition my_held_locks :: "lock_procs \<Rightarrow> proc \<Rightarrow> LOCK \<Rightarrow> LOCKMASK" where
  "my_held_locks ps me lock =
    (case lockGroupLeader (ps me) of
       None \<Rightarrow> heldLocks (ps me)
     | Some leader \<Rightarrow> fold (\<lambda>pl m. if groupLeader pl = leader then m OR holdMask pl else m)
                         (procLocks lock) (heldLocks (ps me)))"

datatype sleep_result = SleepGranted | SleepWaiting | SleepDeadlock

definition enqueue :: "LOCKTAG \<Rightarrow> proc \<Rightarrow> LOCKMODE \<Rightarrow> nat \<Rightarrow> lock_procs \<times> LOCK \<Rightarrow> lock_procs \<times> LOCK" where
  "enqueue tag me lockmode n = (\<lambda>(ps, lock).
    (ps(me := (ps me)\<lparr>waitLock := Some tag, waitLockMode := lockmode, waitStatus := STATUS_WAITING\<rparr>),
     lock\<lparr>waitProcs := take n (waitProcs lock) @ me # drop n (waitProcs lock),
          waitMask := waitMask lock OR LOCKBIT_ON lockmode\<rparr>))"

text \<open>\<^verbatim>\<open>ProcSleep\<close> up to the release of the partition lock.\<close>

definition ProcSleep :: "LOCKTAG \<Rightarrow> proc \<Rightarrow> LOCKMODE \<Rightarrow> PROCLOCK \<Rightarrow> lock_procs \<times> LOCK
    \<Rightarrow> lock_error + (sleep_result \<times> lock_procs \<times> LOCK option)" where
  "ProcSleep tag me lockmode proclock s =
    (let ps = fst s; lock = snd s; held = my_held_locks ps me lock in
     case (if held \<noteq> 0
           then scan_queue ps (lockGroupLeader (ps me)) lockmode held
                  (LockCheckConflicts ps me lockmode lock proclock) 0 0 (waitProcs lock)
           else Inr (InsertAt (length (waitProcs lock)))) of
       Inl e \<Rightarrow> Inl e
     | Inr GrantAtOnce \<Rightarrow> Inr (SleepGranted, ps, Some (GrantLock lock me lockmode))
     | Inr (InsertAt n) \<Rightarrow>
         (case enqueue tag me lockmode n s of (ps', lock') \<Rightarrow> Inr (SleepWaiting, ps', Some lock'))
     | Inr (DeadlockAt n) \<Rightarrow>
         (case RemoveFromWaitQueue me (enqueue tag me lockmode n s) me of
            Inl e \<Rightarrow> Inl e
          | Inr s' \<Rightarrow> Inr (SleepDeadlock, s')))"

section \<open>Requests, releases and cancellation on the shared table\<close>

text \<open>
  The object with the request counted, or no object when a hash table is full. An object that
  was only created for the failed request is garbage-collected.
\<close>

definition SetupLockInTable :: "lock_procs \<Rightarrow> LOCK option \<Rightarrow> bool \<Rightarrow> bool \<Rightarrow> proc \<Rightarrow> LOCKMODE
    \<Rightarrow> lock_error + (LOCK option + LOCK)" where
  "SetupLockInTable ps lo room_lock room_proclock p lockmode =
    (if lo = None \<and> \<not> room_lock then Inr (Inl lo)
     else
      let lock = (case lo of Some lock \<Rightarrow> lock | None \<Rightarrow> new_lock) in
      if find_proclock lock p = None \<and> \<not> room_proclock
      then Inr (Inl (if nRequested lock = 0 then None else Some lock))
      else
       let lock = (if find_proclock lock p = None
                   then lock\<lparr>procLocks := procLocks lock @
                          [\<lparr>myProc = p, groupLeader = group_of ps p, holdMask = 0\<rparr>]\<rparr>
                   else lock);
           lock = lock\<lparr>nRequested := nRequested lock + 1,
                       requested := (requested lock)(lockmode := requested lock lockmode + 1)\<rparr>
       in case find_proclock lock p of
            None \<Rightarrow> Inl ProclockTableCorrupted
          | Some proclock \<Rightarrow>
              if flag (holdMask proclock) (LOCKBIT_ON lockmode) then Inl AlreadyHeldLock
              else Inr (Inr lock))"

datatype acquire_result = AcquireOK | AcquireNotAvail | AcquireWaiting | AcquireDeadlock | AcquireOutOfMemory

text \<open>
  \<^verbatim>\<open>LockAcquireExtended\<close> from the acquisition of the partition lock on: the request is granted
  when it conflicts neither with the requests of the waiters nor with the locks held, else it
  fails or the process goes to sleep.
\<close>

definition undo_request :: "proc \<Rightarrow> LOCKMODE \<Rightarrow> PROCLOCK \<Rightarrow> LOCK \<Rightarrow> LOCK" where
  "undo_request me lockmode proclock lock =
    (let lock = (if holdMask proclock = 0 then del_proclock me lock else lock)
     in lock\<lparr>nRequested := nRequested lock - 1,
             requested := (requested lock)(lockmode := requested lock lockmode - 1)\<rparr>)"

definition request_lock :: "LOCKTAG \<Rightarrow> proc \<Rightarrow> LOCKMODE \<Rightarrow> bool \<Rightarrow> PROCLOCK \<Rightarrow> lock_procs \<times> LOCK
    \<Rightarrow> lock_error + (acquire_result \<times> lock_procs \<times> LOCK option)" where
  "request_lock tag me lockmode dontWait proclock s =
    (let ps = fst s; lock = snd s in
     case (if flag (conflictTab lockmode) (waitMask lock) then Inr True
           else LockCheckConflicts ps me lockmode lock proclock) of
       Inl e \<Rightarrow> Inl e
     | Inr False \<Rightarrow> Inr (AcquireOK, ps, Some (GrantLock lock me lockmode))
     | Inr True \<Rightarrow>
        if dontWait then Inr (AcquireNotAvail, ps, Some (undo_request me lockmode proclock lock))
        else (case ProcSleep tag me lockmode proclock
                     (ps(me := (ps me)\<lparr>heldLocks := holdMask proclock\<rparr>), lock) of
                Inl e \<Rightarrow> Inl e
              | Inr (SleepGranted, s') \<Rightarrow> Inr (AcquireOK, s')
              | Inr (SleepWaiting, s') \<Rightarrow> Inr (AcquireWaiting, s')
              | Inr (SleepDeadlock, s') \<Rightarrow> Inr (AcquireDeadlock, s')))"

definition put_lock :: "lock_table \<Rightarrow> LOCKTAG \<Rightarrow> lock_procs \<times> LOCK option \<Rightarrow> lock_table" where
  "put_lock t tag s = t\<lparr>procs := fst s, locks := (locks t)(tag := snd s)\<rparr>"

definition LockAcquire_table :: "LOCKTAG \<Rightarrow> proc \<Rightarrow> LOCKMODE \<Rightarrow> bool \<Rightarrow> bool \<Rightarrow> bool \<Rightarrow> lock_table
    \<Rightarrow> lock_error + (acquire_result \<times> lock_table)" where
  "LockAcquire_table tag me lockmode dontWait room_lock room_proclock t =
    (case SetupLockInTable (procs t) (locks t tag) room_lock room_proclock me lockmode of
       Inl e \<Rightarrow> Inl e
     | Inr (Inl lo) \<Rightarrow> Inr (AcquireOutOfMemory, put_lock t tag (procs t, lo))
     | Inr (Inr lock) \<Rightarrow>
        (case find_proclock lock me of
           None \<Rightarrow> Inl ProclockTableCorrupted
         | Some proclock \<Rightarrow>
            (case request_lock tag me lockmode dontWait proclock (procs t, lock) of
               Inl e \<Rightarrow> Inl e
             | Inr (r, s') \<Rightarrow> Inr (r, put_lock t tag s'))))"

text \<open>
  The release of some of the modes a process holds: the loop over the modes marked for
  release, then the clean-up. A single release marks one mode.
\<close>

fun ungrant_modes :: "LOCKMASK \<Rightarrow> proc \<Rightarrow> LOCKMODE list \<Rightarrow> LOCK \<times> bool \<Rightarrow> LOCK \<times> bool" where
  "ungrant_modes releaseMask p [] r = r"
| "ungrant_modes releaseMask p (i # is) (lock, wakeupNeeded) =
    ungrant_modes releaseMask p is
      (if flag releaseMask (LOCKBIT_ON i)
       then (case UnGrantLock lock p i of (lock', w) \<Rightarrow> (lock', wakeupNeeded \<or> w))
       else (lock, wakeupNeeded))"

definition ReleaseAll_proclock :: "LOCKTAG \<Rightarrow> proc \<Rightarrow> LOCKMASK \<Rightarrow> lock_table \<Rightarrow> lock_error + lock_table" where
  "ReleaseAll_proclock tag me releaseMask t =
    (case locks t tag of
       None \<Rightarrow> Inl LockTableCorrupted
     | Some lock \<Rightarrow>
        (case ungrant_modes releaseMask me [1..<Suc numLockModes] (lock, False) of
           (lock', wakeupNeeded) \<Rightarrow>
             (case CleanUpLock me (procs t, lock') me wakeupNeeded of
                Inl e \<Rightarrow> Inl e
              | Inr s' \<Rightarrow> Inr (put_lock t tag s'))))"

text \<open>
  \<^verbatim>\<open>LockRelease\<close> from the acquisition of the partition lock on; the result tells whether the
  process held the mode.
\<close>

definition LockRelease_table :: "LOCKTAG \<Rightarrow> proc \<Rightarrow> LOCKMODE \<Rightarrow> lock_table \<Rightarrow> lock_error + (bool \<times> lock_table)" where
  "LockRelease_table tag me lockmode t =
    (case locks t tag of
       None \<Rightarrow> Inl LockTableCorrupted
     | Some lock \<Rightarrow>
        (case find_proclock lock me of
           None \<Rightarrow> Inl ProclockTableCorrupted
         | Some proclock \<Rightarrow>
            if \<not> flag (holdMask proclock) (LOCKBIT_ON lockmode) then Inr (False, t)
            else (case UnGrantLock lock me lockmode of
                (lock', wakeupNeeded) \<Rightarrow>
                  (case CleanUpLock me (procs t, lock') me wakeupNeeded of
                     Inl e \<Rightarrow> Inl e
                   | Inr s' \<Rightarrow> Inr (True, put_lock t tag s')))))"

text \<open>
  The table part of \<^verbatim>\<open>LockErrorCleanup\<close> and of the hard-deadlock branch of \<^verbatim>\<open>CheckDeadLock\<close>:
  a process still in a wait queue is taken off it, one that is not finds nothing to do.
\<close>

definition cancel_wait :: "proc \<Rightarrow> lock_table \<Rightarrow> lock_error + lock_table" where
  "cancel_wait me t =
    (case waitLock (procs t me) of
       None \<Rightarrow> Inr t
     | Some tag \<Rightarrow>
        (case locks t tag of
           None \<Rightarrow> Inl LockTableCorrupted
         | Some lock \<Rightarrow>
            (case RemoveFromWaitQueue me (procs t, lock) me of
               Inl e \<Rightarrow> Inl e
             | Inr s' \<Rightarrow> Inr (put_lock t tag s'))))"

text \<open>
  The end of \<^verbatim>\<open>DeadLockCheck\<close>: a wait queue is rebuilt in the order found by the deadlock
  search, of which only that it is a permutation of the queue is used, and its waiters are
  woken where possible.
\<close>

definition rearrange_queue :: "LOCKTAG \<Rightarrow> proc \<Rightarrow> proc list \<Rightarrow> lock_table \<Rightarrow> lock_error + lock_table" where
  "rearrange_queue tag me order t =
    (case locks t tag of
       None \<Rightarrow> Inl LockTableCorrupted
     | Some lock \<Rightarrow>
        (case ProcLockWakeup me (procs t, lock\<lparr>waitProcs := order\<rparr>) of
           Inl e \<Rightarrow> Inl e
         | Inr (ps, lock') \<Rightarrow> Inr (put_lock t tag (ps, Some lock'))))"

section \<open>Lock groups\<close>

definition BecomeLockGroupLeader :: "proc \<Rightarrow> lock_table \<Rightarrow> lock_table" where
  "BecomeLockGroupLeader me t =
    (if lockGroupLeader (procs t me) = Some me then t
     else t\<lparr>procs := (procs t)(me := (procs t me)\<lparr>lockGroupLeader := Some me\<rparr>)\<rparr>)"

text \<open>The argument \<open>same_pid\<close> tells whether the leader's slot still belongs to the process meant.\<close>

definition BecomeLockGroupMember :: "proc \<Rightarrow> proc \<Rightarrow> bool \<Rightarrow> lock_table \<Rightarrow> bool \<times> lock_table" where
  "BecomeLockGroupMember me leader same_pid t =
    (if same_pid \<and> lockGroupLeader (procs t leader) = Some leader
     then (True, t\<lparr>procs := (procs t)(me := (procs t me)\<lparr>lockGroupLeader := Some leader\<rparr>)\<rparr>)
     else (False, t))"

end
