(* ===== verification/Lock_Check.thy ===== *)
theory Lock_Check
  imports Lock
begin

text \<open>
  Facts on lock masks, the conflict table and the conflict check of the lock manager: the
  table is symmetric, and on consistent counts the check answers whether a process of another
  lock group holds a conflicting mode, and never finds the counts in contradiction.
\<close>

named_theorems lock_simps \<open>facts that turn lock masks into sets of modes\<close>

section \<open>Masks as sets of modes\<close>

lemma bit_small: "bit m j \<Longrightarrow> j < 32" for m :: LOCKMASK
  using bit_imp_le_length [of m j] by simp

lemma bit_LOCKBIT_ON [lock_simps]: "bit (LOCKBIT_ON i) j \<longleftrightarrow> i = j \<and> j < 32"
  by (auto simp: LOCKBIT_ON_def bit_simps)

lemma bit_and_OFF [lock_simps]: "bit (m AND LOCKBIT_OFF i) j \<longleftrightarrow> bit m j \<and> i \<noteq> j"
  by (auto simp: LOCKBIT_OFF_def bit_simps dest: bit_small)

lemma bit_or_ON [lock_simps]: "bit (m OR LOCKBIT_ON i) j \<longleftrightarrow> bit m j \<or> (i = j \<and> j < 32)"
  by (auto simp: bit_simps bit_LOCKBIT_ON)

lemma flag_bits: "flag a b \<longleftrightarrow> (\<exists>i. bit a i \<and> bit b i)" for a b :: LOCKMASK
  by (auto simp: flag_def bit_eq_iff bit_simps dest: bit_small)

lemma flag_LOCKBIT_ON: "i < 32 \<Longrightarrow> flag m (LOCKBIT_ON i) \<longleftrightarrow> bit m i"
  by (auto simp: flag_bits bit_LOCKBIT_ON)

lemma mask_zero_bits: "m = 0 \<longleftrightarrow> (\<forall>i. \<not> bit m i)" for m :: LOCKMASK
  by (auto simp: bit_eq_iff dest: bit_small)

lemma valid_mode_cases: "valid_mode m \<longleftrightarrow> m \<in> {1, 2, 3, 4, 5, 6, 7, 8}"
  by (auto simp: valid_mode_def)

lemma valid_mode_small [simp]: "valid_mode m \<Longrightarrow> m < 32"
  by (simp add: valid_mode_def)

lemma modes_set: "set [1..<Suc numLockModes] = Collect valid_mode"
  by (auto simp: valid_mode_def)

section \<open>The conflict table\<close>

lemma bit_conflictTab: "bit (conflictTab m) i \<longleftrightarrow> DoLockModesConflict m i"
  by (auto simp: DoLockModesConflict_def flag_bits bit_LOCKBIT_ON dest: bit_small)

text \<open>The modes in conflict with a mode, read off the table.\<close>

definition conflicting_modes :: "LOCKMODE \<Rightarrow> LOCKMODE list" where
  "conflicting_modes m = (if m \<le> 8 then
     [[], [8], [7, 8], [5, 6, 7, 8], [4, 5, 6, 7, 8], [3, 4, 6, 7, 8], [3, 4, 5, 6, 7, 8],
      [2, 3, 4, 5, 6, 7, 8], [1, 2, 3, 4, 5, 6, 7, 8]] ! m else [])"

lemma bit_ON_mode: "j < 32 \<Longrightarrow> bit (LOCKBIT_ON j) i \<longleftrightarrow> i = j"
  by (auto simp: bit_LOCKBIT_ON)

lemma conflict_rows:
  "bit (LockConflicts ! 0) i \<longleftrightarrow> False"
  "bit (LockConflicts ! 1) i \<longleftrightarrow> i \<in> {8}"
  "bit (LockConflicts ! 2) i \<longleftrightarrow> i \<in> {7, 8}"
  "bit (LockConflicts ! 3) i \<longleftrightarrow> i \<in> {5, 6, 7, 8}"
  "bit (LockConflicts ! 4) i \<longleftrightarrow> i \<in> {4, 5, 6, 7, 8}"
  "bit (LockConflicts ! 5) i \<longleftrightarrow> i \<in> {3, 4, 6, 7, 8}"
  "bit (LockConflicts ! 6) i \<longleftrightarrow> i \<in> {3, 4, 5, 6, 7, 8}"
  "bit (LockConflicts ! 7) i \<longleftrightarrow> i \<in> {2, 3, 4, 5, 6, 7, 8}"
  "bit (LockConflicts ! 8) i \<longleftrightarrow> i \<in> {1, 2, 3, 4, 5, 6, 7, 8}"
  unfolding LockConflicts_def by (simp_all add: bit_or_iff bit_ON_mode)

lemma conflict_iff_list: "DoLockModesConflict m i \<longleftrightarrow> i \<in> set (conflicting_modes m)"
proof (cases "m \<le> 8")
  case True
  then have "m \<in> {0, 1, 2, 3, 4, 5, 6, 7, 8}" by auto
  then show ?thesis
    unfolding bit_conflictTab [symmetric] conflictTab_def conflicting_modes_def
    by (elim insertE) (simp_all add: conflict_rows [simplified])
next
  case False
  then show ?thesis
    by (simp add: DoLockModesConflict_def conflictTab_def conflicting_modes_def)
qed

lemma conflict_valid: "DoLockModesConflict m i \<Longrightarrow> valid_mode m \<and> valid_mode i"
proof -
  assume "DoLockModesConflict m i"
  then have i: "i \<in> set (conflicting_modes m)" by (simp add: conflict_iff_list)
  then have "m \<le> 8" by (auto simp: conflicting_modes_def split: if_splits)
  then have "m \<in> {0, 1, 2, 3, 4, 5, 6, 7, 8}" by auto
  then show ?thesis
    using i by (elim insertE) (auto simp: conflicting_modes_def valid_mode_def)
qed

lemma conflict_sym: "DoLockModesConflict m i \<longleftrightarrow> DoLockModesConflict i m"
proof -
  have *: "i \<in> set (conflicting_modes m) \<Longrightarrow> m \<in> set (conflicting_modes i)" for i m
  proof -
    assume i: "i \<in> set (conflicting_modes m)"
    then have "m \<le> 8" by (auto simp: conflicting_modes_def split: if_splits)
    then have "m \<in> {0, 1, 2, 3, 4, 5, 6, 7, 8}" by auto
    then show ?thesis
      using i by (elim insertE) (auto simp: conflicting_modes_def)
  qed
  then show ?thesis by (auto simp: conflict_iff_list)
qed

lemma flag_conflictTab:
  "flag (conflictTab m) mk \<longleftrightarrow> (\<exists>i. DoLockModesConflict m i \<and> bit mk i)"
  by (auto simp: flag_bits bit_conflictTab)

section \<open>Holders and conflicts of an object\<close>

definition foreign_conflict :: "LOCK \<Rightarrow> proc \<Rightarrow> LOCKMODE \<Rightarrow> bool" where
  "foreign_conflict lock g m \<longleftrightarrow>
     (\<exists>pl \<in> set (procLocks lock). groupLeader pl \<noteq> g
        \<and> (\<exists>j \<in> set [1..<Suc numLockModes]. bit (holdMask pl) j \<and> DoLockModesConflict m j))"

definition held_count :: "LOCKMODE \<Rightarrow> PROCLOCK list \<Rightarrow> int" where
  "held_count i pls = (\<Sum>pl \<leftarrow> pls. of_bool (bit (holdMask pl) i))"

lemma held_count_simps [simp]:
  "held_count i [] = 0"
  "held_count i (pl # pls) = of_bool (bit (holdMask pl) i) + held_count i pls"
  "held_count i (pls @ qls) = held_count i pls + held_count i qls"
  by (simp_all add: held_count_def)

lemma held_count_nonneg [simp]: "0 \<le> held_count i pls"
  by (induction pls) auto

lemma held_count_pos: "0 < held_count i pls \<longleftrightarrow> (\<exists>pl \<in> set pls. bit (holdMask pl) i)"
  by (induction pls) (auto simp: add_nonneg_pos add_pos_nonneg)

lemma held_count_zero: "held_count i pls = 0 \<longleftrightarrow> (\<forall>pl \<in> set pls. \<not> bit (holdMask pl) i)"
  using held_count_pos [of i pls] held_count_nonneg [of i pls] by (auto simp: less_le)

lemma held_count_other:
  assumes "distinct (map myProc pls)" "pl \<in> set pls"
  shows "held_count i (filter (\<lambda>x. myProc x \<noteq> myProc pl) pls) =
    held_count i pls - of_bool (bit (holdMask pl) i)"
  using assms
proof (induction pls)
  case (Cons a pls)
  show ?case
  proof (cases "pl = a")
    case True
    with Cons.prems have "filter (\<lambda>x. myProc x \<noteq> myProc pl) pls = pls"
      by (auto simp: filter_id_conv) (metis imageI)
    with True show ?thesis by simp
  next
    case False
    with Cons show ?thesis by auto
  qed
qed simp

section \<open>The conflict check\<close>

lemma subtract_modes_result:
  assumes "distinct is" "\<forall>i \<in> set is. i < 32" "\<forall>i \<in> set is. bit m i \<longrightarrow> 0 < rem i"
  shows "subtract_modes m is (rem, tot) =
    Inr (\<lambda>i. rem i - of_bool (i \<in> set is \<and> bit m i), tot - (\<Sum>i \<leftarrow> is. of_bool (bit m i)))"
  using assms
proof (induction "is" arbitrary: rem tot)
  case Nil
  then show ?case by simp
next
  case (Cons k ks)
  show ?case
  proof (cases "bit m k")
    case True
    from Cons.prems have pre: "\<forall>i \<in> set ks. bit m i \<longrightarrow> 0 < (rem(k := rem k - 1)) i"
      by auto
    have "subtract_modes m (k # ks) (rem, tot) = subtract_modes m ks (rem(k := rem k - 1), tot - 1)"
      using Cons.prems True by (simp add: flag_LOCKBIT_ON)
    also have "\<dots> = Inr (\<lambda>i. (rem(k := rem k - 1)) i - of_bool (i \<in> set ks \<and> bit m i),
        tot - 1 - (\<Sum>i \<leftarrow> ks. of_bool (bit m i)))"
      using Cons.prems pre by (intro Cons.IH) auto
    finally show ?thesis
      using Cons.prems True by (auto simp: fun_eq_iff)
  next
    case False
    have "subtract_modes m (k # ks) (rem, tot) = subtract_modes m ks (rem, tot)"
      using Cons.prems False by (simp add: flag_LOCKBIT_ON)
    also have "\<dots> = Inr (\<lambda>i. rem i - of_bool (i \<in> set ks \<and> bit m i),
        tot - (\<Sum>i \<leftarrow> ks. of_bool (bit m i)))"
      using Cons.prems by (intro Cons.IH) auto
    finally show ?thesis
      using Cons.prems False by (auto simp: fun_eq_iff)
  qed
qed

lemma sum_modes: "(\<Sum>i \<leftarrow> [1..<Suc numLockModes]. f i) = (\<Sum>i \<in> Collect valid_mode. f i)"
  for f :: "nat \<Rightarrow> int"
  by (metis distinct_upt modes_set sum_list_distinct_conv_sum_set)

lemma finite_modes [simp]: "finite (Collect valid_mode)"
  by (metis modes_set finite_set)

text \<open>
  The count of conflicts left before the scan of the proclocks \<open>pls\<close>: what they hold, less the
  process itself, and what the foreign proclocks already passed hold.
\<close>

definition scan_state :: "LOCKMODE \<Rightarrow> PROCLOCK \<Rightarrow> PROCLOCK list \<Rightarrow> PROCLOCK list \<Rightarrow> LOCKMODE \<Rightarrow> int" where
  "scan_state m pl passed pls i = (if DoLockModesConflict m i
     then held_count i (filter (\<lambda>x. groupLeader x \<noteq> groupLeader pl) passed)
        + held_count i (filter (\<lambda>x. myProc x \<noteq> myProc pl) pls) else 0)"

lemma scan_state_nonneg [simp]: "0 \<le> scan_state m pl passed pls i"
  by (simp add: scan_state_def)

lemma subtract_group_result:
  assumes "\<forall>i. valid_mode i \<longrightarrow> rem i = scan_state m pl passed pls i"
    and "tot = (\<Sum>i \<in> Collect valid_mode. rem i)" and "tot \<noteq> 0"
    and "\<forall>x \<in> set pls. myProc x = myProc pl \<longrightarrow> x = pl"
  shows "subtract_group (conflictTab m) pl pls (rem, tot) =
    Inr (\<exists>x \<in> set (passed @ pls). groupLeader x \<noteq> groupLeader pl
       \<and> (\<exists>i. valid_mode i \<and> bit (holdMask x) i \<and> DoLockModesConflict m i))"
  using assms
proof (induction pls arbitrary: passed rem tot)
  case Nil
  then obtain i where "valid_mode i" "rem i \<noteq> 0"
    by (metis (mono_tags, lifting) mem_Collect_eq sum.neutral)
  with Nil.prems(1) have "DoLockModesConflict m i"
    and "held_count i (filter (\<lambda>x. groupLeader x \<noteq> groupLeader pl) passed) \<noteq> 0"
    by (auto simp: scan_state_def split: if_splits)
  then show ?case
    using \<open>valid_mode i\<close> by (auto simp: held_count_zero)
next
  case (Cons a pls)
  define mk where "mk = holdMask a AND conflictTab m"
  have bit_mk: "bit mk i \<longleftrightarrow> bit (holdMask a) i \<and> DoLockModesConflict m i" for i
    by (simp add: mk_def bit_and_iff bit_conflictTab)
  have here: "rem i = scan_state m pl passed (a # pls) i" if "valid_mode i" for i
    using Cons.prems(1) that by blast
  show ?case
  proof (cases "myProc pl \<noteq> myProc a \<and> groupLeader pl = groupLeader a \<and> flag (holdMask a) (conflictTab m)")
    case True
    have pos: "\<forall>i \<in> set [1..<Suc numLockModes]. bit mk i \<longrightarrow> 0 < rem i"
      unfolding modes_set using True here
      by (auto simp: bit_mk scan_state_def intro!: add_nonneg_pos [OF held_count_nonneg] add_pos_nonneg)
    define rem' where "rem' i = rem i - of_bool (valid_mode i \<and> bit mk i)" for i
    define tot' where "tot' = (\<Sum>i \<in> Collect valid_mode. rem' i)"
    have "subtract_modes mk [1..<Suc numLockModes] (rem, tot) =
        Inr (\<lambda>i. rem i - of_bool (i \<in> set [1..<Suc numLockModes] \<and> bit mk i),
             tot - (\<Sum>i \<leftarrow> [1..<Suc numLockModes]. of_bool (bit mk i)))"
      by (rule subtract_modes_result) (use pos in auto)
    also have "\<dots> = Inr (rem', tot')"
      unfolding sum_modes tot'_def rem'_def Cons.prems(2) modes_set
      by (simp add: sum_subtractf)
    finally have sub: "subtract_modes mk [1..<Suc numLockModes] (rem, tot) = Inr (rem', tot')" .
    have inv: "\<forall>i. valid_mode i \<longrightarrow> rem' i = scan_state m pl (passed @ [a]) pls i"
      using here True by (auto simp: rem'_def scan_state_def bit_mk)
    have step: "subtract_group (conflictTab m) pl (a # pls) (rem, tot) =
        (if tot' = 0 then Inr False else subtract_group (conflictTab m) pl pls (rem', tot'))"
      using True sub by (simp add: mk_def del: upt_Suc)
    show ?thesis
    proof (cases "tot' = 0")
      case True
      have "rem' i = 0" if "valid_mode i" for i
      proof -
        have "\<forall>i \<in> Collect valid_mode. 0 \<le> rem' i" using inv by auto
        with True that show ?thesis
          unfolding tot'_def by (metis finite_modes mem_Collect_eq sum_nonneg_eq_0_iff)
      qed
      then have none: "scan_state m pl (passed @ [a]) pls i = 0" if "valid_mode i" for i
        using inv that by simp
      have "\<not> bit (holdMask x) i"
        if "x \<in> set (passed @ a # pls)" "groupLeader x \<noteq> groupLeader pl" "valid_mode i"
          "DoLockModesConflict m i" for x i
      proof -
        have z: "held_count i (filter (\<lambda>x. groupLeader x \<noteq> groupLeader pl) (passed @ [a])) = 0 \<and>
            held_count i (filter (\<lambda>x. myProc x \<noteq> myProc pl) pls) = 0"
          using none [OF that(3)] that(4) held_count_nonneg [of i] unfolding scan_state_def
          by (smt (verit))
        have "myProc x \<noteq> myProc pl" if "x \<in> set pls" using Cons.prems(4) that \<open>groupLeader x \<noteq> groupLeader pl\<close> by auto
        then show ?thesis using z that(1,2) unfolding held_count_zero by auto
      qed
      with step True show ?thesis by auto
    next
      case False
      have "subtract_group (conflictTab m) pl pls (rem', tot') =
          Inr (\<exists>x \<in> set ((passed @ [a]) @ pls). groupLeader x \<noteq> groupLeader pl
            \<and> (\<exists>i. valid_mode i \<and> bit (holdMask x) i \<and> DoLockModesConflict m i))"
        by (rule Cons.IH [OF inv]) (use False Cons.prems(4) in \<open>auto simp: tot'_def\<close>)
      with step False show ?thesis by simp
    qed
  next
    case False
    have nz: "held_count i (filter (\<lambda>x. myProc x \<noteq> myProc pl) [a])
        = held_count i (filter (\<lambda>x. groupLeader x \<noteq> groupLeader pl) [a])"
      if "DoLockModesConflict m i" for i
      using False Cons.prems(4) that by (auto simp: flag_bits bit_conflictTab)
    have inv: "\<forall>i. valid_mode i \<longrightarrow> rem i = scan_state m pl (passed @ [a]) pls i"
      using here nz by (auto simp: scan_state_def)
    have "subtract_group (conflictTab m) pl pls (rem, tot) =
        Inr (\<exists>x \<in> set ((passed @ [a]) @ pls). groupLeader x \<noteq> groupLeader pl
          \<and> (\<exists>i. valid_mode i \<and> bit (holdMask x) i \<and> DoLockModesConflict m i))"
      by (rule Cons.IH [OF inv]) (use Cons.prems in auto)
    moreover have "subtract_group (conflictTab m) pl (a # pls) (rem, tot) =
        subtract_group (conflictTab m) pl pls (rem, tot)"
      using False by auto
    ultimately show ?thesis by simp
  qed
qed

text \<open>
  On an object whose counts are those of its proclocks the check tells whether a process of
  another group holds a conflicting mode.
\<close>

lemma LockCheckConflicts_result:
  assumes pl: "pl \<in> set (procLocks lock)" and dist: "distinct (map myProc (procLocks lock))"
    and counts: "\<forall>i. granted lock i = held_count i (procLocks lock)"
    and gm: "\<forall>i. bit (grantMask lock) i \<longleftrightarrow> granted lock i \<noteq> 0"
    and grp: "lockGroupLeader (ps me) = None \<Longrightarrow> \<forall>x \<in> set (procLocks lock). groupLeader x = me \<longrightarrow> myProc x = me"
  shows "LockCheckConflicts ps me m lock pl = Inr (foreign_conflict lock (groupLeader pl) m)"
proof -
  define rem where "rem = conflicts_remaining (conflictTab m) lock pl"
  define tot where "tot = (\<Sum>i \<in> Collect valid_mode. rem i)"
  have uniq: "\<forall>x \<in> set (procLocks lock). myProc x = myProc pl \<longrightarrow> x = pl"
    using dist pl by (auto simp: distinct_map inj_on_def)
  have rem_eq: "rem i = scan_state m pl [] (procLocks lock) i" if "valid_mode i" for i
    using that held_count_other [OF dist pl] counts
    by (simp add: rem_def conflicts_remaining_def scan_state_def flag_LOCKBIT_ON bit_conflictTab)
  have foreign: "foreign_conflict lock (groupLeader pl) m \<longleftrightarrow> (\<exists>x \<in> set ([] @ procLocks lock).
      groupLeader x \<noteq> groupLeader pl \<and> (\<exists>i. valid_mode i \<and> bit (holdMask x) i \<and> DoLockModesConflict m i))"
    unfolding foreign_conflict_def modes_set by auto
  have unf: "LockCheckConflicts ps me m lock pl =
     (if \<not> flag (conflictTab m) (grantMask lock) then Inr False
      else if tot = 0 then Inr False
      else if groupLeader pl = me \<and> lockGroupLeader (ps me) = None then Inr True
      else subtract_group (conflictTab m) pl (procLocks lock) (rem, tot))"
    unfolding LockCheckConflicts_def Let_def sum_modes tot_def rem_def ..
  have rem_pos: "\<forall>i \<in> Collect valid_mode. 0 \<le> rem i" using rem_eq by simp
  have some: "tot \<noteq> 0 \<longleftrightarrow> (\<exists>x \<in> set (procLocks lock). myProc x \<noteq> myProc pl \<and>
      (\<exists>i. valid_mode i \<and> bit (holdMask x) i \<and> DoLockModesConflict m i))"
  proof -
    have "tot = 0 \<longleftrightarrow> (\<forall>i \<in> Collect valid_mode. rem i = 0)"
      unfolding tot_def by (rule sum_nonneg_eq_0_iff) (use rem_pos in auto)
    also have "\<dots> \<longleftrightarrow> (\<forall>i. valid_mode i \<longrightarrow> scan_state m pl [] (procLocks lock) i = 0)"
      using rem_eq by simp
    finally show ?thesis by (auto simp: scan_state_def held_count_zero)
  qed
  consider "\<not> flag (conflictTab m) (grantMask lock)" | "tot = 0" "flag (conflictTab m) (grantMask lock)"
    | "tot \<noteq> 0" "groupLeader pl = me" "lockGroupLeader (ps me) = None" "flag (conflictTab m) (grantMask lock)"
    | "tot \<noteq> 0" "\<not> (groupLeader pl = me \<and> lockGroupLeader (ps me) = None)" "flag (conflictTab m) (grantMask lock)"
    by argo
  then show ?thesis
  proof cases
    case 1
    then have "\<not> foreign_conflict lock (groupLeader pl) m"
      unfolding foreign using gm counts by (auto simp: flag_conflictTab held_count_zero)
    with 1 unf show ?thesis by simp
  next
    case 2
    with some have "\<not> foreign_conflict lock (groupLeader pl) m"
      unfolding foreign using uniq by auto
    with 2 unf show ?thesis by simp
  next
    case 3
    with some obtain x i where x: "x \<in> set (procLocks lock)" "myProc x \<noteq> myProc pl" "valid_mode i"
        "bit (holdMask x) i" "DoLockModesConflict m i" by blast
    have "myProc pl = me" using grp [OF 3(3)] pl 3(2) by blast
    with x grp [OF 3(3)] have "groupLeader x \<noteq> groupLeader pl" using 3(2) by auto
    with x have "foreign_conflict lock (groupLeader pl) m" unfolding foreign by auto
    with 3 unf show ?thesis by simp
  next
    case 4
    have "subtract_group (conflictTab m) pl (procLocks lock) (rem, tot) = Inr (foreign_conflict lock (groupLeader pl) m)"
      unfolding foreign by (rule subtract_group_result) (use rem_eq tot_def 4(1) uniq in auto)
    with 4 unf show ?thesis by auto
  qed
qed

end
