(* ===== verification/Lock_Props.thy ===== *)
theory Lock_Props
  imports Lock_Check
begin

text \<open>
  The invariant of a lock object and the effect of the elementary operations on it: the counts
  and masks are those of the holders and the waiters, no two lock groups hold conflicting
  modes, and every waiter is blocked by a holder of another group or by an earlier waiter.
  The argument \<open>pending\<close> lists the modes of requests that are counted in the object while the
  requesting process is neither granted nor in the queue.
\<close>

section \<open>The invariant\<close>

definition mode_count :: "LOCKMODE \<Rightarrow> LOCKMODE list \<Rightarrow> int" where
  "mode_count i ms = (\<Sum>m \<leftarrow> ms. of_bool (m = i))"

lemma mode_count_simps [simp]:
  "mode_count i [] = 0"
  "mode_count i (m # ms) = of_bool (m = i) + mode_count i ms"
  "mode_count i (ms @ ns) = mode_count i ms + mode_count i ns"
  by (simp_all add: mode_count_def)

lemma mode_count_nonneg [simp]: "0 \<le> mode_count i ms"
  by (induction ms) auto

lemma mode_count_zero: "mode_count i ms = 0 \<longleftrightarrow> i \<notin> set ms"
proof (induction ms)
  case (Cons m ms)
  then show ?case using mode_count_nonneg [of i ms] by (cases "m = i") (simp_all add: add_nonneg_eq_0_iff)
qed simp

lemma mode_count_remove1:
  "p \<in> set q \<Longrightarrow> mode_count i (map f (remove1 p q)) = mode_count i (map f q) - of_bool (f p = i)"
  by (induction q) auto

lemma sum_mode_count:
  "\<forall>m \<in> set ms. valid_mode m \<Longrightarrow> (\<Sum>i \<in> Collect valid_mode. mode_count i ms) = int (length ms)"
  by (induction ms) (auto simp: sum.distrib of_bool_def)

abbreviation wait_modes :: "lock_procs \<Rightarrow> LOCK \<Rightarrow> LOCKMODE list" where
  "wait_modes ps lock \<equiv> map (\<lambda>p. waitLockMode (ps p)) (waitProcs lock)"

definition counts_ok :: "lock_procs \<Rightarrow> LOCKMODE list \<Rightarrow> LOCK \<Rightarrow> bool" where
  "counts_ok ps pending lock \<longleftrightarrow>
     distinct (map myProc (procLocks lock))
   \<and> (\<forall>i. granted lock i = held_count i (procLocks lock))
   \<and> nGranted lock = (\<Sum>i \<in> Collect valid_mode. granted lock i)
   \<and> (\<forall>i. requested lock i = granted lock i + mode_count i (wait_modes ps lock @ pending))
   \<and> nRequested lock = (\<Sum>i \<in> Collect valid_mode. requested lock i)
   \<and> (\<forall>i. bit (grantMask lock) i \<longleftrightarrow> granted lock i \<noteq> 0)
   \<and> (\<forall>i \<in> set (wait_modes ps lock). bit (waitMask lock) i)
   \<and> (\<forall>i. bit (waitMask lock) i \<longrightarrow> i \<in> set (wait_modes ps lock @ pending))
   \<and> (\<forall>pl \<in> set (procLocks lock). \<forall>i. bit (holdMask pl) i \<longrightarrow> valid_mode i)
   \<and> (\<forall>m \<in> set (wait_modes ps lock @ pending). valid_mode m)"

definition queue_ok :: "lock_procs \<Rightarrow> LOCKTAG \<Rightarrow> LOCK \<Rightarrow> bool" where
  "queue_ok ps tag lock \<longleftrightarrow>
     distinct (waitProcs lock)
   \<and> (\<forall>p \<in> set (waitProcs lock). waitLock (ps p) = Some tag \<and> waitStatus (ps p) = STATUS_WAITING
        \<and> (\<exists>pl \<in> set (procLocks lock). myProc pl = p \<and> \<not> bit (holdMask pl) (waitLockMode (ps p))))
   \<and> (\<forall>pl \<in> set (procLocks lock). groupLeader pl = group_of ps (myProc pl))"

text \<open>No two processes of different lock groups hold conflicting modes.\<close>

definition compatible :: "LOCK \<Rightarrow> bool" where
  "compatible lock \<longleftrightarrow>
     (\<forall>pl \<in> set (procLocks lock). \<forall>pl' \<in> set (procLocks lock). groupLeader pl \<noteq> groupLeader pl' \<longrightarrow>
        (\<forall>i j. bit (holdMask pl) i \<longrightarrow> bit (holdMask pl') j \<longrightarrow> \<not> DoLockModesConflict i j))"

text \<open>A waiter is blocked by a holder of another group or by a waiter before it in the queue.\<close>

definition blocked :: "lock_procs \<Rightarrow> LOCK \<Rightarrow> proc set \<Rightarrow> proc \<Rightarrow> bool" where
  "blocked ps lock ahead p \<longleftrightarrow>
     (\<exists>w \<in> ahead. DoLockModesConflict (waitLockMode (ps p)) (waitLockMode (ps w)))
   \<or> foreign_conflict lock (group_of ps p) (waitLockMode (ps p))"

fun all_blocked :: "lock_procs \<Rightarrow> LOCK \<Rightarrow> proc set \<Rightarrow> proc list \<Rightarrow> bool" where
  "all_blocked ps lock ahead [] = True"
| "all_blocked ps lock ahead (p # q) = (blocked ps lock ahead p \<and> all_blocked ps lock (insert p ahead) q)"

text \<open>Every proclock that is kept is of use.\<close>

definition no_garbage :: "LOCK \<Rightarrow> proc set \<Rightarrow> bool" where
  "no_garbage lock P \<longleftrightarrow> (\<forall>pl \<in> set (procLocks lock). holdMask pl \<noteq> 0 \<or> myProc pl \<in> set (waitProcs lock) \<union> P)"

definition groups_ok :: "lock_procs \<Rightarrow> bool" where
  "groups_ok ps \<longleftrightarrow> (\<forall>p l. lockGroupLeader (ps p) = Some l \<longrightarrow> lockGroupLeader (ps l) = Some l)"

definition lock_inv :: "lock_procs \<Rightarrow> LOCKTAG \<Rightarrow> LOCK \<Rightarrow> bool" where
  "lock_inv ps tag lock \<longleftrightarrow> counts_ok ps [] lock \<and> queue_ok ps tag lock \<and> compatible lock
     \<and> all_blocked ps lock {} (waitProcs lock) \<and> no_garbage lock {} \<and> nRequested lock \<noteq> 0"

section \<open>Consequences\<close>

lemma groups_leaderless:
  assumes "groups_ok ps" "queue_ok ps tag lock" "lockGroupLeader (ps me) = None"
  shows "\<forall>x \<in> set (procLocks lock). groupLeader x = me \<longrightarrow> myProc x = me"
  using assms by (auto simp: queue_ok_def groups_ok_def group_of_def split: option.splits)

lemma check_result:
  assumes "groups_ok ps" "queue_ok ps tag lock" "counts_ok ps pending lock" "pl \<in> set (procLocks lock)"
  shows "LockCheckConflicts ps me m lock pl = Inr (foreign_conflict lock (group_of ps (myProc pl)) m)"
proof -
  have "groupLeader pl = group_of ps (myProc pl)" using assms by (auto simp: queue_ok_def)
  moreover have "LockCheckConflicts ps me m lock pl = Inr (foreign_conflict lock (groupLeader pl) m)"
    by (rule LockCheckConflicts_result)
       (use assms groups_leaderless [OF assms(1,2)] in \<open>auto simp: counts_ok_def\<close>)
  ultimately show ?thesis by simp
qed

lemma find_proclock_Some:
  assumes "distinct (map myProc (procLocks lock))"
  shows "find_proclock lock p = Some pl \<longleftrightarrow> pl \<in> set (procLocks lock) \<and> myProc pl = p"
proof -
  have "find (\<lambda>pl. myProc pl = p) xs = Some pl \<longleftrightarrow> pl \<in> set xs \<and> myProc pl = p"
    if "distinct (map myProc xs)" for xs
    using that by (induction xs) (auto simp: rev_image_eqI)
  with assms show ?thesis by (simp add: find_proclock_def)
qed

lemma find_proclock_None: "find_proclock lock p = None \<longleftrightarrow> p \<notin> myProc ` set (procLocks lock)"
  by (auto simp: find_proclock_def find_None_iff)

lemma nRequested_count:
  assumes "counts_ok ps pending lock"
  shows "nRequested lock = nGranted lock + int (length (waitProcs lock)) + int (length pending)"
  using assms sum_mode_count [of "wait_modes ps lock @ pending"]
  by (simp add: counts_ok_def sum.distrib del: mode_count_simps)

lemma foreign_conflict_bits:
  assumes "\<forall>pl \<in> set (procLocks lock). \<forall>i. bit (holdMask pl) i \<longrightarrow> valid_mode i"
  shows "foreign_conflict lock g m \<longleftrightarrow> (\<exists>pl \<in> set (procLocks lock). groupLeader pl \<noteq> g
     \<and> (\<exists>j. bit (holdMask pl) j \<and> DoLockModesConflict m j))"
  unfolding foreign_conflict_def modes_set using assms by auto

section \<open>Changes of the masks of one process\<close>

lemma upd_proclock_simps [simp]:
  "grantMask (upd_proclock p f lock) = grantMask lock" "waitMask (upd_proclock p f lock) = waitMask lock"
  "waitProcs (upd_proclock p f lock) = waitProcs lock" "requested (upd_proclock p f lock) = requested lock"
  "nRequested (upd_proclock p f lock) = nRequested lock" "granted (upd_proclock p f lock) = granted lock"
  "nGranted (upd_proclock p f lock) = nGranted lock"
  "map myProc (procLocks (upd_proclock p f lock)) = map myProc (procLocks lock)"
  by (simp_all add: upd_proclock_def cong: map_cong)

lemma procLocks_upd:
  "procLocks (upd_proclock p f lock) =
    map (\<lambda>pl. if myProc pl = p then pl\<lparr>holdMask := f (holdMask pl)\<rparr> else pl) (procLocks lock)"
  by (simp add: upd_proclock_def)

lemma upd_proclock_set:
  "pl \<in> set (procLocks (upd_proclock p f lock)) \<longleftrightarrow>
    (\<exists>x \<in> set (procLocks lock). pl = (if myProc x = p then x\<lparr>holdMask := f (holdMask x)\<rparr> else x))"
  unfolding procLocks_upd set_map image_iff ..

lemma held_count_upd:
  assumes "distinct (map myProc (procLocks lock))" "pl \<in> set (procLocks lock)" "myProc pl = p"
  shows "held_count i (procLocks (upd_proclock p f lock)) =
    held_count i (procLocks lock) - of_bool (bit (holdMask pl) i) + of_bool (bit (f (holdMask pl)) i)"
proof -
  define g where "g = (\<lambda>x :: PROCLOCK. if myProc x = p then x\<lparr>holdMask := f (holdMask x)\<rparr> else x)"
  have none: "map g xs = xs" if "p \<notin> myProc ` set xs" for xs
    using that by (intro map_idI) (auto simp: g_def)
  have "held_count i (map g xs) = held_count i xs - of_bool (bit (holdMask pl) i) + of_bool (bit (f (holdMask pl)) i)"
    if "distinct (map myProc xs)" "pl \<in> set xs" for xs
    using that
  proof (induction xs)
    case (Cons x xs)
    show ?case
    proof (cases "x = pl")
      case True
      with Cons.prems assms(3) none [of xs] show ?thesis by (simp add: g_def)
    next
      case False
      with Cons.prems have "pl \<in> set xs" by simp
      with Cons.prems assms(3) have "myProc x \<noteq> p" by auto
      with Cons \<open>pl \<in> set xs\<close> show ?thesis by (simp add: g_def)
    qed
  qed simp
  from this [OF assms(1,2)] show ?thesis by (simp add: upd_proclock_def g_def)
qed

section \<open>Granting\<close>

lemma GrantLock_simps [simp]:
  "waitProcs (GrantLock lock p m) = waitProcs lock"
  "requested (GrantLock lock p m) = requested lock" "nRequested (GrantLock lock p m) = nRequested lock"
  "granted (GrantLock lock p m) = (granted lock)(m := granted lock m + 1)"
  "nGranted (GrantLock lock p m) = nGranted lock + 1"
  "grantMask (GrantLock lock p m) = grantMask lock OR LOCKBIT_ON m"
  "waitMask (GrantLock lock p m) =
     (if granted lock m + 1 = requested lock m then waitMask lock AND LOCKBIT_OFF m else waitMask lock)"
  by (simp_all add: GrantLock_def Let_def)

lemma procLocks_GrantLock:
  "procLocks (GrantLock lock p m) = procLocks (upd_proclock p (\<lambda>k. k OR LOCKBIT_ON m) lock)"
  by (simp add: GrantLock_def Let_def upd_proclock_def)

lemma GrantLock_waitProcs:
  "GrantLock (lock\<lparr>waitProcs := q\<rparr>) p m = (GrantLock lock p m)\<lparr>waitProcs := q\<rparr>"
  by (simp add: GrantLock_def Let_def upd_proclock_def)

lemma counts_okD:
  assumes "counts_ok ps pending lock"
  shows "distinct (map myProc (procLocks lock))"
    "granted lock i = held_count i (procLocks lock)"
    "nGranted lock = (\<Sum>i \<in> Collect valid_mode. granted lock i)"
    "requested lock i = granted lock i + mode_count i (wait_modes ps lock @ pending)"
    "nRequested lock = (\<Sum>i \<in> Collect valid_mode. requested lock i)"
    "bit (grantMask lock) i \<longleftrightarrow> granted lock i \<noteq> 0"
    "p \<in> set (waitProcs lock) \<Longrightarrow> bit (waitMask lock) (waitLockMode (ps p))"
    "bit (waitMask lock) i \<Longrightarrow> i \<in> set (wait_modes ps lock @ pending)"
    "p \<in> set (waitProcs lock) \<Longrightarrow> valid_mode (waitLockMode (ps p))"
    "m \<in> set pending \<Longrightarrow> valid_mode m"
  using assms unfolding counts_ok_def by auto

lemma counts_ok_distinct: "counts_ok ps pending lock \<Longrightarrow> distinct (map myProc (procLocks lock))"
  by (simp add: counts_ok_def)

lemma counts_ok_hold: "counts_ok ps pending lock \<Longrightarrow> pl \<in> set (procLocks lock) \<Longrightarrow> bit (holdMask pl) i \<Longrightarrow> valid_mode i"
  by (auto simp: counts_ok_def)

lemma sum_modes_upd:
  "valid_mode m \<Longrightarrow> (\<Sum>i \<in> Collect valid_mode. (f(m := f m + k)) i) = (\<Sum>i \<in> Collect valid_mode. f i) + k"
  for k :: int
proof -
  assume "valid_mode m"
  then have "(\<Sum>i \<in> Collect valid_mode. (f(m := f m + k)) i) =
      (\<Sum>i \<in> Collect valid_mode. f i + (if i = m then k else 0))"
    by (intro sum.cong) auto
  also have "\<dots> = (\<Sum>i \<in> Collect valid_mode. f i) + k"
    using \<open>valid_mode m\<close> by (simp add: sum.distrib)
  finally show ?thesis .
qed

lemma counts_GrantLock:
  assumes ok: "counts_ok ps [m] lock" and pl: "pl \<in> set (procLocks lock)" "myProc pl = p"
    and free: "\<not> bit (holdMask pl) m"
  shows "counts_ok ps [] (GrantLock lock p m)"
proof -
  note d = counts_ok_distinct [OF ok]
  have v: "valid_mode m" using ok by (simp add: counts_ok_def)
  have held: "held_count i (procLocks (GrantLock lock p m)) = held_count i (procLocks lock) + of_bool (i = m)" for i
    using free v by (auto simp: procLocks_GrantLock held_count_upd [OF d pl] bit_or_ON)
  have g: "granted (GrantLock lock p m) i = granted lock i + of_bool (i = m)" for i by simp
  have w: "granted lock m + 1 = requested lock m \<longleftrightarrow> m \<notin> set (wait_modes ps lock)"
    using ok mode_count_zero [of m "wait_modes ps lock"] by (auto simp: counts_ok_def)
  have bits: "\<forall>x \<in> set (procLocks (GrantLock lock p m)). \<forall>i. bit (holdMask x) i \<longrightarrow> valid_mode i"
    using ok v by (auto simp: counts_ok_def procLocks_GrantLock upd_proclock_set bit_or_ON split: if_splits)
  have gm: "bit (grantMask (GrantLock lock p m)) i \<longleftrightarrow> granted (GrantLock lock p m) i \<noteq> 0" for i
  proof -
    have "0 \<le> granted lock m" by (simp add: counts_okD [OF ok])
    moreover have "bit (grantMask lock) i \<longleftrightarrow> granted lock i \<noteq> 0" by (rule counts_okD [OF ok])
    ultimately show ?thesis using v by (auto simp: bit_or_ON)
  qed
  have wm: "bit (waitMask (GrantLock lock p m)) i \<longleftrightarrow> i \<in> set (wait_modes ps lock)" for i
    using ok w by (auto simp: counts_ok_def bit_and_OFF split: if_splits)
  have "distinct (map myProc (procLocks (GrantLock lock p m)))"
    using d by (simp add: procLocks_GrantLock)
  moreover have "granted (GrantLock lock p m) i = held_count i (procLocks (GrantLock lock p m))" for i
    using ok unfolding g held by (simp add: counts_ok_def)
  moreover have "nGranted (GrantLock lock p m) = (\<Sum>i \<in> Collect valid_mode. granted (GrantLock lock p m) i)"
    using ok sum_modes_upd [OF v, of "granted lock" 1] by (simp add: counts_ok_def)
  moreover have "requested lock i = granted (GrantLock lock p m) i + mode_count i (wait_modes ps lock)" for i
    using ok unfolding g by (auto simp: counts_ok_def)
  moreover have "nRequested lock = (\<Sum>i \<in> Collect valid_mode. requested lock i)"
    "\<forall>k \<in> set (wait_modes ps lock). valid_mode k"
    using ok by (simp_all add: counts_ok_def)
  ultimately show ?thesis
    unfolding counts_ok_def using gm wm bits by auto
qed

lemma queue_upd_proclock:
  assumes "queue_ok ps tag lock" "procLocks lock' = procLocks (upd_proclock p f lock)"
    "waitProcs lock' = waitProcs lock"
    "p \<in> set (waitProcs lock) \<Longrightarrow> (\<And>k. bit (f k) (waitLockMode (ps p)) \<Longrightarrow> bit k (waitLockMode (ps p)))"
  shows "queue_ok ps tag lock'"
proof -
  have "\<exists>pl \<in> set (procLocks lock'). myProc pl = w \<and> \<not> bit (holdMask pl) (waitLockMode (ps w))"
    if w: "w \<in> set (waitProcs lock)" for w
  proof -
    obtain pl where pl: "pl \<in> set (procLocks lock)" "myProc pl = w" "\<not> bit (holdMask pl) (waitLockMode (ps w))"
      using assms(1) w by (auto simp: queue_ok_def)
    let ?pl = "if myProc pl = p then pl\<lparr>holdMask := f (holdMask pl)\<rparr> else pl"
    have "?pl \<in> set (procLocks lock')"
      unfolding assms(2) upd_proclock_set using pl(1) by blast
    moreover have "myProc ?pl = w" "\<not> bit (holdMask ?pl) (waitLockMode (ps w))"
      using pl assms(4) w by auto
    ultimately show ?thesis by blast
  qed
  moreover have "groupLeader x = group_of ps (myProc x)" if "x \<in> set (procLocks lock')" for x
    using that assms(1) unfolding assms(2) upd_proclock_set queue_ok_def by auto
  ultimately show ?thesis
    using assms(1,3) unfolding queue_ok_def by simp
qed

lemma foreign_mono_Grant:
  "foreign_conflict lock g k \<Longrightarrow> foreign_conflict (GrantLock lock p m) g k"
proof -
  assume "foreign_conflict lock g k"
  then obtain pl j where pl: "pl \<in> set (procLocks lock)" "groupLeader pl \<noteq> g"
      "j \<in> set [1..<Suc numLockModes]" "bit (holdMask pl) j" "DoLockModesConflict k j"
    unfolding foreign_conflict_def by blast
  let ?pl = "if myProc pl = p then pl\<lparr>holdMask := holdMask pl OR LOCKBIT_ON m\<rparr> else pl"
  have "?pl \<in> set (procLocks (GrantLock lock p m))"
    unfolding procLocks_GrantLock upd_proclock_set using pl(1) by blast
  moreover have "groupLeader ?pl \<noteq> g" "bit (holdMask ?pl) j"
    using pl by (simp_all add: bit_or_iff)
  ultimately show ?thesis unfolding foreign_conflict_def using pl(3,5) by blast
qed

lemma compatible_GrantLock:
  assumes comp: "compatible lock" and ok: "counts_ok ps pending lock" and q: "queue_ok ps tag lock"
    and free: "\<not> foreign_conflict lock (group_of ps p) m"
  shows "compatible (GrantLock lock p m)"
proof -
  have grp: "groupLeader x = group_of ps (myProc x)" if "x \<in> set (procLocks lock)" for x
    using q that by (simp add: queue_ok_def)
  have bits: "\<forall>pl \<in> set (procLocks lock). \<forall>i. bit (holdMask pl) i \<longrightarrow> valid_mode i"
    using ok by (simp add: counts_ok_def)
  have fr: "\<not> DoLockModesConflict m j"
    if "x \<in> set (procLocks lock)" "groupLeader x \<noteq> group_of ps p" "bit (holdMask x) j" for x j
    using free that unfolding foreign_conflict_bits [OF bits] by blast
  have "\<not> DoLockModesConflict i j"
    if x: "x \<in> set (procLocks (GrantLock lock p m))" and y: "y \<in> set (procLocks (GrantLock lock p m))"
      and ne: "groupLeader x \<noteq> groupLeader y" and bi: "bit (holdMask x) i" and bj: "bit (holdMask y) j" for x y i j
  proof -
    obtain x' y' where x': "x' \<in> set (procLocks lock)"
        "x = (if myProc x' = p then x'\<lparr>holdMask := holdMask x' OR LOCKBIT_ON m\<rparr> else x')"
      and y': "y' \<in> set (procLocks lock)"
        "y = (if myProc y' = p then y'\<lparr>holdMask := holdMask y' OR LOCKBIT_ON m\<rparr> else y')"
      using x y unfolding procLocks_GrantLock upd_proclock_set by blast
    have g: "groupLeader x' = groupLeader x" "groupLeader y' = groupLeader y" using x' y' by auto
    have I: "bit (holdMask x') i \<or> (myProc x' = p \<and> i = m)" and J: "bit (holdMask y') j \<or> (myProc y' = p \<and> j = m)"
      using bi bj x'(2) y'(2) by (auto simp: bit_or_ON split: if_splits)
    have old: "\<not> DoLockModesConflict i j" if "bit (holdMask x') i" "bit (holdMask y') j"
      using comp x'(1) y'(1) ne g that unfolding compatible_def by metis
    show ?thesis
      using I J old fr [OF y'(1)] fr [OF x'(1)] grp [OF x'(1)] grp [OF y'(1)] ne g conflict_sym by metis
  qed
  then show ?thesis unfolding compatible_def by blast
qed

section \<open>Waking waiters\<close>

lemma counts_cong:
  assumes "counts_ok ps pending lock" "\<And>p. p \<in> set (waitProcs lock) \<Longrightarrow> waitLockMode (ps' p) = waitLockMode (ps p)"
  shows "counts_ok ps' pending lock"
proof -
  have "wait_modes ps' lock = wait_modes ps lock" using assms(2) by simp
  with assms(1) show ?thesis unfolding counts_ok_def by presburger
qed

lemma counts_dequeue:
  assumes ok: "counts_ok ps [] lock" and p: "p \<in> set (waitProcs lock)"
  shows "counts_ok ps [waitLockMode (ps p)] (lock\<lparr>waitProcs := remove1 p (waitProcs lock)\<rparr>)"
proof -
  let ?q = "map (\<lambda>p. waitLockMode (ps p)) (remove1 p (waitProcs lock))"
  have c: "mode_count i (wait_modes ps lock) = mode_count i ?q + of_bool (waitLockMode (ps p) = i)" for i
    using mode_count_remove1 [OF p] by simp
  have mem: "i \<in> set (wait_modes ps lock) \<Longrightarrow> i \<in> set ?q \<or> i = waitLockMode (ps p)" for i
    by (auto simp: image_iff) (metis in_set_remove1)
  have sub: "set (remove1 p (waitProcs lock)) \<subseteq> set (waitProcs lock)" by (rule set_remove1_subset)
  have wm: "bit (waitMask lock) i \<Longrightarrow> i \<in> set ?q \<or> i = waitLockMode (ps p)" for i
    using counts_okD(8) [OF ok, of i] mem [of i] by simp
  show ?thesis
    unfolding counts_ok_def using counts_okD [OF ok] c p sub counts_ok_hold [OF ok]
    by (auto dest: wm)
qed

definition wake :: "proc \<Rightarrow> lock_procs \<times> LOCK \<Rightarrow> lock_procs \<times> LOCK" where
  "wake p s = ProcWakeup p STATUS_OK (fst s, GrantLock (snd s) p (waitLockMode (fst s p)))"

lemma wake_simps:
  "wake p (ps, lock) = (ps(p := (ps p)\<lparr>waitLock := None, waitStatus := STATUS_OK\<rparr>),
     GrantLock (lock\<lparr>waitProcs := remove1 p (waitProcs lock)\<rparr>) p (waitLockMode (ps p)))"
  by (simp add: wake_def ProcWakeup_def GrantLock_waitProcs)

lemma group_of_cong: "lockGroupLeader (ps' p) = lockGroupLeader (ps p) \<Longrightarrow> group_of ps' p = group_of ps p"
  by (simp add: group_of_def)

text \<open>What the wake-up of waiters leaves of the process fields.\<close>

definition same_request :: "lock_procs \<Rightarrow> lock_procs \<Rightarrow> bool" where
  "same_request ps ps' \<longleftrightarrow> (\<forall>p. lockGroupLeader (ps' p) = lockGroupLeader (ps p)
     \<and> waitLockMode (ps' p) = waitLockMode (ps p) \<and> heldLocks (ps' p) = heldLocks (ps p))"

lemma same_request_refl [simp]: "same_request ps ps"
  by (simp add: same_request_def)

lemma same_request_trans: "same_request ps ps' \<Longrightarrow> same_request ps' ps'' \<Longrightarrow> same_request ps ps''"
  by (simp add: same_request_def)

lemma same_group: "same_request ps ps' \<Longrightarrow> group_of ps' p = group_of ps p"
  by (simp add: same_request_def group_of_def)

lemma groups_ok_same: "same_request ps ps' \<Longrightarrow> groups_ok ps' \<longleftrightarrow> groups_ok ps"
  by (simp add: same_request_def groups_ok_def)

lemma blocked_mono:
  assumes "blocked ps lock A p" "same_request ps ps'" "A \<subseteq> B"
    "\<And>g k. foreign_conflict lock g k \<Longrightarrow> foreign_conflict lock' g k"
  shows "blocked ps' lock' B p"
  using assms by (auto simp: blocked_def same_request_def group_of_def)

lemma all_blocked_mono:
  assumes "all_blocked ps lock A q" "same_request ps ps'" "A \<subseteq> B"
    "\<And>g k. foreign_conflict lock g k \<Longrightarrow> foreign_conflict lock' g k"
  shows "all_blocked ps' lock' B q"
  using assms
proof (induction q arbitrary: A B)
  case (Cons p q)
  have "blocked ps' lock' B p" by (rule blocked_mono [of ps lock A]) (use Cons.prems in auto)
  moreover have "all_blocked ps' lock' (insert p B) q"
    by (rule Cons.IH [of "insert p A"]) (use Cons.prems in auto)
  ultimately show ?case by simp
qed simp

lemma all_blocked_append:
  "all_blocked ps lock A (q @ r) \<longleftrightarrow> all_blocked ps lock A q \<and> all_blocked ps lock (A \<union> set q) r"
proof (induction q arbitrary: A)
  case (Cons p q)
  have "insert p A \<union> set q = A \<union> set (p # q)" by auto
  with Cons show ?case by simp
qed simp

lemma foreign_waitProcs [simp]: "foreign_conflict (lock\<lparr>waitProcs := q\<rparr>) = foreign_conflict lock"
  by (auto simp: fun_eq_iff foreign_conflict_def)

lemma no_garbage_GrantLock:
  assumes "no_garbage lock {p}" "valid_mode m"
  shows "no_garbage (GrantLock lock p m) {}"
  unfolding no_garbage_def
proof
  fix x assume "x \<in> set (procLocks (GrantLock lock p m))"
  then obtain y where y: "y \<in> set (procLocks lock)"
      "x = (if myProc y = p then y\<lparr>holdMask := holdMask y OR LOCKBIT_ON m\<rparr> else y)"
    unfolding procLocks_GrantLock upd_proclock_set by blast
  have "LOCKBIT_ON m \<noteq> 0" using assms(2) by (auto simp: mask_zero_bits bit_LOCKBIT_ON)
  then show "holdMask x \<noteq> 0 \<or> myProc x \<in> set (waitProcs (GrantLock lock p m)) \<union> {}"
    using y assms(1) by (cases "myProc y = p") (auto simp: no_garbage_def or_eq_0_iff_word)
qed

text \<open>The state of an object during a scan, without the claim that the waiters are blocked.\<close>

definition scan_inv :: "lock_procs \<Rightarrow> LOCKTAG \<Rightarrow> LOCK \<Rightarrow> bool" where
  "scan_inv ps tag lock \<longleftrightarrow> counts_ok ps [] lock \<and> queue_ok ps tag lock \<and> compatible lock \<and> no_garbage lock {}"

lemma wake_inv:
  assumes inv: "scan_inv ps tag lock" and p: "p \<in> set (waitProcs lock)"
    and free: "\<not> foreign_conflict lock (group_of ps p) (waitLockMode (ps p))"
  shows "scan_inv (fst (wake p (ps, lock))) tag (snd (wake p (ps, lock)))"
proof -
  let ?m = "waitLockMode (ps p)"
  let ?ps = "ps(p := (ps p)\<lparr>waitLock := None, waitStatus := STATUS_OK\<rparr>)"
  let ?lock = "lock\<lparr>waitProcs := remove1 p (waitProcs lock)\<rparr>"
  have ok: "counts_ok ps [] lock" and q: "queue_ok ps tag lock" and comp: "compatible lock"
    and ng: "no_garbage lock {}"
    using inv by (auto simp: scan_inv_def)
  obtain pl where pl: "pl \<in> set (procLocks lock)" "myProc pl = p" "\<not> bit (holdMask pl) ?m"
    using q p by (auto simp: queue_ok_def)
  have d: "distinct (waitProcs lock)" using q by (simp add: queue_ok_def)
  have sr: "same_request ps ?ps" by (simp add: same_request_def)
  have ok': "counts_ok ps [?m] ?lock" by (rule counts_dequeue [OF ok p])
  have "counts_ok ps [] (GrantLock ?lock p ?m)"
    by (rule counts_GrantLock [OF ok']) (use pl in auto)
  then have C: "counts_ok ?ps [] (GrantLock ?lock p ?m)"
    by (rule counts_cong) simp
  have q': "queue_ok ?ps tag ?lock"
    using q d by (auto simp: queue_ok_def group_of_def)
  have Q: "queue_ok ?ps tag (GrantLock ?lock p ?m)"
    by (rule queue_upd_proclock [OF q' procLocks_GrantLock]) (use d in auto)
  have comp': "compatible ?lock" using comp by (simp add: compatible_def)
  have Cp: "compatible (GrantLock ?lock p ?m)"
  proof (rule compatible_GrantLock [OF comp' _ q'])
    show "counts_ok ?ps [?m] ?lock" by (rule counts_cong [OF ok']) simp
    show "\<not> foreign_conflict ?lock (group_of ?ps p) ?m"
      using free by (simp add: same_group [OF sr])
  qed
  have N: "no_garbage (GrantLock ?lock p ?m) {}"
    by (rule no_garbage_GrantLock) (use ng d counts_okD(9) [OF ok p] in \<open>auto simp: no_garbage_def\<close>)
  show ?thesis using C Q Cp N by (simp add: scan_inv_def wake_simps)
qed

lemma scan_inv_proclock:
  assumes "scan_inv ps tag lock" "p \<in> set (waitProcs lock)"
  obtains pl where "find_proclock lock p = Some pl" "pl \<in> set (procLocks lock)" "myProc pl = p"
proof -
  obtain pl where "pl \<in> set (procLocks lock)" "myProc pl = p"
    using assms by (auto simp: scan_inv_def queue_ok_def)
  moreover have "distinct (map myProc (procLocks lock))"
    using assms counts_ok_distinct by (auto simp: scan_inv_def)
  ultimately show ?thesis using that by (simp add: find_proclock_Some)
qed

lemma wakeup_loop_step:
  assumes inv: "scan_inv ps tag lock" and grp: "groups_ok ps" and p: "p \<in> set (waitProcs lock)"
    and ahead: "\<forall>i. bit aheadRequests i \<longleftrightarrow> i \<in> (\<lambda>w. waitLockMode (ps w)) ` K"
  shows "wakeup_loop me (p # q) aheadRequests (ps, lock) =
    (if blocked ps lock K p
     then wakeup_loop me q (aheadRequests OR LOCKBIT_ON (waitLockMode (ps p))) (ps, lock)
     else wakeup_loop me q aheadRequests (wake p (ps, lock)))"
proof -
  obtain pl where pl: "find_proclock lock p = Some pl" "pl \<in> set (procLocks lock)" "myProc pl = p"
    by (rule scan_inv_proclock [OF inv p])
  have "LockCheckConflicts ps me (waitLockMode (ps p)) lock pl =
      Inr (foreign_conflict lock (group_of ps p) (waitLockMode (ps p)))"
    using check_result [OF grp, of tag lock "[]" pl] inv pl by (simp add: scan_inv_def)
  moreover have "flag (conflictTab (waitLockMode (ps p))) aheadRequests \<longleftrightarrow>
      (\<exists>w \<in> K. DoLockModesConflict (waitLockMode (ps p)) (waitLockMode (ps w)))"
    using ahead by (auto simp: flag_conflictTab)
  ultimately show ?thesis
    using pl(1) by (auto simp: Let_def blocked_def wake_def split: bool.splits)
qed

text \<open>
  The scan keeps the invariant of the object, and every process it leaves in the queue is
  blocked. \<open>kept\<close> are the waiters passed without being woken.
\<close>

lemma wakeup_loop_result:
  assumes "scan_inv ps tag lock" "groups_ok ps" "waitProcs lock = kept @ q"
    "\<forall>i. bit aheadRequests i \<longleftrightarrow> i \<in> (\<lambda>w. waitLockMode (ps w)) ` set kept" "all_blocked ps lock {} kept"
  shows "\<exists>ps' lock'. wakeup_loop me q aheadRequests (ps, lock) = Inr (ps', lock') \<and> scan_inv ps' tag lock'
    \<and> all_blocked ps' lock' {} (waitProcs lock') \<and> same_request ps ps' \<and> nRequested lock' = nRequested lock
    \<and> (\<forall>p. p \<notin> set q \<longrightarrow> ps' p = ps p) \<and> set kept \<subseteq> set (waitProcs lock')
    \<and> (\<forall>p \<in> set q. p \<in> set (waitProcs lock') \<or> waitLock (ps' p) = None)
    \<and> (\<forall>p \<in> set (waitProcs lock'). ps' p = ps p)
    \<and> map groupLeader (procLocks lock') = map groupLeader (procLocks lock)"
  using assms
proof (induction q arbitrary: ps lock kept aheadRequests)
  case Nil
  then show ?case by auto
next
  case (Cons p q)
  have p: "p \<in> set (waitProcs lock)" using Cons.prems(3) by simp
  have d: "distinct (kept @ p # q)" using Cons.prems(1,3) by (auto simp: scan_inv_def queue_ok_def)
  note step = wakeup_loop_step [OF Cons.prems(1,2) p Cons.prems(4), of me q]
  show ?case
  proof (cases "blocked ps lock (set kept) p")
    case True
    let ?a = "aheadRequests OR LOCKBIT_ON (waitLockMode (ps p))"
    have v: "waitLockMode (ps p) < 32"
      using Cons.prems(1) p counts_okD(9) by (auto simp: scan_inv_def)
    have "\<forall>i. bit ?a i \<longleftrightarrow> i \<in> (\<lambda>w. waitLockMode (ps w)) ` set (kept @ [p])"
      using Cons.prems(4) v by (auto simp: bit_or_ON)
    moreover have "all_blocked ps lock {} (kept @ [p])"
      using Cons.prems(5) True by (simp add: all_blocked_append)
    ultimately obtain ps' lock' where r: "wakeup_loop me q ?a (ps, lock) = Inr (ps', lock')" "scan_inv ps' tag lock'"
        "all_blocked ps' lock' {} (waitProcs lock')" "same_request ps ps'" "nRequested lock' = nRequested lock"
        "\<forall>p. p \<notin> set q \<longrightarrow> ps' p = ps p" "set (kept @ [p]) \<subseteq> set (waitProcs lock')"
        "\<forall>p \<in> set q. p \<in> set (waitProcs lock') \<or> waitLock (ps' p) = None"
        "\<forall>p \<in> set (waitProcs lock'). ps' p = ps p"
        "map groupLeader (procLocks lock') = map groupLeader (procLocks lock)"
      using Cons.IH [OF Cons.prems(1,2), of "kept @ [p]" ?a] Cons.prems(3) by auto
    with step True show ?thesis by auto
  next
    case False
    obtain ps1 lock1 where w: "wake p (ps, lock) = (ps1, lock1)" by fastforce
    have e: "ps1 = ps(p := (ps p)\<lparr>waitLock := None, waitStatus := STATUS_OK\<rparr>)"
      "lock1 = GrantLock (lock\<lparr>waitProcs := remove1 p (waitProcs lock)\<rparr>) p (waitLockMode (ps p))"
      using w by (simp_all add: wake_simps)
    have inv1: "scan_inv ps1 tag lock1"
      using wake_inv [OF Cons.prems(1) p] False w by (simp add: blocked_def)
    have sr: "same_request ps ps1" by (simp add: e same_request_def)
    have grp1: "groups_ok ps1" using Cons.prems(2) groups_ok_same [OF sr] by simp
    have q1: "waitProcs lock1 = kept @ q"
      using Cons.prems(3) d by (simp add: e remove1_append)
    have fm: "foreign_conflict lock1 g k" if "foreign_conflict lock g k" for g k
      unfolding e by (rule foreign_mono_Grant) (use that in simp)
    have b1: "all_blocked ps1 lock1 {} kept"
      by (rule all_blocked_mono [OF Cons.prems(5) sr]) (use fm in auto)
    have a1: "\<forall>i. bit aheadRequests i \<longleftrightarrow> i \<in> (\<lambda>w. waitLockMode (ps1 w)) ` set kept"
      using Cons.prems(4) sr by (simp add: same_request_def)
    obtain ps' lock' where r: "wakeup_loop me q aheadRequests (ps1, lock1) = Inr (ps', lock')" "scan_inv ps' tag lock'"
        "all_blocked ps' lock' {} (waitProcs lock')" "same_request ps1 ps'" "nRequested lock' = nRequested lock1"
        "\<forall>p. p \<notin> set q \<longrightarrow> ps' p = ps1 p" "set kept \<subseteq> set (waitProcs lock')"
        "\<forall>p \<in> set q. p \<in> set (waitProcs lock') \<or> waitLock (ps' p) = None"
        "\<forall>p \<in> set (waitProcs lock'). ps' p = ps1 p"
        "map groupLeader (procLocks lock') = map groupLeader (procLocks lock1)"
      using Cons.IH [OF inv1 grp1 q1 a1 b1] by blast
    have np: "waitLock (ps' p) = None" using r(6) d by (simp add: e)
    then have "p \<notin> set (waitProcs lock')" using r(2) by (auto simp: scan_inv_def queue_ok_def)
    moreover have "map groupLeader (procLocks lock1) = map groupLeader (procLocks lock)"
      by (simp add: e procLocks_GrantLock procLocks_upd)
    ultimately show ?thesis
      using step False w r np same_request_trans [OF sr r(4)] e by auto
  qed
qed

lemma ProcLockWakeup_result:
  assumes "scan_inv ps tag lock" "groups_ok ps"
  shows "\<exists>ps' lock'. ProcLockWakeup me (ps, lock) = Inr (ps', lock') \<and> scan_inv ps' tag lock'
    \<and> all_blocked ps' lock' {} (waitProcs lock') \<and> same_request ps ps' \<and> nRequested lock' = nRequested lock
    \<and> (\<forall>p. p \<notin> set (waitProcs lock) \<longrightarrow> ps' p = ps p)
    \<and> (\<forall>p \<in> set (waitProcs lock). p \<in> set (waitProcs lock') \<or> waitLock (ps' p) = None)
    \<and> (\<forall>p \<in> set (waitProcs lock'). ps' p = ps p)"
  using wakeup_loop_result [OF assms, of "[]" "waitProcs lock" 0 me]
  by (auto simp: ProcLockWakeup_def)

end
