(* ===== verification/Lock_Ops.thy ===== *)
theory Lock_Ops
  imports Lock_Props
begin

text \<open>
  The sections of the lock manager keep the invariant of the lock object they work on and of
  the processes that wait for it, and never meet an inconsistency.
\<close>

section \<open>Frames\<close>

lemma all_blocked_frame:
  assumes "all_blocked ps lock A q" "A \<subseteq> B"
    "\<And>p. p \<in> set q \<union> A \<Longrightarrow> waitLockMode (ps' p) = waitLockMode (ps p)"
    "\<And>p. p \<in> set q \<Longrightarrow> group_of ps' p = group_of ps p"
    "\<And>p g. p \<in> set q \<Longrightarrow> foreign_conflict lock g (waitLockMode (ps p)) \<Longrightarrow> foreign_conflict lock' g (waitLockMode (ps p))"
  shows "all_blocked ps' lock' B q"
  using assms
proof (induction q arbitrary: A B)
  case (Cons p q)
  have m: "waitLockMode (ps' p) = waitLockMode (ps p)" "group_of ps' p = group_of ps p"
    and A: "\<And>w. w \<in> A \<Longrightarrow> w \<in> B \<and> waitLockMode (ps' w) = waitLockMode (ps w)"
    using Cons.prems(2-4) by auto
  have "blocked ps lock A p" using Cons.prems(1) by simp
  then have "blocked ps' lock' B p"
    unfolding blocked_def m using A Cons.prems(5) [of p] by (metis list.set_intros(1))
  moreover have "all_blocked ps' lock' (insert p B) q"
    by (rule Cons.IH [of "insert p A"]) (use Cons.prems in auto)
  ultimately show ?case by simp
qed simp

lemma lock_inv_frame:
  assumes inv: "lock_inv ps tag lock" and w: "\<And>p. p \<in> set (waitProcs lock) \<Longrightarrow> ps' p = ps p"
    and g: "\<And>p. p \<in> myProc ` set (procLocks lock) \<Longrightarrow> group_of ps' p = group_of ps p"
  shows "lock_inv ps' tag lock"
proof -
  have sub: "set (waitProcs lock) \<subseteq> myProc ` set (procLocks lock)"
    using inv by (auto simp: lock_inv_def queue_ok_def)
  have "counts_ok ps' [] lock"
    by (rule counts_cong [of ps]) (use inv w in \<open>auto simp: lock_inv_def\<close>)
  moreover have "queue_ok ps' tag lock"
    using inv w g by (simp add: lock_inv_def queue_ok_def)
  moreover have "all_blocked ps' lock {} (waitProcs lock)"
    by (rule all_blocked_frame [of ps lock "{}"]) (use inv w g sub in \<open>auto simp: lock_inv_def\<close>)
  ultimately show ?thesis using inv by (simp add: lock_inv_def)
qed

definition waiters :: "LOCK option \<Rightarrow> proc set" where
  "waiters lo = (case lo of None \<Rightarrow> {} | Some lock \<Rightarrow> set (waitProcs lock))"

lemma waiters_simps [simp]: "waiters None = {}" "waiters (Some lock) = set (waitProcs lock)"
  by (simp_all add: waiters_def)

definition obj_ok :: "lock_procs \<Rightarrow> LOCKTAG \<Rightarrow> LOCK option \<Rightarrow> bool" where
  "obj_ok ps tag lo \<longleftrightarrow> (\<forall>lock. lo = Some lock \<longrightarrow> lock_inv ps tag lock)"

lemma obj_ok_simps [simp]: "obj_ok ps tag None" "obj_ok ps tag (Some lock) \<longleftrightarrow> lock_inv ps tag lock"
  by (simp_all add: obj_ok_def)

text \<open>
  A section on one object changes the fields of the processes \<open>P\<close> only, and leaves each of them
  either in the queue of the object or not waiting.
\<close>

definition settles :: "proc set \<Rightarrow> lock_procs \<Rightarrow> lock_procs \<Rightarrow> LOCK option \<Rightarrow> bool" where
  "settles P ps ps' lo \<longleftrightarrow> (\<forall>p. lockGroupLeader (ps' p) = lockGroupLeader (ps p))
     \<and> (\<forall>p. p \<notin> P \<longrightarrow> ps' p = ps p) \<and> (\<forall>p \<in> P. p \<in> waiters lo \<or> waitLock (ps' p) = None)"

definition table_inv :: "lock_table \<Rightarrow> bool" where
  "table_inv t \<longleftrightarrow> groups_ok (procs t) \<and> (\<forall>tag. obj_ok (procs t) tag (locks t tag))
     \<and> (\<forall>p tag. waitLock (procs t p) = Some tag \<longrightarrow> p \<in> waiters (locks t tag))"

lemma obj_ok_waits: "obj_ok ps tag lo \<Longrightarrow> p \<in> waiters lo \<Longrightarrow> waitLock (ps p) = Some tag"
  by (cases lo) (auto simp: lock_inv_def queue_ok_def)

lemma put_lock_inv:
  assumes t: "table_inv t" and o: "obj_ok ps' tag lo" and s: "settles P (procs t) ps' lo"
    and P: "waiters (locks t tag) \<subseteq> P" "\<And>p. p \<in> P \<Longrightarrow> p \<in> waiters (locks t tag) \<or> waitLock (procs t p) = None"
  shows "table_inv (put_lock t tag (ps', lo))"
proof -
  have lead: "lockGroupLeader (ps' p) = lockGroupLeader (procs t p)" for p
    using s by (simp add: settles_def)
  have grp: "group_of ps' p = group_of (procs t) p" for p by (rule group_of_cong [OF lead])
  have other: "obj_ok ps' tag' (locks t tag')" if "tag' \<noteq> tag" for tag'
    unfolding obj_ok_def
  proof (intro allI impI)
    fix lock assume l: "locks t tag' = Some lock"
    then have inv: "lock_inv (procs t) tag' lock" using t by (auto simp: table_inv_def obj_ok_def)
    have same: "ps' p = procs t p" if "p \<in> set (waitProcs lock)" for p
    proof -
      have "waitLock (procs t p) = Some tag'" using inv that by (auto simp: lock_inv_def queue_ok_def)
      with \<open>tag' \<noteq> tag\<close> have "p \<notin> P" using P(2) t obj_ok_waits by (fastforce simp: table_inv_def)
      then show ?thesis using s by (simp add: settles_def)
    qed
    show "lock_inv ps' tag' lock" by (rule lock_inv_frame [OF inv same]) (use grp in auto)
  qed
  have link: "p \<in> waiters (((locks t)(tag := lo)) tg)" if w: "waitLock (ps' p) = Some tg" for p tg
  proof (cases "p \<in> P")
    case True
    then have "p \<in> waiters lo" using s w by (auto simp: settles_def)
    then show ?thesis using obj_ok_waits [OF o] w by auto
  next
    case False
    then have "ps' p = procs t p" using s by (simp add: settles_def)
    with w t have "p \<in> waiters (locks t tg)" by (auto simp: table_inv_def)
    moreover from this False P(1) have "tg \<noteq> tag" by auto
    ultimately show ?thesis by simp
  qed
  show ?thesis
    using t o other link lead by (auto simp: table_inv_def put_lock_def groups_ok_def)
qed

section \<open>Clean-up\<close>

lemma del_proclock_simps [simp]:
  "grantMask (del_proclock p lock) = grantMask lock" "waitMask (del_proclock p lock) = waitMask lock"
  "waitProcs (del_proclock p lock) = waitProcs lock" "requested (del_proclock p lock) = requested lock"
  "nRequested (del_proclock p lock) = nRequested lock" "granted (del_proclock p lock) = granted lock"
  "nGranted (del_proclock p lock) = nGranted lock"
  "procLocks (del_proclock p lock) = filter (\<lambda>pl. myProc pl \<noteq> p) (procLocks lock)"
  by (simp_all add: del_proclock_def)

lemma distinct_map_filter: "distinct (map f xs) \<Longrightarrow> distinct (map f (filter P xs))"
  by (induction xs) auto

lemma counts_del:
  assumes ok: "counts_ok ps pending lock" and pl: "pl \<in> set (procLocks lock)" "myProc pl = p" "holdMask pl = 0"
  shows "counts_ok ps pending (del_proclock p lock)"
proof -
  have "held_count i (procLocks (del_proclock p lock)) = held_count i (procLocks lock)" for i
    using held_count_other [OF counts_ok_distinct [OF ok] pl(1)] pl by simp
  then show ?thesis
    using ok unfolding counts_ok_def
    by (auto simp: distinct_map_filter simp del: mode_count_simps)
qed

lemma only_proclock:
  assumes "counts_ok ps pending lock" "pl \<in> set (procLocks lock)" "x \<in> set (procLocks lock)" "myProc x = myProc pl"
  shows "x = pl"
  using counts_ok_distinct [OF assms(1)] assms(2-) by (auto simp: distinct_map inj_on_def)

lemma queue_del: "queue_ok ps tag lock \<Longrightarrow> p \<notin> set (waitProcs lock) \<Longrightarrow> queue_ok ps tag (del_proclock p lock)"
  by (fastforce simp: queue_ok_def)

lemma compatible_del: "compatible lock \<Longrightarrow> compatible (del_proclock p lock)"
  by (auto simp: compatible_def)

lemma foreign_del:
  assumes "counts_ok ps pending lock" "pl \<in> set (procLocks lock)" "myProc pl = p" "holdMask pl = 0"
  shows "foreign_conflict (del_proclock p lock) = foreign_conflict lock"
proof -
  have "x = pl" if "x \<in> set (procLocks lock)" "myProc x = p" for x
    using only_proclock [OF assms(1,2) that(1)] that(2) assms(3) by simp
  then show ?thesis
    using assms(4) by (auto simp: fun_eq_iff foreign_conflict_def)
qed

text \<open>An object on which the process \<open>p\<close> has given up locks or its place in the queue.\<close>

definition released :: "lock_procs \<Rightarrow> LOCKTAG \<Rightarrow> proc \<Rightarrow> bool \<Rightarrow> LOCK \<Rightarrow> bool" where
  "released ps tag p wakeupNeeded lock \<longleftrightarrow> counts_ok ps [] lock \<and> queue_ok ps tag lock \<and> compatible lock
     \<and> no_garbage lock {p} \<and> p \<notin> set (waitProcs lock)
     \<and> (wakeupNeeded \<or> all_blocked ps lock {} (waitProcs lock))"

lemma nRequested_zero:
  assumes "counts_ok ps [] lock" "nRequested lock = 0"
  shows "waitProcs lock = []"
proof -
  have "0 \<le> nGranted lock"
    unfolding counts_okD(3) [OF assms(1)] by (rule sum_nonneg) (simp add: counts_okD(2) [OF assms(1)])
  with nRequested_count [OF assms(1)] assms(2) have "length (waitProcs lock) = 0" by linarith
  then show ?thesis by simp
qed

lemma CleanUpLock_result:
  assumes rel: "released ps tag p wakeupNeeded lock" and grp: "groups_ok ps"
    and pl: "pl \<in> set (procLocks lock)" "myProc pl = p"
  shows "\<exists>ps' lo. CleanUpLock me (ps, lock) p wakeupNeeded = Inr (ps', lo) \<and> obj_ok ps' tag lo
    \<and> settles (set (waitProcs lock)) ps ps' lo"
proof -
  have ok: "counts_ok ps [] lock" and q: "queue_ok ps tag lock" and comp: "compatible lock"
    and ng: "no_garbage lock {p}" and nw: "p \<notin> set (waitProcs lock)"
    and bl: "wakeupNeeded \<or> all_blocked ps lock {} (waitProcs lock)"
    using rel by (auto simp: released_def)
  have find: "find_proclock lock p = Some pl"
    using pl counts_ok_distinct [OF ok] by (simp add: find_proclock_Some)
  define lock1 where "lock1 = (if holdMask pl = 0 then del_proclock p lock else lock)"
  have w1: "waitProcs lock1 = waitProcs lock" by (simp add: lock1_def)
  have fc: "foreign_conflict lock1 = foreign_conflict lock"
    using foreign_del [OF ok pl] by (simp add: lock1_def)
  have sc: "scan_inv ps tag lock1"
  proof (cases "holdMask pl = 0")
    case True
    have "no_garbage (del_proclock p lock) {}" using ng by (auto simp: no_garbage_def)
    with True show ?thesis
      using counts_del [OF ok pl True] queue_del [OF q nw] compatible_del [OF comp]
      by (simp add: lock1_def scan_inv_def)
  next
    case False
    have "no_garbage lock {}"
      using ng only_proclock [OF ok pl(1)] pl(2) False by (fastforce simp: no_garbage_def)
    with False ok q comp show ?thesis by (simp add: lock1_def scan_inv_def)
  qed
  have unf: "CleanUpLock me (ps, lock) p wakeupNeeded =
      (if nRequested lock1 = 0 then Inr (ps, None)
       else if wakeupNeeded
       then (case ProcLockWakeup me (ps, lock1) of Inl e \<Rightarrow> Inl e | Inr s' \<Rightarrow> Inr (fst s', Some (snd s')))
       else Inr (ps, Some lock1))"
    by (simp add: CleanUpLock_def find lock1_def)
  consider "nRequested lock1 = 0" | "nRequested lock1 \<noteq> 0" wakeupNeeded
    | "nRequested lock1 \<noteq> 0" "\<not> wakeupNeeded" by argo
  then show ?thesis
  proof cases
    case 1
    have "waitProcs lock = []"
      using nRequested_zero [of ps lock1] sc 1 w1 by (simp add: scan_inv_def)
    with 1 unf show ?thesis by (simp add: settles_def)
  next
    case 2
    obtain ps' lock' where r: "ProcLockWakeup me (ps, lock1) = Inr (ps', lock')" "scan_inv ps' tag lock'"
        "all_blocked ps' lock' {} (waitProcs lock')" "same_request ps ps'" "nRequested lock' = nRequested lock1"
        "\<forall>p. p \<notin> set (waitProcs lock1) \<longrightarrow> ps' p = ps p"
        "\<forall>p \<in> set (waitProcs lock1). p \<in> set (waitProcs lock') \<or> waitLock (ps' p) = None"
      using ProcLockWakeup_result [OF sc grp, of me] by blast
    have "lock_inv ps' tag lock'" using r 2 by (simp add: lock_inv_def scan_inv_def)
    moreover have "settles (set (waitProcs lock)) ps ps' (Some lock')"
      using r w1 by (simp add: settles_def same_request_def)
    ultimately show ?thesis using unf 2 r(1) by simp
  next
    case 3
    have "all_blocked ps lock1 {} (waitProcs lock1)"
      unfolding w1 by (rule all_blocked_frame [of ps lock "{}"]) (use bl 3 fc in auto)
    with sc 3 have "lock_inv ps tag lock1" by (simp add: lock_inv_def scan_inv_def)
    moreover have "settles (set (waitProcs lock)) ps ps (Some lock1)" by (simp add: settles_def w1)
    ultimately show ?thesis using unf 3 by simp
  qed
qed

section \<open>Releasing\<close>

lemma UnGrantLock_simps [simp]:
  "waitProcs (fst (UnGrantLock lock p m)) = waitProcs lock" "waitMask (fst (UnGrantLock lock p m)) = waitMask lock"
  "requested (fst (UnGrantLock lock p m)) = (requested lock)(m := requested lock m - 1)"
  "nRequested (fst (UnGrantLock lock p m)) = nRequested lock - 1"
  "granted (fst (UnGrantLock lock p m)) = (granted lock)(m := granted lock m - 1)"
  "nGranted (fst (UnGrantLock lock p m)) = nGranted lock - 1"
  "grantMask (fst (UnGrantLock lock p m)) =
     (if granted lock m = 1 then grantMask lock AND LOCKBIT_OFF m else grantMask lock)"
  "snd (UnGrantLock lock p m) \<longleftrightarrow> flag (conflictTab m) (waitMask lock)"
  by (simp_all add: UnGrantLock_def Let_def)

lemma procLocks_UnGrantLock:
  "procLocks (fst (UnGrantLock lock p m)) = procLocks (upd_proclock p (\<lambda>k. k AND LOCKBIT_OFF m) lock)"
  by (simp add: UnGrantLock_def Let_def upd_proclock_def)

lemma counts_UnGrantLock:
  assumes ok: "counts_ok ps [] lock" and pl: "pl \<in> set (procLocks lock)" "myProc pl = p" "bit (holdMask pl) m"
  shows "counts_ok ps [] (fst (UnGrantLock lock p m))"
proof -
  let ?l = "fst (UnGrantLock lock p m)"
  note d = counts_ok_distinct [OF ok]
  have v: "valid_mode m" using counts_ok_hold [OF ok pl(1,3)] .
  have held: "held_count i (procLocks ?l) = held_count i (procLocks lock) - of_bool (i = m)" for i
    using pl(3) by (auto simp: procLocks_UnGrantLock held_count_upd [OF d pl(1,2)] bit_and_OFF)
  have g: "granted ?l i = granted lock i - of_bool (i = m)" for i by simp
  have rq: "requested ?l i = requested lock i - of_bool (i = m)" for i by simp
  have "distinct (map myProc (procLocks ?l))" using d by (simp add: procLocks_UnGrantLock)
  moreover have "granted ?l i = held_count i (procLocks ?l)" for i
    unfolding g held by (simp add: counts_okD(2) [OF ok])
  moreover have "nGranted ?l = (\<Sum>i \<in> Collect valid_mode. granted ?l i)"
    using sum_modes_upd [OF v, of "granted lock" "- 1"] counts_okD(3) [OF ok] by simp
  moreover have "requested ?l i = granted ?l i + mode_count i (wait_modes ps ?l @ [])" for i
    unfolding g rq by (simp add: counts_okD(4) [OF ok])
  moreover have "nRequested ?l = (\<Sum>i \<in> Collect valid_mode. requested ?l i)"
    using sum_modes_upd [OF v, of "requested lock" "- 1"] counts_okD(5) [OF ok] by simp
  moreover have "bit (grantMask ?l) i \<longleftrightarrow> granted ?l i \<noteq> 0" for i
  proof -
    have "granted lock m \<noteq> 0"
      unfolding counts_okD(2) [OF ok] held_count_zero using pl by auto
    then show ?thesis using counts_okD(6) [OF ok, of i] by (auto simp: bit_and_OFF)
  qed
  moreover have "\<forall>x \<in> set (procLocks ?l). \<forall>i. bit (holdMask x) i \<longrightarrow> valid_mode i"
    using counts_ok_hold [OF ok] by (auto simp: procLocks_UnGrantLock upd_proclock_set bit_and_OFF split: if_splits)
  moreover have "\<forall>i \<in> set (wait_modes ps ?l). bit (waitMask ?l) i"
    "\<forall>i. bit (waitMask ?l) i \<longrightarrow> i \<in> set (wait_modes ps ?l @ [])"
    "\<forall>k \<in> set (wait_modes ps ?l @ []). valid_mode k"
    using counts_okD(7,8,9) [OF ok] by auto
  ultimately show ?thesis unfolding counts_ok_def by blast
qed

lemma compatible_UnGrantLock: "compatible lock \<Longrightarrow> compatible (fst (UnGrantLock lock p m))"
proof -
  assume comp: "compatible lock"
  have src: "\<exists>y \<in> set (procLocks lock). groupLeader y = groupLeader x \<and> (\<forall>i. bit (holdMask x) i \<longrightarrow> bit (holdMask y) i)"
    if "x \<in> set (procLocks (fst (UnGrantLock lock p m)))" for x
  proof -
    obtain y where "y \<in> set (procLocks lock)"
        "x = (if myProc y = p then y\<lparr>holdMask := holdMask y AND LOCKBIT_OFF m\<rparr> else y)"
      using \<open>x \<in> _\<close> unfolding procLocks_UnGrantLock upd_proclock_set by blast
    then show ?thesis by (intro bexI [of _ y]) (auto simp: bit_and_OFF)
  qed
  show ?thesis
    using comp unfolding compatible_def by (metis src)
qed

lemma foreign_UnGrantLock:
  assumes "foreign_conflict lock g k" "\<not> DoLockModesConflict k m"
  shows "foreign_conflict (fst (UnGrantLock lock p m)) g k"
proof -
  obtain pl j where pl: "pl \<in> set (procLocks lock)" "groupLeader pl \<noteq> g"
      "j \<in> set [1..<Suc numLockModes]" "bit (holdMask pl) j" "DoLockModesConflict k j"
    using assms(1) unfolding foreign_conflict_def by blast
  let ?pl = "if myProc pl = p then pl\<lparr>holdMask := holdMask pl AND LOCKBIT_OFF m\<rparr> else pl"
  have "?pl \<in> set (procLocks (fst (UnGrantLock lock p m)))"
    unfolding procLocks_UnGrantLock upd_proclock_set using pl(1) by blast
  moreover have "groupLeader ?pl \<noteq> g" "bit (holdMask ?pl) j"
    using pl assms(2) by (auto simp: bit_and_OFF)
  ultimately show ?thesis unfolding foreign_conflict_def using pl(3,5) by blast
qed

lemma UnGrantLock_released:
  assumes rel: "released ps tag p w lock"
    and pl: "pl \<in> set (procLocks lock)" "myProc pl = p" "bit (holdMask pl) m"
  shows "released ps tag p (w \<or> snd (UnGrantLock lock p m)) (fst (UnGrantLock lock p m))"
proof -
  let ?l = "fst (UnGrantLock lock p m)"
  have ok: "counts_ok ps [] lock" and q: "queue_ok ps tag lock" and comp: "compatible lock"
    and ng: "no_garbage lock {p}" and nw: "p \<notin> set (waitProcs lock)"
    and bl: "w \<or> all_blocked ps lock {} (waitProcs lock)"
    using rel by (auto simp: released_def)
  have "queue_ok ps tag ?l"
    by (rule queue_upd_proclock [OF q procLocks_UnGrantLock]) (use nw in auto)
  moreover have "no_garbage ?l {p}"
    unfolding no_garbage_def
  proof
    fix x assume "x \<in> set (procLocks ?l)"
    then obtain y where "y \<in> set (procLocks lock)"
        "x = (if myProc y = p then y\<lparr>holdMask := holdMask y AND LOCKBIT_OFF m\<rparr> else y)"
      unfolding procLocks_UnGrantLock upd_proclock_set by blast
    then show "holdMask x \<noteq> 0 \<or> myProc x \<in> set (waitProcs ?l) \<union> {p}"
      using ng by (auto simp: no_garbage_def)
  qed
  moreover have "all_blocked ps ?l {} (waitProcs ?l)"
    if "\<not> w" "\<not> snd (UnGrantLock lock p m)"
  proof -
    have "\<not> DoLockModesConflict (waitLockMode (ps x)) m" if "x \<in> set (waitProcs lock)" for x
      using \<open>\<not> snd (UnGrantLock lock p m)\<close> counts_okD(7) [OF ok that] conflict_sym by (auto simp: flag_conflictTab)
    then have fc: "foreign_conflict ?l g (waitLockMode (ps x))"
      if "x \<in> set (waitProcs lock)" "foreign_conflict lock g (waitLockMode (ps x))" for x g
      using foreign_UnGrantLock that by blast
    have "all_blocked ps ?l {} (waitProcs lock)"
      by (rule all_blocked_frame [of ps lock "{}"]) (use bl \<open>\<not> w\<close> fc in auto)
    then show ?thesis by simp
  qed
  ultimately show ?thesis
    using counts_UnGrantLock [OF ok pl] compatible_UnGrantLock [OF comp] nw by (auto simp: released_def)
qed

lemma UnGrantLock_proclock:
  assumes "pl \<in> set (procLocks lock)" "myProc pl = p"
  shows "pl\<lparr>holdMask := holdMask pl AND LOCKBIT_OFF m\<rparr> \<in> set (procLocks (fst (UnGrantLock lock p m)))"
  unfolding procLocks_UnGrantLock upd_proclock_set using assms by (intro bexI [of _ pl]) auto

lemma ungrant_modes_released:
  assumes "released ps tag p w lock" "pl \<in> set (procLocks lock)" "myProc pl = p" "distinct is"
    "\<forall>i \<in> set is. i < 32 \<and> (bit releaseMask i \<longrightarrow> bit (holdMask pl) i)"
  shows "\<exists>lock' w' pl'. ungrant_modes releaseMask p is (lock, w) = (lock', w') \<and> released ps tag p w' lock'
    \<and> pl' \<in> set (procLocks lock') \<and> myProc pl' = p \<and> waitProcs lock' = waitProcs lock"
  using assms
proof (induction "is" arbitrary: lock w pl)
  case (Cons i "is")
  show ?case
  proof (cases "bit releaseMask i")
    case True
    let ?l = "fst (UnGrantLock lock p i)" and ?w = "snd (UnGrantLock lock p i)"
    let ?pl = "pl\<lparr>holdMask := holdMask pl AND LOCKBIT_OFF i\<rparr>"
    have "\<exists>lock' w' pl'. ungrant_modes releaseMask p is (?l, w \<or> ?w) = (lock', w') \<and> released ps tag p w' lock'
        \<and> pl' \<in> set (procLocks lock') \<and> myProc pl' = p \<and> waitProcs lock' = waitProcs ?l"
    proof (rule Cons.IH)
      show "released ps tag p (w \<or> ?w) ?l"
        by (rule UnGrantLock_released [OF Cons.prems(1-3)]) (use Cons.prems(5) True in auto)
      show "?pl \<in> set (procLocks ?l)" by (rule UnGrantLock_proclock [OF Cons.prems(2,3)])
    qed (use Cons.prems in \<open>auto simp: bit_and_OFF\<close>)
    moreover have "ungrant_modes releaseMask p (i # is) (lock, w) = ungrant_modes releaseMask p is (?l, w \<or> ?w)"
      using True Cons.prems(5) by (simp add: flag_LOCKBIT_ON case_prod_beta)
    ultimately show ?thesis by simp
  next
    case False
    moreover have "ungrant_modes releaseMask p (i # is) (lock, w) = ungrant_modes releaseMask p is (lock, w)"
      using False Cons.prems(5) by (simp add: flag_LOCKBIT_ON)
    moreover have "\<exists>lock' w' pl'. ungrant_modes releaseMask p is (lock, w) = (lock', w') \<and> released ps tag p w' lock'
        \<and> pl' \<in> set (procLocks lock') \<and> myProc pl' = p \<and> waitProcs lock' = waitProcs lock"
      by (rule Cons.IH) (use Cons.prems in auto)
    ultimately show ?thesis by simp
  qed
qed auto

end
