(* ===== verification/Lock_Requests.thy ===== *)
theory Lock_Requests
  imports Lock_Ops
begin

text \<open>
  The request side of the lock manager: joining and leaving the wait queue, and the acquisition
  of a lock on the shared table, on every outcome.
\<close>

section \<open>Leaving the queue\<close>

lemma counts_drop_request:
  assumes ok: "counts_ok ps [m] lock"
    and l: "lock' = lock\<lparr>nRequested := nRequested lock - 1,
       requested := (requested lock)(m := requested lock m - 1), waitMask := wm\<rparr>"
    and wm: "\<And>i. bit wm i \<longleftrightarrow> i \<in> set (wait_modes ps lock)"
  shows "counts_ok ps [] lock'"
proof -
  have v: "valid_mode m" using counts_okD(10) [OF ok] by simp
  have rq: "requested lock' i = requested lock i - of_bool (i = m)" for i by (simp add: l)
  have "requested lock' i = granted lock' i + mode_count i (wait_modes ps lock' @ [])" for i
    unfolding rq by (simp add: counts_okD(4) [OF ok] l)
  moreover have "nRequested lock' = (\<Sum>i \<in> Collect valid_mode. requested lock' i)"
    using sum_modes_upd [OF v, of "requested lock" "- 1"] counts_okD(5) [OF ok] by (simp add: l)
  ultimately show ?thesis
    using ok wm unfolding counts_ok_def by (simp add: l del: mode_count_simps)
qed

lemma RemoveFromWaitQueue_result:
  assumes inv: "scan_inv ps tag lock" and grp: "groups_ok ps" and p: "p \<in> set (waitProcs lock)"
  shows "\<exists>ps' lo. RemoveFromWaitQueue me (ps, lock) p = Inr (ps', lo) \<and> obj_ok ps' tag lo
    \<and> settles (set (waitProcs lock)) ps ps' lo \<and> waitLock (ps' p) = None"
proof -
  let ?m = "waitLockMode (ps p)"
  let ?ps = "ps(p := (ps p)\<lparr>waitLock := None, waitStatus := STATUS_ERROR\<rparr>)"
  have ok: "counts_ok ps [] lock" and q: "queue_ok ps tag lock" and comp: "compatible lock"
    and ng: "no_garbage lock {}"
    using inv by (auto simp: scan_inv_def)
  have d: "distinct (waitProcs lock)" using q by (simp add: queue_ok_def)
  define l1 where "l1 = lock\<lparr>waitProcs := remove1 p (waitProcs lock)\<rparr>"
  define wm where "wm = (if granted lock ?m = requested lock ?m - 1 then waitMask lock AND LOCKBIT_OFF ?m else waitMask lock)"
  define l2 where "l2 = l1\<lparr>nRequested := nRequested l1 - 1,
       requested := (requested l1)(?m := requested l1 ?m - 1), waitMask := wm\<rparr>"
  have ok1: "counts_ok ps [?m] l1" unfolding l1_def by (rule counts_dequeue [OF ok p])
  have clear: "granted lock ?m = requested lock ?m - 1 \<longleftrightarrow> ?m \<notin> set (wait_modes ps l1)"
    using counts_okD(4) [OF ok1, of ?m] mode_count_zero [of ?m "wait_modes ps l1"] by (auto simp: l1_def)
  have wm: "bit wm i \<longleftrightarrow> i \<in> set (wait_modes ps l1)" for i
  proof -
    have "i \<in> set (wait_modes ps l1) \<Longrightarrow> bit (waitMask lock) i"
      using counts_okD(7) [OF ok1] by (auto simp: l1_def)
    moreover have "bit (waitMask lock) i \<Longrightarrow> i \<in> set (wait_modes ps l1) \<or> i = ?m"
      using counts_okD(8) [OF ok1, of i] by (auto simp: l1_def)
    ultimately show ?thesis using clear by (auto simp: wm_def bit_and_OFF)
  qed
  have ok2: "counts_ok ?ps [] l2"
    by (rule counts_cong [OF counts_drop_request [OF ok1 l2_def wm]]) simp
  have f2: "procLocks l2 = procLocks lock" "waitProcs l2 = remove1 p (waitProcs lock)"
    by (simp_all add: l2_def l1_def)
  have q2: "queue_ok ?ps tag l2"
    using q d by (auto simp: queue_ok_def f2 group_of_def)
  have np: "p \<notin> set (waitProcs l2)" using d by (simp add: f2)
  have ng2: "no_garbage l2 {p}" using ng d by (auto simp: no_garbage_def f2)
  have rel: "released ?ps tag p True l2"
    using ok2 q2 comp np ng2 by (simp add: released_def compatible_def f2)
  obtain pl where pl: "pl \<in> set (procLocks l2)" "myProc pl = p"
    using q p by (auto simp: queue_ok_def f2)
  have "groups_ok ?ps" using grp by (simp add: groups_ok_def)
  then obtain ps' lo where r: "CleanUpLock me (?ps, l2) p True = Inr (ps', lo)" "obj_ok ps' tag lo"
      "settles (set (waitProcs l2)) ?ps ps' lo"
    using CleanUpLock_result [OF rel _ pl] by blast
  have "RemoveFromWaitQueue me (ps, lock) p = CleanUpLock me (?ps, l2) p True"
    by (simp add: RemoveFromWaitQueue_def Let_def l2_def l1_def wm_def)
  moreover have "settles (set (waitProcs lock)) ps ps' lo"
  proof -
    have lead: "lockGroupLeader (ps' x) = lockGroupLeader (ps x)" for x
    proof -
      have "lockGroupLeader (ps' x) = lockGroupLeader (?ps x)" using r(3) unfolding settles_def by blast
      then show ?thesis by (cases "x = p") simp_all
    qed
    have out: "ps' x = ps x" if "x \<notin> set (waitProcs lock)" for x
    proof -
      have "x \<notin> set (waitProcs l2)" using that by (simp add: f2 notin_set_remove1)
      then have "ps' x = ?ps x" using r(3) unfolding settles_def by blast
      with that p show ?thesis by auto
    qed
    have "x \<in> waiters lo \<or> waitLock (ps' x) = None" if x: "x \<in> set (waitProcs lock)" for x
    proof (cases "x = p")
      case True
      have "ps' p = ?ps p" using r(3) np unfolding settles_def by blast
      with True show ?thesis by simp
    next
      case False
      with x have "x \<in> set (waitProcs l2)" by (simp add: f2)
      then show ?thesis using r(3) unfolding settles_def by simp
    qed
    with lead out show ?thesis by (simp add: settles_def)
  qed
  moreover have "waitLock (ps' p) = None"
  proof -
    have "ps' p = ?ps p" using r(3) np unfolding settles_def by blast
    then show ?thesis by simp
  qed
  ultimately show ?thesis using r by simp
qed

section \<open>A counted request\<close>

text \<open>The object between the creation of the request and its fate.\<close>

definition requesting :: "lock_procs \<Rightarrow> LOCKTAG \<Rightarrow> proc \<Rightarrow> LOCKMODE \<Rightarrow> PROCLOCK \<Rightarrow> LOCK \<Rightarrow> bool" where
  "requesting ps tag me m pl lock \<longleftrightarrow> counts_ok ps [m] lock \<and> queue_ok ps tag lock \<and> compatible lock
     \<and> no_garbage lock {me} \<and> all_blocked ps lock {} (waitProcs lock)
     \<and> (\<forall>i. bit (waitMask lock) i \<longrightarrow> i \<in> set (wait_modes ps lock))
     \<and> pl \<in> set (procLocks lock) \<and> myProc pl = me \<and> \<not> bit (holdMask pl) m \<and> me \<notin> set (waitProcs lock)"

lemma requesting_check:
  assumes "requesting ps tag me m pl lock" "groups_ok ps"
  shows "LockCheckConflicts ps me' m lock pl = Inr (foreign_conflict lock (group_of ps me) m)"
  using check_result [OF assms(2), of tag lock "[m]" pl] assms(1) by (simp add: requesting_def)

lemma counts_nRequested_pos: "counts_ok ps [m] lock \<Longrightarrow> 0 < nRequested lock"
proof -
  assume ok: "counts_ok ps [m] lock"
  have "0 \<le> nGranted lock"
    unfolding counts_okD(3) [OF ok] by (rule sum_nonneg) (simp add: counts_okD(2) [OF ok])
  then show ?thesis using nRequested_count [OF ok] by simp
qed

lemma grant_request:
  assumes rq: "requesting ps tag me m pl lock" and free: "\<not> foreign_conflict lock (group_of ps me) m"
  shows "lock_inv ps tag (GrantLock lock me m)"
proof -
  have ok: "counts_ok ps [m] lock" and q: "queue_ok ps tag lock" and comp: "compatible lock"
    and ng: "no_garbage lock {me}" and bl: "all_blocked ps lock {} (waitProcs lock)"
    and pl: "pl \<in> set (procLocks lock)" "myProc pl = me" "\<not> bit (holdMask pl) m" "me \<notin> set (waitProcs lock)"
    using rq by (auto simp: requesting_def)
  have v: "valid_mode m" using counts_okD(10) [OF ok] by simp
  have "queue_ok ps tag (GrantLock lock me m)"
    by (rule queue_upd_proclock [OF q procLocks_GrantLock]) (use pl in auto)
  moreover have "all_blocked ps (GrantLock lock me m) {} (waitProcs lock)"
    by (rule all_blocked_frame [OF bl]) (auto intro: foreign_mono_Grant)
  ultimately show ?thesis
    using counts_GrantLock [OF ok pl(1-3)] compatible_GrantLock [OF comp ok q free]
      no_garbage_GrantLock [OF ng v] counts_nRequested_pos [OF ok]
    by (simp add: lock_inv_def)
qed

lemma undo_request_inv:
  assumes rq: "requesting ps tag me m pl lock" and grp: "groups_ok ps"
    and conf: "flag (conflictTab m) (waitMask lock) \<or> foreign_conflict lock (group_of ps me) m"
  shows "lock_inv ps tag (undo_request me m pl lock) \<and> waitProcs (undo_request me m pl lock) = waitProcs lock"
proof -
  have ok: "counts_ok ps [m] lock" and q: "queue_ok ps tag lock" and comp: "compatible lock"
    and ng: "no_garbage lock {me}" and bl: "all_blocked ps lock {} (waitProcs lock)"
    and wm: "\<And>i. bit (waitMask lock) i \<Longrightarrow> i \<in> set (wait_modes ps lock)"
    and pl: "pl \<in> set (procLocks lock)" "myProc pl = me" and nw: "me \<notin> set (waitProcs lock)"
    using rq by (auto simp: requesting_def)
  define l1 where "l1 = (if holdMask pl = 0 then del_proclock me lock else lock)"
  define l2 where "l2 = l1\<lparr>nRequested := nRequested l1 - 1,
       requested := (requested l1)(m := requested l1 m - 1), waitMask := waitMask l1\<rparr>"
  have u: "undo_request me m pl lock = l2" by (simp add: undo_request_def l2_def l1_def Let_def)
  have f: "waitProcs l2 = waitProcs lock" "procLocks l2 = procLocks l1" "waitMask l1 = waitMask lock"
      "waitProcs l1 = waitProcs lock" by (simp_all add: l2_def l1_def)
  have ok1: "counts_ok ps [m] l1" using ok counts_del [OF ok pl] by (simp add: l1_def)
  have ok2: "counts_ok ps [] l2"
    by (rule counts_drop_request [OF ok1 l2_def]) (use wm counts_okD(7) [OF ok] f in auto)
  have q2: "queue_ok ps tag l2"
    using q queue_del [OF q nw] by (auto simp: queue_ok_def f l1_def)
  have comp2: "compatible l2" using comp compatible_del [OF comp] by (auto simp: compatible_def f l1_def)
  have fc: "foreign_conflict l2 = foreign_conflict lock"
    using foreign_del [OF ok pl] by (auto simp: fun_eq_iff foreign_conflict_def f l1_def)
  have bl2: "all_blocked ps l2 {} (waitProcs l2)"
    unfolding f by (rule all_blocked_frame [OF bl]) (use fc in auto)
  have ng2: "no_garbage l2 {}"
    using ng only_proclock [OF ok pl(1)] pl(2) by (fastforce simp: no_garbage_def f l1_def)
  have "nRequested l2 \<noteq> 0"
  proof
    assume z: "nRequested l2 = 0"
    have "waitProcs lock = []" using nRequested_zero [OF ok2 z] by (simp add: f)
    then have none: "\<not> flag (conflictTab m) (waitMask lock)"
      using wm by (auto simp: flag_conflictTab)
    moreover have "\<not> foreign_conflict lock (group_of ps me) m"
    proof -
      have "nGranted l2 = 0" using nRequested_count [OF ok2] z \<open>waitProcs lock = []\<close> by (simp add: f)
      then have "\<forall>i \<in> Collect valid_mode. granted l2 i = 0"
        unfolding counts_okD(3) [OF ok2] by (subst (asm) sum_nonneg_eq_0_iff) (auto simp: counts_okD(2) [OF ok2])
      then have "\<not> foreign_conflict l2 (group_of ps me) m"
        unfolding counts_okD(2) [OF ok2] held_count_zero
        unfolding foreign_conflict_def modes_set by auto
      then show ?thesis by (simp add: fc)
    qed
    ultimately show False using conf by blast
  qed
  with ok2 q2 comp2 bl2 ng2 show ?thesis by (simp add: u lock_inv_def f)
qed

section \<open>Joining the queue\<close>

lemma enqueue_simps:
  "enqueue tag me m n (ps, lock) =
    (ps(me := (ps me)\<lparr>waitLock := Some tag, waitLockMode := m, waitStatus := STATUS_WAITING\<rparr>),
     lock\<lparr>waitProcs := take n (waitProcs lock) @ me # drop n (waitProcs lock),
          waitMask := waitMask lock OR LOCKBIT_ON m\<rparr>)"
  by (simp add: enqueue_def)

lemma set_insert_at: "set (take n q @ x # drop n q) = insert x (set q)"
  by (metis append_take_drop_id list.set(2) set_append Un_insert_right)

lemma enqueue_scan_inv:
  assumes rq: "requesting ps tag me m pl lock"
  shows "scan_inv (fst (enqueue tag me m n (ps, lock))) tag (snd (enqueue tag me m n (ps, lock)))"
proof -
  let ?ps = "ps(me := (ps me)\<lparr>waitLock := Some tag, waitLockMode := m, waitStatus := STATUS_WAITING\<rparr>)"
  let ?q = "take n (waitProcs lock) @ me # drop n (waitProcs lock)"
  let ?l = "lock\<lparr>waitProcs := ?q, waitMask := waitMask lock OR LOCKBIT_ON m\<rparr>"
  have ok: "counts_ok ps [m] lock" and q: "queue_ok ps tag lock" and comp: "compatible lock"
    and ng: "no_garbage lock {me}"
    and wm: "\<And>i. bit (waitMask lock) i \<Longrightarrow> i \<in> set (wait_modes ps lock)"
    and pl: "pl \<in> set (procLocks lock)" "myProc pl = me" "\<not> bit (holdMask pl) m" and nw: "me \<notin> set (waitProcs lock)"
    using rq by (auto simp: requesting_def)
  have v: "valid_mode m" using counts_okD(10) [OF ok] by simp
  have same: "waitLockMode (?ps x) = waitLockMode (ps x)" if "x \<in> set (waitProcs lock)" for x
    using nw that by auto
  have mt: "map (\<lambda>x. waitLockMode (?ps x)) (take n (waitProcs lock)) = map (\<lambda>x. waitLockMode (ps x)) (take n (waitProcs lock))"
    "map (\<lambda>x. waitLockMode (?ps x)) (drop n (waitProcs lock)) = map (\<lambda>x. waitLockMode (ps x)) (drop n (waitProcs lock))"
    using nw by (auto dest: in_set_takeD in_set_dropD)
  have wmq: "wait_modes ?ps ?l = map (\<lambda>x. waitLockMode (ps x)) (take n (waitProcs lock)) @ m # map (\<lambda>x. waitLockMode (ps x)) (drop n (waitProcs lock))"
    by (simp add: mt del: fun_upd_apply) simp
  have split: "wait_modes ps lock = map (\<lambda>x. waitLockMode (ps x)) (take n (waitProcs lock)) @ map (\<lambda>x. waitLockMode (ps x)) (drop n (waitProcs lock))"
    by (metis append_take_drop_id map_append)
  have mc: "mode_count i (wait_modes ?ps ?l @ []) = mode_count i (wait_modes ps lock @ [m])" for i
    unfolding wmq split by simp
  have ms: "set (wait_modes ?ps ?l) = insert m (set (wait_modes ps lock))"
    unfolding wmq split by auto
  have C: "counts_ok ?ps [] ?l"
    unfolding counts_ok_def mc ms set_append
    using counts_okD [OF ok] counts_ok_hold [OF ok] wm v by (auto simp: bit_or_ON)
  have d: "distinct ?q"
  proof -
    have "distinct (waitProcs lock)" using q by (simp add: queue_ok_def)
    then show ?thesis using nw
      by (auto simp: set_take_disj_set_drop_if_distinct dest: in_set_takeD in_set_dropD)
  qed
  have Q: "queue_ok ?ps tag ?l"
    using q pl d nw unfolding queue_ok_def by (auto simp: set_insert_at group_of_def simp del: set_append)
  have "no_garbage ?l {}" using ng by (auto simp: no_garbage_def set_insert_at simp del: set_append)
  with C Q comp show ?thesis by (simp add: scan_inv_def enqueue_simps compatible_def)
qed

lemma enqueue_blocked:
  assumes rq: "requesting ps tag me m pl lock"
    and me: "(\<exists>w \<in> set (take n (waitProcs lock)). DoLockModesConflict m (waitLockMode (ps w)))
      \<or> foreign_conflict lock (group_of ps me) m"
  shows "all_blocked (fst (enqueue tag me m n (ps, lock))) (snd (enqueue tag me m n (ps, lock))) {}
    (take n (waitProcs lock) @ me # drop n (waitProcs lock))"
proof -
  let ?ps = "ps(me := (ps me)\<lparr>waitLock := Some tag, waitLockMode := m, waitStatus := STATUS_WAITING\<rparr>)"
  let ?l = "snd (enqueue tag me m n (ps, lock))"
  let ?pre = "take n (waitProcs lock)" and ?post = "drop n (waitProcs lock)"
  have bl: "all_blocked ps lock {} (?pre @ ?post)" and nw: "me \<notin> set (?pre @ ?post)"
    using rq by (simp_all add: requesting_def del: set_append)
  have bp: "all_blocked ps lock {} ?pre" "all_blocked ps lock (set ?pre) ?post"
    using all_blocked_append [of ps lock "{}" ?pre ?post] bl by simp_all
  have fc: "foreign_conflict ?l = foreign_conflict lock"
    by (auto simp: fun_eq_iff foreign_conflict_def enqueue_simps)
  have g: "group_of ?ps x = group_of ps x" for x by (rule group_of_cong) simp
  have "all_blocked ?ps ?l {} ?pre"
    by (rule all_blocked_frame [of ps lock "{}"])
       (use bp nw fc g in \<open>auto dest: in_set_takeD\<close>)
  moreover have "all_blocked ?ps ?l (insert me (set ?pre)) ?post"
    by (rule all_blocked_frame [of ps lock "set ?pre"])
       (use bp nw fc g in \<open>auto dest: in_set_takeD in_set_dropD\<close>)
  moreover have "blocked ?ps ?l (set ?pre) me"
    using me nw unfolding blocked_def g fc by auto (metis in_set_takeD)
  ultimately show ?thesis by (simp add: all_blocked_append enqueue_simps)
qed

text \<open>Where the scan of the queue may put the process.\<close>

lemma scan_queue_result:
  assumes "scan_queue ps leader m held (Inr c) n aheadRequests ws = Inr r"
    "\<forall>i. bit aheadRequests i \<longrightarrow> i \<in> (\<lambda>w. waitLockMode (ps w)) ` set (take n q)"
    "q = take n q @ ws" "n \<le> length q"
  shows "(\<forall>k. r = InsertAt k \<longrightarrow> k \<le> length q \<and>
       (k = length q \<or> c \<or> (\<exists>w \<in> set (take k q). DoLockModesConflict m (waitLockMode (ps w)))))
    \<and> (r = GrantAtOnce \<longrightarrow> \<not> c)"
  using assms
proof (induction ws arbitrary: n aheadRequests)
  case Nil
  then have "length q = n"
    by (metis append_Nil2 length_take min.absorb2)
  with Nil show ?case by auto
next
  case (Cons w ws)
  have lt: "n < length q"
    using Cons.prems(3,4) by (metis append_Nil2 le_neq_implies_less list.distinct(1) self_append_conv take_all_iff)
  have w: "q ! n = w" using Cons.prems(3) lt
    by (metis append_take_drop_id drop_eq_Nil hd_drop_conv_nth list.sel(1) not_le same_append_eq)
  have tk: "take (Suc n) q = take n q @ [w]" using take_Suc_conv_app_nth [OF lt] w by simp
  have q': "q = take (Suc n) q @ ws" using Cons.prems(3) tk by simp
  have pre1: "\<forall>i. bit aheadRequests i \<longrightarrow> i \<in> (\<lambda>w. waitLockMode (ps w)) ` set (take (Suc n) q)"
    using Cons.prems(2) by (auto simp: tk)
  have pre2: "\<forall>i. bit (aheadRequests OR LOCKBIT_ON (waitLockMode (ps w))) i
      \<longrightarrow> i \<in> (\<lambda>w. waitLockMode (ps w)) ` set (take (Suc n) q)"
    using Cons.prems(2) by (auto simp: tk bit_or_ON)
  have ahead: "\<exists>w \<in> set (take n q). DoLockModesConflict m (waitLockMode (ps w))"
    if "flag (conflictTab m) aheadRequests"
    using that Cons.prems(2) by (auto simp: flag_conflictTab)
  show ?case
    using Cons.prems(1) Cons.IH [OF _ pre1 q'] Cons.IH [OF _ pre2 q'] ahead lt
    by (auto split: if_splits bool.splits)
qed

lemma scan_queue_total: "\<exists>r. scan_queue ps leader m held (Inr c) n aheadRequests ws = Inr r"
  by (induction ws arbitrary: n aheadRequests) (auto split: bool.splits)

section \<open>Acquisition\<close>

lemma settles_upd:
  assumes "settles P (ps(me := pm)) ps' lo" "lockGroupLeader pm = lockGroupLeader (ps me)" "me \<in> P"
  shows "settles P ps ps' lo"
  using assms unfolding settles_def by (auto split: if_splits)

lemma requesting_held:
  assumes "requesting ps tag me m pl lock" "lockGroupLeader pm = lockGroupLeader (ps me)"
  shows "requesting (ps(me := pm)) tag me m pl lock"
proof -
  let ?ps = "ps(me := pm)"
  have nw: "me \<notin> set (waitProcs lock)" using assms(1) by (simp add: requesting_def)
  have g: "group_of ?ps x = group_of ps x" for x by (rule group_of_cong) (simp add: assms(2))
  have same: "?ps x = ps x" if "x \<in> set (waitProcs lock)" for x using that nw by auto
  have wmq: "wait_modes ?ps lock = wait_modes ps lock" using same by simp
  have "counts_ok ?ps [m] lock"
    by (rule counts_cong [of ps]) (use assms(1) same in \<open>auto simp: requesting_def\<close>)
  moreover have "queue_ok ?ps tag lock"
    using assms(1) same g by (simp add: requesting_def queue_ok_def del: fun_upd_apply)
  moreover have "all_blocked ?ps lock {} (waitProcs lock)"
    by (rule all_blocked_frame [of ps lock "{}"])
       (use assms(1) same g in \<open>auto simp: requesting_def simp del: fun_upd_apply\<close>)
  ultimately show ?thesis
    using assms(1) wmq by (simp add: requesting_def del: fun_upd_apply)
qed

lemma ProcSleep_result:
  assumes rq: "requesting ps tag me m pl lock" and grp: "groups_ok ps" and wl: "waitLock (ps me) = None"
    and conf: "flag (conflictTab m) (waitMask lock) \<or> foreign_conflict lock (group_of ps me) m"
  shows "\<exists>r ps' lo. ProcSleep tag me m pl (ps, lock) = Inr (r, ps', lo) \<and> obj_ok ps' tag lo
    \<and> settles (insert me (set (waitProcs lock))) ps ps' lo
    \<and> (r = SleepWaiting \<longleftrightarrow> me \<in> waiters lo)"
proof -
  define held where "held = my_held_locks ps me lock"
  define place where "place = (if held \<noteq> 0
     then scan_queue ps (lockGroupLeader (ps me)) m held (LockCheckConflicts ps me m lock pl) 0 0 (waitProcs lock)
     else Inr (InsertAt (length (waitProcs lock))))"
  have chk: "LockCheckConflicts ps me m lock pl = Inr (foreign_conflict lock (group_of ps me) m)"
    by (rule requesting_check [OF rq grp])
  have nw: "me \<notin> set (waitProcs lock)" using rq by (simp add: requesting_def)
  have "\<exists>r. place = Inr r" unfolding place_def chk using scan_queue_total by auto
  then obtain r where r: "place = Inr r" by blast
  have unf: "ProcSleep tag me m pl (ps, lock) = (case place of Inl e \<Rightarrow> Inl e
     | Inr GrantAtOnce \<Rightarrow> Inr (SleepGranted, ps, Some (GrantLock lock me m))
     | Inr (InsertAt n) \<Rightarrow>
         (case enqueue tag me m n (ps, lock) of (ps', lock') \<Rightarrow> Inr (SleepWaiting, ps', Some lock'))
     | Inr (DeadlockAt n) \<Rightarrow>
         (case RemoveFromWaitQueue me (enqueue tag me m n (ps, lock)) me of
            Inl e \<Rightarrow> Inl e | Inr s' \<Rightarrow> Inr (SleepDeadlock, s')))"
    by (simp add: ProcSleep_def place_def held_def Let_def)
  have whole: "(\<exists>w \<in> set (waitProcs lock). DoLockModesConflict m (waitLockMode (ps w)))
      \<or> foreign_conflict lock (group_of ps me) m"
    using conf rq by (auto simp: requesting_def flag_conflictTab)
  have res: "(\<forall>k. r = InsertAt k \<longrightarrow> k \<le> length (waitProcs lock) \<and> (k = length (waitProcs lock) \<or>
        foreign_conflict lock (group_of ps me) m \<or>
        (\<exists>w \<in> set (take k (waitProcs lock)). DoLockModesConflict m (waitLockMode (ps w)))))
      \<and> (r = GrantAtOnce \<longrightarrow> \<not> foreign_conflict lock (group_of ps me) m)"
  proof (cases "held = 0")
    case True
    with r show ?thesis by (auto simp: place_def)
  next
    case False
    with r have "scan_queue ps (lockGroupLeader (ps me)) m held
        (Inr (foreign_conflict lock (group_of ps me) m)) 0 0 (waitProcs lock) = Inr r"
      by (simp add: place_def chk)
    from scan_queue_result [OF this, of "waitProcs lock"] show ?thesis by simp
  qed
  show ?thesis
  proof (cases r)
    case (InsertAt n)
    let ?s = "enqueue tag me m n (ps, lock)"
    have me: "(\<exists>w \<in> set (take n (waitProcs lock)). DoLockModesConflict m (waitLockMode (ps w)))
        \<or> foreign_conflict lock (group_of ps me) m"
      using res InsertAt whole by auto
    have ok: "counts_ok ps [m] lock" using rq by (simp add: requesting_def)
    have "lock_inv (fst ?s) tag (snd ?s)"
      using enqueue_scan_inv [OF rq, of n] enqueue_blocked [OF rq me] counts_nRequested_pos [OF ok]
      by (simp add: lock_inv_def scan_inv_def enqueue_simps)
    moreover have "settles (insert me (set (waitProcs lock))) ps (fst ?s) (Some (snd ?s))"
      by (auto simp: settles_def enqueue_simps set_insert_at simp del: set_append)
    moreover have "me \<in> waiters (Some (snd ?s))" by (simp add: enqueue_simps)
    ultimately show ?thesis using unf r InsertAt by (simp add: case_prod_beta)
  next
    case GrantAtOnce
    then have "lock_inv ps tag (GrantLock lock me m)" using grant_request [OF rq] res by blast
    moreover have "settles (insert me (set (waitProcs lock))) ps ps (Some (GrantLock lock me m))"
      using wl by (simp add: settles_def)
    ultimately show ?thesis using unf r GrantAtOnce nw by simp
  next
    case (DeadlockAt n)
    obtain ps1 l1 where s: "enqueue tag me m n (ps, lock) = (ps1, l1)" by fastforce
    have q1: "set (waitProcs l1) = insert me (set (waitProcs lock))"
      using s by (auto simp: enqueue_simps set_insert_at simp del: set_append)
    have e1: "ps1 = ps(me := (ps me)\<lparr>waitLock := Some tag, waitLockMode := m, waitStatus := STATUS_WAITING\<rparr>)"
      using s by (simp add: enqueue_simps)
    have "scan_inv ps1 tag l1" using enqueue_scan_inv [OF rq, of n] s by simp
    moreover have "groups_ok ps1" using grp by (simp add: e1 groups_ok_def)
    ultimately obtain ps' lo where x: "RemoveFromWaitQueue me (ps1, l1) me = Inr (ps', lo)" "obj_ok ps' tag lo"
        "settles (set (waitProcs l1)) ps1 ps' lo" "waitLock (ps' me) = None"
      using RemoveFromWaitQueue_result [of ps1 tag l1 me me] q1 by auto
    have "settles (insert me (set (waitProcs lock))) ps ps' lo"
      by (rule settles_upd [OF x(3) [unfolded e1 q1]]) simp_all
    moreover have "me \<notin> waiters lo" using obj_ok_waits [OF x(2)] x(4) by fastforce
    ultimately show ?thesis using unf r DeadlockAt s x by simp
  qed
qed

end
