(* ===== verification/Lock_Table.thy ===== *)
theory Lock_Table
  imports Lock_Requests "HOL-Library.Multiset"
begin

text \<open>
  The operations on the whole lock table, their interleaving as reachable tables, and the
  preservation of the invariant of the table by each of them.
\<close>

section \<open>Creating the request\<close>

lemma new_lock_request:
  assumes "valid_mode m"
  shows "requesting ps tag me m \<lparr>myProc = me, groupLeader = group_of ps me, holdMask = 0\<rparr>
    (new_lock\<lparr>procLocks := [\<lparr>myProc = me, groupLeader = group_of ps me, holdMask = 0\<rparr>],
       nRequested := 1, requested := (\<lambda>_. 0)(m := 1)\<rparr>)"
proof -
  have "(\<Sum>i \<in> Collect valid_mode. ((\<lambda>_. 0)(m := 1)) i) = (1::int)"
    using sum_modes_upd [OF assms, of "\<lambda>_. 0" 1] by simp
  then show ?thesis
    using assms by (auto simp: requesting_def counts_ok_def queue_ok_def compatible_def no_garbage_def new_lock_def)
qed

definition add_request :: "lock_procs \<Rightarrow> proc \<Rightarrow> LOCKMODE \<Rightarrow> LOCK \<Rightarrow> LOCK" where
  "add_request ps p m lock =
    (let lock = (if find_proclock lock p = None
                 then lock\<lparr>procLocks := procLocks lock @ [\<lparr>myProc = p, groupLeader = group_of ps p, holdMask = 0\<rparr>]\<rparr>
                 else lock)
     in lock\<lparr>nRequested := nRequested lock + 1, requested := (requested lock)(m := requested lock m + 1)\<rparr>)"

lemma foreign_conflict_add:
  assumes "set (procLocks lock) \<subseteq> set (procLocks lock')" "foreign_conflict lock g k"
  shows "foreign_conflict lock' g k"
  using assms unfolding foreign_conflict_def by blast

lemma add_request_requesting:
  assumes inv: "lock_inv ps tag lock" and v: "valid_mode m" and nw: "me \<notin> set (waitProcs lock)"
    and free: "\<forall>pl \<in> set (procLocks lock). myProc pl = me \<longrightarrow> \<not> bit (holdMask pl) m"
  shows "\<exists>pl. requesting ps tag me m pl (add_request ps me m lock)
    \<and> find_proclock (add_request ps me m lock) me = Some pl"
proof -
  let ?new = "\<lparr>myProc = me, groupLeader = group_of ps me, holdMask = 0\<rparr> :: PROCLOCK"
  let ?l = "add_request ps me m lock"
  have ok: "counts_ok ps [] lock" and q: "queue_ok ps tag lock" and comp: "compatible lock"
    and ng: "no_garbage lock {}" and bl: "all_blocked ps lock {} (waitProcs lock)"
    using inv by (auto simp: lock_inv_def)
  have pls: "procLocks ?l = (if find_proclock lock me = None then procLocks lock @ [?new] else procLocks lock)"
    and f: "waitProcs ?l = waitProcs lock" "waitMask ?l = waitMask lock" "granted ?l = granted lock"
      "nGranted ?l = nGranted lock" "grantMask ?l = grantMask lock"
      "requested ?l = (requested lock)(m := requested lock m + 1)" "nRequested ?l = nRequested lock + 1"
    by (simp_all add: add_request_def Let_def)
  have dist: "distinct (map myProc (procLocks ?l))"
    using counts_ok_distinct [OF ok] by (auto simp: pls find_proclock_None)
  have held: "held_count i (procLocks ?l) = held_count i (procLocks lock)" for i by (simp add: pls)
  have rq: "requested ?l i = requested lock i + of_bool (i = m)" for i by (simp add: f)
  have "requested ?l i = granted ?l i + mode_count i (wait_modes ps ?l @ [m])" for i
    unfolding rq by (simp add: counts_okD(4) [OF ok] f)
  moreover have "nRequested ?l = (\<Sum>i \<in> Collect valid_mode. requested ?l i)"
    using sum_modes_upd [OF v, of "requested lock" 1] counts_okD(5) [OF ok] by (simp add: f)
  moreover have "\<forall>x \<in> set (procLocks ?l). \<forall>i. bit (holdMask x) i \<longrightarrow> valid_mode i"
    using counts_ok_hold [OF ok] by (auto simp: pls)
  moreover have "\<forall>k \<in> set (wait_modes ps ?l @ [m]). valid_mode k"
    using counts_okD(9) [OF ok] v by (auto simp: f)
  ultimately have C: "counts_ok ps [m] ?l"
    unfolding counts_ok_def
    using dist counts_okD(2,3,6) [OF ok] counts_okD(7,8) [OF ok] by (auto simp: f held)
  have Q: "queue_ok ps tag ?l"
    using q unfolding queue_ok_def by (auto simp: f pls)
  have P: "compatible ?l" using comp by (auto simp: compatible_def pls)
  have N: "no_garbage ?l {me}" using ng by (auto simp: no_garbage_def pls f)
  have B: "all_blocked ps ?l {} (waitProcs ?l)"
    unfolding f by (rule all_blocked_frame [OF bl]) (auto simp: pls intro: foreign_conflict_add)
  have "me \<in> myProc ` set (procLocks ?l)"
    by (auto simp: pls find_proclock_None)
  then obtain pl where pl: "pl \<in> set (procLocks ?l)" "myProc pl = me" by blast
  from pl(1) have "pl = ?new \<or> pl \<in> set (procLocks lock)" by (simp add: pls split: if_splits)
  then have "\<not> bit (holdMask pl) m" using pl(2) free by (elim disjE) simp_all
  moreover have "find_proclock ?l me = Some pl" using pl dist by (simp add: find_proclock_Some)
  moreover have "\<forall>i. bit (waitMask ?l) i \<longrightarrow> i \<in> set (wait_modes ps ?l)"
    using counts_okD(8) [OF ok] by (simp add: f)
  ultimately show ?thesis
    using C Q P N B pl nw by (auto simp: requesting_def f)
qed

lemma SetupLockInTable_result:
  assumes o: "obj_ok ps tag lo" and v: "valid_mode m" and nw: "me \<notin> waiters lo"
    and free: "\<And>lock pl. lo = Some lock \<Longrightarrow> pl \<in> set (procLocks lock) \<Longrightarrow> myProc pl = me \<Longrightarrow> \<not> bit (holdMask pl) m"
  shows "SetupLockInTable ps lo r1 r2 me m = Inr (Inl lo) \<or>
    (\<exists>lock pl. SetupLockInTable ps lo r1 r2 me m = Inr (Inr lock) \<and> requesting ps tag me m pl lock
      \<and> find_proclock lock me = Some pl
      \<and> lock = add_request ps me m (case lo of Some l \<Rightarrow> l | None \<Rightarrow> new_lock))"
proof -
  let ?old = "case lo of Some l \<Rightarrow> l | None \<Rightarrow> new_lock"
  let ?l = "add_request ps me m ?old"
  have rq: "\<exists>pl. requesting ps tag me m pl ?l \<and> find_proclock ?l me = Some pl"
  proof (cases lo)
    case None
    have "find_proclock new_lock me = None" by (simp add: find_proclock_def new_lock_def)
    then have "?l = new_lock\<lparr>procLocks := [\<lparr>myProc = me, groupLeader = group_of ps me, holdMask = 0\<rparr>],
        nRequested := 1, requested := (\<lambda>_. 0)(m := 1)\<rparr>"
      using None by (simp add: add_request_def Let_def) (simp add: new_lock_def)
    then show ?thesis
      using new_lock_request [OF v, of ps tag me] by (auto simp: find_proclock_def new_lock_def)
  next
    case (Some lock)
    with o nw free show ?thesis using add_request_requesting [OF _ v, of ps tag lock me] by auto
  qed
  have small: "nRequested ?old = 0 \<longleftrightarrow> lo = None"
    using o by (cases lo) (auto simp: lock_inv_def new_lock_def)
  from rq obtain pl where pl: "requesting ps tag me m pl ?l" "find_proclock ?l me = Some pl" by blast
  then have "\<not> flag (holdMask pl) (LOCKBIT_ON m)"
    using v by (simp add: requesting_def flag_LOCKBIT_ON)
  moreover have "SetupLockInTable ps lo r1 r2 me m =
     (if lo = None \<and> \<not> r1 then Inr (Inl lo)
      else if find_proclock ?old me = None \<and> \<not> r2 then Inr (Inl (if nRequested ?old = 0 then None else Some ?old))
      else case find_proclock ?l me of
            None \<Rightarrow> Inl ProclockTableCorrupted
          | Some proclock \<Rightarrow>
              if flag (holdMask proclock) (LOCKBIT_ON m) then Inl AlreadyHeldLock else Inr (Inr ?l))"
    by (simp only: SetupLockInTable_def add_request_def Let_def)
  moreover have "(if nRequested ?old = 0 then None else Some ?old) = lo"
    using small by (cases lo) auto
  ultimately show ?thesis using pl by auto
qed

section \<open>Acquisition on the table\<close>

lemma request_lock_result:
  assumes rq: "requesting ps tag me m pl lock" and grp: "groups_ok ps" and wl: "waitLock (ps me) = None"
  shows "\<exists>r ps' lo. request_lock tag me m dontWait pl (ps, lock) = Inr (r, ps', lo) \<and> obj_ok ps' tag lo
    \<and> settles (insert me (set (waitProcs lock))) ps ps' lo
    \<and> (r = AcquireWaiting \<longleftrightarrow> me \<in> waiters lo)"
proof -
  let ?fc = "foreign_conflict lock (group_of ps me) m" and ?wc = "flag (conflictTab m) (waitMask lock)"
  have nw: "me \<notin> set (waitProcs lock)" using rq by (simp add: requesting_def)
  have chk: "(if ?wc then Inr True else LockCheckConflicts ps me m lock pl) = Inr (?wc \<or> ?fc)"
    using requesting_check [OF rq grp] by simp
  show ?thesis
  proof (cases "?wc \<or> ?fc")
    case False
    then have "lock_inv ps tag (GrantLock lock me m)" using grant_request [OF rq] by blast
    moreover have "settles (insert me (set (waitProcs lock))) ps ps (Some (GrantLock lock me m))"
      using wl by (simp add: settles_def)
    moreover have "request_lock tag me m dontWait pl (ps, lock) = Inr (AcquireOK, ps, Some (GrantLock lock me m))"
      using chk False by (simp add: request_lock_def)
    ultimately show ?thesis using nw by simp
  next
    case True
    show ?thesis
    proof (cases dontWait)
      case dw: True
      have "request_lock tag me m dontWait pl (ps, lock) = Inr (AcquireNotAvail, ps, Some (undo_request me m pl lock))"
        using chk True dw by (auto simp: request_lock_def)
      moreover have "settles (insert me (set (waitProcs lock))) ps ps (Some (undo_request me m pl lock))"
        using undo_request_inv [OF rq grp True] wl by (simp add: settles_def)
      ultimately show ?thesis using undo_request_inv [OF rq grp True] nw by simp
    next
      case dw: False
      let ?ps = "ps(me := (ps me)\<lparr>heldLocks := holdMask pl\<rparr>)"
      have rq': "requesting ?ps tag me m pl lock" by (rule requesting_held [OF rq]) simp
      have "group_of ?ps me = group_of ps me" by (rule group_of_cong) simp
      then have conf': "?wc \<or> foreign_conflict lock (group_of ?ps me) m" using True by simp
      have grp': "groups_ok ?ps" using grp by (simp add: groups_ok_def)
      obtain r ps' lo where x: "ProcSleep tag me m pl (?ps, lock) = Inr (r, ps', lo)" "obj_ok ps' tag lo"
          "settles (insert me (set (waitProcs lock))) ?ps ps' lo" "r = SleepWaiting \<longleftrightarrow> me \<in> waiters lo"
        using ProcSleep_result [OF rq' grp' _ conf'] wl by auto
      have "settles (insert me (set (waitProcs lock))) ps ps' lo"
        by (rule settles_upd [OF x(3)]) simp_all
      moreover have "request_lock tag me m dontWait pl (ps, lock) =
          Inr (case r of SleepGranted \<Rightarrow> AcquireOK | SleepWaiting \<Rightarrow> AcquireWaiting | SleepDeadlock \<Rightarrow> AcquireDeadlock, ps', lo)"
        using chk True dw x(1) by (cases r) (auto simp: request_lock_def)
      ultimately show ?thesis using x(2,4) by (cases r) auto
    qed
  qed
qed

definition holds :: "lock_table \<Rightarrow> LOCKTAG \<Rightarrow> proc \<Rightarrow> LOCKMODE \<Rightarrow> bool" where
  "holds t tag p m = (case locks t tag of None \<Rightarrow> False
     | Some lock \<Rightarrow> list_ex (\<lambda>pl. myProc pl = p \<and> flag (holdMask pl) (LOCKBIT_ON m)) (procLocks lock))"

lemma holds_iff:
  "holds t tag p m \<longleftrightarrow> (\<exists>lock pl. locks t tag = Some lock \<and> pl \<in> set (procLocks lock) \<and> myProc pl = p
     \<and> bit (holdMask pl) m)"
  by (auto simp: holds_def list_ex_iff flag_bits bit_LOCKBIT_ON dest: bit_small split: option.splits)

lemma table_objects: "table_inv t \<Longrightarrow> obj_ok (procs t) tag (locks t tag)"
  by (simp add: table_inv_def)

lemma table_idle: "table_inv t \<Longrightarrow> waitLock (procs t p) = None \<Longrightarrow> p \<notin> waiters (locks t tag)"
  using obj_ok_waits [OF table_objects] by fastforce

lemma table_waiting:
  assumes t: "table_inv t"
  shows "p \<in> waiters (locks t tag) \<longleftrightarrow> waitLock (procs t p) = Some tag"
proof
  show "waitLock (procs t p) = Some tag" if "p \<in> waiters (locks t tag)"
    using obj_ok_waits [OF table_objects [OF t] that] .
  show "p \<in> waiters (locks t tag)" if "waitLock (procs t p) = Some tag"
    using t that unfolding table_inv_def by blast
qed

lemma LockAcquire_inv:
  assumes t: "table_inv t" and v: "valid_mode m" and wl: "waitLock (procs t me) = None"
    and nh: "\<not> holds t tag me m"
  shows "\<exists>r t'. LockAcquire_table tag me m dontWait r1 r2 t = Inr (r, t') \<and> table_inv t'
    \<and> (r = AcquireWaiting \<longleftrightarrow> waitLock (procs t' me) = Some tag)"
proof -
  have grp: "groups_ok (procs t)" using t by (simp add: table_inv_def)
  note nw = table_idle [OF t wl, of tag]
  have free: "\<not> bit (holdMask pl) m" if "locks t tag = Some lock" "pl \<in> set (procLocks lock)" "myProc pl = me" for lock pl
    using nh that unfolding holds_iff by blast
  consider "SetupLockInTable (procs t) (locks t tag) r1 r2 me m = Inr (Inl (locks t tag))"
    | lock pl where "SetupLockInTable (procs t) (locks t tag) r1 r2 me m = Inr (Inr lock)"
      "requesting (procs t) tag me m pl lock" "find_proclock lock me = Some pl"
      "lock = add_request (procs t) me m (case locks t tag of Some l \<Rightarrow> l | None \<Rightarrow> new_lock)"
    using SetupLockInTable_result [OF table_objects [OF t] v nw, of r1 r2] free by blast
  then show ?thesis
  proof cases
    case 1
    have "put_lock t tag (procs t, locks t tag) = t" by (simp add: put_lock_def)
    with 1 t wl show ?thesis by (simp add: LockAcquire_table_def)
  next
    case 2
    have wp: "set (waitProcs lock) = waiters (locks t tag)"
      using 2(4) by (auto simp: add_request_def Let_def new_lock_def split: option.splits)
    obtain r ps' lo where x: "request_lock tag me m dontWait pl (procs t, lock) = Inr (r, ps', lo)"
        "obj_ok ps' tag lo" "settles (insert me (set (waitProcs lock))) (procs t) ps' lo"
        "r = AcquireWaiting \<longleftrightarrow> me \<in> waiters lo"
      using request_lock_result [OF 2(2) grp wl] by blast
    have P1: "waiters (locks t tag) \<subseteq> insert me (set (waitProcs lock))" unfolding wp by blast
    have P2: "p \<in> waiters (locks t tag) \<or> waitLock (procs t p) = None" if "p \<in> insert me (set (waitProcs lock))" for p
      using that wl unfolding wp by auto
    have inv: "table_inv (put_lock t tag (ps', lo))" by (rule put_lock_inv [OF t x(2,3) P1 P2])
    have r: "me \<in> waiters lo \<longleftrightarrow> waitLock (ps' me) = Some tag"
      using table_waiting [OF inv, of me tag] by (simp add: put_lock_def)
    have "LockAcquire_table tag me m dontWait r1 r2 t = Inr (r, put_lock t tag (ps', lo))"
      by (simp add: LockAcquire_table_def 2(1,3) x(1))
    then show ?thesis using x(4) r inv by (simp add: put_lock_def)
  qed
qed

section \<open>Release, cancellation and rearrangement on the table\<close>

lemma lock_inv_released:
  assumes "lock_inv ps tag lock" "p \<notin> set (waitProcs lock)"
  shows "released ps tag p False lock"
  using assms by (auto simp: lock_inv_def released_def no_garbage_def)

lemma table_lock: "table_inv t \<Longrightarrow> locks t tag = Some lock \<Longrightarrow> lock_inv (procs t) tag lock"
  using table_objects [of t tag] by simp

lemma release_inv:
  assumes t: "table_inv t" and l: "locks t tag = Some lock" and rel: "released (procs t) tag me w lock'"
    and pl: "pl \<in> set (procLocks lock')" "myProc pl = me" and wp: "waitProcs lock' = waitProcs lock"
  shows "\<exists>s'. CleanUpLock me (procs t, lock') me w = Inr s' \<and> table_inv (put_lock t tag s')"
proof -
  have grp: "groups_ok (procs t)" using t by (simp add: table_inv_def)
  obtain ps' lo where x: "CleanUpLock me (procs t, lock') me w = Inr (ps', lo)" "obj_ok ps' tag lo"
      "settles (set (waitProcs lock')) (procs t) ps' lo"
    using CleanUpLock_result [OF rel grp pl] by blast
  have "table_inv (put_lock t tag (ps', lo))"
    by (rule put_lock_inv [OF t x(2,3)]) (use wp l in auto)
  with x(1) show ?thesis by auto
qed

lemma LockRelease_inv:
  assumes t: "table_inv t" and wl: "waitLock (procs t me) = None" and h: "holds t tag me m"
  shows "\<exists>t'. LockRelease_table tag me m t = Inr (True, t') \<and> table_inv t'"
proof -
  obtain lock pl where l: "locks t tag = Some lock" "pl \<in> set (procLocks lock)" "myProc pl = me" "bit (holdMask pl) m"
    using h unfolding holds_iff by blast
  have inv: "lock_inv (procs t) tag lock" by (rule table_lock [OF t l(1)])
  have d: "distinct (map myProc (procLocks lock))" using inv counts_ok_distinct by (auto simp: lock_inv_def)
  have nw: "me \<notin> set (waitProcs lock)" using table_idle [OF t wl, of tag] l(1) by simp
  have f: "find_proclock lock me = Some pl" using l d by (simp add: find_proclock_Some)
  have rel: "released (procs t) tag me (snd (UnGrantLock lock me m)) (fst (UnGrantLock lock me m))"
    using UnGrantLock_released [OF lock_inv_released [OF inv nw] l(2-4)] by simp
  obtain s' where s: "CleanUpLock me (procs t, fst (UnGrantLock lock me m)) me (snd (UnGrantLock lock me m)) = Inr s'"
      "table_inv (put_lock t tag s')"
    using release_inv [OF t l(1) rel UnGrantLock_proclock [OF l(2,3)]] l(3) by auto
  have "flag (holdMask pl) (LOCKBIT_ON m)" using l(4) bit_small flag_LOCKBIT_ON by blast
  with l(1) f s show ?thesis by (simp add: LockRelease_table_def case_prod_beta)
qed

lemma ReleaseAll_inv:
  assumes t: "table_inv t" and wl: "waitLock (procs t me) = None" and l: "locks t tag = Some lock"
    and pl: "pl \<in> set (procLocks lock)" "myProc pl = me"
    and sub: "\<forall>i. valid_mode i \<longrightarrow> bit releaseMask i \<longrightarrow> bit (holdMask pl) i"
  shows "\<exists>t'. ReleaseAll_proclock tag me releaseMask t = Inr t' \<and> table_inv t'"
proof -
  have inv: "lock_inv (procs t) tag lock" by (rule table_lock [OF t l])
  have nw: "me \<notin> set (waitProcs lock)" using table_idle [OF t wl, of tag] l by simp
  have modes: "\<forall>i \<in> set [1..<Suc numLockModes]. i < 32 \<and> (bit releaseMask i \<longrightarrow> bit (holdMask pl) i)"
    unfolding modes_set using sub by simp
  obtain lock' w' pl' where u: "ungrant_modes releaseMask me [1..<Suc numLockModes] (lock, False) = (lock', w')"
      "released (procs t) tag me w' lock'" "pl' \<in> set (procLocks lock')" "myProc pl' = me" "waitProcs lock' = waitProcs lock"
    using ungrant_modes_released [OF lock_inv_released [OF inv nw] pl _ modes] by auto
  obtain s' where "CleanUpLock me (procs t, lock') me w' = Inr s'" "table_inv (put_lock t tag s')"
    using release_inv [OF t l u(2-5)] by blast
  with l u(1) show ?thesis by (simp add: ReleaseAll_proclock_def del: upt_Suc)
qed

lemma lock_inv_scan: "lock_inv ps tag lock \<Longrightarrow> scan_inv ps tag lock"
  by (simp add: lock_inv_def scan_inv_def)

lemma cancel_wait_inv:
  assumes t: "table_inv t"
  shows "\<exists>t'. cancel_wait me t = Inr t' \<and> table_inv t' \<and> waitLock (procs t' me) = None"
proof (cases "waitLock (procs t me)")
  case None
  with t show ?thesis by (simp add: cancel_wait_def)
next
  case (Some tag)
  then have "me \<in> waiters (locks t tag)" using t by (simp add: table_inv_def)
  then obtain lock where l: "locks t tag = Some lock" "me \<in> set (waitProcs lock)"
    by (cases "locks t tag") auto
  have grp: "groups_ok (procs t)" using t by (simp add: table_inv_def)
  obtain ps' lo where x: "RemoveFromWaitQueue me (procs t, lock) me = Inr (ps', lo)" "obj_ok ps' tag lo"
      "settles (set (waitProcs lock)) (procs t) ps' lo" "waitLock (ps' me) = None"
    using RemoveFromWaitQueue_result [OF lock_inv_scan [OF table_lock [OF t l(1)]] grp l(2)] by blast
  have "table_inv (put_lock t tag (ps', lo))"
    by (rule put_lock_inv [OF t x(2,3)]) (use l in auto)
  with Some l x show ?thesis by (simp add: cancel_wait_def put_lock_def)
qed

lemma rearrange_inv:
  assumes t: "table_inv t" and l: "locks t tag = Some lock" and o: "set order = set (waitProcs lock)" "distinct order"
  shows "\<exists>t'. rearrange_queue tag me order t = Inr t' \<and> table_inv t'"
proof -
  have inv: "lock_inv (procs t) tag lock" by (rule table_lock [OF t l])
  have grp: "groups_ok (procs t)" using t by (simp add: table_inv_def)
  let ?l = "lock\<lparr>waitProcs := order\<rparr>"
  have mc: "mode_count i (map (\<lambda>p. waitLockMode (procs t p)) order) = mode_count i (wait_modes (procs t) lock)" for i
  proof -
    have "mset order = mset (waitProcs lock)"
      using o inv by (simp add: lock_inv_def queue_ok_def set_eq_iff_mset_eq_distinct)
    then have "mset (map (\<lambda>p. waitLockMode (procs t p)) order) = mset (wait_modes (procs t) lock)"
      by (simp only: mset_map)
    then show ?thesis unfolding mode_count_def
      by (metis (no_types, lifting) mset_map sum_mset_sum_list)
  qed
  have sc: "scan_inv (procs t) tag ?l"
    using inv o mc by (simp add: lock_inv_def scan_inv_def counts_ok_def queue_ok_def compatible_def no_garbage_def)
  obtain ps' lock' where r: "ProcLockWakeup me (procs t, ?l) = Inr (ps', lock')" "scan_inv ps' tag lock'"
      "all_blocked ps' lock' {} (waitProcs lock')" "same_request (procs t) ps'" "nRequested lock' = nRequested ?l"
      "\<forall>p. p \<notin> set (waitProcs ?l) \<longrightarrow> ps' p = procs t p"
      "\<forall>p \<in> set (waitProcs ?l). p \<in> set (waitProcs lock') \<or> waitLock (ps' p) = None"
    using ProcLockWakeup_result [OF sc grp, of me] by blast
  have "obj_ok ps' tag (Some lock')" using r inv by (simp add: lock_inv_def scan_inv_def)
  moreover have "settles (set order) (procs t) ps' (Some lock')"
    using r by (simp add: settles_def same_request_def)
  ultimately have "table_inv (put_lock t tag (ps', Some lock'))"
    by (rule put_lock_inv [OF t]) (use o l in auto)
  with l r(1) show ?thesis by (simp add: rearrange_queue_def)
qed

section \<open>Lock groups on the table\<close>

lemma regroup_inv:
  assumes t: "table_inv t" and g: "groups_ok ps'"
    and w: "\<And>p. waitLock (ps' p) = waitLock (procs t p) \<and> waitLockMode (ps' p) = waitLockMode (procs t p)
       \<and> waitStatus (ps' p) = waitStatus (procs t p)"
    and same: "\<And>p tag lock. locks t tag = Some lock \<Longrightarrow> p \<in> myProc ` set (procLocks lock) \<Longrightarrow>
       group_of ps' p = group_of (procs t) p"
  shows "table_inv (t\<lparr>procs := ps'\<rparr>)"
proof -
  have "lock_inv ps' tag lock" if l: "locks t tag = Some lock" for tag lock
  proof -
    have inv: "lock_inv (procs t) tag lock" by (rule table_lock [OF t l])
    have sub: "set (waitProcs lock) \<subseteq> myProc ` set (procLocks lock)"
      using inv by (auto simp: lock_inv_def queue_ok_def)
    have "counts_ok ps' [] lock"
      by (rule counts_cong [of "procs t"]) (use inv w in \<open>auto simp: lock_inv_def\<close>)
    moreover have "queue_ok ps' tag lock"
      using inv w same [OF l] by (simp add: lock_inv_def queue_ok_def)
    moreover have "all_blocked ps' lock {} (waitProcs lock)"
      by (rule all_blocked_frame [of "procs t" lock "{}"]) (use inv w same [OF l] sub in \<open>auto simp: lock_inv_def\<close>)
    ultimately show ?thesis using inv by (simp add: lock_inv_def)
  qed
  then show ?thesis
    using t g w by (auto simp: table_inv_def obj_ok_def)
qed

lemma BecomeLockGroupLeader_inv:
  assumes t: "table_inv t" and g: "lockGroupLeader (procs t me) \<in> {None, Some me}"
  shows "table_inv (BecomeLockGroupLeader me t)"
proof (cases "lockGroupLeader (procs t me) = Some me")
  case False
  let ?ps = "(procs t)(me := (procs t me)\<lparr>lockGroupLeader := Some me\<rparr>)"
  have "groups_ok ?ps" using t by (auto simp: table_inv_def groups_ok_def)
  then have "table_inv (t\<lparr>procs := ?ps\<rparr>)"
    by (rule regroup_inv [OF t]) (use g in \<open>auto simp: group_of_def\<close>)
  with False show ?thesis by (simp add: BecomeLockGroupLeader_def)
qed (use t in \<open>simp add: BecomeLockGroupLeader_def\<close>)

lemma BecomeLockGroupMember_inv:
  assumes t: "table_inv t" and g: "lockGroupLeader (procs t me) = None" "me \<noteq> leader"
    and none: "\<And>tag lock. locks t tag = Some lock \<Longrightarrow> me \<notin> myProc ` set (procLocks lock)"
  shows "table_inv (snd (BecomeLockGroupMember me leader same_pid t))"
proof (cases "same_pid \<and> lockGroupLeader (procs t leader) = Some leader")
  case True
  let ?ps = "(procs t)(me := (procs t me)\<lparr>lockGroupLeader := Some leader\<rparr>)"
  have "groups_ok ?ps" using t True g by (auto simp: table_inv_def groups_ok_def)
  then have "table_inv (t\<lparr>procs := ?ps\<rparr>)"
    by (rule regroup_inv [OF t]) (use none in \<open>auto simp: group_of_def\<close>)
  with True show ?thesis by (simp add: BecomeLockGroupMember_def)
next
  case False
  with t show ?thesis by (auto simp: BecomeLockGroupMember_def)
qed

end
