(* ===== verification/Lock_Main.thy ===== *)
theory Lock_Main
  imports Lock_Table
begin

text \<open>
  The lock table under every interleaving of requests, releases, cancellations, queue
  rearrangements and changes of lock groups: mutual exclusion of conflicting modes, no lost
  wake-up, no inconsistency, and the exact effect of a conditional request and of a release.
\<close>

section \<open>Reachable tables\<close>

definition init_table :: lock_table where
  "init_table = \<lparr>procs = (\<lambda>_. \<lparr>lockGroupLeader = None, waitLock = None, waitLockMode = 0, heldLocks = 0,
     waitStatus = STATUS_OK\<rparr>), locks = (\<lambda>_. None)\<rparr>"

text \<open>
  The transitions with the conditions under which the code runs them: a process that waits does
  nothing else than give up; the local lock table keeps a process from requesting a mode it
  holds and from releasing one it does not; a process joins a lock group before it takes locks.
\<close>

inductive lock_reach :: "lock_table \<Rightarrow> bool" where
  start: "lock_reach init_table"
| acquire: "lock_reach t \<Longrightarrow> valid_mode m \<Longrightarrow> waitLock (procs t p) = None \<Longrightarrow> \<not> holds t tag p m \<Longrightarrow>
    LockAcquire_table tag p m dontWait room_lock room_proclock t = Inr (r, t') \<Longrightarrow> lock_reach t'"
| release: "lock_reach t \<Longrightarrow> waitLock (procs t p) = None \<Longrightarrow> holds t tag p m \<Longrightarrow>
    LockRelease_table tag p m t = Inr (b, t') \<Longrightarrow> lock_reach t'"
| release_all: "lock_reach t \<Longrightarrow> waitLock (procs t p) = None \<Longrightarrow> locks t tag = Some lock \<Longrightarrow>
    find_proclock lock p = Some proclock \<Longrightarrow>
    \<forall>i \<in> set [1..<Suc numLockModes]. flag releaseMask (LOCKBIT_ON i) \<longrightarrow> flag (holdMask proclock) (LOCKBIT_ON i) \<Longrightarrow>
    ReleaseAll_proclock tag p releaseMask t = Inr t' \<Longrightarrow> lock_reach t'"
| cancel: "lock_reach t \<Longrightarrow> cancel_wait p t = Inr t' \<Longrightarrow> lock_reach t'"
| rearrange: "lock_reach t \<Longrightarrow> locks t tag = Some lock \<Longrightarrow> set order = set (waitProcs lock) \<Longrightarrow> distinct order \<Longrightarrow>
    rearrange_queue tag p order t = Inr t' \<Longrightarrow> lock_reach t'"
| lead: "lock_reach t \<Longrightarrow> lockGroupLeader (procs t p) \<in> {None, Some p} \<Longrightarrow>
    lock_reach (BecomeLockGroupLeader p t)"
| join: "lock_reach t \<Longrightarrow> lockGroupLeader (procs t p) = None \<Longrightarrow> p \<noteq> leader \<Longrightarrow>
    (\<And>tag lock. locks t tag = Some lock \<Longrightarrow> find_proclock lock p = None) \<Longrightarrow>
    lock_reach (snd (BecomeLockGroupMember p leader same_pid t))"

lemma lock_reach_inv: "lock_reach t \<Longrightarrow> table_inv t"
proof (induction rule: lock_reach.induct)
  case start
  show ?case by (simp add: table_inv_def init_table_def groups_ok_def)
next
  case (acquire t m p tag dontWait r1 r2 r t')
  then show ?case using LockAcquire_inv [of t m p tag dontWait r1 r2] by auto
next
  case (release t p tag m b t')
  then show ?case using LockRelease_inv [of t p tag m] by auto
next
  case (release_all t p tag lock proclock releaseMask t')
  have "distinct (map myProc (procLocks lock))"
    using table_lock [OF release_all.IH release_all.hyps(3)] counts_ok_distinct by (auto simp: lock_inv_def)
  then have pl: "proclock \<in> set (procLocks lock)" "myProc proclock = p"
    using release_all.hyps(4) by (simp_all add: find_proclock_Some)
  have "\<forall>i. valid_mode i \<longrightarrow> bit releaseMask i \<longrightarrow> bit (holdMask proclock) i"
    using release_all.hyps(5) unfolding modes_set by (simp add: flag_LOCKBIT_ON)
  from ReleaseAll_inv [OF release_all.IH release_all.hyps(2,3) pl this] release_all.hyps(6)
  show ?case by auto
next
  case (cancel t p t')
  then show ?case using cancel_wait_inv [of t p] by auto
next
  case (rearrange t tag lock order p t')
  then show ?case using rearrange_inv [of t tag lock order p] by auto
next
  case (lead t p)
  then show ?case using BecomeLockGroupLeader_inv by blast
next
  case (join t p leader same_pid)
  then show ?case using BecomeLockGroupMember_inv [of t p leader same_pid] by (simp add: find_proclock_None)
qed

section \<open>The contract of a lock service\<close>

text \<open>
  What the clients of the lock manager rely on, over an arbitrary set of reachable states: a
  mode that conflicts with itself is held by one group at a time, and a mode that conflicts
  with every mode excludes every other group.
\<close>

locale lock_service =
  fixes reach :: "'s \<Rightarrow> bool" and held :: "'s \<Rightarrow> 'tag \<Rightarrow> 'p \<Rightarrow> nat \<Rightarrow> bool" and grp :: "'s \<Rightarrow> 'p \<Rightarrow> 'g"
    and conflict :: "nat \<Rightarrow> nat \<Rightarrow> bool"
  assumes exclusion: "reach s \<Longrightarrow> held s tag p i \<Longrightarrow> held s tag q j \<Longrightarrow> conflict i j \<Longrightarrow> grp s p = grp s q"
begin

lemma self_exclusive: "reach s \<Longrightarrow> conflict i i \<Longrightarrow> held s tag p i \<Longrightarrow> held s tag q i \<Longrightarrow> grp s p = grp s q"
  by (rule exclusion)

lemma excludes_all:
  "reach s \<Longrightarrow> held s tag p i \<Longrightarrow> (\<And>j q. held s tag q j \<Longrightarrow> conflict i j) \<Longrightarrow> held s tag q j \<Longrightarrow> grp s p = grp s q"
  by (blast intro: exclusion)

end

lemma table_exclusion:
  assumes t: "table_inv t" and h: "holds t tag p i" "holds t tag q j" and c: "DoLockModesConflict i j"
  shows "group_of (procs t) p = group_of (procs t) q"
proof -
  obtain lock x y where l: "locks t tag = Some lock" "x \<in> set (procLocks lock)" "myProc x = p" "bit (holdMask x) i"
      "y \<in> set (procLocks lock)" "myProc y = q" "bit (holdMask y) j"
    using h unfolding holds_iff by auto
  have inv: "lock_inv (procs t) tag lock" by (rule table_lock [OF t l(1)])
  then have "groupLeader x = groupLeader y"
    using l c unfolding lock_inv_def compatible_def by blast
  with inv l show ?thesis by (simp add: lock_inv_def queue_ok_def)
qed

interpretation shared_locks: lock_service lock_reach holds "\<lambda>t. group_of (procs t)" DoLockModesConflict
  by unfold_locales (rule table_exclusion [OF lock_reach_inv])

lemma holds_valid: "table_inv t \<Longrightarrow> holds t tag p m \<Longrightarrow> valid_mode m"
  unfolding holds_iff using table_lock counts_ok_hold by (fastforce simp: lock_inv_def)

section \<open>Waiters\<close>

lemma all_blocked_at:
  assumes "all_blocked ps lock A (pre @ p # post)"
  shows "blocked ps lock (A \<union> set pre) p"
  using assms by (simp add: all_blocked_append)

lemma foreign_holder:
  assumes t: "table_inv t" and l: "locks t tag = Some lock"
  shows "foreign_conflict lock g m \<longleftrightarrow>
    (\<exists>q j. holds t tag q j \<and> group_of (procs t) q \<noteq> g \<and> DoLockModesConflict m j)"
proof -
  have inv: "lock_inv (procs t) tag lock" by (rule table_lock [OF t l])
  have bits: "\<forall>pl \<in> set (procLocks lock). \<forall>i. bit (holdMask pl) i \<longrightarrow> valid_mode i"
    using inv by (simp add: lock_inv_def counts_ok_def)
  have g: "groupLeader x = group_of (procs t) (myProc x)" if "x \<in> set (procLocks lock)" for x
    using inv that by (simp add: lock_inv_def queue_ok_def)
  show ?thesis
    unfolding foreign_conflict_bits [OF bits] holds_iff using l g by auto
qed

lemma waiter_blocked_table:
  assumes t: "table_inv t" and w: "waitLock (procs t p) = Some tag"
  shows "\<exists>lock pre post. locks t tag = Some lock \<and> waitProcs lock = pre @ p # post \<and>
    ((\<exists>q \<in> set pre. DoLockModesConflict (waitLockMode (procs t p)) (waitLockMode (procs t q)))
     \<or> (\<exists>q j. holds t tag q j \<and> group_of (procs t) q \<noteq> group_of (procs t) p
          \<and> DoLockModesConflict (waitLockMode (procs t p)) j))"
proof -
  have "p \<in> waiters (locks t tag)" using t w by (simp add: table_inv_def)
  then obtain lock where l: "locks t tag = Some lock" "p \<in> set (waitProcs lock)"
    by (cases "locks t tag") auto
  then obtain pre post where q: "waitProcs lock = pre @ p # post" by (auto dest: split_list)
  have "blocked (procs t) lock (set pre) p"
    using all_blocked_at [of "procs t" lock "{}" pre p post] table_lock [OF t l(1)] q by (simp add: lock_inv_def)
  then show ?thesis
    using l q foreign_holder [OF t l(1)] by (auto simp: blocked_def)
qed

section \<open>Who holds what after an operation\<close>

definition hold_in :: "LOCK \<Rightarrow> proc \<Rightarrow> LOCKMODE \<Rightarrow> bool" where
  "hold_in lock q j \<longleftrightarrow> (\<exists>pl \<in> set (procLocks lock). myProc pl = q \<and> bit (holdMask pl) j)"

lemma holds_hold_in: "holds t tag q j \<longleftrightarrow> (\<exists>lock. locks t tag = Some lock \<and> hold_in lock q j)"
  by (auto simp: holds_iff hold_in_def)

lemma hold_in_upd:
  assumes "procLocks lock' = procLocks (upd_proclock p f lock)"
  shows "hold_in lock' q j \<longleftrightarrow>
    (\<exists>x \<in> set (procLocks lock). myProc x = q \<and> bit (if q = p then f (holdMask x) else holdMask x) j)"
proof -
  have "hold_in lock' q j \<longleftrightarrow> (\<exists>x \<in> set (procLocks lock).
      myProc (if myProc x = p then x\<lparr>holdMask := f (holdMask x)\<rparr> else x) = q \<and>
      bit (holdMask (if myProc x = p then x\<lparr>holdMask := f (holdMask x)\<rparr> else x)) j)"
    unfolding hold_in_def assms procLocks_upd set_map by (simp only: bex_simps)
  then show ?thesis by (auto split: if_splits)
qed

lemma hold_in_GrantLock:
  assumes "p \<in> myProc ` set (procLocks lock)" "m < 32"
  shows "hold_in (GrantLock lock p m) q j \<longleftrightarrow> hold_in lock q j \<or> (q = p \<and> j = m)"
  using assms unfolding hold_in_upd [OF procLocks_GrantLock]
  unfolding hold_in_def by (auto simp: bit_or_ON)

lemma hold_in_UnGrantLock: "hold_in (fst (UnGrantLock lock p m)) q j \<longleftrightarrow> hold_in lock q j \<and> \<not> (q = p \<and> j = m)"
  unfolding hold_in_upd [OF procLocks_UnGrantLock]
  unfolding hold_in_def by (auto simp: bit_and_OFF)

lemma hold_in_del:
  assumes "counts_ok ps pending lock" "pl \<in> set (procLocks lock)" "myProc pl = p" "holdMask pl = 0"
  shows "hold_in (del_proclock p lock) = hold_in lock"
proof -
  have "x = pl" if "x \<in> set (procLocks lock)" "myProc x = p" for x
    using only_proclock [OF assms(1,2) that(1)] that(2) assms(3) by simp
  with assms(4) show ?thesis by (auto simp: fun_eq_iff hold_in_def)
qed

lemma hold_in_add_request: "hold_in (add_request ps p m lock) = hold_in lock"
  by (auto simp: fun_eq_iff hold_in_def add_request_def Let_def)

lemma hold_in_waitProcs [simp]: "hold_in (lock\<lparr>waitProcs := q\<rparr>) = hold_in lock"
  by (auto simp: fun_eq_iff hold_in_def)

lemma procs_GrantLock: "myProc ` set (procLocks (GrantLock lock p m)) = myProc ` set (procLocks lock)"
  unfolding procLocks_GrantLock by (metis list.set_map upd_proclock_simps(8))

text \<open>The scan grants to each process it takes off the queue the mode it waited for, and nothing else.\<close>

lemma wakeup_loop_holds:
  assumes "wakeup_loop me ws aheadRequests (ps, lock) = Inr (ps', lock')" "distinct ws"
    "set ws \<subseteq> set (waitProcs lock)" "distinct (waitProcs lock)"
    "set ws \<subseteq> myProc ` set (procLocks lock)" "\<forall>w \<in> set ws. waitLockMode (ps w) < 32"
  shows "(\<forall>q j. hold_in lock' q j \<longleftrightarrow> hold_in lock q j
       \<or> (q \<in> set ws \<and> q \<notin> set (waitProcs lock') \<and> j = waitLockMode (ps q)))
    \<and> set (waitProcs lock') \<subseteq> set (waitProcs lock) \<and> set (waitProcs lock) - set ws \<subseteq> set (waitProcs lock')
    \<and> (\<forall>q. waitStatus (ps' q) = (if q \<in> set ws \<and> q \<notin> set (waitProcs lock') then STATUS_OK else waitStatus (ps q)))"
  using assms
proof (induction ws arbitrary: aheadRequests ps lock)
  case Nil
  then show ?case by simp
next
  case (Cons w ws)
  let ?m = "waitLockMode (ps w)"
  have m: "?m < 32" using Cons.prems(6) by simp
  consider "wakeup_loop me ws (aheadRequests OR LOCKBIT_ON ?m) (ps, lock) = Inr (ps', lock')"
    | "wakeup_loop me ws aheadRequests (wake w (ps, lock)) = Inr (ps', lock')"
    using Cons.prems(1) by (auto simp: Let_def wake_def split: if_splits option.splits sum.splits bool.splits)
  then show ?case
  proof cases
    case 1
    have IH: "(\<forall>q j. hold_in lock' q j \<longleftrightarrow> hold_in lock q j
         \<or> (q \<in> set ws \<and> q \<notin> set (waitProcs lock') \<and> j = waitLockMode (ps q)))
      \<and> set (waitProcs lock') \<subseteq> set (waitProcs lock) \<and> set (waitProcs lock) - set ws \<subseteq> set (waitProcs lock')
      \<and> (\<forall>q. waitStatus (ps' q) = (if q \<in> set ws \<and> q \<notin> set (waitProcs lock') then STATUS_OK else waitStatus (ps q)))"
      by (rule Cons.IH [OF 1]) (use Cons.prems in auto)
    moreover from this have "w \<in> set (waitProcs lock')" using Cons.prems(2,3) by auto
    ultimately show ?thesis by auto
  next
    case 2
    obtain ps1 l1 where e: "wake w (ps, lock) = (ps1, l1)" by fastforce
    have e1: "ps1 = ps(w := (ps w)\<lparr>waitLock := None, waitStatus := STATUS_OK\<rparr>)"
      "l1 = GrantLock (lock\<lparr>waitProcs := remove1 w (waitProcs lock)\<rparr>) w ?m"
      using e by (simp_all add: wake_simps)
    have q1: "set (waitProcs l1) = set (waitProcs lock) - {w}" "distinct (waitProcs l1)"
      using Cons.prems(4) by (simp_all add: e1)
    have p1: "myProc ` set (procLocks l1) = myProc ` set (procLocks lock)"
      by (simp add: e1 procs_GrantLock)
    have h1: "hold_in l1 q j \<longleftrightarrow> hold_in lock q j \<or> (q = w \<and> j = ?m)" for q j
      unfolding e1 using Cons.prems(5) m by (subst hold_in_GrantLock) auto
    have md: "waitLockMode (ps1 q) = waitLockMode (ps q)" for q by (simp add: e1)
    have IH: "(\<forall>q j. hold_in lock' q j \<longleftrightarrow> hold_in l1 q j
         \<or> (q \<in> set ws \<and> q \<notin> set (waitProcs lock') \<and> j = waitLockMode (ps1 q)))
      \<and> set (waitProcs lock') \<subseteq> set (waitProcs l1) \<and> set (waitProcs l1) - set ws \<subseteq> set (waitProcs lock')
      \<and> (\<forall>q. waitStatus (ps' q) = (if q \<in> set ws \<and> q \<notin> set (waitProcs lock') then STATUS_OK else waitStatus (ps1 q)))"
    proof (rule Cons.IH)
      show "wakeup_loop me ws aheadRequests (ps1, l1) = Inr (ps', lock')" using 2 e by simp
    qed (use Cons.prems q1 p1 md in auto)
    have gone: "w \<notin> set (waitProcs lock')" using IH q1 by auto
    have st: "waitStatus (ps1 q) = (if q = w then STATUS_OK else waitStatus (ps q))" for q by (simp add: e1)
    have "hold_in lock' q j \<longleftrightarrow> hold_in lock q j
         \<or> (q \<in> set (w # ws) \<and> q \<notin> set (waitProcs lock') \<and> j = waitLockMode (ps q))" for q j
      using IH h1 md gone by (cases "q = w") auto
    moreover have "waitStatus (ps' q) =
        (if q \<in> set (w # ws) \<and> q \<notin> set (waitProcs lock') then STATUS_OK else waitStatus (ps q))" for q
      using IH st gone by (cases "q = w") auto
    moreover have "set (waitProcs lock') \<subseteq> set (waitProcs lock)"
        "set (waitProcs lock) - set (w # ws) \<subseteq> set (waitProcs lock')"
      using IH q1 by auto
    ultimately show ?thesis by blast
  qed
qed

lemma counts_no_holder: "counts_ok ps [] lock \<Longrightarrow> nRequested lock = 0 \<Longrightarrow> \<not> hold_in lock q j"
proof
  assume ok: "counts_ok ps [] lock" and z: "nRequested lock = 0" and "hold_in lock q j"
  then obtain pl where pl: "pl \<in> set (procLocks lock)" "bit (holdMask pl) j" by (auto simp: hold_in_def)
  have nn: "\<And>i. 0 \<le> granted lock i" by (simp add: counts_okD(2) [OF ok])
  have "nGranted lock = 0" using nRequested_count [OF ok] nRequested_zero [OF ok z] z by simp
  then have "\<forall>i \<in> Collect valid_mode. granted lock i = 0"
    unfolding counts_okD(3) [OF ok] using sum_nonneg_eq_0_iff [OF finite_modes, of "granted lock"] nn by blast
  then show False
    using counts_ok_hold [OF ok pl] pl unfolding counts_okD(2) [OF ok] held_count_zero by auto
qed

text \<open>The effect of the clean-up: the waiters it takes off the queue hold what they waited for.\<close>

lemma CleanUpLock_holds:
  assumes rel: "released ps tag p w lock" and pl: "pl \<in> set (procLocks lock)" "myProc pl = p"
    and c: "CleanUpLock me (ps, lock) p w = Inr (ps', lo)"
  shows "((\<exists>l. lo = Some l \<and> hold_in l q j) \<longleftrightarrow> hold_in lock q j \<or>
      (q \<in> set (waitProcs lock) \<and> q \<notin> waiters lo \<and> j = waitLockMode (ps q)))
    \<and> (q \<in> set (waitProcs lock) \<and> q \<notin> waiters lo \<longrightarrow> waitStatus (ps' q) = STATUS_OK)"
proof -
  have ok: "counts_ok ps [] lock" and qo: "queue_ok ps tag lock"
    using rel by (auto simp: released_def)
  have find: "find_proclock lock p = Some pl"
    using pl counts_ok_distinct [OF ok] by (simp add: find_proclock_Some)
  define l1 where "l1 = (if holdMask pl = 0 then del_proclock p lock else lock)"
  have ok1: "counts_ok ps [] l1" using ok counts_del [OF ok pl] by (simp add: l1_def)
  have w1: "waitProcs l1 = waitProcs lock" by (simp add: l1_def)
  have h1: "hold_in l1 = hold_in lock" using hold_in_del [OF ok pl] by (simp add: l1_def)
  have unf: "CleanUpLock me (ps, lock) p w =
      (if nRequested l1 = 0 then Inr (ps, None)
       else if w then (case ProcLockWakeup me (ps, l1) of Inl e \<Rightarrow> Inl e | Inr s' \<Rightarrow> Inr (fst s', Some (snd s')))
       else Inr (ps, Some l1))"
    by (simp add: CleanUpLock_def find l1_def)
  consider "nRequested l1 = 0" "ps' = ps" "lo = None"
    | "nRequested l1 \<noteq> 0" "\<not> w" "ps' = ps" "lo = Some l1"
    | l' where "ProcLockWakeup me (ps, l1) = Inr (ps', l')" "lo = Some l'"
    using c unfolding unf by (auto split: if_splits sum.splits)
  then show ?thesis
  proof cases
    case 1
    then show ?thesis
      using counts_no_holder [OF ok1 1(1)] nRequested_zero [OF ok1 1(1)] h1 w1 by simp
  next
    case 2
    then show ?thesis by (auto simp: h1 w1)
  next
    case 3
    have np: "p \<notin> set (waitProcs lock)" using rel by (simp add: released_def)
    have sub: "set (waitProcs l1) \<subseteq> myProc ` set (procLocks l1)"
      using qo np by (fastforce simp: queue_ok_def l1_def)
    have d: "distinct (waitProcs l1)" using qo by (simp add: queue_ok_def w1)
    have modes: "\<forall>x \<in> set (waitProcs l1). waitLockMode (ps x) < 32"
      using counts_okD(9) [OF ok] by (auto simp: w1)
    from wakeup_loop_holds [OF 3(1) [unfolded ProcLockWakeup_def snd_conv] d order_refl d sub modes]
    show ?thesis using 3(2) h1 w1 by simp
  qed
qed

lemma holds_put: "holds (put_lock t tag (ps, lo)) tg q j \<longleftrightarrow>
    (if tg = tag then \<exists>l. lo = Some l \<and> hold_in l q j else holds t tg q j)"
  by (simp add: holds_hold_in put_lock_def)

lemma release_effect_table:
  assumes t: "table_inv t" and wl: "waitLock (procs t p) = None" and h: "holds t tag p m"
  shows "\<exists>t'. LockRelease_table tag p m t = Inr (True, t')
    \<and> (\<forall>tg q j. holds t' tg q j \<longleftrightarrow> (holds t tg q j \<and> \<not> (tg = tag \<and> q = p \<and> j = m))
         \<or> (tg = tag \<and> waitLock (procs t q) = Some tag \<and> waitLock (procs t' q) = None \<and> j = waitLockMode (procs t q)))
    \<and> (\<forall>q. waitLock (procs t q) = Some tag \<and> waitLock (procs t' q) = None \<longrightarrow> waitStatus (procs t' q) = STATUS_OK)"
proof -
  obtain lock pl where l: "locks t tag = Some lock" "pl \<in> set (procLocks lock)" "myProc pl = p" "bit (holdMask pl) m"
    using h unfolding holds_iff by blast
  let ?l = "fst (UnGrantLock lock p m)" and ?w = "snd (UnGrantLock lock p m)"
  have inv: "lock_inv (procs t) tag lock" by (rule table_lock [OF t l(1)])
  have d: "distinct (map myProc (procLocks lock))" using inv counts_ok_distinct by (auto simp: lock_inv_def)
  have nw: "p \<notin> set (waitProcs lock)" using table_idle [OF t wl, of tag] l(1) by simp
  have f: "find_proclock lock p = Some pl" using l d by (simp add: find_proclock_Some)
  have rel: "released (procs t) tag p ?w ?l"
    using UnGrantLock_released [OF lock_inv_released [OF inv nw] l(2-4)] by simp
  obtain t' where t': "LockRelease_table tag p m t = Inr (True, t')" "table_inv t'"
    using LockRelease_inv [OF t wl h] by blast
  have fl: "flag (holdMask pl) (LOCKBIT_ON m)" using l(4) bit_small flag_LOCKBIT_ON by blast
  obtain ps' lo where c: "CleanUpLock p (procs t, ?l) p ?w = Inr (ps', lo)" "t' = put_lock t tag (ps', lo)"
    using t'(1) l(1) f fl by (auto simp: LockRelease_table_def case_prod_beta split: sum.splits)
  have woken: "q \<in> set (waitProcs lock) \<and> q \<notin> waiters lo \<longleftrightarrow>
      waitLock (procs t q) = Some tag \<and> waitLock (procs t' q) = None" for q
  proof -
    have "q \<in> set (waitProcs lock) \<longleftrightarrow> waitLock (procs t q) = Some tag"
      using table_waiting [OF t, of q tag] l(1) by simp
    moreover have "q \<in> waiters lo \<longleftrightarrow> waitLock (ps' q) = Some tag"
      using table_waiting [OF t'(2), of q tag] by (simp add: c(2) put_lock_def)
    moreover have "waitLock (ps' q) = Some tag \<or> waitLock (ps' q) = None" if "q \<in> set (waitProcs lock)"
    proof -
      have "groups_ok (procs t)" using t by (simp add: table_inv_def)
      then have "settles (set (waitProcs lock)) (procs t) ps' lo"
        using CleanUpLock_result [OF rel _ UnGrantLock_proclock [OF l(2,3)], of p] c(1) l(3) by auto
      then show ?thesis using that \<open>q \<in> waiters lo \<longleftrightarrow> _\<close> by (auto simp: settles_def)
    qed
    ultimately show ?thesis by (auto simp: c(2) put_lock_def)
  qed
  have eff: "((\<exists>l. lo = Some l \<and> hold_in l q j) \<longleftrightarrow> hold_in ?l q j \<or>
      (q \<in> set (waitProcs lock) \<and> q \<notin> waiters lo \<and> j = waitLockMode (procs t q)))
    \<and> (q \<in> set (waitProcs lock) \<and> q \<notin> waiters lo \<longrightarrow> waitStatus (ps' q) = STATUS_OK)" for q j
    using CleanUpLock_holds [OF rel UnGrantLock_proclock [OF l(2,3)] _ c(1), of q j] l(3) by simp
  have old: "hold_in lock q j \<longleftrightarrow> holds t tag q j" for q j using l(1) by (simp add: holds_hold_in)
  have "holds t' tg q j \<longleftrightarrow> (holds t tg q j \<and> \<not> (tg = tag \<and> q = p \<and> j = m))
      \<or> (tg = tag \<and> waitLock (procs t q) = Some tag \<and> waitLock (procs t' q) = None \<and> j = waitLockMode (procs t q))" for tg q j
    unfolding c(2) holds_put using eff [of q j] woken [of q] unfolding c(2) hold_in_UnGrantLock old by auto
  moreover have "waitStatus (procs t' q) = STATUS_OK"
    if "waitLock (procs t q) = Some tag" "waitLock (procs t' q) = None" for q
    using eff [of q] woken [of q] that by (simp add: c(2) put_lock_def)
  ultimately show ?thesis using t'(1) by blast
qed

lemma conditional_acquire_table:
  assumes t: "table_inv t" and v: "valid_mode m" and wl: "waitLock (procs t p) = None" and nh: "\<not> holds t tag p m"
  shows "\<exists>r t'. LockAcquire_table tag p m True True True t = Inr (r, t')
    \<and> (if (\<exists>q. waitLock (procs t q) = Some tag \<and> DoLockModesConflict m (waitLockMode (procs t q)))
          \<or> (\<exists>q j. holds t tag q j \<and> group_of (procs t) q \<noteq> group_of (procs t) p \<and> DoLockModesConflict m j)
       then r = AcquireNotAvail \<and> holds t' = holds t
       else r = AcquireOK \<and> (\<forall>tg q j. holds t' tg q j \<longleftrightarrow> holds t tg q j \<or> (tg = tag \<and> q = p \<and> j = m)))
    \<and> procs t' = procs t"
proof -
  let ?old = "case locks t tag of Some l \<Rightarrow> l | None \<Rightarrow> new_lock"
  let ?l = "add_request (procs t) p m ?old"
  have grp: "groups_ok (procs t)" using t by (simp add: table_inv_def)
  note nw = table_idle [OF t wl, of tag]
  have free: "\<not> bit (holdMask pl) m" if "locks t tag = Some lock" "pl \<in> set (procLocks lock)" "myProc pl = p" for lock pl
    using nh that unfolding holds_iff by blast
  have full: "SetupLockInTable (procs t) (locks t tag) True True p m \<noteq> Inr (Inl (locks t tag))"
    by (auto simp: SetupLockInTable_def Let_def split: option.splits if_splits)
  obtain pl where s: "SetupLockInTable (procs t) (locks t tag) True True p m = Inr (Inr ?l)"
      "requesting (procs t) tag p m pl ?l" "find_proclock ?l p = Some pl"
    using SetupLockInTable_result [OF table_objects [OF t] v nw, of True True] free full by blast
  let ?wc = "flag (conflictTab m) (waitMask ?l)" and ?fc = "foreign_conflict ?l (group_of (procs t) p) m"
  have chk: "(if ?wc then Inr True else LockCheckConflicts (procs t) p m ?l pl) = Inr (?wc \<or> ?fc)"
    using requesting_check [OF s(2) grp] by simp
  have wp: "set (waitProcs ?l) = waiters (locks t tag)"
    by (auto simp: add_request_def Let_def new_lock_def split: option.splits)
  have hold: "hold_in ?l q j \<longleftrightarrow> holds t tag q j" for q j
    unfolding hold_in_add_request
    by (cases "locks t tag") (auto simp: holds_hold_in, auto simp: hold_in_def new_lock_def)
  have waiting: "q \<in> waiters (locks t tag) \<longleftrightarrow> waitLock (procs t q) = Some tag" for q
    by (rule table_waiting [OF t])
  have ok: "counts_ok (procs t) [m] ?l" and qo: "queue_ok (procs t) tag ?l"
    and pl: "pl \<in> set (procLocks ?l)" "myProc pl = p"
    using s(2) by (simp_all add: requesting_def)
  have wc: "?wc \<longleftrightarrow> (\<exists>q. waitLock (procs t q) = Some tag \<and> DoLockModesConflict m (waitLockMode (procs t q)))"
  proof -
    have "bit (waitMask ?l) i \<longleftrightarrow> i \<in> set (wait_modes (procs t) ?l)" for i
      using s(2) counts_okD(7) [OF ok] by (auto simp: requesting_def)
    then show ?thesis unfolding flag_conflictTab using wp waiting by auto
  qed
  have fc: "?fc \<longleftrightarrow> (\<exists>q j. holds t tag q j \<and> group_of (procs t) q \<noteq> group_of (procs t) p \<and> DoLockModesConflict m j)"
  proof -
    have bits: "\<forall>pl \<in> set (procLocks ?l). \<forall>i. bit (holdMask pl) i \<longrightarrow> valid_mode i"
      using ok by (simp add: counts_ok_def)
    have "groupLeader x = group_of (procs t) (myProc x)" if "x \<in> set (procLocks ?l)" for x
      using qo that by (simp add: queue_ok_def)
    then show ?thesis
      unfolding foreign_conflict_bits [OF bits] hold [symmetric] hold_in_def by auto
  qed
  show ?thesis
  proof (cases "?wc \<or> ?fc")
    case True
    let ?u = "undo_request p m pl ?l"
    have r: "LockAcquire_table tag p m True True True t = Inr (AcquireNotAvail, put_lock t tag (procs t, Some ?u))"
    proof -
      have e: "(if ?wc then Inr True else LockCheckConflicts (procs t) p m ?l pl) = Inr True"
        using chk True by simp
      have "request_lock tag p m True pl (procs t, ?l) = Inr (AcquireNotAvail, procs t, Some ?u)"
        unfolding request_lock_def Let_def fst_conv snd_conv e by simp
      then show ?thesis unfolding LockAcquire_table_def s(1) by (simp add: s(3))
    qed
    have "hold_in ?u = hold_in ?l"
      using hold_in_del [OF ok pl] by (auto simp: undo_request_def Let_def hold_in_def fun_eq_iff)
    then have "holds (put_lock t tag (procs t, Some ?u)) = holds t"
      using hold by (auto simp: fun_eq_iff holds_put)
    then show ?thesis using r True wc fc by (auto simp: put_lock_def)
  next
    case False
    let ?g = "GrantLock ?l p m"
    have r: "LockAcquire_table tag p m True True True t = Inr (AcquireOK, put_lock t tag (procs t, Some ?g))"
    proof -
      have e: "(if ?wc then Inr True else LockCheckConflicts (procs t) p m ?l pl) = Inr False"
        using chk False by simp
      have "request_lock tag p m True pl (procs t, ?l) = Inr (AcquireOK, procs t, Some ?g)"
        unfolding request_lock_def Let_def fst_conv snd_conv e by simp
      then show ?thesis unfolding LockAcquire_table_def s(1) by (simp add: s(3))
    qed
    have "hold_in ?g q j \<longleftrightarrow> hold_in ?l q j \<or> (q = p \<and> j = m)" for q j
      by (rule hold_in_GrantLock) (use pl v in auto)
    then have "holds (put_lock t tag (procs t, Some ?g)) tg q j \<longleftrightarrow> holds t tg q j \<or> (tg = tag \<and> q = p \<and> j = m)" for tg q j
      using hold by (auto simp: holds_put)
    then show ?thesis using r False wc fc by (auto simp: put_lock_def)
  qed
qed

section \<open>The properties\<close>

text \<open>C17: In every table reached by any interleaving of requests, releases, cancellations, queue
  rearrangements and lock-group changes, processes that hold conflicting modes on the same object
  belong to the same lock group.\<close>

theorem locks_exclude:
  assumes "lock_reach t" "holds t tag p i" "holds t tag q j" "DoLockModesConflict i j"
  shows "group_of (procs t) p = group_of (procs t) q"
  by (rule shared_locks.exclusion [OF assms])

text \<open>C18: No wake-up is lost: in every reachable table a process that waits is in the queue of the
  object it waits for, and a waiter before it requests a conflicting mode or a process of another
  lock group holds one.\<close>

theorem waiters_blocked:
  assumes "lock_reach t" "waitLock (procs t p) = Some tag"
  shows "\<exists>lock pre post. locks t tag = Some lock \<and> waitProcs lock = pre @ p # post \<and>
    ((\<exists>q \<in> set pre. DoLockModesConflict (waitLockMode (procs t p)) (waitLockMode (procs t q)))
     \<or> (\<exists>q j. holds t tag q j \<and> group_of (procs t) q \<noteq> group_of (procs t) p
          \<and> DoLockModesConflict (waitLockMode (procs t p)) j))"
  by (rule waiter_blocked_table [OF lock_reach_inv [OF assms(1)] assms(2)])

text \<open>C20: A release in a reachable table succeeds, takes exactly the released mode from the process,
  and gives each process it wakes exactly the mode that process waited for, with an OK status.\<close>

theorem release_effect:
  assumes "lock_reach t" "waitLock (procs t p) = None" "holds t tag p m"
  shows "\<exists>t'. LockRelease_table tag p m t = Inr (True, t')
    \<and> (\<forall>tg q j. holds t' tg q j \<longleftrightarrow> (holds t tg q j \<and> \<not> (tg = tag \<and> q = p \<and> j = m))
         \<or> (tg = tag \<and> waitLock (procs t q) = Some tag \<and> waitLock (procs t' q) = None \<and> j = waitLockMode (procs t q)))
    \<and> (\<forall>q. waitLock (procs t q) = Some tag \<and> waitLock (procs t' q) = None \<longrightarrow> waitStatus (procs t' q) = STATUS_OK)"
  by (rule release_effect_table [OF lock_reach_inv [OF assms(1)] assms(2,3)])

text \<open>C21: A conditional request is granted exactly when no waiter of the object requests and no
  process of another lock group holds a conflicting mode; a refused one leaves every lock as it was.\<close>

theorem conditional_acquire:
  assumes "lock_reach t" "valid_mode m" "waitLock (procs t p) = None" "\<not> holds t tag p m"
  shows "\<exists>r t'. LockAcquire_table tag p m True True True t = Inr (r, t')
    \<and> (if (\<exists>q. waitLock (procs t q) = Some tag \<and> DoLockModesConflict m (waitLockMode (procs t q)))
          \<or> (\<exists>q j. holds t tag q j \<and> group_of (procs t) q \<noteq> group_of (procs t) p \<and> DoLockModesConflict m j)
       then r = AcquireNotAvail \<and> holds t' = holds t
       else r = AcquireOK \<and> (\<forall>tg q j. holds t' tg q j \<longleftrightarrow> holds t tg q j \<or> (tg = tag \<and> q = p \<and> j = m)))
    \<and> procs t' = procs t"
  by (rule conditional_acquire_table [OF lock_reach_inv [OF assms(1)] assms(2-)])

text \<open>C19: The internal checks of the lock manager never fail: in a reachable table a request, the
  end of a wait and the release of locks held return, whatever the room in the hash tables, and
  the process waits after a request exactly when it is told so.\<close>

theorem lock_table_consistent:
  assumes "lock_reach t"
  shows "(valid_mode m \<and> waitLock (procs t p) = None \<and> \<not> holds t tag p m \<longrightarrow>
      (\<exists>r t'. LockAcquire_table tag p m dontWait room_lock room_proclock t = Inr (r, t')
        \<and> (r = AcquireWaiting \<longleftrightarrow> waitLock (procs t' p) = Some tag)))
    \<and> (\<exists>t'. cancel_wait p t = Inr t' \<and> waitLock (procs t' p) = None)
    \<and> (waitLock (procs t p) = None \<and> holds t tag p m \<longrightarrow> (\<exists>t'. LockRelease_table tag p m t = Inr (True, t')))"
  using LockAcquire_inv [OF lock_reach_inv [OF assms], of m p tag dontWait room_lock room_proclock]
    cancel_wait_inv [OF lock_reach_inv [OF assms], of p] LockRelease_inv [OF lock_reach_inv [OF assms], of p tag m]
  by blast

section \<open>Examples\<close>

lemma acquire_reach:
  assumes "lock_reach t" "valid_mode m" "waitLock (procs t p) = None" "\<not> holds t tag p m"
  shows "lock_reach (snd (projr (LockAcquire_table tag p m dontWait room_lock room_proclock t)))"
proof -
  obtain r t' where "LockAcquire_table tag p m dontWait room_lock room_proclock t = Inr (r, t')"
    using LockAcquire_inv [OF lock_reach_inv [OF assms(1)] assms(2-)] by blast
  with lock_reach.acquire [OF assms] show ?thesis by simp
qed

definition ex_tag :: LOCKTAG where
  "ex_tag = \<lparr>locktag_field1 = 5, locktag_field2 = 16384, locktag_field3 = 0, locktag_field4 = 0,
     locktag_type = 0, locktag_lockmethodid = 1\<rparr>"

text \<open>A leader and a worker of one lock group hold conflicting modes; a third process waits.\<close>

definition ex_group :: lock_table where
  "ex_group = snd (BecomeLockGroupMember 2 1 True (BecomeLockGroupLeader 1 init_table))"

definition ex_strong :: lock_table where
  "ex_strong = snd (projr (LockAcquire_table ex_tag 1 AccessExclusiveLock False True True ex_group))"

definition ex_weak :: lock_table where
  "ex_weak = snd (projr (LockAcquire_table ex_tag 2 AccessShareLock False True True ex_strong))"

definition ex_wait :: lock_table where
  "ex_wait = snd (projr (LockAcquire_table ex_tag 3 RowShareLock False True True ex_weak))"

lemma ex_group_reach: "lock_reach ex_group"
proof -
  have "lock_reach (BecomeLockGroupLeader 1 init_table)"
    by (rule lock_reach.lead [OF lock_reach.start]) (simp add: init_table_def)
  then show ?thesis
    unfolding ex_group_def by (rule lock_reach.join) (simp_all add: BecomeLockGroupLeader_def init_table_def)
qed

lemma ex_strong_reach: "lock_reach ex_strong"
  unfolding ex_strong_def by (rule acquire_reach [OF ex_group_reach]) code_simp+

lemma ex_weak_reach: "lock_reach ex_weak"
  unfolding ex_weak_def by (rule acquire_reach [OF ex_strong_reach]) code_simp+

lemma ex_wait_reach: "lock_reach ex_wait"
  unfolding ex_wait_def by (rule acquire_reach [OF ex_weak_reach]) code_simp+

theorem locks_exclude_witness: "group_of (procs ex_weak) 1 = group_of (procs ex_weak) 2"
  by (rule locks_exclude [OF ex_weak_reach, of ex_tag 1 AccessExclusiveLock 2 AccessShareLock]) code_simp+

theorem waiters_blocked_witness:
  "\<exists>lock pre post. locks ex_wait ex_tag = Some lock \<and> waitProcs lock = pre @ 3 # post \<and>
    ((\<exists>q \<in> set pre. DoLockModesConflict (waitLockMode (procs ex_wait 3)) (waitLockMode (procs ex_wait q)))
     \<or> (\<exists>q j. holds ex_wait ex_tag q j \<and> group_of (procs ex_wait) q \<noteq> group_of (procs ex_wait) 3
          \<and> DoLockModesConflict (waitLockMode (procs ex_wait 3)) j))"
  by (rule waiters_blocked [OF ex_wait_reach]) code_simp

theorem release_effect_witness:
  "\<exists>t'. LockRelease_table ex_tag 1 AccessExclusiveLock ex_wait = Inr (True, t')
    \<and> (\<forall>tg q j. holds t' tg q j \<longleftrightarrow> (holds ex_wait tg q j \<and> \<not> (tg = ex_tag \<and> q = 1 \<and> j = AccessExclusiveLock))
         \<or> (tg = ex_tag \<and> waitLock (procs ex_wait q) = Some ex_tag \<and> waitLock (procs t' q) = None
              \<and> j = waitLockMode (procs ex_wait q)))
    \<and> (\<forall>q. waitLock (procs ex_wait q) = Some ex_tag \<and> waitLock (procs t' q) = None
         \<longrightarrow> waitStatus (procs t' q) = STATUS_OK)"
  by (rule release_effect [OF ex_wait_reach]) code_simp+

theorem conditional_acquire_witness:
  "fst (projr (LockAcquire_table ex_tag 3 RowShareLock True True True ex_weak)) = AcquireNotAvail"
proof -
  have "holds ex_weak ex_tag 1 AccessExclusiveLock"
    "group_of (procs ex_weak) 1 \<noteq> group_of (procs ex_weak) 3" "DoLockModesConflict RowShareLock AccessExclusiveLock"
    by code_simp+
  moreover have "valid_mode RowShareLock" "waitLock (procs ex_weak 3) = None" "\<not> holds ex_weak ex_tag 3 RowShareLock"
    by code_simp+
  ultimately show ?thesis
    using conditional_acquire [OF ex_weak_reach, of RowShareLock 3 ex_tag] by (metis (no_types, lifting) fst_conv sum.sel(2))
qed

theorem lock_table_consistent_witness:
  "\<exists>t'. cancel_wait 3 ex_wait = Inr t' \<and> waitLock (procs t' 3) = None"
  using lock_table_consistent [OF ex_wait_reach] by blast

end
