(* ===== verification/Spec2Isabelle.thy ===== *)
theory Spec2Isabelle
  imports Hyperedge Backend_Reads Snapmgr_Main Varsup_Race Lock_Main
begin

text \<open>
  A verification library for the transaction core of PostgreSQL 12.2 (\<^verbatim>\<open>src/postgresql-12.2\<close>; paths below are relative to its
  \<^verbatim>\<open>src\<close>), with the hyperedge extension that this repository adds to \<^verbatim>\<open>backend/tcop/postgres.c\<close>.

  \<^bold>\<open>The program.\<close> A backend reads queries in \<^verbatim>\<open>PostgresMain\<close> and runs each in a transaction, a stack of transaction states kept by
  \<^verbatim>\<open>xact.c\<close>. A transaction that writes gets an id from \<^verbatim>\<open>varsup.c\<close>, advertises it in the shared array of \<^verbatim>\<open>procarray.c\<close>,
  links the ids of its subtransactions in \<^verbatim>\<open>pg_subtrans\<close> and records its outcome in \<^verbatim>\<open>pg_xact\<close>. Tuples carry the ids of the
  transactions that inserted and deleted them; \<^verbatim>\<open>heapam_visibility.c\<close> decides with a snapshot of the array, the logs and the
  transaction's own stack whether a tuple is visible, and vacuum decides with the oldest advertised \<open>xmin\<close> whether it is dead.
  \<^verbatim>\<open>snapmgr.c\<close> keeps the snapshots of a backend and its advertised \<open>xmin\<close>.

  \<^bold>\<open>Ids.\<close> \<open>Prelude\<close> has the shared lemmas on bits, words, positions and binary search. \<open>Transam\<close> models the ids of
  \<^verbatim>\<open>include/access/transam.h\<close> and \<^verbatim>\<open>backend/access/transam/transam.c\<close> as 32-bit words compared on a circle, with \<open>in_window\<close> for the half
  circle in which the comparison is an order. \<open>Varsup\<close> models \<^verbatim>\<open>varsup.c\<close>: the counter, its limits, the 64-bit epochs and object ids.
  \<^verbatim>\<open>GetNewTransactionId\<close> has two sections under its lock, \<open>xid_gate\<close> and \<open>take_xid\<close>, between which other backends move; \<open>Varsup_Race\<close> lets up
  to \<^verbatim>\<open>MAX_BACKENDS\<close> backends interleave these sections with moves of the oldest id and shows how far the ids can get past the stop limit. In the
  transaction model the moves of the others in between are a parameter (\<open>othersMeanwhile\<close>).

  \<^bold>\<open>Logs.\<close> \<open>Clog\<close> models \<^verbatim>\<open>clog.c\<close> (two bits per id, group LSNs, recording a transaction tree page by page), \<open>Subtrans\<close> models
  \<^verbatim>\<open>subtrans.c\<close>, and \<open>TransLog\<close> the outcome tests and recording routines of \<^verbatim>\<open>transam.c\<close> over both. The locale
  \<open>status_log\<close> is the interface of a log of outcomes and \<open>parent_log\<close> that of parent links; both are interpreted on the models
  of the two files. The lemmas show that a tree is recorded as a whole, that every prefix of the bit writes shows all or nothing of a
  commit to an observer, and that the loops along parent links end.

  \<^bold>\<open>Running transactions.\<close> \<open>KnownAssigned\<close> models the array of ids that a hot standby tracks (in \<^verbatim>\<open>procarray.c\<close>), whose operations
  refine an ascending list of ids (locale \<open>id_collection\<close>). \<open>Procarray\<close> models the array of backends: joining and leaving, ending
  transactions, \<^verbatim>\<open>TransactionIdIsInProgress\<close>, \<^verbatim>\<open>GetSnapshotData\<close> and \<^verbatim>\<open>GetOldestXmin\<close>. \<open>Procarray_Props\<close> shows
  what a snapshot contains and what the progress test answers, \<open>Procarray_Horizon\<close> what the vacuum horizon protects.

  \<^bold>\<open>Visibility.\<close> \<open>HeapTuple\<close> and \<open>Combocid\<close> model tuple headers (\<^verbatim>\<open>htup_details.h\<close>) and \<^verbatim>\<open>combocid.c\<close>, \<open>Snapshot\<close> the
  membership test, \<open>Visibility\<close> every test of \<^verbatim>\<open>heapam_visibility.c\<close> as a function of an environment \<open>xact_env\<close> that returns
  the answer with the changed tuple and buffer. \<open>Visibility_Props\<close>, \<open>Vacuum_Props\<close> and \<open>Hint_Frame\<close> prove the tests
  against specifications without hint bits; \<open>Visibility_Main\<close> has the resulting properties.

  \<^bold>\<open>Transactions and sessions.\<close> \<open>Xact\<close> models \<^verbatim>\<open>xact.c\<close>: the state of a backend is the record \<open>xact\<close>, routines return an error or
  a value with the new state, and the commands of transaction blocks and savepoints, commit, abort, id assignment and the serialized
  state of parallel workers are functions of it. \<open>Session\<close> models simple queries, transaction statements and error recovery of
  \<^verbatim>\<open>postgres.c\<close> and \<^verbatim>\<open>utility.c\<close>; other statements are the list of their calls into \<^verbatim>\<open>xact.c\<close>. \<open>Xact_Recovery\<close>,
  \<open>Xact_Commands\<close> (locale \<open>commit_loop\<close>, interpreted for commit and for release) and \<open>Session_Props\<close> prove that each routine
  implements its step of an abstract block automaton; \<open>Session_Main\<close> states this for queries and sessions. \<open>Xact_Outcome\<close>
  shows that commits and exits record the whole tree, \<open>Xact_Xids\<close> and \<open>Xact_Current\<close> that ids on the stack are well-formed and what
  counts as current, also in workers. \<open>Hyperedge\<close> models the repository's extension of the main loop. Sessions describe the loop
  of queries as if the call of \<^verbatim>\<open>connectToHGDB\<close> in front of it returned; \<open>Hyperedge\<close> models the rounds of its conversation and shows that it
  does not. After an overrun of a buffer, where the behaviour of C is undefined, the model stops with an error value.

  \<^bold>\<open>Snapshots in use.\<close> \<open>Pairingheap\<close> models \<^verbatim>\<open>backend/lib/pairingheap.c\<close>; the locale \<open>ranked\<close> has the laws of a comparison by
  keys, and is interpreted on the comparison of \<^verbatim>\<open>snapmgr.c\<close>. \<open>Snapmgr\<close> models that file with snapshots in an explicit
  store. \<open>Snapmgr_Props\<close>, \<open>Snapmgr_Ops\<close> and \<open>Snapmgr_Refs\<close> prove the invariant of references and of the advertised \<open>xmin\<close> for
  each operation, \<open>Snapmgr_Main\<close> for all sequences of calls interleaved with other backends. \<open>Backend_Reads\<close> composes the models:
  the tests that visibility calls are those of the transaction state, the array and the logs.

  \<^bold>\<open>Locks.\<close> \<open>Lock\<close> models the shared lock table of \<^verbatim>\<open>backend/storage/lmgr/lock.c\<close> and the wait queues of \<^verbatim>\<open>proc.c\<close>: a lock object is the
  record \<open>LOCK\<close> with its holders and waiters, the table a map from tags to objects together with the lock fields of the processes, and every
  section under a partition lock one function that returns an error for each failed internal check. \<open>Lock_Check\<close> shows that the conflict table is
  symmetric and that the counting in \<^verbatim>\<open>LockCheckConflicts\<close> finds exactly the conflicts with other lock groups. \<open>Lock_Props\<close>, \<open>Lock_Ops\<close>,
  \<open>Lock_Requests\<close> and \<open>Lock_Table\<close> prove the invariant of an object (counts and masks are those of holders and waiters, no conflict between
  groups, every waiter blocked) for granting, releasing, waking, queueing and whole requests. \<open>Lock_Main\<close> interleaves them: mutual
  exclusion (locale \<open>lock_service\<close>), no lost wake-up, no failed check, and the exact effect of releases and conditional requests. The deadlock search
  appears as an arbitrary reordering of a wait queue.

  \<^bold>\<open>Loops.\<close> No definition needs fuel. Loops that end by a measure are functions with a termination proof; loops along links in
  shared memory, which end only if the links are sane (\<^verbatim>\<open>TransactionIdDidCommit\<close>, \<^verbatim>\<open>TransactionIdDidAbort\<close>,
  \<^verbatim>\<open>SubTransGetTopmostTransaction\<close>), and the loop of \<^verbatim>\<open>connectToHGDB\<close> are partial functions whose value \<open>None\<close> means that
  they do not return; that they return is proved where it holds. Ids are words of their width, and bounds of the form \<open>in_window\<close> say that ids in use
  span less than half the circle, which \<open>Varsup_Race\<close> shows to follow from the limits of \<open>Varsup\<close> for every number of backends the server allows.

  \<^bold>\<open>Not modelled.\<close> Sections under a lock of shared memory are single steps; memory allocation does not fail; errors that the cleanup after
  the commit point of a transaction might raise are left out, and so is the dummy process that \<^verbatim>\<open>PREPARE TRANSACTION\<close> leaves in the array. Left out are the
  paging of the logs (\<^verbatim>\<open>slru.c\<close>), WAL contents, multixact storage, state files of prepared transactions, snapshot export, logical decoding,
  serializable conflict detection, the fast path and the local tables of locks, the deadlock search, lightweight and predicate locks, buffers and storage, parser, planner, executor and catalogs (a statement is what it calls in
  \<^verbatim>\<open>xact.c\<close>), the extended query protocol, signals and process control, client programs, and the Java hypergraph server, whose answers
  are parameters: they are input and output, generated code, or independent of the transaction core.
\<close>

end
